(* ===== verification/Forge_Prelude.thy ===== *)
theory Forge_Prelude
  imports Main "HOL-Library.Word"
begin

unbundle bit_operations_syntax

text \<open>
  Shared vocabulary of the development: the machine integer types of the Rust sources, byte
  strings and the big-endian conversions of the standard library, the error type of
  \<^verbatim>\<open>crates/forge-core/src/error.rs\<close>, saturating and checked \<^verbatim>\<open>usize\<close> arithmetic, the
  decimal \<^verbatim>\<open>Display\<close> of unsigned integers, and three interfaces the components implement:
  a prefix codec (\<open>prefix_codec\<close>), a system whose operations keep an invariant
  (\<open>stepped_system\<close>) and a transition relation with an invariant (\<open>transition_system\<close>).

  Conventions: \<^verbatim>\<open>usize\<close> is \<^typ>\<open>nat\<close>, with the 64-bit bound written out where the code
  checks it; a Rust \<^verbatim>\<open>Result<T, E>\<close> is \<open>'e + 'a\<close> with \<open>Inl\<close> the error; a method that takes
  \<^verbatim>\<open>&mut self\<close> takes the record and returns the new one; a clock reading is an argument
  \<open>now\<close>, in nanoseconds since an arbitrary origin, as a \<^typ>\<open>nat\<close>.
\<close>

section \<open>Types\<close>

type_synonym u8 = "8 word"
type_synonym u16 = "16 word"
type_synonym u32 = "32 word"
type_synonym u64 = "64 word"
type_synonym bytes = "u8 list"

text \<open>An instant or a duration of \<^verbatim>\<open>std::time\<close>, in nanoseconds.\<close>

type_synonym instant = nat
type_synonym duration = nat

text \<open>
  \<^verbatim>\<open>ForgeError\<close>, the payload a message; an I/O error and a socket address, which only the
  unmodelled I/O code builds, are their \<^verbatim>\<open>Display\<close> strings.
\<close>

datatype ForgeError =
    SessionNotFound string
  | RoomNotFound string
  | ParticipantNotFound string
  | RecordingNotFound string
  | InvalidConfig string
  | Io string
  | Codec string
  | Network string
  | AddrInUse string
  | PortAllocationFailed
  | Rtp string
  | Srtp string
  | Rtcp string
  | Sdp string
  | Ice string
  | Transcoding string
  | Recording string
  | Internal string
  | Timeout
  | ResourceLimit string

section \<open>Standard library\<close>

subsection \<open>Integers\<close>

definition checked_add_usize :: "nat \<Rightarrow> nat \<Rightarrow> nat option" where
  "checked_add_usize a b = (if a + b < 2 ^ 64 then Some (a + b) else None)"

definition checked_mul_usize :: "nat \<Rightarrow> nat \<Rightarrow> nat option" where
  "checked_mul_usize a b = (if a * b < 2 ^ 64 then Some (a * b) else None)"

definition checked_sub_usize :: "nat \<Rightarrow> nat \<Rightarrow> nat option" where
  "checked_sub_usize a b = (if b \<le> a then Some (a - b) else None)"

text \<open>\<open>(n + 3) & !3\<close>: the next multiple of four.\<close>

definition round_up4 :: "nat \<Rightarrow> nat" where
  "round_up4 n = (n + 3) div 4 * 4"

text \<open>The \<^verbatim>\<open>Display\<close> of an unsigned integer.\<close>

fun show_nat :: "nat \<Rightarrow> string" where
  "show_nat n =
     (if n < 10 then [char_of (48 + n)] else show_nat (n div 10) @ [char_of (48 + n mod 10)])"

declare show_nat.simps [simp del]

text \<open>The \<^verbatim>\<open>Display\<close> of an unsigned integer under the format \<^verbatim>\<open>{:#x}\<close>.\<close>

fun hex_digits :: "nat \<Rightarrow> string" where
  "hex_digits n =
     (if n < 16 then ''0123456789abcdef'' ! n # []
      else hex_digits (n div 16) @ [''0123456789abcdef'' ! (n mod 16)])"

declare hex_digits.simps [simp del]

definition show_hex :: "nat \<Rightarrow> string" where
  "show_hex n = ''0x'' @ hex_digits n"

subsection \<open>Big-endian bytes\<close>

definition be16 :: "u8 \<Rightarrow> u8 \<Rightarrow> u16" where
  "be16 a b = push_bit 8 (ucast a) OR ucast b"

definition to_be16 :: "u16 \<Rightarrow> bytes" where
  "to_be16 w = [ucast (drop_bit 8 w), ucast w]"

definition be32 :: "u8 \<Rightarrow> u8 \<Rightarrow> u8 \<Rightarrow> u8 \<Rightarrow> u32" where
  "be32 a b c d =
     push_bit 24 (ucast a) OR push_bit 16 (ucast b) OR push_bit 8 (ucast c) OR ucast d"

definition to_be32 :: "u32 \<Rightarrow> bytes" where
  "to_be32 w =
     [ucast (drop_bit 24 w), ucast (drop_bit 16 w), ucast (drop_bit 8 w), ucast w]"

definition be64 :: "u8 \<Rightarrow> u8 \<Rightarrow> u8 \<Rightarrow> u8 \<Rightarrow> u8 \<Rightarrow> u8 \<Rightarrow> u8 \<Rightarrow> u8 \<Rightarrow> u64" where
  "be64 a b c d e f g h = push_bit 32 (ucast (be32 a b c d)) OR ucast (be32 e f g h)"

definition to_be64 :: "u64 \<Rightarrow> bytes" where
  "to_be64 w = to_be32 (ucast (drop_bit 32 w)) @ to_be32 (ucast w)"

fun get_u16 :: "bytes \<Rightarrow> (u16 \<times> bytes) option" where
  "get_u16 (a # b # rest) = Some (be16 a b, rest)"
| "get_u16 _ = None"

fun get_u32 :: "bytes \<Rightarrow> (u32 \<times> bytes) option" where
  "get_u32 (a # b # c # d # rest) = Some (be32 a b c d, rest)"
| "get_u32 _ = None"

subsection \<open>Sequences of items\<close>

text \<open>Reading \<open>n\<close> items in a row.\<close>

fun decode_many :: "(bytes \<Rightarrow> ('a \<times> bytes) option) \<Rightarrow> nat \<Rightarrow> bytes \<Rightarrow> ('a list \<times> bytes) option"
where
  "decode_many dec 0 bs = Some ([], bs)"
| "decode_many dec (Suc n) bs =
     (case dec bs of
        None \<Rightarrow> None
      | Some (x, rest) \<Rightarrow>
          (case decode_many dec n rest of
             None \<Rightarrow> None
           | Some (xs, rest') \<Rightarrow> Some (x # xs, rest')))"

text \<open>\<^verbatim>\<open>Iterator::find_map\<close>: the first value a function has on the items.\<close>

fun find_map :: "('a \<Rightarrow> 'b option) \<Rightarrow> 'a list \<Rightarrow> 'b option" where
  "find_map f [] = None"
| "find_map f (x # xs) = (case f x of None \<Rightarrow> find_map f xs | Some y \<Rightarrow> Some y)"

text \<open>\<^verbatim>\<open>HashMap::insert\<close> on an association list in the order of iteration.\<close>

fun hm_insert :: "'k \<Rightarrow> 'v \<Rightarrow> ('k \<times> 'v) list \<Rightarrow> ('k \<times> 'v) list" where
  "hm_insert k v [] = [(k, v)]"
| "hm_insert k v ((k', v') # xs) = (if k' = k then (k, v) # xs else (k', v') # hm_insert k v xs)"

text \<open>Octets combined one by one.\<close>

definition xor_bytes :: "bytes \<Rightarrow> bytes \<Rightarrow> bytes" where
  "xor_bytes = map2 (XOR)"

subsection \<open>HMAC-SHA1\<close>

text \<open>
  The HMAC-SHA1 of the \<^verbatim>\<open>hmac\<close> and \<^verbatim>\<open>sha1\<close> crates, which is not part of the sources: from a key and an input the error
  of the constructor or the tag. What the sources rely on: a key of any length is accepted and the tag
  has 20 octets.
\<close>

type_synonym hmac = "bytes \<Rightarrow> bytes \<Rightarrow> string + bytes"

definition hmac_ok :: "hmac \<Rightarrow> bool" where
  "hmac_ok mac \<longleftrightarrow> (\<forall>key input. \<exists>tag. mac key input = Inr tag \<and> length tag = 20)"

section \<open>Lemmas\<close>

subsection \<open>Bits and bytes\<close>

lemma bit_u8_beyond [simp]:
  "\<not> bit (b :: u8) (8 + n)" "\<not> bit (b :: u8) (16 + n)" "\<not> bit (b :: u8) (24 + n)"
  by (auto dest: bit_imp_le_length)

lemma be16_to_be16 [simp]: "be16 (ucast (drop_bit 8 w)) (ucast w) = w"
  unfolding be16_def by (rule bit_word_eqI) (auto simp: bit_simps)

lemma to_be16_be16 [simp]: "to_be16 (be16 a b) = [a, b]"
  unfolding be16_def to_be16_def by (auto intro!: bit_word_eqI simp: bit_simps)

lemma be32_to_be32 [simp]:
  "be32 (ucast (drop_bit 24 w)) (ucast (drop_bit 16 w)) (ucast (drop_bit 8 w)) (ucast w) = w"
  unfolding be32_def by (rule bit_word_eqI) (auto simp: bit_simps, (rule ccontr, simp)+)

lemma to_be32_be32 [simp]: "to_be32 (be32 a b c d) = [a, b, c, d]"
  unfolding be32_def to_be32_def by (auto intro!: bit_word_eqI simp: bit_simps)

lemma unat_u8_less [simp]: "unat (b :: u8) < 256"
  using unsigned_less [of b] by simp

lemma unat_u16_less [simp]: "unat (w :: u16) < 65536"
  using unsigned_less [of w] by simp

lemma unat_u32_less [simp]: "unat (w :: u32) < 4294967296"
  using unsigned_less [of w] by simp

lemma unat_ucast_u32_u64 [simp]: "unat (ucast (w :: u32) :: u64) = unat w"
  using unat_u32_less [of w] by (simp add: unsigned_ucast_eq take_bit_nat_eq_self del: unat_u32_less)

lemma unat_ucast_u16_u64 [simp]: "unat (ucast (w :: u16) :: u64) = unat w"
  using unat_u16_less [of w] by (simp add: unsigned_ucast_eq take_bit_nat_eq_self del: unat_u16_less)

lemma unat_of_nat_u16: "unat (of_nat j :: u16) = j mod 65536"
  by (simp add: unsigned_of_nat take_bit_nat_def)

lemma unat_of_nat_u16_less: "n < 65536 \<Longrightarrow> unat (of_nat n :: u16) = n"
  by (simp add: unat_of_nat_u16)

lemma unat_of_nat_u32: "j < 4294967296 \<Longrightarrow> unat (of_nat j :: u32) = j"
  by (simp add: unsigned_of_nat take_bit_nat_def)

lemma u8_less_128:
  assumes "(t :: u8) < 128" "bit t n"
  shows "n < 7"
proof -
  have "take_bit 7 (unat t) = unat t"
    using assms(1) by (simp add: take_bit_nat_eq_self_iff word_less_nat_alt)
  moreover have "bit (unat t) n"
    using assms(2) by (simp add: bit_unsigned_iff)
  ultimately show ?thesis
    by (metis bit_take_bit_iff)
qed

lemma u8_mod_u16 [simp]: "unat (b :: u8) mod 65536 = unat b"
  by (rule mod_less, rule less_trans [OF unat_u8_less]) simp

lemma unat_ucast_u8_u16 [simp]: "unat (ucast (b :: u8) :: u16) = unat b"
  by (simp add: unsigned_ucast_eq take_bit_nat_def)

lemma unat_be16: "unat (be16 a b) = 256 * unat a + unat b"
proof -
  have "push_bit 8 (ucast a) AND ucast b = (0 :: u16)"
    by (rule bit_word_eqI) (auto simp: bit_simps dest: bit_imp_le_length)
  then have *: "be16 a b = push_bit 8 (ucast a) + ucast b"
    unfolding be16_def by (simp add: disjunctive_add_eq_or)
  have "256 * unat a + unat b < 65536"
    using unat_u8_less [of a] unat_u8_less [of b] by linarith
  then show ?thesis
    by (simp add: * unat_word_ariths push_bit_eq_mult)
qed

lemma length_to_be16 [simp]: "length (to_be16 w) = 2"
  by (simp add: to_be16_def)

lemma length_to_be32 [simp]: "length (to_be32 w) = 4"
  by (simp add: to_be32_def)

lemma length_to_be64 [simp]: "length (to_be64 w) = 8"
  by (simp add: to_be64_def)

lemma push_32_split: "push_bit 32 (ucast (ucast (drop_bit 32 w) :: u32)) OR ucast (ucast w :: u32) = (w :: u64)"
  by (rule bit_word_eqI) (auto simp: bit_simps)

lemma to_be32_split: obtains a b c d where "to_be32 w = [a, b, c, d]" "be32 a b c d = w"
  by (rule that [of "ucast (drop_bit 24 w)" "ucast (drop_bit 16 w)" "ucast (drop_bit 8 w)" "ucast w"])
    (simp_all add: to_be32_def)

lemma to_be64_split:
  obtains a b c d e f g h where "to_be64 w = [a, b, c, d, e, f, g, h]" "be64 a b c d e f g h = w"
proof -
  obtain a b c d where 1: "to_be32 (ucast (drop_bit 32 w)) = [a, b, c, d]" "be32 a b c d = ucast (drop_bit 32 w)"
    by (rule to_be32_split)
  obtain e f g h where 2: "to_be32 (ucast w) = [e, f, g, h]" "be32 e f g h = ucast w"
    by (rule to_be32_split)
  show ?thesis
    by (rule that [of a b c d e f g h]) (simp_all only: to_be64_def be64_def 1 2 push_32_split append.simps)
qed

lemma round_up4_ge [simp]: "n \<le> round_up4 n"
  unfolding round_up4_def by presburger

lemma round_up4_dvd [simp]: "4 dvd round_up4 n"
  unfolding round_up4_def by simp

lemma round_up4_less: "round_up4 n < n + 4"
  unfolding round_up4_def by presburger

lemma round_up4_id: "4 dvd n \<Longrightarrow> round_up4 n = n"
  unfolding round_up4_def by presburger

subsection \<open>Lists\<close>

lemma length_concat_const:
  "(\<And>x. x \<in> set xs \<Longrightarrow> length (f x) = k) \<Longrightarrow> length (concat (map f xs)) = k * length xs"
  by (induction xs) auto

lemma nth_split_4:
  "i + 4 \<le> length xs \<Longrightarrow> drop i xs = xs ! i # xs ! (i + 1) # xs ! (i + 2) # xs ! (i + 3) # drop (i + 4) xs"
  by (simp add: Cons_nth_drop_Suc [symmetric] numeral_eq_Suc)

lemma drop_take_drop: "drop i xs = take n (drop i xs) @ drop (i + n) xs"
proof -
  have "drop (i + n) xs = drop n (drop i xs)" by (simp add: add.commute)
  then show ?thesis by (simp del: drop_drop)
qed

lemma take_prefix_split:
  assumes "d = a @ drop n d" "n \<le> k"
  shows "take k d = a @ take (k - n) (drop n d)"
proof -
  have "a = take n d"
    using assms(1) by (metis append_same_eq append_take_drop_id)
  then show ?thesis
    using assms(2) by (metis le_add_diff_inverse take_add)
qed

lemma length_xor_bytes [simp]: "length (xor_bytes xs ys) = min (length xs) (length ys)"
  by (simp add: xor_bytes_def)

lemma xor_bytes_twice [simp]: "length xs \<le> length ys \<Longrightarrow> xor_bytes (xor_bytes xs ys) ys = xs"
  unfolding xor_bytes_def by (induction xs ys rule: list_induct2') (auto simp: xor.assoc)

lemma xor_cancel [simp]: "(w XOR k) XOR k = (w :: 'a::len word)"
  by (simp add: xor.assoc)

lemma hm_insert_new: "k \<notin> fst ` set xs \<Longrightarrow> hm_insert k v xs = xs @ [(k, v)]"
  by (induction xs) auto

lemma hm_insert_same: "map_of xs k = Some v \<Longrightarrow> hm_insert k v xs = xs"
  by (induction xs) (auto split: if_splits)

lemma map_of_hm_insert [simp]: "map_of (hm_insert k v xs) = (map_of xs)(k \<mapsto> v)"
  by (induction xs) (auto simp: fun_eq_iff)

lemma fst_hm_insert [simp]: "fst ` set (hm_insert k v m) = insert k (fst ` set m)"
  by (induction k v m rule: hm_insert.induct) auto

lemma distinct_hm_insert: "distinct (map fst m) \<Longrightarrow> distinct (map fst (hm_insert k v m))"
  by (induction k v m rule: hm_insert.induct) auto

lemma length_hm_insert: "length (hm_insert k v m) = (if map_of m k = None then Suc (length m) else length m)"
  by (induction k v m rule: hm_insert.induct) auto

lemma map_fst_hm_insert: "map fst (hm_insert k v m) = (if k \<in> fst ` set m then map fst m else map fst m @ [k])"
  by (induction k v m rule: hm_insert.induct) auto

section \<open>Interfaces\<close>

subsection \<open>Prefix codecs\<close>

text \<open>
  An encoder and a decoder of a prefix: what the encoder wrote at the front of a byte string is
  what the decoder reads there, and the decoder hands back the rest.
\<close>

locale prefix_codec =
  fixes enc :: "'a \<Rightarrow> bytes"
    and dec :: "bytes \<Rightarrow> ('a \<times> bytes) option"
    and ok :: "'a \<Rightarrow> bool"
  assumes dec_enc: "ok x \<Longrightarrow> dec (enc x @ rest) = Some (x, rest)"
begin

lemma enc_prefix_free:
  assumes "ok x" "ok y" "enc x @ r = enc y @ s"
  shows "x = y \<and> r = s"
proof -
  have "dec (enc x @ r) = dec (enc y @ s)"
    by (simp only: assms(3))
  then show ?thesis
    by (simp add: dec_enc assms(1,2))
qed

lemma decode_many_enc:
  "(\<And>x. x \<in> set xs \<Longrightarrow> ok x) \<Longrightarrow>
   decode_many dec (length xs) (concat (map enc xs) @ rest) = Some (xs, rest)"
  by (induction xs) (auto simp: dec_enc)

lemma concat_enc_inj:
  assumes "\<And>x. x \<in> set xs \<Longrightarrow> ok x" "\<And>x. x \<in> set ys \<Longrightarrow> ok x" "length xs = length ys"
    and "concat (map enc xs) @ r = concat (map enc ys) @ s"
  shows "xs = ys \<and> r = s"
proof -
  have "decode_many dec (length xs) (concat (map enc xs) @ r)
      = decode_many dec (length ys) (concat (map enc ys) @ s)"
    by (simp only: assms(3,4))
  then show ?thesis
    using decode_many_enc [OF assms(1)] decode_many_enc [OF assms(2)] by auto
qed

end

interpretation u16_be: prefix_codec to_be16 get_u16 "\<lambda>_. True"
  by unfold_locales (simp add: to_be16_def)

interpretation u32_be: prefix_codec to_be32 get_u32 "\<lambda>_. True"
  by unfold_locales (simp add: to_be32_def)

subsection \<open>Systems of operations\<close>

text \<open>
  A component as a state and operations on it: every operation keeps the invariant, so every
  sequence of operations does.
\<close>

locale stepped_system =
  fixes inv :: "'s \<Rightarrow> bool"
    and step :: "'op \<Rightarrow> 's \<Rightarrow> 's"
  assumes step_inv: "inv s \<Longrightarrow> inv (step e s)"
begin

lemma run_inv: "inv s \<Longrightarrow> inv (fold step es s)"
  by (induction es arbitrary: s) (auto simp: step_inv)

end

text \<open>
  A component whose steps may be partial or depend on what arrives, as a relation: what holds at
  the start and is kept by every step holds in every reachable state.
\<close>

locale transition_system =
  fixes init :: "'s \<Rightarrow> bool"
    and step :: "'s \<Rightarrow> 's \<Rightarrow> bool"
    and inv :: "'s \<Rightarrow> bool"
  assumes init_inv: "init s \<Longrightarrow> inv s"
    and step_keeps: "inv s \<Longrightarrow> step s s' \<Longrightarrow> inv s'"
begin

lemma run_keeps: "step\<^sup>*\<^sup>* s s' \<Longrightarrow> inv s \<Longrightarrow> inv s'"
  by (induction rule: rtranclp_induct) (auto intro: step_keeps)

lemma reachable_inv: "init s \<Longrightarrow> step\<^sup>*\<^sup>* s s' \<Longrightarrow> inv s'"
  using run_keeps init_inv by blast

end

end
