(* ===== verification/Rtp_Packet.thy ===== *)
theory Rtp_Packet
  imports Forge_Prelude
begin

text \<open>
  RTP packets, \<^verbatim>\<open>crates/forge-rtp/src/rtp.rs\<close>: the 12-byte header and its bit fields, the
  RFC 8285 header extension in its one-byte and two-byte forms, and \<^verbatim>\<open>RtpPacket::parse\<close>,
  \<^verbatim>\<open>build\<close> and \<^verbatim>\<open>to_bytes\<close>. The lemmas show the two round trips between packets and bytes
  and that header extension elements survive the trip.
\<close>

section \<open>Header\<close>

record RtpHeader =
  version_flags :: u8
  marker_payload_type :: u8
  sequence_number :: u16
  timestamp :: u32
  ssrc :: u32

definition RtpHeader_SIZE :: nat where
  "RtpHeader_SIZE = 12"

definition RtpHeader_version :: "RtpHeader \<Rightarrow> u8" where
  "RtpHeader_version h = drop_bit 6 (version_flags h) AND 3"

definition RtpHeader_padding :: "RtpHeader \<Rightarrow> bool" where
  "RtpHeader_padding h = (version_flags h AND 0x20 \<noteq> 0)"

definition RtpHeader_extension :: "RtpHeader \<Rightarrow> bool" where
  "RtpHeader_extension h = (version_flags h AND 0x10 \<noteq> 0)"

definition RtpHeader_csrc_count :: "RtpHeader \<Rightarrow> u8" where
  "RtpHeader_csrc_count h = version_flags h AND 0x0F"

definition RtpHeader_marker :: "RtpHeader \<Rightarrow> bool" where
  "RtpHeader_marker h = (marker_payload_type h AND 0x80 \<noteq> 0)"

definition RtpHeader_payload_type :: "RtpHeader \<Rightarrow> u8" where
  "RtpHeader_payload_type h = marker_payload_type h AND 0x7F"

definition RtpHeader_set_payload_type :: "u8 \<Rightarrow> RtpHeader \<Rightarrow> RtpHeader" where
  "RtpHeader_set_payload_type pt h =
     h\<lparr>marker_payload_type := (marker_payload_type h AND 0x80) OR (pt AND 0x7F)\<rparr>"

definition RtpHeader_parse :: "bytes \<Rightarrow> ForgeError + RtpHeader" where
  "RtpHeader_parse data =
     (if length data < RtpHeader_SIZE then Inl (Rtp ''Packet too short'')
      else Inr \<lparr>version_flags = data ! 0,
                marker_payload_type = data ! 1,
                sequence_number = be16 (data ! 2) (data ! 3),
                timestamp = be32 (data ! 4) (data ! 5) (data ! 6) (data ! 7),
                ssrc = be32 (data ! 8) (data ! 9) (data ! 10) (data ! 11)\<rparr>)"

definition RtpHeader_write :: "RtpHeader \<Rightarrow> bytes" where
  "RtpHeader_write h =
     [version_flags h, marker_payload_type h] @ to_be16 (sequence_number h) @
     to_be32 (timestamp h) @ to_be32 (ssrc h)"

section \<open>Header extension\<close>

definition ONE_BYTE_EXTENSION_PROFILE :: u16 where
  "ONE_BYTE_EXTENSION_PROFILE = 0xBEDE"

definition TWO_BYTE_EXTENSION_PROFILE :: u16 where
  "TWO_BYTE_EXTENSION_PROFILE = 0x1000"

record RtpExtension =
  ext_profile :: u16
  ext_data :: bytes

text \<open>The loop over the one-byte form; \<open>d\<close> is what is left of the data.\<close>

function one_byte_elements :: "bytes \<Rightarrow> (u8 \<times> bytes) list" where
  "one_byte_elements d =
     (case d of
        [] \<Rightarrow> []
      | b # r \<Rightarrow>
          if b = 0 then one_byte_elements r
          else let i = drop_bit 4 b in
            if i = 15 then []
            else let len = unat (b AND 0x0F) + 1 in
              if len \<le> length r then (i, take len r) # one_byte_elements (drop len r) else [])"
  by pat_completeness auto
termination by (relation "measure length") auto

function two_byte_elements :: "bytes \<Rightarrow> (u8 \<times> bytes) list" where
  "two_byte_elements d =
     (case d of
        [] \<Rightarrow> []
      | i # r \<Rightarrow>
          if i = 0 then two_byte_elements r
          else (case r of
                  [] \<Rightarrow> []
                | l # r' \<Rightarrow>
                    if unat l \<le> length r'
                    then (i, take (unat l) r') # two_byte_elements (drop (unat l) r')
                    else []))"
  by pat_completeness auto
termination by (relation "measure length") auto

declare one_byte_elements.simps [simp del] two_byte_elements.simps [simp del]

definition RtpExtension_elements :: "RtpExtension \<Rightarrow> (u8 \<times> bytes) list" where
  "RtpExtension_elements e =
     (if ext_profile e = ONE_BYTE_EXTENSION_PROFILE then one_byte_elements (ext_data e)
      else if ext_profile e AND 0xFFF0 = TWO_BYTE_EXTENSION_PROFILE
      then two_byte_elements (ext_data e)
      else [])"

definition RtpExtension_element :: "u8 \<Rightarrow> RtpExtension \<Rightarrow> bytes option" where
  "RtpExtension_element i e = map_option snd (find (\<lambda>(j, _). j = i) (RtpExtension_elements e))"

text \<open>The elements the one-byte form can carry, and the bytes of one.\<close>

definition one_byte_fits :: "u8 \<times> bytes \<Rightarrow> bool" where
  "one_byte_fits = (\<lambda>(i, e). 1 \<le> i \<and> i \<le> 14 \<and> e \<noteq> [] \<and> length e \<le> 16)"

definition one_byte_element :: "u8 \<times> bytes \<Rightarrow> bytes" where
  "one_byte_element = (\<lambda>(i, e). (push_bit 4 i OR (of_nat (length e) - 1)) # e)"

definition RtpExtension_one_byte :: "(u8 \<times> bytes) list \<Rightarrow> RtpExtension" where
  "RtpExtension_one_byte es =
     \<lparr>ext_profile = ONE_BYTE_EXTENSION_PROFILE,
      ext_data = concat (map one_byte_element (filter one_byte_fits es))\<rparr>"

definition two_byte_fits :: "u8 \<times> bytes \<Rightarrow> bool" where
  "two_byte_fits = (\<lambda>(i, e). i \<noteq> 0 \<and> length e \<le> 255)"

definition two_byte_element :: "u8 \<times> bytes \<Rightarrow> bytes" where
  "two_byte_element = (\<lambda>(i, e). i # of_nat (length e) # e)"

definition RtpExtension_two_byte :: "(u8 \<times> bytes) list \<Rightarrow> RtpExtension" where
  "RtpExtension_two_byte es =
     \<lparr>ext_profile = TWO_BYTE_EXTENSION_PROFILE,
      ext_data = concat (map two_byte_element (filter two_byte_fits es))\<rparr>"

definition RtpExtension_parse :: "bytes \<Rightarrow> ForgeError + RtpExtension" where
  "RtpExtension_parse data =
     (if length data < 4 then Inl (Rtp ''Extension too short'')
      else (case checked_mul_usize (unat (be16 (data ! 2) (data ! 3))) 4 of
              None \<Rightarrow> Inl (Rtp ''Extension length overflow'')
            | Some len \<Rightarrow>
                (case checked_add_usize 4 len of
                   None \<Rightarrow> Inl (Rtp ''Extension length overflow'')
                 | Some whole \<Rightarrow>
                     if length data < whole then Inl (Rtp ''Extension data truncated'')
                     else Inr \<lparr>ext_profile = be16 (data ! 0) (data ! 1),
                               ext_data = take len (drop 4 data)\<rparr>)))"

definition RtpExtension_write :: "RtpExtension \<Rightarrow> bytes" where
  "RtpExtension_write e =
     (let padded_len = round_up4 (length (ext_data e))
      in to_be16 (ext_profile e) @ to_be16 (of_nat (padded_len div 4)) @ ext_data e @
         replicate (padded_len - length (ext_data e)) 0)"

definition RtpExtension_total_size :: "RtpExtension \<Rightarrow> nat" where
  "RtpExtension_total_size e = 4 + length (ext_data e)"

section \<open>Packet\<close>

record RtpPacket =
  header :: RtpHeader
  csrc_list :: "u32 list"
  extension :: "RtpExtension option"
  payload :: bytes
  padding_len :: u8

text \<open>The loop that reads the CSRC list, from \<open>offset\<close>.\<close>

fun parse_csrc_list :: "nat \<Rightarrow> bytes \<Rightarrow> nat \<Rightarrow> ForgeError + (u32 list \<times> nat)" where
  "parse_csrc_list 0 data offset = Inr ([], offset)"
| "parse_csrc_list (Suc n) data offset =
     (if offset + 4 > length data then Inl (Rtp ''Invalid CSRC list'')
      else (case parse_csrc_list n data (offset + 4) of
              Inl e \<Rightarrow> Inl e
            | Inr (rest, offset') \<Rightarrow>
                Inr (be32 (data ! offset) (data ! (offset + 1)) (data ! (offset + 2))
                       (data ! (offset + 3)) # rest, offset')))"

text \<open>The extension, if the header announces one, and the offset after it.\<close>

definition parse_extension ::
  "RtpHeader \<Rightarrow> bytes \<Rightarrow> nat \<Rightarrow> ForgeError + (RtpExtension option \<times> nat)" where
  "parse_extension h data offset =
     (if RtpHeader_extension h
      then (case RtpExtension_parse (drop offset data) of
              Inl e \<Rightarrow> Inl e
            | Inr ext \<Rightarrow> Inr (Some ext, offset + RtpExtension_total_size ext))
      else Inr (None, offset))"

text \<open>The padding length, if the header announces padding.\<close>

definition parse_padding :: "RtpHeader \<Rightarrow> bytes \<Rightarrow> nat \<Rightarrow> ForgeError + u8" where
  "parse_padding h data offset =
     (if RtpHeader_padding h
      then if data = [] then Inl (Rtp ''Missing padding length'')
        else let len = unat (data ! (length data - 1)) in
          if len = 0 then Inl (Rtp ''Invalid padding length'')
          else (case checked_sub_usize (length data) len of
                  None \<Rightarrow> Inl (Rtp ''Invalid padding length'')
                | Some payload_end \<Rightarrow>
                    if payload_end < offset then Inl (Rtp ''Invalid padding length'')
                    else Inr (of_nat len))
      else Inr 0)"

definition RtpPacket_parse :: "bytes \<Rightarrow> ForgeError + RtpPacket" where
  "RtpPacket_parse data =
     (if length data < RtpHeader_SIZE then Inl (Rtp ''Packet too short'')
      else (case RtpHeader_parse data of
        Inl e \<Rightarrow> Inl e
      | Inr h \<Rightarrow>
          if RtpHeader_version h \<noteq> 2
          then Inl (Rtp (''Invalid RTP version: '' @ show_nat (unat (RtpHeader_version h))))
          else (case parse_csrc_list (unat (RtpHeader_csrc_count h)) data RtpHeader_SIZE of
            Inl e \<Rightarrow> Inl e
          | Inr (csrcs, offset) \<Rightarrow>
              (case parse_extension h data offset of
                Inl e \<Rightarrow> Inl e
              | Inr (ext, offset') \<Rightarrow>
                  (case parse_padding h data offset' of
                    Inl e \<Rightarrow> Inl e
                  | Inr pad \<Rightarrow>
                      (case checked_sub_usize (length data) (unat pad) of
                        None \<Rightarrow> Inl (Rtp ''Invalid padding length'')
                      | Some payload_end \<Rightarrow>
                          if offset' > payload_end then Inl (Rtp ''Invalid payload length'')
                          else Inr \<lparr>header = h, csrc_list = csrcs, extension = ext,
                                    payload = take (payload_end - offset') (drop offset' data),
                                    padding_len = pad\<rparr>))))))"

definition RtpPacket_build ::
  "u8 \<Rightarrow> u16 \<Rightarrow> u32 \<Rightarrow> u32 \<Rightarrow> bytes \<Rightarrow> bool \<Rightarrow> RtpPacket" where
  "RtpPacket_build pt seq ts src pl marker =
     \<lparr>header = \<lparr>version_flags = 0x80,
                marker_payload_type = (if marker then 0x80 OR pt else pt),
                sequence_number = seq, timestamp = ts, ssrc = src\<rparr>,
      csrc_list = [], extension = None, payload = pl, padding_len = 0\<rparr>"

definition RtpPacket_to_bytes :: "RtpPacket \<Rightarrow> bytes" where
  "RtpPacket_to_bytes p =
     (let h = header p;
          vf = (if extension p \<noteq> None then version_flags h OR 0x10
                else version_flags h AND NOT 0x10);
          buf = RtpHeader_write (h\<lparr>version_flags := vf\<rparr>) @
                concat (map to_be32 (csrc_list p)) @
                (case extension p of None \<Rightarrow> [] | Some e \<Rightarrow> RtpExtension_write e) @
                payload p
      in if padding_len p > 0
         then buf @ replicate (unat (padding_len p) - 1) 0 @ [padding_len p]
         else buf)"

section \<open>Bit fields\<close>

lemma u8_AND_exp: "(x :: u8) AND 0x10 \<noteq> 0 \<longleftrightarrow> bit x 4" "(x :: u8) AND 0x20 \<noteq> 0 \<longleftrightarrow> bit x 5"
    "(x :: u8) AND 0x80 \<noteq> 0 \<longleftrightarrow> bit x 7"
  using and_exp_eq_0_iff_not_bit [of x 4] and_exp_eq_0_iff_not_bit [of x 5]
    and_exp_eq_0_iff_not_bit [of x 7] by simp_all

text \<open>The bits of the constants, over \<^typ>\<open>int\<close> as \<open>bit_simps\<close> leaves them.\<close>

lemma numeral_bits:
  "bit (16 :: int) n \<longleftrightarrow> n = 4" "bit (128 :: int) n \<longleftrightarrow> n = 7"
  "bit (3 :: int) n \<longleftrightarrow> n < 2" "bit (15 :: int) n \<longleftrightarrow> n < 4" "bit (127 :: int) n \<longleftrightarrow> n < 7"
proof -
  have "(16 :: int) = 2 ^ 4" "(128 :: int) = 2 ^ 7"
    "(3 :: int) = mask 2" "(15 :: int) = mask 4" "(127 :: int) = mask 7"
    by (simp_all add: mask_eq_exp_minus_1)
  then show "bit (16 :: int) n \<longleftrightarrow> n = 4" "bit (128 :: int) n \<longleftrightarrow> n = 7"
    "bit (3 :: int) n \<longleftrightarrow> n < 2" "bit (15 :: int) n \<longleftrightarrow> n < 4" "bit (127 :: int) n \<longleftrightarrow> n < 7"
    by (simp_all only: bit_mask_iff bit_exp_iff) auto
qed

lemma u8_set_bit4:
  fixes v :: u8
  shows "drop_bit 6 (v OR 0x10) AND 3 = drop_bit 6 v AND 3"
    "drop_bit 6 (v AND NOT 0x10) AND 3 = drop_bit 6 v AND 3"
    "(v OR 0x10) AND 0x0F = v AND 0x0F" "(v AND NOT 0x10) AND 0x0F = v AND 0x0F"
    "bit v 4 \<Longrightarrow> v OR 0x10 = v" "\<not> bit v 4 \<Longrightarrow> v AND NOT 0x10 = v"
  by (auto intro!: bit_word_eqI simp: bit_simps numeral_bits)

lemma u8_clear_bit4: "\<not> bit (v :: u8) 4 \<Longrightarrow> v AND - 17 = v"
  using u8_set_bit4(6) [of v] by simp

lemma RtpHeader_bits:
  "RtpHeader_padding h \<longleftrightarrow> bit (version_flags h) 5"
  "RtpHeader_extension h \<longleftrightarrow> bit (version_flags h) 4"
  "RtpHeader_marker h \<longleftrightarrow> bit (marker_payload_type h) 7"
  by (simp_all add: RtpHeader_padding_def RtpHeader_extension_def RtpHeader_marker_def u8_AND_exp)

lemma RtpHeader_marker_payload_type:
  "RtpHeader_marker (RtpHeader_set_payload_type pt h) = RtpHeader_marker h"
  "RtpHeader_payload_type (RtpHeader_set_payload_type pt h) = pt AND 0x7F"
  unfolding RtpHeader_bits RtpHeader_payload_type_def RtpHeader_set_payload_type_def
  by (auto intro!: bit_word_eqI simp: bit_simps numeral_bits)

lemma u8_build_marker:
  assumes "pt < (128 :: u8)"
  shows "bit (0x80 OR pt) 7" "\<not> bit pt 7" "(0x80 OR pt) AND 0x7F = pt" "pt AND 0x7F = pt"
  by (auto intro!: bit_word_eqI simp: bit_simps numeral_bits dest: u8_less_128 [OF assms])

section \<open>Header bytes\<close>

lemma length_RtpHeader_write [simp]: "length (RtpHeader_write h) = 12"
  by (simp add: RtpHeader_write_def)

lemma RtpHeader_parse_write: "RtpHeader_parse (RtpHeader_write h @ rest) = Inr h"
  by (simp add: RtpHeader_parse_def RtpHeader_write_def RtpHeader_SIZE_def to_be16_def to_be32_def)

lemma RtpHeader_write_parse:
  assumes "RtpHeader_parse d = Inr h"
  shows "RtpHeader_write h @ drop 12 d = d"
proof -
  from assms have "12 \<le> length d"
    by (auto simp: RtpHeader_parse_def RtpHeader_SIZE_def split: if_splits)
  moreover from this have "d ! 0 # drop (Suc 0) d = d"
    by (cases d) auto
  ultimately have "d ! 0 # d ! 1 # d ! 2 # d ! 3 # d ! 4 # d ! 5 # d ! 6 # d ! 7 # d ! 8 # d ! 9 #
      d ! 10 # d ! 11 # drop 12 d = d"
    by (simp add: numeral_eq_Suc Cons_nth_drop_Suc)
  then show ?thesis
    using assms by (auto simp: RtpHeader_parse_def RtpHeader_write_def RtpHeader_SIZE_def
        split: if_splits)
qed

interpretation rtp_header: prefix_codec RtpHeader_write
  "\<lambda>d. case RtpHeader_parse d of Inl _ \<Rightarrow> None | Inr h \<Rightarrow> Some (h, drop 12 d)" "\<lambda>_. True"
  by unfold_locales (simp add: RtpHeader_parse_write)

section \<open>CSRC list\<close>

lemma parse_csrc_list_write:
  "drop offset data = concat (map to_be32 cs) @ rest \<Longrightarrow> offset \<le> length data \<Longrightarrow>
   parse_csrc_list (length cs) data offset = Inr (cs, offset + 4 * length cs)"
proof (induction cs arbitrary: offset)
  case (Cons c cs)
  have "length data - offset = 4 + length (concat (map to_be32 cs) @ rest)"
    using arg_cong [OF Cons.prems(1), of length] by simp
  then have len: "offset + 4 \<le> length data" by simp
  then have split: "data ! offset # data ! (offset + 1) # data ! (offset + 2) # data ! (offset + 3) #
      drop (offset + 4) data = to_be32 c @ concat (map to_be32 cs) @ rest"
    using Cons.prems(1) nth_split_4 [OF len] by simp
  then have "be32 (data ! offset) (data ! (offset + 1)) (data ! (offset + 2)) (data ! (offset + 3)) = c"
    and "drop (offset + 4) data = concat (map to_be32 cs) @ rest"
    by (auto simp: to_be32_def)
  then show ?case
    using Cons.IH [of "offset + 4"] len by simp
qed simp

lemma parse_csrc_list_sound:
  "parse_csrc_list n data offset = Inr (cs, offset') \<Longrightarrow> offset \<le> length data \<Longrightarrow>
   length cs = n \<and> offset' = offset + 4 * n \<and> offset' \<le> length data \<and>
   drop offset data = concat (map to_be32 cs) @ drop offset' data"
proof (induction n arbitrary: offset cs)
  case (Suc n)
  then obtain rest where rest: "parse_csrc_list n data (offset + 4) = Inr (rest, offset')"
    and len: "offset + 4 \<le> length data"
    and cs: "cs = be32 (data ! offset) (data ! (offset + 1)) (data ! (offset + 2))
        (data ! (offset + 3)) # rest"
    by (auto split: if_splits sum.splits prod.splits)
  show ?case
    using Suc.IH [OF rest] len nth_split_4 [OF len] cs by simp
qed simp

section \<open>Header extension bytes\<close>

lemma length_RtpExtension_write:
  "length (RtpExtension_write e) = 4 + round_up4 (length (ext_data e))"
  by (simp add: RtpExtension_write_def Let_def)

lemma RtpExtension_parse_write:
  assumes "round_up4 (length (ext_data e)) div 4 < 65536"
  shows "RtpExtension_parse (RtpExtension_write e @ rest) =
    Inr (e\<lparr>ext_data := ext_data e @ replicate (round_up4 (length (ext_data e)) - length (ext_data e)) 0\<rparr>)"
proof -
  let ?n = "round_up4 (length (ext_data e))"
  have words: "unat (of_nat (?n div 4) :: u16) = ?n div 4"
    using assms by (simp add: unat_of_nat)
  have "4 dvd ?n" by simp
  then have "?n div 4 * 4 = ?n" by simp
  with assms have "?n < 65536 * 4" by linarith
  with \<open>?n div 4 * 4 = ?n\<close> words show ?thesis
    by (simp add: RtpExtension_parse_def RtpExtension_write_def Let_def to_be16_def
        checked_mul_usize_def checked_add_usize_def)
qed

lemma RtpExtension_parse_sound:
  assumes "RtpExtension_parse d = Inr e"
  shows "RtpExtension_total_size e \<le> length d"
    and "4 dvd length (ext_data e)" and "length (ext_data e) div 4 < 65536"
    and "d = RtpExtension_write e @ drop (RtpExtension_total_size e) d"
proof -
  let ?n = "unat (be16 (d ! 2) (d ! 3)) * 4"
  from assms have len: "4 + ?n \<le> length d"
    and e: "e = \<lparr>ext_profile = be16 (d ! 0) (d ! 1), ext_data = take ?n (drop 4 d)\<rparr>"
    by (auto simp: RtpExtension_parse_def checked_mul_usize_def checked_add_usize_def
        split: if_splits option.splits)
  then have n: "length (ext_data e) = ?n" by simp
  then show "RtpExtension_total_size e \<le> length d" "4 dvd length (ext_data e)"
    "length (ext_data e) div 4 < 65536"
    using len by (simp_all add: RtpExtension_total_size_def)
  have "RtpExtension_write e = d ! 0 # d ! 1 # d ! 2 # d ! 3 # ext_data e"
    by (simp add: RtpExtension_write_def Let_def n round_up4_id) (simp add: e)
  moreover have "d = d ! 0 # d ! 1 # d ! 2 # d ! 3 # drop 4 d"
    using nth_split_4 [of 0 d] len by (simp add: numeral_2_eq_2)
  moreover have "drop 4 d = ext_data e @ drop (4 + ?n) d"
    unfolding e RtpExtension.simps by (rule drop_take_drop)
  ultimately show "d = RtpExtension_write e @ drop (RtpExtension_total_size e) d"
    by (simp add: RtpExtension_total_size_def n)
qed

section \<open>Packets\<close>

text \<open>
  The packets the wire can carry: version 2, a CSRC count, extension bit and padding bit that
  agree with the fields, an extension in whole words that fits its 16-bit length.
\<close>

definition RtpPacket_wf :: "RtpPacket \<Rightarrow> bool" where
  "RtpPacket_wf p \<longleftrightarrow>
     RtpHeader_version (header p) = 2 \<and>
     unat (RtpHeader_csrc_count (header p)) = length (csrc_list p) \<and>
     RtpHeader_extension (header p) = (extension p \<noteq> None) \<and>
     RtpHeader_padding (header p) = (0 < padding_len p) \<and>
     (case extension p of None \<Rightarrow> True
      | Some e \<Rightarrow> 4 dvd length (ext_data e) \<and> length (ext_data e) div 4 < 65536)"

text \<open>The bytes before the padding, and the padding \<^verbatim>\<open>to_bytes\<close> writes.\<close>

definition RtpPacket_body :: "RtpPacket \<Rightarrow> bytes" where
  "RtpPacket_body p =
     RtpHeader_write (header p) @ concat (map to_be32 (csrc_list p)) @
     (case extension p of None \<Rightarrow> [] | Some e \<Rightarrow> RtpExtension_write e) @ payload p"

definition RtpPacket_padding_bytes :: "RtpPacket \<Rightarrow> bytes" where
  "RtpPacket_padding_bytes p =
     (if 0 < padding_len p then replicate (unat (padding_len p) - 1) 0 @ [padding_len p] else [])"

lemma RtpPacket_to_bytes_body:
  assumes "RtpHeader_extension (header p) = (extension p \<noteq> None)"
  shows "RtpPacket_to_bytes p = RtpPacket_body p @ RtpPacket_padding_bytes p"
  using assms
  by (auto simp: RtpPacket_to_bytes_def RtpPacket_body_def RtpPacket_padding_bytes_def Let_def
      RtpHeader_bits u8_set_bit4 u8_clear_bit4)

lemma length_RtpPacket_padding_bytes [simp]:
  "length (RtpPacket_padding_bytes p) = unat (padding_len p)"
  by (auto simp: RtpPacket_padding_bytes_def word_gt_0 unat_gt_0 intro: Suc_pred)

abbreviation extension_bytes :: "RtpExtension option \<Rightarrow> bytes" where
  "extension_bytes ext \<equiv> (case ext of None \<Rightarrow> [] | Some e \<Rightarrow> RtpExtension_write e)"

lemma parse_extension_write:
  assumes "case ext of None \<Rightarrow> True
      | Some e \<Rightarrow> 4 dvd length (ext_data e) \<and> length (ext_data e) div 4 < 65536"
    and "RtpHeader_extension h = (ext \<noteq> None)"
    and "drop offset data = extension_bytes ext @ rest"
  shows "parse_extension h data offset = Inr (ext, offset + length (extension_bytes ext))"
  using assms
  by (cases ext) (auto simp: parse_extension_def RtpExtension_parse_write round_up4_id
      RtpExtension_total_size_def length_RtpExtension_write)

lemma parse_extension_sound:
  assumes "parse_extension h data offset = Inr (ext, offset')" "offset \<le> length data"
  shows "RtpHeader_extension h = (ext \<noteq> None)" "offset' \<le> length data" "offset \<le> offset'"
    and "case ext of None \<Rightarrow> True
      | Some e \<Rightarrow> 4 dvd length (ext_data e) \<and> length (ext_data e) div 4 < 65536"
    and "drop offset data = extension_bytes ext @ drop offset' data"
  using assms RtpExtension_parse_sound [of "drop offset data"]
  by (auto simp: parse_extension_def add.commute split: if_splits sum.splits)

lemma parse_padding_write:
  assumes "data = body @ RtpPacket_padding_bytes p" "RtpHeader_padding h = (0 < padding_len p)"
    and "offset \<le> length body"
  shows "parse_padding h data offset = Inr (padding_len p)"
proof (cases "0 < padding_len p")
  case True
  then have "data ! (length data - 1) = padding_len p" "data \<noteq> []"
    using assms(1) by (simp_all add: RtpPacket_padding_bytes_def nth_append)
  moreover have "unat (padding_len p) \<noteq> 0" "length data = length body + unat (padding_len p)"
    using True assms(1) by (simp_all add: unat_eq_0 word_gt_0)
  ultimately show ?thesis
    using assms True by (simp add: parse_padding_def checked_sub_usize_def)
qed (use assms in \<open>simp add: parse_padding_def word_gt_0\<close>)

lemma parse_padding_sound:
  assumes "parse_padding h data offset = Inr pad"
  shows "RtpHeader_padding h = (0 < pad)" and "unat pad \<le> length data"
    and "0 < pad \<Longrightarrow> offset + unat pad \<le> length data \<and> pad = data ! (length data - 1)"
  using assms
  by (auto simp: parse_padding_def checked_sub_usize_def Let_def unat_eq_0 word_gt_0
      split: if_splits)

section \<open>Round trips\<close>

lemma RtpPacket_parse_to_bytes:
  assumes "RtpPacket_wf p"
  shows "RtpPacket_parse (RtpPacket_to_bytes p) = Inr p"
proof -
  let ?h = "header p" and ?d = "RtpPacket_to_bytes p"
  let ?c = "concat (map to_be32 (csrc_list p))" and ?x = "extension_bytes (extension p)"
  from assms have wf: "RtpHeader_version ?h = 2"
      "unat (RtpHeader_csrc_count ?h) = length (csrc_list p)"
      "RtpHeader_extension ?h = (extension p \<noteq> None)"
      "RtpHeader_padding ?h = (0 < padding_len p)"
    by (simp_all add: RtpPacket_wf_def)
  have d: "?d = RtpHeader_write ?h @ ?c @ ?x @ payload p @ RtpPacket_padding_bytes p"
    using RtpPacket_to_bytes_body [OF wf(3)] by (simp add: RtpPacket_body_def)
  have c: "length ?c = 4 * length (csrc_list p)"
    by (rule length_concat_const) simp
  define o1 where "o1 = 12 + length ?c"
  define o2 where "o2 = o1 + length ?x"
  have len: "length ?d = o2 + length (payload p) + unat (padding_len p)"
    by (simp add: d o1_def o2_def)
  have 1: "RtpHeader_parse ?d = Inr ?h"
    by (simp add: d RtpHeader_parse_write)
  have 2: "parse_csrc_list (length (csrc_list p)) ?d 12 = Inr (csrc_list p, o1)"
    using parse_csrc_list_write [of 12 ?d "csrc_list p"] by (simp add: d c o1_def)
  have 3: "parse_extension ?h ?d o1 = Inr (extension p, o2)"
    unfolding o2_def using assms wf(3)
    by (intro parse_extension_write [where rest = "payload p @ RtpPacket_padding_bytes p"])
      (auto simp: d o1_def RtpPacket_wf_def)
  have 4: "parse_padding ?h ?d o2 = Inr (padding_len p)"
    using wf(4) by (intro parse_padding_write [where body = "RtpPacket_body p"])
      (auto simp: d RtpPacket_body_def o1_def o2_def)
  have 5: "drop o2 ?d = payload p @ RtpPacket_padding_bytes p"
    by (simp add: d o1_def o2_def)
  have 6: "12 \<le> length ?d"
    by (simp add: d)
  show ?thesis
    using len 6 by (simp add: RtpPacket_parse_def RtpHeader_SIZE_def 1 2 3 4 5 wf(1,2)
        checked_sub_usize_def)
qed

lemma RtpPacket_to_bytes_parse:
  assumes "RtpPacket_parse d = Inr p"
  shows "RtpPacket_wf p \<and> RtpPacket_body p = take (length d - unat (padding_len p)) d \<and>
    unat (padding_len p) \<le> length d \<and> (0 < padding_len p \<longrightarrow> padding_len p = last d)"
proof -
  from assms obtain h cs o1 ext o2 pad where
    1: "RtpHeader_parse d = Inr h" "RtpHeader_version h = 2" "12 \<le> length d" and
    2: "parse_csrc_list (unat (RtpHeader_csrc_count h)) d 12 = Inr (cs, o1)" and
    3: "parse_extension h d o1 = Inr (ext, o2)" and
    4: "parse_padding h d o2 = Inr pad" and
    5: "o2 \<le> length d - unat pad" and
    p: "p = \<lparr>header = h, csrc_list = cs, extension = ext,
             payload = take (length d - unat pad - o2) (drop o2 d), padding_len = pad\<rparr>"
    by (auto simp: RtpPacket_parse_def RtpHeader_SIZE_def checked_sub_usize_def
        split: if_splits sum.splits prod.splits option.splits)
  note csrc = parse_csrc_list_sound [OF 2 1(3)]
  note ext = parse_extension_sound [OF 3] and pad = parse_padding_sound [OF 4]
  have "RtpPacket_wf p"
    using 1(2) csrc ext pad(1) by (auto simp: RtpPacket_wf_def p)
  moreover have "o1 \<le> length d" using csrc by simp
  then have "d = (RtpHeader_write h @ concat (map to_be32 cs) @ extension_bytes ext) @ drop o2 d"
    using RtpHeader_write_parse [OF 1(1)] csrc ext(5) by simp
  note take_prefix_split [OF this 5]
  moreover have "d \<noteq> []" using 1(3) by auto
  ultimately show ?thesis
    using pad(2,3) by (auto simp: RtpPacket_body_def p last_conv_nth)
qed

section \<open>Header extension elements\<close>

text \<open>
  What both element forms promise: an element written in front of a stream is read back first,
  and zero bytes between elements are skipped.
\<close>

locale element_stream =
  fixes elements :: "bytes \<Rightarrow> (u8 \<times> bytes) list"
    and write_element :: "u8 \<times> bytes \<Rightarrow> bytes"
    and fits :: "u8 \<times> bytes \<Rightarrow> bool"
  assumes elements_Nil: "elements [] = []"
    and elements_zero: "elements (0 # d) = elements d"
    and elements_write: "fits x \<Longrightarrow> elements (write_element x @ d) = x # elements d"
begin

lemma elements_zeros: "elements (replicate n 0) = []"
  by (induction n) (simp_all add: elements_Nil elements_zero)

lemma elements_stream:
  "(\<And>x. x \<in> set xs \<Longrightarrow> fits x) \<Longrightarrow>
   elements (concat (map write_element xs) @ replicate n 0) = xs"
  by (induction xs) (simp_all add: elements_zeros elements_write)

lemma elements_filtered:
  "elements (concat (map write_element (filter fits xs)) @ replicate n 0) = filter fits xs"
  by (rule elements_stream) simp

end

lemma word_less_exp_bit:
  fixes x :: "'a::len word"
  assumes "x < 2 ^ k" "bit x n"
  shows "n < k"
proof -
  have "take_bit k x = x"
    using assms(1) by (simp add: take_bit_eq_mod mod_word_less)
  then have "bit (take_bit k x) n" using assms(2) by simp
  then show ?thesis by (simp add: bit_take_bit_iff)
qed

lemma one_byte_head:
  fixes i k :: u8
  assumes "i < 16" "k < 16"
  shows "drop_bit 4 (push_bit 4 i OR k) = i" "(push_bit 4 i OR k) AND 0x0F = k"
  using word_less_exp_bit [of i 4] word_less_exp_bit [of k 4] assms
  by (auto intro!: bit_word_eqI simp: bit_simps numeral_bits) fastforce+

interpretation one_byte: element_stream one_byte_elements one_byte_element one_byte_fits
proof (unfold_locales, goal_cases)
  case (3 x d)
  obtain i e where x: "x = (i, e)" by (cases x)
  with 3 have i: "1 \<le> i" "i \<le> 14" and e: "1 \<le> length e" "length e \<le> 16"
    by (auto simp: one_byte_fits_def Suc_le_eq)
  define k :: u8 where "k = of_nat (length e) - 1"
  have "k = of_nat (length e - 1)" using e(1) by (simp add: k_def)
  then have k: "unat k = length e - 1" using e by (simp add: unat_of_nat del: of_nat_diff)
  then have "k < 16" using e by (simp add: word_less_nat_alt)
  moreover have "i < 16" using i(2) by (simp add: word_le_nat_alt word_less_nat_alt)
  moreover define b where "b = push_bit 4 i OR k"
  ultimately have head: "drop_bit 4 b = i" "b AND 0x0F = k"
    using one_byte_head by blast+
  have "i \<noteq> 0" "i \<noteq> 15" using i by auto
  moreover from this head(1) have "b \<noteq> 0" by auto
  ultimately have "one_byte_elements (b # e @ d) = (i, e) # one_byte_elements d"
    using e head k by (subst one_byte_elements.simps) (simp add: Let_def)
  then show ?case
    by (simp add: x one_byte_element_def b_def k_def)
qed (subst one_byte_elements.simps, simp)+

interpretation two_byte: element_stream two_byte_elements two_byte_element two_byte_fits
proof (unfold_locales, goal_cases)
  case (3 x d)
  obtain i e where x: "x = (i, e)" by (cases x)
  with 3 have "i \<noteq> 0" "unat (of_nat (length e) :: u8) = length e"
    by (auto simp: two_byte_fits_def unat_of_nat)
  then show ?case
    by (simp add: x two_byte_element_def) (subst two_byte_elements.simps, simp)
qed (subst two_byte_elements.simps, simp)+

section \<open>Properties\<close>

text \<open>
  C1. A well-formed packet survives the wire: parsing what \<^verbatim>\<open>to_bytes\<close> wrote gives the packet
  back, header, CSRC list, extension, payload and padding length included.
\<close>

theorem rtp_packet_roundtrip:
  "RtpPacket_wf p \<Longrightarrow> RtpPacket_parse (RtpPacket_to_bytes p) = Inr p"
  by (rule RtpPacket_parse_to_bytes)

definition example_packet :: RtpPacket where
  "example_packet =
     \<lparr>header = \<lparr>version_flags = 0xB1, marker_payload_type = 0x80, sequence_number = 7,
                timestamp = 160, ssrc = 0xCAFE\<rparr>,
      csrc_list = [5], extension = Some (RtpExtension_one_byte [(3, [9, 8, 7])]),
      payload = [1, 2, 3], padding_len = 2\<rparr>"

lemma example_packet_wf: "RtpPacket_wf example_packet"
  by (simp add: RtpPacket_wf_def example_packet_def RtpHeader_version_def RtpHeader_csrc_count_def
      RtpHeader_extension_def RtpHeader_padding_def RtpExtension_one_byte_def one_byte_element_def
      one_byte_fits_def word_less_nat_alt word_le_nat_alt) (simp add: numeral_eq_Suc)

theorem rtp_packet_roundtrip_witness:
  "RtpPacket_parse (RtpPacket_to_bytes example_packet) = Inr example_packet"
  by (rule rtp_packet_roundtrip [OF example_packet_wf])

text \<open>
  C34. The parser loses nothing: a datagram it accepts yields a well-formed packet, and
  serialising that packet reproduces the datagram, but for the padding octets before the last,
  which are written as zero.
\<close>

theorem rtp_packet_parse_faithful:
  assumes "RtpPacket_parse d = Inr p"
  shows "RtpPacket_wf p \<and>
    RtpPacket_to_bytes p =
      take (length d - unat (padding_len p)) d @
      (if padding_len p = 0 then [] else replicate (unat (padding_len p) - 1) 0 @ [last d])"
  using RtpPacket_to_bytes_parse [OF assms] RtpPacket_to_bytes_body [of p]
  by (auto simp: RtpPacket_wf_def RtpPacket_padding_bytes_def word_gt_0)

theorem rtp_packet_parse_faithful_witness:
  "RtpPacket_wf example_packet \<and>
   RtpPacket_to_bytes example_packet =
     take (length (RtpPacket_to_bytes example_packet) - 2) (RtpPacket_to_bytes example_packet) @
     [0, last (RtpPacket_to_bytes example_packet)]"
proof -
  have "unat (padding_len example_packet) = 2" "padding_len example_packet \<noteq> 0"
    by (simp_all add: example_packet_def)
  then show ?thesis
    using rtp_packet_parse_faithful [OF RtpPacket_parse_to_bytes [OF example_packet_wf]]
    by simp
qed

text \<open>
  Header extension elements survive the wire in both RFC 8285 forms: whatever elements a
  caller asks for, a receiver that parses the written extension reads exactly the ones the form
  can carry, in order, the word padding notwithstanding.
\<close>

theorem rtp_extension_elements_roundtrip:
  assumes "length (ext_data (RtpExtension_one_byte es)) \<le> 262140"
    and "length (ext_data (RtpExtension_two_byte es)) \<le> 262140"
  shows "\<exists>x y. RtpExtension_parse (RtpExtension_write (RtpExtension_one_byte es) @ rest) = Inr x \<and>
      RtpExtension_elements x = filter one_byte_fits es \<and>
      RtpExtension_parse (RtpExtension_write (RtpExtension_two_byte es) @ rest) = Inr y \<and>
      RtpExtension_elements y = filter two_byte_fits es"
proof -
  have bound: "n \<le> 262140 \<Longrightarrow> round_up4 n div 4 < 65536" for n
    unfolding round_up4_def by presburger
  show ?thesis
    using RtpExtension_parse_write [OF bound [OF assms(1)], of rest]
      RtpExtension_parse_write [OF bound [OF assms(2)], of rest]
    by (simp add: RtpExtension_elements_def RtpExtension_one_byte_def RtpExtension_two_byte_def
        ONE_BYTE_EXTENSION_PROFILE_def TWO_BYTE_EXTENSION_PROFILE_def
        one_byte.elements_filtered two_byte.elements_filtered)
qed

theorem rtp_extension_elements_roundtrip_witness:
  "\<exists>x y. RtpExtension_parse (RtpExtension_write (RtpExtension_one_byte [(1, [10, 20]), (15, [1])]) @ []) = Inr x \<and>
      RtpExtension_elements x = filter one_byte_fits [(1, [10, 20]), (15, [1])] \<and>
      RtpExtension_parse (RtpExtension_write (RtpExtension_two_byte [(1, [10, 20]), (15, [1])]) @ []) = Inr y \<and>
      RtpExtension_elements y = filter two_byte_fits [(1, [10, 20]), (15, [1])]"
  by (rule rtp_extension_elements_roundtrip)
    (simp_all add: RtpExtension_one_byte_def RtpExtension_two_byte_def one_byte_element_def
      two_byte_element_def one_byte_fits_def two_byte_fits_def)

end
