(* ===== verification/Btree_Map.thy ===== *)
theory Btree_Map
  imports Forge_Prelude
begin

text \<open>
  \<^verbatim>\<open>std::collections::BTreeMap\<close> as an association list in strictly ascending key order: the
  operations the sources call on their maps, with the iteration order the sources observe
  (\<^verbatim>\<open>iter\<close>, \<^verbatim>\<open>values\<close>, \<^verbatim>\<open>pop_first\<close>). The interface the components rely on is the locale
  \<open>ordered_map\<close>; the association list implements it.
\<close>

section \<open>Operations\<close>

type_synonym ('k, 'v) btree = "('k \<times> 'v) list"

definition bt_get :: "('k, 'v) btree \<Rightarrow> 'k \<Rightarrow> 'v option" where
  "bt_get m k = map_of m k"

definition bt_contains :: "('k, 'v) btree \<Rightarrow> 'k \<Rightarrow> bool" where
  "bt_contains m k = (k \<in> set (map fst m))"

fun bt_insert :: "'k::linorder \<Rightarrow> 'v \<Rightarrow> ('k, 'v) btree \<Rightarrow> ('k, 'v) btree" where
  "bt_insert k v [] = [(k, v)]"
| "bt_insert k v ((k', v') # m) =
     (if k < k' then (k, v) # (k', v') # m
      else if k = k' then (k, v) # m
      else (k', v') # bt_insert k v m)"

definition bt_retain :: "('k \<Rightarrow> 'v \<Rightarrow> bool) \<Rightarrow> ('k, 'v) btree \<Rightarrow> ('k, 'v) btree" where
  "bt_retain P m = filter (\<lambda>(k, v). P k v) m"

definition bt_remove :: "'k \<Rightarrow> ('k, 'v) btree \<Rightarrow> ('k, 'v) btree" where
  "bt_remove k m = filter (\<lambda>(k', v). k' \<noteq> k) m"

text \<open>\<^verbatim>\<open>pop_first\<close>: the map without its least key.\<close>

definition bt_pop_first :: "('k, 'v) btree \<Rightarrow> ('k, 'v) btree" where
  "bt_pop_first m = tl m"

definition bt_values :: "('k, 'v) btree \<Rightarrow> 'v list" where
  "bt_values m = map snd m"

definition bt_ok :: "('k::linorder, 'v) btree \<Rightarrow> bool" where
  "bt_ok m \<longleftrightarrow> sorted_wrt (<) (map fst m)"

section \<open>The interface\<close>

locale ordered_map =
  fixes empty :: "'m"
    and get :: "'m \<Rightarrow> 'k::linorder \<Rightarrow> 'v option"
    and insert :: "'k \<Rightarrow> 'v \<Rightarrow> 'm \<Rightarrow> 'm"
    and remove :: "'k \<Rightarrow> 'm \<Rightarrow> 'm"
    and retain :: "('k \<Rightarrow> 'v \<Rightarrow> bool) \<Rightarrow> 'm \<Rightarrow> 'm"
    and entries :: "'m \<Rightarrow> ('k \<times> 'v) list"
    and invar :: "'m \<Rightarrow> bool"
  assumes invar_empty: "invar empty"
    and invar_insert: "invar m \<Longrightarrow> invar (insert k v m)"
    and invar_remove: "invar m \<Longrightarrow> invar (remove k m)"
    and invar_retain: "invar m \<Longrightarrow> invar (retain P m)"
    and get_empty: "get empty k = None"
    and get_insert: "invar m \<Longrightarrow> get (insert k v m) = (get m)(k \<mapsto> v)"
    and get_remove: "invar m \<Longrightarrow> get (remove k m) = (get m)(k := None)"
    and get_retain: "invar m \<Longrightarrow>
          get (retain P m) k = (case get m k of None \<Rightarrow> None | Some v \<Rightarrow> if P k v then Some v else None)"
    and get_entries: "invar m \<Longrightarrow> get m k = map_of (entries m) k"
    and entries_ascending: "invar m \<Longrightarrow> sorted_wrt (<) (map fst (entries m))"
begin

lemma entries_distinct: "invar m \<Longrightarrow> distinct (map fst (entries m))"
  by (drule entries_ascending) (simp add: strict_sorted_iff)

lemma in_entries: "invar m \<Longrightarrow> (k, v) \<in> set (entries m) \<longleftrightarrow> get m k = Some v"
  by (simp add: get_entries entries_distinct)

lemma keys_eq_dom: "invar m \<Longrightarrow> set (map fst (entries m)) = dom (get m)"
proof -
  assume "invar m"
  then have "get m = map_of (entries m)" by (auto simp: get_entries)
  then show ?thesis by (simp add: dom_map_of_conv_image_fst)
qed

lemma size_eq_card: "invar m \<Longrightarrow> length (entries m) = card (dom (get m))"
  by (metis distinct_card entries_distinct keys_eq_dom length_map)

lemma finite_keys: "invar m \<Longrightarrow> finite (dom (get m))"
  by (metis List.finite_set keys_eq_dom)

lemma size_insert:
  "invar m \<Longrightarrow>
   length (entries (insert k v m)) = (if get m k = None then Suc (length (entries m)) else length (entries m))"
  by (auto simp: size_eq_card invar_insert get_insert finite_keys card_insert_if domIff)

lemma size_remove_le: "invar m \<Longrightarrow> length (entries (remove k m)) \<le> length (entries m)"
  by (simp add: size_eq_card invar_remove get_remove finite_keys card_mono)

lemma size_retain_le: "invar m \<Longrightarrow> length (entries (retain P m)) \<le> length (entries m)"
  by (simp add: size_eq_card invar_retain)
    (rule card_mono [OF finite_keys], auto simp: get_retain dom_def split: option.splits)

end

section \<open>The association list implements it\<close>

lemma bt_insert_keys: "set (map fst (bt_insert k v m)) = insert k (set (map fst m))"
  by (induction k v m rule: bt_insert.induct) auto

lemma bt_insert_ok: "bt_ok m \<Longrightarrow> bt_ok (bt_insert k v m)"
proof (induction k v m rule: bt_insert.induct)
  case (2 k v k' v' m)
  then show ?case
    using bt_insert_keys [of k v m] by (fastforce simp: bt_ok_def)
qed (simp add: bt_ok_def)

lemma bt_get_insert: "bt_ok m \<Longrightarrow> bt_get (bt_insert k v m) = (bt_get m)(k \<mapsto> v)"
proof (induction k v m rule: bt_insert.induct)
  case (2 k v k' v' m)
  then have "bt_ok m" by (simp add: bt_ok_def)
  with 2 show ?case by (auto simp: bt_get_def fun_eq_iff)
qed (auto simp: bt_get_def)

lemma bt_filter_ok: "bt_ok m \<Longrightarrow> bt_ok (filter P m)"
  unfolding bt_ok_def by (induction m) auto

lemma map_of_filter_distinct:
  "distinct (map fst m) \<Longrightarrow>
   map_of (filter (\<lambda>(k, v). P k v) m) k =
     (case map_of m k of None \<Rightarrow> None | Some v \<Rightarrow> if P k v then Some v else None)"
  by (induction m) (auto split: option.splits simp: map_of_eq_None_iff dest: map_of_SomeD)

lemma bt_ok_distinct: "bt_ok m \<Longrightarrow> distinct (map fst m)"
  by (simp add: bt_ok_def strict_sorted_iff)

interpretation btm: ordered_map "[]" bt_get bt_insert bt_remove bt_retain "\<lambda>m. m" bt_ok
proof (unfold_locales, goal_cases)
  case (7 m k)
  then show ?case
    by (auto simp: bt_get_def bt_remove_def map_of_filter_distinct bt_ok_distinct
        split: option.splits)
next
  case (8 m P k)
  then show ?case
    by (simp add: bt_get_def bt_retain_def map_of_filter_distinct bt_ok_distinct)
qed (auto simp: bt_ok_def [of "[]"] bt_insert_ok bt_filter_ok bt_remove_def bt_retain_def
    bt_get_insert bt_get_def, simp add: bt_ok_def)

lemma bt_contains_get: "bt_contains m k \<longleftrightarrow> bt_get m k \<noteq> None"
  by (auto simp: bt_contains_def bt_get_def map_of_eq_None_iff)

lemma bt_pop_first_ok: "bt_ok m \<Longrightarrow> bt_ok (bt_pop_first m)"
  unfolding bt_pop_first_def bt_ok_def by (cases m) auto

lemma bt_first_least: "bt_ok (e # m) \<Longrightarrow> k \<in> set (map fst m) \<Longrightarrow> fst e < k"
  by (auto simp: bt_ok_def)

lemma bt_values_set: "bt_ok m \<Longrightarrow> set (bt_values m) = {v. \<exists>k. bt_get m k = Some v}"
  by (auto simp: bt_values_def image_iff btm.in_entries [symmetric]) force

lemmas bt_laws [simp] =
  btm.invar_empty btm.invar_insert btm.invar_remove btm.invar_retain bt_pop_first_ok
  btm.get_empty btm.get_insert btm.get_remove btm.get_retain

end
