(* ===== verification/Jitter_Buffer.thy ===== *)
theory Jitter_Buffer
  imports Btree_Map
begin

text \<open>
  The jitter buffer, \<^verbatim>\<open>crates/forge-rtp/src/jitter.rs\<close>: packets kept by sequence number in a
  \<^verbatim>\<open>BTreeMap\<close>, released in sequence order after a delay, with missing numbers skipped. The
  clock readings of \<^verbatim>\<open>Instant::now()\<close> are the arguments \<open>now\<close>; the statistics counters, which are
  64 bits wide in the source and only ever incremented, are \<^typ>\<open>nat\<close>. The loop of \<^verbatim>\<open>pop\<close> is a
  function whose termination proof is the argument that it is bounded.
\<close>

section \<open>State\<close>

record JitterPacket =
  jp_sequence :: u16
  jp_timestamp :: u32
  jp_received_at :: instant
  jp_data :: bytes

record JitterStats =
  packets_received :: nat
  packets_dropped :: nat
  packets_out_of_order :: nat
  packets_duplicate :: nat

record JitterBuffer =
  jb_packets :: "(u16, JitterPacket) btree"
  jb_target_delay :: duration
  jb_max_delay :: duration
  jb_min_delay :: duration
  jb_next_seq :: "u16 option"
  jb_base_time :: "instant option"
  jb_stats :: JitterStats

definition JitterStats_default :: JitterStats where
  "JitterStats_default =
     \<lparr>packets_received = 0, packets_dropped = 0, packets_out_of_order = 0, packets_duplicate = 0\<rparr>"

section \<open>Sequence numbers\<close>

definition is_sequence_newer :: "u16 \<Rightarrow> u16 \<Rightarrow> bool" where
  "is_sequence_newer a b = (a - b < 32767)"

definition sequence_distance :: "u16 \<Rightarrow> u16 \<Rightarrow> u16" where
  "sequence_distance from to = to - from"

definition next_sequence :: "u16 \<Rightarrow> u16" where
  "next_sequence s = s + 1"

section \<open>Operations\<close>

definition JitterBuffer_new :: "duration \<Rightarrow> JitterBuffer" where
  "JitterBuffer_new target =
     \<lparr>jb_packets = [], jb_target_delay = target, jb_max_delay = target * 3,
      jb_min_delay = target div 2, jb_next_seq = None, jb_base_time = None,
      jb_stats = JitterStats_default\<rparr>"

definition MAX_BUFFER_SIZE :: nat where
  "MAX_BUFFER_SIZE = 100"

text \<open>The first packet sets the base time and the next expected sequence number.\<close>

definition push_start :: "instant \<Rightarrow> u16 \<Rightarrow> JitterBuffer \<Rightarrow> JitterBuffer" where
  "push_start now sq jb =
     (if jb_base_time jb = None then jb\<lparr>jb_base_time := Some now, jb_next_seq := Some sq\<rparr> else jb)"

text \<open>A buffer over its bound loses the entry with the least key.\<close>

definition push_limit :: "JitterBuffer \<Rightarrow> JitterBuffer" where
  "push_limit jb =
     (if length (jb_packets jb) > MAX_BUFFER_SIZE
      then jb\<lparr>jb_packets := bt_pop_first (jb_packets jb),
              jb_stats := (jb_stats jb)\<lparr>packets_dropped := packets_dropped (jb_stats jb) + 1\<rparr>\<rparr>
      else jb)"

definition JitterBuffer_push :: "instant \<Rightarrow> u16 \<Rightarrow> u32 \<Rightarrow> bytes \<Rightarrow> JitterBuffer \<Rightarrow> JitterBuffer"
where
  "JitterBuffer_push now sq ts dat jb0 =
     (let jb = push_start now sq jb0; st = jb_stats jb in
      if bt_contains (jb_packets jb) sq
      then jb\<lparr>jb_stats := st\<lparr>packets_duplicate := packets_duplicate st + 1\<rparr>\<rparr>
      else
        let late = (case jb_next_seq jb of
                      None \<Rightarrow> False
                    | Some nxt \<Rightarrow> \<not> is_sequence_newer sq nxt \<and> sq \<noteq> nxt);
            st' = st\<lparr>packets_out_of_order := packets_out_of_order st + (if late then 1 else 0),
                     packets_received := packets_received st + 1\<rparr>;
            pkt = \<lparr>jp_sequence = sq, jp_timestamp = ts, jp_received_at = now, jp_data = dat\<rparr>
        in push_limit (jb\<lparr>jb_packets := bt_insert sq pkt (jb_packets jb), jb_stats := st'\<rparr>))"

definition drop_stale :: "u16 option \<Rightarrow> JitterBuffer \<Rightarrow> JitterBuffer" where
  "drop_stale nxt jb =
     (case nxt of
        None \<Rightarrow> jb
      | Some n \<Rightarrow>
          let kept = bt_retain (\<lambda>sq _. sq = n \<or> is_sequence_newer sq n) (jb_packets jb);
              dropped = length (jb_packets jb) - length kept;
              st = jb_stats jb
          in jb\<lparr>jb_packets := kept,
                jb_stats := (if dropped > 0
                             then st\<lparr>packets_dropped := packets_dropped st + dropped\<rparr> else st)\<rparr>)"

text \<open>One missing packet is skipped.\<close>

definition skip_missing :: "u16 \<Rightarrow> JitterBuffer \<Rightarrow> JitterBuffer" where
  "skip_missing n jb =
     jb\<lparr>jb_next_seq := Some (next_sequence n),
        jb_stats := (jb_stats jb)\<lparr>packets_dropped := packets_dropped (jb_stats jb) + 1\<rparr>\<rparr>"

text \<open>
  The distance from the expected number to the nearest buffered one, which each turn of the loop
  decreases.
\<close>

definition pop_distance :: "JitterBuffer \<Rightarrow> nat" where
  "pop_distance jb =
     (case jb_next_seq jb of
        None \<Rightarrow> 0
      | Some n \<Rightarrow> if jb_packets jb = [] then 0
                 else Min ((\<lambda>k. unat (k - n)) ` set (map fst (jb_packets jb))))"

lemma unat_sub_succ:
  fixes k n :: u16
  assumes "k \<noteq> n"
  shows "unat (k - n) = Suc (unat (k - (n + 1)))"
proof -
  define x where "x = k - n"
  have "x \<noteq> 0" using assms by (simp add: x_def)
  then have "unat (x - 1) = unat x - 1" by (rule unat_minus_one)
  moreover have "unat x \<noteq> 0" using \<open>x \<noteq> 0\<close> by (simp add: unat_eq_0)
  moreover have "x - 1 = k - (n + 1)" by (simp add: x_def diff_diff_add)
  ultimately show ?thesis by (simp flip: x_def)
qed

lemma pop_distance_skip:
  assumes "jb_next_seq jb = Some n" "bt_get (jb_packets jb) n = None" "jb_packets jb \<noteq> []"
  shows "pop_distance (skip_missing n jb) < pop_distance jb"
proof -
  define K where "K = set (map fst (jb_packets jb))"
  have fin: "finite K" "K \<noteq> {}" using assms(3) by (auto simp: K_def)
  then have "Min ((\<lambda>k. unat (k - n)) ` K) \<in> (\<lambda>k. unat (k - n)) ` K"
    by (intro Min_in) auto
  then obtain k where k: "Min ((\<lambda>k. unat (k - n)) ` K) = unat (k - n)" "k \<in> K"
    by (rule imageE)
  have "k \<noteq> n"
    using k(2) assms(2) by (auto simp: K_def bt_get_def map_of_eq_None_iff)
  from unat_sub_succ [OF this] have "unat (k - (n + 1)) < unat (k - n)"
    by linarith
  moreover have "Min ((\<lambda>k. unat (k - (n + 1))) ` K) \<le> unat (k - (n + 1))"
    using fin k(2) by (intro Min_le) auto
  moreover have "pop_distance jb = Min ((\<lambda>k. unat (k - n)) ` K)"
    using assms by (simp add: pop_distance_def K_def)
  moreover have "pop_distance (skip_missing n jb) = Min ((\<lambda>k. unat (k - (n + 1))) ` K)"
    using assms by (simp add: pop_distance_def skip_missing_def next_sequence_def K_def)
  ultimately show ?thesis
    using k(1) by linarith
qed

function pop_loop :: "instant \<Rightarrow> JitterBuffer \<Rightarrow> JitterBuffer \<times> bytes option" where
  "pop_loop now jb =
     (case jb_next_seq jb of
        None \<Rightarrow> (jb, None)
      | Some n \<Rightarrow>
          (case bt_get (jb_packets jb) n of
             Some p \<Rightarrow>
               if now - jp_received_at p < jb_target_delay jb then (jb, None)
               else (jb\<lparr>jb_packets := bt_remove n (jb_packets jb),
                        jb_next_seq := Some (next_sequence n)\<rparr>, Some (jp_data p))
           | None \<Rightarrow>
               (case jb_packets jb of
                  [] \<Rightarrow> (jb, None)
                | (oldest_seq, oldest) # _ \<Rightarrow>
                    let gap = sequence_distance n oldest_seq;
                        waited = now - jp_received_at oldest
                    in if gap > 10 \<or> waited > jb_max_delay jb
                       then pop_loop now (skip_missing n jb)
                       else (jb, None))))"
  by pat_completeness auto
termination
  by (relation "measure (\<lambda>(now, jb). pop_distance jb)") (auto simp: pop_distance_skip)

declare pop_loop.simps [simp del]

definition JitterBuffer_pop :: "instant \<Rightarrow> JitterBuffer \<Rightarrow> JitterBuffer \<times> bytes option" where
  "JitterBuffer_pop now jb =
     (if jb_base_time jb = None then (jb, None)
      else pop_loop now (drop_stale (jb_next_seq jb) jb))"

definition JitterBuffer_is_ready :: "instant \<Rightarrow> JitterBuffer \<Rightarrow> bool" where
  "JitterBuffer_is_ready now jb =
     (case (jb_next_seq jb, jb_base_time jb) of
        (Some n, Some _) \<Rightarrow>
          (case bt_get (jb_packets jb) n of
             Some p \<Rightarrow> now - jp_received_at p \<ge> jb_target_delay jb
           | None \<Rightarrow> False)
      | _ \<Rightarrow> False)"

definition JitterBuffer_size :: "JitterBuffer \<Rightarrow> nat" where
  "JitterBuffer_size jb = length (jb_packets jb)"

definition JitterBuffer_clear :: "JitterBuffer \<Rightarrow> JitterBuffer" where
  "JitterBuffer_clear jb = jb\<lparr>jb_packets := [], jb_next_seq := None, jb_base_time := None\<rparr>"

section \<open>Invariant\<close>

definition jb_ok :: "JitterBuffer \<Rightarrow> bool" where
  "jb_ok jb \<longleftrightarrow>
     bt_ok (jb_packets jb) \<and> length (jb_packets jb) \<le> MAX_BUFFER_SIZE \<and>
     (\<forall>k p. bt_get (jb_packets jb) k = Some p \<longrightarrow> jp_sequence p = k) \<and>
     (jb_base_time jb = None \<longleftrightarrow> jb_next_seq jb = None) \<and>
     (jb_base_time jb = None \<longrightarrow> jb_packets jb = [])"

text \<open>The operations of the buffer's owner, as one step function.\<close>

datatype jitter_op =
    JPush instant u16 u32 bytes
  | JPop instant
  | JClear

fun jitter_step :: "jitter_op \<Rightarrow> JitterBuffer \<Rightarrow> JitterBuffer" where
  "jitter_step (JPush now sq ts dat) jb = JitterBuffer_push now sq ts dat jb"
| "jitter_step (JPop now) jb = fst (JitterBuffer_pop now jb)"
| "jitter_step JClear jb = JitterBuffer_clear jb"

lemma bt_get_pop_first: "bt_ok m \<Longrightarrow> bt_get (bt_pop_first m) k = Some v \<Longrightarrow> bt_get m k = Some v"
  by (cases m) (force simp: bt_pop_first_def bt_get_def bt_ok_def dest: map_of_SomeD)+

lemma push_limit_ok:
  assumes "bt_ok (jb_packets jb)" "length (jb_packets jb) \<le> Suc MAX_BUFFER_SIZE"
    and "\<forall>k p. bt_get (jb_packets jb) k = Some p \<longrightarrow> jp_sequence p = k"
    and "jb_base_time jb \<noteq> None" "jb_next_seq jb \<noteq> None"
  shows "jb_ok (push_limit jb)"
  using assms bt_get_pop_first [OF assms(1)] bt_pop_first_ok [OF assms(1)]
  by (auto simp: push_limit_def jb_ok_def Let_def bt_pop_first_def)

lemma push_start_ok: "jb_ok jb \<Longrightarrow> jb_ok (push_start now sq jb)"
  by (auto simp: push_start_def jb_ok_def)

lemma push_start_started [simp]: "jb_base_time (push_start now sq jb) \<noteq> None"
  by (auto simp: push_start_def)

lemma JitterBuffer_push_ok:
  assumes "jb_ok jb"
  shows "jb_ok (JitterBuffer_push now sq ts dat jb)"
proof -
  define jb1 where "jb1 = push_start now sq jb"
  have 1: "jb_ok jb1" "jb_base_time jb1 \<noteq> None"
    using assms push_start_ok by (simp_all add: jb1_def)
  show ?thesis
  proof (cases "bt_contains (jb_packets jb1) sq")
    case True
    with 1 show ?thesis
      by (auto simp: JitterBuffer_push_def Let_def jb_ok_def simp flip: jb1_def)
  next
    case False
    with 1 show ?thesis
      by (auto simp: JitterBuffer_push_def Let_def jb_ok_def [of jb1] btm.size_insert
          simp flip: jb1_def intro!: push_limit_ok split: if_splits)
  qed
qed

lemma drop_stale_packets:
  "jb_packets (drop_stale (Some n) jb) =
     bt_retain (\<lambda>sq _. sq = n \<or> is_sequence_newer sq n) (jb_packets jb)"
  by (simp add: drop_stale_def Let_def)

lemma drop_stale_frame [simp]:
  "jb_next_seq (drop_stale x jb) = jb_next_seq jb" "jb_base_time (drop_stale x jb) = jb_base_time jb"
  "jb_target_delay (drop_stale x jb) = jb_target_delay jb" "jb_max_delay (drop_stale x jb) = jb_max_delay jb"
  by (auto simp: drop_stale_def Let_def split: option.splits)

lemma drop_stale_ok:
  assumes "jb_ok jb"
  shows "jb_ok (drop_stale x jb)"
proof (cases x)
  case None
  with assms show ?thesis by (simp add: drop_stale_def)
next
  case (Some n)
  have m: "bt_ok (jb_packets jb)" using assms by (simp add: jb_ok_def)
  let ?P = "\<lambda>sq (_ :: JitterPacket). sq = n \<or> is_sequence_newer sq n"
  have "length (bt_retain ?P (jb_packets jb)) \<le> length (jb_packets jb)"
    by (rule btm.size_retain_le [OF m])
  moreover have "bt_get (bt_retain ?P (jb_packets jb)) k = Some p \<Longrightarrow> bt_get (jb_packets jb) k = Some p"
    for k p
    using m by (auto split: option.splits if_splits)
  moreover have "bt_retain ?P [] = []" by (simp add: bt_retain_def)
  ultimately show ?thesis
    using assms m unfolding jb_ok_def Some drop_stale_packets drop_stale_frame
    by (auto intro: order_trans)
qed

text \<open>
  The number before \<open>n\<close> is given up: the first packet of the map is more than ten numbers past it, or was held longer
  than the maximal delay.
\<close>

definition given_up :: "instant \<Rightarrow> u16 \<Rightarrow> JitterBuffer \<Rightarrow> bool" where
  "given_up now n jb \<longleftrightarrow>
     (case jb_packets jb of [] \<Rightarrow> False
      | (k, p) # _ \<Rightarrow> unat (k - (n - 1)) > 10 \<or> now - jp_received_at p > jb_max_delay jb)"

text \<open>
  What the loop returns from the expected number \<open>s\<close>: it has moved forward over missing numbers
  only, so no buffered packet was passed; a packet it returns is the nearest one ahead and was
  held for the target delay.
\<close>

definition pop_post :: "instant \<Rightarrow> u16 \<Rightarrow> JitterBuffer \<Rightarrow> JitterBuffer \<times> bytes option \<Rightarrow> bool" where
  "pop_post now s jb res \<longleftrightarrow>
     (case res of
        (jb', None) \<Rightarrow>
          jb_packets jb' = jb_packets jb \<and> jb_base_time jb' = jb_base_time jb \<and>
          (\<exists>s'. jb_next_seq jb' = Some s' \<and>
             (\<forall>k \<in> set (map fst (jb_packets jb)). unat (s' - s) \<le> unat (k - s)))
      | (jb', Some dat) \<Rightarrow>
          jb_base_time jb' = jb_base_time jb \<and>
          (\<exists>n p. bt_get (jb_packets jb) n = Some p \<and> dat = jp_data p \<and>
             jb_target_delay jb \<le> now - jp_received_at p \<and>
             jb_packets jb' = bt_remove n (jb_packets jb) \<and> jb_next_seq jb' = Some (n + 1) \<and>
             (n = s \<or> given_up now n jb) \<and>
             (\<forall>k \<in> set (map fst (jb_packets jb)). unat (n - s) \<le> unat (k - s))))"

lemma serial_le_succ:
  fixes s n k :: u16
  assumes "unat (n - (s + 1)) \<le> unat (k - (s + 1))" "k \<noteq> s"
  shows "unat (n - s) \<le> unat (k - s)"
  using assms unat_sub_succ [of k s] unat_sub_succ [of n s] by (cases "n = s") simp_all

lemma given_up_skip [simp]: "given_up now n (skip_missing s jb) = given_up now n jb"
  by (auto simp: given_up_def skip_missing_def split: list.split)

lemma skip_missing_frame [simp]:
  "jb_packets (skip_missing s jb) = jb_packets jb" "jb_base_time (skip_missing s jb) = jb_base_time jb"
  "jb_target_delay (skip_missing s jb) = jb_target_delay jb"
  by (simp_all add: skip_missing_def)

lemma pop_post_skip:
  assumes "pop_post now (s + 1) (skip_missing s jb) res" "bt_get (jb_packets jb) s = None" "given_up now (s + 1) jb"
  shows "pop_post now s jb res"
proof -
  have k: "k \<noteq> s" if "k \<in> set (map fst (jb_packets jb))" for k
    using that assms(2) by (auto simp: bt_get_def map_of_eq_None_iff)
  have mono: "\<forall>k \<in> set (map fst (jb_packets jb)). unat (n - s) \<le> unat (k - s)"
    if "\<forall>k \<in> set (map fst (jb_packets jb)). unat (n - (s + 1)) \<le> unat (k - (s + 1))" for n
    using that k serial_le_succ by blast
  obtain jb' r where res: "res = (jb', r)" by (cases res)
  show ?thesis
  proof (cases r)
    case None
    then show ?thesis using assms(1) mono by (auto simp: res pop_post_def simp del: set_map)
  next
    case (Some dat)
    obtain n p where n: "jb_base_time jb' = jb_base_time jb" "bt_get (jb_packets jb) n = Some p" "dat = jp_data p"
      "jb_target_delay jb \<le> now - jp_received_at p" "jb_packets jb' = bt_remove n (jb_packets jb)"
      "jb_next_seq jb' = Some (n + 1)" "n = s + 1 \<or> given_up now n jb"
      "\<forall>k \<in> set (map fst (jb_packets jb)). unat (n - (s + 1)) \<le> unat (k - (s + 1))"
      using assms(1) unfolding res Some pop_post_def by auto
    then have "n = s \<or> given_up now n jb" using assms(3) by blast
    then show ?thesis using n mono [OF n(8)] unfolding res Some pop_post_def by auto
  qed
qed

lemma pop_loop_post: "jb_next_seq jb = Some s \<Longrightarrow> pop_post now s jb (pop_loop now jb)"
proof (induction now jb arbitrary: s rule: pop_loop.induct)
  case (1 now jb)
  show ?case
  proof (cases "\<exists>o1 o2 m. bt_get (jb_packets jb) s = None \<and> jb_packets jb = (o1, o2) # m \<and>
      (sequence_distance s o1 > 10 \<or> now - jp_received_at o2 > jb_max_delay jb)")
    case True
    then obtain o1 o2 m where *: "bt_get (jb_packets jb) s = None" "jb_packets jb = (o1, o2) # m"
      "sequence_distance s o1 > 10 \<or> now - jp_received_at o2 > jb_max_delay jb" by blast
    have "pop_post now (s + 1) (skip_missing s jb) (pop_loop now (skip_missing s jb))"
      by (rule "1.IH" [OF "1.prems" *(1,2) refl refl refl *(3)])
        (simp add: skip_missing_def next_sequence_def)
    moreover have "pop_loop now jb = pop_loop now (skip_missing s jb)"
      by (subst pop_loop.simps) (use * "1.prems" in \<open>auto simp: Let_def\<close>)
    moreover have "given_up now (s + 1) jb"
      using *(2,3) by (auto simp: given_up_def sequence_distance_def word_less_nat_alt)
    ultimately show ?thesis
      using pop_post_skip *(1) by simp
  next
    case False
    then show ?thesis
      using "1.prems" by (subst pop_loop.simps)
        (auto simp: pop_post_def next_sequence_def not_less Let_def split: option.splits list.splits
          prod.splits)
  qed
qed

lemma JitterBuffer_pop_post:
  assumes "jb_ok jb" "jb_next_seq jb = Some s"
  shows "pop_post now s (drop_stale (Some s) jb) (JitterBuffer_pop now jb)"
  using assms pop_loop_post [of "drop_stale (Some s) jb" s now]
  by (auto simp: JitterBuffer_pop_def jb_ok_def)

lemma JitterBuffer_pop_ok:
  assumes "jb_ok jb"
  shows "jb_ok (fst (JitterBuffer_pop now jb))"
proof (cases "jb_next_seq jb")
  case None
  with assms show ?thesis by (simp add: JitterBuffer_pop_def jb_ok_def)
next
  case (Some s)
  let ?d = "drop_stale (Some s) jb"
  have d: "jb_ok ?d" by (rule drop_stale_ok [OF assms])
  have base: "jb_base_time jb \<noteq> None"
    using assms Some by (simp add: jb_ok_def)
  from JitterBuffer_pop_post [OF assms Some] show ?thesis
  proof (cases "snd (JitterBuffer_pop now jb)")
    case None
    then show ?thesis
      using JitterBuffer_pop_post [OF assms Some, of now] d base
      by (auto simp: pop_post_def jb_ok_def split: prod.splits)
  next
    case (Some dat)
    obtain n where "jb_packets (fst (JitterBuffer_pop now jb)) = bt_remove n (jb_packets ?d)"
      "jb_next_seq (fst (JitterBuffer_pop now jb)) = Some (n + 1)"
      "jb_base_time (fst (JitterBuffer_pop now jb)) = jb_base_time jb"
      using JitterBuffer_pop_post [OF assms \<open>jb_next_seq jb = Some s\<close>, of now] Some
      by (auto simp: pop_post_def split: prod.splits)
    moreover have "length (bt_remove n (jb_packets ?d)) \<le> length (jb_packets ?d)"
      using d by (intro btm.size_remove_le) (simp add: jb_ok_def)
    ultimately show ?thesis
      using d base by (auto simp: jb_ok_def split: if_splits)
  qed
qed

lemma JitterBuffer_clear_ok: "jb_ok (JitterBuffer_clear jb)"
  by (simp add: jb_ok_def JitterBuffer_clear_def)

lemma JitterBuffer_new_ok: "jb_ok (JitterBuffer_new d)"
  by (simp add: jb_ok_def JitterBuffer_new_def)

interpretation jitter: stepped_system jb_ok jitter_step
proof
  show "jb_ok (jitter_step e jb)" if "jb_ok jb" for e jb
    using that
    by (cases e) (simp_all add: JitterBuffer_push_ok JitterBuffer_pop_ok JitterBuffer_clear_ok)
qed

section \<open>Properties\<close>

text \<open>
  Whatever is pushed, popped and cleared, in whatever order and at whatever times, the buffer
  holds at most 100 packets, in strictly ascending key order, each under its own sequence number,
  and expects a next number exactly when it has started.
\<close>

theorem jitter_buffer_invariant:
  "jb_ok (fold jitter_step ops (JitterBuffer_new target))"
  by (rule jitter.run_inv [OF JitterBuffer_new_ok])

text \<open>
  C10. The packet that \<^verbatim>\<open>pop\<close> returns is the nearest of all that were buffered at or ahead of the expected number, by less
  than half the sequence space, and was held for at least the target delay. It is the expected one, or the number before it is
  given up: the first of those packets in the map lies more than ten numbers past it or was held longer than the maximal delay.
  What stays buffered are exactly the other packets ahead, and the expected number moves just past the packet.
\<close>

theorem jitter_pop_in_order:
  assumes "jb_ok jb" "JitterBuffer_pop now jb = (jb', Some dat)"
  shows "\<exists>s n p. jb_next_seq jb = Some s \<and> bt_get (jb_packets jb) n = Some p \<and> dat = jp_data p \<and>
    jb_target_delay jb \<le> now - jp_received_at p \<and> unat (n - s) < 32767 \<and> jb_next_seq jb' = Some (n + 1) \<and>
    (\<forall>k q. bt_get (jb_packets jb) k = Some q \<longrightarrow> unat (k - s) < 32767 \<longrightarrow> unat (n - s) \<le> unat (k - s)) \<and>
    (\<forall>k. bt_get (jb_packets jb') k = (if k \<noteq> n \<and> unat (k - s) < 32767 then bt_get (jb_packets jb) k else None)) \<and>
    (n = s \<or> (\<exists>k q rest. filter (\<lambda>(k, _). unat (k - s) < 32767) (jb_packets jb) = (k, q) # rest \<and>
       (10 < unat (k - (n - 1)) \<or> jb_max_delay jb < now - jp_received_at q)))"
proof -
  obtain s where s: "jb_next_seq jb = Some s"
    using assms by (fastforce simp: JitterBuffer_pop_def jb_ok_def split: if_splits)
  let ?d = "drop_stale (Some s) jb"
  have m: "bt_ok (jb_packets jb)" "bt_ok (jb_packets ?d)"
    using assms(1) by (simp_all add: jb_ok_def drop_stale_packets)
  have ahead: "k = s \<or> is_sequence_newer k s \<longleftrightarrow> unat (k - s) < 32767" for k
    by (auto simp: is_sequence_newer_def word_less_nat_alt)
  have kept: "jb_packets ?d = filter (\<lambda>(k, _). unat (k - s) < 32767) (jb_packets jb)"
    by (simp add: drop_stale_packets bt_retain_def ahead case_prod_beta)
  have get: "bt_get (jb_packets ?d) k = (if unat (k - s) < 32767 then bt_get (jb_packets jb) k else None)" for k
    using m(1) by (simp add: drop_stale_packets ahead split: option.split)
  obtain n p where n: "bt_get (jb_packets ?d) n = Some p" "dat = jp_data p"
      "jb_target_delay jb \<le> now - jp_received_at p"
      "jb_packets jb' = bt_remove n (jb_packets ?d)" "jb_next_seq jb' = Some (n + 1)" "n = s \<or> given_up now n ?d"
      "\<forall>k \<in> set (map fst (jb_packets ?d)). unat (n - s) \<le> unat (k - s)"
    using JitterBuffer_pop_post [OF assms(1) s, of now] assms(2) by (auto simp: pop_post_def)
  have "unat (n - s) \<le> unat (k - s)" if "bt_get (jb_packets jb) k = Some q" "unat (k - s) < 32767" for k q
  proof -
    have "bt_get (jb_packets ?d) k = Some q" using that by (simp add: get)
    then have "k \<in> set (map fst (jb_packets ?d))" using btm.in_entries [OF m(2), of k q] by force
    then show ?thesis using n(7) by blast
  qed
  moreover have "bt_get (jb_packets jb') k = (if k \<noteq> n \<and> unat (k - s) < 32767 then bt_get (jb_packets jb) k else None)" for k
    using m(2) by (simp add: n(4) get)
  moreover have "bt_get (jb_packets jb) n = Some p" "unat (n - s) < 32767"
    using n(1) by (simp_all add: get split: if_splits)
  moreover have "n = s \<or> (\<exists>k q rest. jb_packets ?d = (k, q) # rest \<and>
       (10 < unat (k - (n - 1)) \<or> jb_max_delay jb < now - jp_received_at q))"
    using n(6) by (auto simp: given_up_def split: list.splits)
  ultimately show ?thesis
    using s n(2,3,5) unfolding kept by blast
qed

definition example_buffer :: JitterBuffer where
  "example_buffer =
     fold jitter_step [JPush 0 65535 0 [1], JPush 1 0 160 [2]] (JitterBuffer_new 10)"

lemma example_buffer_ok: "jb_ok example_buffer"
  unfolding example_buffer_def by (rule jitter.run_inv [OF JitterBuffer_new_ok])

lemma example_buffer_pop:
  "JitterBuffer_pop 20 example_buffer = (fst (JitterBuffer_pop 20 example_buffer), Some [1])"
  by code_simp

theorem jitter_pop_in_order_witness:
  "\<exists>s n p. jb_next_seq example_buffer = Some s \<and> bt_get (jb_packets example_buffer) n = Some p \<and> [1] = jp_data p \<and>
    jb_next_seq (fst (JitterBuffer_pop 20 example_buffer)) = Some (n + 1) \<and>
    (\<forall>k. bt_get (jb_packets (fst (JitterBuffer_pop 20 example_buffer))) k =
      (if k \<noteq> n \<and> unat (k - s) < 32767 then bt_get (jb_packets example_buffer) k else None))"
  using jitter_pop_in_order [OF example_buffer_ok example_buffer_pop] by blast

text \<open>
  \<^verbatim>\<open>is_ready\<close> tells the truth: when it holds, \<^verbatim>\<open>pop\<close> at the same time returns the packet with
  the expected number.
\<close>

theorem jitter_ready_pops:
  assumes "jb_ok jb" "JitterBuffer_is_ready now jb"
  shows "\<exists>n p. jb_next_seq jb = Some n \<and> bt_get (jb_packets jb) n = Some p \<and>
    snd (JitterBuffer_pop now jb) = Some (jp_data p)"
proof -
  obtain n p where n: "jb_next_seq jb = Some n" "jb_base_time jb \<noteq> None"
      "bt_get (jb_packets jb) n = Some p" "jb_target_delay jb \<le> now - jp_received_at p"
    using assms(2) by (auto simp: JitterBuffer_is_ready_def split: option.splits)
  moreover have "bt_get (jb_packets (drop_stale (Some n) jb)) n = Some p"
    using assms(1) n(3) by (simp add: drop_stale_packets jb_ok_def)
  ultimately have "snd (JitterBuffer_pop now jb) = Some (jp_data p)"
    by (simp add: JitterBuffer_pop_def) (subst pop_loop.simps, simp)
  with n show ?thesis by blast
qed

theorem jitter_ready_pops_witness:
  "\<exists>n p. jb_next_seq example_buffer = Some n \<and> bt_get (jb_packets example_buffer) n = Some p \<and>
    snd (JitterBuffer_pop 20 example_buffer) = Some (jp_data p)"
  by (rule jitter_ready_pops [OF example_buffer_ok]) code_simp

definition plain_entry :: "nat \<Rightarrow> u16 \<times> JitterPacket" where
  "plain_entry i =
     (of_nat i, \<lparr>jp_sequence = of_nat i, jp_timestamp = 0, jp_received_at = 0, jp_data = []\<rparr>)"

definition full_buffer :: JitterBuffer where
  "full_buffer =
     (JitterBuffer_new 0)\<lparr>jb_next_seq := Some 65436, jb_base_time := Some 0,
       jb_packets := map plain_entry [65436..<65536]\<rparr>"

lemma sorted_plain_entries:
  "b \<le> 65536 \<Longrightarrow> sorted_wrt (<) (map fst (map plain_entry [a..<b]))"
  by (auto simp: plain_entry_def o_def sorted_wrt_map word_less_nat_alt unat_of_nat
      intro!: sorted_wrt_mono_rel [OF _ sorted_wrt_upt])

lemma plain_entry_sequence: "map_of (map plain_entry is) k = Some p \<Longrightarrow> jp_sequence p = k"
  by (auto simp: plain_entry_def dest!: map_of_SomeD)

lemma full_buffer_packets: "jb_packets full_buffer = map plain_entry [65436..<65536]"
  by (simp add: full_buffer_def)

lemma full_buffer_fields:
  "length (jb_packets full_buffer) = 100" "jb_base_time full_buffer = Some 0"
  "jb_next_seq full_buffer = Some 65436" "packets_dropped (jb_stats full_buffer) = 0"
  by (simp_all add: full_buffer_def JitterBuffer_new_def JitterStats_default_def)

lemma full_buffer_ok: "jb_ok full_buffer"
proof -
  have "bt_ok (jb_packets full_buffer)"
    unfolding bt_ok_def full_buffer_packets by (rule sorted_plain_entries) simp
  moreover have "jp_sequence p = k" if "bt_get (jb_packets full_buffer) k = Some p" for k p
    using that unfolding full_buffer_packets bt_get_def by (rule plain_entry_sequence)
  ultimately show ?thesis
    by (simp add: jb_ok_def MAX_BUFFER_SIZE_def full_buffer_fields)
qed

lemma plain_entry_newer:
  assumes "k \<in> set (map fst (map plain_entry [a..<65536]))" "32770 \<le> a"
  shows "0 < k \<and> is_sequence_newer 0 k"
proof -
  obtain i where i: "k = of_nat i" "32770 \<le> i" "i < 65536"
    using assms by (auto simp: plain_entry_def)
  then have "unat k = i" by (simp add: unat_of_nat)
  moreover from this have "k \<noteq> 0" using i by auto
  ultimately have "unat (0 - k) = 65536 - i"
    using i(2) unfolding unat_sub_if_size by (simp add: word_size)
  moreover have "0 < k" using \<open>k \<noteq> 0\<close> by (simp add: word_gt_0)
  ultimately show ?thesis
    using i(2) unfolding is_sequence_newer_def word_less_nat_alt by simp
qed

lemma bt_insert_least:
  "bt_ok m \<Longrightarrow> (\<And>k'. k' \<in> set (map fst m) \<Longrightarrow> k < k') \<Longrightarrow> bt_insert k v m = (k, v) # m"
  by (cases m) auto

text \<open>
  The bound on the buffer is kept by evicting the numerically least sequence number, which
  across the wrap-around is the newest packet, not the oldest: a buffer full of the numbers
  65436 to 65535 that receives 0, the successor of them all, drops that packet and keeps the rest.
\<close>

theorem jitter_overflow_drops_newest:
  "jb_ok full_buffer \<and>
   list_all (\<lambda>k. is_sequence_newer 0 k \<and> k \<noteq> 0) (map fst (jb_packets full_buffer)) \<and>
   jb_packets (JitterBuffer_push now 0 ts dat full_buffer) = jb_packets full_buffer \<and>
   packets_dropped (jb_stats (JitterBuffer_push now 0 ts dat full_buffer)) = 1"
proof -
  have newer: "0 < k \<and> is_sequence_newer 0 k" if "k \<in> set (map fst (jb_packets full_buffer))" for k
    using that unfolding full_buffer_packets by (rule plain_entry_newer) simp
  have m: "bt_ok (jb_packets full_buffer)" using full_buffer_ok by (simp add: jb_ok_def)
  have ins: "bt_insert 0 v (jb_packets full_buffer) = (0, v) # jb_packets full_buffer" for v
    by (rule bt_insert_least [OF m]) (use newer in blast)
  have "\<not> bt_contains (jb_packets full_buffer) 0"
    using newer [of 0] by (auto simp: bt_contains_def)
  then have "jb_packets (JitterBuffer_push now 0 ts dat full_buffer) = jb_packets full_buffer \<and>
      packets_dropped (jb_stats (JitterBuffer_push now 0 ts dat full_buffer)) = 1"
    by (simp add: JitterBuffer_push_def push_start_def push_limit_def Let_def ins MAX_BUFFER_SIZE_def
        bt_pop_first_def full_buffer_fields)
  moreover have "list_all (\<lambda>k. is_sequence_newer 0 k \<and> k \<noteq> 0) (map fst (jb_packets full_buffer))"
    unfolding list_all_iff using newer by blast
  ultimately show ?thesis
    using full_buffer_ok by blast
qed

end
