(* ===== verification/Port_Pool.thy ===== *)
theory Port_Pool
  imports Forge_Prelude "HOL-Library.Multiset"
begin

text \<open>
  The RTP/RTCP port pool, \<^verbatim>\<open>crates/forge-rtp/src/port_pool.rs\<close>. Every method of the pool
  takes the mutex for its whole body, so a concurrent run is a sequence of whole operations. The
  random number generator is a parameter: \<open>shuffle\<close> stands for \<^verbatim>\<open>SliceRandom::shuffle\<close>, which
  permutes a slice, and \<open>rng n\<close> for \<^verbatim>\<open>random_range(0..n)\<close>, which yields an index below \<open>n\<close>.
  The \<^verbatim>\<open>HashSet\<close> of allocated ports is a set; where the code iterates over it the model takes
  the ports in iteration order.
\<close>

section \<open>Configuration\<close>

record PortPoolConfig =
  min_port :: u16
  max_port :: u16

definition PortPoolConfig_default :: PortPoolConfig where
  "PortPoolConfig_default = \<lparr>min_port = 10000, max_port = 20000\<rparr>"

definition PortPoolConfig_new :: "u16 \<Rightarrow> u16 \<Rightarrow> ForgeError + PortPoolConfig" where
  "PortPoolConfig_new mn mx =
     (if mn mod 2 \<noteq> 0 then Inl (InvalidConfig ''min_port must be even for RTP/RTCP pairs'')
      else if mn \<ge> mx then Inl (InvalidConfig ''min_port must be less than max_port'')
      else if mx - mn < 100 then Inl (InvalidConfig ''Port range must be at least 100 ports'')
      else Inr \<lparr>min_port = mn, max_port = mx\<rparr>)"

definition PortPoolConfig_capacity :: "PortPoolConfig \<Rightarrow> nat" where
  "PortPoolConfig_capacity c = unat ((max_port c - min_port c) div 2)"

section \<open>Pairs\<close>

record PortPair =
  rtp_port :: u16
  rtcp_port :: u16

definition PortPair_new :: "u16 \<Rightarrow> ForgeError + PortPair" where
  "PortPair_new p =
     (if p mod 2 \<noteq> 0 then Inl (Rtp ''RTP port must be even'')
      else Inr \<lparr>rtp_port = p, rtcp_port = p + 1\<rparr>)"

section \<open>The pool\<close>

record PoolState =
  available :: "u16 list"
  allocated :: "u16 set"

record PortPool =
  pool_config :: PortPoolConfig
  pool_state :: PoolState

text \<open>\<^verbatim>\<open>Vec::swap_remove\<close>: the element at \<open>i\<close>, its place taken by the last.\<close>

definition swap_remove :: "nat \<Rightarrow> 'a list \<Rightarrow> 'a \<times> 'a list" where
  "swap_remove i xs = (xs ! i, butlast (xs[i := last xs]))"

definition port_range :: "PortPoolConfig \<Rightarrow> u16 list" where
  "port_range c = map of_nat [unat (min_port c)..<unat (max_port c)]"

definition PortPool_new :: "(u16 list \<Rightarrow> u16 list) \<Rightarrow> PortPoolConfig \<Rightarrow> PortPool" where
  "PortPool_new shuffle c =
     \<lparr>pool_config = c,
      pool_state = \<lparr>available = shuffle (filter (\<lambda>p. p mod 2 = 0) (port_range c)), allocated = {}\<rparr>\<rparr>"

text \<open>The validation loop of \<^verbatim>\<open>new_with_allocated\<close>, over the ports in iteration order.\<close>

fun validate_allocated :: "PortPoolConfig \<Rightarrow> u16 list \<Rightarrow> ForgeError option" where
  "validate_allocated c [] = None"
| "validate_allocated c (p # ps) =
     (if p < min_port c \<or> p \<ge> max_port c
      then Some (InvalidConfig (''Allocated port '' @ show_nat (unat p) @
             '' is outside configured range '' @ show_nat (unat (min_port c)) @ ''-'' @
             show_nat (unat (max_port c))))
      else if p mod 2 \<noteq> 0
      then Some (InvalidConfig (''Allocated port '' @ show_nat (unat p) @
             '' must be even (RTP ports only)''))
      else validate_allocated c ps)"

definition PortPool_new_with_allocated ::
  "(u16 list \<Rightarrow> u16 list) \<Rightarrow> PortPoolConfig \<Rightarrow> u16 list \<Rightarrow> ForgeError + PortPool" where
  "PortPool_new_with_allocated shuffle c ps =
     (case validate_allocated c ps of
        Some e \<Rightarrow> Inl e
      | None \<Rightarrow>
          Inr \<lparr>pool_config = c,
               pool_state = \<lparr>available = shuffle (filter (\<lambda>p. p mod 2 = 0 \<and> p \<notin> set ps) (port_range c)),
                             allocated = set ps\<rparr>\<rparr>)"

definition PortPool_allocate_reserving ::
  "(nat \<Rightarrow> nat) \<Rightarrow> nat \<Rightarrow> PortPool \<Rightarrow> PortPool \<times> (ForgeError + PortPair)" where
  "PortPool_allocate_reserving rng min_free pool =
     (let st = pool_state pool in
      if available st = [] then (pool, Inl (ResourceLimit ''No available ports in pool''))
      else if length (available st) \<le> min_free
      then (pool, Inl (ResourceLimit (''Port pool at its reserved floor: '' @
              show_nat (length (available st)) @ '' pair(s) available, '' @ show_nat min_free @
              '' reserved'')))
      else
        let idx = rng (length (available st));
            (p, rest) = swap_remove idx (available st)
        in (pool\<lparr>pool_state := \<lparr>available = rest, allocated = insert p (allocated st)\<rparr>\<rparr>,
            PortPair_new p))"

definition PortPool_allocate ::
  "(nat \<Rightarrow> nat) \<Rightarrow> PortPool \<Rightarrow> PortPool \<times> (ForgeError + PortPair)" where
  "PortPool_allocate rng pool = PortPool_allocate_reserving rng 0 pool"

text \<open>\<^verbatim>\<open>iter().position\<close>: the index of the first element equal to \<open>x\<close>.\<close>

fun position :: "'a \<Rightarrow> 'a list \<Rightarrow> nat option" where
  "position x [] = None"
| "position x (y # ys) = (if y = x then Some 0 else map_option Suc (position x ys))"

definition PortPool_allocate_specific :: "u16 \<Rightarrow> PortPool \<Rightarrow> PortPool \<times> (ForgeError + PortPair)"
where
  "PortPool_allocate_specific p pool =
     (let c = pool_config pool; st = pool_state pool in
      if p < min_port c \<or> p \<ge> max_port c - 1
      then (pool, Inl (InvalidConfig ''Port outside of configured range''))
      else if p mod 2 \<noteq> 0 then (pool, Inl (Rtp ''RTP port must be even''))
      else if p \<in> allocated st
      then (pool, Inl (ResourceLimit (''Port '' @ show_nat (unat p) @ '' already allocated'')))
      else (case position p (available st) of
              None \<Rightarrow>
                (pool, Inl (ResourceLimit (''Port '' @ show_nat (unat p) @ '' already allocated'')))
            | Some i \<Rightarrow>
                (pool\<lparr>pool_state := \<lparr>available = snd (swap_remove i (available st)),
                                     allocated = insert p (allocated st)\<rparr>\<rparr>,
                 PortPair_new p)))"

definition PortPool_deallocate :: "PortPair \<Rightarrow> PortPool \<Rightarrow> PortPool" where
  "PortPool_deallocate pr pool =
     (let st = pool_state pool in
      if rtp_port pr \<in> allocated st
      then pool\<lparr>pool_state := \<lparr>available = available st @ [rtp_port pr],
                               allocated = allocated st - {rtp_port pr}\<rparr>\<rparr>
      else pool)"

definition PortPool_allocated_count :: "PortPool \<Rightarrow> nat" where
  "PortPool_allocated_count pool = card (allocated (pool_state pool))"

definition PortPool_available_count :: "PortPool \<Rightarrow> nat" where
  "PortPool_available_count pool = length (available (pool_state pool))"

definition PortPool_is_exhausted :: "PortPool \<Rightarrow> bool" where
  "PortPool_is_exhausted pool = (PortPool_available_count pool = 0)"

section \<open>Operations as steps\<close>

datatype pool_op =
    PAllocate "nat \<Rightarrow> nat" nat
  | PAllocateSpecific u16
  | PDeallocate PortPair

fun pool_step :: "pool_op \<Rightarrow> PortPool \<Rightarrow> PortPool" where
  "pool_step (PAllocate rng min_free) pool = fst (PortPool_allocate_reserving rng min_free pool)"
| "pool_step (PAllocateSpecific p) pool = fst (PortPool_allocate_specific p pool)"
| "pool_step (PDeallocate pr) pool = PortPool_deallocate pr pool"

text \<open>
  The invariant: the free and the allocated ports partition the even ports of the range.
\<close>

definition pool_ports :: "PortPoolConfig \<Rightarrow> u16 set" where
  "pool_ports c = {p. min_port c \<le> p \<and> p < max_port c \<and> p mod 2 = 0}"

definition pool_ok :: "PortPool \<Rightarrow> bool" where
  "pool_ok pool \<longleftrightarrow>
     (let st = pool_state pool in
      distinct (available st) \<and> set (available st) \<inter> allocated st = {} \<and>
      set (available st) \<union> allocated st = pool_ports (pool_config pool))"

text \<open>What the pool relies on of its random source.\<close>

definition lawful_rng :: "(nat \<Rightarrow> nat) \<Rightarrow> bool" where
  "lawful_rng rng \<longleftrightarrow> (\<forall>n > 0. rng n < n)"

fun lawful_op :: "pool_op \<Rightarrow> bool" where
  "lawful_op (PAllocate rng min_free) = lawful_rng rng"
| "lawful_op e = True"

definition lawful_shuffle :: "(u16 list \<Rightarrow> u16 list) \<Rightarrow> bool" where
  "lawful_shuffle shuffle \<longleftrightarrow> (\<forall>xs. mset (shuffle xs) = mset xs)"

section \<open>Lemmas\<close>

lemma mset_swap_remove:
  assumes "i < length xs"
  shows "mset xs = add_mset (fst (swap_remove i xs)) (mset (snd (swap_remove i xs)))"
proof -
  have ne: "xs \<noteq> []" using assms by auto
  have "mset (xs[i := last xs]) = add_mset (last xs) (mset xs - {#xs ! i#})"
    using assms by (rule mset_update)
  moreover have "mset (xs[i := last xs]) =
      add_mset (last xs) (mset (butlast (xs[i := last xs])))"
  proof -
    let ?ys = "xs[i := last xs]"
    have "last ?ys = last xs" using ne by (cases "i = length xs - 1") (auto simp: last_list_update)
    moreover have "mset ?ys = mset (butlast ?ys @ [last ?ys])"
      using ne by simp
    ultimately show ?thesis by simp
  qed
  ultimately show ?thesis
    using assms by (simp add: swap_remove_def)
qed

lemma swap_remove_facts:
  assumes "i < length xs" "swap_remove i xs = (p, rest)" "distinct xs"
  shows "p \<in> set xs" "distinct rest" "set rest = set xs - {p}" "length xs = Suc (length rest)"
proof -
  have m: "mset xs = add_mset p (mset rest)"
    using mset_swap_remove [OF assms(1)] assms(2) by simp
  then show "length xs = Suc (length rest)"
    by (metis size_add_mset size_mset)
  from m have s: "set xs = insert p (set rest)"
    by (metis set_mset_add_mset_insert set_mset_mset)
  then show "p \<in> set xs" by simp
  from m assms(3) have "distinct (p # rest)"
    by (metis mset.simps(2) mset_eq_imp_distinct_iff)
  with s show "distinct rest" "set rest = set xs - {p}" by auto
qed

lemma position_Some: "position x xs = Some i \<Longrightarrow> i < length xs \<and> xs ! i = x"
  by (induction xs arbitrary: i) (auto split: if_splits)

lemma position_None: "position x xs = None \<longleftrightarrow> x \<notin> set xs"
  by (induction xs) auto

lemma set_port_range: "set (port_range c) = {p. min_port c \<le> p \<and> p < max_port c}"
proof -
  have "p \<in> set (port_range c)" if "min_port c \<le> p" "p < max_port c" for p
  proof -
    have "p = of_nat (unat p)" "unat p \<in> {unat (min_port c)..<unat (max_port c)}"
      using that by (simp_all add: word_le_nat_alt word_less_nat_alt)
    then show ?thesis unfolding port_range_def set_map by (metis image_eqI set_upt)
  qed
  moreover have "min_port c \<le> of_nat n \<and> of_nat n < max_port c"
    if "unat (min_port c) \<le> n" "n < unat (max_port c)" for n
  proof -
    have "n < 65536" using that(2) unat_u16_less by (rule less_trans)
    with that show ?thesis by (simp add: word_le_nat_alt word_less_nat_alt unat_of_nat)
  qed
  ultimately show ?thesis by (auto simp: port_range_def)
qed

lemma distinct_port_range: "distinct (port_range c)"
proof -
  have id: "unat (of_nat x :: u16) = x" if "x < unat (max_port c)" for x
  proof -
    from that unat_u16_less have "x < 65536" by (rule less_trans)
    then show ?thesis by (simp add: unat_of_nat)
  qed
  have "inj_on (of_nat :: nat \<Rightarrow> u16) {unat (min_port c)..<unat (max_port c)}"
    by (rule inj_on_inverseI [where g = unat]) (simp add: id)
  then show ?thesis by (simp add: port_range_def distinct_map)
qed

section \<open>The invariant is kept\<close>

lemma pool_ok_ports: "pool_ok pool \<Longrightarrow> p \<in> set (available (pool_state pool)) \<Longrightarrow> p mod 2 = 0"
  by (auto simp: pool_ok_def pool_ports_def Let_def)

lemma pool_ok_take:
  assumes "pool_ok pool" "i < length (available (pool_state pool))"
    and "swap_remove i (available (pool_state pool)) = (p, rest)"
  shows "pool_ok (pool\<lparr>pool_state := \<lparr>available = rest, allocated = insert p (allocated (pool_state pool))\<rparr>\<rparr>)"
proof -
  have "distinct (available (pool_state pool))" using assms(1) by (simp add: pool_ok_def Let_def)
  note swap_remove_facts [OF assms(2,3) this]
  with assms(1) show ?thesis by (auto simp: pool_ok_def Let_def)
qed

lemma allocate_reserving_cases:
  assumes "pool_ok pool" "lawful_rng rng"
    and "PortPool_allocate_reserving rng min_free pool = (pool', r)"
  shows "(\<exists>e. r = Inl (ResourceLimit e) \<and> pool' = pool \<and>
            (length (available (pool_state pool)) \<le> min_free)) \<or>
         (\<exists>p rest. r = Inr \<lparr>rtp_port = p, rtcp_port = p + 1\<rparr> \<and>
            min_free < length (available (pool_state pool)) \<and>
            swap_remove (rng (length (available (pool_state pool)))) (available (pool_state pool)) = (p, rest) \<and>
            pool' = pool\<lparr>pool_state := \<lparr>available = rest, allocated = insert p (allocated (pool_state pool))\<rparr>\<rparr>)"
proof -
  let ?xs = "available (pool_state pool)"
  obtain p rest where pr: "swap_remove (rng (length ?xs)) ?xs = (p, rest)"
    by (cases "swap_remove (rng (length ?xs)) ?xs")
  have "p mod 2 = 0" if "?xs \<noteq> []"
  proof -
    have "p \<in> set ?xs"
      using pr assms(2) that by (auto simp: swap_remove_def lawful_rng_def)
    then show ?thesis by (rule pool_ok_ports [OF assms(1)])
  qed
  with assms(3) pr show ?thesis
    by (auto simp: PortPool_allocate_reserving_def PortPair_new_def Let_def split: if_splits)
qed

lemma allocate_specific_cases:
  assumes "PortPool_allocate_specific p pool = (pool', r)"
  shows "(\<exists>e. r = Inl e \<and> pool' = pool) \<or>
         (\<exists>i. r = Inr \<lparr>rtp_port = p, rtcp_port = p + 1\<rparr> \<and>
            position p (available (pool_state pool)) = Some i \<and>
            pool' = pool\<lparr>pool_state := \<lparr>available = snd (swap_remove i (available (pool_state pool))),
                                      allocated = insert p (allocated (pool_state pool))\<rparr>\<rparr>)"
  using assms
  by (auto simp: PortPool_allocate_specific_def PortPair_new_def Let_def split: if_splits option.splits)

lemma pool_step_ok:
  assumes "pool_ok pool" "lawful_op e"
  shows "pool_ok (pool_step e pool)"
proof (cases e)
  case (PAllocate rng min_free)
  have rng: "lawful_rng rng" using assms(2) by (simp add: PAllocate)
  obtain pool' r where r: "PortPool_allocate_reserving rng min_free pool = (pool', r)"
    by (cases "PortPool_allocate_reserving rng min_free pool")
  from allocate_reserving_cases [OF assms(1) rng r] show ?thesis
  proof (elim disjE exE conjE)
    fix p rest
    assume *: "min_free < length (available (pool_state pool))"
      "swap_remove (rng (length (available (pool_state pool)))) (available (pool_state pool)) = (p, rest)"
      "pool' = pool\<lparr>pool_state := \<lparr>available = rest, allocated = insert p (allocated (pool_state pool))\<rparr>\<rparr>"
    have "rng (length (available (pool_state pool))) < length (available (pool_state pool))"
      using *(1) rng by (metis gr_implies_not0 lawful_rng_def not_gr_zero)
    from pool_ok_take [OF assms(1) this *(2)] show ?thesis by (simp add: PAllocate r *(3))
  qed (simp add: PAllocate r assms(1))
next
  case (PAllocateSpecific p)
  obtain pool' r where r: "PortPool_allocate_specific p pool = (pool', r)"
    by (cases "PortPool_allocate_specific p pool")
  from allocate_specific_cases [OF r] show ?thesis
  proof (elim disjE exE conjE)
    fix i
    assume *: "position p (available (pool_state pool)) = Some i"
      "pool' = pool\<lparr>pool_state := \<lparr>available = snd (swap_remove i (available (pool_state pool))),
                                  allocated = insert p (allocated (pool_state pool))\<rparr>\<rparr>"
    note i = position_Some [OF *(1)]
    have "swap_remove i (available (pool_state pool)) = (p, snd (swap_remove i (available (pool_state pool))))"
      using i by (simp add: swap_remove_def)
    from pool_ok_take [OF assms(1) conjunct1 [OF i] this] show ?thesis
      by (simp add: PAllocateSpecific r *(2))
  qed (simp add: PAllocateSpecific r assms(1))
next
  case (PDeallocate pr)
  then show ?thesis
    using assms(1) by (auto simp: PortPool_deallocate_def pool_ok_def Let_def)
qed

lemma lawful_shuffle_set:
  assumes "lawful_shuffle shuffle"
  shows "set (shuffle xs) = set xs" "distinct (shuffle xs) = distinct xs"
    "length (shuffle xs) = length xs"
proof -
  have "mset (shuffle xs) = mset xs" using assms by (simp add: lawful_shuffle_def)
  then show "set (shuffle xs) = set xs" "distinct (shuffle xs) = distinct xs"
    "length (shuffle xs) = length xs"
    by (rule mset_eq_setD, rule mset_eq_imp_distinct_iff, rule mset_eq_length)
qed

lemma PortPool_new_ok: "lawful_shuffle shuffle \<Longrightarrow> pool_ok (PortPool_new shuffle c)"
  by (auto simp: pool_ok_def PortPool_new_def Let_def pool_ports_def set_port_range
      distinct_port_range lawful_shuffle_set)

lemma validate_allocated_None:
  "validate_allocated c ps = None \<longleftrightarrow> set ps \<subseteq> pool_ports c"
  by (induction ps) (auto simp: pool_ports_def)

lemma PortPool_new_with_allocated_ok:
  "lawful_shuffle shuffle \<Longrightarrow> PortPool_new_with_allocated shuffle c ps = Inr pool \<Longrightarrow>
   pool_ok pool \<and> pool_config pool = c \<and> allocated (pool_state pool) = set ps"
  using validate_allocated_None [of c ps]
  by (auto simp: PortPool_new_with_allocated_def pool_ok_def Let_def pool_ports_def set_port_range
      distinct_port_range lawful_shuffle_set even_iff_mod_2_eq_zero split: option.splits)

text \<open>The pool as a system of operations, in which those with an unlawful random source do nothing.\<close>

definition lawful_step :: "pool_op \<Rightarrow> PortPool \<Rightarrow> PortPool" where
  "lawful_step e pool = (if lawful_op e then pool_step e pool else pool)"

interpretation port_pool: stepped_system pool_ok lawful_step
  by unfold_locales (auto simp: lawful_step_def intro: pool_step_ok)

lemma lawful_run: "list_all lawful_op ops \<Longrightarrow> fold pool_step ops pool = fold lawful_step ops pool"
  by (induction ops arbitrary: pool) (simp_all add: lawful_step_def)

lemma pool_step_config [simp]: "pool_config (pool_step e pool) = pool_config pool"
  by (cases e) (auto simp: PortPool_allocate_reserving_def PortPool_allocate_specific_def
      PortPool_deallocate_def Let_def split: prod.splits option.splits)

lemma pool_run_config: "pool_config (fold pool_step ops pool) = pool_config pool"
  by (induction ops arbitrary: pool) simp_all

lemma finite_pool_ports: "finite (pool_ports c)"
  by simp

lemma pool_ok_count:
  assumes "pool_ok pool"
  shows "PortPool_allocated_count pool + PortPool_available_count pool = card (pool_ports (pool_config pool))"
proof -
  let ?st = "pool_state pool"
  have "card (set (available ?st) \<union> allocated ?st) = card (set (available ?st)) + card (allocated ?st)"
    using assms by (intro card_Un_disjoint) (auto simp: pool_ok_def Let_def)
  then show ?thesis
    using assms by (simp add: PortPool_allocated_count_def PortPool_available_count_def pool_ok_def
        Let_def distinct_card)
qed

subsection \<open>Counting ports\<close>

lemma even_u16_of_nat: "n < 65536 \<Longrightarrow> (of_nat n :: u16) mod 2 = 0 \<longleftrightarrow> even n"
proof -
  assume "n < 65536"
  then have "unat (of_nat n :: u16) = n" by (simp add: unat_of_nat)
  then have "unat ((of_nat n :: u16) mod 2) = n mod 2" by (simp add: unat_mod)
  then show ?thesis by (metis even_iff_mod_2_eq_zero unat_0 unat_eq_0)
qed

lemma length_filter_even: "a \<le> b \<Longrightarrow> even a \<Longrightarrow> length (filter even [a..<b]) = (b - a + 1) div 2"
proof (induction b)
  case (Suc b)
  show ?case
  proof (cases "a \<le> b")
    case True
    with Suc have "length (filter even [a..<Suc b]) = (b - a + 1) div 2 + (if even b then 1 else 0)"
      by simp
    also have "\<dots> = (Suc b - a + 1) div 2"
      using True Suc.prems(2) by presburger
    finally show ?thesis .
  next
    case False
    with Suc.prems have "a = Suc b" by simp
    then show ?thesis by simp
  qed
qed simp

lemma length_even_ports:
  assumes "even (unat (min_port c))" "min_port c \<le> max_port c"
  shows "length (filter (\<lambda>p. p mod 2 = 0) (port_range c)) =
    (unat (max_port c) - unat (min_port c) + 1) div 2"
proof -
  have "filter (\<lambda>p. p mod 2 = 0) (port_range c) =
      map of_nat (filter even [unat (min_port c)..<unat (max_port c)])"
    by (auto simp: port_range_def filter_map o_def even_u16_of_nat less_trans [OF _ unat_u16_less]
        intro!: arg_cong [where f = "map of_nat"] filter_cong)
  then show ?thesis
    using assms by (simp add: length_filter_even word_le_nat_alt)
qed

section \<open>Properties\<close>

text \<open>
  C12. Over any sequence of allocations, reserved allocations, each with its own random draw, allocations of a given port
  and deallocations, from a fresh pool: the free and the allocated ports stay a partition of the even
  ports of the configured range (no port is handed out twice, lost or invented), and their counts
  add up to the number of those ports.
\<close>

theorem port_pool_partition:
  assumes "list_all lawful_op ops" "lawful_shuffle shuffle"
  shows "let pool = fold pool_step ops (PortPool_new shuffle c) in
    pool_ok pool \<and> pool_config pool = c \<and>
    PortPool_allocated_count pool + PortPool_available_count pool = card (pool_ports c)"
proof -
  let ?pool = "fold pool_step ops (PortPool_new shuffle c)"
  have ok: "pool_ok ?pool"
    unfolding lawful_run [OF assms(1)] by (rule port_pool.run_inv [OF PortPool_new_ok [OF assms(2)]])
  moreover have "pool_config ?pool = c"
    by (simp add: pool_run_config PortPool_new_def)
  ultimately show ?thesis
    using pool_ok_count [OF ok] by (simp add: Let_def)
qed

theorem port_pool_partition_witness:
  "let pool = fold pool_step [PAllocate (\<lambda>n. n div 2) 0, PAllocateSpecific 10002, PAllocate (\<lambda>n. n - 1) 3,
       PDeallocate \<lparr>rtp_port = 10002, rtcp_port = 10003\<rparr>]
     (PortPool_new rev PortPoolConfig_default) in
    pool_ok pool \<and> pool_config pool = PortPoolConfig_default \<and>
    PortPool_allocated_count pool + PortPool_available_count pool =
      card (pool_ports PortPoolConfig_default)"
  by (rule port_pool_partition) (auto simp: lawful_rng_def lawful_shuffle_def)



text \<open>
  \<^verbatim>\<open>capacity()\<close> is the number of pairs a fresh pool of an accepted configuration holds when
  the upper bound is even, and one less than it when the upper bound is odd: the last even port
  below an odd bound is in the pool but not counted.
\<close>

theorem port_pool_capacity:
  assumes "PortPoolConfig_new mn mx = Inr c" "lawful_shuffle shuffle"
  shows "PortPool_available_count (PortPool_new shuffle c) =
    PortPoolConfig_capacity c + (if even (unat mx) then 0 else 1)"
proof -
  from assms(1) have c: "c = \<lparr>min_port = mn, max_port = mx\<rparr>" and mn: "mn mod 2 = 0" and "mn < mx"
    by (auto simp: PortPoolConfig_new_def split: if_splits)
  then have le: "unat mn \<le> unat mx" "mn \<le> mx" by (simp_all add: word_less_nat_alt word_le_nat_alt)
  have "unat (mn mod 2) = unat mn mod 2" by (simp add: unat_mod)
  with mn have even_mn: "even (unat mn)" by (simp add: even_iff_mod_2_eq_zero)
  have "PortPool_available_count (PortPool_new shuffle c) = (unat mx - unat mn + 1) div 2"
    using length_even_ports [of c] even_mn le assms(2)
    by (simp add: PortPool_available_count_def PortPool_new_def lawful_shuffle_set c)
  moreover have "PortPoolConfig_capacity c = (unat mx - unat mn) div 2"
    using le by (simp add: PortPoolConfig_capacity_def c unat_div unat_sub)
  ultimately show ?thesis
    using even_mn le by (auto elim!: evenE oddE)
qed

theorem port_pool_capacity_witness:
  "PortPool_available_count (PortPool_new rev \<lparr>min_port = 10000, max_port = 10101\<rparr>) =
   PortPoolConfig_capacity \<lparr>min_port = 10000, max_port = 10101\<rparr> + (if even (unat (10101 :: u16)) then 0 else 1)"
  by (rule port_pool_capacity [of 10000]) (simp_all add: PortPoolConfig_new_def lawful_shuffle_def)

end
