(* ===== verification/Utf8.thy ===== *)
theory Utf8
  imports Forge_Prelude
begin

text \<open>
  UTF-8 as the standard library handles it: \<^verbatim>\<open>String::from_utf8_lossy\<close>, the validity of the bytes
  of a \<^verbatim>\<open>str\<close>, \<^verbatim>\<open>str::is_char_boundary\<close>, and the largest boundary at or below an index, which the
  sources look for before they cut a string. Decoding with replacement gives valid text, leaves
  valid text alone, and cutting valid text at a boundary gives valid text.
\<close>

section \<open>Definitions\<close>

text \<open>
  A Rust \<^verbatim>\<open>String\<close> is its UTF-8 bytes; a literal of the source, which is ASCII, is a
  \<^typ>\<open>string\<close> turned into bytes.
\<close>

definition str :: "string \<Rightarrow> bytes" where
  "str s = map (\<lambda>c. of_nat (of_char c)) s"

text \<open>
  One UTF-8 sequence at the front of \<open>b # r\<close>, as \<^verbatim>\<open>core::str\<close> scans it: whether it is
  well-formed, and its length, or that of the maximal invalid part.
\<close>

definition byte_at :: "bytes \<Rightarrow> nat \<Rightarrow> u8" where
  "byte_at r i = (if i < length r then r ! i else 0)"

definition is_continuation :: "u8 \<Rightarrow> bool" where
  "is_continuation b \<longleftrightarrow> 0x80 \<le> b \<and> b \<le> 0xBF"

definition second_of_three :: "u8 \<Rightarrow> u8 \<Rightarrow> bool" where
  "second_of_three b c \<longleftrightarrow>
     b = 0xE0 \<and> 0xA0 \<le> c \<and> c \<le> 0xBF \<or> b = 0xED \<and> 0x80 \<le> c \<and> c \<le> 0x9F \<or>
     b \<noteq> 0xE0 \<and> b \<noteq> 0xED \<and> is_continuation c"

definition second_of_four :: "u8 \<Rightarrow> u8 \<Rightarrow> bool" where
  "second_of_four b c \<longleftrightarrow>
     b = 0xF0 \<and> 0x90 \<le> c \<and> c \<le> 0xBF \<or> b = 0xF4 \<and> 0x80 \<le> c \<and> c \<le> 0x8F \<or>
     b \<noteq> 0xF0 \<and> b \<noteq> 0xF4 \<and> is_continuation c"

definition utf8_seq :: "u8 \<Rightarrow> bytes \<Rightarrow> bool \<times> nat" where
  "utf8_seq b r =
     (if b < 0x80 then (True, 1)
      else if 0xC2 \<le> b \<and> b \<le> 0xDF
      then if is_continuation (byte_at r 0) then (True, 2) else (False, 1)
      else if 0xE0 \<le> b \<and> b \<le> 0xEF
      then if second_of_three b (byte_at r 0)
        then if is_continuation (byte_at r 1) then (True, 3) else (False, 2)
        else (False, 1)
      else if 0xF0 \<le> b \<and> b \<le> 0xF4
      then if second_of_four b (byte_at r 0)
        then if is_continuation (byte_at r 1)
          then if is_continuation (byte_at r 2) then (True, 4) else (False, 3)
          else (False, 2)
        else (False, 1)
      else (False, 1))"

text \<open>\<^verbatim>\<open>String::from_utf8_lossy\<close>: each maximal invalid part becomes U+FFFD.\<close>

function from_utf8_lossy :: "bytes \<Rightarrow> bytes" where
  "from_utf8_lossy bs =
     (case bs of
        [] \<Rightarrow> []
      | b # r \<Rightarrow>
          (case utf8_seq b r of
             (ok, n) \<Rightarrow> (if ok then take n bs else [0xEF, 0xBF, 0xBD]) @ from_utf8_lossy (drop (n - 1) r)))"
  by pat_completeness auto
termination by (relation "measure length") auto

text \<open>The bytes of a \<^verbatim>\<open>str\<close>: every sequence is well-formed.\<close>

function valid_utf8 :: "bytes \<Rightarrow> bool" where
  "valid_utf8 bs =
     (case bs of
        [] \<Rightarrow> True
      | b # r \<Rightarrow> (case utf8_seq b r of (ok, n) \<Rightarrow> ok \<and> valid_utf8 (drop (n - 1) r)))"
  by pat_completeness auto
termination by (relation "measure length") auto

declare from_utf8_lossy.simps [simp del] valid_utf8.simps [simp del]

definition is_char_boundary :: "bytes \<Rightarrow> nat \<Rightarrow> bool" where
  "is_char_boundary s i \<longleftrightarrow>
     i = 0 \<or> i = length s \<or> i < length s \<and> \<not> is_continuation (s ! i)"

text \<open>The UTF-8 bytes of a scalar value, as \<^verbatim>\<open>char::encode_utf8\<close> writes them.\<close>

definition encode_utf8 :: "nat \<Rightarrow> bytes" where
  "encode_utf8 c =
     (if c < 0x80 then [of_nat c]
      else if c < 0x800 then [of_nat (0xC0 + c div 0x40), of_nat (0x80 + c mod 0x40)]
      else if c < 0x10000
      then [of_nat (0xE0 + c div 0x1000), of_nat (0x80 + c div 0x40 mod 0x40), of_nat (0x80 + c mod 0x40)]
      else [of_nat (0xF0 + c div 0x40000), of_nat (0x80 + c div 0x1000 mod 0x40),
            of_nat (0x80 + c div 0x40 mod 0x40), of_nat (0x80 + c mod 0x40)])"

text \<open>The loop that steps an index down to a character boundary.\<close>

primrec char_floor :: "bytes \<Rightarrow> nat \<Rightarrow> nat" where
  "char_floor s 0 = 0"
| "char_floor s (Suc n) = (if is_char_boundary s (Suc n) then Suc n else char_floor s n)"

section \<open>Lemmas\<close>

lemma utf8_seq_pos [simp]: "utf8_seq b r = (ok, n) \<Longrightarrow> 0 < n"
  by (auto simp: utf8_seq_def split: if_splits)

lemma is_continuation_0 [simp]: "\<not> is_continuation 0"
  by (simp add: is_continuation_def)

lemma second_byte_continuation:
  "second_of_three b c \<Longrightarrow> is_continuation c" "second_of_four b c \<Longrightarrow> is_continuation c"
  by (auto simp: second_of_three_def second_of_four_def is_continuation_def word_le_nat_alt)

lemma byte_at_continuation:
  "is_continuation (byte_at r i) \<Longrightarrow> i < length r \<and> byte_at r i = r ! i"
  by (auto simp: byte_at_def split: if_splits)

lemma utf8_seq_length: "utf8_seq b r = (True, n) \<Longrightarrow> n \<le> Suc (length r)"
  by (auto simp: utf8_seq_def Suc_le_eq split: if_splits
      dest!: byte_at_continuation second_byte_continuation)

lemma utf8_seq_lead: "utf8_seq b r = (True, n) \<Longrightarrow> \<not> is_continuation b"
  by (auto simp: utf8_seq_def is_continuation_def word_le_nat_alt word_less_nat_alt split: if_splits)

lemma utf8_seq_tail:
  "utf8_seq b r = (True, n) \<Longrightarrow> Suc i < n \<Longrightarrow> is_continuation (r ! i)"
  by (auto simp: utf8_seq_def less_Suc_eq numeral_eq_Suc split: if_splits
      dest: byte_at_continuation second_byte_continuation)
    (metis byte_at_continuation second_byte_continuation)+

lemma byte_at_take_append: "i < k \<Longrightarrow> k \<le> length r \<Longrightarrow> byte_at (take k r @ rest) i = byte_at r i"
  by (simp add: byte_at_def nth_append)

lemma utf8_seq_extend:
  assumes "utf8_seq b r = (True, n)"
  shows "utf8_seq b (take (n - 1) r @ rest) = (True, n)"
proof -
  have "n - 1 \<le> length r"
    using utf8_seq_length [OF assms] by simp
  then have *: "byte_at (take (n - 1) r @ rest) i = byte_at r i" if "i < n - 1" for i
    using that by (simp add: byte_at_take_append)
  show ?thesis
    using assms * unfolding utf8_seq_def
    by (simp add: numeral_eq_Suc split: if_splits) auto
qed

lemma valid_utf8_Nil [simp]: "valid_utf8 []"
  by (simp add: valid_utf8.simps)

lemma valid_utf8_Cons:
  "valid_utf8 (b # r) \<longleftrightarrow> (case utf8_seq b r of (ok, n) \<Rightarrow> ok \<and> valid_utf8 (drop (n - 1) r))"
  by (simp add: valid_utf8.simps)

lemma valid_utf8_prepend:
  assumes "utf8_seq b r = (True, n)" "valid_utf8 rest"
  shows "valid_utf8 (take n (b # r) @ rest)"
proof -
  obtain k where k: "n = Suc k"
    using utf8_seq_pos [OF assms(1)] by (cases n) auto
  then have "k \<le> length r"
    using utf8_seq_length [OF assms(1)] by simp
  then show ?thesis
    using utf8_seq_extend [OF assms(1), of rest] assms(2) by (simp add: k valid_utf8_Cons)
qed

lemma from_utf8_lossy_Nil [simp]: "from_utf8_lossy [] = []"
  by (simp add: from_utf8_lossy.simps)

lemma from_utf8_lossy_Cons:
  "from_utf8_lossy (b # r) =
     (case utf8_seq b r of
        (ok, n) \<Rightarrow> (if ok then take n (b # r) else [0xEF, 0xBF, 0xBD]) @ from_utf8_lossy (drop (n - 1) r))"
  by (simp add: from_utf8_lossy.simps)

lemma replacement_valid: "utf8_seq 0xEF [0xBF, 0xBD] = (True, 3)"
  by (simp add: utf8_seq_def second_of_three_def is_continuation_def byte_at_def word_le_nat_alt)

theorem from_utf8_lossy_valid: "valid_utf8 (from_utf8_lossy bs)"
proof (induction bs rule: from_utf8_lossy.induct)
  case (1 bs)
  show ?case
  proof (cases bs)
    case (Cons b r)
    obtain ok n where seq: "utf8_seq b r = (ok, n)" by fastforce
    note rest = "1.IH" [OF Cons seq [symmetric]]
    show ?thesis
      using valid_utf8_prepend [of b r n] valid_utf8_prepend [OF replacement_valid rest] rest seq
      by (cases ok) (simp_all add: Cons from_utf8_lossy_Cons)
  qed simp
qed

theorem from_utf8_lossy_id: "valid_utf8 bs \<Longrightarrow> from_utf8_lossy bs = bs"
proof (induction bs rule: valid_utf8.induct)
  case (1 bs)
  show ?case
  proof (cases bs)
    case (Cons b r)
    obtain ok n where seq: "utf8_seq b r = (ok, n)" by fastforce
    obtain k where k: "n = Suc k"
      using utf8_seq_pos [OF seq] by (cases n) auto
    have "ok" "valid_utf8 (drop (n - 1) r)"
      using "1.prems" by (simp_all add: Cons valid_utf8_Cons seq)
    then show ?thesis
      using "1.IH" [OF Cons seq [symmetric]] by (simp add: Cons from_utf8_lossy_Cons seq k)
  qed simp
qed

text \<open>Cutting at a boundary.\<close>

theorem valid_utf8_take:
  "valid_utf8 s \<Longrightarrow> is_char_boundary s k \<Longrightarrow> valid_utf8 (take k s)"
proof (induction s arbitrary: k rule: valid_utf8.induct)
  case (1 s)
  show ?case
  proof (cases "s = [] \<or> k = 0")
    case False
    then obtain b r j where s: "s = b # r" and k: "k = Suc j"
      by (metis list.exhaust not0_implies_Suc)
    obtain ok n where seq0: "utf8_seq b r = (ok, n)" by fastforce
    then have "ok" and tail: "valid_utf8 (drop (n - 1) r)"
      using "1.prems"(1) by (simp_all add: s valid_utf8_Cons)
    then have seq: "utf8_seq b r = (True, n)"
      using seq0 by simp
    obtain i where n: "n = Suc i"
      using utf8_seq_pos [OF seq] by (cases n) auto
    have i: "i \<le> length r"
      using utf8_seq_length [OF seq] by (simp add: n)
    have "i \<le> j"
    proof (rule ccontr)
      assume "\<not> i \<le> j"
      then have "is_continuation (r ! j)" "j < length r"
        using utf8_seq_tail [OF seq, of j] i by (simp_all add: n)
      then show False
        using "1.prems"(2) by (simp add: is_char_boundary_def s k)
    qed
    moreover have "is_char_boundary (drop i r) (j - i)"
      using "1.prems"(2) i \<open>i \<le> j\<close> by (auto simp: is_char_boundary_def s k)
    ultimately have "valid_utf8 (take (j - i) (drop i r))"
      using "1.IH" [OF s seq0 [symmetric]] tail by (simp add: n)
    then have "valid_utf8 (take n (b # r) @ take (j - i) (drop i r))"
      by (rule valid_utf8_prepend [OF seq])
    then show ?thesis
      using \<open>i \<le> j\<close> by (simp add: s k n) (metis le_add_diff_inverse take_add)
  qed auto
qed

lemma char_floor_boundary: "is_char_boundary s (char_floor s n)"
  by (induction n) (auto simp: is_char_boundary_def)

lemma char_floor_le: "char_floor s n \<le> n"
  by (induction n) auto

end
