(* ===== verification/Bfcp_Message.thy ===== *)
theory Bfcp_Message
  imports Utf8
begin

text \<open>
  BFCP messages on the wire, \<^verbatim>\<open>crates/forge-bfcp/src/message.rs\<close>: the primitives, statuses,
  error codes and priorities with their wire values, the attributes with their nesting, and the
  parser and printer. Constructors carry the prefix of their enum (\<open>P_\<close>, \<open>RS_\<close>, \<open>EC_\<close>, \<open>PR_\<close>,
  \<open>A_\<close>, \<open>PE_\<close>, \<open>EE_\<close>). Strings are their UTF-8 bytes.
\<close>

section \<open>Enumerations\<close>

definition VERSION_RELIABLE :: u8 where
  "VERSION_RELIABLE = 1"

definition VERSION_UNRELIABLE :: u8 where
  "VERSION_UNRELIABLE = 2"

definition COMMON_HEADER_LEN :: nat where
  "COMMON_HEADER_LEN = 12"

definition FRAGMENT_LEN :: nat where
  "FRAGMENT_LEN = 4"

definition MAX_PAYLOAD_LEN :: nat where
  "MAX_PAYLOAD_LEN = 65535 * 4"

datatype Primitive =
    P_FloorRequest | P_FloorRelease | P_FloorRequestQuery | P_FloorRequestStatus
  | P_UserQuery | P_UserStatus | P_FloorQuery | P_FloorStatus | P_ChairAction
  | P_ChairActionAck | P_Hello | P_HelloAck | P_Error | P_FloorRequestStatusAck
  | P_FloorStatusAck | P_Goodbye | P_GoodbyeAck

fun Primitive_as_u8 :: "Primitive \<Rightarrow> u8" where
  "Primitive_as_u8 P_FloorRequest = 1"
| "Primitive_as_u8 P_FloorRelease = 2"
| "Primitive_as_u8 P_FloorRequestQuery = 3"
| "Primitive_as_u8 P_FloorRequestStatus = 4"
| "Primitive_as_u8 P_UserQuery = 5"
| "Primitive_as_u8 P_UserStatus = 6"
| "Primitive_as_u8 P_FloorQuery = 7"
| "Primitive_as_u8 P_FloorStatus = 8"
| "Primitive_as_u8 P_ChairAction = 9"
| "Primitive_as_u8 P_ChairActionAck = 10"
| "Primitive_as_u8 P_Hello = 11"
| "Primitive_as_u8 P_HelloAck = 12"
| "Primitive_as_u8 P_Error = 13"
| "Primitive_as_u8 P_FloorRequestStatusAck = 14"
| "Primitive_as_u8 P_FloorStatusAck = 15"
| "Primitive_as_u8 P_Goodbye = 16"
| "Primitive_as_u8 P_GoodbyeAck = 17"

definition Primitive_ALL :: "Primitive list" where
  "Primitive_ALL =
     [P_FloorRequest, P_FloorRelease, P_FloorRequestQuery, P_FloorRequestStatus, P_UserQuery,
      P_UserStatus, P_FloorQuery, P_FloorStatus, P_ChairAction, P_ChairActionAck, P_Hello,
      P_HelloAck, P_Error, P_FloorRequestStatusAck, P_FloorStatusAck, P_Goodbye, P_GoodbyeAck]"

definition Primitive_from_u8 :: "u8 \<Rightarrow> Primitive option" where
  "Primitive_from_u8 v = find (\<lambda>p. Primitive_as_u8 p = v) Primitive_ALL"

fun Primitive_name :: "Primitive \<Rightarrow> string" where
  "Primitive_name P_FloorRequest = ''FloorRequest''"
| "Primitive_name P_FloorRelease = ''FloorRelease''"
| "Primitive_name P_FloorRequestQuery = ''FloorRequestQuery''"
| "Primitive_name P_FloorRequestStatus = ''FloorRequestStatus''"
| "Primitive_name P_UserQuery = ''UserQuery''"
| "Primitive_name P_UserStatus = ''UserStatus''"
| "Primitive_name P_FloorQuery = ''FloorQuery''"
| "Primitive_name P_FloorStatus = ''FloorStatus''"
| "Primitive_name P_ChairAction = ''ChairAction''"
| "Primitive_name P_ChairActionAck = ''ChairActionAck''"
| "Primitive_name P_Hello = ''Hello''"
| "Primitive_name P_HelloAck = ''HelloAck''"
| "Primitive_name P_Error = ''Error''"
| "Primitive_name P_FloorRequestStatusAck = ''FloorRequestStatusAck''"
| "Primitive_name P_FloorStatusAck = ''FloorStatusAck''"
| "Primitive_name P_Goodbye = ''Goodbye''"
| "Primitive_name P_GoodbyeAck = ''GoodbyeAck''"

fun Primitive_is_ack :: "Primitive \<Rightarrow> bool" where
  "Primitive_is_ack P_FloorRequestStatusAck = True"
| "Primitive_is_ack P_FloorStatusAck = True"
| "Primitive_is_ack P_GoodbyeAck = True"
| "Primitive_is_ack _ = False"

datatype RequestStatus =
    RS_Pending | RS_Accepted | RS_Granted | RS_Denied | RS_Cancelled | RS_Released | RS_Revoked

fun RequestStatus_as_u8 :: "RequestStatus \<Rightarrow> u8" where
  "RequestStatus_as_u8 RS_Pending = 1"
| "RequestStatus_as_u8 RS_Accepted = 2"
| "RequestStatus_as_u8 RS_Granted = 3"
| "RequestStatus_as_u8 RS_Denied = 4"
| "RequestStatus_as_u8 RS_Cancelled = 5"
| "RequestStatus_as_u8 RS_Released = 6"
| "RequestStatus_as_u8 RS_Revoked = 7"

definition RequestStatus_from_u8 :: "u8 \<Rightarrow> RequestStatus option" where
  "RequestStatus_from_u8 v =
     find (\<lambda>s. RequestStatus_as_u8 s = v)
       [RS_Pending, RS_Accepted, RS_Granted, RS_Denied, RS_Cancelled, RS_Released, RS_Revoked]"

fun RequestStatus_name :: "RequestStatus \<Rightarrow> string" where
  "RequestStatus_name RS_Pending = ''Pending''"
| "RequestStatus_name RS_Accepted = ''Accepted''"
| "RequestStatus_name RS_Granted = ''Granted''"
| "RequestStatus_name RS_Denied = ''Denied''"
| "RequestStatus_name RS_Cancelled = ''Cancelled''"
| "RequestStatus_name RS_Released = ''Released''"
| "RequestStatus_name RS_Revoked = ''Revoked''"

fun RequestStatus_is_terminal :: "RequestStatus \<Rightarrow> bool" where
  "RequestStatus_is_terminal RS_Denied = True"
| "RequestStatus_is_terminal RS_Cancelled = True"
| "RequestStatus_is_terminal RS_Released = True"
| "RequestStatus_is_terminal RS_Revoked = True"
| "RequestStatus_is_terminal _ = False"

datatype ErrorCode =
    EC_ConferenceDoesNotExist | EC_UserDoesNotExist | EC_UnknownPrimitive
  | EC_UnknownMandatoryAttribute | EC_UnauthorizedOperation | EC_InvalidFloorId
  | EC_FloorRequestIdDoesNotExist | EC_MaximumFloorRequestsReached | EC_UseTls
  | EC_UnableToParseMessage | EC_UseDtls | EC_UnsupportedVersion | EC_IncorrectMessageLength
  | EC_GenericError | EC_Other u8

definition ErrorCode_from_u8 :: "u8 \<Rightarrow> ErrorCode" where
  "ErrorCode_from_u8 v =
     (if v = 1 then EC_ConferenceDoesNotExist
      else if v = 2 then EC_UserDoesNotExist
      else if v = 3 then EC_UnknownPrimitive
      else if v = 4 then EC_UnknownMandatoryAttribute
      else if v = 5 then EC_UnauthorizedOperation
      else if v = 6 then EC_InvalidFloorId
      else if v = 7 then EC_FloorRequestIdDoesNotExist
      else if v = 8 then EC_MaximumFloorRequestsReached
      else if v = 9 then EC_UseTls
      else if v = 10 then EC_UnableToParseMessage
      else if v = 11 then EC_UseDtls
      else if v = 12 then EC_UnsupportedVersion
      else if v = 13 then EC_IncorrectMessageLength
      else if v = 14 then EC_GenericError
      else EC_Other v)"

fun ErrorCode_as_u8 :: "ErrorCode \<Rightarrow> u8" where
  "ErrorCode_as_u8 EC_ConferenceDoesNotExist = 1"
| "ErrorCode_as_u8 EC_UserDoesNotExist = 2"
| "ErrorCode_as_u8 EC_UnknownPrimitive = 3"
| "ErrorCode_as_u8 EC_UnknownMandatoryAttribute = 4"
| "ErrorCode_as_u8 EC_UnauthorizedOperation = 5"
| "ErrorCode_as_u8 EC_InvalidFloorId = 6"
| "ErrorCode_as_u8 EC_FloorRequestIdDoesNotExist = 7"
| "ErrorCode_as_u8 EC_MaximumFloorRequestsReached = 8"
| "ErrorCode_as_u8 EC_UseTls = 9"
| "ErrorCode_as_u8 EC_UnableToParseMessage = 10"
| "ErrorCode_as_u8 EC_UseDtls = 11"
| "ErrorCode_as_u8 EC_UnsupportedVersion = 12"
| "ErrorCode_as_u8 EC_IncorrectMessageLength = 13"
| "ErrorCode_as_u8 EC_GenericError = 14"
| "ErrorCode_as_u8 (EC_Other v) = v"

fun ErrorCode_name :: "ErrorCode \<Rightarrow> string" where
  "ErrorCode_name EC_ConferenceDoesNotExist = ''Conference Does Not Exist''"
| "ErrorCode_name EC_UserDoesNotExist = ''User Does Not Exist''"
| "ErrorCode_name EC_UnknownPrimitive = ''Unknown Primitive''"
| "ErrorCode_name EC_UnknownMandatoryAttribute = ''Unknown Mandatory Attribute''"
| "ErrorCode_name EC_UnauthorizedOperation = ''Unauthorized Operation''"
| "ErrorCode_name EC_InvalidFloorId = ''Invalid Floor ID''"
| "ErrorCode_name EC_FloorRequestIdDoesNotExist = ''Floor Request ID Does Not Exist''"
| "ErrorCode_name EC_MaximumFloorRequestsReached =
     ''You have Already Reached the Maximum Number of Ongoing Floor Requests for This Floor''"
| "ErrorCode_name EC_UseTls = ''Use TLS''"
| "ErrorCode_name EC_UnableToParseMessage = ''Unable to Parse Message''"
| "ErrorCode_name EC_UseDtls = ''Use DTLS''"
| "ErrorCode_name EC_UnsupportedVersion = ''Unsupported Version''"
| "ErrorCode_name EC_IncorrectMessageLength = ''Incorrect Message Length''"
| "ErrorCode_name EC_GenericError = ''Generic Error''"
| "ErrorCode_name (EC_Other _) = ''Unknown Error Code''"

text \<open>The \<^verbatim>\<open>Display\<close> of an error code.\<close>

definition ErrorCode_fmt :: "ErrorCode \<Rightarrow> string" where
  "ErrorCode_fmt c = ErrorCode_name c @ '' ('' @ show_nat (unat (ErrorCode_as_u8 c)) @ '')''"

datatype Priority = PR_Lowest | PR_Low | PR_Normal | PR_High | PR_Highest

fun Priority_as_u8 :: "Priority \<Rightarrow> u8" where
  "Priority_as_u8 PR_Lowest = 0"
| "Priority_as_u8 PR_Low = 1"
| "Priority_as_u8 PR_Normal = 2"
| "Priority_as_u8 PR_High = 3"
| "Priority_as_u8 PR_Highest = 4"

definition Priority_from_u8 :: "u8 \<Rightarrow> Priority" where
  "Priority_from_u8 v =
     (if v = 0 then PR_Lowest else if v = 1 then PR_Low else if v = 2 then PR_Normal
      else if v = 3 then PR_High else PR_Highest)"

definition Priority_default :: Priority where
  "Priority_default = PR_Normal"

section \<open>Attributes\<close>

definition attr_type_ALL :: "u8 list" where
  "attr_type_ALL = [1, 2, 3, 4, 5, 6, 7, 8, 9, 10, 11, 12, 13, 14, 15, 16, 17, 18]"

datatype Attribute =
    A_BeneficiaryId u16
  | A_FloorId u16
  | A_FloorRequestId u16
  | A_Priority Priority
  | A_RequestStatus RequestStatus u8
  | A_ErrorCode ErrorCode "u8 list"
  | A_ErrorInfo bytes
  | A_ParticipantProvidedInfo bytes
  | A_StatusInfo bytes
  | A_SupportedAttributes "u8 list"
  | A_SupportedPrimitives "u8 list"
  | A_UserDisplayName bytes
  | A_UserUri bytes
  | A_BeneficiaryInformation u16 "Attribute list"
  | A_FloorRequestInformation u16 "Attribute list"
  | A_RequestedByInformation u16 "Attribute list"
  | A_FloorRequestStatus u16 "Attribute list"
  | A_OverallRequestStatus u16 "Attribute list"
  | A_Unknown u8 "u8 list"

fun Attribute_attr_type :: "Attribute \<Rightarrow> u8" where
  "Attribute_attr_type (A_BeneficiaryId _) = 1"
| "Attribute_attr_type (A_FloorId _) = 2"
| "Attribute_attr_type (A_FloorRequestId _) = 3"
| "Attribute_attr_type (A_Priority _) = 4"
| "Attribute_attr_type (A_RequestStatus _ _) = 5"
| "Attribute_attr_type (A_ErrorCode _ _) = 6"
| "Attribute_attr_type (A_ErrorInfo _) = 7"
| "Attribute_attr_type (A_ParticipantProvidedInfo _) = 8"
| "Attribute_attr_type (A_StatusInfo _) = 9"
| "Attribute_attr_type (A_SupportedAttributes _) = 10"
| "Attribute_attr_type (A_SupportedPrimitives _) = 11"
| "Attribute_attr_type (A_UserDisplayName _) = 12"
| "Attribute_attr_type (A_UserUri _) = 13"
| "Attribute_attr_type (A_BeneficiaryInformation _ _) = 14"
| "Attribute_attr_type (A_FloorRequestInformation _ _) = 15"
| "Attribute_attr_type (A_RequestedByInformation _ _) = 16"
| "Attribute_attr_type (A_FloorRequestStatus _ _) = 17"
| "Attribute_attr_type (A_OverallRequestStatus _ _) = 18"
| "Attribute_attr_type (A_Unknown t _) = t"

fun Attribute_children :: "Attribute \<Rightarrow> Attribute list" where
  "Attribute_children (A_BeneficiaryInformation _ as) = as"
| "Attribute_children (A_FloorRequestInformation _ as) = as"
| "Attribute_children (A_RequestedByInformation _ as) = as"
| "Attribute_children (A_FloorRequestStatus _ as) = as"
| "Attribute_children (A_OverallRequestStatus _ as) = as"
| "Attribute_children _ = []"

definition Attribute_supported_attributes :: Attribute where
  "Attribute_supported_attributes = A_SupportedAttributes (map (push_bit 1) attr_type_ALL)"

definition Attribute_supported_primitives :: Attribute where
  "Attribute_supported_primitives = A_SupportedPrimitives (map Primitive_as_u8 Primitive_ALL)"

text \<open>
  The length the attribute's header states; \<^verbatim>\<open>padded_len\<close> of a child is its rounding up to four.
\<close>

fun Attribute_unpadded_len :: "Attribute \<Rightarrow> nat" where
  "Attribute_unpadded_len (A_BeneficiaryId _) = 2 + 2"
| "Attribute_unpadded_len (A_FloorId _) = 2 + 2"
| "Attribute_unpadded_len (A_FloorRequestId _) = 2 + 2"
| "Attribute_unpadded_len (A_Priority _) = 2 + 2"
| "Attribute_unpadded_len (A_RequestStatus _ _) = 2 + 2"
| "Attribute_unpadded_len (A_ErrorCode _ details) = 2 + (1 + length details)"
| "Attribute_unpadded_len (A_ErrorInfo s) = 2 + length s"
| "Attribute_unpadded_len (A_ParticipantProvidedInfo s) = 2 + length s"
| "Attribute_unpadded_len (A_StatusInfo s) = 2 + length s"
| "Attribute_unpadded_len (A_SupportedAttributes v) = 2 + length v"
| "Attribute_unpadded_len (A_SupportedPrimitives v) = 2 + length v"
| "Attribute_unpadded_len (A_UserDisplayName s) = 2 + length s"
| "Attribute_unpadded_len (A_UserUri s) = 2 + length s"
| "Attribute_unpadded_len (A_BeneficiaryInformation _ as) =
     2 + (2 + sum_list (map (\<lambda>a. round_up4 (Attribute_unpadded_len a)) as))"
| "Attribute_unpadded_len (A_FloorRequestInformation _ as) =
     2 + (2 + sum_list (map (\<lambda>a. round_up4 (Attribute_unpadded_len a)) as))"
| "Attribute_unpadded_len (A_RequestedByInformation _ as) =
     2 + (2 + sum_list (map (\<lambda>a. round_up4 (Attribute_unpadded_len a)) as))"
| "Attribute_unpadded_len (A_FloorRequestStatus _ as) =
     2 + (2 + sum_list (map (\<lambda>a. round_up4 (Attribute_unpadded_len a)) as))"
| "Attribute_unpadded_len (A_OverallRequestStatus _ as) =
     2 + (2 + sum_list (map (\<lambda>a. round_up4 (Attribute_unpadded_len a)) as))"
| "Attribute_unpadded_len (A_Unknown _ v) = 2 + length v"

definition Attribute_padded_len :: "Attribute \<Rightarrow> nat" where
  "Attribute_padded_len a = round_up4 (Attribute_unpadded_len a)"

text \<open>\<^verbatim>\<open>fits\<close>, with the children of each group written out.\<close>

fun Attribute_fits :: "Attribute \<Rightarrow> bool" where
  "Attribute_fits (A_BeneficiaryInformation i as) =
     (Attribute_unpadded_len (A_BeneficiaryInformation i as) \<le> 255 \<and> list_all Attribute_fits as)"
| "Attribute_fits (A_FloorRequestInformation i as) =
     (Attribute_unpadded_len (A_FloorRequestInformation i as) \<le> 255 \<and> list_all Attribute_fits as)"
| "Attribute_fits (A_RequestedByInformation i as) =
     (Attribute_unpadded_len (A_RequestedByInformation i as) \<le> 255 \<and> list_all Attribute_fits as)"
| "Attribute_fits (A_FloorRequestStatus i as) =
     (Attribute_unpadded_len (A_FloorRequestStatus i as) \<le> 255 \<and> list_all Attribute_fits as)"
| "Attribute_fits (A_OverallRequestStatus i as) =
     (Attribute_unpadded_len (A_OverallRequestStatus i as) \<le> 255 \<and> list_all Attribute_fits as)"
| "Attribute_fits a = (Attribute_unpadded_len a \<le> 255)"

text \<open>
  The two header octets (type, mandatory bit, length), the value and the padding to four octets:
  what \<^verbatim>\<open>write\<close> appends to its output.
\<close>

definition attr_frame :: "u8 \<Rightarrow> bool \<Rightarrow> nat \<Rightarrow> bytes \<Rightarrow> bytes" where
  "attr_frame t mandatory len val =
     (push_bit 1 t OR (if mandatory then 1 else 0)) # of_nat (min len 255) # val @
     replicate (round_up4 (2 + length val) - (2 + length val)) 0"

fun Attribute_write :: "Attribute \<Rightarrow> bytes" where
  "Attribute_write (A_BeneficiaryId v) = attr_frame 1 True 4 (to_be16 v)"
| "Attribute_write (A_FloorId v) = attr_frame 2 True 4 (to_be16 v)"
| "Attribute_write (A_FloorRequestId v) = attr_frame 3 True 4 (to_be16 v)"
| "Attribute_write (A_Priority p) = attr_frame 4 True 4 [push_bit 5 (Priority_as_u8 p), 0]"
| "Attribute_write (A_RequestStatus s q) = attr_frame 5 True 4 [RequestStatus_as_u8 s, q]"
| "Attribute_write (A_ErrorCode c d) =
     attr_frame 6 True (Attribute_unpadded_len (A_ErrorCode c d)) (ErrorCode_as_u8 c # d)"
| "Attribute_write (A_ErrorInfo s) = attr_frame 7 True (Attribute_unpadded_len (A_ErrorInfo s)) s"
| "Attribute_write (A_ParticipantProvidedInfo s) =
     attr_frame 8 True (Attribute_unpadded_len (A_ParticipantProvidedInfo s)) s"
| "Attribute_write (A_StatusInfo s) = attr_frame 9 True (Attribute_unpadded_len (A_StatusInfo s)) s"
| "Attribute_write (A_SupportedAttributes v) =
     attr_frame 10 True (Attribute_unpadded_len (A_SupportedAttributes v)) v"
| "Attribute_write (A_SupportedPrimitives v) =
     attr_frame 11 True (Attribute_unpadded_len (A_SupportedPrimitives v)) v"
| "Attribute_write (A_UserDisplayName s) =
     attr_frame 12 True (Attribute_unpadded_len (A_UserDisplayName s)) s"
| "Attribute_write (A_UserUri s) = attr_frame 13 True (Attribute_unpadded_len (A_UserUri s)) s"
| "Attribute_write (A_BeneficiaryInformation i as) =
     attr_frame 14 True (Attribute_unpadded_len (A_BeneficiaryInformation i as))
       (to_be16 i @ concat (map Attribute_write as))"
| "Attribute_write (A_FloorRequestInformation i as) =
     attr_frame 15 True (Attribute_unpadded_len (A_FloorRequestInformation i as))
       (to_be16 i @ concat (map Attribute_write as))"
| "Attribute_write (A_RequestedByInformation i as) =
     attr_frame 16 True (Attribute_unpadded_len (A_RequestedByInformation i as))
       (to_be16 i @ concat (map Attribute_write as))"
| "Attribute_write (A_FloorRequestStatus i as) =
     attr_frame 17 True (Attribute_unpadded_len (A_FloorRequestStatus i as))
       (to_be16 i @ concat (map Attribute_write as))"
| "Attribute_write (A_OverallRequestStatus i as) =
     attr_frame 18 True (Attribute_unpadded_len (A_OverallRequestStatus i as))
       (to_be16 i @ concat (map Attribute_write as))"
| "Attribute_write (A_Unknown t v) = attr_frame t False (Attribute_unpadded_len (A_Unknown t v)) v"

section \<open>Messages\<close>

record Echo =
  echo_version :: u8
  echo_conference_id :: u32
  echo_transaction_id :: u16
  echo_user_id :: u16

record Header =
  hdr_version :: u8
  hdr_responder :: bool
  hdr_fragment :: "(u16 \<times> u16) option"
  hdr_primitive :: Primitive
  hdr_conference_id :: u32
  hdr_transaction_id :: u16
  hdr_user_id :: u16
  hdr_payload_len :: nat

datatype ParseErrorKind =
    PE_Truncated
  | PE_TrailingBytes nat
  | PE_UnknownPrimitive u8
  | PE_UnknownMandatoryAttribute "u8 list"
  | PE_BadAttributeLength u8
  | PE_BadAttributeValue u8
  | PE_Fragmented

record ParseError =
  err_kind :: ParseErrorKind
  err_echo :: "Echo option"

definition ParseError_new :: "ParseErrorKind \<Rightarrow> Echo option \<Rightarrow> ParseError" where
  "ParseError_new k e = \<lparr>err_kind = k, err_echo = e\<rparr>"

definition ParseError_error_code :: "ParseError \<Rightarrow> ErrorCode" where
  "ParseError_error_code e =
     (case err_kind e of
        PE_UnknownPrimitive _ \<Rightarrow> EC_UnknownPrimitive
      | PE_UnknownMandatoryAttribute _ \<Rightarrow> EC_UnknownMandatoryAttribute
      | PE_Truncated \<Rightarrow> EC_IncorrectMessageLength
      | PE_TrailingBytes _ \<Rightarrow> EC_IncorrectMessageLength
      | PE_BadAttributeLength _ \<Rightarrow> EC_UnableToParseMessage
      | PE_BadAttributeValue _ \<Rightarrow> EC_UnableToParseMessage
      | PE_Fragmented \<Rightarrow> EC_UnableToParseMessage)"

datatype EncodeError = EE_AttributeTooLong u8 | EE_PayloadTooLong

record Message =
  msg_version :: u8
  msg_responder :: bool
  msg_primitive :: Primitive
  msg_conference_id :: u32
  msg_transaction_id :: u16
  msg_user_id :: u16
  msg_attributes :: "Attribute list"

definition Header_parse :: "bytes \<Rightarrow> ParseError + Header" where
  "Header_parse d =
     (if length d < COMMON_HEADER_LEN then Inl (ParseError_new PE_Truncated None)
      else
        let version = drop_bit 5 (d ! 0);
            responder = (d ! 0 AND 0x10 \<noteq> 0);
            fragmented = (d ! 0 AND 0x08 \<noteq> 0);
            conference_id = be32 (d ! 4) (d ! 5) (d ! 6) (d ! 7);
            transaction_id = be16 (d ! 8) (d ! 9);
            user_id = be16 (d ! 10) (d ! 11);
            echo = \<lparr>echo_version = version, echo_conference_id = conference_id,
                    echo_transaction_id = transaction_id, echo_user_id = user_id\<rparr>
        in case Primitive_from_u8 (d ! 1) of
             None \<Rightarrow> Inl (ParseError_new (PE_UnknownPrimitive (d ! 1)) (Some echo))
           | Some p \<Rightarrow>
               let payload_len = unat (be16 (d ! 2) (d ! 3)) * 4
               in if fragmented \<and> length d < COMMON_HEADER_LEN + FRAGMENT_LEN
                  then Inl (ParseError_new PE_Truncated (Some echo))
                  else Inr \<lparr>hdr_version = version, hdr_responder = responder,
                         hdr_fragment =
                           (if fragmented
                            then Some (be16 (d ! 12) (d ! 13), be16 (d ! 14) (d ! 15))
                            else None),
                         hdr_primitive = p, hdr_conference_id = conference_id,
                         hdr_transaction_id = transaction_id, hdr_user_id = user_id,
                         hdr_payload_len = payload_len\<rparr>)"

definition Header_header_len :: "Header \<Rightarrow> nat" where
  "Header_header_len h = COMMON_HEADER_LEN + (if hdr_fragment h \<noteq> None then FRAGMENT_LEN else 0)"

definition Header_message_len :: "Header \<Rightarrow> nat" where
  "Header_message_len h = Header_header_len h + hdr_payload_len h"

definition Header_echo :: "Header \<Rightarrow> Echo" where
  "Header_echo h =
     \<lparr>echo_version = hdr_version h, echo_conference_id = hdr_conference_id h,
      echo_transaction_id = hdr_transaction_id h, echo_user_id = hdr_user_id h\<rparr>"

definition Message_new :: "u8 \<Rightarrow> Primitive \<Rightarrow> u32 \<Rightarrow> u16 \<Rightarrow> u16 \<Rightarrow> Message" where
  "Message_new version primitive conference_id transaction_id user_id =
     \<lparr>msg_version = version, msg_responder = False, msg_primitive = primitive,
      msg_conference_id = conference_id, msg_transaction_id = transaction_id,
      msg_user_id = user_id, msg_attributes = []\<rparr>"

definition Message_response :: "Echo \<Rightarrow> Primitive \<Rightarrow> Message" where
  "Message_response e primitive =
     \<lparr>msg_version = echo_version e, msg_responder = (echo_version e = VERSION_UNRELIABLE),
      msg_primitive = primitive, msg_conference_id = echo_conference_id e,
      msg_transaction_id = echo_transaction_id e, msg_user_id = echo_user_id e,
      msg_attributes = []\<rparr>"

definition Message_with :: "Message \<Rightarrow> Attribute \<Rightarrow> Message" where
  "Message_with m a = m\<lparr>msg_attributes := msg_attributes m @ [a]\<rparr>"

definition Message_error :: "Echo \<Rightarrow> ErrorCode \<Rightarrow> bytes option \<Rightarrow> Message" where
  "Message_error e code info =
     (let m = Message_with (Message_response e P_Error) (A_ErrorCode code [])
      in case info of None \<Rightarrow> m | Some i \<Rightarrow> Message_with m (A_ErrorInfo i))"

definition Message_echo :: "Message \<Rightarrow> Echo" where
  "Message_echo m =
     \<lparr>echo_version = msg_version m, echo_conference_id = msg_conference_id m,
      echo_transaction_id = msg_transaction_id m, echo_user_id = msg_user_id m\<rparr>"

definition MAX_VALUE_LEN :: nat where
  "MAX_VALUE_LEN = 255 - 2"

definition text_of :: "bytes \<Rightarrow> bytes" where
  "text_of v =
     (let s = from_utf8_lossy v
      in if length s > MAX_VALUE_LEN then take (char_floor s MAX_VALUE_LEN) s else s)"

definition MAX_DEPTH :: nat where
  "MAX_DEPTH = 4"

text \<open>
  The closures of \<^verbatim>\<open>parse_attributes\<close> and the arms of its \<^verbatim>\<open>match\<close>: the five grouped types, whose
  value is an id and more attributes, and the others. \<open>um\<close> is \<^verbatim>\<open>unknown_mandatory\<close>.
\<close>

definition bad_value :: "u8 \<Rightarrow> Echo \<Rightarrow> ParseError" where
  "bad_value t echo = ParseError_new (PE_BadAttributeValue t) (Some echo)"

definition u16_of :: "u8 \<Rightarrow> Echo \<Rightarrow> bytes \<Rightarrow> ParseError + u16" where
  "u16_of t echo v = (if length v < 2 then Inl (bad_value t echo) else Inr (be16 (v ! 0) (v ! 1)))"

definition is_group :: "u8 \<Rightarrow> bool" where
  "is_group t \<longleftrightarrow> t = 14 \<or> t = 15 \<or> t = 16 \<or> t = 17 \<or> t = 18"

definition group_attribute :: "u8 \<Rightarrow> u16 \<Rightarrow> Attribute list \<Rightarrow> Attribute" where
  "group_attribute t i as =
     (if t = 14 then A_BeneficiaryInformation i as
      else if t = 15 then A_FloorRequestInformation i as
      else if t = 16 then A_RequestedByInformation i as
      else if t = 17 then A_FloorRequestStatus i as
      else A_OverallRequestStatus i as)"

definition plain_attribute ::
  "u8 \<Rightarrow> bool \<Rightarrow> bytes \<Rightarrow> u8 list \<Rightarrow> Echo \<Rightarrow> ParseError + (Attribute \<times> u8 list)" where
  "plain_attribute t mandatory v um echo =
     (if t = 1 then map_sum id (\<lambda>i. (A_BeneficiaryId i, um)) (u16_of t echo v)
      else if t = 2 then map_sum id (\<lambda>i. (A_FloorId i, um)) (u16_of t echo v)
      else if t = 3 then map_sum id (\<lambda>i. (A_FloorRequestId i, um)) (u16_of t echo v)
      else if t = 4
      then if length v < 2 then Inl (bad_value t echo)
        else Inr (A_Priority (Priority_from_u8 (drop_bit 5 (v ! 0))), um)
      else if t = 5
      then if length v < 2 then Inl (bad_value t echo)
        else (case RequestStatus_from_u8 (v ! 0) of
                None \<Rightarrow> Inl (bad_value t echo)
              | Some s \<Rightarrow> Inr (A_RequestStatus s (v ! 1), um))
      else if t = 6
      then if v = [] then Inl (bad_value t echo)
        else Inr (A_ErrorCode (ErrorCode_from_u8 (v ! 0)) (drop 1 v), um)
      else if t = 7 then Inr (A_ErrorInfo (text_of v), um)
      else if t = 8 then Inr (A_ParticipantProvidedInfo (text_of v), um)
      else if t = 9 then Inr (A_StatusInfo (text_of v), um)
      else if t = 10 then Inr (A_SupportedAttributes v, um)
      else if t = 11 then Inr (A_SupportedPrimitives v, um)
      else if t = 12 then Inr (A_UserDisplayName (text_of v), um)
      else if t = 13 then Inr (A_UserUri (text_of v), um)
      else Inr (A_Unknown t v, if mandatory then um @ [t] else um))"

function parse_attributes ::
  "bytes \<Rightarrow> u8 list \<Rightarrow> Echo \<Rightarrow> nat \<Rightarrow> ParseError + (Attribute list \<times> u8 list)" where
  "parse_attributes d um echo depth =
     (if d = [] then Inr ([], um)
      else if length d < 2 then Inl (ParseError_new PE_Truncated (Some echo))
      else
        let t = drop_bit 1 (d ! 0);
            mandatory = (d ! 0 AND 1 \<noteq> 0);
            len = unat (d ! 1)
        in if len < 2 \<or> len > length d
           then Inl (ParseError_new (PE_BadAttributeLength t) (Some echo))
           else
             let v = take (len - 2) (drop 2 d);
                 attribute =
                   (if is_group t
                    then if depth \<ge> MAX_DEPTH then Inl (bad_value t echo)
                      else (case u16_of t echo v of
                              Inl e \<Rightarrow> Inl e
                            | Inr i \<Rightarrow>
                                (case parse_attributes (drop 2 v) um echo (depth + 1) of
                                   Inl e \<Rightarrow> Inl e
                                 | Inr (inner, um') \<Rightarrow> Inr (group_attribute t i inner, um')))
                    else plain_attribute t mandatory v um echo)
             in (case attribute of
                   Inl e \<Rightarrow> Inl e
                 | Inr (a, um') \<Rightarrow>
                     if \<not> Attribute_fits a
                     then Inl (ParseError_new (PE_BadAttributeLength t) (Some echo))
                     else (case parse_attributes (drop (min (round_up4 len) (length d)) d) um' echo depth of
                             Inl e \<Rightarrow> Inl e
                           | Inr (as, um'') \<Rightarrow> Inr (a # as, um''))))"
  by pat_completeness auto
termination
proof (relation "measure (\<lambda>(d, um, echo, depth). length d)", goal_cases)
  case 1
  show ?case by simp
next
  case 2
  then show ?case by (simp add: neq_Nil_conv) auto
next
  case (3 d um echo depth t mandatory len)
  have "0 < round_up4 len"
    using 3(6) round_up4_ge [of len] by linarith
  then show ?case using 3(2) by simp
qed

declare parse_attributes.simps [simp del]

definition Message_parse_prefix :: "bytes \<Rightarrow> ParseError + (Message \<times> nat)" where
  "Message_parse_prefix d =
     (case Header_parse d of
        Inl e \<Rightarrow> Inl e
      | Inr h \<Rightarrow>
          let echo = Header_echo h
          in if hdr_fragment h \<noteq> None then Inl (ParseError_new PE_Fragmented (Some echo))
             else
               let start = Header_header_len h;
                   stop = start + hdr_payload_len h
               in if length d < stop then Inl (ParseError_new PE_Truncated (Some echo))
                  else (case parse_attributes (take (stop - start) (drop start d)) [] echo 0 of
                          Inl e \<Rightarrow> Inl e
                        | Inr (as, um) \<Rightarrow>
                            if um \<noteq> []
                            then Inl (ParseError_new (PE_UnknownMandatoryAttribute um) (Some echo))
                            else Inr (\<lparr>msg_version = hdr_version h, msg_responder = hdr_responder h,
                                   msg_primitive = hdr_primitive h,
                                   msg_conference_id = hdr_conference_id h,
                                   msg_transaction_id = hdr_transaction_id h,
                                   msg_user_id = hdr_user_id h, msg_attributes = as\<rparr>, stop)))"

definition Message_parse :: "bytes \<Rightarrow> ParseError + Message" where
  "Message_parse d =
     (case Message_parse_prefix d of
        Inl e \<Rightarrow> Inl e
      | Inr (m, used) \<Rightarrow>
          if used \<noteq> length d
          then Inl (ParseError_new (PE_TrailingBytes (length d - used)) (Some (Message_echo m)))
          else Inr m)"

text \<open>The loop of \<^verbatim>\<open>to_bytes\<close> that writes the attributes one after the other.\<close>

fun write_attributes :: "Attribute list \<Rightarrow> EncodeError + bytes" where
  "write_attributes [] = Inr []"
| "write_attributes (a # as) =
     (if \<not> Attribute_fits a then Inl (EE_AttributeTooLong (Attribute_attr_type a))
      else (case write_attributes as of
              Inl e \<Rightarrow> Inl e
            | Inr body \<Rightarrow> Inr (Attribute_write a @ body)))"

definition Message_to_bytes :: "Message \<Rightarrow> EncodeError + bytes" where
  "Message_to_bytes m =
     (case write_attributes (msg_attributes m) of
        Inl e \<Rightarrow> Inl e
      | Inr body \<Rightarrow>
          if length body > MAX_PAYLOAD_LEN then Inl EE_PayloadTooLong
          else Inr ((push_bit 5 (msg_version m AND 7) OR (if msg_responder m then 0x10 else 0))
                    # Primitive_as_u8 (msg_primitive m)
                    # to_be16 (of_nat (length body div 4)) @ to_be32 (msg_conference_id m)
                    @ to_be16 (msg_transaction_id m) @ to_be16 (msg_user_id m) @ body))"

subsection \<open>What a floor server reads\<close>

definition Message_floor_ids :: "Message \<Rightarrow> u16 list" where
  "Message_floor_ids m =
     List.map_filter (\<lambda>a. case a of A_FloorId i \<Rightarrow> Some i | _ \<Rightarrow> None) (msg_attributes m)"

definition Message_floor_request_id :: "Message \<Rightarrow> u16 option" where
  "Message_floor_request_id m =
     find_map (\<lambda>a. case a of A_FloorRequestId i \<Rightarrow> Some i | _ \<Rightarrow> None) (msg_attributes m)"

definition Message_beneficiary_id :: "Message \<Rightarrow> u16 option" where
  "Message_beneficiary_id m =
     find_map (\<lambda>a. case a of A_BeneficiaryId i \<Rightarrow> Some i | _ \<Rightarrow> None) (msg_attributes m)"

definition Message_priority :: "Message \<Rightarrow> Priority" where
  "Message_priority m =
     (case find_map (\<lambda>a. case a of A_Priority p \<Rightarrow> Some p | _ \<Rightarrow> None) (msg_attributes m) of
        None \<Rightarrow> Priority_default
      | Some p \<Rightarrow> p)"

definition Message_participant_provided_info :: "Message \<Rightarrow> bytes option" where
  "Message_participant_provided_info m =
     find_map (\<lambda>a. case a of A_ParticipantProvidedInfo s \<Rightarrow> Some s | _ \<Rightarrow> None) (msg_attributes m)"

definition Message_error_code :: "Message \<Rightarrow> ErrorCode option" where
  "Message_error_code m =
     find_map (\<lambda>a. case a of A_ErrorCode c _ \<Rightarrow> Some c | _ \<Rightarrow> None) (msg_attributes m)"

definition Message_floor_request_information :: "Message \<Rightarrow> (u16 \<times> Attribute list) list" where
  "Message_floor_request_information m =
     List.map_filter (\<lambda>a. case a of A_FloorRequestInformation i as \<Rightarrow> Some (i, as) | _ \<Rightarrow> None)
       (msg_attributes m)"

definition overall_status :: "Attribute list \<Rightarrow> RequestStatus option" where
  "overall_status info =
     find_map (\<lambda>a. case a of
          A_OverallRequestStatus _ as \<Rightarrow>
            find_map (\<lambda>b. case b of A_RequestStatus s _ \<Rightarrow> Some s | _ \<Rightarrow> None) as
        | _ \<Rightarrow> None) info"

section \<open>Well-formed attributes\<close>

text \<open>
  The attributes the wire can carry and give back: text is valid UTF-8, an error code has one
  representation, an unknown attribute has a 7-bit type outside the known ones, groups nest at
  most \<open>k\<close> deep.
\<close>

fun attr_wf :: "nat \<Rightarrow> Attribute \<Rightarrow> bool" where
  "attr_wf k (A_ErrorCode c d) \<longleftrightarrow> ErrorCode_from_u8 (ErrorCode_as_u8 c) = c"
| "attr_wf k (A_ErrorInfo s) \<longleftrightarrow> valid_utf8 s"
| "attr_wf k (A_ParticipantProvidedInfo s) \<longleftrightarrow> valid_utf8 s"
| "attr_wf k (A_StatusInfo s) \<longleftrightarrow> valid_utf8 s"
| "attr_wf k (A_UserDisplayName s) \<longleftrightarrow> valid_utf8 s"
| "attr_wf k (A_UserUri s) \<longleftrightarrow> valid_utf8 s"
| "attr_wf k (A_BeneficiaryInformation i as) \<longleftrightarrow> 0 < k \<and> list_all (attr_wf (k - 1)) as"
| "attr_wf k (A_FloorRequestInformation i as) \<longleftrightarrow> 0 < k \<and> list_all (attr_wf (k - 1)) as"
| "attr_wf k (A_RequestedByInformation i as) \<longleftrightarrow> 0 < k \<and> list_all (attr_wf (k - 1)) as"
| "attr_wf k (A_FloorRequestStatus i as) \<longleftrightarrow> 0 < k \<and> list_all (attr_wf (k - 1)) as"
| "attr_wf k (A_OverallRequestStatus i as) \<longleftrightarrow> 0 < k \<and> list_all (attr_wf (k - 1)) as"
| "attr_wf k (A_Unknown t v) \<longleftrightarrow> t < 128 \<and> t \<notin> set attr_type_ALL"
| "attr_wf k _ \<longleftrightarrow> True"

fun plain :: "Attribute \<Rightarrow> bool" where
  "plain (A_BeneficiaryInformation _ _) = False"
| "plain (A_FloorRequestInformation _ _) = False"
| "plain (A_RequestedByInformation _ _) = False"
| "plain (A_FloorRequestStatus _ _) = False"
| "plain (A_OverallRequestStatus _ _) = False"
| "plain _ = True"

lemma is_groupE:
  assumes "is_group t"
  obtains "t = 14" | "t = 15" | "t = 16" | "t = 17" | "t = 18"
  using assms unfolding is_group_def by blast

lemma Suc_four: "Suc (Suc (Suc (Suc n))) = 4 + n"
  by simp

lemma padded_len_eta: "(\<lambda>a. round_up4 (Attribute_unpadded_len a)) = Attribute_padded_len"
  by (simp add: fun_eq_iff Attribute_padded_len_def)

lemma group_attribute_laws:
  assumes "is_group t"
  shows "Attribute_attr_type (group_attribute t i as) = t"
    and "Attribute_unpadded_len (group_attribute t i as) = 4 + sum_list (map Attribute_padded_len as)"
    and "Attribute_fits (group_attribute t i as) \<longleftrightarrow>
           4 + sum_list (map Attribute_padded_len as) \<le> 255 \<and> list_all Attribute_fits as"
    and "Attribute_write (group_attribute t i as) =
           attr_frame t True (4 + sum_list (map Attribute_padded_len as))
             (to_be16 i @ concat (map Attribute_write as))"
    and "attr_wf k (group_attribute t i as) \<longleftrightarrow> 0 < k \<and> list_all (attr_wf (k - 1)) as"
  using assms by (auto elim!: is_groupE simp: group_attribute_def padded_len_eta Suc_four)

lemma attribute_induct [case_names plain group]:
  assumes plain: "\<And>a. plain a \<Longrightarrow> P a"
    and group: "\<And>t i as. is_group t \<Longrightarrow> (\<And>a. a \<in> set as \<Longrightarrow> P a) \<Longrightarrow> P (group_attribute t i as)"
  shows "P a"
proof (induction a)
  case (A_BeneficiaryInformation i as)
  then show ?case using group [of 14 as i] by (simp add: group_attribute_def is_group_def)
next
  case (A_FloorRequestInformation i as)
  then show ?case using group [of 15 as i] by (simp add: group_attribute_def is_group_def)
next
  case (A_RequestedByInformation i as)
  then show ?case using group [of 16 as i] by (simp add: group_attribute_def is_group_def)
next
  case (A_FloorRequestStatus i as)
  then show ?case using group [of 17 as i] by (simp add: group_attribute_def is_group_def)
next
  case (A_OverallRequestStatus i as)
  then show ?case using group [of 18 as i] by (simp add: group_attribute_def is_group_def)
qed (simp_all add: plain)

lemma length_attr_frame [simp]: "length (attr_frame t m l v) = round_up4 (2 + length v)"
  using round_up4_ge [of "2 + length v"] by (simp add: attr_frame_def del: round_up4_ge)

lemma length_concat_map:
  "(\<And>x. x \<in> set xs \<Longrightarrow> length (f x) = g x) \<Longrightarrow> length (concat (map f xs)) = sum_list (map g xs)"
  by (induction xs) auto

lemma length_Attribute_write: "length (Attribute_write a) = Attribute_padded_len a"
proof (induction a rule: attribute_induct)
  case (plain a)
  then show ?case by (cases a) (simp_all add: Attribute_padded_len_def)
next
  case (group t i as)
  then have "length (concat (map Attribute_write as)) = sum_list (map Attribute_padded_len as)"
    by (intro length_concat_map) auto
  with group(1) show ?case
    by (simp add: group_attribute_laws Attribute_padded_len_def [of "group_attribute t i as"]
        Suc_four)
qed

section \<open>Wire values\<close>

lemma Primitive_from_as [simp]: "Primitive_from_u8 (Primitive_as_u8 p) = Some p"
  by (cases p) (simp_all add: Primitive_from_u8_def Primitive_ALL_def)

lemma Primitive_from_u8_Some: "Primitive_from_u8 v = Some p \<Longrightarrow> Primitive_as_u8 p = v"
  by (auto simp: Primitive_from_u8_def find_Some_iff)

lemma RequestStatus_from_as [simp]: "RequestStatus_from_u8 (RequestStatus_as_u8 s) = Some s"
  by (cases s) (simp_all add: RequestStatus_from_u8_def)

lemma Priority_from_as [simp]: "Priority_from_u8 (Priority_as_u8 p) = p"
  by (cases p) (simp_all add: Priority_from_u8_def)

lemma Priority_shift [simp]: "drop_bit 5 (push_bit 5 (Priority_as_u8 p)) = Priority_as_u8 p"
  by (cases p) (simp_all add: push_bit_eq_mult drop_bit_eq_div)

lemma ErrorCode_as_from [simp]: "ErrorCode_as_u8 (ErrorCode_from_u8 v) = v"
  by (simp add: ErrorCode_from_u8_def)

lemma text_of_valid: "valid_utf8 (text_of v)" "length (text_of v) \<le> MAX_VALUE_LEN"
  using char_floor_le [of "from_utf8_lossy v" MAX_VALUE_LEN]
  by (auto simp: text_of_def Let_def from_utf8_lossy_valid valid_utf8_take char_floor_boundary)

lemma text_of_id: "valid_utf8 s \<Longrightarrow> length s \<le> MAX_VALUE_LEN \<Longrightarrow> text_of s = s"
  by (simp add: text_of_def from_utf8_lossy_id)

section \<open>Attributes on the wire\<close>

lemma type_octet:
  assumes "t < (128 :: u8)"
  shows "drop_bit 1 (push_bit 1 t OR (if m then 1 else 0)) = t"
    and "(push_bit 1 t OR (if m then 1 else 0)) AND 1 \<noteq> 0 \<longleftrightarrow> m"
proof -
  show "drop_bit 1 (push_bit 1 t OR (if m then 1 else 0)) = t"
    by (rule bit_word_eqI) (auto simp: bit_simps simp del: push_bit_Suc push_bit_of_1 push_bit_numeral dest: u8_less_128 [OF assms])
  show "(push_bit 1 t OR (if m then 1 else 0)) AND 1 \<noteq> 0 \<longleftrightarrow> m"
    by (simp add: and_one_eq mod2_eq_if even_or_iff)
qed

lemma drop_attr_frame:
  "2 + length v \<le> 255 \<Longrightarrow>
   drop (min (round_up4 (2 + length v)) (length (attr_frame t m l v @ rest))) (attr_frame t m l v @ rest) = rest"
  by simp

lemma take_attr_frame: "take (length v) (drop 2 (attr_frame t m l v @ rest)) = v"
  by (simp add: attr_frame_def numeral_eq_Suc)

text \<open>What the parser makes of a framed value.\<close>

definition parse_value ::
  "u8 \<Rightarrow> bool \<Rightarrow> bytes \<Rightarrow> u8 list \<Rightarrow> Echo \<Rightarrow> nat \<Rightarrow> ParseError + (Attribute \<times> u8 list)" where
  "parse_value t mandatory v um echo depth =
     (if is_group t
      then if depth \<ge> MAX_DEPTH then Inl (bad_value t echo)
        else (case u16_of t echo v of
                Inl e \<Rightarrow> Inl e
              | Inr i \<Rightarrow>
                  (case parse_attributes (drop 2 v) um echo (depth + 1) of
                     Inl e \<Rightarrow> Inl e
                   | Inr (inner, um') \<Rightarrow> Inr (group_attribute t i inner, um')))
      else plain_attribute t mandatory v um echo)"

lemma parse_attributes_Nil [simp]: "parse_attributes [] um echo depth = Inr ([], um)"
  by (simp add: parse_attributes.simps)

lemma parse_attributes_unfold:
  assumes "2 \<le> length d" "unat (d ! 1) = len" "2 \<le> len" "len \<le> length d"
  shows "parse_attributes d um echo depth =
    (case parse_value (drop_bit 1 (d ! 0)) (d ! 0 AND 1 \<noteq> 0) (take (len - 2) (drop 2 d)) um echo depth of
       Inl e \<Rightarrow> Inl e
     | Inr (a, um') \<Rightarrow>
         if \<not> Attribute_fits a
         then Inl (ParseError_new (PE_BadAttributeLength (drop_bit 1 (d ! 0))) (Some echo))
         else (case parse_attributes (drop (round_up4 len) d) um' echo depth of
                 Inl e \<Rightarrow> Inl e
               | Inr (as, um'') \<Rightarrow> Inr (a # as, um'')))"
proof -
  have "d \<noteq> []" "\<not> length d < 2" "\<not> (len < 2 \<or> len > length d)"
    using assms by auto
  moreover have "drop (min n (length d)) d = drop n d" for n
    by (simp add: min_def)
  ultimately show ?thesis
    unfolding parse_value_def assms(2) [symmetric]
    by (subst parse_attributes.simps) (simp only: Let_def if_False if_not_P)
qed

lemma parse_attributes_frame:
  assumes "t < 128" "2 + length v \<le> 255"
    and "parse_value t m v um echo depth = Inr (a, um')" "Attribute_fits a"
  shows "parse_attributes (attr_frame t m (2 + length v) v @ rest) um echo depth =
    (case parse_attributes rest um' echo depth of
       Inl e \<Rightarrow> Inl e
     | Inr (as, um'') \<Rightarrow> Inr (a # as, um''))"
proof -
  let ?d = "attr_frame t m (2 + length v) v @ rest"
  have d0: "?d ! 0 = push_bit 1 t OR (if m then 1 else 0)" and d1: "?d ! 1 = of_nat (2 + length v)"
    using assms(2) by (simp_all add: attr_frame_def min_absorb1)
  have len: "unat (?d ! 1) = 2 + length v"
    unfolding d1 using assms(2) by (subst unat_of_nat) simp
  have "round_up4 (2 + length v) \<le> length ?d"
    by simp
  then have "2 + length v \<le> length ?d"
    using le_trans [OF round_up4_ge] by blast
  moreover from this have "2 \<le> length ?d"
    by linarith
  moreover have "take (2 + length v - 2) (drop 2 ?d) = v"
    using take_attr_frame by simp
  moreover have "drop (round_up4 (2 + length v)) ?d = rest"
    by simp
  ultimately show ?thesis
    using parse_attributes_unfold [of ?d "2 + length v" um echo depth] len assms(3,4)
    by (simp only: d0 type_octet [OF assms(1)]) simp
qed

text \<open>A well-formed attribute is a framed value that reads back as the attribute.\<close>

fun plain_value :: "Attribute \<Rightarrow> bytes" where
  "plain_value (A_BeneficiaryId i) = to_be16 i"
| "plain_value (A_FloorId i) = to_be16 i"
| "plain_value (A_FloorRequestId i) = to_be16 i"
| "plain_value (A_Priority p) = [push_bit 5 (Priority_as_u8 p), 0]"
| "plain_value (A_RequestStatus s q) = [RequestStatus_as_u8 s, q]"
| "plain_value (A_ErrorCode c d) = ErrorCode_as_u8 c # d"
| "plain_value (A_ErrorInfo s) = s"
| "plain_value (A_ParticipantProvidedInfo s) = s"
| "plain_value (A_StatusInfo s) = s"
| "plain_value (A_SupportedAttributes v) = v"
| "plain_value (A_SupportedPrimitives v) = v"
| "plain_value (A_UserDisplayName s) = s"
| "plain_value (A_UserUri s) = s"
| "plain_value (A_Unknown t v) = v"
| "plain_value _ = []"

fun is_known :: "Attribute \<Rightarrow> bool" where
  "is_known (A_Unknown _ _) = False"
| "is_known _ = True"

lemma plain_write:
  "plain a \<Longrightarrow> Attribute_write a =
     attr_frame (Attribute_attr_type a) (is_known a) (2 + length (plain_value a)) (plain_value a)"
  by (cases a) simp_all

lemma plain_fits: "plain a \<Longrightarrow> Attribute_fits a \<longleftrightarrow> 2 + length (plain_value a) \<le> 255"
  by (cases a) simp_all

lemma plain_attr_type: "plain a \<Longrightarrow> attr_wf k a \<Longrightarrow> Attribute_attr_type a < 128"
  by (cases a) simp_all

lemma parse_plain_value:
  assumes "plain a" "attr_wf k a" "Attribute_fits a"
  shows "parse_value (Attribute_attr_type a) (is_known a) (plain_value a) um echo depth = Inr (a, um)"
  using assms
  by (cases a)
    (simp_all add: parse_value_def plain_attribute_def is_group_def u16_of_def to_be16_def
      attr_type_ALL_def text_of_id MAX_VALUE_LEN_def)

lemma group_frame:
  assumes "is_group t" "Attribute_fits (group_attribute t i as)"
  obtains v where "Attribute_write (group_attribute t i as) = attr_frame t True (2 + length v) v"
    "2 + length v \<le> 255" "v = to_be16 i @ concat (map Attribute_write as)"
proof
  let ?v = "to_be16 i @ concat (map Attribute_write as)"
  have "length (concat (map Attribute_write as)) = sum_list (map Attribute_padded_len as)"
    by (intro length_concat_map length_Attribute_write)
  then have len: "2 + length ?v = 4 + sum_list (map Attribute_padded_len as)"
    by simp
  show "Attribute_write (group_attribute t i as) = attr_frame t True (2 + length ?v) ?v"
    unfolding len by (rule group_attribute_laws(4) [OF assms(1)])
  show "2 + length ?v \<le> 255"
    unfolding len using assms by (simp add: group_attribute_laws)
qed simp

theorem parse_attribute_write:
  "attr_wf (MAX_DEPTH - depth) a \<Longrightarrow> Attribute_fits a \<Longrightarrow>
   parse_attributes (Attribute_write a @ rest) um echo depth =
     (case parse_attributes rest um echo depth of
        Inl e \<Rightarrow> Inl e
      | Inr (as, um') \<Rightarrow> Inr (a # as, um'))"
proof (induction a arbitrary: depth rest rule: attribute_induct)
  case (plain a)
  then show ?case
    unfolding plain_write [OF plain.hyps]
    by (intro parse_attributes_frame parse_plain_value)
      (simp_all add: plain_attr_type plain_fits del: add_2_eq_Suc)
next
  case (group t i as)
  have t: "t < 128"
    using group.hyps by (auto elim!: is_groupE)
  have deep: "depth < MAX_DEPTH" "\<forall>a \<in> set as. attr_wf (MAX_DEPTH - (depth + 1)) a"
    and fits: "\<forall>a \<in> set as. Attribute_fits a"
    using group.prems group.hyps by (simp_all add: group_attribute_laws list_all_iff)
  have inner: "parse_attributes (concat (map Attribute_write bs)) um echo (depth + 1) = Inr (bs, um)"
    if "set bs \<subseteq> set as" for bs
    using that
  proof (induction bs)
    case (Cons b bs)
    then show ?case
      using group.IH [of b "depth + 1" "concat (map Attribute_write bs)"] deep fits by simp
  qed simp
  obtain v where v: "Attribute_write (group_attribute t i as) = attr_frame t True (2 + length v) v"
    "2 + length v \<le> 255" "v = to_be16 i @ concat (map Attribute_write as)"
    using group.hyps group.prems(2) by (rule group_frame)
  have "parse_value t True v um echo depth = Inr (group_attribute t i as, um)"
    using inner [of as] group.hyps deep(1)
    by (simp add: parse_value_def v(3) u16_of_def) (simp add: to_be16_def)
  then show ?case
    using parse_attributes_frame [OF t v(2)] group.prems(2) by (simp add: v(1))
qed

lemma parse_attributes_write:
  "list_all (attr_wf (MAX_DEPTH - depth)) as \<Longrightarrow> list_all Attribute_fits as \<Longrightarrow>
   parse_attributes (concat (map Attribute_write as)) um echo depth = Inr (as, um)"
  by (induction as) (simp_all add: parse_attribute_write)

text \<open>What is read is well-formed and can be written.\<close>

lemma plain_attribute_wf:
  "plain_attribute t m v um echo = Inr (a, um') \<Longrightarrow> t < 128 \<Longrightarrow> \<not> is_group t \<Longrightarrow> attr_wf k a"
  by (auto simp: plain_attribute_def is_group_def u16_of_def text_of_valid attr_type_ALL_def
      split: if_splits option.splits sum.splits)

lemma parse_attributes_InrE:
  assumes "parse_attributes d um echo depth = Inr (as, um'')" "d \<noteq> []"
  obtains len a as' um' where "2 \<le> length d" "unat (d ! 1) = len" "2 \<le> len" "len \<le> length d"
    "parse_value (drop_bit 1 (d ! 0)) (d ! 0 AND 1 \<noteq> 0) (take (len - 2) (drop 2 d)) um echo depth
       = Inr (a, um')"
    "Attribute_fits a" "parse_attributes (drop (round_up4 len) d) um' echo depth = Inr (as', um'')"
    "as = a # as'"
proof -
  define len where "len = unat (d ! 1)"
  have *: "2 \<le> length d" "2 \<le> len" "len \<le> length d"
    using assms by (auto simp: parse_attributes.simps [of d] Let_def len_def split: if_splits)
  show ?thesis
    using assms(1) parse_attributes_unfold [OF *(1) len_def [symmetric] *(2,3), of um echo depth]
      that [OF *(1) len_def [symmetric] *(2,3)]
    by (auto split: sum.splits prod.splits if_splits)
qed

lemma parse_value_groupE:
  assumes "parse_value t m v um echo depth = Inr (a, um')" "is_group t"
  obtains i inner where "depth < MAX_DEPTH" "2 \<le> length v" "i = be16 (v ! 0) (v ! 1)"
    "parse_attributes (drop 2 v) um echo (depth + 1) = Inr (inner, um')"
    "a = group_attribute t i inner"
  using assms by (auto simp: parse_value_def u16_of_def split: sum.splits if_splits)

lemma type_of_octet: "drop_bit 1 (b :: u8) < 128"
  using unat_u8_less [of b] by (simp add: word_less_nat_alt drop_bit_eq_div unat_div del: unat_u8_less)

theorem parse_attributes_wf:
  "parse_attributes d um echo depth = Inr (as, um') \<Longrightarrow>
   list_all (attr_wf (MAX_DEPTH - depth)) as \<and> list_all Attribute_fits as"
proof (induction d arbitrary: um depth as um' rule: length_induct)
  case (1 d)
  show ?case
  proof (cases "d = []")
    case False
    with "1.prems" obtain len a as' um1 where d: "2 \<le> length d" "2 \<le> len"
      and pv: "parse_value (drop_bit 1 (d ! 0)) (d ! 0 AND 1 \<noteq> 0) (take (len - 2) (drop 2 d)) um echo depth
        = Inr (a, um1)"
      and fits: "Attribute_fits a"
      and rest: "parse_attributes (drop (round_up4 len) d) um1 echo depth = Inr (as', um')"
      and as: "as = a # as'"
      by (rule parse_attributes_InrE)
    have "0 < round_up4 len"
      using d(2) round_up4_ge [of len] by linarith
    then have tail: "list_all (attr_wf (MAX_DEPTH - depth)) as' \<and> list_all Attribute_fits as'"
      using "1.IH" [rule_format, OF _ rest] d(1) by simp
    have "attr_wf (MAX_DEPTH - depth) a"
    proof (cases "is_group (drop_bit 1 (d ! 0))")
      case True
      from pv True obtain i inner where g: "depth < MAX_DEPTH"
        "parse_attributes (drop 2 (take (len - 2) (drop 2 d))) um echo (depth + 1) = Inr (inner, um1)"
        "a = group_attribute (drop_bit 1 (d ! 0)) i inner"
        by (rule parse_value_groupE)
      have "length (drop 2 (take (len - 2) (drop 2 d))) < length d"
        using d(1) by simp
      then have "list_all (attr_wf (MAX_DEPTH - (depth + 1))) inner"
        using "1.IH" [rule_format, OF _ g(2)] by blast
      then show ?thesis
        using True g by (simp add: group_attribute_laws)
    next
      case False
      then show ?thesis
        using pv type_of_octet plain_attribute_wf by (simp add: parse_value_def del: One_nat_def)
    qed
    then show ?thesis
      using fits tail by (simp add: as)
  qed (use "1.prems" in simp)
qed

section \<open>Well-formed messages\<close>

text \<open>The messages a header can carry.\<close>

definition payload_of :: "Message \<Rightarrow> bytes" where
  "payload_of m = concat (map Attribute_write (msg_attributes m))"

definition message_wf :: "Message \<Rightarrow> bool" where
  "message_wf m \<longleftrightarrow> msg_version m < 8 \<and>
     list_all (attr_wf MAX_DEPTH) (msg_attributes m) \<and> list_all Attribute_fits (msg_attributes m)"

lemma write_attributes_fits:
  "list_all Attribute_fits as \<Longrightarrow> write_attributes as = Inr (concat (map Attribute_write as))"
  by (induction as) auto

lemma write_attributes_unfit:
  "\<not> list_all Attribute_fits as \<Longrightarrow>
   \<exists>a \<in> set as. \<not> Attribute_fits a \<and> write_attributes as = Inl (EE_AttributeTooLong (Attribute_attr_type a))"
  by (induction as) (auto, blast)

lemma payload_dvd: "4 dvd length (payload_of m)"
proof -
  have "4 dvd length (concat (map Attribute_write as))" for as
    by (induction as) (simp_all add: length_Attribute_write Attribute_padded_len_def)
  then show ?thesis
    by (simp add: payload_of_def)
qed

lemma version_octet:
  assumes "v < (8 :: u8)"
  shows "drop_bit 5 (push_bit 5 (v AND 7) OR (if r then 0x10 else 0)) = v"
    and "(push_bit 5 (v AND 7) OR (if r then 0x10 else 0)) AND 0x10 \<noteq> 0 \<longleftrightarrow> r"
    and "(push_bit 5 (v AND 7) OR (if r then 0x10 else 0)) AND 0x08 = 0"
proof -
  have "unat v \<in> {0..<8}"
    using assms by (simp add: word_less_nat_alt)
  then have "v \<in> of_nat ` {0..<8}"
    by (intro image_eqI [of _ _ "unat v"]) simp_all
  then have v: "v = 0 \<or> v = 1 \<or> v = 2 \<or> v = 3 \<or> v = 4 \<or> v = 5 \<or> v = 6 \<or> v = 7"
    by (auto simp: numeral_eq_Suc atLeast0_lessThan_Suc)
  then show "drop_bit 5 (push_bit 5 (v AND 7) OR (if r then 0x10 else 0)) = v"
    and "(push_bit 5 (v AND 7) OR (if r then 0x10 else 0)) AND 0x10 \<noteq> 0 \<longleftrightarrow> r"
    and "(push_bit 5 (v AND 7) OR (if r then 0x10 else 0)) AND 0x08 = 0"
    by (elim disjE; simp add: push_bit_eq_mult drop_bit_eq_div)+
qed

lemma Message_to_bytes_fits:
  assumes "list_all Attribute_fits (msg_attributes m)"
  shows "Message_to_bytes m =
    (if length (payload_of m) > MAX_PAYLOAD_LEN then Inl EE_PayloadTooLong
     else Inr ((push_bit 5 (msg_version m AND 7) OR (if msg_responder m then 0x10 else 0))
               # Primitive_as_u8 (msg_primitive m)
               # to_be16 (of_nat (length (payload_of m) div 4)) @ to_be32 (msg_conference_id m)
               @ to_be16 (msg_transaction_id m) @ to_be16 (msg_user_id m) @ payload_of m))"
  by (simp add: Message_to_bytes_def payload_of_def write_attributes_fits [OF assms])

lemma Header_parse_to_bytes:
  assumes "msg_version m < 8" "Message_to_bytes m = Inr d" "list_all Attribute_fits (msg_attributes m)"
  shows "Header_parse (d @ rest) = Inr \<lparr>hdr_version = msg_version m, hdr_responder = msg_responder m,
      hdr_fragment = None, hdr_primitive = msg_primitive m, hdr_conference_id = msg_conference_id m,
      hdr_transaction_id = msg_transaction_id m, hdr_user_id = msg_user_id m,
      hdr_payload_len = length (payload_of m)\<rparr>"
proof -
  have len: "length (payload_of m) \<le> 65535 * 4"
    using assms(2,3) by (simp add: Message_to_bytes_fits MAX_PAYLOAD_LEN_def split: if_splits)
  then have "length (payload_of m) div 4 < 65536"
    by simp
  then have *: "unat (of_nat (length (payload_of m) div 4) :: u16) * 4 = length (payload_of m)"
    using payload_dvd [of m] by (subst unat_of_nat) simp
  define octet where
    "octet = (push_bit 5 (msg_version m AND 7) OR (if msg_responder m then 0x10 else 0))"
  note octet = version_octet [OF assms(1), of "msg_responder m", folded octet_def]
  have d: "d = octet # Primitive_as_u8 (msg_primitive m)
               # to_be16 (of_nat (length (payload_of m) div 4)) @ to_be32 (msg_conference_id m)
               @ to_be16 (msg_transaction_id m) @ to_be16 (msg_user_id m) @ payload_of m"
    using assms(2,3) by (simp add: Message_to_bytes_fits octet_def split: if_splits)
  show ?thesis
    unfolding Header_parse_def d
    by (simp add: COMMON_HEADER_LEN_def FRAGMENT_LEN_def Let_def to_be16_def to_be32_def
        octet *)
qed
lemma Message_parse_prefix_to_bytes:
  assumes "message_wf m" "Message_to_bytes m = Inr d"
  shows "Message_parse_prefix (d @ rest) = Inr (m, length d)"
proof -
  have fits: "list_all Attribute_fits (msg_attributes m)" and v: "msg_version m < 8"
    and wf: "list_all (attr_wf (MAX_DEPTH - 0)) (msg_attributes m)"
    using assms(1) by (simp_all add: message_wf_def)
  have d: "length d = 12 + length (payload_of m)" "drop 12 d = payload_of m"
    using assms(2) by (auto simp: Message_to_bytes_fits [OF fits] to_be16_def to_be32_def split: if_splits)
  then have "take (length (payload_of m)) (drop 12 (d @ rest)) = payload_of m"
    by simp
  then show ?thesis
    using parse_attributes_write [OF wf fits]
    by (simp add: Message_parse_prefix_def Header_parse_to_bytes [OF v assms(2) fits]
        Header_header_len_def COMMON_HEADER_LEN_def d(1) Let_def payload_of_def)
qed

text \<open>
  C14. A well-formed message whose attributes fit one payload is written, in twelve octets and its
  attributes, and what is written reads back as the message, whatever bytes follow it.
\<close>

theorem bfcp_message_roundtrip:
  assumes "message_wf m" "length (payload_of m) \<le> MAX_PAYLOAD_LEN"
  shows "\<exists>d. Message_to_bytes m = Inr d \<and> length d = 12 + length (payload_of m) \<and>
    Message_parse d = Inr m \<and> (\<forall>rest. Message_parse_prefix (d @ rest) = Inr (m, length d))"
proof -
  obtain d where d: "Message_to_bytes m = Inr d" "length d = 12 + length (payload_of m)"
    using assms by (simp add: Message_to_bytes_fits message_wf_def)
  moreover note parse = Message_parse_prefix_to_bytes [OF assms(1) d(1)]
  moreover have "Message_parse d = Inr m"
    using parse [of "[]"] by (simp add: Message_parse_def)
  ultimately show ?thesis
    by blast
qed

theorem bfcp_message_roundtrip_witness:
  "\<exists>d. Message_to_bytes
       \<lparr>msg_version = 2, msg_responder = True, msg_primitive = P_FloorRequestStatus,
        msg_conference_id = 4321, msg_transaction_id = 7, msg_user_id = 1234,
        msg_attributes = [A_FloorRequestInformation 5 [A_OverallRequestStatus 5 [A_RequestStatus RS_Granted 0],
          A_FloorRequestStatus 1 []]]\<rparr> = Inr d \<and> length d = 28"
  using bfcp_message_roundtrip [of "\<lparr>msg_version = 2, msg_responder = True,
      msg_primitive = P_FloorRequestStatus,
      msg_conference_id = 4321, msg_transaction_id = 7, msg_user_id = 1234,
      msg_attributes = [A_FloorRequestInformation 5 [A_OverallRequestStatus 5 [A_RequestStatus RS_Granted 0],
        A_FloorRequestStatus 1 []]]\<rparr>"]
  by (auto simp: message_wf_def payload_of_def MAX_DEPTH_def MAX_PAYLOAD_LEN_def round_up4_def)

lemma Message_parse_InrD:
  assumes "Message_parse d = Inr m"
  shows "message_wf m"
proof -
  obtain h where h: "Header_parse d = Inr h"
    using assms by (auto simp: Message_parse_def Message_parse_prefix_def split: sum.splits)
  then have v: "hdr_version h = drop_bit 5 (d ! 0)"
    by (auto simp: Header_parse_def Let_def split: if_splits option.splits)
  obtain d' as where as: "parse_attributes d' [] (Header_echo h) 0 = Inr (as, [])"
    and m: "msg_attributes m = as" "msg_version m = hdr_version h"
    using assms h
    by (auto simp: Message_parse_def Message_parse_prefix_def Let_def
        split: sum.splits if_splits prod.splits)
  have "drop_bit 5 (d ! 0) < 8"
    using unat_u8_less [of "d ! 0"]
    by (simp add: word_less_nat_alt drop_bit_eq_div unat_div del: unat_u8_less)
  then show ?thesis
    using parse_attributes_wf [OF as] by (simp add: message_wf_def m v)
qed

text \<open>
  A message that was read is well-formed and each of its attributes fits its length field, so it
  is written and reads back unchanged, unless replacing invalid text made its payload longer than
  the header's length field can say.
\<close>

theorem bfcp_read_then_write:
  assumes "Message_parse d = Inr m"
  shows "if length (payload_of m) \<le> MAX_PAYLOAD_LEN
    then \<exists>d'. Message_to_bytes m = Inr d' \<and> Message_parse d' = Inr m
    else Message_to_bytes m = Inl EE_PayloadTooLong"
proof (cases "length (payload_of m) \<le> MAX_PAYLOAD_LEN")
  case True
  have wf: "message_wf m"
    using assms by (rule Message_parse_InrD)
  then obtain d' where d': "Message_to_bytes m = Inr d'"
    using True by (auto simp: Message_to_bytes_fits message_wf_def)
  have "Message_parse d' = Inr m"
    using Message_parse_prefix_to_bytes [OF wf d', of "[]"] by (simp add: Message_parse_def)
  with True d' show ?thesis
    by simp
next
  case False
  then show ?thesis
    using Message_parse_InrD [OF assms] by (simp add: Message_to_bytes_fits message_wf_def)
qed

theorem bfcp_read_then_write_witness:
  "\<exists>m. Message_parse [0x20, 1, 0, 1, 0, 0, 0, 1, 0, 7, 0, 9, 5, 4, 0, 3] = Inr m \<and>
     (\<exists>d'. Message_to_bytes m = Inr d' \<and> Message_parse d' = Inr m)"
proof -
  let ?d = "[0x20, 1, 0, 1, 0, 0, 0, 1, 0, 7, 0, 9, 5, 4, 0, 3] :: bytes"
  let ?m = "\<lparr>msg_version = 1, msg_responder = False, msg_primitive = P_FloorRequest,
     msg_conference_id = 1, msg_transaction_id = 7, msg_user_id = 9, msg_attributes = [A_FloorId 3]\<rparr>"
  have "Message_parse ?d = Inr ?m"
    by code_simp
  moreover have "length (payload_of ?m) \<le> MAX_PAYLOAD_LEN"
    by (simp add: payload_of_def MAX_PAYLOAD_LEN_def round_up4_def)
  ultimately show ?thesis
    using bfcp_read_then_write [of ?d ?m] by auto
qed

text \<open>
  Text that is not UTF-8 grows when it is decoded: two stray octets become the six of two
  replacement characters, so an attribute of four octets is written back as eight.
\<close>

lemma text_of_stray: "text_of [0xFF, 0xFF] = [0xEF, 0xBF, 0xBD, 0xEF, 0xBF, 0xBD]"
  by code_simp

lemma parse_stray_attributes:
  "parse_attributes (concat (replicate n [15, 4, 0xFF, 0xFF])) um echo depth =
     Inr (replicate n (A_ErrorInfo [0xEF, 0xBF, 0xBD, 0xEF, 0xBF, 0xBD]), um)"
proof (induction n)
  case (Suc n)
  let ?a = "A_ErrorInfo [0xEF, 0xBF, 0xBD, 0xEF, 0xBF, 0xBD]"
  have "parse_attributes (attr_frame 7 True (2 + length [0xFF, 0xFF :: u8]) [0xFF, 0xFF]
          @ concat (replicate n [15, 4, 0xFF, 0xFF])) um echo depth = Inr (?a # replicate n ?a, um)"
    by (subst parse_attributes_frame [where a = ?a and um' = um])
      (simp_all add: parse_value_def is_group_def plain_attribute_def text_of_stray Suc.IH)
  moreover have "attr_frame 7 True (2 + length [0xFF, 0xFF :: u8]) [0xFF, 0xFF] = [15, 4, 0xFF, 0xFF]"
    by code_simp
  ultimately show ?case
    by simp
qed simp

definition stray_message :: "nat \<Rightarrow> bytes" where
  "stray_message n = [0x20, 13] @ to_be16 (of_nat n) @ [0, 0, 0, 1, 0, 7, 0, 9] @
     concat (replicate n [15, 4, 0xFF, 0xFF])"

lemma stray_message_parse:
  assumes "n \<le> 65535"
  shows "Message_parse (stray_message n) = Inr \<lparr>msg_version = 1, msg_responder = False,
     msg_primitive = P_Error, msg_conference_id = 1, msg_transaction_id = 7, msg_user_id = 9,
     msg_attributes = replicate n (A_ErrorInfo [0xEF, 0xBF, 0xBD, 0xEF, 0xBF, 0xBD])\<rparr>"
proof -
  define body where "body = concat (replicate n [15, 4, 0xFF, 0xFF :: u8])"
  have len: "length body = n * 4"
    unfolding body_def by (induction n) simp_all
  have n: "unat (of_nat n :: u16) = n"
    using assms by (subst unat_of_nat) simp
  have octets: "be16 0 7 = 7" "be16 0 9 = 9" "be32 0 0 0 1 = 1" "drop_bit 5 (0x20 :: u8) = 1"
    by (simp_all add: be16_def be32_def drop_bit_eq_div)
  have h: "Header_parse (stray_message n) = Inr \<lparr>hdr_version = 1, hdr_responder = False,
      hdr_fragment = None, hdr_primitive = P_Error, hdr_conference_id = 1, hdr_transaction_id = 7,
      hdr_user_id = 9, hdr_payload_len = n * 4\<rparr>"
    using octets unfolding stray_message_def body_def [symmetric]
    by (simp add: Header_parse_def COMMON_HEADER_LEN_def to_be16_def Let_def n
        Primitive_from_u8_def Primitive_ALL_def)
  have "drop 12 (stray_message n) = body" "length (stray_message n) = 12 + n * 4"
    by (simp_all add: stray_message_def body_def [symmetric] to_be16_def len)
  then show ?thesis
    using parse_stray_attributes [of n "[]", folded body_def]
    by (simp add: Message_parse_def Message_parse_prefix_def h Header_header_len_def
        COMMON_HEADER_LEN_def Let_def len)
qed

text \<open>
  Not every message that is read can be written: decoding stray octets may double the payload.
\<close>

theorem bfcp_read_not_always_written:
  "\<exists>d m. Message_parse d = Inr m \<and> Message_to_bytes m = Inl EE_PayloadTooLong"
proof -
  obtain n :: nat where n: "n \<le> 65535" "32767 < n"
    by (rule that [of 40000]) simp_all
  let ?as = "replicate n (A_ErrorInfo [0xEF, 0xBF, 0xBD, 0xEF, 0xBF, 0xBD])"
  have "length (concat (map Attribute_write ?as)) = n * 8"
    by (induction n) (simp_all add: round_up4_def)
  moreover have "list_all Attribute_fits ?as"
    by (simp add: list_all_iff)
  ultimately show ?thesis
    using stray_message_parse [OF n(1)] n(2)
    by (intro exI conjI) (simp, simp add: Message_to_bytes_fits payload_of_def MAX_PAYLOAD_LEN_def)
qed

section \<open>Errors\<close>

lemma parse_value_echo:
  assumes "parse_value t m v um echo depth = Inl e"
    and "\<And>e um depth. parse_attributes (drop 2 v) um echo depth = Inl e \<Longrightarrow> err_echo e = Some echo"
  shows "err_echo e = Some echo"
  using assms
  by (auto simp: parse_value_def plain_attribute_def u16_of_def bad_value_def ParseError_new_def
      split: if_splits sum.splits option.splits)

lemma parse_attributes_echo:
  "parse_attributes d um echo depth = Inl e \<Longrightarrow> err_echo e = Some echo"
proof (induction d arbitrary: um depth e rule: length_induct)
  case (1 d)
  show ?case
  proof (cases "2 \<le> length d \<and> 2 \<le> unat (d ! 1) \<and> unat (d ! 1) \<le> length d")
    case True
    then have d: "2 \<le> length d" "2 \<le> unat (d ! 1)" "unat (d ! 1) \<le> length d"
      by auto
    have "0 < round_up4 (unat (d ! 1))"
      using d(2) round_up4_ge [of "unat (d ! 1)"] by linarith
    then have "length (drop (round_up4 (unat (d ! 1))) d) < length d"
      using d(1) by simp
    note rest = "1.IH" [rule_format, OF this]
    have "length (drop 2 (take (unat (d ! 1) - 2) (drop 2 d))) < length d"
      using d(1) by simp
    note inner = "1.IH" [rule_format, OF this]
    show ?thesis
      using "1.prems" parse_attributes_unfold [OF d(1) refl d(2,3), of um echo depth] rest
      by (auto simp: ParseError_new_def split: sum.splits if_splits prod.splits
          dest: parse_value_echo [OF _ inner])
  next
    case False
    then show ?thesis
      using "1.prems" by (auto simp: parse_attributes.simps [of d] Let_def ParseError_new_def split: if_splits)
  qed
qed

lemma parse_error_echo:
  assumes "Message_parse d = Inl e"
  shows "err_echo e =
    (if length d < 12 then None
     else Some \<lparr>echo_version = drop_bit 5 (d ! 0), echo_conference_id = be32 (d ! 4) (d ! 5) (d ! 6) (d ! 7),
            echo_transaction_id = be16 (d ! 8) (d ! 9), echo_user_id = be16 (d ! 10) (d ! 11)\<rparr>)"
proof (cases "Header_parse d")
  case (Inl e')
  then have "e' = e"
    using assms by (simp add: Message_parse_def Message_parse_prefix_def)
  with Inl show ?thesis
    by (auto simp: Header_parse_def COMMON_HEADER_LEN_def ParseError_new_def Let_def
        split: if_splits option.splits)
next
  case (Inr h)
  then have "Header_echo h =
      \<lparr>echo_version = drop_bit 5 (d ! 0), echo_conference_id = be32 (d ! 4) (d ! 5) (d ! 6) (d ! 7),
       echo_transaction_id = be16 (d ! 8) (d ! 9), echo_user_id = be16 (d ! 10) (d ! 11)\<rparr>"
    and "\<not> length d < 12"
    by (auto simp: Header_parse_def Header_echo_def COMMON_HEADER_LEN_def Let_def
        split: if_splits option.splits)
  moreover have "err_echo e = Some (Header_echo h)"
    using assms Inr
    by (auto simp: Message_parse_def Message_parse_prefix_def ParseError_new_def Let_def Message_echo_def
        Header_echo_def dest: parse_attributes_echo split: sum.splits if_splits prod.splits)
  ultimately show ?thesis
    by simp
qed

lemma parse_echo:
  assumes "Message_parse d = Inr m"
  shows "12 \<le> length d \<and> Message_echo m =
    \<lparr>echo_version = drop_bit 5 (d ! 0), echo_conference_id = be32 (d ! 4) (d ! 5) (d ! 6) (d ! 7),
     echo_transaction_id = be16 (d ! 8) (d ! 9), echo_user_id = be16 (d ! 10) (d ! 11)\<rparr>"
proof -
  obtain h where h: "Header_parse d = Inr h"
    using assms by (auto simp: Message_parse_def Message_parse_prefix_def split: sum.splits)
  then have "Message_echo m = Header_echo h"
    using assms by (auto simp: Message_parse_def Message_parse_prefix_def Message_echo_def
        Header_echo_def Let_def split: sum.splits if_splits prod.splits)
  then show ?thesis
    using h by (auto simp: Header_parse_def Header_echo_def COMMON_HEADER_LEN_def Let_def
        split: if_splits option.splits)
qed

text \<open>
  A message that cannot be read is reported with what a reply needs, the version, conference,
  transaction and user of its header, whenever the twelve octets of a header are there.
\<close>

theorem bfcp_parse_error_echo:
  assumes "Message_parse d = Inl e"
  shows "err_echo e =
    (if length d < 12 then None
     else Some \<lparr>echo_version = drop_bit 5 (d ! 0), echo_conference_id = be32 (d ! 4) (d ! 5) (d ! 6) (d ! 7),
            echo_transaction_id = be16 (d ! 8) (d ! 9), echo_user_id = be16 (d ! 10) (d ! 11)\<rparr>)"
  using assms by (rule parse_error_echo)

theorem bfcp_parse_error_echo_witness:
  "\<exists>e. Message_parse [0x20, 99, 0, 0, 0, 0, 0, 1, 0, 7, 0, 9] = Inl e \<and>
     err_echo e = Some \<lparr>echo_version = 1, echo_conference_id = 1, echo_transaction_id = 7, echo_user_id = 9\<rparr>"
proof -
  let ?d = "[0x20, 99, 0, 0, 0, 0, 0, 1, 0, 7, 0, 9] :: bytes"
  obtain e where e: "Message_parse ?d = Inl e"
    by (simp add: Message_parse_def Message_parse_prefix_def Header_parse_def COMMON_HEADER_LEN_def
        Primitive_from_u8_def Primitive_ALL_def Let_def)
  then show ?thesis
    using bfcp_parse_error_echo [OF e] by (simp add: be16_def be32_def drop_bit_eq_div)
qed

end
