(* ===== verification/Bfcp_Server.thy ===== *)
theory Bfcp_Server
  imports Bfcp_Message Btree_Map
begin

text \<open>
  The floor server of one conference floor, \<^verbatim>\<open>crates/forge-bfcp/src/server.rs\<close>: users, ongoing
  requests, the handler of client messages with all its refusals, the owner's decisions and the
  notifications they cause. The search for a fresh request id is the one loop that may not end, so
  it is a partial function, and the handler that calls it returns an option; it is shown to return
  unless every id is taken.
\<close>

section \<open>State\<close>

datatype Transport = Reliable | Unreliable

fun Transport_version :: "Transport \<Rightarrow> u8" where
  "Transport_version Reliable = VERSION_RELIABLE"
| "Transport_version Unreliable = VERSION_UNRELIABLE"

record User =
  display_name :: "bytes option"
  uri :: "bytes option"
  subscribed :: bool

record Request =
  req_id :: u16
  req_user_id :: u16
  req_status :: RequestStatus
  req_priority :: Priority
  req_info :: "bytes option"

datatype Event =
    Ev_Hello u16
  | Ev_Requested u16 u16 Priority "bytes option"
  | Ev_Released u16 u16 bool
  | Ev_Acked u16 u16
  | Ev_Goodbye u16 "u16 option"

record Notification =
  ntf_user_id :: u16
  ntf_message :: Message

record Handled =
  reply :: "Message option"
  notifications :: "Notification list"
  events :: "Event list"

definition Handled_default :: Handled where
  "Handled_default = \<lparr>reply = None, notifications = [], events = []\<rparr>"

record FloorServer =
  fs_conference_id :: u32
  fs_floor_id :: u16
  fs_transport :: Transport
  fs_users :: "(u16, User) btree"
  fs_requests :: "(u16, Request) btree"
  fs_next_request_id :: u16
  fs_next_transaction_id :: u16

definition FloorServer_new :: "u32 \<Rightarrow> u16 \<Rightarrow> Transport \<Rightarrow> FloorServer" where
  "FloorServer_new conference_id floor_id transport =
     \<lparr>fs_conference_id = conference_id, fs_floor_id = floor_id, fs_transport = transport,
      fs_users = [], fs_requests = [], fs_next_request_id = 1, fs_next_transaction_id = 1\<rparr>"

definition FloorServer_add_user ::
  "FloorServer \<Rightarrow> u16 \<Rightarrow> bytes option \<Rightarrow> bytes option \<Rightarrow> FloorServer" where
  "FloorServer_add_user s user_id name uri' =
     s\<lparr>fs_users := bt_insert user_id \<lparr>display_name = name, uri = uri', subscribed = False\<rparr> (fs_users s)\<rparr>"

definition FloorServer_holder :: "FloorServer \<Rightarrow> (u16 \<times> u16) option" where
  "FloorServer_holder s =
     map_option (\<lambda>r. (req_user_id r, req_id r))
       (find (\<lambda>r. req_status r = RS_Granted) (bt_values (fs_requests s)))"

definition FloorServer_requests :: "FloorServer \<Rightarrow> Request list" where
  "FloorServer_requests s = bt_values (fs_requests s)"

definition FloorServer_request :: "FloorServer \<Rightarrow> u16 \<Rightarrow> Request option" where
  "FloorServer_request s request_id = bt_get (fs_requests s) request_id"

section \<open>Messages\<close>

text \<open>\<^verbatim>\<open>wrapping_add(1).max(1)\<close>: the ids go round without 0.\<close>

definition next_id :: "u16 \<Rightarrow> u16" where
  "next_id i = max (i + 1) 1"

text \<open>The id found and the one to try next; no value when every id is taken.\<close>

partial_function (option) fresh_request_id ::
  "(u16, Request) btree \<Rightarrow> u16 \<Rightarrow> (u16 \<times> u16) option" where
  "fresh_request_id requests i =
     (if \<not> bt_contains requests i then Some (i, next_id i)
      else fresh_request_id requests (next_id i))"

definition notification_echo :: "FloorServer \<Rightarrow> u16 \<Rightarrow> FloorServer \<times> Echo" where
  "notification_echo s user_id =
     (let (s', transaction_id) =
        (case fs_transport s of
           Reliable \<Rightarrow> (s, 0)
         | Unreliable \<Rightarrow>
             (s\<lparr>fs_next_transaction_id := next_id (fs_next_transaction_id s)\<rparr>, fs_next_transaction_id s))
      in (s', \<lparr>echo_version = Transport_version (fs_transport s),
               echo_conference_id = fs_conference_id s,
               echo_transaction_id = transaction_id, echo_user_id = user_id\<rparr>))"

definition beneficiary_information :: "FloorServer \<Rightarrow> u16 \<Rightarrow> Attribute" where
  "beneficiary_information s user_id =
     A_BeneficiaryInformation user_id
       (case bt_get (fs_users s) user_id of
          None \<Rightarrow> []
        | Some u \<Rightarrow>
            (case display_name u of None \<Rightarrow> [] | Some n \<Rightarrow> [A_UserDisplayName n]) @
            (case uri u of None \<Rightarrow> [] | Some x \<Rightarrow> [A_UserUri x]))"

definition floor_request_information :: "FloorServer \<Rightarrow> Request \<Rightarrow> bytes option \<Rightarrow> Attribute" where
  "floor_request_information s r info =
     A_FloorRequestInformation (req_id r)
       ([A_OverallRequestStatus (req_id r)
           (A_RequestStatus (req_status r) 0 # (case info of None \<Rightarrow> [] | Some i \<Rightarrow> [A_StatusInfo i])),
         A_FloorRequestStatus (fs_floor_id s) [A_RequestStatus (req_status r) 0],
         beneficiary_information s (req_user_id r),
         A_Priority (req_priority r)] @
        (case req_info r of None \<Rightarrow> [] | Some i \<Rightarrow> [A_ParticipantProvidedInfo i]))"

definition request_status :: "FloorServer \<Rightarrow> Echo \<Rightarrow> Request \<Rightarrow> bytes option \<Rightarrow> Message" where
  "request_status s echo r info =
     (Message_with (Message_response echo P_FloorRequestStatus) (floor_request_information s r info))
       \<lparr>msg_responder := False\<rparr>"

definition floor_status :: "FloorServer \<Rightarrow> Echo \<Rightarrow> Message" where
  "floor_status s echo =
     (let m = Message_with (Message_response echo P_FloorStatus) (A_FloorId (fs_floor_id s))
      in m\<lparr>msg_attributes := msg_attributes m @
            map (\<lambda>r. floor_request_information s r None) (bt_values (fs_requests s))\<rparr>)"

text \<open>One \<^verbatim>\<open>FloorStatus\<close> for each user of the list, each with its own transaction id.\<close>

fun floor_status_to :: "u16 list \<Rightarrow> FloorServer \<Rightarrow> FloorServer \<times> Notification list" where
  "floor_status_to [] s = (s, [])"
| "floor_status_to (user_id # us) s =
     (let (s', echo) = notification_echo s user_id;
          message = (floor_status s' echo)\<lparr>msg_responder := False\<rparr>;
          (s'', ns) = floor_status_to us s'
      in (s'', \<lparr>ntf_user_id = user_id, ntf_message = message\<rparr> # ns))"

definition subscribers :: "FloorServer \<Rightarrow> u16 list" where
  "subscribers s = map fst (filter (\<lambda>(_, u). subscribed u) (fs_users s))"

definition floor_status_to_subscribers :: "FloorServer \<Rightarrow> FloorServer \<times> Notification list" where
  "floor_status_to_subscribers s = floor_status_to (subscribers s) s"

definition reported_status :: "Message \<Rightarrow> (u16 \<times> RequestStatus) option" where
  "reported_status m =
     (case Message_floor_request_information m of
        [] \<Rightarrow> None
      | (i, info) # _ \<Rightarrow> map_option (\<lambda>st. (i, st)) (overall_status info))"

section \<open>Operations\<close>

text \<open>One round of the loop of \<^verbatim>\<open>remove_user\<close>.\<close>

definition remove_request ::
  "u16 \<Rightarrow> (u16, Request) btree \<times> u16 option \<Rightarrow> (u16, Request) btree \<times> u16 option" where
  "remove_request i = (\<lambda>(requests, released).
     (case bt_get requests i of
        None \<Rightarrow> (requests, released)
      | Some r \<Rightarrow>
          (bt_remove i requests, if req_status r = RS_Granted then Some i else released)))"

definition FloorServer_remove_user ::
  "FloorServer \<Rightarrow> u16 \<Rightarrow> FloorServer \<times> Notification list \<times> u16 option" where
  "FloorServer_remove_user s user_id =
     (let theirs = map req_id (filter (\<lambda>r. req_user_id r = user_id) (bt_values (fs_requests s)));
          (requests, released) = fold remove_request theirs (fs_requests s, None);
          s' = s\<lparr>fs_users := bt_remove user_id (fs_users s), fs_requests := requests\<rparr>;
          (s'', ns) = (if released \<noteq> None then floor_status_to_subscribers s' else (s', []))
      in (s'', ns, released))"

text \<open>The closure \<^verbatim>\<open>refuse\<close>.\<close>

definition refuse :: "Echo \<Rightarrow> ErrorCode \<Rightarrow> string \<Rightarrow> Handled" where
  "refuse echo code info = Handled_default\<lparr>reply := Some (Message_error echo code (Some (str info)))\<rparr>"

definition handle_floor_request :: "FloorServer \<Rightarrow> Message \<Rightarrow> (FloorServer \<times> Handled) option" where
  "handle_floor_request s m =
     (let echo = Message_echo m;
          floors = Message_floor_ids m
      in if floors = [] \<or> list_ex (\<lambda>f. f \<noteq> fs_floor_id s) floors
         then Some (s, refuse echo EC_InvalidFloorId ''this conference has one floor'')
         else if (case Message_beneficiary_id m of None \<Rightarrow> False | Some b \<Rightarrow> b \<noteq> msg_user_id m)
         then Some (s, refuse echo EC_UnauthorizedOperation ''a request on another's behalf needs a chair'')
         else if list_ex (\<lambda>r. req_user_id r = msg_user_id m) (bt_values (fs_requests s))
         then Some (s, refuse echo EC_MaximumFloorRequestsReached ''one ongoing request per user'')
         else (case fresh_request_id (fs_requests s) (fs_next_request_id s) of
                 None \<Rightarrow> None
               | Some (i, next) \<Rightarrow>
                   let request = \<lparr>req_id = i, req_user_id = msg_user_id m, req_status = RS_Pending,
                                  req_priority = Message_priority m,
                                  req_info = Message_participant_provided_info m\<rparr>;
                       s' = s\<lparr>fs_requests := bt_insert i request (fs_requests s),
                              fs_next_request_id := next\<rparr>
                   in Some (s', \<lparr>reply = Some (request_status s' echo request None), notifications = [],
                            events = [Ev_Requested (msg_user_id m) i (req_priority request)
                                        (req_info request)]\<rparr>)))"

definition handle_floor_release :: "FloorServer \<Rightarrow> Message \<Rightarrow> FloorServer \<times> Handled" where
  "handle_floor_release s m =
     (let echo = Message_echo m
      in case Message_floor_request_id m of
           None \<Rightarrow> (s, refuse echo EC_FloorRequestIdDoesNotExist ''no FLOOR-REQUEST-ID'')
         | Some i \<Rightarrow>
             (case bt_get (fs_requests s) i of
                None \<Rightarrow> (s, refuse echo EC_FloorRequestIdDoesNotExist ''no such request'')
              | Some request \<Rightarrow>
                  if req_user_id request \<noteq> msg_user_id m
                  then (s, refuse echo EC_UnauthorizedOperation ''not your request'')
                  else
                    let was_granted = (req_status request = RS_Granted);
                        done' = request\<lparr>req_status := (if was_granted then RS_Released else RS_Cancelled)\<rparr>;
                        s' = s\<lparr>fs_requests := bt_remove i (fs_requests s)\<rparr>;
                        r = request_status s' echo done' None;
                        (s'', ns) = (if was_granted then floor_status_to_subscribers s' else (s', []))
                    in (s'', \<lparr>reply = Some r, notifications = ns,
                              events = [Ev_Released (msg_user_id m) i was_granted]\<rparr>)))"

definition handle_floor_request_query :: "FloorServer \<Rightarrow> Message \<Rightarrow> Handled" where
  "handle_floor_request_query s m =
     (let echo = Message_echo m
      in case Option.bind (Message_floor_request_id m) (bt_get (fs_requests s)) of
           None \<Rightarrow> refuse echo EC_FloorRequestIdDoesNotExist ''no such request''
         | Some request \<Rightarrow> Handled_default\<lparr>reply := Some (request_status s echo request None)\<rparr>)"

definition handle_floor_query :: "FloorServer \<Rightarrow> Message \<Rightarrow> FloorServer \<times> Handled" where
  "handle_floor_query s m =
     (let echo = Message_echo m;
          floors = Message_floor_ids m
      in if list_ex (\<lambda>f. f \<noteq> fs_floor_id s) floors
         then (s, refuse echo EC_InvalidFloorId ''this conference has one floor'')
         else
           let sub = (floors \<noteq> []);
               s' = (case bt_get (fs_users s) (msg_user_id m) of
                       None \<Rightarrow> s
                     | Some u \<Rightarrow>
                         s\<lparr>fs_users := bt_insert (msg_user_id m) (u\<lparr>subscribed := sub\<rparr>) (fs_users s)\<rparr>)
           in (s', Handled_default\<lparr>reply :=
                 Some (if sub then floor_status s' echo else Message_response echo P_FloorStatus)\<rparr>))"

definition handle_user_query :: "FloorServer \<Rightarrow> Message \<Rightarrow> Handled" where
  "handle_user_query s m =
     (let echo = Message_echo m;
          about = (case Message_beneficiary_id m of None \<Rightarrow> msg_user_id m | Some b \<Rightarrow> b)
      in if \<not> bt_contains (fs_users s) about then refuse echo EC_UserDoesNotExist ''no such user''
         else
           let r = Message_with (Message_response echo P_UserStatus) (beneficiary_information s about)
           in Handled_default\<lparr>reply := Some (r\<lparr>msg_attributes := msg_attributes r @
                map (\<lambda>q. floor_request_information s q None)
                  (filter (\<lambda>q. req_user_id q = about) (bt_values (fs_requests s)))\<rparr>)\<rparr>)"

definition handle_message :: "FloorServer \<Rightarrow> Message \<Rightarrow> (FloorServer \<times> Handled) option" where
  "handle_message s m =
     (let echo = Message_echo m;
          version = Transport_version (fs_transport s)
      in if msg_version m \<noteq> version
         then Some (s, refuse echo EC_UnsupportedVersion
                (''version '' @ show_nat (unat version) @ '' on this transport''))
         else if msg_conference_id m \<noteq> fs_conference_id s
         then Some (s, refuse echo EC_ConferenceDoesNotExist ''no such conference'')
         else if Primitive_is_ack (msg_primitive m)
         then Some (s, Handled_default\<lparr>events := [Ev_Acked (msg_user_id m) (msg_transaction_id m)]\<rparr>)
         else if \<not> bt_contains (fs_users s) (msg_user_id m)
         then Some (s, refuse echo EC_UserDoesNotExist ''no such user'')
         else (case msg_primitive m of
                 P_Hello \<Rightarrow>
                   Some (s, \<lparr>reply = Some (Message_with (Message_with (Message_response echo P_HelloAck)
                                             Attribute_supported_primitives)
                                           Attribute_supported_attributes),
                             notifications = [], events = [Ev_Hello (msg_user_id m)]\<rparr>)
               | P_FloorRequest \<Rightarrow> handle_floor_request s m
               | P_FloorRelease \<Rightarrow> Some (handle_floor_release s m)
               | P_FloorRequestQuery \<Rightarrow> Some (s, handle_floor_request_query s m)
               | P_FloorQuery \<Rightarrow> Some (handle_floor_query s m)
               | P_UserQuery \<Rightarrow> Some (s, handle_user_query s m)
               | P_ChairAction \<Rightarrow>
                   Some (s, refuse echo EC_UnauthorizedOperation ''the host is the chair'')
               | P_Goodbye \<Rightarrow>
                   let (s', ns, released) = FloorServer_remove_user s (msg_user_id m)
                   in Some (s', \<lparr>reply = Some (Message_response echo P_GoodbyeAck), notifications = ns,
                                 events = [Ev_Goodbye (msg_user_id m) released]\<rparr>)
               | _ \<Rightarrow> Some (s, Handled_default)))"

text \<open>The octets of unknown mandatory types, put in the first attribute of the error.\<close>

definition set_details :: "u8 list \<Rightarrow> Message \<Rightarrow> Message" where
  "set_details details m =
     (case msg_attributes m of
        A_ErrorCode code _ # as \<Rightarrow> m\<lparr>msg_attributes := A_ErrorCode code details # as\<rparr>
      | _ \<Rightarrow> m)"

definition FloorServer_handle :: "FloorServer \<Rightarrow> bytes \<Rightarrow> (FloorServer \<times> Handled) option" where
  "FloorServer_handle s d =
     (case Message_parse d of
        Inr m \<Rightarrow> handle_message s m
      | Inl err \<Rightarrow>
          (case err_echo err of
             None \<Rightarrow> Some (s, Handled_default)
           | Some echo \<Rightarrow>
               let details = (case err_kind err of
                                PE_UnknownMandatoryAttribute types \<Rightarrow> map (push_bit 1) types
                              | _ \<Rightarrow> [])
               in Some (s, Handled_default\<lparr>reply :=
                    Some (set_details details (Message_error echo (ParseError_error_code err) None))\<rparr>)))"

definition decide ::
  "FloorServer \<Rightarrow> u16 \<Rightarrow> RequestStatus \<Rightarrow> bytes option \<Rightarrow> FloorServer \<times> Notification list" where
  "decide s request_id status info =
     (case bt_get (fs_requests s) request_id of
        None \<Rightarrow> (s, [])
      | Some r \<Rightarrow>
          let request = r\<lparr>req_status := status\<rparr>;
              s1 = (if RequestStatus_is_terminal status
                    then s\<lparr>fs_requests := bt_remove request_id (fs_requests s)\<rparr>
                    else s\<lparr>fs_requests := bt_insert request_id request (fs_requests s)\<rparr>);
              (s2, echo) = notification_echo s1 (req_user_id request);
              first = \<lparr>ntf_user_id = req_user_id request, ntf_message = request_status s2 echo request info\<rparr>;
              (s3, ns) = floor_status_to_subscribers s2
          in (s3, first # ns))"

definition FloorServer_grant :: "FloorServer \<Rightarrow> u16 \<Rightarrow> FloorServer \<times> Notification list" where
  "FloorServer_grant s request_id = decide s request_id RS_Granted None"

definition FloorServer_deny :: "FloorServer \<Rightarrow> u16 \<Rightarrow> bytes option \<Rightarrow> FloorServer \<times> Notification list" where
  "FloorServer_deny s request_id info = decide s request_id RS_Denied info"

definition FloorServer_revoke :: "FloorServer \<Rightarrow> u16 \<Rightarrow> bytes option \<Rightarrow> FloorServer \<times> Notification list" where
  "FloorServer_revoke s request_id info = decide s request_id RS_Revoked info"

section \<open>The invariant\<close>

text \<open>
  Requests are kept under their own, non-zero ids; each belongs to a user, is pending or granted,
  and is the user's only one. The counters that hand out ids never stand at 0.
\<close>

definition requests_ok :: "(u16, User) btree \<Rightarrow> (u16, Request) btree \<Rightarrow> bool" where
  "requests_ok users requests \<longleftrightarrow>
     (\<forall>i r. bt_get requests i = Some r \<longrightarrow>
        req_id r = i \<and> i \<noteq> 0 \<and> bt_get users (req_user_id r) \<noteq> None \<and>
        (req_status r = RS_Pending \<or> req_status r = RS_Granted)) \<and>
     (\<forall>i j r q. bt_get requests i = Some r \<and> bt_get requests j = Some q \<and>
        req_user_id r = req_user_id q \<longrightarrow> i = j)"

definition server_ok :: "FloorServer \<Rightarrow> bool" where
  "server_ok s \<longleftrightarrow> bt_ok (fs_users s) \<and> bt_ok (fs_requests s) \<and> requests_ok (fs_users s) (fs_requests s) \<and>
     fs_next_request_id s \<noteq> 0 \<and> fs_next_transaction_id s \<noteq> 0"

lemma requests_okD:
  assumes "requests_ok users requests" "bt_get requests i = Some r"
  shows "req_id r = i" "i \<noteq> 0" "bt_get users (req_user_id r) \<noteq> None"
    "req_status r = RS_Pending \<or> req_status r = RS_Granted"
  using assms by (auto simp: requests_ok_def)

lemma requests_ok_unique:
  "requests_ok users requests \<Longrightarrow> bt_get requests i = Some r \<Longrightarrow> bt_get requests j = Some q \<Longrightarrow>
   req_user_id r = req_user_id q \<Longrightarrow> i = j"
  by (simp add: requests_ok_def)

lemma requests_ok_mono:
  assumes "requests_ok users requests" "\<And>i r. bt_get requests' i = Some r \<Longrightarrow> bt_get requests i = Some r"
    and "\<And>i r. bt_get requests' i = Some r \<Longrightarrow> bt_get users' (req_user_id r) \<noteq> None"
  shows "requests_ok users' requests'"
  using assms unfolding requests_ok_def by blast

lemma insert_request_ok:
  assumes "requests_ok users requests" "bt_ok requests" "i \<noteq> 0" "req_id r = i"
    and "bt_get users (req_user_id r) \<noteq> None" "req_status r = RS_Pending \<or> req_status r = RS_Granted"
    and "((bt_get requests)(i \<mapsto> r)) j = Some q"
  shows "req_id q = j \<and> j \<noteq> 0 \<and> bt_get users (req_user_id q) \<noteq> None \<and>
      (req_status q = RS_Pending \<or> req_status q = RS_Granted)"
proof (cases "j = i")
  case True
  then have "q = r" using assms(7) by simp
  with True assms(3-6) show ?thesis by blast
next
  case False
  then have "bt_get requests j = Some q" using assms(7) by simp
  then show ?thesis using requests_okD [OF assms(1)] by blast
qed

lemma insert_request_unique:
  assumes "requests_ok users requests"
    and "\<And>j q. bt_get requests j = Some q \<Longrightarrow> req_user_id q = req_user_id r \<Longrightarrow> j = i"
    and "((bt_get requests)(i \<mapsto> r)) j = Some q" "((bt_get requests)(i \<mapsto> r)) k = Some p" "req_user_id q = req_user_id p"
  shows "j = k"
proof (cases "j = i"; cases "k = i")
  assume "j = i" "k \<noteq> i"
  then show ?thesis using assms(2) [of k p] assms(3-5) by simp
next
  assume "j \<noteq> i" "k = i"
  then show ?thesis using assms(2) [of j q] assms(3-5) by simp
next
  assume "j \<noteq> i" "k \<noteq> i"
  then show ?thesis using requests_ok_unique [OF assms(1), of j q k p] assms(3-5) by simp
qed simp

lemma requests_ok_insert:
  assumes "requests_ok users requests" "bt_ok requests" "i \<noteq> 0" "req_id r = i"
    and "bt_get users (req_user_id r) \<noteq> None" "req_status r = RS_Pending \<or> req_status r = RS_Granted"
    and "\<And>j q. bt_get requests j = Some q \<Longrightarrow> req_user_id q = req_user_id r \<Longrightarrow> j = i"
  shows "requests_ok users (bt_insert i r requests)"
  unfolding requests_ok_def btm.get_insert [OF assms(2)]
  by (rule conjI; intro allI impI; (elim conjE)?)
    (rule insert_request_ok [OF assms(1-6)] insert_request_unique [OF assms(1,7)]; assumption)+

lemma next_id_nonzero [simp]: "next_id i \<noteq> 0"
  by (auto simp: next_id_def max_def)

subsection \<open>Fresh request ids\<close>

lemma fresh_request_id_Some:
  "fresh_request_id requests i = Some y \<Longrightarrow>
   bt_get requests (fst y) = None \<and> (i \<noteq> 0 \<longrightarrow> fst y \<noteq> 0) \<and> snd y = next_id (fst y)"
  by (erule fresh_request_id.raw_induct [where P = "\<lambda>requests i y. bt_get requests (fst y) = None \<and>
        (i \<noteq> 0 \<longrightarrow> fst y \<noteq> 0) \<and> snd y = next_id (fst y)", rotated])
    (auto simp: bt_contains_get split: if_splits)

text \<open>How many steps of the counter lead from one id to another.\<close>

definition id_distance :: "u16 \<Rightarrow> u16 \<Rightarrow> nat" where
  "id_distance i j = (if i \<le> j then unat j - unat i else unat j + 65535 - unat i)"

lemma unat_next_id: "unat (next_id i) = (if unat i = 65535 then 1 else unat i + 1)"
proof -
  have "unat (i + 1) = (if unat i = 65535 then 0 else unat i + 1)"
    using unat_u16_less [of i] by (auto simp: unat_word_ariths simp del: unat_u16_less)
  then show ?thesis
    by (auto simp: next_id_def max_def word_le_nat_alt)
qed

lemma id_distance_next:
  assumes "i \<noteq> 0" "j \<noteq> 0" "i \<noteq> j"
  shows "id_distance (next_id i) j < id_distance i j"
proof -
  have "unat i \<noteq> 0" "unat j \<noteq> 0"
    using assms(1,2) by (simp_all add: unat_eq_zero)
  moreover have "unat i \<noteq> unat j"
    using assms(3) by (metis word_unat_eq_iff)
  moreover note unat_u16_less [of i] unat_u16_less [of j]
  ultimately show ?thesis
    unfolding id_distance_def word_le_nat_alt unat_next_id
    by (auto simp del: unat_u16_less split: if_splits)
qed

lemma fresh_request_id_returns:
  assumes "i \<noteq> 0" "j \<noteq> 0" "bt_get requests j = None"
  shows "\<exists>k n. fresh_request_id requests i = Some (k, n)"
  using assms(1)
proof (induction "id_distance i j" arbitrary: i rule: less_induct)
  case less
  show ?case
  proof (cases "bt_get requests i = None")
    case True
    then show ?thesis by (simp add: fresh_request_id.simps bt_contains_get)
  next
    case False
    then have "i \<noteq> j"
      using assms(3) by auto
    then have "\<exists>k n. fresh_request_id requests (next_id i) = Some (k, n)"
      using less assms(2) by (simp add: id_distance_next)
    with False show ?thesis
      by (simp add: fresh_request_id.simps [of _ i] bt_contains_get)
  qed
qed

lemma free_id_exists:
  assumes "bt_ok requests" "length requests < 65535"
  shows "\<exists>j. j \<noteq> (0 :: u16) \<and> bt_get requests j = None"
proof (rule ccontr)
  assume "\<not> ?thesis"
  then have "UNIV - {0} \<subseteq> dom (bt_get requests)"
    by auto
  then have "card (UNIV - {0 :: u16}) \<le> length requests"
    by (metis assms(1) btm.finite_keys btm.size_eq_card card_mono)
  moreover have "card (UNIV - {0 :: u16}) = 65535"
    by (simp add: card_word)
  ultimately show False
    using assms(2) by simp
qed

subsection \<open>Operations keep it\<close>

text \<open>Sending notifications moves the transaction counter and nothing else.\<close>

lemma notification_echo_frame:
  assumes "notification_echo s u = (s', echo)"
  obtains t where "s' = s\<lparr>fs_next_transaction_id := t\<rparr>" "fs_next_transaction_id s \<noteq> 0 \<longrightarrow> t \<noteq> 0"
proof
  show "s' = s\<lparr>fs_next_transaction_id := fs_next_transaction_id s'\<rparr>"
    using assms by (auto simp: notification_echo_def split: Transport.splits)
  show "fs_next_transaction_id s \<noteq> 0 \<longrightarrow> fs_next_transaction_id s' \<noteq> 0"
    using assms by (auto simp: notification_echo_def split: Transport.splits)
qed

lemma floor_status_to_frame:
  assumes "floor_status_to us s = (s', ns)"
  obtains t where "s' = s\<lparr>fs_next_transaction_id := t\<rparr>" "fs_next_transaction_id s \<noteq> 0 \<longrightarrow> t \<noteq> 0"
  using assms
proof (induction us s arbitrary: s' ns thesis rule: floor_status_to.induct)
  case (1 s)
  show ?case by (rule "1.prems"(1) [of "fs_next_transaction_id s"]) (use "1.prems"(2) in simp_all)
next
  case (2 u us s)
  obtain s1 echo where e: "notification_echo s u = (s1, echo)" by fastforce
  obtain ns' where f: "floor_status_to us s1 = (s', ns')"
    using "2.prems"(2) e by (auto simp: Let_def split: prod.splits)
  obtain t1 where t1: "s1 = s\<lparr>fs_next_transaction_id := t1\<rparr>" "fs_next_transaction_id s \<noteq> 0 \<longrightarrow> t1 \<noteq> 0"
    using e by (rule notification_echo_frame)
  obtain t where "s' = s1\<lparr>fs_next_transaction_id := t\<rparr>" "fs_next_transaction_id s1 \<noteq> 0 \<longrightarrow> t \<noteq> 0"
    using "2.IH" [OF e [symmetric] refl refl _ f] by blast
  with t1 show ?case
    by (intro "2.prems"(1) [of t]) simp_all
qed

lemma server_ok_transaction:
  "server_ok s \<Longrightarrow> t \<noteq> 0 \<Longrightarrow> server_ok (s\<lparr>fs_next_transaction_id := t\<rparr>)"
  by (simp add: server_ok_def)

lemma notification_echo_ok:
  "server_ok s \<Longrightarrow> notification_echo s u = (s', echo) \<Longrightarrow> server_ok s'"
  by (erule notification_echo_frame) (auto simp: server_ok_def)

lemma floor_status_to_subscribers_ok:
  "server_ok s \<Longrightarrow> floor_status_to_subscribers s = (s', ns) \<Longrightarrow> server_ok s'"
  unfolding floor_status_to_subscribers_def by (erule floor_status_to_frame) (auto simp: server_ok_def)

lemma FloorServer_new_ok: "server_ok (FloorServer_new c f t)"
  by (simp add: server_ok_def FloorServer_new_def requests_ok_def)

lemma FloorServer_add_user_ok: "server_ok s \<Longrightarrow> server_ok (FloorServer_add_user s u n x)"
  by (auto simp: server_ok_def FloorServer_add_user_def requests_ok_def)

text \<open>The loop of \<^verbatim>\<open>remove_user\<close> drops the requests of the list.\<close>

lemma remove_requests:
  assumes "bt_ok requests" "fold remove_request ids (requests, released) = (requests', released')"
  shows "bt_ok requests' \<and> (\<forall>i. bt_get requests' i = (if i \<in> set ids then None else bt_get requests i))"
  using assms
proof (induction ids arbitrary: requests released)
  case (Cons i ids)
  obtain q l where step: "remove_request i (requests, released) = (q, l)" by fastforce
  then have "bt_ok q \<and> (\<forall>j. bt_get q j = (if j = i then None else bt_get requests j))"
    using Cons.prems(1) by (auto simp: remove_request_def split: option.splits)
  then show ?case
    using Cons.IH [of q l] Cons.prems(2) step by auto
qed simp

lemma FloorServer_remove_userE:
  assumes "server_ok s" "FloorServer_remove_user s u = (s', ns, released)"
  obtains requests t where
    "s' = s\<lparr>fs_users := bt_remove u (fs_users s), fs_requests := requests, fs_next_transaction_id := t\<rparr>"
    "t \<noteq> 0" "bt_ok requests"
    "\<And>i. bt_get requests i =
       (case bt_get (fs_requests s) i of
          None \<Rightarrow> None
        | Some r \<Rightarrow> if req_user_id r = u then None else Some r)"
proof -
  let ?ids = "map req_id (filter (\<lambda>r. req_user_id r = u) (bt_values (fs_requests s)))"
  obtain requests rel where loop: "fold remove_request ?ids (fs_requests s, None) = (requests, rel)"
    by fastforce
  have ok: "bt_ok (fs_requests s)" "requests_ok (fs_users s) (fs_requests s)"
    using assms(1) by (simp_all add: server_ok_def)
  note gone = remove_requests [OF ok(1) loop]
  have ids: "i \<in> set ?ids \<longleftrightarrow> (\<exists>r. bt_get (fs_requests s) i = Some r \<and> req_user_id r = u)" for i
    by (auto simp: bt_values_set [OF ok(1)] image_iff dest: requests_okD(1) [OF ok(2)])
  define s1 where "s1 = s\<lparr>fs_users := bt_remove u (fs_users s), fs_requests := requests\<rparr>"
  obtain t where t: "s' = s1\<lparr>fs_next_transaction_id := t\<rparr>" "fs_next_transaction_id s1 \<noteq> 0 \<longrightarrow> t \<noteq> 0"
  proof (cases "rel = None")
    case True
    then show ?thesis
      using assms(2) by (intro that [of "fs_next_transaction_id s1"])
        (auto simp: FloorServer_remove_user_def loop s1_def)
  next
    case False
    then have "floor_status_to (subscribers s1) s1 = (s', ns)"
      using assms(2) by (auto simp: FloorServer_remove_user_def loop s1_def [symmetric]
          floor_status_to_subscribers_def split: prod.splits)
    then show ?thesis
      using that by (rule floor_status_to_frame)
  qed
  show ?thesis
  proof
    show "s' = s\<lparr>fs_users := bt_remove u (fs_users s), fs_requests := requests,
        fs_next_transaction_id := t\<rparr>"
      using t(1) by (simp add: s1_def)
    show "t \<noteq> 0" "bt_ok requests"
      using t(2) assms(1) gone by (simp_all add: s1_def server_ok_def)
    show "bt_get requests i =
       (case bt_get (fs_requests s) i of
          None \<Rightarrow> None
        | Some r \<Rightarrow> if req_user_id r = u then None else Some r)" for i
      using gone ids [of i] by (auto split: option.splits)
  qed
qed

lemma FloorServer_remove_user_ok:
  assumes "server_ok s" "FloorServer_remove_user s u = (s', ns, released)"
  shows "server_ok s'"
proof -
  obtain requests t where s': "s' = s\<lparr>fs_users := bt_remove u (fs_users s), fs_requests := requests,
      fs_next_transaction_id := t\<rparr>" "t \<noteq> 0" "bt_ok requests"
    and get: "\<And>i. bt_get requests i = (case bt_get (fs_requests s) i of None \<Rightarrow> None
        | Some r \<Rightarrow> if req_user_id r = u then None else Some r)"
    using assms by (rule FloorServer_remove_userE) blast
  have ok: "requests_ok (fs_users s) (fs_requests s)" "bt_ok (fs_users s)"
    using assms(1) by (simp_all add: server_ok_def)
  have sub: "bt_get (fs_requests s) i = Some r \<and> req_user_id r \<noteq> u" if "bt_get requests i = Some r" for i r
    using that by (auto simp: get split: option.splits if_splits)
  have "requests_ok (bt_remove u (fs_users s)) requests"
  proof (rule requests_ok_mono [OF ok(1)])
    show "bt_get (bt_remove u (fs_users s)) (req_user_id r) \<noteq> None" if "bt_get requests i = Some r" for i r
      using sub [OF that] requests_okD(3) [OF ok(1), of i r] ok(2) by simp
  qed (use sub in blast)
  then show ?thesis
    using assms(1) s' by (simp add: server_ok_def)
qed

lemma decide_ok:
  assumes "server_ok s" "decide s i st info = (s', ns)" "st \<noteq> RS_Accepted"
  shows "server_ok s'"
proof (cases "bt_get (fs_requests s) i")
  case None
  then show ?thesis using assms by (simp add: decide_def)
next
  case (Some r)
  let ?r = "r\<lparr>req_status := st\<rparr>"
  define s1 where "s1 = (if RequestStatus_is_terminal st
    then s\<lparr>fs_requests := bt_remove i (fs_requests s)\<rparr>
    else s\<lparr>fs_requests := bt_insert i ?r (fs_requests s)\<rparr>)"
  have s: "bt_ok (fs_requests s)" "requests_ok (fs_users s) (fs_requests s)"
    using assms(1) by (simp_all add: server_ok_def)
  have "requests_ok (fs_users s) (bt_remove i (fs_requests s))"
    using s by (intro requests_ok_mono [OF s(2)]) (auto dest: requests_okD(3) split: if_splits)
  moreover have "requests_ok (fs_users s) (bt_insert i ?r (fs_requests s))"
    if "\<not> RequestStatus_is_terminal st"
    using that s(1) requests_okD [OF s(2) Some] requests_ok_unique [OF s(2) _ Some] assms(3)
    by (intro requests_ok_insert [OF s(2)]) (cases st; auto)+
  ultimately have "server_ok s1"
    using assms(1) by (simp add: s1_def server_ok_def)
  moreover obtain s2 echo where e: "notification_echo s1 (req_user_id ?r) = (s2, echo)"
    by fastforce
  ultimately have "server_ok s2"
    using notification_echo_ok by blast
  moreover have "\<exists>ns'. floor_status_to_subscribers s2 = (s', ns')"
    using assms(2) e by (auto simp: decide_def Some s1_def [symmetric] Let_def split: prod.splits)
  ultimately show ?thesis
    using floor_status_to_subscribers_ok by blast
qed

lemma handle_floor_request_cases:
  "handle_floor_request s m = Some (s', h) \<Longrightarrow>
   s' = s \<and> (\<exists>code info. h = refuse (Message_echo m) code info) \<or>
   (\<exists>i n r. fresh_request_id (fs_requests s) (fs_next_request_id s) = Some (i, n) \<and>
      r = \<lparr>req_id = i, req_user_id = msg_user_id m, req_status = RS_Pending,
           req_priority = Message_priority m, req_info = Message_participant_provided_info m\<rparr> \<and>
      s' = s\<lparr>fs_requests := bt_insert i r (fs_requests s), fs_next_request_id := n\<rparr> \<and>
      \<not> list_ex (\<lambda>r. req_user_id r = msg_user_id m) (bt_values (fs_requests s)))"
  by (auto simp: handle_floor_request_def Let_def split: if_split_asm option.split_asm)

lemma handle_floor_request_ok:
  assumes "server_ok s" "handle_floor_request s m = Some (s', h)" "bt_contains (fs_users s) (msg_user_id m)"
  shows "server_ok s'"
proof -
  have s: "bt_ok (fs_requests s)" "requests_ok (fs_users s) (fs_requests s)" "fs_next_request_id s \<noteq> 0"
    using assms(1) by (simp_all add: server_ok_def)
  from handle_floor_request_cases [OF assms(2)] consider (refused) "s' = s"
    | (accepted) i n r where "fresh_request_id (fs_requests s) (fs_next_request_id s) = Some (i, n)"
      "r = \<lparr>req_id = i, req_user_id = msg_user_id m, req_status = RS_Pending,
           req_priority = Message_priority m, req_info = Message_participant_provided_info m\<rparr>"
      "s' = s\<lparr>fs_requests := bt_insert i r (fs_requests s), fs_next_request_id := n\<rparr>"
      "\<not> list_ex (\<lambda>r. req_user_id r = msg_user_id m) (bt_values (fs_requests s))"
    by blast
  then show ?thesis
  proof cases
    case (accepted i n r)
    have i: "i \<noteq> 0" "n \<noteq> 0"
      using fresh_request_id_Some [OF accepted(1)] s(3) by auto
    have none: "req_user_id q \<noteq> msg_user_id m" if "bt_get (fs_requests s) j = Some q" for j q
      using that accepted(4) by (auto simp: list_ex_iff bt_values_set [OF s(1)])
    have "requests_ok (fs_users s) (bt_insert i r (fs_requests s))"
      using accepted(2) i(1) none assms(3)
      by (intro requests_ok_insert [OF s(2,1)]) (simp_all add: bt_contains_get)
    then show ?thesis
      using accepted(3) assms(1) i by (simp add: server_ok_def)
  qed (use assms(1) in simp)
qed

lemma handle_floor_release_ok:
  assumes "server_ok s" "handle_floor_release s m = (s', h)"
  shows "server_ok s'"
proof -
  have "server_ok (s\<lparr>fs_requests := bt_remove i (fs_requests s)\<rparr>)" for i
    using assms(1)
    by (auto simp: server_ok_def intro!: requests_ok_mono [of "fs_users s" "fs_requests s"]
        dest: requests_okD(3) split: if_splits)
  then show ?thesis
    using assms floor_status_to_subscribers_ok
    by (auto simp: handle_floor_release_def Let_def split: option.splits if_splits prod.splits)
qed

lemma handle_floor_query_ok: "server_ok s \<Longrightarrow> handle_floor_query s m = (s', h) \<Longrightarrow> server_ok s'"
  by (auto simp: handle_floor_query_def Let_def server_ok_def
      intro!: requests_ok_mono [of "fs_users s" "fs_requests s"]
      dest: requests_okD(3) split: option.splits if_splits)

lemma handle_message_ok:
  assumes "server_ok s" "handle_message s m = Some (s', h)"
  shows "server_ok s'"
  using assms handle_floor_request_ok [OF assms(1)] handle_floor_release_ok [OF assms(1)]
    handle_floor_query_ok [OF assms(1)] FloorServer_remove_user_ok [OF assms(1)]
  by (auto simp: handle_message_def Let_def split: if_splits Primitive.splits prod.splits)

lemma FloorServer_handle_ok:
  "server_ok s \<Longrightarrow> FloorServer_handle s d = Some (s', h) \<Longrightarrow> server_ok s'"
  by (auto simp: FloorServer_handle_def Let_def handle_message_ok split: sum.splits option.splits)

section \<open>The floor server as a transition system\<close>

text \<open>
  What happens to a server: users come and go, clients' messages arrive, the owner denies and
  revokes (\<open>client_step\<close>), and the owner grants, whenever it likes (\<open>floor_step\<close>) or only while
  nobody holds the floor (\<open>owner_step\<close>).
\<close>

inductive client_step :: "FloorServer \<Rightarrow> FloorServer \<Rightarrow> bool" where
  add_user: "client_step s (FloorServer_add_user s u n x)"
| remove_user: "FloorServer_remove_user s u = (s', ns, released) \<Longrightarrow> client_step s s'"
| handle: "FloorServer_handle s d = Some (s', h) \<Longrightarrow> client_step s s'"
| deny: "FloorServer_deny s i info = (s', ns) \<Longrightarrow> client_step s s'"
| revoke: "FloorServer_revoke s i info = (s', ns) \<Longrightarrow> client_step s s'"

inductive floor_step :: "FloorServer \<Rightarrow> FloorServer \<Rightarrow> bool" where
  client: "client_step s s' \<Longrightarrow> floor_step s s'"
| grant: "FloorServer_grant s i = (s', ns) \<Longrightarrow> floor_step s s'"

inductive owner_step :: "FloorServer \<Rightarrow> FloorServer \<Rightarrow> bool" where
  client: "client_step s s' \<Longrightarrow> owner_step s s'"
| grant: "FloorServer_holder s = None \<Longrightarrow> FloorServer_grant s i = (s', ns) \<Longrightarrow> owner_step s s'"

lemma client_step_ok: "client_step s s' \<Longrightarrow> server_ok s \<Longrightarrow> server_ok s'"
  by (induction rule: client_step.induct)
    (auto simp: FloorServer_add_user_ok FloorServer_deny_def FloorServer_revoke_def
      intro: FloorServer_remove_user_ok FloorServer_handle_ok decide_ok)

lemma floor_step_ok: "floor_step s s' \<Longrightarrow> server_ok s \<Longrightarrow> server_ok s'"
  by (induction rule: floor_step.induct)
    (auto simp: FloorServer_grant_def intro: client_step_ok decide_ok)

lemma owner_step_floor_step: "owner_step s s' \<Longrightarrow> floor_step s s'"
  by (auto elim!: owner_step.cases intro: floor_step.intros)

interpretation floor_server: transition_system "\<lambda>s. \<exists>c f t. s = FloorServer_new c f t" floor_step server_ok
  by unfold_locales (auto intro: FloorServer_new_ok floor_step_ok)

subsection \<open>Exclusive holding\<close>

definition one_holder :: "FloorServer \<Rightarrow> bool" where
  "one_holder s \<longleftrightarrow> (\<forall>i j r q. bt_get (fs_requests s) i = Some r \<and> bt_get (fs_requests s) j = Some q \<and>
     req_status r = RS_Granted \<and> req_status q = RS_Granted \<longrightarrow> i = j)"

text \<open>The granted requests after a step are granted requests of before.\<close>

definition no_new_grant :: "FloorServer \<Rightarrow> FloorServer \<Rightarrow> bool" where
  "no_new_grant s s' \<longleftrightarrow> (\<forall>i r. bt_get (fs_requests s') i = Some r \<and> req_status r = RS_Granted \<longrightarrow>
     bt_get (fs_requests s) i = Some r)"

lemma no_new_grant_one_holder: "no_new_grant s s' \<Longrightarrow> one_holder s \<Longrightarrow> one_holder s'"
  unfolding no_new_grant_def one_holder_def by blast

lemma floor_status_to_subscribers_requests:
  "floor_status_to_subscribers s = (s', ns) \<Longrightarrow> fs_requests s' = fs_requests s"
  unfolding floor_status_to_subscribers_def by (erule floor_status_to_frame) simp

lemma decide_requests:
  assumes "decide s i st info = (s', ns)" "bt_get (fs_requests s) i = Some r"
  shows "fs_requests s' = (if RequestStatus_is_terminal st then bt_remove i (fs_requests s)
    else bt_insert i (r\<lparr>req_status := st\<rparr>) (fs_requests s))"
proof -
  define s1 where "s1 = (if RequestStatus_is_terminal st
    then s\<lparr>fs_requests := bt_remove i (fs_requests s)\<rparr>
    else s\<lparr>fs_requests := bt_insert i (r\<lparr>req_status := st\<rparr>) (fs_requests s)\<rparr>)"
  obtain s2 echo where e: "notification_echo s1 (req_user_id r) = (s2, echo)"
    by fastforce
  obtain ns' where "floor_status_to_subscribers s2 = (s', ns')"
    using assms e by (auto simp: decide_def s1_def [symmetric] Let_def split: prod.splits)
  then have "fs_requests s' = fs_requests s2"
    by (rule floor_status_to_subscribers_requests)
  also have "\<dots> = fs_requests s1"
    using e by (rule notification_echo_frame) simp
  finally show ?thesis
    by (simp add: s1_def)
qed

lemma no_new_grant_refl: "no_new_grant s s"
  by (simp add: no_new_grant_def)

lemma handle_floor_request_no_new_grant:
  assumes "bt_ok (fs_requests s)" "handle_floor_request s m = Some (s', h)"
  shows "no_new_grant s s'"
  using handle_floor_request_cases [OF assms(2)] assms(1)
  by (auto simp: no_new_grant_def split: if_splits)

lemma handle_floor_release_requests:
  "handle_floor_release s m = (s', h) \<Longrightarrow>
   fs_requests s' = fs_requests s \<or> (\<exists>i. fs_requests s' = bt_remove i (fs_requests s))"
  by (auto simp: handle_floor_release_def Let_def dest!: floor_status_to_subscribers_requests
      split: option.splits if_splits prod.splits)

lemma handle_floor_query_requests: "handle_floor_query s m = (s', h) \<Longrightarrow> fs_requests s' = fs_requests s"
  by (auto simp: handle_floor_query_def Let_def split: option.splits if_splits)

lemma remove_user_no_new_grant:
  assumes "server_ok s" "FloorServer_remove_user s u = (s', ns, released)"
  shows "no_new_grant s s'"
  using assms
  by (rule FloorServer_remove_userE) (auto simp: no_new_grant_def split: option.splits if_splits)

lemma handle_message_no_new_grant:
  assumes "server_ok s" "handle_message s m = Some (s', h)"
  shows "no_new_grant s s'"
proof -
  have ok: "bt_ok (fs_requests s)"
    using assms(1) by (simp add: server_ok_def)
  have release: "no_new_grant s s'" if "handle_floor_release s m = (s', h)" for s' h
    using handle_floor_release_requests [OF that] ok by (auto simp: no_new_grant_def split: if_splits)
  have query: "no_new_grant s s'" if "handle_floor_query s m = (s', h)" for s' h
    using handle_floor_query_requests [OF that] by (simp add: no_new_grant_def)
  show ?thesis
    using assms(2) handle_floor_request_no_new_grant [OF ok] release query
      remove_user_no_new_grant [OF assms(1)]
    by (auto simp: handle_message_def Let_def no_new_grant_refl split: if_splits Primitive.splits prod.splits)
qed

lemma decide_no_new_grant:
  assumes "server_ok s" "decide s i st info = (s', ns)" "RequestStatus_is_terminal st"
  shows "no_new_grant s s'"
proof (cases "bt_get (fs_requests s) i")
  case None
  then show ?thesis using assms(2) by (simp add: decide_def no_new_grant_refl)
next
  case (Some r)
  then show ?thesis
    using decide_requests [OF assms(2) Some] assms(1,3)
    by (auto simp: no_new_grant_def server_ok_def split: if_splits)
qed

lemma client_step_no_new_grant:
  "client_step s s' \<Longrightarrow> server_ok s \<Longrightarrow> no_new_grant s s'"
proof (induction rule: client_step.induct)
  case (add_user s u n x)
  then show ?case by (simp add: no_new_grant_def FloorServer_add_user_def)
next
  case (handle s d s' h)
  then show ?case
    by (auto simp: FloorServer_handle_def Let_def no_new_grant_refl
        intro: handle_message_no_new_grant split: sum.splits option.splits)
qed (auto simp: FloorServer_deny_def FloorServer_revoke_def intro: remove_user_no_new_grant decide_no_new_grant)

lemma find_SomeD: "find P xs = Some x \<Longrightarrow> x \<in> set xs \<and> P x"
  by (auto simp: find_Some_iff)

lemma holder_None:
  "bt_ok (fs_requests s) \<Longrightarrow> FloorServer_holder s = None \<longleftrightarrow>
     (\<forall>i r. bt_get (fs_requests s) i = Some r \<longrightarrow> req_status r \<noteq> RS_Granted)"
  by (auto simp: FloorServer_holder_def find_None_iff bt_values_set)

lemma owner_step_one_holder:
  assumes "owner_step s s'" "server_ok s" "one_holder s"
  shows "one_holder s'"
  using assms
proof (induction rule: owner_step.induct)
  case (client s s')
  then show ?case using client_step_no_new_grant no_new_grant_one_holder by blast
next
  case (grant s i s' ns)
  have ok: "bt_ok (fs_requests s)"
    using grant.prems(1) by (simp add: server_ok_def)
  show ?case
  proof (cases "bt_get (fs_requests s) i")
    case None
    then show ?thesis using grant by (simp add: FloorServer_grant_def decide_def)
  next
    case (Some r)
    then show ?thesis
      using grant decide_requests [OF _ Some, of RS_Granted None s' ns] holder_None [OF ok] ok
      by (auto simp: FloorServer_grant_def one_holder_def split: if_splits)
  qed
qed

interpretation owned_floor: transition_system "\<lambda>s. \<exists>c f t. s = FloorServer_new c f t" owner_step
  "\<lambda>s. server_ok s \<and> one_holder s"
proof
  show "server_ok s \<and> one_holder s" if "\<exists>c f t. s = FloorServer_new c f t" for s
    using that FloorServer_new_ok by (auto simp: one_holder_def FloorServer_new_def)
qed (auto intro: floor_step_ok owner_step_floor_step owner_step_one_holder)

section \<open>Properties\<close>

text \<open>
  C27. Whatever users, clients and owner do, the server's requests stay under their own non-zero ids,
  each the only request of a user the server knows, each pending or granted.
\<close>

theorem floor_server_invariant:
  assumes "floor_step\<^sup>*\<^sup>* (FloorServer_new c f t) s"
  shows "server_ok s"
  using floor_server.reachable_inv assms by blast

text \<open>A client asks for the floor over TCP: conference 1, transaction 7, user 9, floor 3.\<close>

definition sample_request :: bytes where
  "sample_request = [0x20, 1, 0, 1, 0, 0, 0, 1, 0, 7, 0, 9, 5, 4, 0, 3]"

definition sample_server :: FloorServer where
  "sample_server = FloorServer_add_user (FloorServer_new 1 3 Reliable) 9 None None"

definition sample_pending :: FloorServer where
  "sample_pending = sample_server\<lparr>fs_requests := [(1, \<lparr>req_id = 1, req_user_id = 9,
     req_status = RS_Pending, req_priority = PR_Normal, req_info = None\<rparr>)], fs_next_request_id := 2\<rparr>"

lemma sample_parse:
  "Message_parse sample_request = Inr \<lparr>msg_version = 1, msg_responder = False,
     msg_primitive = P_FloorRequest, msg_conference_id = 1, msg_transaction_id = 7, msg_user_id = 9,
     msg_attributes = [A_FloorId 3]\<rparr>"
  unfolding sample_request_def by code_simp

lemma sample_handle: "\<exists>h. FloorServer_handle sample_server sample_request = Some (sample_pending, h)"
  by (simp add: FloorServer_handle_def sample_parse sample_server_def sample_pending_def
      FloorServer_add_user_def FloorServer_new_def handle_message_def handle_floor_request_def
      VERSION_RELIABLE_def Let_def bt_contains_def Message_floor_ids_def List.map_filter_def
      Message_beneficiary_id_def bt_values_def Message_priority_def Priority_default_def
      Message_participant_provided_info_def fresh_request_id.simps next_id_def max_def
      word_le_nat_alt)

lemma sample_run: "floor_step\<^sup>*\<^sup>* (FloorServer_new 1 3 Reliable) sample_pending"
proof -
  have "floor_step (FloorServer_new 1 3 Reliable) sample_server"
    unfolding sample_server_def by (intro floor_step.client client_step.add_user)
  moreover have "floor_step sample_server sample_pending"
    using sample_handle by (blast intro: floor_step.client client_step.handle)
  ultimately show ?thesis
    by (meson converse_rtranclp_into_rtranclp rtranclp.rtrancl_refl)
qed

theorem floor_server_invariant_witness: "server_ok sample_pending"
  using floor_server_invariant [OF sample_run] .

text \<open>
  C4. An owner that grants only while \<^verbatim>\<open>holder\<close> reports nobody never has two requests granted, and
  \<^verbatim>\<open>holder\<close> is the granted request.
\<close>

theorem floor_exclusive:
  assumes "owner_step\<^sup>*\<^sup>* (FloorServer_new c f t) s"
    and "bt_get (fs_requests s) i = Some r" "req_status r = RS_Granted"
  shows "FloorServer_holder s = Some (req_user_id r, i) \<and>
    (\<forall>j q. bt_get (fs_requests s) j = Some q \<and> j \<noteq> i \<longrightarrow> req_status q = RS_Pending)"
proof -
  have s: "server_ok s" "one_holder s"
    using owned_floor.reachable_inv assms(1) by blast+
  then have ok: "bt_ok (fs_requests s)" "requests_ok (fs_users s) (fs_requests s)"
    by (simp_all add: server_ok_def)
  have unique: "j = i" if "bt_get (fs_requests s) j = Some q" "req_status q = RS_Granted" for j q
    using s(2) that assms(2,3) by (auto simp: one_holder_def)
  obtain q where q: "find (\<lambda>r. req_status r = RS_Granted) (bt_values (fs_requests s)) = Some q"
    using holder_None [OF ok(1)] assms(2,3) by (auto simp: FloorServer_holder_def)
  then obtain j where j: "bt_get (fs_requests s) j = Some q" "req_status q = RS_Granted"
    using find_SomeD [OF q] by (auto simp: bt_values_set [OF ok(1)])
  then have "j = i" "q = r"
    using unique assms(2) by auto
  then show ?thesis
    using q unique requests_okD(1) [OF ok(2) assms(2)] requests_okD(4) [OF ok(2)]
    by (auto simp: FloorServer_holder_def)
qed

definition sample_granted :: FloorServer where
  "sample_granted = fst (FloorServer_grant sample_pending 1)"

lemma sample_owned: "owner_step\<^sup>*\<^sup>* (FloorServer_new 1 3 Reliable) sample_granted"
proof -
  have "owner_step (FloorServer_new 1 3 Reliable) sample_server"
    unfolding sample_server_def by (intro owner_step.client client_step.add_user)
  moreover have "owner_step sample_server sample_pending"
    using sample_handle by (blast intro: owner_step.client client_step.handle)
  moreover have "FloorServer_holder sample_pending = None"
    by (simp add: FloorServer_holder_def sample_pending_def bt_values_def)
  then have "owner_step sample_pending sample_granted"
    by (rule owner_step.grant) (simp add: sample_granted_def prod_eq_iff)
  ultimately show ?thesis
    by (meson converse_rtranclp_into_rtranclp rtranclp.rtrancl_refl)
qed

lemma sample_granted_request:
  "bt_get (fs_requests sample_granted) 1 = Some \<lparr>req_id = 1, req_user_id = 9,
     req_status = RS_Granted, req_priority = PR_Normal, req_info = None\<rparr>"
  by code_simp

theorem floor_exclusive_witness: "FloorServer_holder sample_granted = Some (9, 1)"
  using floor_exclusive [OF sample_owned sample_granted_request] by simp

text \<open>
  While some request id is free, the handler returns for every byte string a client sends; the
  search for an id ends.
\<close>

theorem floor_handle_returns:
  assumes "server_ok s" "length (fs_requests s) < 65535"
  shows "\<exists>s' h. FloorServer_handle s d = Some (s', h)"
proof -
  obtain j where "j \<noteq> 0" "bt_get (fs_requests s) j = None"
    using free_id_exists assms by (auto simp: server_ok_def)
  then obtain k n where "fresh_request_id (fs_requests s) (fs_next_request_id s) = Some (k, n)"
    using fresh_request_id_returns assms(1) by (metis server_ok_def)
  then have "\<exists>s' h. handle_floor_request s m = Some (s', h)" for m
    by (auto simp: handle_floor_request_def Let_def)
  then have "\<exists>s' h. handle_message s m = Some (s', h)" for m
    by (auto simp: handle_message_def Let_def split: Primitive.splits prod.splits)
  then show ?thesis
    by (auto simp: FloorServer_handle_def Let_def split: sum.splits option.splits)
qed

theorem floor_handle_returns_witness:
  "\<exists>s' h. FloorServer_handle sample_pending [0x20, 11] = Some (s', h)"
proof -
  have "server_ok sample_pending"
    using floor_server.reachable_inv sample_run by blast
  then show ?thesis
    using floor_handle_returns [of sample_pending "[0x20, 11]"] by (simp add: sample_pending_def)
qed

text \<open>What the message builders put in the header.\<close>

lemma message_fields [simp]:
  "msg_primitive (Message_response e p) = p"
  "msg_responder (Message_response e p) = (echo_version e = VERSION_UNRELIABLE)"
  "Message_echo (Message_response e p) = e"
  "msg_primitive (Message_with m a) = msg_primitive m"
  "msg_responder (Message_with m a) = msg_responder m"
  "Message_echo (Message_with m a) = Message_echo m"
  "Message_echo (m\<lparr>msg_attributes := as\<rparr>) = Message_echo m"
  "Message_echo (m\<lparr>msg_responder := b\<rparr>) = Message_echo m"
  by (simp_all add: Message_response_def Message_with_def Message_echo_def)

lemma error_fields [simp]:
  "msg_primitive (Message_error e c i) = P_Error"
  "msg_responder (Message_error e c i) = (echo_version e = VERSION_UNRELIABLE)"
  "Message_echo (Message_error e c i) = e"
  by (simp_all add: Message_error_def Let_def split: option.splits)

lemma status_fields [simp]:
  "msg_primitive (request_status s e r i) = P_FloorRequestStatus"
  "\<not> msg_responder (request_status s e r i)"
  "Message_echo (request_status s e r i) = e"
  "msg_primitive (floor_status s e) = P_FloorStatus"
  "msg_responder (floor_status s e) = (echo_version e = VERSION_UNRELIABLE)"
  "Message_echo (floor_status s e) = e"
  by (simp_all add: request_status_def floor_status_def Let_def)

lemma set_details_fields [simp]:
  "msg_primitive (set_details ds m) = msg_primitive m"
  "msg_responder (set_details ds m) = msg_responder m"
  "Message_echo (set_details ds m) = Message_echo m"
  by (simp_all add: set_details_def split: list.splits Attribute.splits)

lemma Handled_default_fields [simp]:
  "reply Handled_default = None" "notifications Handled_default = []" "events Handled_default = []"
  by (simp_all add: Handled_default_def)

lemma refuse_fields [simp]:
  "reply (refuse e c i) = Some (Message_error e c (Some (str i)))"
  "notifications (refuse e c i) = []" "events (refuse e c i) = []"
  by (simp_all add: refuse_def)

lemmas handlers = handle_floor_request_def handle_floor_release_def handle_floor_request_query_def
  handle_floor_query_def handle_user_query_def

text \<open>
  C39. A refused message changes nothing: when the answer is an \<^verbatim>\<open>Error\<close>, the server is as it was, no
  notification goes out and the owner hears of no event.
\<close>

theorem floor_refusal_changes_nothing:
  assumes "FloorServer_handle s d = Some (s', h)" "reply h = Some r" "msg_primitive r = P_Error"
  shows "s' = s \<and> notifications h = [] \<and> events h = []"
proof (cases "Message_parse d")
  case (Inl e)
  then show ?thesis
    using assms(1) by (auto simp: FloorServer_handle_def Let_def split: option.splits)
next
  case (Inr m)
  then have "handle_message s m = Some (s', h)"
    using assms(1) by (simp add: FloorServer_handle_def)
  then show ?thesis
    using assms(2,3)
    by (auto simp: handle_message_def handlers Let_def
        split: if_splits Primitive.splits prod.splits option.splits)
qed

theorem floor_refusal_changes_nothing_witness:
  "\<exists>h. FloorServer_handle sample_pending sample_request = Some (sample_pending, h) \<and> events h = []"
proof -
  have user: "bt_contains (fs_users sample_pending) 9" "fs_transport sample_pending = Reliable"
    "fs_conference_id sample_pending = 1" "fs_floor_id sample_pending = 3"
    "list_ex (\<lambda>r. req_user_id r = 9) (bt_values (fs_requests sample_pending))"
    by (simp_all add: sample_pending_def sample_server_def FloorServer_add_user_def FloorServer_new_def
        bt_contains_def bt_values_def)
  then obtain s' h r where h: "FloorServer_handle sample_pending sample_request = Some (s', h)"
    "reply h = Some r" "msg_primitive r = P_Error"
    by (simp add: FloorServer_handle_def sample_parse handle_message_def handle_floor_request_def
        VERSION_RELIABLE_def Let_def Message_floor_ids_def List.map_filter_def Message_beneficiary_id_def)
  then show ?thesis
    using floor_refusal_changes_nothing [OF h] by simp
qed

text \<open>
  Every answer is addressed: it carries the version, conference, transaction and user of the
  message it answers, and a message too short to have them is not answered.
\<close>

theorem floor_reply_addressed:
  assumes "FloorServer_handle s d = Some (s', h)" "reply h = Some r"
  shows "12 \<le> length d \<and> Message_echo r =
    \<lparr>echo_version = drop_bit 5 (d ! 0), echo_conference_id = be32 (d ! 4) (d ! 5) (d ! 6) (d ! 7),
     echo_transaction_id = be16 (d ! 8) (d ! 9), echo_user_id = be16 (d ! 10) (d ! 11)\<rparr>"
proof (cases "Message_parse d")
  case (Inl e)
  then obtain echo where "err_echo e = Some echo" "Message_echo r = echo"
    using assms by (auto simp: FloorServer_handle_def Let_def split: option.splits)
  then show ?thesis
    using parse_error_echo [OF Inl] by (auto split: if_splits)
next
  case (Inr m)
  then have "handle_message s m = Some (s', h)"
    using assms(1) by (simp add: FloorServer_handle_def)
  then have "Message_echo r = Message_echo m"
    using assms(2)
    by (auto simp: handle_message_def handlers Let_def
        split: if_splits Primitive.splits prod.splits option.splits)
  then show ?thesis
    using parse_echo [OF Inr] by simp
qed

theorem floor_reply_addressed_witness:
  "\<exists>s' h r. FloorServer_handle sample_server [0x20, 99, 0, 0, 0, 0, 0, 1, 0, 7, 0, 9] = Some (s', h) \<and>
     reply h = Some r \<and> msg_transaction_id r = 7"
proof -
  let ?d = "[0x20, 99, 0, 0, 0, 0, 0, 1, 0, 7, 0, 9] :: bytes"
  obtain s' h r where h: "FloorServer_handle sample_server ?d = Some (s', h)" "reply h = Some r"
    by (simp add: FloorServer_handle_def Message_parse_def Message_parse_prefix_def Header_parse_def
        COMMON_HEADER_LEN_def Primitive_from_u8_def Primitive_ALL_def Let_def ParseError_new_def)
  then show ?thesis
    using floor_reply_addressed [OF h] by (simp add: Message_echo_def be16_def)
qed

text \<open>
  Over an unreliable transport an answer carries the responder flag, except a
  \<^verbatim>\<open>FloorRequestStatus\<close>, which never does, in the client's own transaction too.
\<close>

theorem floor_reply_responder:
  assumes "handle_message s m = Some (s', h)" "reply h = Some r"
  shows "msg_responder r \<longleftrightarrow> msg_version m = VERSION_UNRELIABLE \<and> msg_primitive r \<noteq> P_FloorRequestStatus"
  using assms
  by (auto simp: handle_message_def handlers Let_def Message_echo_def
      split: if_splits Primitive.splits prod.splits option.splits)

theorem floor_reply_responder_witness:
  "\<exists>s' h r. handle_message (FloorServer_add_user (FloorServer_new 1 3 Unreliable) 9 None None)
       \<lparr>msg_version = 2, msg_responder = False, msg_primitive = P_FloorRequest, msg_conference_id = 1,
        msg_transaction_id = 7, msg_user_id = 9, msg_attributes = [A_FloorId 3]\<rparr> = Some (s', h) \<and>
     reply h = Some r \<and> msg_transaction_id r = 7 \<and> \<not> msg_responder r"
proof -
  let ?s = "FloorServer_add_user (FloorServer_new 1 3 Unreliable) 9 None None"
  let ?m = "\<lparr>msg_version = 2, msg_responder = False, msg_primitive = P_FloorRequest, msg_conference_id = 1,
        msg_transaction_id = 7, msg_user_id = 9, msg_attributes = [A_FloorId 3]\<rparr>"
  obtain s' h r where h: "handle_message ?s ?m = Some (s', h)" "reply h = Some r"
    "msg_primitive r = P_FloorRequestStatus" "msg_transaction_id r = 7"
    by (simp add: FloorServer_add_user_def FloorServer_new_def handle_message_def handle_floor_request_def
      VERSION_UNRELIABLE_def Let_def bt_contains_def Message_floor_ids_def List.map_filter_def
      Message_beneficiary_id_def bt_values_def fresh_request_id.simps request_status_def Message_with_def
      Message_response_def Message_echo_def)
  then show ?thesis
    using floor_reply_responder [OF h(1,2)] by simp
qed

subsection \<open>Decisions\<close>

text \<open>The transaction ids of the next \<open>n\<close> notifications.\<close>

primrec transaction_ids :: "Transport \<Rightarrow> u16 \<Rightarrow> nat \<Rightarrow> u16 list" where
  "transaction_ids tr t 0 = []"
| "transaction_ids tr t (Suc n) =
     (case tr of
        Reliable \<Rightarrow> 0 # transaction_ids tr t n
      | Unreliable \<Rightarrow> t # transaction_ids tr (next_id t) n)"

definition echo_to :: "FloorServer \<Rightarrow> u16 \<Rightarrow> u16 \<Rightarrow> Echo" where
  "echo_to s u t = \<lparr>echo_version = Transport_version (fs_transport s),
     echo_conference_id = fs_conference_id s, echo_transaction_id = t, echo_user_id = u\<rparr>"

lemma floor_status_to_notifications:
  "floor_status_to us s = (s', ns) \<Longrightarrow>
   map ntf_user_id ns = us \<and>
   map (Message_echo \<circ> ntf_message) ns =
     map2 (echo_to s) us (transaction_ids (fs_transport s) (fs_next_transaction_id s) (length us)) \<and>
   (\<forall>n \<in> set ns. msg_primitive (ntf_message n) = P_FloorStatus \<and> \<not> msg_responder (ntf_message n))"
proof (induction us s arbitrary: s' ns rule: floor_status_to.induct)
  case (2 u us s)
  obtain s1 echo where e: "notification_echo s u = (s1, echo)" by fastforce
  obtain ns' where f: "floor_status_to us s1 = (s', ns')"
    and ns: "ns = \<lparr>ntf_user_id = u, ntf_message = (floor_status s1 echo)\<lparr>msg_responder := False\<rparr>\<rparr> # ns'"
    using "2.prems" e by (auto simp: Let_def split: prod.splits)
  have "echo_to s1 = echo_to s" "fs_transport s1 = fs_transport s"
    using e by (auto simp: notification_echo_def echo_to_def fun_eq_iff split: Transport.splits)
  then show ?case
    using "2.IH" [OF e [symmetric] refl refl f] e
    by (auto simp: ns notification_echo_def echo_to_def split: Transport.splits)
qed simp

lemma unat_next_id_pow:
  assumes "t \<noteq> 0"
  shows "unat ((next_id ^^ k) t) = (unat t - 1 + k) mod 65535 + 1"
proof (induction k)
  case 0
  have "0 < unat t"
    using assms by (simp add: unat_gt_0)
  moreover from this have "(unat t - 1) mod 65535 = unat t - 1"
    using unat_u16_less [of t] by (intro mod_less) linarith
  ultimately show ?case by simp
next
  case (Suc k)
  then show ?case
    by (simp add: unat_next_id mod_Suc)
qed

lemma transaction_ids_nth:
  "k < n \<Longrightarrow> transaction_ids Unreliable t n ! k = (next_id ^^ k) t"
  by (induction n arbitrary: t k) (auto simp: nth_Cons' funpow_swap1 gr0_conv_Suc)

lemma length_transaction_ids [simp]: "length (transaction_ids tr t n) = n"
  by (induction n arbitrary: t) (auto split: Transport.splits)

lemma transaction_ids_distinct:
  assumes "t \<noteq> 0" "n \<le> 65535"
  shows "distinct (transaction_ids Unreliable t n) \<and> 0 \<notin> set (transaction_ids Unreliable t n)"
proof
  have "(next_id ^^ i) t \<noteq> (next_id ^^ j) t" if "i < j" "j < n" for i j
  proof
    assume "(next_id ^^ i) t = (next_id ^^ j) t"
    then have "(unat t - 1 + i) mod 65535 = (unat t - 1 + j) mod 65535"
      using unat_next_id_pow [OF assms(1)] by (metis add_right_cancel)
    then have "65535 dvd j - i"
      using that(1) by (metis add_diff_cancel_left mod_eq_dvd_iff_nat nat_add_left_cancel_le order_less_imp_le)
    then show False
      using that assms(2) by (auto dest: dvd_imp_le)
  qed
  then show "distinct (transaction_ids Unreliable t n)"
    by (simp add: distinct_conv_nth transaction_ids_nth) (metis nat_neq_iff)
  show "0 \<notin> set (transaction_ids Unreliable t n)"
    by (auto simp: in_set_conv_nth transaction_ids_nth) (metis unat_next_id_pow [OF assms(1)] unat_0 add_is_0 zero_neq_one)
qed

lemma reported_request_status: "reported_status (request_status s e r i) = Some (req_id r, req_status r)"
  by (simp add: reported_status_def request_status_def Message_floor_request_information_def Message_with_def
      Message_response_def floor_request_information_def overall_status_def List.map_filter_def)

lemma error_code_of_error: "Message_error_code (Message_error e c i) = Some c"
  by (simp add: Message_error_code_def Message_error_def Message_with_def Message_response_def Let_def
      split: option.splits)

lemma decide_shape:
  assumes "bt_get (fs_requests s) i = Some r" "decide s i st info = (s', ns)"
  shows "\<exists>requests s1 echo ns'.
    notification_echo (s\<lparr>fs_requests := requests\<rparr>) (req_user_id r) = (s1, echo) \<and>
    floor_status_to (subscribers s1) s1 = (s', ns') \<and>
    ns = \<lparr>ntf_user_id = req_user_id r, ntf_message = request_status s1 echo (r\<lparr>req_status := st\<rparr>) info\<rparr> # ns'"
proof -
  let ?q = "if RequestStatus_is_terminal st then bt_remove i (fs_requests s)
    else bt_insert i (r\<lparr>req_status := st\<rparr>) (fs_requests s)"
  obtain s1 echo where e: "notification_echo (s\<lparr>fs_requests := ?q\<rparr>) (req_user_id r) = (s1, echo)"
    by fastforce
  obtain s2 ns' where f: "floor_status_to (subscribers s1) s1 = (s2, ns')"
    by fastforce
  have "decide s i st info = (s2, \<lparr>ntf_user_id = req_user_id r,
      ntf_message = request_status s1 echo (r\<lparr>req_status := st\<rparr>) info\<rparr> # ns')"
    using e f by (simp add: decide_def assms(1) Let_def floor_status_to_subscribers_def split: if_splits)
  then show ?thesis
    using e f assms(2) by (intro exI conjI) auto
qed

lemma decide_notifications:
  assumes "bt_get (fs_requests s) i = Some r" "decide s i st info = (s', ns)"
  shows "map ntf_user_id ns = req_user_id r # subscribers s"
    and "map (Message_echo \<circ> ntf_message) ns = map2 (echo_to s) (req_user_id r # subscribers s)
      (transaction_ids (fs_transport s) (fs_next_transaction_id s) (Suc (length (subscribers s))))"
    and "list_all (\<lambda>n. \<not> msg_responder (ntf_message n)) ns"
    and "reported_status (ntf_message (hd ns)) = Some (req_id r, st)"
proof -
  obtain requests s1 echo ns' where n: "notification_echo (s\<lparr>fs_requests := requests\<rparr>) (req_user_id r) = (s1, echo)"
    "floor_status_to (subscribers s1) s1 = (s', ns')"
    "ns = \<lparr>ntf_user_id = req_user_id r, ntf_message = request_status s1 echo (r\<lparr>req_status := st\<rparr>) info\<rparr> # ns'"
    using decide_shape [OF assms] by blast
  obtain t where t: "s1 = s\<lparr>fs_requests := requests, fs_next_transaction_id := t\<rparr>"
    using n(1) by (rule notification_echo_frame) simp
  have same: "subscribers s1 = subscribers s" "echo_to s1 = echo_to s" "fs_transport s1 = fs_transport s"
    by (simp_all add: t subscribers_def echo_to_def fun_eq_iff)
  note ns' = floor_status_to_notifications [OF n(2), unfolded same]
  have "map2 (echo_to s) (req_user_id r # subscribers s)
      (transaction_ids (fs_transport s) (fs_next_transaction_id s) (Suc (length (subscribers s))))
    = echo # map2 (echo_to s) (subscribers s)
        (transaction_ids (fs_transport s) (fs_next_transaction_id s1) (length (subscribers s)))"
    using n(1) by (auto simp: notification_echo_def echo_to_def split: Transport.splits)
  then show "map (Message_echo \<circ> ntf_message) ns = map2 (echo_to s) (req_user_id r # subscribers s)
      (transaction_ids (fs_transport s) (fs_next_transaction_id s) (Suc (length (subscribers s))))"
    using ns' by (simp add: n(3))
  show "map ntf_user_id ns = req_user_id r # subscribers s"
    and "list_all (\<lambda>n. \<not> msg_responder (ntf_message n)) ns"
    and "reported_status (ntf_message (hd ns)) = Some (req_id r, st)"
    using ns' by (simp_all add: n(3) list_all_iff reported_request_status)
qed

lemma map_echo_ids:
  assumes "map (Message_echo \<circ> ntf_message) ns = map2 (echo_to s) us ids" "length us = length ids"
  shows "map (\<lambda>n. msg_transaction_id (ntf_message n)) ns = ids"
    and "map (\<lambda>n. msg_user_id (ntf_message n)) ns = us"
proof -
  have "map (\<lambda>n. msg_transaction_id (ntf_message n)) ns
      = map echo_transaction_id (map (Message_echo \<circ> ntf_message) ns)"
    and "map (\<lambda>n. msg_user_id (ntf_message n)) ns = map echo_user_id (map (Message_echo \<circ> ntf_message) ns)"
    by (simp_all add: Message_echo_def)
  then show "map (\<lambda>n. msg_transaction_id (ntf_message n)) ns = ids"
    and "map (\<lambda>n. msg_user_id (ntf_message n)) ns = us"
    unfolding assms(1) using assms(2)
    by (simp_all add: echo_to_def case_prod_unfold comp_def)
qed

lemma transaction_ids_reliable: "transaction_ids Reliable t n = replicate n 0"
  by (induction n) simp_all

text \<open>
  The owner's decision on a request the server holds: the request takes the new status, or is
  forgotten when that is final; the requester is told first, with that status, and then every
  subscriber, in order; each message is server-initiated, addressed to its user, and over UDP each
  has its own non-zero transaction id, over TCP id 0.
\<close>

theorem floor_decision:
  assumes "server_ok s" "bt_get (fs_requests s) i = Some r" "decide s i st info = (s', ns)"
    and "length (fs_users s) < 65535"
  shows "bt_get (fs_requests s') = (bt_get (fs_requests s))
      (i := if RequestStatus_is_terminal st then None else Some (r\<lparr>req_status := st\<rparr>)) \<and>
    map ntf_user_id ns = req_user_id r # subscribers s \<and>
    reported_status (ntf_message (hd ns)) = Some (i, st) \<and>
    list_all (\<lambda>n. \<not> msg_responder (ntf_message n) \<and> msg_user_id (ntf_message n) = ntf_user_id n) ns \<and>
    (let ids = map (\<lambda>n. msg_transaction_id (ntf_message n)) ns
     in case fs_transport s of
          Reliable \<Rightarrow> ids = replicate (length ns) 0
        | Unreliable \<Rightarrow> distinct (0 # ids))"
proof -
  have ok: "bt_ok (fs_requests s)" "req_id r = i" "fs_next_transaction_id s \<noteq> 0"
    using assms(1) requests_okD(1) [OF _ assms(2)] by (auto simp: server_ok_def)
  note ns = decide_notifications [OF assms(2,3)]
  define n where "n = Suc (length (subscribers s))"
  have "length (subscribers s) \<le> length (fs_users s)"
    by (simp add: subscribers_def)
  then have n: "n \<le> 65535" "length ns = n"
    using assms(4) arg_cong [OF ns(1), of length] by (simp_all add: n_def)
  have ids: "map (\<lambda>n. msg_transaction_id (ntf_message n)) ns =
      transaction_ids (fs_transport s) (fs_next_transaction_id s) n"
    and users: "map (\<lambda>n. msg_user_id (ntf_message n)) ns = map ntf_user_id ns"
    using map_echo_ids [OF ns(2)] ns(1) by (simp_all only: n_def length_transaction_ids length_Cons)
  have "let ids = map (\<lambda>n. msg_transaction_id (ntf_message n)) ns
     in case fs_transport s of
          Reliable \<Rightarrow> ids = replicate (length ns) 0
        | Unreliable \<Rightarrow> distinct (0 # ids)"
    using transaction_ids_distinct [OF ok(3) n(1)]
    by (simp add: ids n(2) transaction_ids_reliable Let_def split: Transport.splits)
  moreover have "bt_get (fs_requests s') = (bt_get (fs_requests s))
      (i := if RequestStatus_is_terminal st then None else Some (r\<lparr>req_status := st\<rparr>))"
    using decide_requests [OF assms(3,2)] ok(1) by simp
  moreover have "list_all (\<lambda>n. msg_user_id (ntf_message n) = ntf_user_id n) ns"
    using users by (simp add: list_all_iff)
  then have "list_all (\<lambda>n. \<not> msg_responder (ntf_message n) \<and> msg_user_id (ntf_message n) = ntf_user_id n) ns"
    using ns(3) by (simp add: list_all_iff)
  moreover note ns(1) ns(4) [unfolded ok(2)]
  ultimately show ?thesis
    by (intro conjI)
qed

theorem floor_decision_witness:
  "map ntf_user_id (snd (FloorServer_grant sample_pending 1)) = [9]"
proof -
  have ok: "server_ok sample_pending"
    using floor_server.reachable_inv sample_run by blast
  have r: "bt_get (fs_requests sample_pending) 1 = Some \<lparr>req_id = 1, req_user_id = 9,
      req_status = RS_Pending, req_priority = PR_Normal, req_info = None\<rparr>"
    by (simp add: sample_pending_def bt_get_def)
  have "length (fs_users sample_pending) < 65535" "subscribers sample_pending = []"
    by (simp_all add: sample_pending_def sample_server_def FloorServer_add_user_def FloorServer_new_def
        subscribers_def)
  then show ?thesis
    using floor_decision [OF ok r, of RS_Granted None] by (simp add: FloorServer_grant_def prod_eq_iff)
qed

text \<open>
  A user's request for the server's floor, when the user has none: it becomes pending under an id
  nobody uses, the user is answered with that id and status, and the owner hears of it. Every other
  \<^verbatim>\<open>FloorRequest\<close> is refused with the code of the first check it fails.
\<close>

theorem floor_request_outcome:
  assumes "server_ok s" "length (fs_requests s) < 65535"
    and "msg_version m = Transport_version (fs_transport s)" "msg_conference_id m = fs_conference_id s"
    and "msg_primitive m = P_FloorRequest" "bt_contains (fs_users s) (msg_user_id m)"
  shows "\<exists>s' h a. handle_message s m = Some (s', h) \<and> reply h = Some a \<and>
    (if Message_floor_ids m = [] \<or> (\<exists>f \<in> set (Message_floor_ids m). f \<noteq> fs_floor_id s)
     then s' = s \<and> Message_error_code a = Some EC_InvalidFloorId
     else if Message_beneficiary_id m \<notin> {None, Some (msg_user_id m)}
     then s' = s \<and> Message_error_code a = Some EC_UnauthorizedOperation
     else if \<exists>i r. bt_get (fs_requests s) i = Some r \<and> req_user_id r = msg_user_id m
     then s' = s \<and> Message_error_code a = Some EC_MaximumFloorRequestsReached
     else \<exists>i. bt_get (fs_requests s) i = None \<and> i \<noteq> 0 \<and>
       bt_get (fs_requests s') = (bt_get (fs_requests s))
         (i \<mapsto> \<lparr>req_id = i, req_user_id = msg_user_id m, req_status = RS_Pending,
               req_priority = Message_priority m, req_info = Message_participant_provided_info m\<rparr>) \<and>
       reported_status a = Some (i, RS_Pending) \<and>
       events h = [Ev_Requested (msg_user_id m) i (Message_priority m) (Message_participant_provided_info m)])"
proof -
  have ok: "bt_ok (fs_requests s)" "fs_next_request_id s \<noteq> 0"
    using assms(1) by (simp_all add: server_ok_def)
  obtain j where "j \<noteq> 0" "bt_get (fs_requests s) j = None"
    using free_id_exists [OF ok(1) assms(2)] by blast
  then obtain i n where f: "fresh_request_id (fs_requests s) (fs_next_request_id s) = Some (i, n)"
    using fresh_request_id_returns [OF ok(2)] by blast
  note i = fresh_request_id_Some [OF f]
  have ids: "list_ex (\<lambda>f. f \<noteq> fs_floor_id s) (Message_floor_ids m) \<longleftrightarrow>
      (\<exists>f \<in> set (Message_floor_ids m). f \<noteq> fs_floor_id s)"
    by (simp add: list_ex_iff)
  have ben: "(case Message_beneficiary_id m of None \<Rightarrow> False | Some b \<Rightarrow> b \<noteq> msg_user_id m) \<longleftrightarrow>
      Message_beneficiary_id m \<notin> {None, Some (msg_user_id m)}"
    by (simp split: option.splits)
  have own: "list_ex (\<lambda>r. req_user_id r = msg_user_id m) (bt_values (fs_requests s)) \<longleftrightarrow>
      (\<exists>i r. bt_get (fs_requests s) i = Some r \<and> req_user_id r = msg_user_id m)"
    by (auto simp: list_ex_iff bt_values_set [OF ok(1)])
  have "handle_message s m = handle_floor_request s m"
    using assms(3-6) by (simp add: handle_message_def)
  then show ?thesis
    using i ok
    by (auto simp: handle_floor_request_def Let_def ids ben own f error_code_of_error reported_request_status)
qed

theorem floor_request_outcome_witness:
  "\<exists>s' h a. handle_message sample_pending \<lparr>msg_version = 1, msg_responder = False,
     msg_primitive = P_FloorRequest, msg_conference_id = 1, msg_transaction_id = 8, msg_user_id = 9,
     msg_attributes = [A_FloorId 3]\<rparr> = Some (s', h) \<and> reply h = Some a \<and> s' = sample_pending \<and>
     Message_error_code a = Some EC_MaximumFloorRequestsReached"
proof -
  let ?m = "\<lparr>msg_version = 1, msg_responder = False,
     msg_primitive = P_FloorRequest, msg_conference_id = 1, msg_transaction_id = 8, msg_user_id = 9,
     msg_attributes = [A_FloorId 3]\<rparr>"
  have ok: "server_ok sample_pending"
    using floor_server.reachable_inv sample_run by blast
  have "bt_get (fs_requests sample_pending) 1 = Some \<lparr>req_id = 1, req_user_id = 9,
      req_status = RS_Pending, req_priority = PR_Normal, req_info = None\<rparr>"
    by (simp add: sample_pending_def bt_get_def)
  then have "\<exists>i r. bt_get (fs_requests sample_pending) i = Some r \<and> req_user_id r = 9"
    by (intro exI) auto
  moreover have "length (fs_requests sample_pending) < 65535" "fs_transport sample_pending = Reliable"
    "fs_conference_id sample_pending = 1" "fs_floor_id sample_pending = 3"
    "bt_contains (fs_users sample_pending) 9" "Message_floor_ids ?m = [3]" "Message_beneficiary_id ?m = None"
    by (simp_all add: sample_pending_def sample_server_def FloorServer_add_user_def FloorServer_new_def
        bt_contains_def Message_floor_ids_def List.map_filter_def Message_beneficiary_id_def)
  ultimately show ?thesis
    using floor_request_outcome [OF ok, of ?m] by (simp add: VERSION_RELIABLE_def)
qed

text \<open>
  An answer the server builds may not fit the wire: a floor request with a long
  \<^verbatim>\<open>PARTICIPANT-PROVIDED-INFO\<close>, itself a message that can be written, is accepted, and the
  \<^verbatim>\<open>FLOOR-REQUEST-INFORMATION\<close> of the answer, which repeats the text, is too long for its length field.
\<close>

theorem floor_reply_not_writable:
  "\<exists>m d s' h a. Message_to_bytes m = Inr d \<and> FloorServer_handle sample_server d = Some (s', h) \<and>
     reply h = Some a \<and> msg_primitive a = P_FloorRequestStatus \<and>
     Message_to_bytes a = Inl (EE_AttributeTooLong 15)"
proof -
  have "valid_utf8 (replicate n 0x61)" for n
    by (induction n) (simp_all add: valid_utf8_Cons utf8_seq_def)
  then obtain info :: bytes where info: "length info = 240" "valid_utf8 info"
    by (meson length_replicate)
  let ?m = "\<lparr>msg_version = 1, msg_responder = False, msg_primitive = P_FloorRequest,
     msg_conference_id = 1, msg_transaction_id = 7, msg_user_id = 9,
     msg_attributes = [A_FloorId 3, A_ParticipantProvidedInfo info]\<rparr>"
  have wf: "message_wf ?m"
    using info by (simp add: message_wf_def)
  moreover have "length (payload_of ?m) \<le> MAX_PAYLOAD_LEN"
    using info(1) by (simp add: payload_of_def MAX_PAYLOAD_LEN_def round_up4_def)
  ultimately obtain d where d: "Message_to_bytes ?m = Inr d"
    by (auto simp: Message_to_bytes_fits message_wf_def)
  have "Message_parse d = Inr ?m"
    using Message_parse_prefix_to_bytes [OF wf d, of "[]"] by (simp add: Message_parse_def)
  then obtain s' h a where a: "FloorServer_handle sample_server d = Some (s', h)" "reply h = Some a"
    "msg_primitive a = P_FloorRequestStatus" "msg_attributes a = [A_FloorRequestInformation 1
       [A_OverallRequestStatus 1 [A_RequestStatus RS_Pending 0],
        A_FloorRequestStatus 3 [A_RequestStatus RS_Pending 0],
        A_BeneficiaryInformation 9 [], A_Priority PR_Normal, A_ParticipantProvidedInfo info]]"
    by (simp add: FloorServer_handle_def sample_server_def
      FloorServer_add_user_def FloorServer_new_def handle_message_def handle_floor_request_def
      VERSION_RELIABLE_def Let_def bt_contains_def Message_floor_ids_def List.map_filter_def
      Message_beneficiary_id_def bt_values_def Message_priority_def Priority_default_def
      Message_participant_provided_info_def fresh_request_id.simps request_status_def
      floor_request_information_def Message_with_def Message_response_def beneficiary_information_def
      bt_get_def)
  have "Message_to_bytes a = Inl (EE_AttributeTooLong 15)"
    using info(1) by (simp add: Message_to_bytes_def a(4) round_up4_def)
  with d a show ?thesis
    by blast
qed

end
