(* ===== verification/Bfcp_Transport.thy ===== *)
theory Bfcp_Transport
  imports Bfcp_Message
begin

text \<open>
  The bookkeeping of the two BFCP transports, \<^verbatim>\<open>crates/forge-bfcp/src/transport.rs\<close>: cutting messages
  out of a TCP stream, and one UDP client's transactions, with the replay of cached responses and
  the retransmission of one outstanding server-initiated message at a time. Instants and durations
  are in nanoseconds; an instant does not overflow here.
\<close>

section \<open>TCP framing\<close>

record TcpFramer =
  framer_buf :: bytes

definition TcpFramer_new :: TcpFramer where
  "TcpFramer_new = \<lparr>framer_buf = []\<rparr>"

definition TcpFramer_push :: "TcpFramer \<Rightarrow> bytes \<Rightarrow> TcpFramer" where
  "TcpFramer_push f d = f\<lparr>framer_buf := framer_buf f @ d\<rparr>"

definition TcpFramer_next_message :: "TcpFramer \<Rightarrow> TcpFramer \<times> (ParseError + Message option)" where
  "TcpFramer_next_message f =
     (let buf = framer_buf f
      in if length buf < COMMON_HEADER_LEN then (f, Inr None)
         else (case Header_parse buf of
                 Inl e \<Rightarrow>
                   (case err_kind e of
                      PE_UnknownPrimitive _ \<Rightarrow>
                        let total = COMMON_HEADER_LEN + unat (be16 (buf ! 2) (buf ! 3)) * 4
                        in if length buf < total then (f, Inr None)
                           else (f\<lparr>framer_buf := drop total buf\<rparr>, Inl e)
                    | _ \<Rightarrow> (f, Inl e))
               | Inr header \<Rightarrow>
                   let total = Header_message_len header
                   in if length buf < total then (f, Inr None)
                      else (f\<lparr>framer_buf := drop total buf\<rparr>,
                            map_sum id Some (Message_parse (take total buf)))))"

definition TcpFramer_pending :: "TcpFramer \<Rightarrow> nat" where
  "TcpFramer_pending f = length (framer_buf f)"

section \<open>UDP transactions\<close>

text \<open>Durations, from milliseconds.\<close>

definition from_millis :: "nat \<Rightarrow> duration" where
  "from_millis ms = ms * 1000000"

definition T1 :: duration where
  "T1 = from_millis 500"

definition MAX_RETRANSMITS :: nat where
  "MAX_RETRANSMITS = 3"

definition T2 :: duration where
  "T2 = from_millis 10000"

record Outstanding =
  out_transaction_id :: u16
  out_bytes :: bytes
  sent_at :: instant
  due :: instant
  retransmits :: nat
  interval :: duration

datatype UdpInbound =
    UI_Request | UI_Replay bytes | UI_Acked u16 | UI_Stray | UI_Unreadable

record Tick =
  send :: "bytes list"
  broken :: bool

definition Tick_default :: Tick where
  "Tick_default = \<lparr>send = [], broken = False\<rparr>"

record UdpPeer =
  response :: "(u16 \<times> bytes \<times> instant) option"
  outstanding :: "Outstanding option"
  peer_queue :: "bytes list"
  peer_t1 :: duration

definition UdpPeer_new :: UdpPeer where
  "UdpPeer_new = \<lparr>response = None, outstanding = None, peer_queue = [], peer_t1 = T1\<rparr>"

text \<open>\<open>now - at\<close> on naturals is \<^verbatim>\<open>saturating_duration_since\<close>.\<close>

definition UdpPeer_inbound :: "UdpPeer \<Rightarrow> bytes \<Rightarrow> instant \<Rightarrow> UdpPeer \<times> UdpInbound" where
  "UdpPeer_inbound p d now =
     (case Header_parse d of
        Inl _ \<Rightarrow> (p, UI_Unreadable)
      | Inr header \<Rightarrow>
          if hdr_responder header
          then (case outstanding p of
                  None \<Rightarrow> (p, UI_Stray)
                | Some o' \<Rightarrow>
                    if out_transaction_id o' = hdr_transaction_id header \<and>
                       Primitive_is_ack (hdr_primitive header)
                    then
                      let p' = (if retransmits o' = 0
                                then p\<lparr>peer_t1 := max (now - sent_at o') T1\<rparr> else p)
                      in (p'\<lparr>outstanding := None\<rparr>, UI_Acked (out_transaction_id o'))
                    else (p, UI_Stray))
          else (case response p of
                  None \<Rightarrow> (p, UI_Request)
                | Some (txn, bytes, at) \<Rightarrow>
                    if txn = hdr_transaction_id header \<and> now - at < T2 then (p, UI_Replay bytes)
                    else (p, UI_Request)))"

definition UdpPeer_cache_response :: "UdpPeer \<Rightarrow> u16 \<Rightarrow> bytes \<Rightarrow> instant \<Rightarrow> UdpPeer" where
  "UdpPeer_cache_response p transaction_id bytes now =
     p\<lparr>response := Some (transaction_id, bytes, now)\<rparr>"

definition UdpPeer_start :: "UdpPeer \<Rightarrow> u16 \<Rightarrow> bytes \<Rightarrow> instant \<Rightarrow> UdpPeer \<times> bytes" where
  "UdpPeer_start p transaction_id bytes now =
     (p\<lparr>outstanding := Some \<lparr>out_transaction_id = transaction_id, out_bytes = bytes, sent_at = now,
          due = now + peer_t1 p, retransmits = 0, interval = peer_t1 p\<rparr>\<rparr>, bytes)"

definition UdpPeer_notify :: "UdpPeer \<Rightarrow> Message \<Rightarrow> instant \<Rightarrow> UdpPeer \<times> bytes option" where
  "UdpPeer_notify p message now =
     (case Message_to_bytes message of
        Inl _ \<Rightarrow> (p, None)
      | Inr bytes \<Rightarrow>
          if outstanding p \<noteq> None then (p\<lparr>peer_queue := peer_queue p @ [bytes]\<rparr>, None)
          else
            let (p', sent) = UdpPeer_start p (msg_transaction_id message) bytes now
            in (p', Some sent))"

definition UdpPeer_tick :: "UdpPeer \<Rightarrow> instant \<Rightarrow> UdpPeer \<times> Tick" where
  "UdpPeer_tick p now =
     (let p = (case response p of
                 None \<Rightarrow> p
               | Some (_, _, at) \<Rightarrow> if now - at \<ge> T2 then p\<lparr>response := None\<rparr> else p)
      in case outstanding p of
           Some o' \<Rightarrow>
             if now \<ge> due o'
             then if retransmits o' \<ge> MAX_RETRANSMITS
               then (p\<lparr>outstanding := None, peer_queue := []\<rparr>, Tick_default\<lparr>broken := True\<rparr>)
               else (p\<lparr>outstanding := Some (o'\<lparr>retransmits := retransmits o' + 1,
                        interval := interval o' * 2, due := now + interval o' * 2\<rparr>)\<rparr>,
                     Tick_default\<lparr>send := [out_bytes o']\<rparr>)
             else (p, Tick_default)
         | None \<Rightarrow>
             (case peer_queue p of
                [] \<Rightarrow> (p, Tick_default)
              | next # rest \<Rightarrow>
                  let txn = (case Header_parse next of Inr h \<Rightarrow> hdr_transaction_id h | Inl _ \<Rightarrow> 0);
                      (p', sent) = UdpPeer_start (p\<lparr>peer_queue := rest\<rparr>) txn next now
                  in (p', Tick_default\<lparr>send := [sent]\<rparr>)))"

definition UdpPeer_next_due :: "UdpPeer \<Rightarrow> instant option" where
  "UdpPeer_next_due p = map_option due (outstanding p)"

definition UdpPeer_is_busy :: "UdpPeer \<Rightarrow> bool" where
  "UdpPeer_is_busy p \<longleftrightarrow> outstanding p \<noteq> None"

definition UdpPeer_queued :: "UdpPeer \<Rightarrow> nat" where
  "UdpPeer_queued p = length (peer_queue p)"

section \<open>The stream\<close>

text \<open>
  A reader of the stream: after each read it takes messages until none is whole. It ends because
  every message taken leaves a shorter buffer.
\<close>

lemma next_message_shorter:
  assumes "TcpFramer_next_message f = (f', Inr (Some m))"
  shows "length (framer_buf f') < length (framer_buf f)"
proof -
  have "0 < Header_message_len h" for h
    by (simp add: Header_message_len_def Header_header_len_def COMMON_HEADER_LEN_def)
  moreover have "framer_buf f \<noteq> []"
    using assms by (auto simp: TcpFramer_next_message_def COMMON_HEADER_LEN_def Let_def)
  ultimately show ?thesis
    using assms by (auto simp: TcpFramer_next_message_def Let_def
        split: if_splits sum.splits ParseErrorKind.splits)
qed

function take_messages :: "TcpFramer \<Rightarrow> TcpFramer \<times> Message list" where
  "take_messages f =
     (case TcpFramer_next_message f of
        (f', Inr (Some m)) \<Rightarrow> let (f'', ms) = take_messages f' in (f'', m # ms)
      | _ \<Rightarrow> (f, []))"
  by pat_completeness auto
termination
  by (relation "measure (\<lambda>f. length (framer_buf f))") (auto dest: next_message_shorter [OF sym])

declare take_messages.simps [simp del]

lemma take_messages_None: "TcpFramer_next_message f = (f', Inr None) \<Longrightarrow> take_messages f = (f, [])"
  by (subst take_messages.simps) simp

lemma take_messages_Some:
  "TcpFramer_next_message f = (f', Inr (Some m)) \<Longrightarrow>
   take_messages f = (fst (take_messages f'), m # snd (take_messages f'))"
  by (subst take_messages.simps) (simp add: case_prod_unfold Let_def)

fun read_chunks :: "bytes list \<Rightarrow> TcpFramer \<Rightarrow> TcpFramer \<times> Message list" where
  "read_chunks [] f = (f, [])"
| "read_chunks (c # cs) f =
     (let (f', ms) = take_messages (TcpFramer_push f c);
          (f'', ms') = read_chunks cs f'
      in (f'', ms @ ms'))"

definition wire :: "Message \<Rightarrow> bytes" where
  "wire m = (case Message_to_bytes m of Inr d \<Rightarrow> d | Inl _ \<Rightarrow> [])"

definition writable :: "Message \<Rightarrow> bool" where
  "writable m \<longleftrightarrow> message_wf m \<and> length (payload_of m) \<le> MAX_PAYLOAD_LEN"

lemma wire_to_bytes: "writable m \<Longrightarrow> Message_to_bytes m = Inr (wire m)"
  by (auto simp: wire_def writable_def Message_to_bytes_fits message_wf_def)

lemma wire_length: "writable m \<Longrightarrow> length (wire m) = 12 + length (payload_of m)"
  using Message_to_bytes_fits [of m] by (auto simp: wire_def writable_def message_wf_def)

lemma wire_nonempty: "writable m \<Longrightarrow> wire m \<noteq> []"
  using wire_length [of m] by auto

lemma wire_header:
  assumes "writable m"
  shows "\<exists>h. Header_parse (wire m @ rest) = Inr h \<and> Header_message_len h = length (wire m)"
  using Header_parse_to_bytes [OF _ wire_to_bytes [OF assms], of rest] assms
  by (auto simp: Header_message_len_def Header_header_len_def COMMON_HEADER_LEN_def wire_length
      writable_def message_wf_def)

lemma next_message_whole:
  assumes "writable m" "framer_buf f = wire m @ rest"
  shows "TcpFramer_next_message f = (f\<lparr>framer_buf := rest\<rparr>, Inr (Some m))"
proof -
  obtain h where h: "Header_parse (wire m @ rest) = Inr h" "Header_message_len h = length (wire m)"
    using wire_header [OF assms(1)] by blast
  have "Message_parse (wire m) = Inr m"
    using Message_parse_prefix_to_bytes [OF _ wire_to_bytes [OF assms(1)], of "[]"] assms(1)
    by (simp add: Message_parse_def writable_def)
  then show ?thesis
    using wire_length [OF assms(1)]
    by (simp add: TcpFramer_next_message_def assms(2) h COMMON_HEADER_LEN_def Let_def)
qed

lemma Header_parse_shorter:
  assumes "Header_parse (d @ x) = Inr h" "hdr_fragment h = None" "12 \<le> length d"
  shows "Header_parse d = Inr h"
proof -
  have "(d @ x) ! i = d ! i" if "i < 12" for i
    using that assms(3) by (simp add: nth_append)
  then show ?thesis
    using assms
    by (auto simp: Header_parse_def COMMON_HEADER_LEN_def Let_def split: if_splits option.splits)
qed

lemma next_message_partial:
  assumes "writable m" "wire m = framer_buf f @ x" "x \<noteq> []"
  shows "TcpFramer_next_message f = (f, Inr None)"
proof (cases "length (framer_buf f) < 12")
  case True
  then show ?thesis by (simp add: TcpFramer_next_message_def COMMON_HEADER_LEN_def)
next
  case False
  have "Header_parse (wire m) = Inr \<lparr>hdr_version = msg_version m, hdr_responder = msg_responder m,
      hdr_fragment = None, hdr_primitive = msg_primitive m, hdr_conference_id = msg_conference_id m,
      hdr_transaction_id = msg_transaction_id m, hdr_user_id = msg_user_id m,
      hdr_payload_len = length (payload_of m)\<rparr>" (is "_ = Inr ?h")
    using Header_parse_to_bytes [OF _ wire_to_bytes [OF assms(1)], of "[]"] assms(1)
    by (simp add: writable_def message_wf_def)
  then have "Header_parse (framer_buf f @ x) = Inr ?h"
    by (simp only: assms(2))
  then have "Header_parse (framer_buf f) = Inr ?h"
    by (rule Header_parse_shorter) (use False in simp_all)
  moreover have "length (framer_buf f) < 12 + length (payload_of m)"
    using arg_cong [OF assms(2), of length] wire_length [OF assms(1)] assms(3) by simp
  ultimately show ?thesis
    using False by (simp add: TcpFramer_next_message_def COMMON_HEADER_LEN_def Header_message_len_def
        Header_header_len_def Let_def)
qed

text \<open>What is left in the buffer after a read is a proper beginning of the messages still to come.\<close>

lemma prefix_split:
  assumes "a @ x = b @ y" "length b \<le> length a"
  shows "a = b @ drop (length b) a" "drop (length b) a @ x = y"
  using assms by (metis append_eq_append_conv_if append_take_drop_id)+

lemma take_messages_stream:
  assumes "list_all writable ms" "framer_buf f @ x = concat (map wire ms)"
  shows "\<exists>f' ms1 ms2. take_messages f = (f', ms1) \<and> ms = ms1 @ ms2 \<and>
    framer_buf f' @ x = concat (map wire ms2) \<and> (x = [] \<longrightarrow> ms2 = [])"
  using assms
proof (induction ms arbitrary: f)
  case Nil
  then have "TcpFramer_next_message f = (f, Inr None)"
    by (simp add: TcpFramer_next_message_def COMMON_HEADER_LEN_def)
  then show ?case
    using Nil by (simp add: take_messages_None)
next
  case (Cons m ms)
  have m: "writable m" and ms: "list_all writable ms"
    using Cons.prems(1) by auto
  have eq: "framer_buf f @ x = wire m @ concat (map wire ms)"
    using Cons.prems(2) by simp
  show ?case
  proof (cases "length (wire m) \<le> length (framer_buf f)")
    case True
    define rest where "rest = drop (length (wire m)) (framer_buf f)"
    have rest: "framer_buf f = wire m @ rest" "rest @ x = concat (map wire ms)"
      unfolding rest_def by (rule prefix_split [OF eq True])+
    obtain f' ms1 ms2 where IH: "take_messages (f\<lparr>framer_buf := rest\<rparr>) = (f', ms1)"
      "ms = ms1 @ ms2" "framer_buf f' @ x = concat (map wire ms2)" "x = [] \<longrightarrow> ms2 = []"
      using Cons.IH [OF ms, of "f\<lparr>framer_buf := rest\<rparr>"] rest(2) by auto
    then have "take_messages f = (f', m # ms1)"
      using next_message_whole [OF m rest(1)] by (simp add: take_messages_Some)
    then show ?thesis
      using IH by (intro exI [of _ f'] exI [of _ "m # ms1"] exI [of _ ms2]) simp
  next
    case False
    define y where "y = drop (length (framer_buf f)) (wire m)"
    have y: "wire m = framer_buf f @ y" "y \<noteq> []"
      using False prefix_split(1) [OF eq [symmetric], folded y_def] by (auto simp: y_def)
    have "take_messages f = (f, [])"
      using next_message_partial [OF m y] by (rule take_messages_None)
    moreover have "x \<noteq> []"
      using y(2) eq [unfolded y(1)] by auto
    ultimately show ?thesis
      using Cons.prems(2) by (intro exI [of _ f] exI [of _ "[]"] exI [of _ "m # ms"]) simp
  qed
qed

text \<open>
  C33. However TCP cuts the stream of a peer's messages into reads, the framer gives back exactly the
  messages, in order, and keeps no byte.
\<close>

theorem tcp_framer_stream:
  assumes "list_all writable ms" "concat chunks = concat (map wire ms)"
  shows "read_chunks chunks TcpFramer_new = (TcpFramer_new, ms)"
proof -
  have "read_chunks cs f = (TcpFramer_new, ms)"
    if "list_all writable ms" "framer_buf f @ concat cs = concat (map wire ms)"
      "cs = [] \<longrightarrow> framer_buf f = []" for cs f ms
    using that
  proof (induction cs arbitrary: f ms)
    case Nil
    then have "concat (map wire ms) = []"
      by simp
    then have "ms = []"
      using Nil.prems(1) wire_nonempty by (cases ms) auto
    then show ?case
      using Nil by (simp add: TcpFramer_new_def)
  next
    case (Cons c cs)
    have "framer_buf (TcpFramer_push f c) @ concat cs = concat (map wire ms)"
      using Cons.prems(2) by (simp add: TcpFramer_push_def)
    then obtain f' ms1 ms2 where t: "take_messages (TcpFramer_push f c) = (f', ms1)" "ms = ms1 @ ms2"
      "framer_buf f' @ concat cs = concat (map wire ms2)" "concat cs = [] \<longrightarrow> ms2 = []"
      using take_messages_stream [OF Cons.prems(1)] by blast
    then have "read_chunks cs f' = (TcpFramer_new, ms2)"
      using Cons.prems(1) by (intro Cons.IH) auto
    then show ?case
      using t by simp
  qed
  then show ?thesis
    using assms by (simp add: TcpFramer_new_def)
qed

theorem tcp_framer_stream_witness:
  "read_chunks [[0x20, 11, 0, 0, 0], [0, 0, 1, 0, 7, 0, 9, 0x20], [16, 0, 0, 0, 0, 0, 1, 0, 8, 0, 9]]
       TcpFramer_new =
     (TcpFramer_new,
      [Message_new 1 P_Hello 1 7 9, Message_new 1 P_Goodbye 1 8 9])"
proof (rule tcp_framer_stream)
  show "list_all writable [Message_new 1 P_Hello 1 7 9, Message_new 1 P_Goodbye 1 8 9]"
    by (simp add: writable_def message_wf_def Message_new_def payload_of_def)
  show "concat [[0x20, 11, 0, 0, 0], [0, 0, 1, 0, 7, 0, 9, 0x20], [16, 0, 0, 0, 0, 0, 1, 0, 8, 0, 9]]
    = concat (map wire [Message_new 1 P_Hello 1 7 9, Message_new 1 P_Goodbye 1 8 9])"
    by (simp add: wire_def Message_to_bytes_def Message_new_def to_be16_def to_be32_def
        MAX_PAYLOAD_LEN_def push_bit_eq_mult)
qed

text \<open>
  Around the F flag the framer breaks its promises: the first twelve octets of a fragment are an
  error, not a message still arriving, until the rest of its header is there; and a fragment of
  unknown primitive leaves its four fragment octets in the stream, where the next header is read.
\<close>

theorem tcp_framer_fragment:
  "snd (TcpFramer_next_message \<lparr>framer_buf = [0x28, 1, 0, 0, 0, 0, 0, 1, 0, 7, 0, 9]\<rparr>) =
     Inl (ParseError_new PE_Truncated (Some \<lparr>echo_version = 1, echo_conference_id = 1,
       echo_transaction_id = 7, echo_user_id = 9\<rparr>)) \<and>
   TcpFramer_next_message \<lparr>framer_buf = [0x28, 1, 0, 0, 0, 0, 0, 1, 0, 7, 0, 9, 0, 0, 0, 0]\<rparr> =
     (TcpFramer_new, Inl (ParseError_new PE_Fragmented (Some \<lparr>echo_version = 1, echo_conference_id = 1,
       echo_transaction_id = 7, echo_user_id = 9\<rparr>))) \<and>
   fst (TcpFramer_next_message \<lparr>framer_buf = [0x28, 99, 0, 0, 0, 0, 0, 1, 0, 7, 0, 9, 0, 0, 0, 0]\<rparr>) =
     \<lparr>framer_buf = [0, 0, 0, 0]\<rparr>"
  by (simp add: TcpFramer_next_message_def TcpFramer_new_def Header_parse_def COMMON_HEADER_LEN_def
      FRAGMENT_LEN_def Primitive_from_u8_def Primitive_ALL_def be16_def be32_def drop_bit_eq_div Let_def
      ParseError_new_def Header_message_len_def Header_header_len_def Message_parse_def
      Message_parse_prefix_def Header_echo_def)

section \<open>A UDP client's transactions\<close>

datatype udp_op =
    Op_Inbound bytes instant
  | Op_CacheResponse u16 bytes instant
  | Op_Notify Message instant
  | Op_Tick instant

fun udp_step :: "udp_op \<Rightarrow> UdpPeer \<Rightarrow> UdpPeer" where
  "udp_step (Op_Inbound d now) p = fst (UdpPeer_inbound p d now)"
| "udp_step (Op_CacheResponse txn d now) p = UdpPeer_cache_response p txn d now"
| "udp_step (Op_Notify m now) p = fst (UdpPeer_notify p m now)"
| "udp_step (Op_Tick now) p = fst (UdpPeer_tick p now)"

text \<open>
  The timer never stands below T1, and doubles with every retransmission of which there are at most
  three.
\<close>

definition outstanding_ok :: "Outstanding \<Rightarrow> bool" where
  "outstanding_ok o' \<longleftrightarrow> retransmits o' \<le> MAX_RETRANSMITS \<and> T1 * 2 ^ retransmits o' \<le> interval o' \<and>
     sent_at o' + interval o' \<le> due o'"

definition peer_ok :: "UdpPeer \<Rightarrow> bool" where
  "peer_ok p \<longleftrightarrow> T1 \<le> peer_t1 p \<and> (case outstanding p of None \<Rightarrow> True | Some o' \<Rightarrow> outstanding_ok o')"

lemma UdpPeer_inbound_ok: "peer_ok p \<Longrightarrow> peer_ok (fst (UdpPeer_inbound p d now))"
  by (auto simp: UdpPeer_inbound_def peer_ok_def Let_def split: sum.splits option.splits prod.splits)

lemma UdpPeer_start_ok: "peer_ok p \<Longrightarrow> peer_ok (fst (UdpPeer_start p txn d now))"
  by (simp add: UdpPeer_start_def peer_ok_def outstanding_ok_def)

lemma UdpPeer_notify_ok: "peer_ok p \<Longrightarrow> peer_ok (fst (UdpPeer_notify p m now))"
  using UdpPeer_start_ok [of p]
  by (auto simp: UdpPeer_notify_def peer_ok_def case_prod_unfold Let_def split: sum.splits)

lemma retransmit_ok:
  "outstanding_ok o' \<Longrightarrow> due o' \<le> now \<Longrightarrow> retransmits o' < MAX_RETRANSMITS \<Longrightarrow>
   outstanding_ok (o'\<lparr>retransmits := retransmits o' + 1, interval := interval o' * 2,
     due := now + interval o' * 2\<rparr>)"
  by (simp add: outstanding_ok_def)

lemma UdpPeer_tick_ok:
  assumes "peer_ok p"
  shows "peer_ok (fst (UdpPeer_tick p now))"
proof -
  define q where "q = (case response p of None \<Rightarrow> p
    | Some (_, _, at) \<Rightarrow> if now - at \<ge> T2 then p\<lparr>response := None\<rparr> else p)"
  have q: "peer_ok q"
    using assms by (auto simp: q_def peer_ok_def split: option.splits)
  then have "peer_ok (q\<lparr>peer_queue := ds\<rparr>)" for ds
    by (simp add: peer_ok_def)
  then show ?thesis
    using q retransmit_ok UdpPeer_start_ok
    unfolding UdpPeer_tick_def q_def [symmetric] Let_def
    by (auto simp: peer_ok_def [of "_\<lparr>outstanding := _\<rparr>"] peer_ok_def [of q]
        peer_ok_def [of "_\<lparr>outstanding := _, peer_queue := _\<rparr>"] not_le case_prod_unfold
        split: option.splits list.splits)
qed

interpretation udp_peer: stepped_system peer_ok udp_step
proof
  show "peer_ok (udp_step e p)" if "peer_ok p" for p e
    using that UdpPeer_inbound_ok UdpPeer_notify_ok UdpPeer_tick_ok
    by (cases e) (simp_all add: UdpPeer_cache_response_def peer_ok_def [of "_\<lparr>response := _\<rparr>"] peer_ok_def [of p])
qed

text \<open>
  Whatever arrives and whenever the timer runs, at most one server-initiated message is in flight,
  with at most three retransmissions, a timer of at least T1 doubled for each, and no retransmission
  due before the timer has run since it was sent.
\<close>

theorem udp_peer_invariant: "peer_ok (fold udp_step ops UdpPeer_new)"
  by (rule udp_peer.run_inv) (simp add: peer_ok_def UdpPeer_new_def)

fun ticks :: "instant list \<Rightarrow> UdpPeer \<Rightarrow> UdpPeer \<times> Tick list" where
  "ticks [] p = (p, [])"
| "ticks (now # ts) p =
     (let (p', t) = UdpPeer_tick p now; (p'', rest) = ticks ts p' in (p'', t # rest))"

text \<open>What a tick does to the message in flight.\<close>

lemma ticks_wait:
  assumes "outstanding p = Some o'" "now < due o'"
  obtains p' where "outstanding p' = Some o'" "snd (ticks (now # ts) p) = Tick_default # snd (ticks ts p')"
  using assms by (intro that [of "fst (UdpPeer_tick p now)"])
    (auto simp: UdpPeer_tick_def Let_def case_prod_unfold split: option.splits)

lemma ticks_resend:
  assumes "outstanding p = Some o'" "due o' \<le> now" "retransmits o' < MAX_RETRANSMITS"
  obtains p' where "outstanding p' = Some (o'\<lparr>retransmits := retransmits o' + 1,
      interval := interval o' * 2, due := now + interval o' * 2\<rparr>)"
    "snd (ticks (now # ts) p) = Tick_default\<lparr>send := [out_bytes o']\<rparr> # snd (ticks ts p')"
  using assms by (intro that [of "fst (UdpPeer_tick p now)"])
    (auto simp: UdpPeer_tick_def Let_def case_prod_unfold split: option.splits)

lemma ticks_broken:
  assumes "outstanding p = Some o'" "due o' \<le> now" "MAX_RETRANSMITS \<le> retransmits o'"
  obtains p' where "outstanding p' = None" "peer_queue p' = []"
    "snd (ticks (now # ts) p) = Tick_default\<lparr>broken := True\<rparr> # snd (ticks ts p')"
  using assms by (intro that [of "fst (UdpPeer_tick p now)"])
    (auto simp: UdpPeer_tick_def Let_def case_prod_unfold split: option.splits)

lemma ticks_idle:
  assumes "outstanding p = None" "peer_queue p = []"
  shows "snd (ticks ts p) = replicate (length ts) Tick_default"
  using assms
proof (induction ts arbitrary: p)
  case (Cons now ts)
  have "outstanding (fst (UdpPeer_tick p now)) = None" "peer_queue (fst (UdpPeer_tick p now)) = []"
    "snd (UdpPeer_tick p now) = Tick_default"
    using Cons.prems by (auto simp: UdpPeer_tick_def Let_def split: option.splits)
  then show ?case
    using Cons.IH by (simp add: case_prod_unfold Let_def)
qed simp

declare ticks.simps [simp del]

text \<open>The message after \<open>n\<close> retransmissions, due \<open>w\<close> timers after it was first sent.\<close>

definition in_flight :: "u16 \<Rightarrow> bytes \<Rightarrow> instant \<Rightarrow> duration \<Rightarrow> nat \<Rightarrow> nat \<Rightarrow> Outstanding" where
  "in_flight txn d t0 t1 n w = \<lparr>out_transaction_id = txn, out_bytes = d, sent_at = t0,
     due = t0 + w * t1, retransmits = n, interval = 2 ^ n * t1\<rparr>"

lemma flight_wait:
  assumes "outstanding p = Some (in_flight txn d t0 t1 n w)" "0 < w" "0 < t1"
  obtains p' where "outstanding p' = Some (in_flight txn d t0 t1 n w)"
    "snd (ticks ((t0 + w * t1 - 1) # ts) p) = Tick_default # snd (ticks ts p')"
  by (rule ticks_wait [OF assms(1), of "t0 + w * t1 - 1" ts])
    (use assms(2,3) that in \<open>auto simp: in_flight_def\<close>)

lemma flight_round:
  assumes "outstanding p = Some (in_flight txn d t0 t1 n w)" "0 < w" "0 < t1" "n < 3"
    and "n' = Suc n" "w' = w + 2 ^ n'"
  shows "\<exists>p'. outstanding p' = Some (in_flight txn d t0 t1 n' w') \<and>
    snd (ticks ((t0 + w * t1 - 1) # (t0 + w * t1) # ts) p) =
      Tick_default # Tick_default\<lparr>send := [d]\<rparr> # snd (ticks ts p')"
proof -
  obtain q where q: "outstanding q = Some (in_flight txn d t0 t1 n w)"
    "snd (ticks ((t0 + w * t1 - 1) # (t0 + w * t1) # ts) p) = Tick_default # snd (ticks ((t0 + w * t1) # ts) q)"
    using assms(1-3) by (rule flight_wait)
  show ?thesis
    by (rule ticks_resend [OF q(1), of "t0 + w * t1" ts])
      (use assms(4-6) q(2) in \<open>auto simp: in_flight_def MAX_RETRANSMITS_def algebra_simps\<close>)
qed

lemma flight_broken:
  assumes "outstanding p = Some (in_flight txn d t0 t1 3 w)"
  shows "snd (ticks [t0 + w * t1] p) = [Tick_default\<lparr>broken := True\<rparr>]"
  by (rule ticks_broken [OF assms, of "t0 + w * t1" "[]"])
    (simp_all add: in_flight_def MAX_RETRANSMITS_def ticks.simps(1))

text \<open>
  A message nobody acknowledges is sent again after T1, then after twice and four times that, and
  given up after eight times that: the client is gone. No tick in between sends anything.
\<close>

theorem udp_retransmission_schedule:
  assumes "0 < peer_t1 p"
  shows "let t1 = peer_t1 p
    in map (\<lambda>t. (send t, broken t))
         (snd (ticks [t0 + t1 - 1, t0 + t1, t0 + 3 * t1 - 1, t0 + 3 * t1, t0 + 7 * t1 - 1, t0 + 7 * t1,
                      t0 + 15 * t1 - 1, t0 + 15 * t1] (fst (UdpPeer_start p txn d t0)))) =
       [([], False), ([d], False), ([], False), ([d], False), ([], False), ([d], False),
        ([], False), ([], True)]"
proof -
  define t1 where "t1 = peer_t1 p"
  have t1: "0 < t1"
    using assms by (simp add: t1_def)
  define p0 where "p0 = fst (UdpPeer_start p txn d t0)"
  have p0: "outstanding p0 = Some (in_flight txn d t0 t1 0 1)"
    by (simp add: p0_def UdpPeer_start_def in_flight_def t1_def)
  define r3 where "r3 = [t0 + 15 * t1 - 1, t0 + 15 * t1]"
  define r2 where "r2 = (t0 + 7 * t1 - 1) # (t0 + 7 * t1) # r3"
  define r1 where "r1 = (t0 + 3 * t1 - 1) # (t0 + 3 * t1) # r2"
  let ?round = "\<lambda>ts. Tick_default # Tick_default\<lparr>send := [d]\<rparr> # ts"
  have "\<exists>p'. outstanding p' = Some (in_flight txn d t0 t1 1 3) \<and>
      snd (ticks ((t0 + 1 * t1 - 1) # (t0 + 1 * t1) # r1) p0) = ?round (snd (ticks r1 p'))"
    by (rule flight_round [OF p0]) (use t1 in simp_all)
  then obtain p1 where p1: "outstanding p1 = Some (in_flight txn d t0 t1 1 3)"
    "snd (ticks ((t0 + 1 * t1 - 1) # (t0 + 1 * t1) # r1) p0) = ?round (snd (ticks r1 p1))" by blast
  have "\<exists>p'. outstanding p' = Some (in_flight txn d t0 t1 2 7) \<and>
      snd (ticks (r1) p1) = ?round (snd (ticks r2 p'))"
    unfolding r1_def by (rule flight_round [OF p1(1)]) (use t1 in simp_all)
  then obtain p2 where p2: "outstanding p2 = Some (in_flight txn d t0 t1 2 7)"
    "snd (ticks (r1) p1) = ?round (snd (ticks r2 p2))" by blast
  have "\<exists>p'. outstanding p' = Some (in_flight txn d t0 t1 3 15) \<and>
      snd (ticks (r2) p2) = ?round (snd (ticks r3 p'))"
    unfolding r2_def by (rule flight_round [OF p2(1)]) (use t1 in simp_all)
  then obtain p3 where p3: "outstanding p3 = Some (in_flight txn d t0 t1 3 15)"
    "snd (ticks (r2) p2) = ?round (snd (ticks r3 p3))" by blast
  obtain p4 where p4: "outstanding p4 = Some (in_flight txn d t0 t1 3 15)"
    "snd (ticks r3 p3) = Tick_default # snd (ticks [t0 + 15 * t1] p4)"
    unfolding r3_def by (rule flight_wait [OF p3(1)]) (use t1 in simp_all)
  have "snd (ticks ((t0 + t1 - 1) # (t0 + t1) # r1) p0) =
      ?round (?round (?round [Tick_default, Tick_default\<lparr>broken := True\<rparr>]))"
    using p1(2) p2(2) p3(2) p4(2) flight_broken [OF p4(1)] by (simp only: mult_1)
  then show ?thesis
    unfolding t1_def [symmetric] p0_def [symmetric] Let_def r1_def r2_def r3_def
    by (simp only: list.map Tick_default_def) simp
qed

theorem udp_retransmission_schedule_witness:
  "map (\<lambda>t. (send t, broken t))
     (snd (ticks [499999999, 500000000, 1499999999, 1500000000, 3499999999, 3500000000,
                  7499999999, 7500000000] (fst (UdpPeer_start UdpPeer_new 1 [0x40] 0)))) =
   [([], False), ([[0x40]], False), ([], False), ([[0x40]], False), ([], False), ([[0x40]], False),
    ([], False), ([], True)]"
  using udp_retransmission_schedule [of UdpPeer_new 0 1 "[0x40]"]
  by (simp add: UdpPeer_new_def T1_def from_millis_def)

text \<open>Operations that leave a response cached at \<open>at\<close> in place.\<close>

fun before_expiry :: "instant \<Rightarrow> udp_op \<Rightarrow> bool" where
  "before_expiry at (Op_Tick now) = (now < at + T2)"
| "before_expiry at (Op_CacheResponse _ _ _) = False"
| "before_expiry at _ = True"

lemma response_kept:
  assumes "response p = Some (txn, d, at)" "before_expiry at e"
  shows "response (udp_step e p) = Some (txn, d, at)"
proof (cases e)
  case (Op_Tick now)
  then have "\<not> T2 \<le> now - at"
    using assms(2) by (simp add: T2_def from_millis_def)
  then show ?thesis
    using assms(1)
    by (auto simp: Op_Tick UdpPeer_tick_def UdpPeer_start_def Let_def split: option.splits list.splits)
qed (use assms in \<open>auto simp: UdpPeer_inbound_def UdpPeer_notify_def UdpPeer_start_def Let_def
    split: sum.splits option.splits\<close>)

lemma response_kept_run:
  "response p = Some (txn, d, at) \<Longrightarrow> list_all (before_expiry at) ops \<Longrightarrow>
   response (fold udp_step ops p) = Some (txn, d, at)"
  by (induction ops arbitrary: p) (simp_all add: response_kept)

text \<open>
  A request that was answered is not handled twice: until another response is cached, a
  retransmission of it that arrives within T2, whatever else happened in between, is answered with the
  cached bytes.
\<close>

theorem udp_request_handled_once:
  assumes "list_all (before_expiry at) ops" "now < at + T2"
    and "Header_parse request = Inr h" "\<not> hdr_responder h" "hdr_transaction_id h = txn"
  shows "snd (UdpPeer_inbound (fold udp_step ops (UdpPeer_cache_response p txn d at)) request now) = UI_Replay d"
proof -
  have "response (fold udp_step ops (UdpPeer_cache_response p txn d at)) = Some (txn, d, at)"
    using assms(1) by (intro response_kept_run) (simp_all add: UdpPeer_cache_response_def)
  moreover have "now - at < T2"
    using assms(2) by (simp add: T2_def from_millis_def)
  ultimately show ?thesis
    using assms(3-5) by (simp add: UdpPeer_inbound_def)
qed

lemma wire_of_new:
  "wire (Message_new 2 p 1 txn 9) =
     [0x40, Primitive_as_u8 p, 0, 0, 0, 0, 0, 1] @ to_be16 txn @ [0, 9]"
  "Message_to_bytes (Message_new 2 p 1 txn 9) = Inr (wire (Message_new 2 p 1 txn 9))"
  by (simp_all add: wire_def Message_to_bytes_def Message_new_def to_be16_def to_be32_def
      MAX_PAYLOAD_LEN_def push_bit_eq_mult)

theorem udp_request_handled_once_witness:
  "snd (UdpPeer_inbound (fold udp_step [Op_Tick 5000000000, Op_Notify (Message_new 2 P_FloorStatus 1 3 9) 6000000000]
      (UdpPeer_cache_response UdpPeer_new 7 [1, 2, 3] 0))
    [0x40, 11, 0, 0, 0, 0, 0, 1, 0, 7, 0, 9] 9000000000) = UI_Replay [1, 2, 3]"
proof (rule udp_request_handled_once)
  show "Header_parse [0x40, 11, 0, 0, 0, 0, 0, 1, 0, 7, 0, 9] =
    Inr \<lparr>hdr_version = 2, hdr_responder = False, hdr_fragment = None, hdr_primitive = P_Hello,
         hdr_conference_id = 1, hdr_transaction_id = 7, hdr_user_id = 9, hdr_payload_len = 0\<rparr>"
    by (simp add: Header_parse_def COMMON_HEADER_LEN_def Primitive_from_u8_def Primitive_ALL_def
        be16_def be32_def drop_bit_eq_div Let_def)
qed (simp_all add: T2_def from_millis_def)

text \<open>
  Notifications can overtake one another: once an acknowledgement has come and before the timer
  has sent what was queued, a new notification goes out at once, ahead of the older one.
\<close>

theorem udp_notification_overtakes:
  "let p1 = fst (UdpPeer_notify UdpPeer_new (Message_new 2 P_FloorStatus 1 1 9) 0);
       p2 = fst (UdpPeer_notify p1 (Message_new 2 P_FloorStatus 1 2 9) 1);
       (p3, inbound) = UdpPeer_inbound p2 (wire ((Message_new 2 P_FloorStatusAck 1 1 9)\<lparr>msg_responder := True\<rparr>)) 2;
       (p4, sent) = UdpPeer_notify p3 (Message_new 2 P_FloorStatus 1 3 9) 3
   in inbound = UI_Acked 1 \<and> sent = Some (wire (Message_new 2 P_FloorStatus 1 3 9)) \<and>
      peer_queue p4 = [wire (Message_new 2 P_FloorStatus 1 2 9)]"
proof -
  have ack: "Header_parse (wire ((Message_new 2 P_FloorStatusAck 1 1 9)\<lparr>msg_responder := True\<rparr>)) =
    Inr \<lparr>hdr_version = 2, hdr_responder = True, hdr_fragment = None, hdr_primitive = P_FloorStatusAck,
         hdr_conference_id = 1, hdr_transaction_id = 1, hdr_user_id = 9, hdr_payload_len = 0\<rparr>"
    by (simp add: wire_def Message_to_bytes_def Message_new_def to_be16_def to_be32_def MAX_PAYLOAD_LEN_def
        Header_parse_def COMMON_HEADER_LEN_def Primitive_from_u8_def Primitive_ALL_def push_bit_eq_mult
        be16_def be32_def drop_bit_eq_div Let_def)
  show ?thesis
    by (simp add: UdpPeer_notify_def UdpPeer_start_def UdpPeer_new_def wire_of_new(2) ack Let_def
        UdpPeer_inbound_def) (simp add: Message_new_def)
qed

end
