(* ===== verification/Dtmf_Events.thy ===== *)
theory Dtmf_Events
  imports Utf8
begin

text \<open>
  DTMF digits and events on the wire: \<^verbatim>\<open>crates/forge-dtmf/src/detector.rs\<close> (digits, events),
  \<^verbatim>\<open>rfc2833.rs\<close> (telephone-event payloads, their generator and detector) and \<^verbatim>\<open>relay.rs\<close> (inband
  events to telephone-event packets and back to tones). Constructors carry the prefix of their enum.
  Arithmetic is that of a release build: unsigned addition wraps; a division by zero is a panic,
  and a function that may panic returns an option with \<open>None\<close> for it. A Rust \<^verbatim>\<open>char\<close> is its scalar
  value.
\<close>

section \<open>Digits and events\<close>

datatype DtmfError =
    DE_InvalidDigit bytes
  | DE_InvalidRfc2833 bytes
  | DE_InvalidAudioFormat bytes
  | DE_DetectionError bytes
  | DE_Internal bytes

datatype DtmfDigit =
    Dg_Zero | Dg_One | Dg_Two | Dg_Three | Dg_Four | Dg_Five | Dg_Six | Dg_Seven | Dg_Eight
  | Dg_Nine | Dg_Star | Dg_Hash | Dg_A | Dg_B | Dg_C | Dg_D

definition DtmfDigit_from_event_code :: "u8 \<Rightarrow> DtmfError + DtmfDigit" where
  "DtmfDigit_from_event_code code =
     (if code = 0 then Inr Dg_Zero
      else if code = 1 then Inr Dg_One
      else if code = 2 then Inr Dg_Two
      else if code = 3 then Inr Dg_Three
      else if code = 4 then Inr Dg_Four
      else if code = 5 then Inr Dg_Five
      else if code = 6 then Inr Dg_Six
      else if code = 7 then Inr Dg_Seven
      else if code = 8 then Inr Dg_Eight
      else if code = 9 then Inr Dg_Nine
      else if code = 10 then Inr Dg_Star
      else if code = 11 then Inr Dg_Hash
      else if code = 12 then Inr Dg_A
      else if code = 13 then Inr Dg_B
      else if code = 14 then Inr Dg_C
      else if code = 15 then Inr Dg_D
      else Inl (DE_InvalidDigit (str (''Invalid event code: '' @ show_nat (unat code)))))"

fun DtmfDigit_to_event_code :: "DtmfDigit \<Rightarrow> u8" where
  "DtmfDigit_to_event_code Dg_Zero = 0"
| "DtmfDigit_to_event_code Dg_One = 1"
| "DtmfDigit_to_event_code Dg_Two = 2"
| "DtmfDigit_to_event_code Dg_Three = 3"
| "DtmfDigit_to_event_code Dg_Four = 4"
| "DtmfDigit_to_event_code Dg_Five = 5"
| "DtmfDigit_to_event_code Dg_Six = 6"
| "DtmfDigit_to_event_code Dg_Seven = 7"
| "DtmfDigit_to_event_code Dg_Eight = 8"
| "DtmfDigit_to_event_code Dg_Nine = 9"
| "DtmfDigit_to_event_code Dg_Star = 10"
| "DtmfDigit_to_event_code Dg_Hash = 11"
| "DtmfDigit_to_event_code Dg_A = 12"
| "DtmfDigit_to_event_code Dg_B = 13"
| "DtmfDigit_to_event_code Dg_C = 14"
| "DtmfDigit_to_event_code Dg_D = 15"

fun DtmfDigit_frequencies :: "DtmfDigit \<Rightarrow> u32 \<times> u32" where
  "DtmfDigit_frequencies Dg_Zero = (941, 1336)"
| "DtmfDigit_frequencies Dg_One = (697, 1209)"
| "DtmfDigit_frequencies Dg_Two = (697, 1336)"
| "DtmfDigit_frequencies Dg_Three = (697, 1477)"
| "DtmfDigit_frequencies Dg_Four = (770, 1209)"
| "DtmfDigit_frequencies Dg_Five = (770, 1336)"
| "DtmfDigit_frequencies Dg_Six = (770, 1477)"
| "DtmfDigit_frequencies Dg_Seven = (852, 1209)"
| "DtmfDigit_frequencies Dg_Eight = (852, 1336)"
| "DtmfDigit_frequencies Dg_Nine = (852, 1477)"
| "DtmfDigit_frequencies Dg_Star = (941, 1209)"
| "DtmfDigit_frequencies Dg_Hash = (941, 1477)"
| "DtmfDigit_frequencies Dg_A = (697, 1633)"
| "DtmfDigit_frequencies Dg_B = (770, 1633)"
| "DtmfDigit_frequencies Dg_C = (852, 1633)"
| "DtmfDigit_frequencies Dg_D = (941, 1633)"

definition DtmfDigit_from_char :: "nat \<Rightarrow> DtmfError + DtmfDigit" where
  "DtmfDigit_from_char c =
     (if c = 48 then Inr Dg_Zero
      else if c = 49 then Inr Dg_One
      else if c = 50 then Inr Dg_Two
      else if c = 51 then Inr Dg_Three
      else if c = 52 then Inr Dg_Four
      else if c = 53 then Inr Dg_Five
      else if c = 54 then Inr Dg_Six
      else if c = 55 then Inr Dg_Seven
      else if c = 56 then Inr Dg_Eight
      else if c = 57 then Inr Dg_Nine
      else if c = 42 then Inr Dg_Star
      else if c = 35 then Inr Dg_Hash
      else if c = 65 \<or> c = 97 then Inr Dg_A
      else if c = 66 \<or> c = 98 then Inr Dg_B
      else if c = 67 \<or> c = 99 then Inr Dg_C
      else if c = 68 \<or> c = 100 then Inr Dg_D
      else Inl (DE_InvalidDigit (str ''Invalid character: '' @ encode_utf8 c)))"

text \<open>The \<^verbatim>\<open>Display\<close> of a digit: one ASCII character.\<close>

fun DtmfDigit_fmt :: "DtmfDigit \<Rightarrow> string" where
  "DtmfDigit_fmt Dg_Zero = ''0''"
| "DtmfDigit_fmt Dg_One = ''1''"
| "DtmfDigit_fmt Dg_Two = ''2''"
| "DtmfDigit_fmt Dg_Three = ''3''"
| "DtmfDigit_fmt Dg_Four = ''4''"
| "DtmfDigit_fmt Dg_Five = ''5''"
| "DtmfDigit_fmt Dg_Six = ''6''"
| "DtmfDigit_fmt Dg_Seven = ''7''"
| "DtmfDigit_fmt Dg_Eight = ''8''"
| "DtmfDigit_fmt Dg_Nine = ''9''"
| "DtmfDigit_fmt Dg_Star = ''*''"
| "DtmfDigit_fmt Dg_Hash = ''#''"
| "DtmfDigit_fmt Dg_A = ''A''"
| "DtmfDigit_fmt Dg_B = ''B''"
| "DtmfDigit_fmt Dg_C = ''C''"
| "DtmfDigit_fmt Dg_D = ''D''"

datatype DtmfEventType = ET_Start | ET_Continue | ET_End

datatype DtmfMethod = Rfc2833 | Inband | SipInfo

record DtmfEvent =
  ev_digit :: DtmfDigit
  ev_type :: DtmfEventType
  ev_duration_ms :: "u32 option"
  ev_method :: DtmfMethod
  ev_timestamp :: "u32 option"

definition DtmfEvent_new :: "DtmfDigit \<Rightarrow> DtmfEventType \<Rightarrow> DtmfMethod \<Rightarrow> DtmfEvent" where
  "DtmfEvent_new d t m =
     \<lparr>ev_digit = d, ev_type = t, ev_duration_ms = None, ev_method = m, ev_timestamp = None\<rparr>"

definition DtmfEvent_with_duration :: "DtmfDigit \<Rightarrow> DtmfEventType \<Rightarrow> DtmfMethod \<Rightarrow> u32 \<Rightarrow> DtmfEvent" where
  "DtmfEvent_with_duration d t m ms =
     \<lparr>ev_digit = d, ev_type = t, ev_duration_ms = Some ms, ev_method = m, ev_timestamp = None\<rparr>"

definition DtmfEvent_with_timestamp :: "DtmfDigit \<Rightarrow> DtmfEventType \<Rightarrow> DtmfMethod \<Rightarrow> u32 \<Rightarrow> DtmfEvent" where
  "DtmfEvent_with_timestamp d t m ts =
     \<lparr>ev_digit = d, ev_type = t, ev_duration_ms = None, ev_method = m, ev_timestamp = Some ts\<rparr>"

section \<open>Telephone-event payloads\<close>

record Rfc2833Event =
  rfc_event :: u8
  rfc_end :: bool
  rfc_volume :: u8
  rfc_duration :: u16

definition Rfc2833Event_MIN_SIZE :: nat where
  "Rfc2833Event_MIN_SIZE = 4"

definition Rfc2833Event_DEFAULT_VOLUME :: u8 where
  "Rfc2833Event_DEFAULT_VOLUME = 10"

definition Rfc2833Event_new :: "u8 \<Rightarrow> bool \<Rightarrow> u8 \<Rightarrow> u16 \<Rightarrow> DtmfError + Rfc2833Event" where
  "Rfc2833Event_new event end' volume duration =
     (if event > 15
      then Inl (DE_InvalidRfc2833 (str (''Event code must be 0-15, got '' @ show_nat (unat event))))
      else if volume > 63
      then Inl (DE_InvalidRfc2833 (str (''Volume must be 0-63, got '' @ show_nat (unat volume))))
      else Inr \<lparr>rfc_event = event, rfc_end = end', rfc_volume = volume, rfc_duration = duration\<rparr>)"

definition Rfc2833Event_for_digit :: "DtmfDigit \<Rightarrow> bool \<Rightarrow> u16 \<Rightarrow> Rfc2833Event" where
  "Rfc2833Event_for_digit digit end' duration =
     \<lparr>rfc_event = DtmfDigit_to_event_code digit, rfc_end = end',
      rfc_volume = Rfc2833Event_DEFAULT_VOLUME, rfc_duration = duration\<rparr>"

definition Rfc2833Event_from_bytes :: "bytes \<Rightarrow> DtmfError + Rfc2833Event" where
  "Rfc2833Event_from_bytes d =
     (if length d < Rfc2833Event_MIN_SIZE
      then Inl (DE_InvalidRfc2833 (str (''Payload too short: '' @ show_nat (length d) @
             '' bytes (need at least '' @ show_nat Rfc2833Event_MIN_SIZE @ '')'')))
      else
        let event = d ! 0;
            flags_volume = d ! 1;
            end' = (flags_volume AND 0x80 \<noteq> 0);
            volume = flags_volume AND 0x3F;
            duration = be16 (d ! 2) (d ! 3)
        in Rfc2833Event_new event end' volume duration)"

definition Rfc2833Event_to_bytes :: "Rfc2833Event \<Rightarrow> bytes" where
  "Rfc2833Event_to_bytes e =
     [rfc_event e,
      (let flags_volume = rfc_volume e AND 0x3F
       in if rfc_end e then flags_volume OR 0x80 else flags_volume)] @ to_be16 (rfc_duration e)"

definition Rfc2833Event_digit :: "Rfc2833Event \<Rightarrow> DtmfDigit option" where
  "Rfc2833Event_digit e =
     (case DtmfDigit_from_event_code (rfc_event e) of Inr d \<Rightarrow> Some d | Inl _ \<Rightarrow> None)"

text \<open>Panics when the sample rate is zero.\<close>

definition Rfc2833Event_duration_ms :: "Rfc2833Event \<Rightarrow> u32 \<Rightarrow> u32 option" where
  "Rfc2833Event_duration_ms e sample_rate =
     (if sample_rate = 0 then None else Some (ucast (rfc_duration e) * 1000 div sample_rate))"

definition Rfc2833Event_to_dtmf_event :: "Rfc2833Event \<Rightarrow> u32 \<Rightarrow> u32 \<Rightarrow> DtmfEvent option option" where
  "Rfc2833Event_to_dtmf_event e sample_rate timestamp =
     (case Rfc2833Event_digit e of
        None \<Rightarrow> Some None
      | Some digit \<Rightarrow>
          let event_type = (if rfc_end e then ET_End
                            else if rfc_duration e = 0 then ET_Start else ET_Continue)
          in map_option (\<lambda>ms. Some ((DtmfEvent_new digit event_type Rfc2833)
                 \<lparr>ev_duration_ms := Some ms, ev_timestamp := Some timestamp\<rparr>))
               (Rfc2833Event_duration_ms e sample_rate))"

section \<open>Generator\<close>

record Rfc2833Generator =
  gen_digit :: "DtmfDigit option"
  gen_duration :: u16
  gen_sample_rate :: u32
  gen_packet_interval :: u16

definition Rfc2833Generator_new :: "u32 \<Rightarrow> u32 \<Rightarrow> Rfc2833Generator" where
  "Rfc2833Generator_new sample_rate packet_interval_ms =
     \<lparr>gen_digit = None, gen_duration = 0, gen_sample_rate = sample_rate,
      gen_packet_interval = ucast (sample_rate * packet_interval_ms div 1000)\<rparr>"

definition Rfc2833Generator_start_digit ::
  "Rfc2833Generator \<Rightarrow> DtmfDigit \<Rightarrow> Rfc2833Generator \<times> Rfc2833Event" where
  "Rfc2833Generator_start_digit g digit =
     (g\<lparr>gen_digit := Some digit, gen_duration := 0\<rparr>, Rfc2833Event_for_digit digit False 0)"

definition Rfc2833Generator_continue_digit ::
  "Rfc2833Generator \<Rightarrow> Rfc2833Generator \<times> Rfc2833Event option" where
  "Rfc2833Generator_continue_digit g =
     (case gen_digit g of
        None \<Rightarrow> (g, None)
      | Some digit \<Rightarrow>
          let g' = g\<lparr>gen_duration := gen_duration g + gen_packet_interval g\<rparr>
          in (g', Some (Rfc2833Event_for_digit digit False (gen_duration g'))))"

definition Rfc2833Generator_end_digit ::
  "Rfc2833Generator \<Rightarrow> Rfc2833Generator \<times> Rfc2833Event list option" where
  "Rfc2833Generator_end_digit g =
     (case gen_digit g of
        None \<Rightarrow> (g, None)
      | Some digit \<Rightarrow>
          let g' = g\<lparr>gen_digit := None, gen_duration := gen_duration g + gen_packet_interval g\<rparr>;
              end_event = Rfc2833Event_for_digit digit True (gen_duration g')
          in (g', Some [end_event, end_event, end_event]))"

definition Rfc2833Generator_current_duration_ms :: "Rfc2833Generator \<Rightarrow> u32 option" where
  "Rfc2833Generator_current_duration_ms g =
     (if gen_sample_rate g = 0 then None
      else Some (ucast (gen_duration g) * 1000 div gen_sample_rate g))"

definition Rfc2833Generator_is_active :: "Rfc2833Generator \<Rightarrow> bool" where
  "Rfc2833Generator_is_active g \<longleftrightarrow> gen_digit g \<noteq> None"

definition Rfc2833Generator_reset :: "Rfc2833Generator \<Rightarrow> Rfc2833Generator" where
  "Rfc2833Generator_reset g = g\<lparr>gen_digit := None, gen_duration := 0\<rparr>"

section \<open>Detector\<close>

record Rfc2833Detector =
  det_sample_rate :: u32
  last_event :: "(DtmfDigit \<times> u16) option"

definition Rfc2833Detector_new :: "u32 \<Rightarrow> Rfc2833Detector" where
  "Rfc2833Detector_new sample_rate = \<lparr>det_sample_rate = sample_rate, last_event = None\<rparr>"

definition Rfc2833Detector_process_with_timestamp ::
  "Rfc2833Detector \<Rightarrow> bytes \<Rightarrow> u32 \<Rightarrow> (Rfc2833Detector \<times> (DtmfError + DtmfEvent list)) option" where
  "Rfc2833Detector_process_with_timestamp det d timestamp =
     (case Rfc2833Event_from_bytes d of
        Inl e \<Rightarrow> Some (det, Inl e)
      | Inr event \<Rightarrow>
          (case Rfc2833Event_digit event of
             None \<Rightarrow> Some (det, Inr [])
           | Some digit \<Rightarrow>
               let is_new = (case last_event det of None \<Rightarrow> True | Some (last_digit, _) \<Rightarrow> last_digit \<noteq> digit);
                   continued = (\<lambda>det'. if rfc_end event then det'
                                  else det'\<lparr>last_event := Some (digit, rfc_duration event)\<rparr>)
               in if is_new \<and> rfc_duration event = 0
                  then Some (continued det, Inr [DtmfEvent_with_timestamp digit ET_Start Rfc2833 timestamp])
                  else if rfc_end event
                  then (case Rfc2833Event_duration_ms event (det_sample_rate det) of
                          None \<Rightarrow> None
                        | Some ms \<Rightarrow>
                            Some (continued (det\<lparr>last_event := None\<rparr>),
                              Inr [(DtmfEvent_with_timestamp digit ET_End Rfc2833 timestamp)
                                     \<lparr>ev_duration_ms := Some ms\<rparr>]))
                  else Some (continued det,
                         Inr [DtmfEvent_with_timestamp digit ET_Continue Rfc2833 timestamp])))"

definition Rfc2833Detector_process ::
  "Rfc2833Detector \<Rightarrow> bytes \<Rightarrow> (Rfc2833Detector \<times> (DtmfError + DtmfEvent list)) option" where
  "Rfc2833Detector_process det d = Rfc2833Detector_process_with_timestamp det d 0"

definition Rfc2833Detector_reset :: "Rfc2833Detector \<Rightarrow> Rfc2833Detector" where
  "Rfc2833Detector_reset det = det\<lparr>last_event := None\<rparr>"

section \<open>Relay\<close>

record DtmfRelayConfig =
  relay_sample_rate :: u32
  packet_interval_ms :: u32
  inband_to_rfc2833 :: bool
  rfc2833_to_tone :: bool

definition DtmfRelayConfig_default :: DtmfRelayConfig where
  "DtmfRelayConfig_default = \<lparr>relay_sample_rate = 8000, packet_interval_ms = 20,
     inband_to_rfc2833 = True, rfc2833_to_tone = False\<rparr>"

datatype DtmfRelayOutput =
    Rfc2833Packet Rfc2833Event
  | ToneInstruction DtmfDigit u32 u32 u32 bool
  | NoOutput

text \<open>The hash map from digits to generators is a map; its order is never observed.\<close>

record DtmfRelay =
  relay_config :: DtmfRelayConfig
  active_digits :: "DtmfDigit \<rightharpoonup> Rfc2833Generator"

definition DtmfRelay_new :: "DtmfRelayConfig \<Rightarrow> DtmfRelay" where
  "DtmfRelay_new config = \<lparr>relay_config = config, active_digits = Map.empty\<rparr>"

definition DtmfRelay_handle_start :: "DtmfRelay \<Rightarrow> DtmfEvent \<Rightarrow> DtmfRelay \<times> DtmfRelayOutput list" where
  "DtmfRelay_handle_start r event =
     (let config = relay_config r;
          digit = ev_digit event;
          (r', outputs) =
            (if inband_to_rfc2833 config \<and> ev_method event = Inband
             then let (generator, start_packet) = Rfc2833Generator_start_digit
                        (Rfc2833Generator_new (relay_sample_rate config) (packet_interval_ms config)) digit
                  in (r\<lparr>active_digits := (active_digits r)(digit \<mapsto> generator)\<rparr>, [Rfc2833Packet start_packet])
             else (r, []))
      in (r', outputs @
           (if rfc2833_to_tone config \<and> ev_method event = Rfc2833
            then let (low_freq, high_freq) = DtmfDigit_frequencies digit
                 in [ToneInstruction digit low_freq high_freq 0 False]
            else [])))"

definition DtmfRelay_handle_continue :: "DtmfRelay \<Rightarrow> DtmfEvent \<Rightarrow> DtmfRelay \<times> DtmfRelayOutput list" where
  "DtmfRelay_handle_continue r event =
     (if inband_to_rfc2833 (relay_config r) \<and> ev_method event = Inband
      then (case active_digits r (ev_digit event) of
              None \<Rightarrow> (r, [])
            | Some generator \<Rightarrow>
                let (generator', packet) = Rfc2833Generator_continue_digit generator
                in (r\<lparr>active_digits := (active_digits r)(ev_digit event \<mapsto> generator')\<rparr>,
                    case packet of None \<Rightarrow> [] | Some p \<Rightarrow> [Rfc2833Packet p]))
      else (r, []))"

definition DtmfRelay_handle_end :: "DtmfRelay \<Rightarrow> DtmfEvent \<Rightarrow> DtmfRelay \<times> DtmfRelayOutput list" where
  "DtmfRelay_handle_end r event =
     (let config = relay_config r;
          digit = ev_digit event;
          (r', outputs) =
            (if inband_to_rfc2833 config \<and> ev_method event = Inband
             then (case active_digits r digit of
                     None \<Rightarrow> (r, [])
                   | Some generator \<Rightarrow>
                       (r\<lparr>active_digits := (active_digits r)(digit := None)\<rparr>,
                        case snd (Rfc2833Generator_end_digit generator) of
                          None \<Rightarrow> []
                        | Some end_packets \<Rightarrow> map Rfc2833Packet end_packets))
             else (r, []))
      in (r', outputs @
           (if rfc2833_to_tone config \<and> ev_method event = Rfc2833
            then let (low_freq, high_freq) = DtmfDigit_frequencies digit
                 in [ToneInstruction digit low_freq high_freq
                       (case ev_duration_ms event of None \<Rightarrow> 0 | Some ms \<Rightarrow> ms) True]
            else [])))"

definition DtmfRelay_process_event :: "DtmfRelay \<Rightarrow> DtmfEvent \<Rightarrow> DtmfRelay \<times> DtmfRelayOutput list" where
  "DtmfRelay_process_event r event =
     (case ev_type event of
        ET_Start \<Rightarrow> DtmfRelay_handle_start r event
      | ET_Continue \<Rightarrow> DtmfRelay_handle_continue r event
      | ET_End \<Rightarrow> DtmfRelay_handle_end r event)"

definition DtmfRelay_active_count :: "DtmfRelay \<Rightarrow> nat" where
  "DtmfRelay_active_count r = card (dom (active_digits r))"

definition DtmfRelay_reset :: "DtmfRelay \<Rightarrow> DtmfRelay" where
  "DtmfRelay_reset r = r\<lparr>active_digits := Map.empty\<rparr>"

section \<open>Round trips\<close>

lemma from_to_event_code [simp]: "DtmfDigit_from_event_code (DtmfDigit_to_event_code d) = Inr d"
  by (cases d) (simp_all add: DtmfDigit_from_event_code_def)

lemma event_code_small: "DtmfDigit_to_event_code d \<le> 15"
  by (cases d) (simp_all add: word_le_nat_alt)

text \<open>
  Every digit is recovered from its event code, from the character it is shown as, in either case
  for the letters, and from its pair of frequencies.
\<close>

theorem dtmf_digit_roundtrip:
  "DtmfDigit_from_event_code (DtmfDigit_to_event_code d) = Inr d \<and>
   map (\<lambda>c. DtmfDigit_from_char (of_char c)) (DtmfDigit_fmt d) = [Inr d] \<and>
   (DtmfDigit_frequencies d = DtmfDigit_frequencies d' \<longleftrightarrow> d = d')"
proof (intro conjI)
  show "map (\<lambda>c. DtmfDigit_from_char (of_char c)) (DtmfDigit_fmt d) = [Inr d]"
    by (cases d) (simp_all add: DtmfDigit_from_char_def)
  show "DtmfDigit_frequencies d = DtmfDigit_frequencies d' \<longleftrightarrow> d = d'"
    by (cases d; cases d'; simp)
qed simp

definition rfc_wf :: "Rfc2833Event \<Rightarrow> bool" where
  "rfc_wf e \<longleftrightarrow> rfc_event e \<le> 15 \<and> rfc_volume e \<le> 63"

lemma u8_le_63: "v \<le> 63 \<Longrightarrow> (v :: u8) AND 0x3F = v"
proof -
  assume "v \<le> 63"
  then have "take_bit 6 (unat v) = unat v"
    by (simp add: take_bit_nat_eq_self_iff word_le_nat_alt)
  then have "take_bit 6 v = v"
    by (metis unsigned_take_bit_eq word_unat_eq_iff)
  then show ?thesis
    by (simp add: take_bit_eq_mask mask_eq_exp_minus_1)
qed

lemma flags_octet:
  fixes v :: u8
  assumes "v \<le> 63"
  shows "(if e then v AND 0x3F OR 0x80 else v AND 0x3F) AND 0x3F = v"
    and "(if e then v AND 0x3F OR 0x80 else v AND 0x3F) AND 0x80 \<noteq> 0 \<longleftrightarrow> e"
proof -
  have *: "v AND 0x3F = v" by (rule u8_le_63 [OF assms])
  have "v AND 0x80 = 0"
    by (subst * [symmetric]) (simp add: and.assoc)
  then show "(if e then v AND 0x3F OR 0x80 else v AND 0x3F) AND 0x80 \<noteq> 0 \<longleftrightarrow> e"
    by (simp add: * bit.conj_disj_distrib2)
  show "(if e then v AND 0x3F OR 0x80 else v AND 0x3F) AND 0x3F = v"
    by (simp add: * bit.conj_disj_distrib2)
qed

lemma rfc_from_to_bytes:
  assumes "rfc_wf e"
  shows "Rfc2833Event_from_bytes (Rfc2833Event_to_bytes e @ rest) = Inr e"
proof -
  have v: "rfc_volume e \<le> 63" "\<not> 63 < rfc_volume e" "\<not> 15 < rfc_event e"
    using assms by (auto simp: rfc_wf_def not_less)
  note f = flags_octet [OF v(1), of "rfc_end e"]
  define o1 where "o1 = (if rfc_end e then rfc_volume e AND 0x3F OR 0x80 else rfc_volume e AND 0x3F)"
  have "Rfc2833Event_to_bytes e = [rfc_event e, o1] @ to_be16 (rfc_duration e)"
    by (simp add: Rfc2833Event_to_bytes_def o1_def Let_def)
  then show ?thesis
    using v f [folded o1_def]
    by (simp add: Rfc2833Event_from_bytes_def Rfc2833Event_MIN_SIZE_def Rfc2833Event_new_def to_be16_def Let_def)
qed

lemma u8_top_bit: "(b :: u8) AND 0x80 = (if b AND 0x80 \<noteq> 0 then 0x80 else 0)"
proof -
  have "b AND 2 ^ 7 = (if bit b 7 then 2 ^ 7 else 0)"
    by (rule bit_word_eqI) (auto simp only: bit_and_iff bit_exp_iff bit_0_eq bot_apply bot_bool_def split: if_splits)
  then show ?thesis
    by simp
qed

lemma flags_reassemble:
  "(if b AND 0x80 \<noteq> 0 then b AND 0x3F OR 0x80 else b AND 0x3F) = b AND 0xBF" for b :: u8
proof -
  have split: "b AND 0xBF = (b AND 0x3F) OR (b AND 0x80)"
    by (simp add: bit.conj_disj_distrib [symmetric])
  show ?thesis
  proof (cases "b AND 0x80 = 0")
    case True
    then show ?thesis by (simp add: split)
  next
    case False
    then have "b AND 0x80 = 0x80"
      using u8_top_bit [of b] by argo
    then show ?thesis by (simp add: split)
  qed
qed

text \<open>
  An event that was built reads back from its four octets, whatever follows them; and a payload
  that is read is well-formed and is written back as it came, with the reserved bit cleared.
\<close>

theorem rfc2833_event_roundtrip:
  "(Rfc2833Event_from_bytes d = Inr e \<longrightarrow>
      rfc_wf e \<and> Rfc2833Event_to_bytes e = [d ! 0, d ! 1 AND 0xBF, d ! 2, d ! 3]) \<and>
   (rfc_wf e \<longrightarrow> Rfc2833Event_from_bytes (Rfc2833Event_to_bytes e @ rest) = Inr e)"
proof (intro conjI impI)
  assume read: "Rfc2833Event_from_bytes d = Inr e"
  then have e: "e = \<lparr>rfc_event = d ! 0, rfc_end = (d ! 1 AND 0x80 \<noteq> 0), rfc_volume = d ! 1 AND 0x3F,
      rfc_duration = be16 (d ! 2) (d ! 3)\<rparr>" and small: "d ! 0 \<le> 15" "d ! 1 AND 0x3F \<le> 63"
    by (auto simp: Rfc2833Event_from_bytes_def Rfc2833Event_new_def Let_def not_less split: if_splits)
  show "rfc_wf e" "Rfc2833Event_to_bytes e = [d ! 0, d ! 1 AND 0xBF, d ! 2, d ! 3]"
    using small flags_reassemble [of "d ! 1"]
    by (simp_all add: e rfc_wf_def Rfc2833Event_to_bytes_def Let_def and.assoc split: if_splits)
qed (rule rfc_from_to_bytes)

theorem rfc2833_event_roundtrip_witness:
  "Rfc2833Event_from_bytes [5, 0xCA, 0, 0xA0] =
     Inr \<lparr>rfc_event = 5, rfc_end = True, rfc_volume = 10, rfc_duration = 160\<rparr> \<and>
   Rfc2833Event_to_bytes \<lparr>rfc_event = 5, rfc_end = True, rfc_volume = 10, rfc_duration = 160\<rparr> =
     [5, 0x8A, 0, 0xA0]"
proof -
  let ?e = "\<lparr>rfc_event = 5, rfc_end = True, rfc_volume = 10, rfc_duration = 160\<rparr>"
  have "Rfc2833Event_from_bytes [5, 0xCA, 0, 0xA0] = Inr ?e"
    by (simp add: Rfc2833Event_from_bytes_def Rfc2833Event_new_def Rfc2833Event_MIN_SIZE_def be16_def
        word_less_nat_alt Let_def)
  then show ?thesis
    using rfc2833_event_roundtrip [of "[5, 0xCA, 0, 0xA0]" ?e "[]"] by simp
qed

section \<open>A digit press through the relay\<close>

fun relay_run :: "DtmfEvent list \<Rightarrow> DtmfRelay \<Rightarrow> DtmfRelay \<times> DtmfRelayOutput list" where
  "relay_run [] r = (r, [])"
| "relay_run (e # es) r =
     (let (r', out) = DtmfRelay_process_event r e; (r'', out') = relay_run es r' in (r'', out @ out'))"

lemma relay_run_append:
  "relay_run (es @ es') r =
     (fst (relay_run es' (fst (relay_run es r))),
      snd (relay_run es r) @ snd (relay_run es' (fst (relay_run es r))))"
  by (induction es arbitrary: r) (simp_all add: case_prod_unfold Let_def)

fun detect_run :: "(bytes \<times> u32) list \<Rightarrow> Rfc2833Detector \<Rightarrow> (Rfc2833Detector \<times> DtmfEvent list) option" where
  "detect_run [] det = Some (det, [])"
| "detect_run ((d, ts) # ps) det =
     (case Rfc2833Detector_process_with_timestamp det d ts of
        Some (det', Inr evs) \<Rightarrow>
          (case detect_run ps det' of Some (det'', evs') \<Rightarrow> Some (det'', evs @ evs') | None \<Rightarrow> None)
      | Some (det', Inl _) \<Rightarrow> detect_run ps det'
      | None \<Rightarrow> None)"

text \<open>The events of one inband press, and the packets of interval \<open>k\<close> it becomes.\<close>

definition press :: "DtmfDigit \<Rightarrow> nat \<Rightarrow> DtmfEvent list" where
  "press d n = DtmfEvent_new d ET_Start Inband # replicate n (DtmfEvent_new d ET_Continue Inband) @
     [DtmfEvent_new d ET_End Inband]"

definition press_packets :: "DtmfDigit \<Rightarrow> u16 \<Rightarrow> nat \<Rightarrow> Rfc2833Event list" where
  "press_packets d k n = map (\<lambda>i. Rfc2833Event_for_digit d False (of_nat i * k)) [0..<Suc n] @
     replicate 3 (Rfc2833Event_for_digit d True (of_nat (Suc n) * k))"

lemma relay_continues:
  assumes "inband_to_rfc2833 (relay_config r)" "active_digits r d = Some g" "gen_digit g = Some d"
    and "gen_duration g = of_nat m * k" "gen_packet_interval g = k"
  shows "relay_run (replicate n (DtmfEvent_new d ET_Continue Inband)) r =
    (r\<lparr>active_digits := (active_digits r)(d \<mapsto> g\<lparr>gen_duration := of_nat (m + n) * k\<rparr>)\<rparr>,
     map (\<lambda>i. Rfc2833Packet (Rfc2833Event_for_digit d False (of_nat i * k))) [Suc m..<Suc (m + n)])"
  using assms
proof (induction n arbitrary: r g m)
  case 0
  then show ?case by (auto simp: fun_upd_idem)
next
  case (Suc n)
  let ?g = "g\<lparr>gen_duration := of_nat (Suc m) * k\<rparr>"
  let ?r = "r\<lparr>active_digits := (active_digits r)(d \<mapsto> ?g)\<rparr>"
  have "DtmfRelay_process_event r (DtmfEvent_new d ET_Continue Inband) =
      (?r, [Rfc2833Packet (Rfc2833Event_for_digit d False (of_nat (Suc m) * k))])"
    using Suc.prems by (simp add: DtmfRelay_process_event_def DtmfRelay_handle_continue_def DtmfEvent_new_def
        Rfc2833Generator_continue_digit_def Let_def algebra_simps)
  moreover have "relay_run (replicate n (DtmfEvent_new d ET_Continue Inband)) ?r =
      (?r\<lparr>active_digits := (active_digits ?r)(d \<mapsto> ?g\<lparr>gen_duration := of_nat (Suc m + n) * k\<rparr>)\<rparr>,
       map (\<lambda>i. Rfc2833Packet (Rfc2833Event_for_digit d False (of_nat i * k))) [Suc (Suc m)..<Suc (Suc m + n)])"
    using Suc.prems by (intro Suc.IH) simp_all
  moreover have "?r\<lparr>active_digits := (active_digits ?r)(d \<mapsto> ?g\<lparr>gen_duration := of_nat (Suc m + n) * k\<rparr>)\<rparr> =
      r\<lparr>active_digits := (active_digits r)(d \<mapsto> g\<lparr>gen_duration := of_nat (m + Suc n) * k\<rparr>)\<rparr>"
    by simp
  moreover have "[Suc m..<Suc (m + Suc n)] = Suc m # [Suc (Suc m)..<Suc (Suc m + n)]"
    by (simp add: upt_conv_Cons del: upt_Suc)
  ultimately show ?case
    by (simp only: replicate_Suc relay_run.simps Let_def prod.case list.map append_Cons append_Nil)
qed

lemma relay_press:
  assumes "inband_to_rfc2833 cfg"
  shows "relay_run (press d n) (DtmfRelay_new cfg) =
    (DtmfRelay_new cfg, map Rfc2833Packet (press_packets d
       (ucast (relay_sample_rate cfg * packet_interval_ms cfg div 1000)) n))"
proof -
  define k :: u16 where "k = ucast (relay_sample_rate cfg * packet_interval_ms cfg div 1000)"
  define g where "g = (Rfc2833Generator_new (relay_sample_rate cfg) (packet_interval_ms cfg))\<lparr>gen_digit := Some d\<rparr>"
  define r where "r = (DtmfRelay_new cfg)\<lparr>active_digits := [d \<mapsto> g]\<rparr>"
  let ?g = "g\<lparr>gen_duration := of_nat (0 + n) * k\<rparr>"
  let ?r = "r\<lparr>active_digits := (active_digits r)(d \<mapsto> ?g)\<rparr>"
  have start: "DtmfRelay_process_event (DtmfRelay_new cfg) (DtmfEvent_new d ET_Start Inband) =
      (r, [Rfc2833Packet (Rfc2833Event_for_digit d False (of_nat 0 * k))])"
    using assms
    by (simp add: DtmfRelay_process_event_def DtmfRelay_handle_start_def DtmfEvent_new_def r_def g_def
        Rfc2833Generator_start_digit_def Rfc2833Generator_new_def DtmfRelay_new_def Let_def)
  have continues: "relay_run (replicate n (DtmfEvent_new d ET_Continue Inband)) r =
      (?r, map (\<lambda>i. Rfc2833Packet (Rfc2833Event_for_digit d False (of_nat i * k))) [Suc 0..<Suc (0 + n)])"
    using assms by (intro relay_continues)
      (simp_all add: r_def g_def DtmfRelay_new_def Rfc2833Generator_new_def k_def)
  have end': "DtmfRelay_process_event ?r (DtmfEvent_new d ET_End Inband) =
      (DtmfRelay_new cfg, replicate 3 (Rfc2833Packet (Rfc2833Event_for_digit d True (of_nat (Suc n) * k))))"
    using assms
    by (simp add: DtmfRelay_process_event_def DtmfRelay_handle_end_def DtmfEvent_new_def r_def g_def
        Rfc2833Generator_end_digit_def Rfc2833Generator_new_def DtmfRelay_new_def Let_def k_def
        algebra_simps numeral_eq_Suc)
  have "[0..<Suc n] = 0 # [Suc 0..<Suc (0 + n)]"
    by (simp add: upt_conv_Cons del: upt_Suc)
  then show ?thesis
    unfolding press_def press_packets_def k_def [symmetric] relay_run.simps start
    by (simp only: relay_run_append relay_run.simps continues end' Let_def prod.case fst_conv snd_conv
        append_Nil2 map_append list.map map_replicate map_map comp_def append_Cons append_Nil)
qed

text \<open>What the detector makes of a generated packet.\<close>

lemma for_digit_read:
  "Rfc2833Event_from_bytes (Rfc2833Event_to_bytes (Rfc2833Event_for_digit d e du)) =
     Inr (Rfc2833Event_for_digit d e du)"
proof -
  have "rfc_wf (Rfc2833Event_for_digit d e du)"
    using event_code_small
    by (simp add: rfc_wf_def Rfc2833Event_for_digit_def Rfc2833Event_DEFAULT_VOLUME_def)
  from rfc_from_to_bytes [OF this, of "[]"] show ?thesis by simp
qed

lemma for_digit_fields [simp]:
  "Rfc2833Event_digit (Rfc2833Event_for_digit d e du) = Some d"
  "rfc_end (Rfc2833Event_for_digit d e du) = e" "rfc_duration (Rfc2833Event_for_digit d e du) = du"
  by (simp_all add: Rfc2833Event_digit_def Rfc2833Event_for_digit_def)

definition packets_at :: "u32 \<Rightarrow> Rfc2833Event list \<Rightarrow> (bytes \<times> u32) list" where
  "packets_at ts es = map (\<lambda>e. (Rfc2833Event_to_bytes e, ts)) es"

definition detected :: "u32 \<Rightarrow> Rfc2833Event list \<Rightarrow> Rfc2833Detector \<Rightarrow> DtmfEventType list option" where
  "detected ts es det = map_option (map ev_type \<circ> snd) (detect_run (packets_at ts es) det)"

lemma detected_Nil [simp]: "detected ts [] det = Some []"
  by (simp add: detected_def packets_at_def)

lemma detected_Cons:
  assumes "det_sample_rate det \<noteq> 0"
  shows "detected ts (Rfc2833Event_for_digit d e du # es) det =
    (let is_new = (case last_event det of None \<Rightarrow> True | Some (l, _) \<Rightarrow> l \<noteq> d)
     in if is_new \<and> du = 0
        then map_option (Cons ET_Start)
               (detected ts es (if e then det else det\<lparr>last_event := Some (d, du)\<rparr>))
        else if e then map_option (Cons ET_End) (detected ts es (det\<lparr>last_event := None\<rparr>))
        else map_option (Cons ET_Continue) (detected ts es (det\<lparr>last_event := Some (d, du)\<rparr>)))"
  using assms
  by (auto simp: detected_def packets_at_def Rfc2833Detector_process_with_timestamp_def for_digit_read
      DtmfEvent_with_timestamp_def Rfc2833Event_duration_ms_def option.map_comp comp_def Let_def
      split: option.splits)

lemma detected_continues:
  assumes "det_sample_rate det \<noteq> 0" "last_event det = Some (d, x)"
  shows "detected ts (map (\<lambda>i. Rfc2833Event_for_digit d False (f i)) is @ es) det =
    map_option (append (replicate (length is) ET_Continue))
      (detected ts es (det\<lparr>last_event := Some (d, if is = [] then x else f (last is))\<rparr>))"
  using assms
proof (induction "is" arbitrary: det x)
  case Nil
  then have "det\<lparr>last_event := Some (d, x)\<rparr> = det" by simp
  then show ?case by (simp add: option.map_ident)
next
  case (Cons i "is")
  then show ?case
    using Cons.IH [of "det\<lparr>last_event := Some (d, f i)\<rparr>" "f i"]
    by (simp add: detected_Cons option.map_comp comp_def)
qed

text \<open>
  An inband press of \<open>n + 1\<close> intervals leaves the relay as telephone-event packets of that digit:
  a first one of duration 0, one per interval with the duration so far, and three copies of the last
  with the end bit; the relay is then as before. A detector at the far end reports one start, \<open>n\<close>
  continuations and an end for each of the three copies, except that when the 16-bit duration has
  wrapped round to 0, the repeated copies look like new presses.
\<close>

theorem dtmf_press_relayed:
  assumes "inband_to_rfc2833 cfg" "rate \<noteq> 0"
  shows "let k = ucast (relay_sample_rate cfg * packet_interval_ms cfg div 1000)
    in relay_run (press d n) (DtmfRelay_new cfg) =
      (DtmfRelay_new cfg, map Rfc2833Packet (press_packets d k n)) \<and>
    detected ts (press_packets d k n) (Rfc2833Detector_new rate) =
      Some (ET_Start # replicate n ET_Continue @ ET_End #
        (if of_nat (Suc n) * k = 0 then [ET_Start, ET_Start] else [ET_End, ET_End]))"
proof -
  define k :: u16 where "k = ucast (relay_sample_rate cfg * packet_interval_ms cfg div 1000)"
  have "press_packets d k n = Rfc2833Event_for_digit d False 0 #
      map (\<lambda>i. Rfc2833Event_for_digit d False (of_nat i * k)) [Suc 0..<Suc n] @
      replicate 3 (Rfc2833Event_for_digit d True (of_nat (Suc n) * k))"
    by (simp add: press_packets_def upt_conv_Cons del: upt_Suc)
  then have "detected ts (press_packets d k n) (Rfc2833Detector_new rate) =
      Some (ET_Start # replicate n ET_Continue @ ET_End #
        (if of_nat (Suc n) * k = 0 then [ET_Start, ET_Start] else [ET_End, ET_End]))"
    using assms(2)
    by (simp add: detected_Cons detected_continues Rfc2833Detector_new_def numeral_3_eq_3 Let_def del: upt_Suc of_nat_Suc)
  then show ?thesis
    using relay_press [OF assms(1)] by (simp add: k_def Let_def del: of_nat_Suc)
qed

theorem dtmf_press_relayed_witness:
  "snd (relay_run (press Dg_Five 1) (DtmfRelay_new DtmfRelayConfig_default)) =
     map Rfc2833Packet [Rfc2833Event_for_digit Dg_Five False 0, Rfc2833Event_for_digit Dg_Five False 160,
       Rfc2833Event_for_digit Dg_Five True 320, Rfc2833Event_for_digit Dg_Five True 320,
       Rfc2833Event_for_digit Dg_Five True 320]"
  using dtmf_press_relayed [of DtmfRelayConfig_default 8000 Dg_Five 1]
  by (simp add: DtmfRelayConfig_default_def press_packets_def numeral_3_eq_3 Let_def)

text \<open>
  A press whose first packet the detector sees has a duration other than 0, because the sender
  starts counting there or the packet before was lost, is never reported as started.
\<close>

theorem rfc2833_start_missed:
  assumes "rate \<noteq> 0" "0 \<notin> set (map snd ps)"
  shows "\<exists>types. detected ts (map (\<lambda>(end', du). Rfc2833Event_for_digit d end' du) ps)
      (Rfc2833Detector_new rate) = Some types \<and> ET_Start \<notin> set types"
proof -
  let ?es = "\<lambda>ps. map (\<lambda>(end', du). Rfc2833Event_for_digit d end' du) ps"
  have "\<exists>types. detected ts (?es ps) det = Some types \<and> ET_Start \<notin> set types"
    if "det_sample_rate det \<noteq> 0" for det
    using assms(2) that
  proof (induction ps arbitrary: det)
    case (Cons p ps)
    obtain f du where p: "p = (f, du)" "du \<noteq> 0"
      using Cons.prems(1) by (cases p) auto
    obtain t1 where "detected ts (?es ps) (det\<lparr>last_event := None\<rparr>) = Some t1" "ET_Start \<notin> set t1"
      using Cons.IH [of "det\<lparr>last_event := None\<rparr>"] Cons.prems by auto
    moreover obtain t2 where "detected ts (?es ps) (det\<lparr>last_event := Some (d, du)\<rparr>) = Some t2"
      "ET_Start \<notin> set t2"
      using Cons.IH [of "det\<lparr>last_event := Some (d, du)\<rparr>"] Cons.prems by auto
    ultimately show ?case
      using p Cons.prems(2) by (cases f) (auto simp: detected_Cons Let_def)
  qed simp
  then show ?thesis
    using assms(1) by (simp add: Rfc2833Detector_new_def)
qed

theorem rfc2833_start_missed_witness:
  "\<exists>types. detected 0 [Rfc2833Event_for_digit Dg_One False 160, Rfc2833Event_for_digit Dg_One True 320]
     (Rfc2833Detector_new 8000) = Some types \<and> ET_Start \<notin> set types"
  using rfc2833_start_missed [of 8000 "[(False, 160), (True, 320)]" 0 Dg_One] by simp

end
