(* ===== verification/Dtmf_Collection.thy ===== *)
theory Dtmf_Collection
  imports Dtmf_Events
begin

text \<open>
  What happens to DTMF events after detection: \<^verbatim>\<open>crates/forge-dtmf/src/buffer.rs\<close> (collecting digits
  until a terminator or a maximum), \<^verbatim>\<open>dedup.rs\<close> (suppressing the same press detected by several
  methods) and \<^verbatim>\<open>processor.rs\<close> (detectors, deduplication and buffer together). The inband detector of
  \<^verbatim>\<open>inband.rs\<close> is floating-point signal processing: the processor takes it as an argument, a state
  \<open>'g\<close> and its operations. A call reads the clock several times: \<open>clock i\<close> is its \<open>i\<close>th reading.
\<close>

section \<open>Digit buffer\<close>

definition from_secs :: "nat \<Rightarrow> duration" where
  "from_secs s = s * 1000000000"

record DtmfBuffer =
  buf_digits :: "DtmfDigit list"
  inter_digit_timeout :: duration
  total_timeout :: "duration option"
  max_digits :: "nat option"
  last_digit_time :: "instant option"
  start_time :: instant
  terminators :: "DtmfDigit list"
  complete :: bool

definition DEFAULT_INTER_DIGIT_TIMEOUT :: duration where
  "DEFAULT_INTER_DIGIT_TIMEOUT = from_secs 3"

definition DEFAULT_TOTAL_TIMEOUT :: duration where
  "DEFAULT_TOTAL_TIMEOUT = from_secs 30"

definition DtmfBuffer_new :: "instant \<Rightarrow> DtmfBuffer" where
  "DtmfBuffer_new now =
     \<lparr>buf_digits = [], inter_digit_timeout = DEFAULT_INTER_DIGIT_TIMEOUT,
      total_timeout = Some DEFAULT_TOTAL_TIMEOUT, max_digits = None, last_digit_time = None,
      start_time = now, terminators = [Dg_Hash], complete = False\<rparr>"

definition DtmfBuffer_with_inter_digit_timeout :: "DtmfBuffer \<Rightarrow> duration \<Rightarrow> DtmfBuffer" where
  "DtmfBuffer_with_inter_digit_timeout b timeout = b\<lparr>inter_digit_timeout := timeout\<rparr>"

definition DtmfBuffer_with_total_timeout :: "DtmfBuffer \<Rightarrow> duration \<Rightarrow> DtmfBuffer" where
  "DtmfBuffer_with_total_timeout b timeout = b\<lparr>total_timeout := Some timeout\<rparr>"

definition DtmfBuffer_without_total_timeout :: "DtmfBuffer \<Rightarrow> DtmfBuffer" where
  "DtmfBuffer_without_total_timeout b = b\<lparr>total_timeout := None\<rparr>"

definition DtmfBuffer_with_max_digits :: "DtmfBuffer \<Rightarrow> nat \<Rightarrow> DtmfBuffer" where
  "DtmfBuffer_with_max_digits b m = b\<lparr>max_digits := Some m\<rparr>"

definition DtmfBuffer_with_terminators :: "DtmfBuffer \<Rightarrow> DtmfDigit list \<Rightarrow> DtmfBuffer" where
  "DtmfBuffer_with_terminators b ts = b\<lparr>terminators := ts\<rparr>"

definition DtmfBuffer_push :: "DtmfBuffer \<Rightarrow> DtmfDigit \<Rightarrow> instant \<Rightarrow> DtmfBuffer \<times> bool" where
  "DtmfBuffer_push b digit now =
     (if complete b then (b, True)
      else if digit \<in> set (terminators b) then (b\<lparr>complete := True\<rparr>, True)
      else
        let b' = b\<lparr>buf_digits := buf_digits b @ [digit], last_digit_time := Some now\<rparr>
        in case max_digits b' of
             None \<Rightarrow> (b', False)
           | Some m \<Rightarrow>
               if length (buf_digits b') \<ge> m then (b'\<lparr>complete := True\<rparr>, True) else (b', False))"

definition DtmfBuffer_is_inter_digit_timeout :: "DtmfBuffer \<Rightarrow> instant \<Rightarrow> bool" where
  "DtmfBuffer_is_inter_digit_timeout b now =
     (if complete b then True
      else (case last_digit_time b of
              Some last_time \<Rightarrow> now - last_time \<ge> inter_digit_timeout b
            | None \<Rightarrow>
                (case total_timeout b of
                   Some limit \<Rightarrow> now - start_time b \<ge> limit
                 | None \<Rightarrow> False)))"

definition DtmfBuffer_is_total_timeout :: "DtmfBuffer \<Rightarrow> instant \<Rightarrow> bool" where
  "DtmfBuffer_is_total_timeout b now =
     (case total_timeout b of Some limit \<Rightarrow> now - start_time b \<ge> limit | None \<Rightarrow> False)"

definition DtmfBuffer_is_timeout :: "DtmfBuffer \<Rightarrow> instant \<Rightarrow> bool" where
  "DtmfBuffer_is_timeout b now \<longleftrightarrow>
     DtmfBuffer_is_inter_digit_timeout b now \<or> DtmfBuffer_is_total_timeout b now"

definition DtmfBuffer_is_complete :: "DtmfBuffer \<Rightarrow> instant \<Rightarrow> bool" where
  "DtmfBuffer_is_complete b now \<longleftrightarrow> complete b \<or> DtmfBuffer_is_timeout b now"

definition DtmfBuffer_get_digits :: "DtmfBuffer \<Rightarrow> string" where
  "DtmfBuffer_get_digits b = concat (map DtmfDigit_fmt (buf_digits b))"

definition DtmfBuffer_reset :: "DtmfBuffer \<Rightarrow> instant \<Rightarrow> DtmfBuffer" where
  "DtmfBuffer_reset b now =
     b\<lparr>buf_digits := [], last_digit_time := None, start_time := now, complete := False\<rparr>"

definition DtmfBuffer_take_digits :: "DtmfBuffer \<Rightarrow> instant \<Rightarrow> DtmfBuffer \<times> string" where
  "DtmfBuffer_take_digits b now = (DtmfBuffer_reset b now, DtmfBuffer_get_digits b)"

definition DtmfBuffer_len :: "DtmfBuffer \<Rightarrow> nat" where
  "DtmfBuffer_len b = length (buf_digits b)"

definition DtmfBuffer_is_empty :: "DtmfBuffer \<Rightarrow> bool" where
  "DtmfBuffer_is_empty b \<longleftrightarrow> buf_digits b = []"

definition DtmfBuffer_clear :: "DtmfBuffer \<Rightarrow> DtmfBuffer" where
  "DtmfBuffer_clear b = b\<lparr>buf_digits := [], complete := False\<rparr>"

definition DtmfBuffer_time_since_last_digit :: "DtmfBuffer \<Rightarrow> instant \<Rightarrow> duration option" where
  "DtmfBuffer_time_since_last_digit b now = map_option (\<lambda>t. now - t) (last_digit_time b)"

definition DtmfBuffer_total_time :: "DtmfBuffer \<Rightarrow> instant \<Rightarrow> duration" where
  "DtmfBuffer_total_time b now = now - start_time b"

section \<open>Deduplication\<close>

fun DtmfMethod_priority :: "DtmfMethod \<Rightarrow> u8" where
  "DtmfMethod_priority Rfc2833 = 3"
| "DtmfMethod_priority Inband = 2"
| "DtmfMethod_priority SipInfo = 1"

record RecentEvent =
  rec_digit :: DtmfDigit
  rec_type :: DtmfEventType
  rec_method :: DtmfMethod
  rec_timestamp :: instant

record DtmfDeduplicator =
  recent_events :: "RecentEvent list"
  dedup_window :: duration
  max_recent :: nat

definition DtmfDeduplicator_with_window :: "duration \<Rightarrow> DtmfDeduplicator" where
  "DtmfDeduplicator_with_window window =
     \<lparr>recent_events = [], dedup_window = window, max_recent = 32\<rparr>"


definition recent_of :: "DtmfEvent \<Rightarrow> instant \<Rightarrow> RecentEvent" where
  "recent_of event now =
     \<lparr>rec_digit = ev_digit event, rec_type = ev_type event, rec_method = ev_method event,
      rec_timestamp = now\<rparr>"

text \<open>The closure of \<^verbatim>\<open>find_duplicate\<close>, and the position of the first match.\<close>

definition is_duplicate :: "DtmfDeduplicator \<Rightarrow> DtmfEvent \<Rightarrow> instant \<Rightarrow> RecentEvent \<Rightarrow> bool" where
  "is_duplicate dd event now recent \<longleftrightarrow>
     rec_digit recent = ev_digit event \<and> rec_type recent = ev_type event \<and>
     now - rec_timestamp recent < dedup_window dd"

fun find_position :: "('a \<Rightarrow> bool) \<Rightarrow> 'a list \<Rightarrow> nat option" where
  "find_position P [] = None"
| "find_position P (x # xs) = (if P x then Some 0 else map_option Suc (find_position P xs))"

definition find_duplicate :: "DtmfDeduplicator \<Rightarrow> DtmfEvent \<Rightarrow> instant \<Rightarrow> nat option" where
  "find_duplicate dd event now = find_position (is_duplicate dd event now) (recent_events dd)"

definition track_event :: "DtmfDeduplicator \<Rightarrow> DtmfEvent \<Rightarrow> instant \<Rightarrow> DtmfDeduplicator" where
  "track_event dd event now =
     (let recent = recent_events dd @ [recent_of event now]
      in dd\<lparr>recent_events := (if length recent > max_recent dd then tl recent else recent)\<rparr>)"

definition cleanup_expired :: "DtmfDeduplicator \<Rightarrow> instant \<Rightarrow> DtmfDeduplicator" where
  "cleanup_expired dd now =
     dd\<lparr>recent_events := dropWhile (\<lambda>front. now - rec_timestamp front \<ge> dedup_window dd) (recent_events dd)\<rparr>"

definition DtmfDeduplicator_should_publish ::
  "DtmfDeduplicator \<Rightarrow> DtmfEvent \<Rightarrow> instant \<Rightarrow> DtmfDeduplicator \<times> bool" where
  "DtmfDeduplicator_should_publish dd event now =
     (let dd = cleanup_expired dd now
      in case find_duplicate dd event now of
           Some idx \<Rightarrow>
             if DtmfMethod_priority (ev_method event) >
                DtmfMethod_priority (rec_method (recent_events dd ! idx))
             then (dd\<lparr>recent_events := (recent_events dd)[idx := recent_of event now]\<rparr>, True)
             else (dd, False)
         | None \<Rightarrow> (track_event dd event now, True))"

definition DtmfDeduplicator_reset :: "DtmfDeduplicator \<Rightarrow> DtmfDeduplicator" where
  "DtmfDeduplicator_reset dd = dd\<lparr>recent_events := []\<rparr>"

definition DtmfDeduplicator_recent_count :: "DtmfDeduplicator \<Rightarrow> nat" where
  "DtmfDeduplicator_recent_count dd = length (recent_events dd)"

section \<open>Processor\<close>

record DtmfProcessorConfig =
  enable_rfc2833 :: bool
  enable_inband :: bool
  cfg_sample_rate :: u32
  frame_size :: nat
  enable_deduplication :: bool
  cfg_dedup_window :: duration
  enable_buffering :: bool
  cfg_inter_digit_timeout :: duration
  cfg_total_timeout :: "duration option"
  cfg_max_digits :: "nat option"

definition DtmfProcessorConfig_default :: DtmfProcessorConfig where
  "DtmfProcessorConfig_default =
     \<lparr>enable_rfc2833 = True, enable_inband = True, cfg_sample_rate = 8000, frame_size = 160,
      enable_deduplication = True, cfg_dedup_window = 100 * 1000000, enable_buffering = False,
      cfg_inter_digit_timeout = from_secs 3, cfg_total_timeout = Some (from_secs 30),
      cfg_max_digits = None\<rparr>"

record 'g DtmfProcessor =
  prc_config :: DtmfProcessorConfig
  rfc2833_detector :: "Rfc2833Detector option"
  inband_detector :: "'g option"
  deduplicator :: "DtmfDeduplicator option"
  prc_buffer :: "DtmfBuffer option"

text \<open>\<open>goertzel_new\<close> is the inband detector's constructor.\<close>

definition DtmfProcessor_new :: "(u32 \<Rightarrow> nat \<Rightarrow> 'g) \<Rightarrow> DtmfProcessorConfig \<Rightarrow> instant \<Rightarrow> 'g DtmfProcessor" where
  "DtmfProcessor_new goertzel_new config now =
     \<lparr>prc_config = config,
      rfc2833_detector =
        (if enable_rfc2833 config then Some (Rfc2833Detector_new (cfg_sample_rate config)) else None),
      inband_detector =
        (if enable_inband config then Some (goertzel_new (cfg_sample_rate config) (frame_size config)) else None),
      deduplicator =
        (if enable_deduplication config
         then Some (DtmfDeduplicator_with_window (cfg_dedup_window config)) else None),
      prc_buffer =
        (if enable_buffering config
         then
           let buf = DtmfBuffer_with_inter_digit_timeout (DtmfBuffer_new now) (cfg_inter_digit_timeout config);
               buf = (case cfg_total_timeout config of
                        Some limit \<Rightarrow> DtmfBuffer_with_total_timeout buf limit
                      | None \<Rightarrow> DtmfBuffer_without_total_timeout buf)
           in Some (case cfg_max_digits config of
                      Some m \<Rightarrow> DtmfBuffer_with_max_digits buf m
                    | None \<Rightarrow> buf)
         else None)\<rparr>"

text \<open>\<^verbatim>\<open>events.retain\<close>: the \<open>i\<close>th event is judged at \<open>clock i\<close>.\<close>

fun retain_published ::
  "(nat \<Rightarrow> instant) \<Rightarrow> DtmfDeduplicator \<Rightarrow> DtmfEvent list \<Rightarrow> DtmfDeduplicator \<times> DtmfEvent list" where
  "retain_published clock dd [] = (dd, [])"
| "retain_published clock dd (e # es) =
     (let (dd', keep) = DtmfDeduplicator_should_publish dd e (clock 0);
          (dd'', es') = retain_published (\<lambda>i. clock (Suc i)) dd' es
      in (dd'', if keep then e # es' else es'))"

fun buffer_events :: "(nat \<Rightarrow> instant) \<Rightarrow> DtmfEvent list \<Rightarrow> DtmfBuffer \<Rightarrow> DtmfBuffer" where
  "buffer_events clock [] b = b"
| "buffer_events clock (e # es) b =
     buffer_events (\<lambda>i. clock (Suc i)) es
       (if ev_type e = ET_Start then fst (DtmfBuffer_push b (ev_digit e) (clock 0)) else b)"

definition filter_and_buffer_events ::
  "(nat \<Rightarrow> instant) \<Rightarrow> 'g DtmfProcessor \<Rightarrow> DtmfEvent list \<Rightarrow> 'g DtmfProcessor \<times> DtmfEvent list" where
  "filter_and_buffer_events clock p events =
     (let (p', events') =
        (case deduplicator p of
           None \<Rightarrow> (p, events)
         | Some dd \<Rightarrow>
             let (dd', kept) = retain_published clock dd events in (p\<lparr>deduplicator := Some dd'\<rparr>, kept))
      in (case prc_buffer p' of
            None \<Rightarrow> p'
          | Some b \<Rightarrow>
              p'\<lparr>prc_buffer := Some (buffer_events (\<lambda>i. clock (length events + i)) events' b)\<rparr>,
          events'))"

text \<open>No value: the detector panicked.\<close>

definition DtmfProcessor_process_rfc2833 ::
  "(nat \<Rightarrow> instant) \<Rightarrow> 'g DtmfProcessor \<Rightarrow> bytes \<Rightarrow> u32 \<Rightarrow>
   ('g DtmfProcessor \<times> (DtmfError + DtmfEvent list)) option" where
  "DtmfProcessor_process_rfc2833 clock p d timestamp =
     (case rfc2833_detector p of
        None \<Rightarrow> Some (p, Inr [])
      | Some det \<Rightarrow>
          (case Rfc2833Detector_process_with_timestamp det d timestamp of
             None \<Rightarrow> None
           | Some (det', Inl e) \<Rightarrow> Some (p\<lparr>rfc2833_detector := Some det'\<rparr>, Inl e)
           | Some (det', Inr events) \<Rightarrow>
               let (p', events') =
                 filter_and_buffer_events clock (p\<lparr>rfc2833_detector := Some det'\<rparr>) events
               in Some (p', Inr events')))"

text \<open>
  \<^verbatim>\<open>process_audio\<close> and \<^verbatim>\<open>process_audio_bytes\<close> differ in the inband operation they call, the argument
  \<open>detect\<close>.
\<close>

definition DtmfProcessor_process_audio ::
  "('g \<Rightarrow> 'a \<Rightarrow> 'g \<times> (DtmfError + DtmfEvent list)) \<Rightarrow> (nat \<Rightarrow> instant) \<Rightarrow> 'g DtmfProcessor \<Rightarrow> 'a \<Rightarrow>
   'g DtmfProcessor \<times> (DtmfError + DtmfEvent list)" where
  "DtmfProcessor_process_audio detect clock p samples =
     (case inband_detector p of
        None \<Rightarrow> (p, Inr [])
      | Some g \<Rightarrow>
          (case detect g samples of
             (g', Inl e) \<Rightarrow> (p\<lparr>inband_detector := Some g'\<rparr>, Inl e)
           | (g', Inr events) \<Rightarrow>
               let (p', events') =
                 filter_and_buffer_events clock (p\<lparr>inband_detector := Some g'\<rparr>) events
               in (p', Inr events')))"

definition DtmfProcessor_reset :: "('g \<Rightarrow> 'g) \<Rightarrow> 'g DtmfProcessor \<Rightarrow> instant \<Rightarrow> 'g DtmfProcessor" where
  "DtmfProcessor_reset goertzel_reset p now =
     p\<lparr>rfc2833_detector := map_option Rfc2833Detector_reset (rfc2833_detector p),
       inband_detector := map_option goertzel_reset (inband_detector p),
       deduplicator := map_option DtmfDeduplicator_reset (deduplicator p),
       prc_buffer := map_option (\<lambda>b. DtmfBuffer_reset b now) (prc_buffer p)\<rparr>"

section \<open>What the buffer collects\<close>

definition push_all :: "(DtmfDigit \<times> instant) list \<Rightarrow> DtmfBuffer \<Rightarrow> DtmfBuffer" where
  "push_all ps b = foldl (\<lambda>b (d, now). fst (DtmfBuffer_push b d now)) b ps"

lemma push_all_simps [simp]:
  "push_all [] b = b"
  "push_all ((d, now) # ps) b = push_all ps (fst (DtmfBuffer_push b d now))"
  "push_all (ps @ qs) b = push_all qs (push_all ps b)"
  by (simp_all add: push_all_def)

text \<open>
  The reference: the digits before the first terminator, at most the maximum of them, and at least
  one even where the maximum is 0.
\<close>

definition digit_limit :: "DtmfBuffer \<Rightarrow> nat option" where
  "digit_limit b = map_option (max 1) (max_digits b)"

definition collected :: "DtmfBuffer \<Rightarrow> DtmfDigit list \<Rightarrow> DtmfDigit list" where
  "collected b ds =
     (let w = takeWhile (\<lambda>d. d \<notin> set (terminators b)) ds
      in case digit_limit b of None \<Rightarrow> w | Some n \<Rightarrow> take n w)"

definition collection_done :: "DtmfBuffer \<Rightarrow> DtmfDigit list \<Rightarrow> bool" where
  "collection_done b ds \<longleftrightarrow>
     list_ex (\<lambda>d. d \<in> set (terminators b)) ds \<or>
     (case digit_limit b of None \<Rightarrow> False | Some n \<Rightarrow> n \<le> length ds)"

lemma takeWhile_no_terminator:
  "\<not> list_ex P ds \<Longrightarrow> takeWhile (\<lambda>d. \<not> P d) ds = ds"
  by (induction ds) auto

lemma takeWhile_terminator:
  "list_ex P ds \<Longrightarrow> takeWhile (\<lambda>d. \<not> P d) (ds @ es) = takeWhile (\<lambda>d. \<not> P d) ds"
  by (induction ds) auto

lemma collected_snoc:
  "collected b (ds @ [d]) =
     (if collection_done b ds \<or> d \<in> set (terminators b) then collected b ds else collected b ds @ [d])"
  "collection_done b (ds @ [d]) \<longleftrightarrow>
     collection_done b ds \<or> d \<in> set (terminators b) \<or>
     (case digit_limit b of None \<Rightarrow> False | Some n \<Rightarrow> n \<le> Suc (length ds))"
proof -
  let ?P = "\<lambda>d. d \<in> set (terminators b)"
  show "collected b (ds @ [d]) =
     (if collection_done b ds \<or> d \<in> set (terminators b) then collected b ds else collected b ds @ [d])"
  proof (cases "list_ex ?P ds")
    case True
    then show ?thesis
      by (simp add: collected_def collection_done_def takeWhile_terminator)
  next
    case False
    then have "takeWhile (\<lambda>d. \<not> ?P d) ds = ds"
      "takeWhile (\<lambda>d. \<not> ?P d) (ds @ [d]) = (if ?P d then ds else ds @ [d])"
      by (simp_all add: takeWhile_no_terminator takeWhile_append list_ex_iff)
    with False show ?thesis
      by (simp add: collected_def collection_done_def Let_def del: takeWhile_eq_all_conv split: option.splits)
  qed
qed (auto simp: collection_done_def split: option.splits)

lemma collected_length:
  "\<not> collection_done b ds \<Longrightarrow> collected b ds = ds"
  by (auto simp: collected_def collection_done_def takeWhile_no_terminator Let_def simp del: takeWhile_eq_all_conv
      split: option.splits)

text \<open>\<open>b\<close> was pushed \<open>ds\<close> into the empty \<open>b0\<close>, whose configuration it keeps.\<close>

definition holds :: "DtmfBuffer \<Rightarrow> DtmfBuffer \<Rightarrow> DtmfDigit list \<Rightarrow> bool" where
  "holds b0 b ds \<longleftrightarrow>
     terminators b = terminators b0 \<and> max_digits b = max_digits b0 \<and>
     buf_digits b = collected b0 ds \<and> complete b = collection_done b0 ds"


lemma push_holds:
  assumes "holds b0 b ds"
  shows "holds b0 (fst (DtmfBuffer_push b d now)) (ds @ [d])"
proof -
  have limit: "(case digit_limit b0 of None \<Rightarrow> False | Some n \<Rightarrow> n \<le> Suc k) \<longleftrightarrow>
      (case max_digits b0 of None \<Rightarrow> False | Some m \<Rightarrow> m \<le> Suc k)" for k
    by (simp add: digit_limit_def split: option.splits)
  show ?thesis
    using assms collected_length [of b0 ds]
    by (auto simp: holds_def collected_snoc limit DtmfBuffer_push_def Let_def split: option.splits)
qed


lemma holds_empty: "buf_digits b = [] \<Longrightarrow> \<not> complete b \<Longrightarrow> holds b b []"
  by (auto simp: holds_def collected_def collection_done_def digit_limit_def split: option.splits)



section \<open>What deduplication publishes\<close>



text \<open>
  The deduplicator stands for the specification at time \<open>now\<close>: its live entries have different keys
  and are those of the specification. Expired entries may linger behind a refreshed one.
\<close>

definition rec_key :: "RecentEvent \<Rightarrow> DtmfDigit \<times> DtmfEventType" where
  "rec_key r = (rec_digit r, rec_type r)"











lemma cleanup_fields [simp]:
  "dedup_window (cleanup_expired dd now) = dedup_window dd"
  "max_recent (cleanup_expired dd now) = max_recent dd"
  by (simp_all add: cleanup_expired_def)





lemma recent_of_simps [simp]:
  "rec_key (recent_of e now) = (ev_digit e, ev_type e)"
  "rec_method (recent_of e now) = ev_method e" "rec_timestamp (recent_of e now) = now"
  by (simp_all add: rec_key_def recent_of_def)











section \<open>The processor\<close>

text \<open>
  A call of the processor with the clock it reads: a telephone-event payload with its timestamp, or
  samples for the inband detector. A run collects what the calls return, where none panics; a call
  that fails returns no events.
\<close>

datatype 'a dtmf_call = Telephone bytes u32 | Samples 'a

definition process_call ::
  "('g \<Rightarrow> 'a \<Rightarrow> 'g \<times> (DtmfError + DtmfEvent list)) \<Rightarrow> (nat \<Rightarrow> instant) \<Rightarrow> 'a dtmf_call \<Rightarrow> 'g DtmfProcessor \<Rightarrow>
   ('g DtmfProcessor \<times> (DtmfError + DtmfEvent list)) option" where
  "process_call detect clock c p =
     (case c of
        Telephone d ts \<Rightarrow> DtmfProcessor_process_rfc2833 clock p d ts
      | Samples s \<Rightarrow> Some (DtmfProcessor_process_audio detect clock p s))"

fun process_run ::
  "('g \<Rightarrow> 'a \<Rightarrow> 'g \<times> (DtmfError + DtmfEvent list)) \<Rightarrow> ((nat \<Rightarrow> instant) \<times> 'a dtmf_call) list \<Rightarrow>
   'g DtmfProcessor \<Rightarrow> ('g DtmfProcessor \<times> DtmfEvent list) option" where
  "process_run detect [] p = Some (p, [])"
| "process_run detect ((clock, c) # cs) p =
     (case process_call detect clock c p of
        None \<Rightarrow> None
      | Some (p', r) \<Rightarrow>
          map_option (\<lambda>(p'', out). (p'', (case r of Inl e \<Rightarrow> [] | Inr es \<Rightarrow> es) @ out))
            (process_run detect cs p'))"

definition start_digits :: "DtmfEvent list \<Rightarrow> DtmfDigit list" where
  "start_digits es = map ev_digit (filter (\<lambda>e. ev_type e = ET_Start) es)"

lemma start_digits_append [simp]: "start_digits (es @ fs) = start_digits es @ start_digits fs"
  by (simp add: start_digits_def)

lemma buffer_events_holds:
  "holds b0 b ds \<Longrightarrow> holds b0 (buffer_events clock es b) (ds @ start_digits es)"
proof (induction es arbitrary: clock b ds)
  case (Cons e es)
  then show ?case
    using push_holds [of b0 b ds "ev_digit e" "clock 0"]
      Cons.IH [of "fst (DtmfBuffer_push b (ev_digit e) (clock 0))" "ds @ [ev_digit e]"]
    by (simp add: start_digits_def)
qed (simp add: start_digits_def)

lemma filter_and_buffer_holds:
  assumes "filter_and_buffer_events clock p es = (p', out)" "prc_buffer p = Some b" "holds b0 b ds"
  shows "\<exists>b'. prc_buffer p' = Some b' \<and> holds b0 b' (ds @ start_digits out)"
  using assms buffer_events_holds [OF assms(3)]
  by (auto simp: filter_and_buffer_events_def Let_def case_prod_beta split: option.splits)

lemma process_call_holds:
  assumes "process_call detect clock c p = Some (p', r)" "prc_buffer p = Some b" "holds b0 b ds"
  shows "\<exists>b'. prc_buffer p' = Some b' \<and> holds b0 b' (ds @ start_digits (case r of Inl e \<Rightarrow> [] | Inr es \<Rightarrow> es))"
  using assms
  by (auto simp: process_call_def DtmfProcessor_process_rfc2833_def DtmfProcessor_process_audio_def
      start_digits_def [of "[]"] case_prod_beta Let_def
      split: dtmf_call.splits option.splits sum.splits prod.splits
      intro: filter_and_buffer_holds)

lemma process_run_holds:
  assumes "process_run detect cs p = Some (p', out)" "prc_buffer p = Some b" "holds b0 b ds"
  shows "\<exists>b'. prc_buffer p' = Some b' \<and> holds b0 b' (ds @ start_digits out)"
  using assms
proof (induction cs arbitrary: p b ds out)
  case (Cons c cs)
  obtain clock c' where c: "c = (clock, c')" by (cases c)
  obtain p1 r out' where 1: "process_call detect clock c' p = Some (p1, r)"
    and 2: "process_run detect cs p1 = Some (p', out')"
    and out: "out = (case r of Inl e \<Rightarrow> [] | Inr es \<Rightarrow> es) @ out'"
    using Cons.prems(1) c by (auto split: option.splits)
  obtain b1 where "prc_buffer p1 = Some b1"
    "holds b0 b1 (ds @ start_digits (case r of Inl e \<Rightarrow> [] | Inr es \<Rightarrow> es))"
    using process_call_holds [OF 1 Cons.prems(2,3)] by blast
  from Cons.IH [OF 2 this] show ?case
    by (simp add: out)
qed (simp add: start_digits_def)

text \<open>
  A processor with buffering, whatever its other settings and its inband detector, keeps in its
  buffer the digits of the start events its calls have returned, cut at the first \<open>#\<close> and at the
  configured maximum, and the buffer is complete exactly when one of the two was reached.
\<close>

theorem dtmf_processor_buffer:
  assumes "enable_buffering cfg"
    "process_run detect cs (DtmfProcessor_new goertzel_new cfg now) = Some (p, out)"
  shows "\<exists>b. prc_buffer p = Some b \<and> terminators b = [Dg_Hash] \<and> max_digits b = cfg_max_digits cfg \<and>
    buf_digits b = collected b (start_digits out) \<and> complete b = collection_done b (start_digits out)"
proof -
  obtain b0 where b0: "prc_buffer (DtmfProcessor_new goertzel_new cfg now) = Some b0"
    "buf_digits b0 = []" "\<not> complete b0" "terminators b0 = [Dg_Hash]" "max_digits b0 = cfg_max_digits cfg"
    using assms(1)
    by (auto simp: DtmfProcessor_new_def DtmfBuffer_new_def DtmfBuffer_with_inter_digit_timeout_def
        DtmfBuffer_with_total_timeout_def DtmfBuffer_without_total_timeout_def
        DtmfBuffer_with_max_digits_def Let_def split: option.splits)
  obtain b where b: "prc_buffer p = Some b" "holds b0 b (start_digits out)"
    using process_run_holds [OF assms(2) b0(1) holds_empty [OF b0(2,3)]] by auto
  then have "collected b0 = collected b" "collection_done b0 = collection_done b"
    by (simp_all add: holds_def fun_eq_iff collected_def collection_done_def digit_limit_def)
  with b b0 show ?thesis
    by (auto simp: holds_def)
qed

theorem dtmf_processor_buffer_witness:
  "\<exists>p out b. process_run (\<lambda>g s. (g, Inr [])) [(\<lambda>i. 5, Telephone [5, 10, 0, 0] 1000), (\<lambda>i. 9, Samples ())]
      (DtmfProcessor_new (\<lambda>rate size. ()) (DtmfProcessorConfig_default\<lparr>enable_buffering := True\<rparr>) 0) = Some (p, out) \<and>
    prc_buffer p = Some b \<and> start_digits out = [Dg_Five] \<and> buf_digits b = [Dg_Five]"
proof -
  let ?p = "DtmfProcessor_new (\<lambda>rate size. ()) (DtmfProcessorConfig_default\<lparr>enable_buffering := True\<rparr>) 0"
  obtain p out where run: "process_run (\<lambda>g s. (g, Inr [])) [(\<lambda>i. 5, Telephone [5, 10, 0, 0] 1000), (\<lambda>i. 9, Samples ())] ?p
      = Some (p, out)" and out: "start_digits out = [Dg_Five]"
    by (simp add: process_call_def DtmfProcessor_process_rfc2833_def DtmfProcessor_process_audio_def
        DtmfProcessor_new_def DtmfProcessorConfig_default_def Rfc2833Detector_new_def
        Rfc2833Detector_process_with_timestamp_def Rfc2833Event_from_bytes_def Rfc2833Event_MIN_SIZE_def
        Rfc2833Event_new_def Rfc2833Event_digit_def DtmfDigit_from_event_code_def be16_def Let_def
        filter_and_buffer_events_def DtmfDeduplicator_should_publish_def find_duplicate_def
        DtmfDeduplicator_with_window_def cleanup_expired_def track_event_def DtmfEvent_with_timestamp_def
        Rfc2833Event_duration_ms_def start_digits_def)
  from dtmf_processor_buffer [OF _ run] obtain b where "prc_buffer p = Some b"
    "terminators b = [Dg_Hash]" "max_digits b = None" "buf_digits b = collected b [Dg_Five]"
    by (auto simp: DtmfProcessorConfig_default_def out)
  with run out show ?thesis
    by (intro exI [of _ p] exI [of _ out] exI [of _ b])
      (simp add: collected_def digit_limit_def)
qed

end
