(* ===== verification/G711.thy ===== *)
theory G711
  imports Forge_Prelude
begin

text \<open>
  The G.711 codecs of \<^verbatim>\<open>crates/forge-codecs/src/g711.rs\<close>. The decoding tables are those of the
  source; the encoding tables are computed from them, for each of the 65536 samples the code whose
  decoding is nearest. The decoding tables are shown to be the ITU-T G.711 expansion, and encoding to
  be the nearest code, with the resulting error. The intermediate \<^verbatim>\<open>i32\<close> values are differences of
  16-bit samples and are \<^typ>\<open>int\<close>. The two \<^verbatim>\<open>*_ENC_TABLE\<close> constants of the source are not used by it.
\<close>

section \<open>Definitions\<close>

type_synonym i16 = "16 word"

definition ULAW_DEC_TABLE :: "int list" where
  "ULAW_DEC_TABLE = [
    - 32124, - 31100, - 30076, - 29052, - 28028, - 27004, - 25980, - 24956, - 23932, - 22908,
    - 21884, - 20860, - 19836, - 18812, - 17788, - 16764, - 15996, - 15484, - 14972, - 14460,
    - 13948, - 13436, - 12924, - 12412, - 11900, - 11388, - 10876, - 10364, - 9852, - 9340,
    - 8828, - 8316, - 7932, - 7676, - 7420, - 7164, - 6908, - 6652, - 6396, - 6140, - 5884,
    - 5628, - 5372, - 5116, - 4860, - 4604, - 4348, - 4092, - 3900, - 3772, - 3644, - 3516,
    - 3388, - 3260, - 3132, - 3004, - 2876, - 2748, - 2620, - 2492, - 2364, - 2236, - 2108,
    - 1980, - 1884, - 1820, - 1756, - 1692, - 1628, - 1564, - 1500, - 1436, - 1372, - 1308,
    - 1244, - 1180, - 1116, - 1052, - 988, - 924, - 876, - 844, - 812, - 780, - 748, - 716,
    - 684, - 652, - 620, - 588, - 556, - 524, - 492, - 460, - 428, - 396, - 372, - 356, - 340,
    - 324, - 308, - 292, - 276, - 260, - 244, - 228, - 212, - 196, - 180, - 164, - 148, - 132,
    - 120, - 112, - 104, - 96, - 88, - 80, - 72, - 64, - 56, - 48, - 40, - 32, - 24, - 16, - 8,
    0, 32124, 31100, 30076, 29052, 28028, 27004, 25980, 24956, 23932, 22908, 21884, 20860, 19836,
    18812, 17788, 16764, 15996, 15484, 14972, 14460, 13948, 13436, 12924, 12412, 11900, 11388,
    10876, 10364, 9852, 9340, 8828, 8316, 7932, 7676, 7420, 7164, 6908, 6652, 6396, 6140, 5884,
    5628, 5372, 5116, 4860, 4604, 4348, 4092, 3900, 3772, 3644, 3516, 3388, 3260, 3132, 3004,
    2876, 2748, 2620, 2492, 2364, 2236, 2108, 1980, 1884, 1820, 1756, 1692, 1628, 1564, 1500,
    1436, 1372, 1308, 1244, 1180, 1116, 1052, 988, 924, 876, 844, 812, 780, 748, 716, 684, 652,
    620, 588, 556, 524, 492, 460, 428, 396, 372, 356, 340, 324, 308, 292, 276, 260, 244, 228,
    212, 196, 180, 164, 148, 132, 120, 112, 104, 96, 88, 80, 72, 64, 56, 48, 40, 32, 24, 16, 8, 0]"

definition ALAW_DEC_TABLE :: "int list" where
  "ALAW_DEC_TABLE = [
    - 5504, - 5248, - 6016, - 5760, - 4480, - 4224, - 4992, - 4736, - 7552, - 7296, - 8064,
    - 7808, - 6528, - 6272, - 7040, - 6784, - 2752, - 2624, - 3008, - 2880, - 2240, - 2112,
    - 2496, - 2368, - 3776, - 3648, - 4032, - 3904, - 3264, - 3136, - 3520, - 3392, - 22016,
    - 20992, - 24064, - 23040, - 17920, - 16896, - 19968, - 18944, - 30208, - 29184, - 32256,
    - 31232, - 26112, - 25088, - 28160, - 27136, - 11008, - 10496, - 12032, - 11520, - 8960,
    - 8448, - 9984, - 9472, - 15104, - 14592, - 16128, - 15616, - 13056, - 12544, - 14080,
    - 13568, - 344, - 328, - 376, - 360, - 280, - 264, - 312, - 296, - 472, - 456, - 504, - 488,
    - 408, - 392, - 440, - 424, - 88, - 72, - 120, - 104, - 24, - 8, - 56, - 40, - 216, - 200,
    - 248, - 232, - 152, - 136, - 184, - 168, - 1376, - 1312, - 1504, - 1440, - 1120, - 1056,
    - 1248, - 1184, - 1888, - 1824, - 2016, - 1952, - 1632, - 1568, - 1760, - 1696, - 688, - 656,
    - 752, - 720, - 560, - 528, - 624, - 592, - 944, - 912, - 1008, - 976, - 816, - 784, - 880,
    - 848, 5504, 5248, 6016, 5760, 4480, 4224, 4992, 4736, 7552, 7296, 8064, 7808, 6528, 6272,
    7040, 6784, 2752, 2624, 3008, 2880, 2240, 2112, 2496, 2368, 3776, 3648, 4032, 3904, 3264,
    3136, 3520, 3392, 22016, 20992, 24064, 23040, 17920, 16896, 19968, 18944, 30208, 29184,
    32256, 31232, 26112, 25088, 28160, 27136, 11008, 10496, 12032, 11520, 8960, 8448, 9984, 9472,
    15104, 14592, 16128, 15616, 13056, 12544, 14080, 13568, 344, 328, 376, 360, 280, 264, 312,
    296, 472, 456, 504, 488, 408, 392, 440, 424, 88, 72, 120, 104, 24, 8, 56, 40, 216, 200, 248,
    232, 152, 136, 184, 168, 1376, 1312, 1504, 1440, 1120, 1056, 1248, 1184, 1888, 1824, 2016,
    1952, 1632, 1568, 1760, 1696, 688, 656, 752, 720, 560, 528, 624, 592, 944, 912, 1008, 976,
    816, 784, 880, 848]"

text \<open>The search for the nearest code, the body of both generators, over a decoding table.\<close>

definition nearest_step :: "int list \<Rightarrow> int \<Rightarrow> nat \<Rightarrow> u8 \<times> int \<Rightarrow> u8 \<times> int" where
  "nearest_step table pcm code best =
     (case best of
        (best_code, best_error) \<Rightarrow>
          let error = \<bar>table ! code - pcm\<bar>
          in if error < best_error then (of_nat code, error) else (best_code, best_error))"

definition nearest_code :: "int list \<Rightarrow> int \<Rightarrow> u8" where
  "nearest_code table pcm = fst (fold (nearest_step table pcm) [0..<256] (0, 2 ^ 31 - 1))"

definition generate_ulaw_encode_table :: "u8 list" where
  "generate_ulaw_encode_table = map (\<lambda>i. nearest_code ULAW_DEC_TABLE (int i - 32768)) [0..<65536]"

definition generate_alaw_encode_table :: "u8 list" where
  "generate_alaw_encode_table = map (\<lambda>i. nearest_code ALAW_DEC_TABLE (int i - 32768)) [0..<65536]"

definition encode_ulaw :: "i16 \<Rightarrow> u8" where
  "encode_ulaw pcm = generate_ulaw_encode_table ! nat (sint pcm + 32768)"

definition decode_ulaw :: "u8 \<Rightarrow> i16" where
  "decode_ulaw ulaw = word_of_int (ULAW_DEC_TABLE ! unat ulaw)"

definition encode_alaw :: "i16 \<Rightarrow> u8" where
  "encode_alaw pcm = generate_alaw_encode_table ! nat (sint pcm + 32768)"

definition decode_alaw :: "u8 \<Rightarrow> i16" where
  "decode_alaw alaw = word_of_int (ALAW_DEC_TABLE ! unat alaw)"

definition G711MuLaw_encode :: "i16 list \<Rightarrow> u8 list" where
  "G711MuLaw_encode pcm = map encode_ulaw pcm"

definition G711MuLaw_decode :: "u8 list \<Rightarrow> i16 list" where
  "G711MuLaw_decode encoded = map decode_ulaw encoded"

definition G711ALaw_encode :: "i16 list \<Rightarrow> u8 list" where
  "G711ALaw_encode pcm = map encode_alaw pcm"

definition G711ALaw_decode :: "u8 list \<Rightarrow> i16 list" where
  "G711ALaw_decode encoded = map decode_alaw encoded"

section \<open>The expansion of ITU-T G.711\<close>

text \<open>
  A \<open>\<mu>\<close>-law code is transmitted inverted: sign, three bits of exponent, four of mantissa. An A-law code
  is transmitted with every other bit inverted. The values are those of the recommendation, scaled to
  16 bits.
\<close>

definition ulaw_expand :: "nat \<Rightarrow> int" where
  "ulaw_expand c =
     (let c' = 255 - c; e = c' div 16 mod 8; m = int (c' mod 16);
          v = (2 * m + 33) * 2 ^ e - 33
      in if c' < 128 then 4 * v else - (4 * v))"

definition alaw_expand :: "nat \<Rightarrow> int" where
  "alaw_expand c =
     (let c' = unat ((of_nat c :: u8) XOR 0x55); e = c' div 16 mod 8; m = int (c' mod 16);
          v = (if e = 0 then 2 * m + 1 else (2 * m + 33) * 2 ^ (e - 1))
      in if c' \<ge> 128 then 8 * v else - (8 * v))"

lemma ULAW_DEC_TABLE_eq: "ULAW_DEC_TABLE = map ulaw_expand [0..<256]"
  by code_simp

lemma ALAW_DEC_TABLE_eq: "ALAW_DEC_TABLE = map alaw_expand [0..<256]"
  by code_simp

section \<open>The nearest code\<close>

text \<open>\<open>best\<close> is the first of the codes below \<open>n\<close> that comes nearest to \<open>pcm\<close>, with its error.\<close>

definition is_nearest :: "int list \<Rightarrow> int \<Rightarrow> nat \<Rightarrow> u8 \<times> int \<Rightarrow> bool" where
  "is_nearest table pcm n best \<longleftrightarrow>
     unat (fst best) < n \<and> snd best = \<bar>table ! unat (fst best) - pcm\<bar> \<and>
     (\<forall>k < n. snd best \<le> \<bar>table ! k - pcm\<bar>) \<and> (\<forall>k < unat (fst best). snd best < \<bar>table ! k - pcm\<bar>)"

lemma bracket:
  "successively R (x # xs) \<Longrightarrow> x \<le> (p :: int) \<Longrightarrow> p < last (x # xs) \<Longrightarrow>
     \<exists>a b. a \<in> set (x # xs) \<and> b \<in> set (x # xs) \<and> R a b \<and> a \<le> p \<and> p \<le> b"
proof (induction xs arbitrary: x)
  case (Cons y ys)
  show ?case
  proof (cases "p \<le> y")
    case True
    then show ?thesis using Cons.prems by auto
  next
    case False
    then have "\<exists>a b. a \<in> set (y # ys) \<and> b \<in> set (y # ys) \<and> R a b \<and> a \<le> p \<and> p \<le> b"
      using Cons.prems by (intro Cons.IH) auto
    then show ?thesis by auto
  qed
qed simp

text \<open>
  What the two laws have in common: 256 values, the second half the non-negative ones and the first
  half their negations, with neighbouring values so close that \<open>33\<close> times the distance to the nearest
  value never exceeds \<open>slack\<close>.
\<close>

locale companding =
  fixes table :: "int list" and slack :: "int \<Rightarrow> int"
  assumes length_table: "length table = 256"
    and table_range: "list_all (\<lambda>x. \<bar>x\<bar> \<le> 32767) table"
    and symmetric: "take 128 table = map uminus (drop 128 table)"
    and close: "successively (\<lambda>a b. a \<le> b \<and> 33 * (b - a) \<le> 2 * slack a) (sort (drop 128 table))"
    and least: "33 * hd (sort (drop 128 table)) \<le> slack 0 \<and> 0 \<le> hd (sort (drop 128 table))"
    and greatest: "33 * (32768 - last (sort (drop 128 table))) \<le> slack (last (sort (drop 128 table)))
      \<and> last (sort (drop 128 table)) \<le> 32768"
    and slack_mono: "0 \<le> a \<Longrightarrow> a \<le> b \<Longrightarrow> slack a \<le> slack b"
begin

lemma abs_error: "k < 256 \<Longrightarrow> \<bar>pcm\<bar> \<le> 32768 \<Longrightarrow> \<bar>table ! k - pcm\<bar> < 2 ^ 31 - 1"
  using table_range length_table by (force simp: list_all_length)

lemma nearest_fold:
  assumes "0 < n" "n \<le> 256" "\<bar>pcm\<bar> \<le> 32768"
  shows "is_nearest table pcm n (fold (nearest_step table pcm) [0..<n] (0, 2 ^ 31 - 1))"
  using assms
proof (induction n)
  case (Suc n)
  let ?r = "fold (nearest_step table pcm) [0..<n] (0, 2 ^ 31 - 1)"
  have n: "unat (of_nat n :: u8) = n"
    using Suc.prems by (simp add: unat_of_nat)
  have fold: "fold (nearest_step table pcm) [0..<Suc n] (0, 2 ^ 31 - 1) = nearest_step table pcm n ?r"
    by simp
  show ?case
  proof (cases "n = 0")
    case True
    then show ?thesis
      using abs_error [of 0 pcm] Suc.prems by (simp add: nearest_step_def is_nearest_def Let_def)
  next
    case False
    then have "is_nearest table pcm n ?r"
      using Suc by simp
    then show ?thesis
      unfolding fold
      by (cases ?r) (auto simp: nearest_step_def is_nearest_def Let_def n less_Suc_eq)
  qed
qed simp

lemma nearest_code_first:
  assumes "\<bar>pcm\<bar> \<le> 32768"
  shows "k < 256 \<Longrightarrow> \<bar>table ! unat (nearest_code table pcm) - pcm\<bar> \<le> \<bar>table ! k - pcm\<bar>"
    and "k < unat (nearest_code table pcm) \<Longrightarrow> \<bar>table ! unat (nearest_code table pcm) - pcm\<bar> < \<bar>table ! k - pcm\<bar>"
  using nearest_fold [of 256 pcm] assms by (auto simp: is_nearest_def nearest_code_def)

lemma nearest_code_exact:
  assumes "k < 256" "\<And>j. j < k \<Longrightarrow> table ! j \<noteq> table ! k"
  shows "nearest_code table (table ! k) = of_nat k"
proof -
  have small: "\<bar>table ! k\<bar> \<le> 32768"
    using assms(1) table_range length_table by (force simp: list_all_length)
  let ?c = "unat (nearest_code table (table ! k))"
  have "table ! ?c = table ! k"
    using nearest_code_first(1) [OF small assms(1)] by simp
  moreover have "\<not> k < ?c"
    using nearest_code_first(2) [OF small, of k] by auto
  ultimately have "?c = k"
    using assms(2) [of ?c] by (metis linorder_neqE_nat)
  then show ?thesis
    by (metis of_nat_unat ucast_id)
qed

lemma level_near:
  assumes "0 \<le> p" "p \<le> 32768"
  shows "\<exists>x \<in> set (drop 128 table). 33 * \<bar>x - p\<bar> \<le> slack p"
proof -
  let ?ls = "sort (drop 128 table)"
  have ne: "?ls \<noteq> []" and set: "set ?ls = set (drop 128 table)"
    using length_table by (auto simp: sort_key_const simp flip: length_0_conv)
  obtain l ls where ls: "?ls = l # ls"
    using ne by (cases ?ls) auto
  have "0 \<le> l" "33 * l \<le> slack 0"
    using least by (simp_all add: ls)
  consider "p < l" | "l \<le> p" "p < last ?ls" | "last ?ls \<le> p" by linarith
  then show ?thesis
  proof cases
    case 1
    then have "33 * \<bar>l - p\<bar> \<le> slack p"
      using \<open>33 * l \<le> slack 0\<close> slack_mono [of 0 p] assms(1) by simp
    then show ?thesis
      using set ls by (metis list.set_intros(1))
  next
    case 2
    then obtain a b where ab: "a \<in> set ?ls" "b \<in> set ?ls" "33 * (b - a) \<le> 2 * slack a" "a \<le> p" "p \<le> b"
      using bracket [OF close [unfolded ls], of p] ls by auto
    have "0 \<le> a"
      using ab(1) \<open>0 \<le> l\<close> sorted_sort [of "drop 128 table"] unfolding ls by auto
    then have "slack a \<le> slack p"
      using slack_mono ab(4) by simp
    then have "33 * \<bar>a - p\<bar> \<le> slack p \<or> 33 * \<bar>b - p\<bar> \<le> slack p"
      using ab(3-5) by (simp add: abs_if) linarith
    then show ?thesis
      using ab(1,2) set by blast
  next
    case 3
    have "0 \<le> last ?ls"
      using \<open>0 \<le> l\<close> sorted_sort [of "drop 128 table"] last_in_set [OF ne] unfolding ls by auto
    then have "slack (last ?ls) \<le> slack p"
      using 3 slack_mono by simp
    then have "33 * \<bar>last ?ls - p\<bar> \<le> slack p"
      using 3 greatest assms by (simp add: abs_if)
    then show ?thesis
      using last_in_set [OF ne] set by blast
  qed
qed

lemma code_near:
  assumes "\<bar>p\<bar> \<le> 32768"
  shows "33 * \<bar>table ! unat (nearest_code table p) - p\<bar> \<le> slack \<bar>p\<bar>"
proof -
  obtain x where x: "x \<in> set (drop 128 table)" "33 * \<bar>x - \<bar>p\<bar>\<bar> \<le> slack \<bar>p\<bar>"
    using level_near [of "\<bar>p\<bar>"] assms by auto
  define y where "y = (if 0 \<le> p then x else - x)"
  have "- x \<in> set (take 128 table)"
    using x(1) unfolding symmetric by simp
  then have "y \<in> set table"
    using x(1) by (auto simp: y_def dest: in_set_dropD in_set_takeD)
  then obtain k where k: "k < 256" "y = table ! k"
    by (auto simp: in_set_conv_nth length_table)
  have "\<bar>y - p\<bar> = \<bar>x - \<bar>p\<bar>\<bar>"
    by (simp add: y_def abs_if)
  then show ?thesis
    using nearest_code_first(1) [OF assms k(1)] x(2) unfolding k(2) by linarith
qed

end

interpretation ulaw: companding ULAW_DEC_TABLE "\<lambda>p. p + 132"
  by unfold_locales (code_simp, code_simp, code_simp, code_simp, code_simp, code_simp, simp)

interpretation alaw: companding ALAW_DEC_TABLE "max 264"
  by unfold_locales (code_simp, code_simp, code_simp, code_simp, code_simp, code_simp, simp)

section \<open>Properties\<close>

lemma sint_i16_range: "\<bar>sint (w :: i16)\<bar> \<le> 32768"
  using sint_greater_eq [of w] sint_less [of w] by (simp add: abs_le_iff)

lemma sint_of_int_i16: "- 32768 \<le> x \<Longrightarrow> x \<le> 32767 \<Longrightarrow> sint (word_of_int x :: i16) = x"
  by (simp add: signed_of_int signed_take_bit_int_eq_self)

lemma table_nth_range:
  "list_all (\<lambda>x. \<bar>x\<bar> \<le> 32767) t \<Longrightarrow> length t = 256 \<Longrightarrow> sint (word_of_int (t ! unat (c :: u8)) :: i16) = t ! unat c"
  by (intro sint_of_int_i16) (auto simp: list_all_length abs_le_iff dest!: spec [of _ "unat c"])

lemma sint_decode:
  "sint (decode_ulaw c) = ULAW_DEC_TABLE ! unat c" "sint (decode_alaw c) = ALAW_DEC_TABLE ! unat c"
  using table_nth_range [OF ulaw.table_range ulaw.length_table] table_nth_range [OF alaw.table_range alaw.length_table]
  by (simp_all add: decode_ulaw_def decode_alaw_def)

lemma encode_nearest:
  "encode_ulaw p = nearest_code ULAW_DEC_TABLE (sint p)" "encode_alaw p = nearest_code ALAW_DEC_TABLE (sint p)"
proof -
  have "nat (sint p + 32768) < 65536" "int (nat (sint p + 32768)) - 32768 = sint p"
    using sint_greater_eq [of p] sint_less [of p] by simp_all
  then show "encode_ulaw p = nearest_code ULAW_DEC_TABLE (sint p)" "encode_alaw p = nearest_code ALAW_DEC_TABLE (sint p)"
    by (simp_all add: encode_ulaw_def encode_alaw_def generate_ulaw_encode_table_def generate_alaw_encode_table_def
        del: upt_Suc)
qed

text \<open>
  The decoders are those of ITU-T G.711: each code is expanded to the value of its sign, exponent
  and mantissa.
\<close>

theorem g711_decode_reference:
  "sint (decode_ulaw c) = ulaw_expand (unat c) \<and> sint (decode_alaw c) = alaw_expand (unat c)"
  using unat_u8_less [of c] by (simp add: sint_decode ULAW_DEC_TABLE_eq ALAW_DEC_TABLE_eq del: upt_Suc unat_u8_less)

text \<open>
  C26. Every 16-bit sample is encoded as the code whose decoding is nearest, and what comes back is off
  by at most \<open>(\<bar>p\<bar> + 132) / 33\<close> under \<open>\<mu>\<close>-law and \<open>max(8, \<bar>p\<bar> / 33)\<close> under A-law, the extreme samples
  included.
\<close>

theorem g711_encode_nearest:
  "\<bar>sint (decode_ulaw (encode_ulaw p)) - sint p\<bar> \<le> \<bar>sint (decode_ulaw c) - sint p\<bar> \<and>
   \<bar>sint (decode_alaw (encode_alaw p)) - sint p\<bar> \<le> \<bar>sint (decode_alaw c) - sint p\<bar> \<and>
   33 * \<bar>sint (decode_ulaw (encode_ulaw p)) - sint p\<bar> \<le> \<bar>sint p\<bar> + 132 \<and>
   33 * \<bar>sint (decode_alaw (encode_alaw p)) - sint p\<bar> \<le> max 264 \<bar>sint p\<bar>"
  using ulaw.nearest_code_first(1) [OF sint_i16_range unat_u8_less, of p c]
    alaw.nearest_code_first(1) [OF sint_i16_range unat_u8_less, of p c]
    ulaw.code_near [OF sint_i16_range, of p] alaw.code_near [OF sint_i16_range, of p]
  by (simp add: sint_decode encode_nearest)

lemma distinct_before_last:
  assumes "distinct (butlast xs)" "j < k" "Suc k < length xs"
  shows "xs ! j \<noteq> xs ! k"
  using nth_eq_iff_index_eq [OF assms(1), of j k] assms(2,3) by (simp add: nth_butlast)

lemma distinct_of_sort: "successively (<) (sort xs) \<Longrightarrow> distinct (xs :: int list)"
  by (metis distinct_sort strict_sorted_iff successively_conv_sorted_wrt transp_on_less)

lemma ulaw_table_distinct: "distinct (butlast ULAW_DEC_TABLE)" "ULAW_DEC_TABLE ! 255 = ULAW_DEC_TABLE ! 127"
  by (rule distinct_of_sort, code_simp) code_simp

lemma alaw_table_distinct: "distinct ALAW_DEC_TABLE"
  by (rule distinct_of_sort) code_simp

text \<open>
  A stream of A-law codes that is decoded and encoded again comes back as it was; so does one of
  \<open>\<mu>\<close>-law codes, except that the positive zero \<open>0xFF\<close> comes back as the negative zero \<open>0x7F\<close>.
\<close>

theorem g711_code_roundtrip:
  "G711ALaw_encode (G711ALaw_decode bs) = bs \<and>
   G711MuLaw_encode (G711MuLaw_decode bs) = map (\<lambda>c. if c = 0xFF then 0x7F else c) bs"
proof -
  have "encode_alaw (decode_alaw c) = c" for c
    using alaw.nearest_code_exact [OF unat_u8_less, of c] nth_eq_iff_index_eq [OF alaw_table_distinct]
      unat_u8_less [of c]
    by (simp add: encode_nearest sint_decode alaw.length_table less_trans del: unat_u8_less)
  moreover have "encode_ulaw (decode_ulaw c) = (if c = 0xFF then 0x7F else c)" for c
  proof (cases "c = 0xFF")
    case True
    have "nearest_code ULAW_DEC_TABLE (ULAW_DEC_TABLE ! 127) = of_nat 127"
      using distinct_before_last [OF ulaw_table_distinct(1)] by (intro ulaw.nearest_code_exact) (simp_all add: ulaw.length_table)
    with True show ?thesis
      by (simp add: encode_nearest sint_decode ulaw_table_distinct(2))
  next
    case False
    then have "unat c \<noteq> 255"
      by (metis of_nat_numeral of_nat_unat ucast_id)
    then have "Suc (unat c) < 256"
      using unat_u8_less [of c] by linarith
    then have "nearest_code ULAW_DEC_TABLE (ULAW_DEC_TABLE ! unat c) = of_nat (unat c)"
      using distinct_before_last [OF ulaw_table_distinct(1)] by (intro ulaw.nearest_code_exact) (simp_all add: ulaw.length_table)
    with False show ?thesis
      by (simp add: encode_nearest sint_decode)
  qed
  ultimately show ?thesis
    by (simp add: G711ALaw_encode_def G711ALaw_decode_def G711MuLaw_encode_def G711MuLaw_decode_def comp_def)
qed

end
