(* ===== verification/Rtcp.thy ===== *)
theory Rtcp
  imports Utf8
begin

text \<open>
  RTCP, \<^verbatim>\<open>crates/forge-rtp/src/rtcp.rs\<close>: NTP time, the common header, sender and receiver reports,
  source descriptions, goodbyes, transport and payload feedback, and compound packets. A
  \<^verbatim>\<open>Cursor\<close> is the list of the bytes that remain. \<^verbatim>\<open>ntp::fractional_seconds\<close>, which returns a
  floating-point number, is left out.
\<close>

type_synonym i32 = "32 word"

section \<open>NTP time\<close>

definition NTP_UNIX_OFFSET :: u64 where
  "NTP_UNIX_OFFSET = 2208988800"

text \<open>\<open>unix_secs\<close> and \<open>nanos\<close> are the reading of the system clock since the Unix epoch.\<close>

definition ntp_now :: "u64 \<Rightarrow> u32 \<Rightarrow> u64" where
  "ntp_now unix_secs nanos =
     (let ntp_secs = unix_secs + NTP_UNIX_OFFSET;
          ntp_frac = (ucast nanos * push_bit 32 1) div 1000000000
      in push_bit 32 ntp_secs OR ntp_frac)"

definition ntp_now_split :: "u64 \<Rightarrow> u32 \<Rightarrow> u32 \<times> u32" where
  "ntp_now_split unix_secs nanos =
     (let ntp = ntp_now unix_secs nanos in (ucast (drop_bit 32 ntp), ucast (ntp AND 0xFFFFFFFF)))"

definition to_unix_secs :: "u32 \<Rightarrow> u32 \<Rightarrow> u64" where
  "to_unix_secs ntp_msw ntp_lsw =
     (let ntp_secs = ucast ntp_msw in if NTP_UNIX_OFFSET \<le> ntp_secs then ntp_secs - NTP_UNIX_OFFSET else 0)"

section \<open>Common header\<close>

datatype RtcpPacketType = PT_SR | PT_RR | PT_SDES | PT_BYE | PT_APP | PT_RTPFB | PT_PSFB

fun RtcpPacketType_code :: "RtcpPacketType \<Rightarrow> u8" where
  "RtcpPacketType_code PT_SR = 200"
| "RtcpPacketType_code PT_RR = 201"
| "RtcpPacketType_code PT_SDES = 202"
| "RtcpPacketType_code PT_BYE = 203"
| "RtcpPacketType_code PT_APP = 204"
| "RtcpPacketType_code PT_RTPFB = 205"
| "RtcpPacketType_code PT_PSFB = 206"

definition RtcpPacketType_try_from :: "u8 \<Rightarrow> ForgeError + RtcpPacketType" where
  "RtcpPacketType_try_from v =
     (if v = 200 then Inr PT_SR
      else if v = 201 then Inr PT_RR
      else if v = 202 then Inr PT_SDES
      else if v = 203 then Inr PT_BYE
      else if v = 204 then Inr PT_APP
      else if v = 205 then Inr PT_RTPFB
      else if v = 206 then Inr PT_PSFB
      else Inl (Rtcp (''Unknown RTCP packet type: '' @ show_nat (unat v))))"

record RtcpHeader =
  rh_version :: u8
  rh_padding :: bool
  rh_count :: u8
  rh_packet_type :: RtcpPacketType
  rh_length :: u16

definition RtcpHeader_parse :: "bytes \<Rightarrow> ForgeError + RtcpHeader" where
  "RtcpHeader_parse d =
     (if length d < 4 then Inl (Rtcp ''RTCP header too short'')
      else
        let first_byte = d ! 0;
            version = drop_bit 6 first_byte AND 0x03;
            padding = (first_byte AND 0x20 \<noteq> 0);
            count = first_byte AND 0x1F
        in case RtcpPacketType_try_from (d ! 1) of
             Inl e \<Rightarrow> Inl e
           | Inr packet_type \<Rightarrow>
               let len = be16 (d ! 2) (d ! 3)
               in if version \<noteq> 2 then Inl (Rtcp (''Invalid RTCP version: '' @ show_nat (unat version)))
                  else Inr \<lparr>rh_version = version, rh_padding = padding, rh_count = count,
                            rh_packet_type = packet_type, rh_length = len\<rparr>)"

definition RtcpHeader_to_bytes :: "RtcpHeader \<Rightarrow> bytes" where
  "RtcpHeader_to_bytes h =
     [push_bit 6 (rh_version h) OR (if rh_padding h then 0x20 else 0) OR rh_count h,
      RtcpPacketType_code (rh_packet_type h),
      ucast (drop_bit 8 (rh_length h)), ucast (rh_length h AND 0xFF)]"

section \<open>Sender and receiver reports\<close>

record ReceptionReportBlock =
  rb_ssrc :: u32
  fraction_lost :: u8
  cumulative_lost :: i32
  extended_highest_seq :: u32
  rb_jitter :: u32
  last_sr :: u32
  delay_since_last_sr :: u32

definition ReceptionReportBlock_new :: "u32 \<Rightarrow> ReceptionReportBlock" where
  "ReceptionReportBlock_new ssrc =
     \<lparr>rb_ssrc = ssrc, fraction_lost = 0, cumulative_lost = 0, extended_highest_seq = 0, rb_jitter = 0,
      last_sr = 0, delay_since_last_sr = 0\<rparr>"

text \<open>\<^verbatim>\<open>Cursor::get_u32\<close> at an offset the caller has checked.\<close>

definition u32_at :: "bytes \<Rightarrow> nat \<Rightarrow> u32" where
  "u32_at d i = be32 (d ! i) (d ! (i + 1)) (d ! (i + 2)) (d ! (i + 3))"

definition ReceptionReportBlock_parse :: "bytes \<Rightarrow> ForgeError + ReceptionReportBlock" where
  "ReceptionReportBlock_parse d =
     (if length d < 24 then Inl (Rtcp ''Report block too short'')
      else
        let raw = push_bit 16 (ucast (d ! 5)) OR push_bit 8 (ucast (d ! 6)) OR (ucast (d ! 7) :: u32);
            lost = (if raw AND 0x00800000 \<noteq> 0 then raw OR 0xFF000000 else raw)
        in Inr \<lparr>rb_ssrc = u32_at d 0, fraction_lost = d ! 4, cumulative_lost = lost,
                extended_highest_seq = u32_at d 8, rb_jitter = u32_at d 12, last_sr = u32_at d 16,
                delay_since_last_sr = u32_at d 20\<rparr>)"

text \<open>\<^verbatim>\<open>i32::clamp\<close> to 24 bits.\<close>

definition clamp24 :: "i32 \<Rightarrow> i32" where
  "clamp24 x =
     (if sint x < - 0x00800000 then word_of_int (- 0x00800000)
      else if 0x007FFFFF < sint x then 0x007FFFFF
      else x)"

definition ReceptionReportBlock_to_bytes :: "ReceptionReportBlock \<Rightarrow> bytes" where
  "ReceptionReportBlock_to_bytes b =
     (let raw = clamp24 (cumulative_lost b) AND 0x00FFFFFF
      in to_be32 (rb_ssrc b) @ [fraction_lost b, ucast (drop_bit 16 raw), ucast (drop_bit 8 raw), ucast raw] @
         to_be32 (extended_highest_seq b) @ to_be32 (rb_jitter b) @ to_be32 (last_sr b) @
         to_be32 (delay_since_last_sr b))"

record SenderReport =
  sr_ssrc :: u32
  ntp_timestamp_msw :: u32
  ntp_timestamp_lsw :: u32
  sr_rtp_timestamp :: u32
  sender_packet_count :: u32
  sender_octet_count :: u32
  sr_report_blocks :: "ReceptionReportBlock list"

definition SenderReport_new :: "u32 \<Rightarrow> SenderReport" where
  "SenderReport_new ssrc =
     \<lparr>sr_ssrc = ssrc, ntp_timestamp_msw = 0, ntp_timestamp_lsw = 0, sr_rtp_timestamp = 0,
      sender_packet_count = 0, sender_octet_count = 0, sr_report_blocks = []\<rparr>"

definition SenderReport_with_current_time ::
  "u64 \<times> u32 \<Rightarrow> u32 \<Rightarrow> u32 \<Rightarrow> u32 \<Rightarrow> u32 \<Rightarrow> SenderReport" where
  "SenderReport_with_current_time now ssrc rtp_timestamp packet_count octet_count =
     (let (ntp_msw, ntp_lsw) = ntp_now_split (fst now) (snd now)
      in \<lparr>sr_ssrc = ssrc, ntp_timestamp_msw = ntp_msw, ntp_timestamp_lsw = ntp_lsw,
          sr_rtp_timestamp = rtp_timestamp, sender_packet_count = packet_count,
          sender_octet_count = octet_count, sr_report_blocks = []\<rparr>)"

definition SenderReport_update_timestamp :: "u64 \<times> u32 \<Rightarrow> SenderReport \<Rightarrow> SenderReport" where
  "SenderReport_update_timestamp now sr =
     (let (ntp_msw, ntp_lsw) = ntp_now_split (fst now) (snd now)
      in sr\<lparr>ntp_timestamp_msw := ntp_msw, ntp_timestamp_lsw := ntp_lsw\<rparr>)"

definition SenderReport_add_report_block :: "SenderReport \<Rightarrow> ReceptionReportBlock \<Rightarrow> SenderReport" where
  "SenderReport_add_report_block sr b = sr\<lparr>sr_report_blocks := sr_report_blocks sr @ [b]\<rparr>"

text \<open>
  The loop both reports read their blocks with: \<open>n\<close> are left to read from \<open>rest\<close>; \<open>kind\<close> is the name
  in the message.
\<close>

fun parse_report_blocks :: "string \<Rightarrow> u8 \<Rightarrow> nat \<Rightarrow> bytes \<Rightarrow> ForgeError + ReceptionReportBlock list" where
  "parse_report_blocks kind report_count 0 rest = Inr []"
| "parse_report_blocks kind report_count (Suc n) rest =
     (if length rest < 24
      then Inl (Rtcp (kind @ '' declares RC='' @ show_nat (unat report_count) @ '' blocks but only '' @
                      show_nat (length rest) @ '' bytes remain''))
      else
        case ReceptionReportBlock_parse rest of
          Inl e \<Rightarrow> Inl e
        | Inr b \<Rightarrow>
            (case parse_report_blocks kind report_count n (drop 24 rest) of
               Inl e \<Rightarrow> Inl e
             | Inr bs \<Rightarrow> Inr (b # bs)))"

definition SenderReport_parse :: "bytes \<Rightarrow> u8 \<Rightarrow> ForgeError + SenderReport" where
  "SenderReport_parse d report_count =
     (if length d < 24 then Inl (Rtcp ''SR packet too short'')
      else
        case parse_report_blocks ''SR'' report_count (unat report_count) (drop 24 d) of
          Inl e \<Rightarrow> Inl e
        | Inr blocks \<Rightarrow>
            Inr \<lparr>sr_ssrc = u32_at d 0, ntp_timestamp_msw = u32_at d 4, ntp_timestamp_lsw = u32_at d 8,
                 sr_rtp_timestamp = u32_at d 12, sender_packet_count = u32_at d 16,
                 sender_octet_count = u32_at d 20, sr_report_blocks = blocks\<rparr>)"

definition SenderReport_to_bytes :: "SenderReport \<Rightarrow> bytes" where
  "SenderReport_to_bytes sr =
     to_be32 (sr_ssrc sr) @ to_be32 (ntp_timestamp_msw sr) @ to_be32 (ntp_timestamp_lsw sr) @
     to_be32 (sr_rtp_timestamp sr) @ to_be32 (sender_packet_count sr) @ to_be32 (sender_octet_count sr) @
     concat (map ReceptionReportBlock_to_bytes (sr_report_blocks sr))"

record ReceiverReport =
  rr_ssrc :: u32
  rr_report_blocks :: "ReceptionReportBlock list"

definition ReceiverReport_new :: "u32 \<Rightarrow> ReceiverReport" where
  "ReceiverReport_new ssrc = \<lparr>rr_ssrc = ssrc, rr_report_blocks = []\<rparr>"

definition ReceiverReport_add_report_block :: "ReceiverReport \<Rightarrow> ReceptionReportBlock \<Rightarrow> ReceiverReport" where
  "ReceiverReport_add_report_block rr b = rr\<lparr>rr_report_blocks := rr_report_blocks rr @ [b]\<rparr>"

definition ReceiverReport_parse :: "bytes \<Rightarrow> u8 \<Rightarrow> ForgeError + ReceiverReport" where
  "ReceiverReport_parse d report_count =
     (if length d < 4 then Inl (Rtcp ''RR packet too short'')
      else
        case parse_report_blocks ''RR'' report_count (unat report_count) (drop 4 d) of
          Inl e \<Rightarrow> Inl e
        | Inr blocks \<Rightarrow> Inr \<lparr>rr_ssrc = u32_at d 0, rr_report_blocks = blocks\<rparr>)"

definition ReceiverReport_to_bytes :: "ReceiverReport \<Rightarrow> bytes" where
  "ReceiverReport_to_bytes rr =
     to_be32 (rr_ssrc rr) @ concat (map ReceptionReportBlock_to_bytes (rr_report_blocks rr))"

section \<open>Source descriptions and goodbyes\<close>

text \<open>A \<^verbatim>\<open>String\<close> is its UTF-8 bytes.\<close>

definition sdes_END :: u8 where "sdes_END = 0"

record SdesItem =
  item_type :: u8
  item_text :: bytes

definition SdesItem_new :: "u8 \<Rightarrow> bytes \<Rightarrow> SdesItem" where
  "SdesItem_new t text' = \<lparr>item_type = t, item_text = text'\<rparr>"

definition SdesItem_parse :: "bytes \<Rightarrow> ForgeError + (SdesItem \<times> nat)" where
  "SdesItem_parse d =
     (if d = [] then Inl (Rtcp ''SDES item too short'')
      else if d ! 0 = sdes_END then Inr (\<lparr>item_type = d ! 0, item_text = []\<rparr>, 1)
      else if length d < 2 then Inl (Rtcp ''SDES item missing length'')
      else
        let len = unat (d ! 1)
        in if length d < 2 + len then Inl (Rtcp ''SDES item text too short'')
           else Inr (\<lparr>item_type = d ! 0, item_text = from_utf8_lossy (take len (drop 2 d))\<rparr>, 2 + len))"

definition SdesItem_to_bytes :: "SdesItem \<Rightarrow> bytes" where
  "SdesItem_to_bytes item =
     (if item_type item = sdes_END then [0]
      else
        let len = min (length (item_text item)) 255
        in item_type item # of_nat len # take len (item_text item))"

record SdesChunk =
  chunk_ssrc :: u32
  chunk_items :: "SdesItem list"

definition SdesChunk_new :: "u32 \<Rightarrow> SdesChunk" where
  "SdesChunk_new ssrc = \<lparr>chunk_ssrc = ssrc, chunk_items = []\<rparr>"

definition SdesChunk_add_item :: "SdesChunk \<Rightarrow> SdesItem \<Rightarrow> SdesChunk" where
  "SdesChunk_add_item c item = c\<lparr>chunk_items := chunk_items c @ [item]\<rparr>"

text \<open>The loop over the items of a chunk: the items and the bytes they took.\<close>

function parse_sdes_items :: "bytes \<Rightarrow> ForgeError + (SdesItem list \<times> nat)" where
  "parse_sdes_items rest =
     (if rest = [] then Inr ([], 0)
      else
        case SdesItem_parse rest of
          Inl e \<Rightarrow> Inl e
        | Inr (item, item_size) \<Rightarrow>
            if item_type item = sdes_END then Inr ([item], item_size)
            else
              (case parse_sdes_items (drop item_size rest) of
                 Inl e \<Rightarrow> Inl e
               | Inr (items, n) \<Rightarrow> Inr (item # items, item_size + n)))"
  by pat_completeness auto
termination
  by (relation "measure length") (auto simp: SdesItem_parse_def Let_def split: if_splits)

declare parse_sdes_items.simps [simp del]

definition SdesChunk_parse :: "bytes \<Rightarrow> ForgeError + (SdesChunk \<times> nat)" where
  "SdesChunk_parse d =
     (if length d < 4 then Inl (Rtcp ''SDES chunk too short'')
      else
        case parse_sdes_items (drop 4 d) of
          Inl e \<Rightarrow> Inl e
        | Inr (items, n) \<Rightarrow> Inr (\<lparr>chunk_ssrc = u32_at d 0, chunk_items = items\<rparr>, round_up4 (4 + n)))"

text \<open>The loop that pads a buffer with zeros to a multiple of four.\<close>

definition pad4 :: "bytes \<Rightarrow> bytes" where
  "pad4 buf = buf @ replicate (round_up4 (length buf) - length buf) 0"

definition SdesChunk_to_bytes :: "SdesChunk \<Rightarrow> bytes" where
  "SdesChunk_to_bytes c =
     pad4 (to_be32 (chunk_ssrc c) @ concat (map SdesItem_to_bytes (chunk_items c)) @
           (if chunk_items c = [] \<or> item_type (last (chunk_items c)) \<noteq> sdes_END then [sdes_END] else []))"

record SourceDescription =
  sdes_chunks :: "SdesChunk list"

definition SourceDescription_new :: SourceDescription where
  "SourceDescription_new = \<lparr>sdes_chunks = []\<rparr>"

definition SourceDescription_add_chunk :: "SourceDescription \<Rightarrow> u32 \<Rightarrow> SdesItem list \<Rightarrow> SourceDescription" where
  "SourceDescription_add_chunk sd ssrc items =
     sd\<lparr>sdes_chunks := sdes_chunks sd @ [\<lparr>chunk_ssrc = ssrc, chunk_items = items\<rparr>]\<rparr>"

fun parse_sdes_chunks :: "nat \<Rightarrow> bytes \<Rightarrow> ForgeError + SdesChunk list" where
  "parse_sdes_chunks 0 rest = Inr []"
| "parse_sdes_chunks (Suc n) rest =
     (if rest = [] then Inr []
      else
        case SdesChunk_parse rest of
          Inl e \<Rightarrow> Inl e
        | Inr (c, chunk_size) \<Rightarrow>
            (case parse_sdes_chunks n (drop chunk_size rest) of
               Inl e \<Rightarrow> Inl e
             | Inr cs \<Rightarrow> Inr (c # cs)))"

definition SourceDescription_parse :: "bytes \<Rightarrow> u8 \<Rightarrow> ForgeError + SourceDescription" where
  "SourceDescription_parse d chunk_count =
     (case parse_sdes_chunks (unat chunk_count) d of
        Inl e \<Rightarrow> Inl e
      | Inr cs \<Rightarrow> Inr \<lparr>sdes_chunks = cs\<rparr>)"

definition SourceDescription_to_bytes :: "SourceDescription \<Rightarrow> bytes" where
  "SourceDescription_to_bytes sd = concat (map SdesChunk_to_bytes (sdes_chunks sd))"

record Bye =
  bye_ssrcs :: "u32 list"
  bye_reason :: "bytes option"

definition Bye_new :: "u32 list \<Rightarrow> Bye" where
  "Bye_new ssrcs = \<lparr>bye_ssrcs = ssrcs, bye_reason = None\<rparr>"

definition Bye_with_reason :: "u32 list \<Rightarrow> bytes \<Rightarrow> Bye" where
  "Bye_with_reason ssrcs reason = \<lparr>bye_ssrcs = ssrcs, bye_reason = Some reason\<rparr>"

definition Bye_parse :: "bytes \<Rightarrow> u8 \<Rightarrow> ForgeError + Bye" where
  "Bye_parse d source_count =
     (if length d < unat source_count * 4 then Inl (Rtcp ''BYE packet too short'')
      else
        let ssrcs = map (\<lambda>i. u32_at d (4 * i)) [0..<unat source_count];
            rest = drop (4 * unat source_count) d
        in if rest = [] then Inr \<lparr>bye_ssrcs = ssrcs, bye_reason = None\<rparr>
           else
             let len = unat (hd rest)
             in if length (tl rest) < len then Inl (Rtcp ''BYE reason too short'')
                else Inr \<lparr>bye_ssrcs = ssrcs, bye_reason = Some (from_utf8_lossy (take len (tl rest)))\<rparr>)"

definition Bye_to_bytes :: "Bye \<Rightarrow> bytes" where
  "Bye_to_bytes b =
     (let buf = concat (map to_be32 (bye_ssrcs b))
      in case bye_reason b of
           None \<Rightarrow> buf
         | Some reason \<Rightarrow>
             let len = min (length reason) 255 in pad4 (buf @ of_nat len # take len reason))"

section \<open>Feedback\<close>

record NackEntry =
  packet_id :: u16
  bitmask :: u16

definition NackEntry_lost :: "NackEntry \<Rightarrow> u16 list" where
  "NackEntry_lost e =
     packet_id e #
     map (\<lambda>k. packet_id e + (of_nat k + 1)) (filter (\<lambda>k. bitmask e AND push_bit k 1 \<noteq> 0) [0..<16])"

datatype TransportFeedback = Nack "NackEntry list" | TF_Other u8 bytes

record FirEntry =
  fir_ssrc :: u32
  fir_seq :: u8

datatype PayloadFeedback =
    Pli
  | Fir "FirEntry list"
  | Remb u64 "u32 list"
  | PF_Other u8 bytes

record 'k FeedbackMessage =
  sender_ssrc :: u32
  media_ssrc :: u32
  kind :: 'k

type_synonym RtpFeedback = "TransportFeedback FeedbackMessage"
type_synonym PsFeedback = "PayloadFeedback FeedbackMessage"

text \<open>The body of the loop of \<^verbatim>\<open>nack\<close>.\<close>

definition nack_add :: "u16 \<Rightarrow> NackEntry list \<Rightarrow> NackEntry list" where
  "nack_add seq entries =
     (if entries \<noteq> [] \<and> 1 \<le> seq - packet_id (last entries) \<and> seq - packet_id (last entries) \<le> 16
      then
        let l = last entries; delta = seq - packet_id l
        in butlast entries @ [l\<lparr>bitmask := bitmask l OR push_bit (unat (delta - 1)) 1\<rparr>]
      else entries @ [\<lparr>packet_id = seq, bitmask = 0\<rparr>])"

definition RtpFeedback_nack :: "u32 \<Rightarrow> u32 \<Rightarrow> u16 list \<Rightarrow> RtpFeedback" where
  "RtpFeedback_nack sender media lost =
     \<lparr>sender_ssrc = sender, media_ssrc = media, kind = Nack (fold nack_add lost [])\<rparr>"

definition split_feedback :: "bytes \<Rightarrow> ForgeError + (u32 \<times> u32 \<times> bytes)" where
  "split_feedback d =
     (if length d < 8 then Inl (Rtcp ''Feedback packet too short'')
      else Inr (u32_at d 0, u32_at d 4, drop 8 d))"

text \<open>\<^verbatim>\<open>slice::chunks_exact\<close> : full chunks only.\<close>

function chunks_exact :: "nat \<Rightarrow> 'a list \<Rightarrow> 'a list list" where
  "chunks_exact k xs =
     (if length xs < k \<or> k = 0 then [] else take k xs # chunks_exact k (drop k xs))"
  by pat_completeness auto
termination by (relation "measure (length \<circ> snd)") auto

declare chunks_exact.simps [simp del]

definition RtpFeedback_parse :: "bytes \<Rightarrow> u8 \<Rightarrow> ForgeError + RtpFeedback" where
  "RtpFeedback_parse d fmt =
     (case split_feedback d of
        Inl e \<Rightarrow> Inl e
      | Inr (sender, media, fci) \<Rightarrow>
          if fmt = 1 then
            if length fci mod 4 \<noteq> 0 then Inl (Rtcp ''NACK FCI not a multiple of 4'')
            else Inr \<lparr>sender_ssrc = sender, media_ssrc = media,
                      kind = Nack (map (\<lambda>c. \<lparr>packet_id = be16 (c ! 0) (c ! 1), bitmask = be16 (c ! 2) (c ! 3)\<rparr>)
                                     (chunks_exact 4 fci))\<rparr>
          else Inr \<lparr>sender_ssrc = sender, media_ssrc = media, kind = TF_Other fmt fci\<rparr>)"

definition RtpFeedback_fmt :: "RtpFeedback \<Rightarrow> u8" where
  "RtpFeedback_fmt fb = (case kind fb of Nack _ \<Rightarrow> 1 | TF_Other fmt _ \<Rightarrow> fmt)"

definition RtpFeedback_fci :: "RtpFeedback \<Rightarrow> bytes" where
  "RtpFeedback_fci fb =
     (case kind fb of
        Nack entries \<Rightarrow> concat (map (\<lambda>e. to_be16 (packet_id e) @ to_be16 (bitmask e)) entries)
      | TF_Other _ fci \<Rightarrow> fci)"

definition PsFeedback_pli :: "u32 \<Rightarrow> u32 \<Rightarrow> PsFeedback" where
  "PsFeedback_pli sender media = \<lparr>sender_ssrc = sender, media_ssrc = media, kind = Pli\<rparr>"

definition PsFeedback_fir :: "u32 \<Rightarrow> u32 \<Rightarrow> u8 \<Rightarrow> PsFeedback" where
  "PsFeedback_fir sender media seq =
     \<lparr>sender_ssrc = sender, media_ssrc = 0, kind = Fir [\<lparr>fir_ssrc = media, fir_seq = seq\<rparr>]\<rparr>"

definition PsFeedback_remb :: "u32 \<Rightarrow> u64 \<Rightarrow> u32 list \<Rightarrow> PsFeedback" where
  "PsFeedback_remb sender bitrate_bps ssrcs =
     \<lparr>sender_ssrc = sender, media_ssrc = 0, kind = Remb bitrate_bps ssrcs\<rparr>"

definition REMB :: bytes where
  "REMB = [0x52, 0x45, 0x4D, 0x42]"

definition PsFeedback_parse :: "bytes \<Rightarrow> u8 \<Rightarrow> ForgeError + PsFeedback" where
  "PsFeedback_parse d fmt =
     (case split_feedback d of
        Inl e \<Rightarrow> Inl e
      | Inr (sender, media, fci) \<Rightarrow>
          let result = (\<lambda>k. \<lparr>sender_ssrc = sender, media_ssrc = media, kind = k\<rparr>)
          in if fmt = 1 then Inr (result Pli)
             else if fmt = 4 then
               if length fci mod 8 \<noteq> 0 then Inl (Rtcp ''FIR FCI not a multiple of 8'')
               else Inr (result (Fir (map (\<lambda>c. \<lparr>fir_ssrc = u32_at c 0, fir_seq = c ! 4\<rparr>) (chunks_exact 8 fci))))
             else if fmt = 15 \<and> 8 \<le> length fci \<and> take 4 fci = REMB then
               let num_ssrcs = unat (fci ! 4);
                   exp = unat (drop_bit 2 (fci ! 5));
                   mantissa = push_bit 16 (ucast (fci ! 5 AND 0x03)) OR push_bit 8 (ucast (fci ! 6)) OR
                              (ucast (fci ! 7) :: u64)
               in if length fci < 8 + num_ssrcs * 4 then Inl (Rtcp ''REMB FCI truncated'')
                  else Inr (result (Remb (push_bit exp mantissa)
                         (map (\<lambda>c. u32_at c 0) (chunks_exact 4 (take (num_ssrcs * 4) (drop 8 fci))))))
             else Inr (result (PF_Other fmt fci)))"

definition PsFeedback_fmt :: "PsFeedback \<Rightarrow> u8" where
  "PsFeedback_fmt fb =
     (case kind fb of Pli \<Rightarrow> 1 | Fir _ \<Rightarrow> 4 | Remb _ _ \<Rightarrow> 15 | PF_Other fmt _ \<Rightarrow> fmt)"

text \<open>The loop that shifts a bit rate until it fits 18 bits: mantissa and exponent.\<close>

function remb_shift :: "u64 \<Rightarrow> nat \<Rightarrow> u64 \<times> nat" where
  "remb_shift mantissa exp =
     (if 0x3FFFF < mantissa then remb_shift (drop_bit 1 mantissa) (Suc exp) else (mantissa, exp))"
  by pat_completeness auto
termination
  by (relation "measure (unat \<circ> fst)")
    (auto simp: drop_bit_eq_div unat_div word_less_nat_alt)

declare remb_shift.simps [simp del]

definition PsFeedback_fci :: "PsFeedback \<Rightarrow> bytes" where
  "PsFeedback_fci fb =
     (case kind fb of
        Pli \<Rightarrow> []
      | Fir entries \<Rightarrow> concat (map (\<lambda>e. to_be32 (fir_ssrc e) @ [fir_seq e, 0, 0, 0]) entries)
      | Remb bitrate_bps ssrcs \<Rightarrow>
          let (mantissa, exp) = remb_shift bitrate_bps 0
          in REMB @ [of_nat (length ssrcs),
               push_bit 2 (of_nat exp) OR (ucast (drop_bit 16 mantissa) AND 0x03)] @
             to_be16 (ucast (mantissa AND 0xFFFF)) @ concat (map to_be32 ssrcs)
      | PF_Other _ fci \<Rightarrow> fci)"

definition feedback_bytes :: "RtcpPacketType \<Rightarrow> u8 \<Rightarrow> u32 \<Rightarrow> u32 \<Rightarrow> bytes \<Rightarrow> bytes" where
  "feedback_bytes packet_type fmt sender media fci =
     RtcpHeader_to_bytes
       \<lparr>rh_version = 2, rh_padding = False, rh_count = fmt AND 0x1F, rh_packet_type = packet_type,
        rh_length = of_nat ((8 + length fci) div 4)\<rparr> @
     to_be32 sender @ to_be32 media @ fci"

section \<open>Packets\<close>

datatype RtcpPacket =
    SenderReportPacket SenderReport
  | ReceiverReportPacket ReceiverReport
  | SourceDescriptionPacket SourceDescription
  | ByePacket Bye
  | TransportFeedbackPacket RtpFeedback
  | PayloadFeedbackPacket PsFeedback

definition RtcpPacket_body :: "bytes \<Rightarrow> RtcpHeader \<Rightarrow> ForgeError + bytes" where
  "RtcpPacket_body d h =
     (let size = (unat (rh_length h) + 1) * 4
      in if length d < size then Inl (Rtcp ''RTCP packet shorter than its length'')
         else Inr (drop 4 (take size d)))"

definition RtcpPacket_parse :: "bytes \<Rightarrow> ForgeError + RtcpPacket" where
  "RtcpPacket_parse d =
     (case RtcpHeader_parse d of
        Inl e \<Rightarrow> Inl e
      | Inr h \<Rightarrow>
          (case rh_packet_type h of
             PT_SR \<Rightarrow> map_sum id SenderReportPacket (SenderReport_parse (drop 4 d) (rh_count h))
           | PT_RR \<Rightarrow> map_sum id ReceiverReportPacket (ReceiverReport_parse (drop 4 d) (rh_count h))
           | PT_SDES \<Rightarrow> map_sum id SourceDescriptionPacket (SourceDescription_parse (drop 4 d) (rh_count h))
           | PT_BYE \<Rightarrow> map_sum id ByePacket (Bye_parse (drop 4 d) (rh_count h))
           | PT_APP \<Rightarrow> Inl (Rtcp ''APP packets not supported'')
           | PT_RTPFB \<Rightarrow>
               (case RtcpPacket_body d h of
                  Inl e \<Rightarrow> Inl e
                | Inr body \<Rightarrow> map_sum id TransportFeedbackPacket (RtpFeedback_parse body (rh_count h)))
           | PT_PSFB \<Rightarrow>
               (case RtcpPacket_body d h of
                  Inl e \<Rightarrow> Inl e
                | Inr body \<Rightarrow> map_sum id PayloadFeedbackPacket (PsFeedback_parse body (rh_count h)))))"

function RtcpPacket_parse_compound :: "bytes \<Rightarrow> RtcpPacket list" where
  "RtcpPacket_parse_compound d =
     (if length d < 4 then []
      else
        let size = (unat (be16 (d ! 2) (d ! 3)) + 1) * 4
        in if size > length d \<or> drop_bit 6 (d ! 0) \<noteq> 2 then []
           else (case RtcpPacket_parse (take size d) of Inl _ \<Rightarrow> [] | Inr p \<Rightarrow> [p]) @
                RtcpPacket_parse_compound (drop size d))"
  by pat_completeness auto
termination by (relation "measure length") auto

declare RtcpPacket_parse_compound.simps [simp del]

definition RtcpPacket_feedback_media_ssrc :: "RtcpPacket \<Rightarrow> u32 option" where
  "RtcpPacket_feedback_media_ssrc p =
     (case p of
        TransportFeedbackPacket fb \<Rightarrow> Some (media_ssrc fb)
      | PayloadFeedbackPacket fb \<Rightarrow>
          (case kind fb of
             Fir entries \<Rightarrow> (case entries of [] \<Rightarrow> None | e # _ \<Rightarrow> Some (fir_ssrc e))
           | _ \<Rightarrow> Some (media_ssrc fb))
      | _ \<Rightarrow> None)"

definition RtcpPacket_is_keyframe_request :: "RtcpPacket \<Rightarrow> bool" where
  "RtcpPacket_is_keyframe_request p =
     (case p of
        PayloadFeedbackPacket fb \<Rightarrow> (case kind fb of Pli \<Rightarrow> True | Fir _ \<Rightarrow> True | _ \<Rightarrow> False)
      | _ \<Rightarrow> False)"

text \<open>The header of the four kinds that are not feedback.\<close>

definition plain_header :: "nat \<Rightarrow> RtcpPacketType \<Rightarrow> nat \<Rightarrow> RtcpHeader" where
  "plain_header n packet_type len =
     \<lparr>rh_version = 2, rh_padding = False, rh_count = of_nat n, rh_packet_type = packet_type,
      rh_length = of_nat len\<rparr>"

definition RtcpPacket_to_bytes :: "RtcpPacket \<Rightarrow> bytes" where
  "RtcpPacket_to_bytes p =
     (case p of
        SenderReportPacket sr \<Rightarrow>
          let n = length (sr_report_blocks sr)
          in RtcpHeader_to_bytes (plain_header n PT_SR ((28 + n * 24) div 4 - 1)) @ SenderReport_to_bytes sr
      | ReceiverReportPacket rr \<Rightarrow>
          let n = length (rr_report_blocks rr)
          in RtcpHeader_to_bytes (plain_header n PT_RR ((8 + n * 24) div 4 - 1)) @ ReceiverReport_to_bytes rr
      | SourceDescriptionPacket sd \<Rightarrow>
          let payload = SourceDescription_to_bytes sd
          in RtcpHeader_to_bytes (plain_header (length (sdes_chunks sd)) PT_SDES (length payload div 4)) @ payload
      | ByePacket b \<Rightarrow>
          let payload = Bye_to_bytes b
          in RtcpHeader_to_bytes (plain_header (length (bye_ssrcs b)) PT_BYE (length payload div 4)) @ payload
      | TransportFeedbackPacket fb \<Rightarrow>
          feedback_bytes PT_RTPFB (RtpFeedback_fmt fb) (sender_ssrc fb) (media_ssrc fb) (RtpFeedback_fci fb)
      | PayloadFeedbackPacket fb \<Rightarrow>
          feedback_bytes PT_PSFB (PsFeedback_fmt fb) (sender_ssrc fb) (media_ssrc fb) (PsFeedback_fci fb))"

section \<open>Reading back what was written\<close>

subsection \<open>Fields\<close>

lemma u32_at_be32 [simp]: "u32_at (to_be32 w @ rest) 0 = w" "u32_at (to_be32 w) 0 = w"
  by (simp_all add: u32_at_def to_be32_def)

lemma u32_at_append: "length xs \<le> i \<Longrightarrow> u32_at (xs @ ys) i = u32_at ys (i - length xs)"
proof -
  assume "length xs \<le> i"
  then obtain k where "i = length xs + k" using le_Suc_ex by blast
  then show ?thesis
    by (simp add: u32_at_def nth_append)
qed

lemma try_from_code [simp]: "RtcpPacketType_try_from (RtcpPacketType_code t) = Inr t"
  by (cases t) (simp_all add: RtcpPacketType_try_from_def)

lemma all_below: "list_all P [0..<n] \<Longrightarrow> k < n \<Longrightarrow> P k"
  by (simp add: list_all_iff)

lemma header_first_octet:
  fixes c :: u8
  assumes "c < 32"
  shows "drop_bit 6 (0x80 OR c) = 2" "drop_bit 6 (0x80 OR c) AND 0x03 = 2" "(0x80 OR c) AND 0x20 = 0"
    "(0x80 OR c) AND 0x1F = c" "c AND 0x1F = c"
proof -
  let ?P = "\<lambda>c :: u8. drop_bit 6 (0x80 OR c) = 2 \<and> drop_bit 6 (0x80 OR c) AND 0x03 = 2 \<and>
    (0x80 OR c) AND 0x20 = 0 \<and> (0x80 OR c) AND 0x1F = c \<and> c AND 0x1F = c"
  have "list_all (\<lambda>n. ?P (of_nat n)) [0..<32]" by code_simp
  moreover have "unat c < 32" using assms by (simp add: word_less_nat_alt)
  ultimately have "?P (of_nat (unat c))"
    by (rule all_below)
  moreover have "(of_nat (unat c) :: u8) = c" by simp
  ultimately have "?P c" by (rule back_subst)
  then show "drop_bit 6 (0x80 OR c) = 2" "drop_bit 6 (0x80 OR c) AND 0x03 = 2" "(0x80 OR c) AND 0x20 = 0"
    "(0x80 OR c) AND 0x1F = c" "c AND 0x1F = c" by (iprover elim: conjE)+
qed

lemma masks_24:
  "(0x00FFFFFF :: u32) = mask 24" "(0x00800000 :: u32) = push_bit 23 1" "(0xFF000000 :: u32) = NOT (mask 24)"
  by (simp_all add: mask_eq_exp_minus_1 push_bit_eq_mult not_eq_complement)

lemma sign_bits_24:
  assumes "- 0x00800000 \<le> sint (c :: i32)" "sint c \<le> 0x007FFFFF" "24 \<le> n" "n < 32"
  shows "bit c n = bit c 23"
proof -
  have s: "signed_take_bit 23 (sint c) = sint c"
    using assms(1,2) by (intro signed_take_bit_int_eq_self) simp_all
  have "bit c n = bit (signed_take_bit 23 (sint c)) n"
    using assms(4) by (simp add: s bit_sint_iff min_def)
  also have "\<dots> = bit (sint c) 23"
    using assms(3) by (simp add: bit_signed_take_bit_iff min_def)
  finally show ?thesis
    by (simp add: bit_sint_iff min_def)
qed

lemma sign_extend_24:
  fixes c :: i32
  assumes range: "- 0x00800000 \<le> sint c" "sint c \<le> 0x007FFFFF"
  shows "(if (c AND 0x00FFFFFF) AND 0x00800000 \<noteq> 0 then (c AND 0x00FFFFFF) OR 0xFF000000 else c AND 0x00FFFFFF) = c"
proof -
  have "bit (c AND mask 24) 23 = bit c 23"
    by (simp add: bit_and_iff bit_mask_iff)
  then have sign: "(c AND mask 24) AND push_bit 23 1 \<noteq> 0 \<longleftrightarrow> bit c 23"
    unfolding bit_iff_and_push_bit_not_eq_0 .
  show ?thesis
    unfolding masks_24 sign
  proof (rule bit_word_eqI)
    fix n assume "n < LENGTH(32)"
    then show "bit (if bit c 23 then (c AND mask 24) OR NOT (mask 24) else c AND mask 24) n = bit c n"
      using sign_bits_24 [OF range, of n] by (cases "n < 24") (simp_all add: bit_and_iff bit_or_iff bit_not_iff bit_mask_iff)
  qed
qed

lemma raw_24:
  fixes r :: u32
  assumes "r AND 0x00FFFFFF = r"
  shows "push_bit 16 (ucast (ucast (drop_bit 16 r) :: u8)) OR push_bit 8 (ucast (ucast (drop_bit 8 r) :: u8)) OR
    ucast (ucast r :: u8) = r"
proof -
  have 24: "n < 24" if "bit r n" for n
    using assms that unfolding masks_24 by (metis bit_and_iff bit_mask_iff)
  show ?thesis
  proof (rule bit_word_eqI)
    fix n assume "n < LENGTH(32)"
    consider "n < 8" | "8 \<le> n" "n < 16" | "16 \<le> n" by linarith
    then show "bit (push_bit 16 (ucast (ucast (drop_bit 16 r) :: u8)) OR
        push_bit 8 (ucast (ucast (drop_bit 8 r) :: u8)) OR ucast (ucast r :: u8) :: u32) n = bit r n"
      using 24 [of n] \<open>n < LENGTH(32)\<close> by cases (auto simp: bit_simps)
  qed
qed

lemma low_octet: "(ucast (n AND 0xFF) :: u8) = ucast (n :: u16)"
proof (rule bit_word_eqI)
  have *: "(0xFF :: u16) = mask 8" by (simp add: mask_eq_exp_minus_1)
  fix k assume "k < LENGTH(8)"
  then show "bit (ucast (n AND 0xFF) :: u8) k = bit (ucast n :: u8) k"
    unfolding * by (simp add: bit_ucast_iff bit_and_iff bit_mask_iff)
qed

lemma header_read_back:
  assumes "c < 32"
  shows "RtcpHeader_parse (RtcpHeader_to_bytes
      \<lparr>rh_version = 2, rh_padding = False, rh_count = c, rh_packet_type = t, rh_length = n\<rparr> @ rest) =
    Inr \<lparr>rh_version = 2, rh_padding = False, rh_count = c, rh_packet_type = t, rh_length = n\<rparr>"
  using header_first_octet [OF assms] try_from_code [of t]
  by (simp add: RtcpHeader_parse_def RtcpHeader_to_bytes_def low_octet Let_def)

subsection \<open>Report blocks\<close>

definition rb_ok :: "ReceptionReportBlock \<Rightarrow> bool" where
  "rb_ok b \<longleftrightarrow> - 0x00800000 \<le> sint (cumulative_lost b) \<and> sint (cumulative_lost b) \<le> 0x007FFFFF"

lemma length_report_block [simp]: "length (ReceptionReportBlock_to_bytes b) = 24"
  by (simp add: ReceptionReportBlock_to_bytes_def Let_def)

lemma report_block_read_back:
  assumes "rb_ok b"
  shows "ReceptionReportBlock_parse (ReceptionReportBlock_to_bytes b @ rest) = Inr b"
proof -
  define raw where "raw = cumulative_lost b AND 0x00FFFFFF"
  have raw: "clamp24 (cumulative_lost b) AND 0x00FFFFFF = raw"
    using assms by (simp add: clamp24_def rb_ok_def raw_def)
  have lost: "(if raw AND 0x00800000 \<noteq> 0 then raw OR 0xFF000000 else raw) = cumulative_lost b"
    using assms unfolding raw_def rb_ok_def by (intro sign_extend_24) blast+
  have "raw AND 0x00FFFFFF = raw"
    by (simp add: raw_def and.assoc)
  from raw_24 [OF this] show ?thesis
    by (simp add: ReceptionReportBlock_parse_def ReceptionReportBlock_to_bytes_def u32_at_def to_be32_def
        raw lost Let_def del: if_split)
qed

interpretation report_block: prefix_codec ReceptionReportBlock_to_bytes
  "\<lambda>d. case ReceptionReportBlock_parse d of Inl _ \<Rightarrow> None | Inr b \<Rightarrow> Some (b, drop 24 d)" rb_ok
  by unfold_locales (simp add: report_block_read_back)

lemma report_blocks_decode:
  "decode_many (\<lambda>d. case ReceptionReportBlock_parse d of Inl _ \<Rightarrow> None | Inr b \<Rightarrow> Some (b, drop 24 d)) n d =
     Some (bs, rest) \<Longrightarrow> parse_report_blocks k rc n d = Inr bs"
  by (induction n arbitrary: d bs)
    (auto split: sum.splits option.splits if_splits simp: ReceptionReportBlock_parse_def)

lemma report_blocks_read_back:
  "list_all rb_ok bs \<Longrightarrow>
     parse_report_blocks k rc (length bs) (concat (map ReceptionReportBlock_to_bytes bs)) = Inr bs"
  using report_block.decode_many_enc [of bs "[]"] report_blocks_decode
  by (simp add: list_all_iff)

lemma sender_report_read_back:
  assumes "list_all rb_ok (sr_report_blocks sr)" "unat n = length (sr_report_blocks sr)"
  shows "SenderReport_parse (SenderReport_to_bytes sr) n = Inr sr"
  using report_blocks_read_back [OF assms(1)] assms(2)
  by (simp add: SenderReport_parse_def SenderReport_to_bytes_def u32_at_def to_be32_def)

lemma receiver_report_read_back:
  assumes "list_all rb_ok (rr_report_blocks rr)" "unat n = length (rr_report_blocks rr)"
  shows "ReceiverReport_parse (ReceiverReport_to_bytes rr) n = Inr rr"
  using report_blocks_read_back [OF assms(1)] assms(2)
  by (simp add: ReceiverReport_parse_def ReceiverReport_to_bytes_def u32_at_def to_be32_def)

subsection \<open>Source descriptions\<close>

definition END_item :: SdesItem where
  "END_item = \<lparr>item_type = sdes_END, item_text = []\<rparr>"

definition item_ok :: "SdesItem \<Rightarrow> bool" where
  "item_ok i \<longleftrightarrow> item_type i \<noteq> sdes_END \<and> valid_utf8 (item_text i) \<and> length (item_text i) \<le> 255"

text \<open>A chunk closed by its END item, as the parser returns it.\<close>

definition chunk_ok :: "SdesChunk \<Rightarrow> bool" where
  "chunk_ok c \<longleftrightarrow>
     chunk_items c \<noteq> [] \<and> last (chunk_items c) = END_item \<and> list_all item_ok (butlast (chunk_items c))"

definition close_chunk :: "SdesChunk \<Rightarrow> SdesChunk" where
  "close_chunk c =
     (if chunk_items c = [] \<or> item_type (last (chunk_items c)) \<noteq> sdes_END
      then c\<lparr>chunk_items := chunk_items c @ [END_item]\<rparr> else c)"

lemma END_item_bytes [simp]: "SdesItem_to_bytes END_item = [0]" "item_type END_item = sdes_END"
  by (simp_all add: SdesItem_to_bytes_def END_item_def)

lemma close_chunk_bytes: "SdesChunk_to_bytes (close_chunk c) = SdesChunk_to_bytes c"
  by (auto simp: SdesChunk_to_bytes_def close_chunk_def sdes_END_def)

lemma unat_of_nat_u8: "n \<le> 255 \<Longrightarrow> unat (of_nat n :: u8) = n"
  by (simp add: unat_of_nat)

lemma item_read_back:
  "item_ok i \<Longrightarrow> SdesItem_parse (SdesItem_to_bytes i @ rest) = Inr (i, length (SdesItem_to_bytes i))"
  by (simp add: SdesItem_parse_def SdesItem_to_bytes_def item_ok_def unat_of_nat_u8 from_utf8_lossy_id Let_def)

lemma items_read_back:
  "list_all item_ok is \<Longrightarrow>
     parse_sdes_items (concat (map SdesItem_to_bytes is) @ 0 # rest) =
       Inr (is @ [END_item], Suc (length (concat (map SdesItem_to_bytes is))))"
proof (induction "is")
  case Nil
  show ?case
    by (subst parse_sdes_items.simps) (simp add: SdesItem_parse_def END_item_def sdes_END_def)
next
  case (Cons i "is")
  then have "item_type i \<noteq> sdes_END" "SdesItem_to_bytes i \<noteq> []"
    by (simp_all add: item_ok_def SdesItem_to_bytes_def Let_def)
  with Cons show ?case
    by (subst parse_sdes_items.simps) (simp add: item_read_back)
qed

lemma pad4_append: "length xs mod 4 = 0 \<Longrightarrow> pad4 (xs @ ys) = xs @ pad4 ys"
  by (auto simp: pad4_def round_up4_def) presburger

lemma length_pad4: "length (pad4 bs) = round_up4 (length bs)"
  by (simp add: pad4_def)

lemma chunk_read_back:
  assumes "chunk_ok c"
  shows "SdesChunk_parse (SdesChunk_to_bytes c @ rest) = Inr (c, length (SdesChunk_to_bytes c))"
proof -
  obtain "is" where items: "chunk_items c = is @ [END_item]" "list_all item_ok is"
    using assms by (metis append_butlast_last_id chunk_ok_def)
  let ?b = "concat (map SdesItem_to_bytes is)"
  obtain k where bytes: "SdesChunk_to_bytes c = to_be32 (chunk_ssrc c) @ ?b @ 0 # replicate k 0"
    by (simp add: SdesChunk_to_bytes_def items pad4_def)
  have len: "length (SdesChunk_to_bytes c) = round_up4 (5 + length ?b)"
    by (simp add: SdesChunk_to_bytes_def items length_pad4)
  have "parse_sdes_items (?b @ 0 # replicate k 0 @ rest) = Inr (is @ [END_item], Suc (length ?b))"
    by (rule items_read_back [OF items(2)])
  then have "SdesChunk_parse (SdesChunk_to_bytes c @ rest) =
      Inr (\<lparr>chunk_ssrc = chunk_ssrc c, chunk_items = is @ [END_item]\<rparr>, round_up4 (5 + length ?b))"
    by (simp add: SdesChunk_parse_def bytes)
  then show ?thesis
    unfolding len by (simp add: items(1) [symmetric])
qed

interpretation sdes_chunk: prefix_codec SdesChunk_to_bytes
  "\<lambda>d. case SdesChunk_parse d of Inl _ \<Rightarrow> None | Inr (c, n) \<Rightarrow> Some (c, drop n d)" chunk_ok
  by unfold_locales (simp add: chunk_read_back)

lemma chunks_decode:
  "decode_many (\<lambda>d. case SdesChunk_parse d of Inl _ \<Rightarrow> None | Inr (c, n) \<Rightarrow> Some (c, drop n d)) n d =
     Some (cs, rest) \<Longrightarrow> parse_sdes_chunks n d = Inr cs"
  by (induction n arbitrary: d cs)
    (auto split: sum.splits option.splits if_splits simp: SdesChunk_parse_def)

lemma description_read_back:
  assumes "list_all (chunk_ok \<circ> close_chunk) (sdes_chunks sd)" "unat n = length (sdes_chunks sd)"
  shows "SourceDescription_parse (SourceDescription_to_bytes sd) n =
    Inr \<lparr>sdes_chunks = map close_chunk (sdes_chunks sd)\<rparr>"
proof -
  let ?cs = "map close_chunk (sdes_chunks sd)"
  have "concat (map SdesChunk_to_bytes ?cs) = SourceDescription_to_bytes sd"
    by (simp add: SourceDescription_to_bytes_def close_chunk_bytes comp_def)
  moreover have "chunk_ok c" if "c \<in> set ?cs" for c
    using that assms(1) by (auto simp: list_all_iff)
  ultimately have "parse_sdes_chunks (length ?cs) (SourceDescription_to_bytes sd) = Inr ?cs"
    using chunks_decode [OF sdes_chunk.decode_many_enc [of ?cs "[]"]] by simp
  then show ?thesis
    using assms(2) by (simp add: SourceDescription_parse_def)
qed

lemma length_chunk_mod4: "length (SdesChunk_to_bytes c) mod 4 = 0"
  by (simp add: SdesChunk_to_bytes_def length_pad4 round_up4_def)

lemma length_description_mod4: "length (SourceDescription_to_bytes sd) mod 4 = 0"
proof -
  have "4 dvd length (concat (map SdesChunk_to_bytes cs))" for cs
    by (induction cs) (auto simp: length_chunk_mod4 dvd_eq_mod_eq_0)
  then show ?thesis
    by (simp add: SourceDescription_to_bytes_def)
qed

subsection \<open>Goodbyes\<close>

definition reason_ok :: "bytes option \<Rightarrow> bool" where
  "reason_ok r = (case r of None \<Rightarrow> True | Some t \<Rightarrow> valid_utf8 t \<and> length t \<le> 255)"

lemma u32s_at: "map (\<lambda>i. u32_at (concat (map to_be32 ws) @ rest) (4 * i)) [0..<length ws] = ws"
proof (induction ws)
  case (Cons w ws)
  have "map (\<lambda>i. u32_at (to_be32 w @ xs) (4 * i)) [0..<Suc n] = w # map (\<lambda>i. u32_at xs (4 * i)) [0..<n]" for xs n
    by (simp add: upt_conv_Cons map_Suc_upt [symmetric] u32_at_append comp_def del: upt_Suc)
  from this [of "concat (map to_be32 ws) @ rest" "length ws"] Cons show ?case
    by simp
qed simp

lemma length_be32s: "length (concat (map to_be32 ws)) = 4 * length ws"
  by (rule length_concat_const) simp

lemma bye_read_back:
  assumes "reason_ok (bye_reason b)" "unat n = length (bye_ssrcs b)"
  shows "Bye_parse (Bye_to_bytes b) n = Inr b"
proof (cases "bye_reason b")
  case None
  then show ?thesis
    using assms(2) u32s_at [of "bye_ssrcs b" "[]"]
    by (simp add: Bye_parse_def Bye_to_bytes_def length_be32s Let_def)
next
  case (Some t)
  obtain k where bytes: "Bye_to_bytes b = concat (map to_be32 (bye_ssrcs b)) @ of_nat (length t) # t @ replicate k 0"
    using Some assms(1) by (simp add: Bye_to_bytes_def pad4_def reason_ok_def min_def Let_def)
  show ?thesis
    using assms Some unfolding bytes
    by (simp add: Bye_parse_def u32s_at length_be32s reason_ok_def from_utf8_lossy_id unat_of_nat_u8 Let_def)
qed

lemma length_bye_mod4: "length (Bye_to_bytes b) mod 4 = 0"
  by (simp add: Bye_to_bytes_def length_pad4 length_be32s round_up4_def Let_def split: option.splits)

subsection \<open>Feedback\<close>

lemma chunks_exact_Nil [simp]: "0 < k \<Longrightarrow> chunks_exact k [] = []"
  by (simp add: chunks_exact.simps)

lemma chunks_exact_concat:
  "0 < k \<Longrightarrow> (\<And>x. x \<in> set xs \<Longrightarrow> length (f x) = k) \<Longrightarrow> chunks_exact k (concat (map f xs)) = map f xs"
proof (induction xs)
  case (Cons x xs)
  then show ?case
    by (subst chunks_exact.simps) simp
qed simp

lemma transport_read_back:
  assumes "case kind fb of Nack es \<Rightarrow> True | TF_Other fmt fci \<Rightarrow> fmt \<noteq> 1"
  shows "RtpFeedback_parse (to_be32 (sender_ssrc fb) @ to_be32 (media_ssrc fb) @ RtpFeedback_fci fb)
    (RtpFeedback_fmt fb) = Inr fb"
proof -
  let ?enc = "\<lambda>e. to_be16 (packet_id e) @ to_be16 (bitmask e)"
  have "map (\<lambda>c. \<lparr>packet_id = be16 (c ! 0) (c ! 1), bitmask = be16 (c ! 2) (c ! 3)\<rparr>)
      (chunks_exact 4 (concat (map ?enc es))) = es" for es
    by (simp add: chunks_exact_concat map_idI to_be16_def)
  moreover have "length (concat (map ?enc es)) mod 4 = 0" for es
    by (subst length_concat_const [where k = 4]) simp_all
  ultimately show ?thesis
    using assms
    by (cases fb) (simp add: RtpFeedback_parse_def split_feedback_def RtpFeedback_fci_def RtpFeedback_fmt_def
        u32_at_append split: TransportFeedback.splits)
qed

text \<open>A REMB is well-formed when its bit rate is one that 18 bits and an exponent can say.\<close>

definition remb_rate :: "u64 \<Rightarrow> u64" where
  "remb_rate b = (case remb_shift b 0 of (mantissa, exp) \<Rightarrow> push_bit exp mantissa)"

definition ps_kind_ok :: "PayloadFeedback \<Rightarrow> bool" where
  "ps_kind_ok k =
     (case k of
        Remb b ssrcs \<Rightarrow> length ssrcs \<le> 255
      | PF_Other fmt fci \<Rightarrow> fmt \<noteq> 1 \<and> fmt \<noteq> 4 \<and> \<not> (fmt = 15 \<and> 8 \<le> length fci \<and> take 4 fci = REMB)
      | _ \<Rightarrow> True)"

lemma remb_shift_result:
  "unat b < 2 ^ (18 + n) \<Longrightarrow>
     case remb_shift b e of (m, x) \<Rightarrow> m \<le> 0x3FFFF \<and> e \<le> x \<and> x \<le> e + n \<and> unat m = unat b div 2 ^ (x - e) \<and>
       (e < x \<longrightarrow> 0x20000 \<le> m)"
proof (induction n arbitrary: b e)
  case 0
  then have "b \<le> 0x3FFFF" by (simp add: word_le_nat_alt)
  then show ?case by (simp add: remb_shift.simps)
next
  case (Suc n)
  show ?case
  proof (cases "0x3FFFF < b")
    case True
    have half: "unat (drop_bit 1 b) = unat b div 2"
      by (simp add: drop_bit_eq_div unat_div)
    then have "unat (drop_bit 1 b) < 2 ^ (18 + n)"
      using Suc.prems by (simp add: less_mult_imp_div_less power_add mult.commute)
    from Suc.IH [OF this, of "Suc e"] obtain m x where
      r: "remb_shift (drop_bit 1 b) (Suc e) = (m, x)" and
      *: "m \<le> 0x3FFFF" "Suc e \<le> x" "x \<le> Suc e + n" "unat m = unat (drop_bit 1 b) div 2 ^ (x - Suc e)"
        "Suc e < x \<longrightarrow> 0x20000 \<le> m"
      by (auto simp: case_prod_beta prod_eq_iff)
    have "unat m = unat b div 2 ^ (x - e)"
      using *(2,4) half by (simp add: div_mult2_eq [symmetric] power_Suc [symmetric] Suc_diff_Suc del: power_Suc)
    moreover have "0x20000 \<le> m"
    proof (cases "x = Suc e")
      case True
      then have "unat m = unat b div 2" using *(4) half by simp
      then show ?thesis using \<open>0x3FFFF < b\<close> by (simp add: word_le_nat_alt word_less_nat_alt)
    qed (use * in simp)
    ultimately show ?thesis
      using * True r by (subst remb_shift.simps) simp
  next
    case False
    then show ?thesis by (simp add: remb_shift.simps not_less)
  qed
qed

lemma remb_shift_64:
  obtains m x where "remb_shift b 0 = (m, x)" "m \<le> 0x3FFFF" "x \<le> 46" "unat m = unat b div 2 ^ x"
    "0 < x \<longrightarrow> 0x20000 \<le> m"
proof -
  have "unat b < 2 ^ (18 + 46)"
    using unsigned_less [of b] by simp
  from remb_shift_result [OF this, of 0] that show ?thesis
    by (cases "remb_shift b 0") auto
qed

lemma remb_octet:
  fixes m :: u64
  assumes "x \<le> 46"
  defines "o5 \<equiv> push_bit 2 (of_nat x) OR (ucast (drop_bit 16 m) AND 0x03) :: u8"
  shows "drop_bit 2 o5 = of_nat x" "o5 AND 0x03 = ucast (drop_bit 16 m) AND 0x03"
proof -
  have m3: "(0x03 :: u8) = mask 2" by (simp add: mask_eq_exp_minus_1)
  have small: "n < 6" if "bit (of_nat x :: u8) n" for n
  proof -
    have "take_bit 6 (of_nat x :: u8) = of_nat x"
      using assms(1) by (simp add: take_bit_of_nat take_bit_nat_eq_self)
    with that show ?thesis by (metis bit_take_bit_iff)
  qed
  show "drop_bit 2 o5 = of_nat x"
    unfolding o5_def m3 by (rule bit_word_eqI)
      (auto simp: bit_drop_bit_eq bit_or_iff bit_push_bit_iff bit_and_iff bit_mask_iff dest: small)
  show "o5 AND 0x03 = ucast (drop_bit 16 m) AND 0x03"
    unfolding o5_def m3 by (rule bit_word_eqI)
      (auto simp: bit_or_iff bit_push_bit_iff bit_and_iff bit_mask_iff)
qed

lemma remb_mantissa:
  fixes m :: u64
  assumes "m \<le> 0x3FFFF"
  defines "w \<equiv> ucast (m AND 0xFFFF) :: u16"
  shows "push_bit 16 (ucast (ucast (drop_bit 16 m) AND 0x03 :: u8)) OR
    push_bit 8 (ucast (ucast (drop_bit 8 w) :: u8)) OR ucast (ucast w :: u8) = m"
proof -
  have "take_bit 18 m = m"
    using assms(1) by (simp add: take_bit_eq_mod word_le_nat_alt word_arith_nat_mod)
  then have 18: "n < 18" if "bit m n" for n
    using that by (metis bit_take_bit_iff)
  have ms: "(0x03 :: u8) = mask 2" "(0xFFFF :: u64) = mask 16"
    by (simp_all add: mask_eq_exp_minus_1)
  show ?thesis
    unfolding w_def ms
  proof (rule bit_word_eqI)
    fix n assume "n < LENGTH(64)"
    consider "n < 8" | "8 \<le> n" "n < 16" | "16 \<le> n" by linarith
    then show "bit (push_bit 16 (ucast (ucast (drop_bit 16 m) AND mask 2 :: u8)) OR
      push_bit 8 (ucast (ucast (drop_bit 8 (ucast (m AND mask 16) :: u16)) :: u8)) OR
      ucast (ucast (ucast (m AND mask 16) :: u16) :: u8) :: u64) n = bit m n"
      using 18 [of n] \<open>n < LENGTH(64)\<close> by cases (auto simp: bit_simps)
  qed
qed

lemma payload_read_back:
  assumes "ps_kind_ok (kind fb)"
  shows "PsFeedback_parse (to_be32 (sender_ssrc fb) @ to_be32 (media_ssrc fb) @ PsFeedback_fci fb)
    (PsFeedback_fmt fb) =
    Inr (fb\<lparr>kind := (case kind fb of Remb b ssrcs \<Rightarrow> Remb (remb_rate b) ssrcs | k \<Rightarrow> k)\<rparr>)"
proof (cases "kind fb")
  case Pli
  then show ?thesis
    by (cases fb) (simp add: PsFeedback_parse_def split_feedback_def PsFeedback_fci_def PsFeedback_fmt_def u32_at_append)
next
  case (Fir es)
  let ?enc = "\<lambda>e. to_be32 (fir_ssrc e) @ [fir_seq e, 0, 0, 0]"
  have "map (\<lambda>c. \<lparr>fir_ssrc = u32_at c 0, fir_seq = c ! 4\<rparr>) (chunks_exact 8 (concat (map ?enc es))) = es"
    by (simp add: chunks_exact_concat map_idI nth_append)
  moreover have "length (concat (map ?enc es)) mod 8 = 0"
    by (subst length_concat_const [where k = 8]) simp_all
  ultimately show ?thesis
    using Fir by (cases fb) (simp add: PsFeedback_parse_def split_feedback_def PsFeedback_fci_def PsFeedback_fmt_def u32_at_append)
next
  case (PF_Other fmt fci)
  then show ?thesis
    using assms by (cases fb) (auto simp: ps_kind_ok_def PsFeedback_parse_def split_feedback_def PsFeedback_fci_def
        PsFeedback_fmt_def u32_at_append)
next
  case (Remb b ssrcs)
  obtain m x where sh: "remb_shift b 0 = (m, x)" "m \<le> 0x3FFFF" "x \<le> 46"
    by (rule remb_shift_64 [of b])
  let ?tail = "concat (map to_be32 ssrcs)"
  have n: "unat (of_nat (length ssrcs) :: u8) = length ssrcs"
    using assms Remb by (simp add: ps_kind_ok_def unat_of_nat_u8)
  have x: "unat (of_nat x :: u8) = x"
    using sh(3) by (simp add: unat_of_nat)
  have ssrcs: "map (\<lambda>c. u32_at c 0) (chunks_exact 4 ?tail) = ssrcs" "length ?tail = length ssrcs * 4"
    by (simp_all add: chunks_exact_concat map_idI length_be32s)
  show ?thesis
    using Remb sh(1) n x ssrcs remb_octet [OF sh(3), of m] remb_mantissa [OF sh(2)]
    by (cases fb) (simp add: PsFeedback_parse_def split_feedback_def PsFeedback_fci_def PsFeedback_fmt_def
        REMB_def to_be16_def remb_rate_def u32_at_append Let_def)
qed

subsection \<open>Packets and frames\<close>

definition packet_ok :: "RtcpPacket \<Rightarrow> bool" where
  "packet_ok p =
     (case p of
        SenderReportPacket sr \<Rightarrow> length (sr_report_blocks sr) \<le> 31 \<and> list_all rb_ok (sr_report_blocks sr)
      | ReceiverReportPacket rr \<Rightarrow> length (rr_report_blocks rr) \<le> 31 \<and> list_all rb_ok (rr_report_blocks rr)
      | SourceDescriptionPacket sd \<Rightarrow>
          length (sdes_chunks sd) \<le> 31 \<and> list_all (chunk_ok \<circ> close_chunk) (sdes_chunks sd) \<and>
          length (SourceDescription_to_bytes sd) div 4 < 65536
      | ByePacket b \<Rightarrow> length (bye_ssrcs b) \<le> 31 \<and> reason_ok (bye_reason b)
      | TransportFeedbackPacket fb \<Rightarrow>
          (case kind fb of Nack _ \<Rightarrow> True | TF_Other fmt fci \<Rightarrow> fmt < 32 \<and> fmt \<noteq> 1 \<and> length fci mod 4 = 0) \<and>
          (8 + length (RtpFeedback_fci fb)) div 4 < 65536
      | PayloadFeedbackPacket fb \<Rightarrow>
          ps_kind_ok (kind fb) \<and>
          (case kind fb of PF_Other fmt fci \<Rightarrow> fmt < 32 \<and> length fci mod 4 = 0 | _ \<Rightarrow> True) \<and>
          (8 + length (PsFeedback_fci fb)) div 4 < 65536)"

text \<open>
  What comes back: a source description with its chunks closed by END items, a REMB with its rate
  rounded, every other packet as it was.
\<close>

definition as_read :: "RtcpPacket \<Rightarrow> RtcpPacket" where
  "as_read p =
     (case p of
        SourceDescriptionPacket sd \<Rightarrow> SourceDescriptionPacket \<lparr>sdes_chunks = map close_chunk (sdes_chunks sd)\<rparr>
      | PayloadFeedbackPacket fb \<Rightarrow>
          PayloadFeedbackPacket (fb\<lparr>kind := (case kind fb of Remb b ssrcs \<Rightarrow> Remb (remb_rate b) ssrcs | k \<Rightarrow> k)\<rparr>)
      | _ \<Rightarrow> p)"

definition frame_ok :: "bytes \<Rightarrow> bool" where
  "frame_ok f \<longleftrightarrow>
     4 \<le> length f \<and> length f = (unat (be16 (f ! 2) (f ! 3)) + 1) * 4 \<and> drop_bit 6 (f ! 0) = 2"

lemma of_nat_count:
  "n \<le> 31 \<Longrightarrow> (of_nat n :: u8) < 32" "n \<le> 31 \<Longrightarrow> unat (of_nat n :: u8) = n"
  by (simp_all add: word_less_nat_alt unat_of_nat)

lemma framed:
  assumes "c < 32" "n < 65536" "length body = 4 * n"
  shows "frame_ok (RtcpHeader_to_bytes
    \<lparr>rh_version = 2, rh_padding = False, rh_count = c, rh_packet_type = t, rh_length = of_nat n\<rparr> @ body)"
  using assms header_first_octet [OF assms(1)]
  by (simp add: frame_ok_def RtcpHeader_to_bytes_def low_octet unat_of_nat)

lemma length_blocks: "length (concat (map ReceptionReportBlock_to_bytes bs)) = 24 * length bs"
  by (rule length_concat_const) simp

lemma length_reports:
  "length (SenderReport_to_bytes sr) = 24 + 24 * length (sr_report_blocks sr)"
  "length (ReceiverReport_to_bytes rr) = 4 + 24 * length (rr_report_blocks rr)"
  by (simp_all add: SenderReport_to_bytes_def ReceiverReport_to_bytes_def length_blocks)

lemma length_bye: "reason_ok (bye_reason b) \<Longrightarrow> length (bye_ssrcs b) \<le> 31 \<Longrightarrow> length (Bye_to_bytes b) div 4 < 65536"
  by (auto simp: Bye_to_bytes_def length_pad4 length_be32s reason_ok_def round_up4_def Let_def split: option.splits)

lemma length_fci_mod4:
  "(case kind fb of Nack _ \<Rightarrow> True | TF_Other fmt fci \<Rightarrow> fmt < 32 \<and> fmt \<noteq> 1 \<and> length fci mod 4 = 0) \<Longrightarrow>
     length (RtpFeedback_fci fb) mod 4 = 0"
  "(case kind fb' of PF_Other fmt fci \<Rightarrow> fmt < 32 \<and> length fci mod 4 = 0 | _ \<Rightarrow> True) \<Longrightarrow>
     length (PsFeedback_fci fb') mod 4 = 0"
proof -
  have "length (concat (map (\<lambda>e. to_be16 (packet_id e) @ to_be16 (bitmask e)) es)) = 4 * length es" for es :: "NackEntry list"
    by (rule length_concat_const) simp
  then show "(case kind fb of Nack _ \<Rightarrow> True | TF_Other fmt fci \<Rightarrow> fmt < 32 \<and> fmt \<noteq> 1 \<and> length fci mod 4 = 0) \<Longrightarrow>
     length (RtpFeedback_fci fb) mod 4 = 0"
    by (simp add: RtpFeedback_fci_def split: TransportFeedback.splits)
  have "length (concat (map (\<lambda>e. to_be32 (fir_ssrc e) @ [fir_seq e, 0, 0, 0]) es)) = 8 * length es" for es :: "FirEntry list"
    by (rule length_concat_const) simp
  then show "(case kind fb' of PF_Other fmt fci \<Rightarrow> fmt < 32 \<and> length fci mod 4 = 0 | _ \<Rightarrow> True) \<Longrightarrow>
     length (PsFeedback_fci fb') mod 4 = 0"
    by (auto simp: PsFeedback_fci_def REMB_def length_be32s Let_def case_prod_beta mod_mult_left_eq
        split: PayloadFeedback.splits)
qed

lemma fmt_small:
  "(case kind fb of Nack _ \<Rightarrow> True | TF_Other fmt fci \<Rightarrow> fmt < 32 \<and> fmt \<noteq> 1 \<and> length fci mod 4 = 0) \<Longrightarrow>
     RtpFeedback_fmt fb < 32"
  "(case kind fb' of PF_Other fmt fci \<Rightarrow> fmt < 32 \<and> length fci mod 4 = 0 | _ \<Rightarrow> True) \<Longrightarrow>
     PsFeedback_fmt fb' < 32"
  by (simp_all add: RtpFeedback_fmt_def PsFeedback_fmt_def split: TransportFeedback.splits PayloadFeedback.splits)

lemma header_drop: "drop 4 (RtcpHeader_to_bytes h @ body) = body" "length (RtcpHeader_to_bytes h) = 4"
  by (simp_all add: RtcpHeader_to_bytes_def)

lemma feedback_frame:
  assumes "fmt < 32" "(8 + length fci) div 4 < 65536" "length fci mod 4 = 0"
  shows "frame_ok (feedback_bytes t fmt s m fci)"
    and "RtcpHeader_parse (feedback_bytes t fmt s m fci) =
      Inr \<lparr>rh_version = 2, rh_padding = False, rh_count = fmt, rh_packet_type = t,
           rh_length = of_nat ((8 + length fci) div 4)\<rparr>"
    and "RtcpPacket_body (feedback_bytes t fmt s m fci)
      \<lparr>rh_version = 2, rh_padding = False, rh_count = fmt, rh_packet_type = t,
       rh_length = of_nat ((8 + length fci) div 4)\<rparr> = Inr (to_be32 s @ to_be32 m @ fci)"
proof -
  have n: "4 * ((8 + length fci) div 4) = 8 + length fci"
    using assms(3) by presburger
  then show "frame_ok (feedback_bytes t fmt s m fci)"
    using assms header_first_octet(5) [OF assms(1)]
    unfolding feedback_bytes_def by (simp only: header_first_octet(5)) (intro framed, simp_all)
  show "RtcpHeader_parse (feedback_bytes t fmt s m fci) =
      Inr \<lparr>rh_version = 2, rh_padding = False, rh_count = fmt, rh_packet_type = t,
           rh_length = of_nat ((8 + length fci) div 4)\<rparr>"
    unfolding feedback_bytes_def using header_read_back [OF assms(1)] header_first_octet(5) [OF assms(1)]
    by simp
  show "RtcpPacket_body (feedback_bytes t fmt s m fci)
      \<lparr>rh_version = 2, rh_padding = False, rh_count = fmt, rh_packet_type = t,
       rh_length = of_nat ((8 + length fci) div 4)\<rparr> = Inr (to_be32 s @ to_be32 m @ fci)"
    using n assms(2)
    by (simp add: RtcpPacket_body_def feedback_bytes_def header_drop unat_of_nat Let_def)
qed

lemma packet_framed:
  assumes "packet_ok p"
  shows "frame_ok (RtcpPacket_to_bytes p)"
proof (cases p)
  case (SenderReportPacket sr)
  let ?n = "length (sr_report_blocks sr)"
  have "(28 + ?n * 24) div 4 - 1 = 6 + 6 * ?n" by (simp add: algebra_simps)
  then show ?thesis
    using assms framed [of "of_nat ?n" "6 + 6 * ?n" "SenderReport_to_bytes sr" PT_SR]
    by (simp add: SenderReportPacket packet_ok_def RtcpPacket_to_bytes_def plain_header_def of_nat_count length_reports Let_def)
next
  case (ReceiverReportPacket rr)
  let ?n = "length (rr_report_blocks rr)"
  have "(8 + ?n * 24) div 4 - 1 = 1 + 6 * ?n" by (simp add: algebra_simps)
  then show ?thesis
    using assms framed [of "of_nat ?n" "1 + 6 * ?n" "ReceiverReport_to_bytes rr" PT_RR]
    by (simp add: ReceiverReportPacket packet_ok_def RtcpPacket_to_bytes_def plain_header_def of_nat_count length_reports Let_def)
next
  case (SourceDescriptionPacket sd)
  then show ?thesis
    using assms length_description_mod4 [of sd]
    by (auto simp: packet_ok_def RtcpPacket_to_bytes_def plain_header_def of_nat_count Let_def intro!: framed)
next
  case (ByePacket b)
  then show ?thesis
    using assms length_bye_mod4 [of b] length_bye [of b]
    by (auto simp: packet_ok_def RtcpPacket_to_bytes_def plain_header_def of_nat_count Let_def intro!: framed)
next
  case (TransportFeedbackPacket fb)
  then show ?thesis
    using assms length_fci_mod4(1) [of fb] fmt_small(1) [of fb]
    by (auto simp: packet_ok_def RtcpPacket_to_bytes_def intro!: feedback_frame(1))
next
  case (PayloadFeedbackPacket fb)
  then show ?thesis
    using assms length_fci_mod4(2) [of fb] fmt_small(2) [of fb]
    by (auto simp: packet_ok_def RtcpPacket_to_bytes_def intro!: feedback_frame(1))
qed

lemma plain_header_read_back:
  "n \<le> 31 \<Longrightarrow> RtcpHeader_parse (RtcpHeader_to_bytes (plain_header n t len) @ body) = Inr (plain_header n t len)"
  unfolding plain_header_def by (rule header_read_back) (rule of_nat_count(1))

lemma plain_header_fields [simp]:
  "rh_packet_type (plain_header n t len) = t" "rh_count (plain_header n t len) = of_nat n"
  by (simp_all add: plain_header_def)

lemma packet_read_back:
  assumes "packet_ok p"
  shows "RtcpPacket_parse (RtcpPacket_to_bytes p) = Inr (as_read p)"
proof (cases p)
  case (SenderReportPacket sr)
  then show ?thesis
    using assms sender_report_read_back [of sr "of_nat (length (sr_report_blocks sr))"]
    by (simp add: packet_ok_def RtcpPacket_parse_def RtcpPacket_to_bytes_def plain_header_read_back header_drop
        of_nat_count as_read_def Let_def)
next
  case (ReceiverReportPacket rr)
  then show ?thesis
    using assms receiver_report_read_back [of rr "of_nat (length (rr_report_blocks rr))"]
    by (simp add: packet_ok_def RtcpPacket_parse_def RtcpPacket_to_bytes_def plain_header_read_back header_drop
        of_nat_count as_read_def Let_def)
next
  case (SourceDescriptionPacket sd)
  then show ?thesis
    using assms description_read_back [of sd "of_nat (length (sdes_chunks sd))"]
    by (simp add: packet_ok_def RtcpPacket_parse_def RtcpPacket_to_bytes_def plain_header_read_back header_drop
        of_nat_count as_read_def Let_def)
next
  case (ByePacket b)
  then show ?thesis
    using assms bye_read_back [of b "of_nat (length (bye_ssrcs b))"]
    by (simp add: packet_ok_def RtcpPacket_parse_def RtcpPacket_to_bytes_def plain_header_read_back header_drop
        of_nat_count as_read_def Let_def)
next
  case (TransportFeedbackPacket fb)
  then have ok: "case kind fb of Nack _ \<Rightarrow> True | TF_Other fmt fci \<Rightarrow> fmt < 32 \<and> fmt \<noteq> 1 \<and> length fci mod 4 = 0"
    "(8 + length (RtpFeedback_fci fb)) div 4 < 65536"
    using assms by (simp_all add: packet_ok_def)
  then have "RtpFeedback_parse (to_be32 (sender_ssrc fb) @ to_be32 (media_ssrc fb) @ RtpFeedback_fci fb)
      (RtpFeedback_fmt fb) = Inr fb"
    by (intro transport_read_back) (simp split: TransportFeedback.splits)
  then show ?thesis
    using feedback_frame(2,3) [OF fmt_small(1) [OF ok(1)] ok(2) length_fci_mod4(1) [OF ok(1)]]
    by (simp add: TransportFeedbackPacket RtcpPacket_parse_def RtcpPacket_to_bytes_def as_read_def)
next
  case (PayloadFeedbackPacket fb)
  then have ok: "case kind fb of PF_Other fmt fci \<Rightarrow> fmt < 32 \<and> length fci mod 4 = 0 | _ \<Rightarrow> True"
    "(8 + length (PsFeedback_fci fb)) div 4 < 65536" and "ps_kind_ok (kind fb)"
    using assms by (simp_all add: packet_ok_def)
  then show ?thesis
    using feedback_frame(2,3) [OF fmt_small(2) [OF ok(1)] ok(2) length_fci_mod4(2) [OF ok(1)]]
      payload_read_back [of fb]
    by (simp add: PayloadFeedbackPacket RtcpPacket_parse_def RtcpPacket_to_bytes_def as_read_def)
qed

section \<open>Compound packets\<close>

definition read_frame :: "bytes \<Rightarrow> RtcpPacket list" where
  "read_frame f = (case RtcpPacket_parse f of Inl _ \<Rightarrow> [] | Inr p \<Rightarrow> [p])"

lemma compound_frame:
  assumes "frame_ok f"
  shows "RtcpPacket_parse_compound (f @ rest) = read_frame f @ RtcpPacket_parse_compound rest"
proof -
  have "(f @ rest) ! 0 = f ! 0" "(f @ rest) ! 2 = f ! 2" "(f @ rest) ! 3 = f ! 3"
    using assms by (simp_all add: frame_ok_def nth_append)
  then show ?thesis
    using assms
    by (subst RtcpPacket_parse_compound.simps) (simp add: frame_ok_def read_frame_def Let_def)
qed

lemma compound_frames:
  "list_all frame_ok fs \<Longrightarrow>
     RtcpPacket_parse_compound (concat fs @ rest) = concat (map read_frame fs) @ RtcpPacket_parse_compound rest"
  by (induction fs) (simp_all add: compound_frame)

lemma compound_stop:
  "length rest < 4 \<or> drop_bit 6 (rest ! 0) \<noteq> 2 \<Longrightarrow> RtcpPacket_parse_compound rest = []"
  by (subst RtcpPacket_parse_compound.simps) (auto simp: Let_def)

text \<open>
  A compound packet is read sub-packet by sub-packet: from a sequence of well-framed sub-packets,
  whatever their types and contents, exactly those that can be parsed are returned, in order, and none
  that cannot hides another; reading then goes on with what follows, and ends at a short rest or one
  of another version.
\<close>

theorem rtcp_compound_frames:
  assumes "list_all frame_ok fs"
  shows "RtcpPacket_parse_compound (concat fs @ rest) = concat (map read_frame fs) @ RtcpPacket_parse_compound rest \<and>
    (length rest < 4 \<or> drop_bit 6 (rest ! 0) \<noteq> 2 \<longrightarrow> RtcpPacket_parse_compound rest = [])"
  using compound_frames [OF assms] compound_stop by blast

text \<open>
  C7. Well-formed packets written one after another are all read back from the compound packet: each
  as it was, except that a source description has an END item in every chunk and a REMB carries the
  rate its 18-bit mantissa can express.
\<close>

theorem rtcp_compound_roundtrip:
  assumes "list_all packet_ok ps"
  shows "RtcpPacket_parse_compound (concat (map RtcpPacket_to_bytes ps)) = map as_read ps"
proof -
  have "list_all frame_ok (map RtcpPacket_to_bytes ps)"
    using assms by (auto simp: list_all_iff packet_framed)
  from compound_frames [OF this, of "[]"] have "RtcpPacket_parse_compound (concat (map RtcpPacket_to_bytes ps)) =
      concat (map (\<lambda>p. read_frame (RtcpPacket_to_bytes p)) ps)"
    by (simp add: compound_stop comp_def)
  also have "\<dots> = map as_read ps"
    using assms by (induction ps) (simp_all add: read_frame_def packet_read_back)
  finally show ?thesis .
qed

theorem rtcp_compound_frames_witness:
  "RtcpPacket_parse_compound (concat [[0x80, 204, 0, 0], RtcpPacket_to_bytes (ByePacket (Bye_new []))] @ [0]) =
     [ByePacket (Bye_new [])]"
proof -
  let ?bye = "RtcpPacket_to_bytes (ByePacket (Bye_new []))"
  have "packet_ok (ByePacket (Bye_new []))"
    by (simp add: packet_ok_def Bye_new_def reason_ok_def)
  then have "frame_ok ?bye" "read_frame ?bye = [ByePacket (Bye_new [])]"
    by (simp_all add: packet_framed packet_read_back read_frame_def as_read_def)
  moreover have "frame_ok [0x80, 204, 0, 0]" "read_frame [0x80, 204, 0, 0] = []"
    by (simp_all add: frame_ok_def read_frame_def RtcpPacket_parse_def RtcpHeader_parse_def
        RtcpPacketType_try_from_def be16_def Let_def)
  ultimately show ?thesis
    using rtcp_compound_frames [of "[[0x80, 204, 0, 0], ?bye]" "[0]"] by simp
qed

theorem rtcp_compound_roundtrip_witness:
  "RtcpPacket_parse_compound (concat (map RtcpPacket_to_bytes
     [ReceiverReportPacket \<lparr>rr_ssrc = 7, rr_report_blocks = [ReceptionReportBlock_new 9]\<rparr>,
      ByePacket (Bye_with_reason [7] [0x62, 0x79, 0x65])])) =
   [ReceiverReportPacket \<lparr>rr_ssrc = 7, rr_report_blocks = [ReceptionReportBlock_new 9]\<rparr>,
    ByePacket (Bye_with_reason [7] [0x62, 0x79, 0x65])]"
  by (subst rtcp_compound_roundtrip)
    (simp_all add: packet_ok_def rb_ok_def ReceptionReportBlock_new_def Bye_with_reason_def reason_ok_def
      valid_utf8.simps utf8_seq_def as_read_def)

section \<open>Lost packets\<close>

lemma lost_bits:
  "NackEntry_lost e =
     packet_id e # map (\<lambda>k. packet_id e + (of_nat k + 1)) (filter (\<lambda>k. bit (bitmask e) k) [0..<16])"
  by (simp add: NackEntry_lost_def bit_iff_and_push_bit_not_eq_0 del: upt_conv_Nil)

lemma set_one_bit: "bit (m OR 2 ^ d :: u16) k \<longleftrightarrow> bit m k \<or> k = d \<and> k < 16"
  by (auto simp: bit_or_iff bit_exp_iff)

lemma u16_bit_less: "bit (m :: u16) k \<Longrightarrow> k < 16"
  using bit_imp_le_length [of m k] by simp

text \<open>The offset a bit of the mask stands for.\<close>

lemma delta_offset:
  fixes s p :: u16
  assumes "1 \<le> s - p" "s - p \<le> 16"
  shows "unat (s - p - 1) < 16" "p + (of_nat (unat (s - p - 1)) + 1) = s"
proof -
  have "unat (s - p - 1) = unat (s - p) - 1"
    using assms(1) by (simp add: unat_sub)
  then show "unat (s - p - 1) < 16"
    using assms by (simp add: word_le_nat_alt)
  show "p + (of_nat (unat (s - p - 1)) + 1) = s"
    by simp
qed

lemma set_lost: "set (NackEntry_lost e) = insert (packet_id e) ((\<lambda>k. packet_id e + (of_nat k + 1)) ` {k. bit (bitmask e) k})"
  by (auto simp: lost_bits dest: u16_bit_less)

lemma bits_insert: "d < 16 \<Longrightarrow> {k. bit (m OR 2 ^ d :: u16) k} = insert d {k. bit m k}"
  by (auto simp: set_one_bit)

lemma nack_add_snoc:
  "nack_add s (es @ [l]) =
     (if 1 \<le> s - packet_id l \<and> s - packet_id l \<le> 16
      then es @ [l\<lparr>bitmask := bitmask l OR 2 ^ unat (s - packet_id l - 1)\<rparr>]
      else es @ [l, \<lparr>packet_id = s, bitmask = 0\<rparr>])"
  by (simp add: nack_add_def Let_def)

lemma lost_new [simp]: "NackEntry_lost \<lparr>packet_id = s, bitmask = 0\<rparr> = [s]"
  by (simp add: lost_bits)

lemma nack_add_set:
  "set (concat (map NackEntry_lost (nack_add s es))) = insert s (set (concat (map NackEntry_lost es)))"
proof (cases es rule: rev_cases)
  case Nil
  then show ?thesis by (simp add: nack_add_def)
next
  case (snoc bs l)
  show ?thesis
  proof (cases "1 \<le> s - packet_id l \<and> s - packet_id l \<le> 16")
    case True
    let ?d = "unat (s - packet_id l - 1)"
    have d: "?d < 16" "packet_id l + (of_nat ?d + 1) = s"
      using delta_offset [of s "packet_id l"] True by blast+
    have "set (NackEntry_lost (l\<lparr>bitmask := bitmask l OR 2 ^ ?d\<rparr>)) = insert s (set (NackEntry_lost l))"
      unfolding set_lost using d(2) by (simp add: bits_insert [OF d(1)] insert_commute)
    then show ?thesis
      using True by (simp add: snoc nack_add_snoc)
  next
    case False
    then have "nack_add s es = es @ [\<lparr>packet_id = s, bitmask = 0\<rparr>]"
      unfolding snoc nack_add_snoc by simp
    then show ?thesis by simp
  qed
qed

lemma nack_set: "set (concat (map NackEntry_lost (fold nack_add xs es))) = set xs \<union> set (concat (map NackEntry_lost es))"
proof (induction xs arbitrary: es)
  case (Cons x xs)
  then show ?case by (simp only: fold_simps nack_add_set list.set) blast
qed simp

text \<open>
  For lost numbers in increasing order: the entries say them in order, the last entry's bits lie below
  what is still to come, and the entries' first numbers are more than a window apart.
\<close>

definition nack_inv :: "u16 list \<Rightarrow> NackEntry list \<Rightarrow> bool" where
  "nack_inv xs es \<longleftrightarrow>
     concat (map NackEntry_lost es) = xs \<and>
     (es \<noteq> [] \<longrightarrow> unat (packet_id (last es)) \<le> unat (last xs) \<and>
        (\<forall>k. bit (bitmask (last es)) k \<longrightarrow> unat (packet_id (last es)) + k < unat (last xs))) \<and>
     sorted_wrt (\<lambda>a b. unat (packet_id a) + 16 < unat (packet_id b)) es"

lemma filter_new_bit:
  fixes m :: u16
  assumes "\<And>k. bit m k \<Longrightarrow> k < d" "d < 16"
  shows "filter (bit (m OR 2 ^ d)) [0..<16] = filter (bit m) [0..<16] @ [d]"
proof -
  have "[0..<16] = [0..<d] @ d # [Suc d..<16]"
    using assms(2) upt_add_eq_append [of 0 d "16 - d"] by (simp add: upt_conv_Cons)
  moreover have "filter (bit (m OR 2 ^ d)) [0..<d] = filter (bit m) [0..<d]"
    using assms(2) by (intro filter_cong) (auto simp: set_one_bit)
  moreover have "filter (bit (m OR 2 ^ d)) [Suc d..<16] = []" "filter (bit m) [Suc d..<16] = []" "\<not> bit m d"
    using assms(1) by (fastforce simp: set_one_bit filter_empty_conv)+
  ultimately show ?thesis
    using assms(2) by (simp add: set_one_bit)
qed

lemma nack_inv_step:
  assumes inv: "nack_inv xs es" and less: "\<And>x. x \<in> set xs \<Longrightarrow> x < s"
  shows "nack_inv (xs @ [s]) (nack_add s es)"
proof (cases es rule: rev_cases)
  case Nil
  with inv show ?thesis by (simp add: nack_inv_def nack_add_def)
next
  case (snoc bs l)
  let ?p = "packet_id l"
  have lost: "concat (map NackEntry_lost bs) @ NackEntry_lost l = xs"
    and last: "unat ?p \<le> unat (last xs)" "\<And>k. bit (bitmask l) k \<Longrightarrow> unat ?p + k < unat (last xs)"
    and apart: "sorted_wrt (\<lambda>a b. unat (packet_id a) + 16 < unat (packet_id b)) bs"
      "\<And>a. a \<in> set bs \<Longrightarrow> unat (packet_id a) + 16 < unat ?p"
    using inv by (simp_all add: nack_inv_def snoc sorted_wrt_append)
  have "NackEntry_lost l \<noteq> []" by (simp add: lost_bits)
  then have "last xs \<in> set xs"
    using lost by (intro last_in_set) blast
  then have less': "unat (last xs) < unat s"
    using less by (simp add: word_less_nat_alt)
  have sub: "unat (s - ?p) = unat s - unat ?p"
    using last(1) less' by (simp add: unat_sub word_le_nat_alt)
  show ?thesis
  proof (cases "1 \<le> s - ?p \<and> s - ?p \<le> 16")
    case True
    let ?d = "unat (s - ?p - 1)"
    have d: "?d < 16" "?p + (of_nat ?d + 1) = s"
      using delta_offset [of s ?p] True by blast+
    have "?d = unat (s - ?p) - 1"
      using True by (simp add: unat_sub)
    then have d3: "unat s = unat ?p + ?d + 1"
      using sub last(1) less' by linarith
    have below: "k < ?d" if "bit (bitmask l) k" for k
      using less' last(2) [OF that] d3 by linarith
    have "NackEntry_lost (l\<lparr>bitmask := bitmask l OR 2 ^ ?d\<rparr>) = NackEntry_lost l @ [s]"
      using filter_new_bit [OF below d(1)] d(2) by (simp add: lost_bits)
    moreover have "unat ?p + k < unat s" if "bit (bitmask l OR 2 ^ ?d) k" for k
      using that below [of k] d3 by (auto simp: set_one_bit)
    ultimately show ?thesis
      using True lost apart d3 by (simp add: nack_inv_def snoc nack_add_snoc sorted_wrt_append)
  next
    case False
    then have gap: "unat ?p + 16 < unat s"
      using sub less' last(1) by (auto simp: word_le_nat_alt)
    have "nack_add s es = bs @ [l] @ [\<lparr>packet_id = s, bitmask = 0\<rparr>]"
      using False unfolding snoc nack_add_snoc by simp
    moreover have "unat (packet_id a) + 16 < unat s" if "a \<in> set bs" for a
      using apart(2) [OF that] gap by linarith
    ultimately show ?thesis
      using lost apart gap by (auto simp: nack_inv_def sorted_wrt_append)
  qed
qed

lemma nack_inv_fold:
  "sorted_wrt (<) (xs @ ys) \<Longrightarrow> nack_inv xs es \<Longrightarrow> nack_inv (xs @ ys) (fold nack_add ys es)"
proof (induction ys arbitrary: xs es)
  case (Cons y ys)
  have "nack_inv (xs @ [y]) (nack_add y es)"
    using Cons.prems by (intro nack_inv_step) (auto simp: sorted_wrt_append)
  with Cons.prems(1) Cons.IH [of "xs @ [y]" "nack_add y es"] show ?case by simp
qed simp

text \<open>Items no two of which have a cover in common need a cover each.\<close>

lemma covers_needed:
  assumes "sorted_wrt (\<lambda>a b. \<forall>w. \<not> (R w a \<and> R w b)) es" "\<forall>e \<in> set es. \<exists>w \<in> set ws. R w e"
  shows "length es \<le> length ws"
  using assms
proof (induction es arbitrary: ws)
  case (Cons e es)
  then obtain w where w: "w \<in> set ws" "R w e" by auto
  have "\<exists>w' \<in> set (remove1 w ws). R w' e'" if "e' \<in> set es" for e'
  proof -
    obtain w' where w': "w' \<in> set ws" "R w' e'" using Cons.prems(2) \<open>e' \<in> set es\<close> by auto
    have "w' \<noteq> w" using Cons.prems(1) that w(2) w'(2) by auto
    then have "w' \<in> set (remove1 w ws)" using w'(1) by simp
    with w' show ?thesis by blast
  qed
  then have "length es \<le> length (remove1 w ws)"
    using Cons.prems(1) by (intro Cons.IH) auto
  then show ?case
    using w(1) by (simp add: length_remove1) (metis Suc_pred length_pos_if_in_set not_less_eq_eq)
qed simp

text \<open>Numbers may be counted from any origin.\<close>

definition moved :: "u16 \<Rightarrow> NackEntry \<Rightarrow> NackEntry" where
  "moved f e = e\<lparr>packet_id := packet_id e + f\<rparr>"

lemma moved_lost: "NackEntry_lost (moved f e) = map (\<lambda>x. x + f) (NackEntry_lost e)"
  by (simp add: moved_def lost_bits add.assoc add.commute [of f])

lemma moved_add: "nack_add (s + f) (map (moved f) es) = map (moved f) (nack_add s es)"
proof (cases es rule: rev_cases)
  case Nil
  then show ?thesis by (simp add: nack_add_def moved_def)
next
  case (snoc bs l)
  then show ?thesis by (simp add: nack_add_snoc moved_def)
qed

lemma moved_fold: "fold nack_add (map (\<lambda>x. x + f) xs) (map (moved f) es) = map (moved f) (fold nack_add xs es)"
  by (induction xs arbitrary: es) (simp_all add: moved_add)

text \<open>An entry reports numbers of one window, counted modulo \<open>2\<^sup>1\<^sup>6\<close>.\<close>

lemma lost_window: "x \<in> set (NackEntry_lost e) \<Longrightarrow> unat (x - packet_id e) \<le> 16"
  by (auto simp: set_lost unat_word_ariths unat_of_nat dest!: u16_bit_less)

lemma window_once:
  fixes x y w :: u16
  assumes "unat x + 16 < unat y" "unat y < 65520"
  shows "\<not> (unat (x + f - w) \<le> 16 \<and> unat (y + f - w) \<le> 16)"
proof
  assume le: "unat (x + f - w) \<le> 16 \<and> unat (y + f - w) \<le> 16"
  have "unat (u - v) \<le> 16 \<or> 65520 \<le> unat (u - v)" if "unat u \<le> 16" "unat v \<le> 16" for u v :: u16
    using that by (auto simp: unat_sub_if')
  from this [of "y + f - w" "x + f - w"] le have "unat (y - x) \<le> 16 \<or> 65520 \<le> unat (y - x)" by simp
  moreover have "unat (y - x) = unat y - unat x" using assms by (simp add: unat_sub word_le_nat_alt)
  ultimately show False using assms by linarith
qed

text \<open>
  C23. A generic NACK reports exactly the packets it is built from, in whatever order they are given and across the wrap-around.
  Given in the order of the stream, counted from the first one, they are reported in that order; and where the last lies
  less than 65520 numbers past the first, so that no window reaches round from one to the other, no list of entries that
  reports them all is shorter.
\<close>

theorem nack_reports_exactly:
  assumes "kind (RtpFeedback_nack sender media lost) = Nack es"
  shows "set (concat (map NackEntry_lost es)) = set lost \<and>
    (sorted_wrt (\<lambda>x y. x - hd lost < y - hd lost) lost \<longrightarrow> concat (map NackEntry_lost es) = lost \<and>
      (last lost - hd lost < 65520 \<longrightarrow>
        (\<forall>es'. set lost \<subseteq> set (concat (map NackEntry_lost es')) \<longrightarrow> length es \<le> length es')))"
proof (intro conjI impI allI)
  have es: "es = fold nack_add lost []"
    using assms by (simp add: RtpFeedback_nack_def)
  show "set (concat (map NackEntry_lost es)) = set lost"
    using nack_set [of lost "[]"] by (simp add: es)
  assume sorted: "sorted_wrt (\<lambda>x y. x - hd lost < y - hd lost) lost"
  define f where "f = hd lost"
  define xs where "xs = map (\<lambda>x. x - f) lost"
  define ds where "ds = fold nack_add xs []"
  have lost: "lost = map (\<lambda>x. x + f) xs" by (simp add: xs_def o_def)
  have moved: "es = map (moved f) ds" using moved_fold [of f xs "[]"] by (simp add: es ds_def lost)
  have inv: "nack_inv xs ds"
    using nack_inv_fold [of "[]" xs "[]"] sorted by (simp add: ds_def xs_def f_def nack_inv_def sorted_wrt_map)
  then have cat: "concat (map NackEntry_lost ds) = xs" by (simp add: nack_inv_def)
  then show "concat (map NackEntry_lost es) = lost"
    by (simp add: moved lost moved_lost o_def map_concat flip: cat)
  fix es' assume span: "last lost - hd lost < 65520" and cover: "set lost \<subseteq> set (concat (map NackEntry_lost es'))"
  have ids: "packet_id e \<in> set xs" if "e \<in> set ds" for e
    using cat that by (force simp: lost_bits)
  have less: "unat x < 65520" if "x \<in> set xs" for x
  proof -
    have ne: "xs \<noteq> []" using that by auto
    then have last: "last xs < 65520" using span by (simp add: xs_def last_map f_def)
    obtain ys z where ys: "xs = ys @ [z]" using ne by (cases xs rule: rev_cases) auto
    have "sorted_wrt (<) xs" using sorted by (simp add: xs_def f_def sorted_wrt_map)
    then have "x \<le> last xs" using that unfolding ys by (auto simp: sorted_wrt_append)
    then show ?thesis using last by (simp add: word_less_nat_alt word_le_nat_alt)
  qed
  have "sorted_wrt (\<lambda>a b. \<forall>w. \<not> (unat (packet_id a + f - packet_id w) \<le> 16 \<and> unat (packet_id b + f - packet_id w) \<le> 16)) ds"
  proof (rule sorted_wrt_mono_rel)
    show "sorted_wrt (\<lambda>a b. unat (packet_id a) + 16 < unat (packet_id b)) ds" using inv by (simp add: nack_inv_def)
    show "\<forall>w. \<not> (unat (packet_id a + f - packet_id w) \<le> 16 \<and> unat (packet_id b + f - packet_id w) \<le> 16)"
      if "a \<in> set ds" "b \<in> set ds" "unat (packet_id a) + 16 < unat (packet_id b)" for a b
      using window_once [OF that(3) less [OF ids [OF that(2)]]] by blast
  qed
  then have "length ds \<le> length es'"
  proof (rule covers_needed)
    show "\<forall>e \<in> set ds. \<exists>w \<in> set es'. unat (packet_id e + f - packet_id w) \<le> 16"
    proof
      fix e assume "e \<in> set ds"
      then have "packet_id e + f \<in> set lost" using ids by (simp add: lost)
      then show "\<exists>w \<in> set es'. unat (packet_id e + f - packet_id w) \<le> 16" using cover lost_window by fastforce
    qed
  qed
  then show "length es \<le> length es'" by (simp add: moved)
qed

theorem nack_reports_exactly_witness:
  "concat (map NackEntry_lost [\<lparr>packet_id = 65535, bitmask = 5\<rparr>, \<lparr>packet_id = 100, bitmask = 0\<rparr>]) = [65535, 0, 2, 100] \<and>
   \<not> (\<exists>es. length es = 1 \<and> set [65535, 0, 2, 100] \<subseteq> set (concat (map NackEntry_lost es)))"
proof -
  let ?lost = "[65535, 0, 2, 100] :: u16 list" and ?es = "[\<lparr>packet_id = 65535, bitmask = 5\<rparr>, \<lparr>packet_id = 100, bitmask = 0\<rparr>]"
  have "kind (RtpFeedback_nack 1 2 ?lost) = Nack ?es"
    by code_simp
  note exact = nack_reports_exactly [OF this]
  have "sorted_wrt (\<lambda>x y. x - hd ?lost < y - hd ?lost) ?lost" "last ?lost - hd ?lost < 65520" by code_simp+
  with exact have "concat (map NackEntry_lost ?es) = ?lost"
    "\<And>es'. set ?lost \<subseteq> set (concat (map NackEntry_lost es')) \<Longrightarrow> length ?es \<le> length es'" by blast+
  then show ?thesis by fastforce
qed

section \<open>Bit rates and time\<close>

lemma remb_rate_bounds:
  "unat (remb_rate b) \<le> unat b \<and> 2 ^ 17 * (unat b - unat (remb_rate b)) \<le> unat b \<and>
   (b \<le> 0x3FFFF \<longrightarrow> remb_rate b = b)"
proof -
  obtain m x where sh: "remb_shift b 0 = (m, x)" "unat m = unat b div 2 ^ x" "0 < x \<longrightarrow> 0x20000 \<le> m"
    by (rule remb_shift_64 [of b])
  have le: "2 ^ x * unat m \<le> unat b"
    using sh(2) by simp
  have "unat (push_bit x m) = 2 ^ x * unat m"
  proof -
    have "unat b < 2 ^ 64"
      using unsigned_less [of b] by simp
    then have "2 ^ x * unat m < 2 ^ 64"
      using le by linarith
    moreover have "unat (push_bit x m) = take_bit 64 (push_bit x (unat m))"
      using unsigned_push_bit_eq [of x m] by simp
    ultimately show ?thesis
      unfolding push_bit_eq_mult [of x "unat m"] by (simp add: take_bit_nat_eq_self mult.commute)
  qed
  then have rate: "unat (remb_rate b) = 2 ^ x * unat m"
    by (simp add: remb_rate_def sh(1))
  have "2 ^ 17 * (unat b - 2 ^ x * unat m) \<le> unat b"
  proof (cases "x = 0")
    case False
    then have "2 ^ 17 \<le> unat m"
      using sh(3) by (simp add: word_le_nat_alt)
    then have "2 ^ 17 * 2 ^ x \<le> unat b"
      using le by (metis (no_types, lifting) mult.commute mult_le_mono2 order_trans)
    moreover have "unat b - 2 ^ x * unat m < 2 ^ x"
      by (simp add: sh(2) minus_mult_div_eq_mod)
    ultimately show ?thesis
      by (meson less_imp_le mult_le_mono2 order_trans)
  qed (simp add: sh(2))
  moreover have "remb_rate b = b" if "b \<le> 0x3FFFF"
    using that by (simp add: remb_rate_def remb_shift.simps not_less [symmetric])
  ultimately show ?thesis
    using le by (simp add: rate)
qed

text \<open>
  The bit rate read from a REMB is never above the one it was built with, and at most one part in
  131072 below; up to 262143 bit/s it is exact.
\<close>

theorem remb_bitrate_bounds:
  assumes "length ssrcs \<le> 255"
  shows "\<exists>r. PsFeedback_parse (to_be32 s @ to_be32 0 @ PsFeedback_fci (PsFeedback_remb s b ssrcs)) 15 =
      Inr (PsFeedback_remb s r ssrcs) \<and>
    unat r \<le> unat b \<and> 2 ^ 17 * (unat b - unat r) \<le> unat b \<and> (b \<le> 0x3FFFF \<longrightarrow> r = b)"
  using payload_read_back [of "PsFeedback_remb s b ssrcs"] assms remb_rate_bounds [of b]
  by (intro exI [of _ "remb_rate b"]) (simp add: PsFeedback_remb_def ps_kind_ok_def PsFeedback_fmt_def)

theorem remb_bitrate_bounds_witness:
  "PsFeedback_parse (to_be32 1 @ to_be32 0 @ PsFeedback_fci (PsFeedback_remb 1 64000 [7])) 15 =
     Inr (PsFeedback_remb 1 64000 [7])"
  using remb_bitrate_bounds [of "[7]" 1 64000] by auto

lemma u64_small_bits: "unat (a :: u64) < 2 ^ 32 \<Longrightarrow> bit a n \<Longrightarrow> n < 32"
proof -
  assume "unat a < 2 ^ 32" "bit a n"
  then have "bit (take_bit 32 (unat a)) n"
    by (simp add: take_bit_nat_eq_self bit_unsigned_iff)
  then show "n < 32" by (simp add: bit_take_bit_iff)
qed

lemma ntp_fraction:
  assumes "nanos < (1000000000 :: u32)"
  shows "unat ((ucast nanos * push_bit 32 1) div 1000000000 :: u64) < 2 ^ 32"
proof -
  have n: "unat nanos < 1000000000"
    using assms by (simp add: word_less_nat_alt)
  then have "unat (ucast nanos * push_bit 32 1 :: u64) = unat nanos * 2 ^ 32"
    by (simp add: unat_mult_lem [THEN iffD1] unsigned_ucast_eq take_bit_nat_eq_self)
  then show ?thesis
    using n by (simp add: unat_div less_mult_imp_div_less)
qed

lemma ntp_now_high:
  assumes "unat (a :: u64) < 2 ^ 32" "unat (f :: u64) < 2 ^ 32"
  shows "(ucast (ucast (drop_bit 32 (push_bit 32 a OR f)) :: u32) :: u64) = a"
proof (rule bit_word_eqI)
  fix n assume "n < LENGTH(64)"
  then show "bit (ucast (ucast (drop_bit 32 (push_bit 32 a OR f)) :: u32) :: u64) n = bit a n"
    using u64_small_bits [OF assms(1), of n] u64_small_bits [OF assms(2), of "32 + n"]
    by (auto simp: bit_simps)
qed

text \<open>
  The seconds of the NTP time taken from the system clock are turned back into Unix seconds exactly,
  as long as they fit the 32 bits of the field, that is until February 2036.
\<close>

theorem ntp_unix_roundtrip:
  assumes "unat secs + 2208988800 < 2 ^ 32" "nanos < 1000000000"
  shows "(case ntp_now_split secs nanos of (msw, lsw) \<Rightarrow> to_unix_secs msw lsw) = secs"
proof -
  have a: "unat (secs + NTP_UNIX_OFFSET) = unat secs + 2208988800"
    using assms(1) by (simp add: NTP_UNIX_OFFSET_def unat_add_lem [THEN iffD1])
  then have "ucast (ucast (drop_bit 32 (ntp_now secs nanos)) :: u32) = secs + NTP_UNIX_OFFSET"
    unfolding ntp_now_def Let_def using assms(1) by (intro ntp_now_high ntp_fraction assms(2)) simp
  moreover have "NTP_UNIX_OFFSET \<le> secs + NTP_UNIX_OFFSET"
    unfolding word_le_nat_alt a by (simp add: NTP_UNIX_OFFSET_def)
  ultimately show ?thesis
    by (simp add: ntp_now_split_def to_unix_secs_def Let_def)
qed

theorem ntp_unix_roundtrip_witness:
  "(case ntp_now_split 1700000000 500000000 of (msw, lsw) \<Rightarrow> to_unix_secs msw lsw) = 1700000000"
  by (rule ntp_unix_roundtrip) simp_all

section \<open>Counts and padding\<close>

text \<open>
  A report with 32 blocks, more than its header can count, is written with the padding flag and a count
  of 0: what is read back has none of them.
\<close>

theorem rtcp_report_count_overflow:
  assumes "length (rr_report_blocks rr) = 32"
  shows "RtcpPacket_parse (RtcpPacket_to_bytes (ReceiverReportPacket rr)) =
    Inr (ReceiverReportPacket (rr\<lparr>rr_report_blocks := []\<rparr>))"
proof -
  have "RtcpPacketType_try_from (RtcpPacketType_code PT_RR) = Inr PT_RR" by (rule try_from_code)
  moreover have "(of_nat 32 :: u8) = 0x20" by simp
  ultimately show ?thesis
    using assms
    by (simp add: RtcpPacket_parse_def RtcpPacket_to_bytes_def plain_header_def RtcpHeader_to_bytes_def
        RtcpHeader_parse_def ReceiverReport_parse_def ReceiverReport_to_bytes_def Let_def)
qed

text \<open>
  The padding flag is not looked at: the padding of a padded generic NACK, here one word, is read as a
  further entry, which reports the packets 0 and 3 lost.
\<close>

theorem rtcp_padding_read_as_nack:
  "RtcpPacket_parse ([0xA1, 205, 0, 4] @ to_be32 s @ to_be32 m @ to_be16 p @ to_be16 b @ [0, 0, 0, 4]) =
     Inr (TransportFeedbackPacket \<lparr>sender_ssrc = s, media_ssrc = m,
       kind = Nack [\<lparr>packet_id = p, bitmask = b\<rparr>, \<lparr>packet_id = 0, bitmask = 4\<rparr>]\<rparr>) \<and>
   NackEntry_lost \<lparr>packet_id = 0, bitmask = 4\<rparr> = [0, 3]"
proof
  let ?h = "\<lparr>rh_version = 2, rh_padding = True, rh_count = 1, rh_packet_type = PT_RTPFB, rh_length = 4\<rparr>"
  let ?body = "to_be32 s @ to_be32 m @ to_be16 p @ to_be16 b @ [0, 0, 0, 4]"
  have "RtcpHeader_parse ([0xA1, 205, 0, 4] @ ?body) = Inr ?h"
    by (simp add: RtcpHeader_parse_def RtcpPacketType_try_from_def be16_def Let_def)
  moreover have "RtcpPacket_body ([0xA1, 205, 0, 4] @ ?body) ?h = Inr ?body"
    by (simp add: RtcpPacket_body_def)
  moreover have "chunks_exact 4 (to_be16 p @ to_be16 b @ [0, 0, 0, 4]) = [to_be16 p @ to_be16 b, [0, 0, 0, 4]]"
    by (simp add: chunks_exact.simps to_be16_def)
  then have "RtpFeedback_parse ?body 1 = Inr \<lparr>sender_ssrc = s, media_ssrc = m,
       kind = Nack [\<lparr>packet_id = p, bitmask = b\<rparr>, \<lparr>packet_id = 0, bitmask = 4\<rparr>]\<rparr>"
    by (simp add: RtpFeedback_parse_def split_feedback_def u32_at_append to_be16_def be16_def [of 0])
  ultimately show "RtcpPacket_parse ([0xA1, 205, 0, 4] @ ?body) = Inr (TransportFeedbackPacket
      \<lparr>sender_ssrc = s, media_ssrc = m,
       kind = Nack [\<lparr>packet_id = p, bitmask = b\<rparr>, \<lparr>packet_id = 0, bitmask = 4\<rparr>]\<rparr>)"
    by (simp add: RtcpPacket_parse_def)
  show "NackEntry_lost \<lparr>packet_id = 0, bitmask = 4\<rparr> = [0, 3]"
    by code_simp
qed

end
