(* ===== verification/Video_Payload.thy ===== *)
theory Video_Payload
  imports Forge_Prelude
begin

text \<open>
  Video payload formats: the inspection of payloads in \<^verbatim>\<open>crates/forge-rtp/src/video/mod.rs\<close> and the
  conversion between coded frames and RTP payloads in \<^verbatim>\<open>crates/forge-rtp/src/video/payload.rs\<close>, for
  H.264, H.265, VP8, VP9 and AV1. Slices are lists; an index the code has checked is \<open>p ! i\<close>.
\<close>

section \<open>Inspection\<close>

datatype VideoCodec = H264 | H265 | VP8 | VP9 | AV1

record PayloadInfo =
  frame_start :: bool
  info_keyframe :: bool

definition PayloadInfo_NONE :: PayloadInfo where
  "PayloadInfo_NONE = \<lparr>frame_start = False, info_keyframe = False\<rparr>"

definition PayloadInfo_is_keyframe_start :: "PayloadInfo \<Rightarrow> bool" where
  "PayloadInfo_is_keyframe_start i \<longleftrightarrow> frame_start i \<and> info_keyframe i"

definition h264_nal_is_key :: "u8 \<Rightarrow> bool" where
  "h264_nal_is_key t \<longleftrightarrow> t = 5 \<or> t = 7"

definition h264_nal_starts_frame :: "u8 \<Rightarrow> bool" where
  "h264_nal_starts_frame t \<longleftrightarrow> 1 \<le> t \<and> t \<le> 5 \<or> t = 7 \<or> t = 8 \<or> t = 9"

text \<open>The loop over the NAL units of a STAP-A: the type of the first and whether one is a key.\<close>

function h264_stap_loop :: "bytes \<Rightarrow> nat \<Rightarrow> u8 option \<Rightarrow> bool \<Rightarrow> u8 option \<times> bool" where
  "h264_stap_loop p off first_nal key =
     (if off + 2 < length p then
        let size = unat (be16 (p ! off) (p ! (off + 1)));
            off' = off + 2
        in if off' \<ge> length p then (first_nal, key)
           else
             let t = p ! off' AND 0x1F
             in h264_stap_loop p (off' + max size 1)
                  (case first_nal of None \<Rightarrow> Some t | Some f \<Rightarrow> Some f) (key \<or> h264_nal_is_key t)
      else (first_nal, key))"
  by pat_completeness auto
termination by (relation "measure (\<lambda>(p, off, _). length p - off)") auto

declare h264_stap_loop.simps [simp del]

definition h264_inspect :: "bytes \<Rightarrow> PayloadInfo" where
  "h264_inspect p =
     (if p = [] then PayloadInfo_NONE
      else
        let nal_type = p ! 0 AND 0x1F
        in if nal_type = 24 then
             (case h264_stap_loop p 1 None False of
                (Some t, key) \<Rightarrow> \<lparr>frame_start = h264_nal_starts_frame t \<or> key, info_keyframe = key\<rparr>
              | (None, _) \<Rightarrow> PayloadInfo_NONE)
           else if nal_type = 28 \<or> nal_type = 29 then
             if length p < 2 then PayloadInfo_NONE
             else
               let start = (p ! 1 AND 0x80 \<noteq> 0); t = p ! 1 AND 0x1F
               in \<lparr>frame_start = (start \<and> h264_nal_starts_frame t), info_keyframe = (start \<and> h264_nal_is_key t)\<rparr>
           else if nal_type = 25 \<or> nal_type = 26 \<or> nal_type = 27 then PayloadInfo_NONE
           else \<lparr>frame_start = h264_nal_starts_frame nal_type, info_keyframe = h264_nal_is_key nal_type\<rparr>)"

definition h265_nal_is_key :: "u8 \<Rightarrow> bool" where
  "h265_nal_is_key t \<longleftrightarrow> 16 \<le> t \<and> t \<le> 23"

definition h265_nal_starts_frame :: "u8 \<Rightarrow> bool" where
  "h265_nal_starts_frame t \<longleftrightarrow> t \<le> 35"

text \<open>\<^verbatim>\<open>(b0 >> 1) & 0x3F\<close>.\<close>

definition h265_nal_type :: "u8 \<Rightarrow> u8" where
  "h265_nal_type b0 = drop_bit 1 b0 AND 0x3F"

function h265_ap_loop :: "bytes \<Rightarrow> nat \<Rightarrow> u8 option \<Rightarrow> bool \<Rightarrow> u8 option \<times> bool" where
  "h265_ap_loop p off first key =
     (if off + 3 < length p then
        let size = unat (be16 (p ! off) (p ! (off + 1)));
            off' = off + 2;
            t = h265_nal_type (p ! off')
        in h265_ap_loop p (off' + max size 1)
             (case first of None \<Rightarrow> Some t | Some f \<Rightarrow> Some f) (key \<or> h265_nal_is_key t)
      else (first, key))"
  by pat_completeness auto
termination by (relation "measure (\<lambda>(p, off, _). length p - off)") auto

declare h265_ap_loop.simps [simp del]

definition h265_inspect :: "bytes \<Rightarrow> PayloadInfo" where
  "h265_inspect p =
     (if length p < 2 then PayloadInfo_NONE
      else
        let nal_type = h265_nal_type (p ! 0)
        in if nal_type = 48 then
             (case h265_ap_loop p 2 None False of
                (Some t, key) \<Rightarrow> \<lparr>frame_start = h265_nal_starts_frame t \<or> key, info_keyframe = key\<rparr>
              | (None, _) \<Rightarrow> PayloadInfo_NONE)
           else if nal_type = 49 then
             if length p < 3 then PayloadInfo_NONE
             else
               let start = (p ! 2 AND 0x80 \<noteq> 0); t = p ! 2 AND 0x3F
               in \<lparr>frame_start = (start \<and> h265_nal_starts_frame t), info_keyframe = (start \<and> h265_nal_is_key t)\<rparr>
           else \<lparr>frame_start = h265_nal_starts_frame nal_type, info_keyframe = h265_nal_is_key nal_type\<rparr>)"

text \<open>The \<^verbatim>\<open>?\<close> on \<^verbatim>\<open>p.get(i)\<close>: no value past the end.\<close>

definition get_byte :: "bytes \<Rightarrow> nat \<Rightarrow> u8 option" where
  "get_byte p i = (if i < length p then Some (p ! i) else None)"

definition vp8_descriptor_len :: "bytes \<Rightarrow> nat option" where
  "vp8_descriptor_len p =
     Option.bind (get_byte p 0) (\<lambda>b0.
       Option.bind
         (if b0 AND 0x80 \<noteq> 0 then
            Option.bind (get_byte p 1) (\<lambda>x.
              Option.bind
                (if x AND 0x80 \<noteq> 0
                 then Option.bind (get_byte p 2) (\<lambda>i. Some (if i AND 0x80 \<noteq> 0 then 4 else 3))
                 else Some 2)
                (\<lambda>len. Some (len + (if x AND 0x40 \<noteq> 0 then 1 else 0) + (if x AND 0x30 \<noteq> 0 then 1 else 0))))
          else Some 1)
         (\<lambda>len. if len \<le> length p then Some len else None))"

definition vp8_inspect :: "bytes \<Rightarrow> PayloadInfo" where
  "vp8_inspect p =
     (case vp8_descriptor_len p of
        None \<Rightarrow> PayloadInfo_NONE
      | Some len \<Rightarrow>
          let b0 = p ! 0;
              start = (b0 AND 0x10 \<noteq> 0 \<and> b0 AND 0x07 = 0);
              key = (start \<and> (case get_byte p len of None \<Rightarrow> False | Some hdr \<Rightarrow> hdr AND 0x01 = 0))
          in \<lparr>frame_start = start, info_keyframe = key\<rparr>)"

definition vp9_inspect :: "bytes \<Rightarrow> PayloadInfo" where
  "vp9_inspect p =
     (case get_byte p 0 of
        None \<Rightarrow> PayloadInfo_NONE
      | Some b0 \<Rightarrow>
          let inter_picture = (b0 AND 0x40 \<noteq> 0);
              begins_frame = (b0 AND 0x08 \<noteq> 0);
              layer_indices = (b0 AND 0x20 \<noteq> 0);
              sid_zero =
                (if layer_indices then
                   Option.bind
                     (if b0 AND 0x80 \<noteq> 0
                      then (case get_byte p 1 of
                              None \<Rightarrow> None
                            | Some m \<Rightarrow> Some (1 + (if m AND 0x80 \<noteq> 0 then 2 else 1)))
                      else Some 1)
                     (\<lambda>off. map_option (\<lambda>l. drop_bit 1 l AND 0x07 = 0) (get_byte p off))
                 else Some True)
          in case sid_zero of
               None \<Rightarrow> PayloadInfo_NONE
             | Some z \<Rightarrow>
                 \<lparr>frame_start = (begins_frame \<and> z), info_keyframe = (begins_frame \<and> z \<and> \<not> inter_picture)\<rparr>)"

definition av1_inspect :: "bytes \<Rightarrow> PayloadInfo" where
  "av1_inspect p =
     (case get_byte p 0 of
        None \<Rightarrow> PayloadInfo_NONE
      | Some b0 \<Rightarrow>
          let continues_previous = (b0 AND 0x80 \<noteq> 0);
              new_sequence = (b0 AND 0x08 \<noteq> 0)
          in \<lparr>frame_start = (\<not> continues_previous), info_keyframe = (\<not> continues_previous \<and> new_sequence)\<rparr>)"

fun inspect :: "VideoCodec \<Rightarrow> bytes \<Rightarrow> PayloadInfo" where
  "inspect H264 p = h264_inspect p"
| "inspect H265 p = h265_inspect p"
| "inspect VP8 p = vp8_inspect p"
| "inspect VP9 p = vp9_inspect p"
| "inspect AV1 p = av1_inspect p"

section \<open>Frames\<close>

record CodedFrame =
  cf_timestamp :: u32
  cf_keyframe :: bool
  cf_data :: bytes

datatype PayloadError = Truncated | Unsupported string | Malformed string

subsection \<open>NAL units\<close>

definition START_CODE :: bytes where
  "START_CODE = [0, 0, 0, 1]"

text \<open>\<open>units\<close> are found so far; \<open>start\<close> is where the unit in progress begins.\<close>

function annexb_loop :: "bytes \<Rightarrow> nat \<Rightarrow> nat option \<Rightarrow> bytes list \<Rightarrow> bytes list" where
  "annexb_loop d i start units =
     (if i + 2 < length d then
        if d ! i = 0 \<and> d ! (i + 1) = 0 \<and> d ! (i + 2) = 1 then
          annexb_loop d (i + 3) (Some (i + 3))
            (case start of
               None \<Rightarrow> units
             | Some s \<Rightarrow>
                 let stop = (if i > s \<and> d ! (i - 1) = 0 then i - 1 else i)
                 in if stop > s then units @ [take (stop - s) (drop s d)] else units)
        else annexb_loop d (i + 1) start units
      else
        (case start of
           None \<Rightarrow> units
         | Some s \<Rightarrow> if s < length d then units @ [drop s d] else units))"
  by pat_completeness auto
termination by (relation "measure (\<lambda>(d, i, _). length d - i)") auto

declare annexb_loop.simps [simp del]

definition annexb_nal_units :: "bytes \<Rightarrow> bytes list" where
  "annexb_nal_units d = annexb_loop d 0 None []"

text \<open>\<^verbatim>\<open>slice::chunks\<close>, for a positive size.\<close>

function chunks :: "nat \<Rightarrow> 'a list \<Rightarrow> 'a list list" where
  "chunks k xs = (if xs = [] \<or> k = 0 then [] else take k xs # chunks k (drop k xs))"
  by pat_completeness auto
termination by (relation "measure (length \<circ> snd)") auto

declare chunks.simps [simp del]

definition div_ceil :: "nat \<Rightarrow> nat \<Rightarrow> nat" where
  "div_ceil a b = (a + b - 1) div b"

definition fragment :: "bytes \<Rightarrow> nat \<Rightarrow> nat \<Rightarrow> (bool \<Rightarrow> bool \<Rightarrow> bytes) \<Rightarrow> bytes list" where
  "fragment nal header_len max_payload make_header =
     (let body = drop header_len nal;
          fu_overhead = header_len + 1;
          chunk = max (max_payload - fu_overhead) 1;
          n = max (div_ceil (length body) chunk) 1
      in map (\<lambda>(i, part). make_header (i = 0) (i = n - 1) @ part) (enumerate 0 (chunks chunk body)))"

text \<open>The loop over the NAL units of an aggregation packet, in both formats.\<close>

function aggregated_units :: "bytes \<Rightarrow> PayloadError + bytes" where
  "aggregated_units rest =
     (if rest = [] then Inr []
      else if length rest < 2 then Inl Truncated
      else
        let size = unat (be16 (rest ! 0) (rest ! 1)); r = drop 2 rest
        in if length r < size then Inl Truncated
           else map_sum id (\<lambda>out. START_CODE @ take size r @ out) (aggregated_units (drop size r)))"
  by pat_completeness auto
termination by (relation "measure length") auto

declare aggregated_units.simps [simp del]

subsection \<open>H.264\<close>

text \<open>One payload: what is appended to the frame, and whether a fragmented unit is open afterwards.\<close>

definition h264_payload :: "bytes \<Rightarrow> bool \<Rightarrow> PayloadError + (bytes \<times> bool)" where
  "h264_payload p fu_open =
     (if p = [] then Inl Truncated
      else
        let first = p ! 0; t = first AND 0x1F
        in if 1 \<le> t \<and> t \<le> 23 then Inr (START_CODE @ p, fu_open)
           else if t = 24 then map_sum id (\<lambda>out. (out, fu_open)) (aggregated_units (drop 1 p))
           else if t = 28 then
             if length p < 2 then Inl Truncated
             else
               let fu = p ! 1; start = (fu AND 0x80 \<noteq> 0); stop = (fu AND 0x40 \<noteq> 0)
               in if \<not> start \<and> \<not> fu_open then Inl (Malformed ''FU-A continuation without start'')
                  else Inr ((if start then START_CODE @ [(first AND 0xE0) OR (fu AND 0x1F)] else []) @ drop 2 p,
                            \<not> stop)
           else if 25 \<le> t \<and> t \<le> 27 \<or> t = 29 then Inl (Unsupported ''STAP-B / MTAP / FU-B'')
           else Inl (Malformed ''reserved NAL type''))"

text \<open>The loop over the payloads, with the function for one payload as an argument.\<close>

fun payload_loop ::
  "(bytes \<Rightarrow> bool \<Rightarrow> PayloadError + (bytes \<times> bool)) \<Rightarrow> bytes list \<Rightarrow> bool \<Rightarrow> PayloadError + (bytes \<times> bool)" where
  "payload_loop one [] fu_open = Inr ([], fu_open)"
| "payload_loop one (p # ps) fu_open =
     (case one p fu_open of
        Inl e \<Rightarrow> Inl e
      | Inr (out, fu_open') \<Rightarrow>
          (case payload_loop one ps fu_open' of
             Inl e \<Rightarrow> Inl e
           | Inr (out', fu_open'') \<Rightarrow> Inr (out @ out', fu_open'')))"

definition h264_depacketize :: "bytes list \<Rightarrow> PayloadError + bytes" where
  "h264_depacketize payloads =
     (case payload_loop h264_payload payloads False of
        Inl e \<Rightarrow> Inl e
      | Inr (out, fu_open) \<Rightarrow> if fu_open then Inl (Malformed ''FU-A not ended'') else Inr out)"

definition flag :: "bool \<Rightarrow> u8 \<Rightarrow> u8" where
  "flag b v = (if b then v else 0)"

definition h264_nal_payloads :: "nat \<Rightarrow> bytes \<Rightarrow> bytes list" where
  "h264_nal_payloads max_payload nal =
     (if length nal \<le> max_payload then [nal]
      else
        let indicator = (nal ! 0 AND 0xE0) OR 28; nal_type = nal ! 0 AND 0x1F
        in fragment nal 1 max_payload
             (\<lambda>start stop. [indicator, flag start 0x80 OR flag stop 0x40 OR nal_type]))"

definition h264_packetize :: "bytes \<Rightarrow> nat \<Rightarrow> PayloadError + bytes list" where
  "h264_packetize annexb max_payload =
     (let nals = annexb_nal_units annexb
      in if nals = [] then Inl (Malformed ''no NAL units'')
         else Inr (concat (map (h264_nal_payloads max_payload) nals)))"

subsection \<open>H.265\<close>

definition h265_payload :: "bytes \<Rightarrow> bool \<Rightarrow> PayloadError + (bytes \<times> bool)" where
  "h265_payload p fu_open =
     (if length p < 2 then Inl Truncated
      else
        let t = h265_nal_type (p ! 0)
        in if t = 48 then map_sum id (\<lambda>out. (out, fu_open)) (aggregated_units (drop 2 p))
           else if t = 49 then
             if length p < 3 then Inl Truncated
             else
               let fu = p ! 2; start = (fu AND 0x80 \<noteq> 0); stop = (fu AND 0x40 \<noteq> 0)
               in if \<not> start \<and> \<not> fu_open then Inl (Malformed ''FU continuation without start'')
                  else Inr ((if start then START_CODE @ [(p ! 0 AND 0x81) OR push_bit 1 (fu AND 0x3F), p ! 1] else [])
                              @ drop 3 p,
                            \<not> stop)
           else if t = 50 then Inl (Unsupported ''PACI'')
           else Inr (START_CODE @ p, fu_open))"

definition h265_depacketize :: "bytes list \<Rightarrow> PayloadError + bytes" where
  "h265_depacketize payloads =
     (case payload_loop h265_payload payloads False of
        Inl e \<Rightarrow> Inl e
      | Inr (out, fu_open) \<Rightarrow> if fu_open then Inl (Malformed ''FU not ended'') else Inr out)"

definition h265_nal_payloads :: "nat \<Rightarrow> bytes \<Rightarrow> bytes list" where
  "h265_nal_payloads max_payload nal =
     (if length nal \<le> max_payload then [nal]
      else
        let hdr0 = (nal ! 0 AND 0x81) OR push_bit 1 49; hdr1 = nal ! 1; t = h265_nal_type (nal ! 0)
        in fragment nal 2 max_payload
             (\<lambda>start stop. [hdr0, hdr1, flag start 0x80 OR flag stop 0x40 OR t]))"

definition h265_packetize :: "bytes \<Rightarrow> nat \<Rightarrow> PayloadError + bytes list" where
  "h265_packetize annexb max_payload =
     (let nals = annexb_nal_units annexb
      in if nals = [] then Inl (Malformed ''no NAL units'')
         else if list_ex (\<lambda>nal. length nal < 2) nals
         then Inl (Malformed ''NAL unit shorter than its header'')
         else Inr (concat (map (h265_nal_payloads max_payload) nals)))"

subsection \<open>VP8 and VP9\<close>

text \<open>The loop both formats rebuild a frame with: the payloads without their descriptors.\<close>

fun strip_descriptors :: "(bytes \<Rightarrow> nat option) \<Rightarrow> bytes list \<Rightarrow> PayloadError + bytes" where
  "strip_descriptors descriptor_len [] = Inr []"
| "strip_descriptors descriptor_len (p # ps) =
     (case descriptor_len p of
        None \<Rightarrow> Inl Truncated
      | Some len \<Rightarrow> map_sum id (\<lambda>out. drop len p @ out) (strip_descriptors descriptor_len ps))"

definition vp8_depacketize :: "bytes list \<Rightarrow> PayloadError + bytes" where
  "vp8_depacketize payloads = strip_descriptors vp8_descriptor_len payloads"

definition vp8_packetize :: "bytes \<Rightarrow> nat \<Rightarrow> PayloadError + bytes list" where
  "vp8_packetize frame max_payload =
     (if frame = [] then Inl (Malformed ''empty frame'')
      else
        let chunk = max_payload - 1
        in Inr (map (\<lambda>(i, part). (if i = 0 then 0x10 else 0x00) # part) (enumerate 0 (chunks chunk frame))))"

text \<open>The reference indices, at most three, each saying whether another follows.\<close>

fun vp9_references :: "bytes \<Rightarrow> nat \<Rightarrow> nat \<Rightarrow> nat option" where
  "vp9_references p 0 off = Some off"
| "vp9_references p (Suc n) off =
     (case get_byte p off of
        None \<Rightarrow> None
      | Some r \<Rightarrow> if r AND 0x01 = 0 then Some (off + 1) else vp9_references p n (off + 1))"

fun vp9_groups :: "bytes \<Rightarrow> nat \<Rightarrow> nat \<Rightarrow> nat option" where
  "vp9_groups p 0 off = Some off"
| "vp9_groups p (Suc n) off =
     (case get_byte p off of
        None \<Rightarrow> None
      | Some t \<Rightarrow> vp9_groups p n (off + 1 + unat (drop_bit 2 t AND 0x03)))"

definition vp9_scalability :: "bytes \<Rightarrow> nat \<Rightarrow> nat option" where
  "vp9_scalability p off =
     (case get_byte p off of
        None \<Rightarrow> None
      | Some ss \<Rightarrow>
          let n_s = unat (drop_bit 5 ss AND 0x07) + 1;
              off' = off + 1 + (if ss AND 0x10 \<noteq> 0 then 4 * n_s else 0)
          in if ss AND 0x08 \<noteq> 0
             then (case get_byte p off' of None \<Rightarrow> None | Some n_g \<Rightarrow> vp9_groups p (unat n_g) (off' + 1))
             else Some off')"

definition vp9_descriptor_len :: "bytes \<Rightarrow> nat option" where
  "vp9_descriptor_len p =
     Option.bind (get_byte p 0) (\<lambda>b0.
       Option.bind
         (if b0 AND 0x80 \<noteq> 0
          then (case get_byte p 1 of None \<Rightarrow> None | Some m \<Rightarrow> Some (if m AND 0x80 \<noteq> 0 then 3 else 2))
          else Some 1) (\<lambda>off1.
       let off2 = (if b0 AND 0x20 \<noteq> 0 then off1 + 1 + (if b0 AND 0x10 = 0 then 1 else 0) else off1)
       in Option.bind
            (if b0 AND 0x10 \<noteq> 0 \<and> b0 AND 0x40 \<noteq> 0 then vp9_references p 3 off2 else Some off2) (\<lambda>off3.
          Option.bind (if b0 AND 0x02 \<noteq> 0 then vp9_scalability p off3 else Some off3) (\<lambda>off.
          if off \<le> length p then Some off else None))))"

definition vp9_depacketize :: "bytes list \<Rightarrow> PayloadError + bytes" where
  "vp9_depacketize payloads = strip_descriptors vp9_descriptor_len payloads"

definition vp9_packetize :: "bytes \<Rightarrow> bool \<Rightarrow> nat \<Rightarrow> PayloadError + bytes list" where
  "vp9_packetize frame keyframe max_payload =
     (if frame = [] then Inl (Malformed ''empty frame'')
      else
        let chunk = max_payload - 1; n = div_ceil (length frame) chunk
        in Inr (map (\<lambda>(i, part). (flag (\<not> keyframe) 0x40 OR flag (i = 0) 0x08 OR flag (i = n - 1) 0x04) # part)
                  (enumerate 0 (chunks chunk frame))))"

subsection \<open>AV1\<close>

text \<open>
  \<^verbatim>\<open>read_leb128\<close>, at most eight octets: the value and the offset after it. The groups of seven bits do
  not overlap, so \<^verbatim>\<open>|=\<close> is \<open>+\<close>.
\<close>

fun leb128_loop :: "bytes \<Rightarrow> nat \<Rightarrow> nat \<Rightarrow> nat \<Rightarrow> nat \<Rightarrow> (nat \<times> nat) option" where
  "leb128_loop p 0 i off val = None"
| "leb128_loop p (Suc n) i off val =
     (case get_byte p off of
        None \<Rightarrow> None
      | Some b \<Rightarrow>
          let val' = val + unat (b AND 0x7F) * 2 ^ (7 * i)
          in if b AND 0x80 = 0 then Some (val', off + 1) else leb128_loop p n (i + 1) (off + 1) val')"

definition read_leb128 :: "bytes \<Rightarrow> nat \<Rightarrow> (nat \<times> nat) option" where
  "read_leb128 p off = leb128_loop p 8 0 off 0"

fun write_leb128 :: "nat \<Rightarrow> bytes" where
  "write_leb128 v =
     (if v div 128 = 0 then [of_nat (v mod 128)]
      else (of_nat (v mod 128) OR 0x80) # write_leb128 (v div 128))"

declare write_leb128.simps [simp del]

definition obu_header_len :: "u8 \<Rightarrow> nat" where
  "obu_header_len b0 = (if b0 AND 0x04 \<noteq> 0 then 2 else 1)"

definition emit_obu :: "bytes \<Rightarrow> PayloadError + bytes" where
  "emit_obu obu =
     (if obu = [] then Inl Truncated
      else
        let b0 = obu ! 0; hl = obu_header_len b0
        in if length obu < hl then Inl Truncated
           else Inr ((b0 OR 0x02) # (if hl = 2 then [obu ! 1] else []) @
                     write_leb128 (length obu - hl) @ drop hl obu))"

text \<open>
  The loop over the elements of a payload: \<open>partial\<close> is the OBU in progress, \<open>out\<close> what was emitted. An
  element is closed unless it is the last and the payload's \<open>Y\<close> bit says it continues.
\<close>

lemma leb128_loop_advances: "leb128_loop p n i off v = Some (v', off') \<Longrightarrow> off < off'"
  by (induction n arbitrary: i off v) (fastforce split: option.splits if_splits simp: Let_def)+

function av1_elements ::
  "bytes \<Rightarrow> bool \<Rightarrow> nat \<Rightarrow> nat \<Rightarrow> nat \<Rightarrow> bytes option \<Rightarrow> PayloadError + (bytes option \<times> bytes)" where
  "av1_elements p y w off idx part =
     (if off < length p then
        case (if w > 0 \<and> idx = w - 1 then Some (length p - off, off) else read_leb128 p off) of
          None \<Rightarrow> Inl Truncated
        | Some (len, off1) \<Rightarrow>
            if length p < off1 + len then Inl Truncated
            else
              let elem = take len (drop off1 p);
                  off2 = off1 + len;
                  buf = (case part of None \<Rightarrow> elem | Some b \<Rightarrow> b @ elem)
              in if y \<and> off2 \<ge> length p then av1_elements p y w off2 (idx + 1) (Some buf)
                 else
                   case emit_obu buf of
                     Inl e \<Rightarrow> Inl e
                   | Inr out \<Rightarrow> map_sum id (\<lambda>(part', out'). (part', out @ out')) (av1_elements p y w off2 (idx + 1) None)
      else Inr (part, []))"
  by pat_completeness auto
termination
  by (relation "measure (\<lambda>(p, y, w, off, _). length p - off)")
    (auto simp: read_leb128_def split: if_splits dest!: leb128_loop_advances)

declare av1_elements.simps [simp del]

fun av1_payloads :: "bytes list \<Rightarrow> bytes option \<Rightarrow> PayloadError + (bytes option \<times> bytes)" where
  "av1_payloads [] part = Inr (part, [])"
| "av1_payloads (p # ps) part =
     (if p = [] then Inl Truncated
      else
        let agg = p ! 0; z = (agg AND 0x80 \<noteq> 0); y = (agg AND 0x40 \<noteq> 0); w = unat (drop_bit 4 agg AND 0x03)
        in if z \<noteq> (part \<noteq> None) then Inl (Malformed ''OBU fragment continuity'')
           else
             case av1_elements p y w 1 0 part of
               Inl e \<Rightarrow> Inl e
             | Inr (part', out) \<Rightarrow> map_sum id (\<lambda>(part'', out'). (part'', out @ out')) (av1_payloads ps part'))"

definition av1_depacketize :: "bytes list \<Rightarrow> PayloadError + bytes" where
  "av1_depacketize payloads =
     (case av1_payloads payloads None of
        Inl e \<Rightarrow> Inl e
      | Inr (Some _, out) \<Rightarrow> Inl (Malformed ''OBU fragment not ended'')
      | Inr (None, out) \<Rightarrow> Inr out)"

text \<open>The OBUs of a temporal unit, without their size fields and without temporal delimiters.\<close>

function collect_obus :: "bytes \<Rightarrow> nat \<Rightarrow> PayloadError + bytes list" where
  "collect_obus tu off =
     (if off < length tu then
        let b0 = tu ! off; hl = obu_header_len b0
        in if b0 AND 0x02 = 0 then Inl (Malformed ''OBU without size field in temporal unit'')
           else
             case read_leb128 tu (off + hl) of
               None \<Rightarrow> Inl Truncated
             | Some (len, o') \<Rightarrow>
                 if length tu < o' + len then Inl Truncated
                 else
                   let payload = take len (drop o' tu);
                       obu = (b0 AND NOT 0x02) # (if hl = 2 then [tu ! (off + 1)] else []) @ payload
                   in map_sum id (\<lambda>obus. (if drop_bit 3 b0 AND 0x0F \<noteq> 2 then [obu] else []) @ obus)
                        (collect_obus tu (o' + len))
      else Inr [])"
  by pat_completeness auto
termination
  by (relation "measure (\<lambda>(tu, off). length tu - off)")
    (auto simp: read_leb128_def obu_header_len_def split: if_splits dest!: leb128_loop_advances)

declare collect_obus.simps [simp del]

text \<open>
  Packing: \<open>cur\<close> is the packet in progress with a placeholder for its header, \<open>z\<close> whether it continues an
  OBU, \<open>first\<close> whether it is the first of the frame, \<open>packets\<close> those that are done.
\<close>

record av1_packer =
  cur :: bytes
  cur_z :: bool
  first_packet :: bool
  packets :: "bytes list"

definition av1_finish :: "bool \<Rightarrow> bool \<Rightarrow> av1_packer \<Rightarrow> av1_packer" where
  "av1_finish keyframe y st =
     (let hdr = flag (cur_z st) 0x80 OR flag y 0x40 OR flag (first_packet st \<and> keyframe) 0x08
      in st\<lparr>cur := [0], first_packet := False, packets := packets st @ [hdr # tl (cur st)]\<rparr>)"

text \<open>
  The loop over one OBU. With a maximum below four octets it does not end: no value. \<^verbatim>\<open>packetize\<close> raises
  the maximum to 64.
\<close>

function av1_pack_obu :: "bool \<Rightarrow> nat \<Rightarrow> bytes \<Rightarrow> av1_packer \<Rightarrow> av1_packer option" where
  "av1_pack_obu keyframe max_payload rest st =
     (let room = max_payload - (length (cur st) + 2)
      in if room < 8 \<and> length (cur st) > 1
         then av1_pack_obu keyframe max_payload rest ((av1_finish keyframe False st)\<lparr>cur_z := False\<rparr>)
         else if length rest \<le> room
         then Some (st\<lparr>cur := cur st @ write_leb128 (length rest) @ rest\<rparr>)
         else if room = 0 then None
         else
           av1_pack_obu keyframe max_payload (drop room rest)
             ((av1_finish keyframe True (st\<lparr>cur := cur st @ write_leb128 room @ take room rest\<rparr>))\<lparr>cur_z := True\<rparr>))"
  by pat_completeness auto
termination
  by (relation "measures [\<lambda>(k, m, rest, st). length rest, \<lambda>(k, m, rest, st). length (cur st)]")
    (auto simp: av1_finish_def Let_def)

declare av1_pack_obu.simps [simp del]

fun av1_pack :: "bool \<Rightarrow> nat \<Rightarrow> bytes list \<Rightarrow> av1_packer \<Rightarrow> av1_packer option" where
  "av1_pack keyframe max_payload [] st = Some st"
| "av1_pack keyframe max_payload (obu # obus) st =
     Option.bind (av1_pack_obu keyframe max_payload obu st) (av1_pack keyframe max_payload obus)"

definition av1_packetize :: "bytes \<Rightarrow> bool \<Rightarrow> nat \<Rightarrow> (PayloadError + bytes list) option" where
  "av1_packetize tu keyframe max_payload =
     (case collect_obus tu 0 of
        Inl e \<Rightarrow> Some (Inl e)
      | Inr obus \<Rightarrow>
          if obus = [] then Some (Inl (Malformed ''no OBUs''))
          else
            map_option
              (\<lambda>st. Inr (packets (if length (cur st) > 1 then av1_finish keyframe False st else st)))
              (av1_pack keyframe max_payload obus \<lparr>cur = [0], cur_z = False, first_packet = True, packets = []\<rparr>))"

section \<open>All codecs\<close>

fun depacketize :: "VideoCodec \<Rightarrow> bytes list \<Rightarrow> PayloadError + bytes" where
  "depacketize H264 ps = h264_depacketize ps"
| "depacketize H265 ps = h265_depacketize ps"
| "depacketize VP8 ps = vp8_depacketize ps"
| "depacketize VP9 ps = vp9_depacketize ps"
| "depacketize AV1 ps = av1_depacketize ps"

definition packetize :: "VideoCodec \<Rightarrow> CodedFrame \<Rightarrow> nat \<Rightarrow> (PayloadError + bytes list) option" where
  "packetize codec frame max_payload =
     (let max_payload = max max_payload 64
      in case codec of
           H264 \<Rightarrow> Some (h264_packetize (cf_data frame) max_payload)
         | H265 \<Rightarrow> Some (h265_packetize (cf_data frame) max_payload)
         | VP8 \<Rightarrow> Some (vp8_packetize (cf_data frame) max_payload)
         | VP9 \<Rightarrow> Some (vp9_packetize (cf_data frame) (cf_keyframe frame) max_payload)
         | AV1 \<Rightarrow> av1_packetize (cf_data frame) (cf_keyframe frame) max_payload)"

end
