(* ===== verification/Video_Roundtrip.thy ===== *)
theory Video_Roundtrip
  imports Video_Payload
begin

text \<open>
  What \<^verbatim>\<open>crates/forge-rtp/src/video/payload.rs\<close> guarantees: a frame that is cut into payloads comes
  back from them, in every codec, and no payload is longer than the caller allows. The two formats of NAL units
  share the locale \<open>nal_format\<close>, which \<open>h264\<close> and \<open>h265\<close> interpret; VP8 and VP9 share the lemmas on
  descriptors; AV1 rests on an invariant of its packer, \<open>av1_packed\<close>, which says what the depacketizer makes
  of the packets so far.
\<close>

section \<open>Chunks\<close>

lemma chunks_Nil [simp]: "chunks k [] = []"
  by (simp add: chunks.simps)

lemma chunks_step: "xs \<noteq> [] \<Longrightarrow> 0 < k \<Longrightarrow> chunks k xs = take k xs # chunks k (drop k xs)"
  by (simp add: chunks.simps)

lemma concat_chunks: "0 < k \<Longrightarrow> concat (chunks k xs) = xs"
  by (induction k xs rule: chunks.induct) (subst chunks.simps, simp)

lemma chunks_bounds: "c \<in> set (chunks k xs) \<Longrightarrow> c \<noteq> [] \<and> length c \<le> k"
proof (induction k xs rule: chunks.induct)
  case (1 k xs)
  show ?case
  proof (cases "xs = [] \<or> k = 0")
    case True
    then have "chunks k xs = []" by (auto simp: chunks.simps)
    with "1.prems" show ?thesis by simp
  next
    case False
    then show ?thesis
      using 1 by (auto simp: chunks_step)
  qed
qed

lemma div_ceil_step:
  assumes "0 < n" "0 < k"
  shows "div_ceil n k = Suc (div_ceil (n - k) k)"
proof -
  obtain l where l: "n = Suc l" using assms(1) by (cases n) auto
  obtain j where j: "k = Suc j" using assms(2) by (cases k) auto
  have "div_ceil n k = Suc (l div k)"
    using div_add_self2 [of "Suc j" l] by (simp add: div_ceil_def l j)
  moreover have "div_ceil (n - k) k = l div k"
  proof (cases "n \<le> k")
    case True
    then have "l < k" by (simp add: l)
    then show ?thesis using True by (simp add: div_ceil_def j)
  next
    case False
    then have "n - k + k - 1 = l" by (simp add: l j)
    then show ?thesis by (simp add: div_ceil_def)
  qed
  ultimately show ?thesis by simp
qed

lemma length_chunks: "0 < k \<Longrightarrow> length (chunks k xs) = div_ceil (length xs) k"
proof (induction k xs rule: chunks.induct)
  case (1 k xs)
  show ?case
  proof (cases "xs = []")
    case True
    then show ?thesis using 1 by (simp add: div_ceil_def)
  next
    case False
    then show ?thesis
      using 1 div_ceil_step [of "length xs" k] by (simp add: chunks_step)
  qed
qed

lemma chunks_not_Nil: "xs \<noteq> [] \<Longrightarrow> 0 < k \<Longrightarrow> chunks k xs \<noteq> []"
  by (simp add: chunks_step)

section \<open>VP8 and VP9\<close>

text \<open>A descriptor of one octet, which the length function recognises whatever follows.\<close>

lemma strip_one_octet:
  assumes "\<And>x. x \<in> set ds \<Longrightarrow> descriptor_len (fst x # snd x) = Some 1"
  shows "strip_descriptors descriptor_len (map (\<lambda>x. fst x # snd x) ds) = Inr (concat (map snd ds))"
  using assms by (induction ds) auto

lemma strip_enumerate:
  assumes "\<And>i part. descriptor_len (d i # part) = Some 1"
  shows "strip_descriptors descriptor_len (map (\<lambda>(i, part). d i # part) (enumerate n parts)) = Inr (concat parts)"
  using assms by (induction parts arbitrary: n) auto

lemma vp8_one_octet: "vp8_descriptor_len ((if b then 0x10 else 0x00) # part) = Some 1"
  by (simp add: vp8_descriptor_len_def get_byte_def)

lemma vp9_one_octet: "vp9_descriptor_len ((flag a 0x40 OR flag b 0x08 OR flag c 0x04) # part) = Some 1"
  by (cases a; cases b; cases c) (simp_all add: vp9_descriptor_len_def get_byte_def flag_def)

lemma enumerate_mem: "(i, part) \<in> set (enumerate n parts) \<Longrightarrow> part \<in> set parts"
  by (induction parts arbitrary: n) auto

lemma enumerate_length:
  "p \<in> set (map (\<lambda>(i, part). d i # part) (enumerate n (chunks k xs))) \<Longrightarrow> length p \<le> Suc k"
  by (auto dest!: enumerate_mem chunks_bounds)

lemma enumerate_not_Nil: "parts \<noteq> [] \<Longrightarrow> map f (enumerate n parts) \<noteq> []"
  by (cases parts) auto

lemma vp8_roundtrip:
  assumes "frame \<noteq> []" "2 \<le> m"
  shows "\<exists>ps. vp8_packetize frame m = Inr ps \<and> vp8_depacketize ps = Inr frame \<and> ps \<noteq> [] \<and> (\<forall>p \<in> set ps. length p \<le> m)"
proof -
  let ?ps = "map (\<lambda>(i, part). (if i = 0 then 0x10 else 0x00) # part) (enumerate 0 (chunks (m - 1) frame))"
  have "vp8_packetize frame m = Inr ?ps"
    using assms(1) by (simp add: vp8_packetize_def)
  moreover have "vp8_depacketize ?ps = Inr frame"
    using assms strip_enumerate [of vp8_descriptor_len "\<lambda>i. if i = 0 then 0x10 else 0x00" 0 "chunks (m - 1) frame"]
    by (simp add: vp8_depacketize_def vp8_one_octet concat_chunks)
  moreover have "?ps \<noteq> []"
    using assms by (intro enumerate_not_Nil chunks_not_Nil) auto
  moreover have "\<forall>p \<in> set ?ps. length p \<le> m"
    using assms(2) enumerate_length [of _ "\<lambda>i. if i = 0 then 0x10 else 0x00" 0 "m - 1" frame] by fastforce
  ultimately show ?thesis by blast
qed

lemma vp9_roundtrip:
  assumes "frame \<noteq> []" "2 \<le> m"
  shows "\<exists>ps. vp9_packetize frame k m = Inr ps \<and> vp9_depacketize ps = Inr frame \<and> ps \<noteq> [] \<and> (\<forall>p \<in> set ps. length p \<le> m)"
proof -
  let ?d = "\<lambda>i. flag (\<not> k) 0x40 OR flag (i = 0) 0x08 OR flag (i = div_ceil (length frame) (m - 1) - 1) 0x04"
  let ?ps = "map (\<lambda>(i, part). ?d i # part) (enumerate 0 (chunks (m - 1) frame))"
  have "vp9_packetize frame k m = Inr ?ps"
    using assms(1) by (simp add: vp9_packetize_def Let_def)
  moreover have "vp9_depacketize ?ps = Inr frame"
    using assms strip_enumerate [of vp9_descriptor_len ?d 0 "chunks (m - 1) frame"]
    by (simp add: vp9_depacketize_def vp9_one_octet concat_chunks)
  moreover have "?ps \<noteq> []"
    using assms by (intro enumerate_not_Nil chunks_not_Nil) auto
  moreover have "\<forall>p \<in> set ?ps. length p \<le> m"
    using assms(2) enumerate_length [of _ ?d 0 "m - 1" frame] by fastforce
  ultimately show ?thesis by blast
qed

section \<open>NAL units\<close>

text \<open>
  A format of NAL units in payloads: \<open>one\<close> reads a payload, \<open>hdr\<close> writes the header of a fragment of a
  unit, which stands for the unit's own header of \<open>hl\<close> octets.
\<close>

locale nal_format =
  fixes one :: "bytes \<Rightarrow> bool \<Rightarrow> PayloadError + (bytes \<times> bool)"
    and hdr :: "bytes \<Rightarrow> bool \<Rightarrow> bool \<Rightarrow> bytes"
    and hl :: nat
    and ok :: "bytes \<Rightarrow> bool"
    and unit_payloads :: "nat \<Rightarrow> bytes \<Rightarrow> bytes list"
  assumes single: "ok nal \<Longrightarrow> one nal f = Inr (START_CODE @ nal, f)"
    and start: "ok nal \<Longrightarrow> one (hdr nal True stop @ part) f = Inr (START_CODE @ take hl nal @ part, \<not> stop)"
    and cont: "ok nal \<Longrightarrow> one (hdr nal False stop @ part) True = Inr (part, \<not> stop)"
    and length_hdr: "length (hdr nal s e) = hl + 1"
    and payloads: "unit_payloads m nal = (if length nal \<le> m then [nal] else fragment nal hl m (hdr nal))"
begin

lemma continued:
  assumes "ok nal" "parts \<noteq> []" "0 < i" "n = i + length parts"
  shows "payload_loop one (map (\<lambda>(j, part). hdr nal (j = 0) (j = n - 1) @ part) (enumerate i parts)) True =
    Inr (concat parts, False)"
  using assms(2-)
proof (induction parts arbitrary: i)
  case (Cons p ps)
  show ?case
  proof (cases "ps = []")
    case True
    then show ?thesis using Cons.prems assms(1) by (simp add: cont)
  next
    case False
    then have "i \<noteq> n - 1" using Cons.prems by (cases ps) auto
    then show ?thesis
      using Cons.IH [of "Suc i"] Cons.prems False assms(1) by (simp add: cont)
  qed
qed simp

lemma fragmented:
  assumes "ok nal" "parts \<noteq> []"
  shows "payload_loop one (map (\<lambda>(j, part). hdr nal (j = 0) (j = length parts - 1) @ part) (enumerate 0 parts)) f =
    Inr (START_CODE @ take hl nal @ concat parts, False)"
proof (cases parts)
  case (Cons p ps)
  then show ?thesis
    using assms(1) continued [of nal ps 1 "length parts"] by (cases "ps = []") (auto simp: start)
qed (use assms in simp)

lemma unit_roundtrip:
  assumes "ok nal" "hl + 2 \<le> m"
  shows "payload_loop one (unit_payloads m nal) False = Inr (START_CODE @ nal, False)"
proof (cases "length nal \<le> m")
  case True
  then show ?thesis using assms by (simp add: payloads single)
next
  case False
  let ?parts = "chunks (m - (hl + 1)) (drop hl nal)"
  have k: "max (m - (hl + 1)) 1 = m - (hl + 1)" "0 < m - (hl + 1)"
    using assms(2) by simp_all
  then have "?parts \<noteq> []"
    using False assms(2) by (intro chunks_not_Nil) auto
  moreover from this have "max (div_ceil (length nal - hl) (m - (hl + 1))) 1 = length ?parts"
    using length_chunks [OF k(2), of "drop hl nal"] by (cases ?parts) simp_all
  ultimately show ?thesis
    using False fragmented [OF assms(1), of ?parts] k
    by (simp add: payloads fragment_def concat_chunks Let_def)
qed

lemma unit_payload_length:
  assumes "p \<in> set (unit_payloads m nal)" "hl + 2 \<le> m"
  shows "length p \<le> m"
proof (cases "length nal \<le> m")
  case False
  have "max (m - (hl + 1)) 1 = m - (hl + 1)"
    using assms(2) by simp
  then obtain s e part where "p = hdr nal s e @ part" "part \<in> set (chunks (m - (hl + 1)) (drop hl nal))"
    using False assms(1) by (auto simp: payloads fragment_def Let_def dest!: enumerate_mem)
  then show ?thesis
    using chunks_bounds [of part "m - (hl + 1)" "drop hl nal"] assms(2) by (auto simp: length_hdr)
qed (use assms in \<open>simp add: payloads\<close>)

lemma payload_loop_append:
  "payload_loop one xs f = Inr (out, g) \<Longrightarrow> payload_loop one ys g = Inr (out', h) \<Longrightarrow>
     payload_loop one (xs @ ys) f = Inr (out @ out', h)"
proof (induction xs arbitrary: f out)
  case (Cons x xs)
  obtain o1 f1 o2 where "one x f = Inr (o1, f1)" "payload_loop one xs f1 = Inr (o2, g)" "out = o1 @ o2"
    using Cons.prems(1) by (auto split: sum.splits prod.splits)
  with Cons.IH [of f1 o2] Cons.prems(2) show ?case by simp
qed simp

lemma units_roundtrip:
  assumes "list_all ok nals" "hl + 2 \<le> m"
  shows "payload_loop one (concat (map (unit_payloads m) nals)) False =
    Inr (concat (map (\<lambda>nal. START_CODE @ nal) nals), False)"
  using assms(1)
proof (induction nals)
  case (Cons nal nals)
  then show ?case
    using payload_loop_append [OF unit_roundtrip [of nal m]] assms(2) by simp
qed simp

end

definition h264_ok :: "bytes \<Rightarrow> bool" where
  "h264_ok nal \<longleftrightarrow> nal \<noteq> [] \<and> 1 \<le> nal ! 0 AND 0x1F \<and> nal ! 0 AND 0x1F \<le> 23"

definition h264_hdr :: "bytes \<Rightarrow> bool \<Rightarrow> bool \<Rightarrow> bytes" where
  "h264_hdr nal s e = [(nal ! 0 AND 0xE0) OR 28, flag s 0x80 OR flag e 0x40 OR (nal ! 0 AND 0x1F)]"

lemma and_or_distrib: "(a OR b) AND c = (a AND c) OR (b AND c :: u8)"
  by (rule bit_word_eqI) (auto simp: bit_and_iff bit_or_iff)

lemma and_twice: "(a AND b) AND c = a AND (b AND c :: u8)"
  by (rule and.assoc)

lemma flag_and: "flag s a AND b = flag s (a AND b)" "flag s 0 = 0"
  by (simp_all add: flag_def)

lemma or_halves: "(h AND 0xE0) OR (h AND 0x1F) = (h :: u8)"
proof -
  have m: "(0xE0 :: u8) = NOT (mask 5)" "(0x1F :: u8) = mask 5"
    by (simp_all add: mask_eq_exp_minus_1 not_eq_complement)
  show ?thesis
    unfolding m by (rule bit_word_eqI) (auto simp only: bit_and_iff bit_or_iff bit_not_iff possible_bit_word)
qed

lemmas octet_algebra = and_or_distrib and_twice flag_and

lemma h264_octets:
  fixes h :: u8
  defines "i \<equiv> (h AND 0xE0) OR 28"
  shows "i AND 0x1F = 28" "(i AND 0xE0) OR ((flag s 0x80 OR flag e 0x40 OR (h AND 0x1F)) AND 0x1F) = h"
    "(flag s 0x80 OR flag e 0x40 OR (h AND 0x1F)) AND 0x80 \<noteq> 0 \<longleftrightarrow> s"
    "(flag s 0x80 OR flag e 0x40 OR (h AND 0x1F)) AND 0x40 \<noteq> 0 \<longleftrightarrow> e"
  using or_halves [of h] by (simp_all add: i_def octet_algebra) (simp_all add: flag_def)

lemma h264_payload_fu:
  assumes "i AND 0x1F = 28"
  shows "h264_payload (i # fu # part) f =
    (if fu AND 0x80 \<noteq> 0 \<or> f
     then Inr ((if fu AND 0x80 \<noteq> 0 then START_CODE @ [(i AND 0xE0) OR (fu AND 0x1F)] else []) @ part, \<not> fu AND 0x40 \<noteq> 0)
     else Inl (Malformed ''FU-A continuation without start''))"
  using assms by (simp add: h264_payload_def Let_def)

interpretation h264: nal_format h264_payload h264_hdr 1 h264_ok h264_nal_payloads
proof
  fix nal part stop f
  assume ok: "h264_ok nal"
  then show "h264_payload nal f = Inr (START_CODE @ nal, f)"
    by (simp add: h264_payload_def h264_ok_def Let_def)
  have nal: "take 1 nal = [nal ! 0]"
    using ok by (cases nal) (auto simp: h264_ok_def)
  have "h264_payload (h264_hdr nal s stop @ part) f = (if s \<or> f
      then Inr ((if s then START_CODE @ [nal ! 0] else []) @ part, \<not> stop)
      else Inl (Malformed ''FU-A continuation without start''))" for s f
    unfolding h264_hdr_def append_Cons append_Nil h264_payload_fu [OF h264_octets(1)] h264_octets(2-4) by (rule refl)
  then show "h264_payload (h264_hdr nal True stop @ part) f = Inr (START_CODE @ take 1 nal @ part, \<not> stop)"
    "h264_payload (h264_hdr nal False stop @ part) True = Inr (part, \<not> stop)"
    using nal by simp_all
qed (simp_all add: h264_hdr_def [abs_def] h264_nal_payloads_def Let_def)

definition h265_ok :: "bytes \<Rightarrow> bool" where
  "h265_ok nal \<longleftrightarrow> 2 \<le> length nal \<and> h265_nal_type (nal ! 0) \<notin> {48, 49, 50}"

definition h265_hdr :: "bytes \<Rightarrow> bool \<Rightarrow> bool \<Rightarrow> bytes" where
  "h265_hdr nal s e =
     [(nal ! 0 AND 0x81) OR push_bit 1 49, nal ! 1, flag s 0x80 OR flag e 0x40 OR h265_nal_type (nal ! 0)]"

lemma h265_halves: "(h AND 0x81) OR push_bit 1 (h265_nal_type h) = h"
proof -
  have m: "(0x3F :: u8) = mask 6" "(0x81 :: u8) = NOT (push_bit 1 (mask 6))"
    by (simp_all add: mask_eq_exp_minus_1 push_bit_eq_mult not_eq_complement)
  show ?thesis
    unfolding h265_nal_type_def m
  proof (rule bit_word_eqI)
    fix n assume "n < LENGTH(8)"
    then show "bit ((h AND NOT (push_bit 1 (mask 6))) OR push_bit 1 (drop_bit 1 h AND mask 6)) n = bit h n"
      unfolding bit_and_iff bit_or_iff bit_not_iff bit_push_bit_iff bit_mask_iff bit_drop_bit_eq
      by (cases n) auto
  qed
qed

lemma h265_type_and: "h265_nal_type h AND 0x3F = h265_nal_type h" "h265_nal_type h AND 0x80 = 0" "h265_nal_type h AND 0x40 = 0"
  by (simp_all add: h265_nal_type_def and_twice)

lemma h265_octets:
  fixes h :: u8
  defines "i \<equiv> (h AND 0x81) OR push_bit 1 49"
  shows "h265_nal_type i = 49" "(i AND 0x81) OR push_bit 1 ((flag s 0x80 OR flag e 0x40 OR h265_nal_type h) AND 0x3F) = h"
    "(flag s 0x80 OR flag e 0x40 OR h265_nal_type h) AND 0x80 \<noteq> 0 \<longleftrightarrow> s"
    "(flag s 0x80 OR flag e 0x40 OR h265_nal_type h) AND 0x40 \<noteq> 0 \<longleftrightarrow> e"
proof -
  have "drop_bit 1 (h AND 0x81) AND 0x3F = (drop_bit 1 h AND 0x40) AND 0x3F"
    by (simp add: drop_bit_and)
  then have "drop_bit 1 (h AND 0x81) AND 0x3F = 0"
    by (simp add: and_twice)
  then show "h265_nal_type i = 49"
    by (simp add: i_def h265_nal_type_def drop_bit_or and_or_distrib)
  show "(i AND 0x81) OR push_bit 1 ((flag s 0x80 OR flag e 0x40 OR h265_nal_type h) AND 0x3F) = h"
    using h265_halves [of h] by (simp add: i_def octet_algebra h265_type_and)
qed (simp_all add: octet_algebra h265_type_and flag_def)

lemma h265_payload_fu:
  assumes "h265_nal_type i = 49"
  shows "h265_payload (i # j # fu # part) f =
    (if fu AND 0x80 \<noteq> 0 \<or> f
     then Inr ((if fu AND 0x80 \<noteq> 0 then START_CODE @ [(i AND 0x81) OR push_bit 1 (fu AND 0x3F), j] else []) @ part,
               \<not> fu AND 0x40 \<noteq> 0)
     else Inl (Malformed ''FU continuation without start''))"
  using assms by (simp add: h265_payload_def Let_def)

interpretation h265: nal_format h265_payload h265_hdr 2 h265_ok h265_nal_payloads
proof
  fix nal part stop f
  assume ok: "h265_ok nal"
  then show "h265_payload nal f = Inr (START_CODE @ nal, f)"
    by (simp add: h265_payload_def h265_ok_def Let_def)
  have nal: "take 2 nal = [nal ! 0, nal ! 1]"
    using ok by (cases nal; cases "tl nal") (auto simp: h265_ok_def)
  have "h265_payload (h265_hdr nal s stop @ part) f = (if s \<or> f
      then Inr ((if s then START_CODE @ [nal ! 0, nal ! 1] else []) @ part, \<not> stop)
      else Inl (Malformed ''FU continuation without start''))" for s f
    unfolding h265_hdr_def append_Cons append_Nil h265_payload_fu [OF h265_octets(1)] h265_octets(2-4) by (rule refl)
  then show "h265_payload (h265_hdr nal True stop @ part) f = Inr (START_CODE @ take 2 nal @ part, \<not> stop)"
    "h265_payload (h265_hdr nal False stop @ part) True = Inr (part, \<not> stop)"
    using nal by simp_all
qed (simp_all add: h265_hdr_def [abs_def] h265_nal_payloads_def Let_def)

section \<open>Sizes of OBUs\<close>

lemma get_byte_append: "get_byte (pre @ b # post) (length pre) = Some b"
  by (simp add: get_byte_def)

lemma octet_masks: "(0x7F :: u8) = mask 7" "(0x80 :: u8) = push_bit 7 1"
  by (simp_all add: mask_eq_exp_minus_1 push_bit_eq_mult)

lemma small_octet:
  assumes "n < 128"
  shows "unat (of_nat n AND 0x7F :: u8) = n" "(of_nat n AND 0x80 :: u8) = 0"
    "unat ((of_nat n OR 0x80) AND 0x7F :: u8) = n" "((of_nat n OR 0x80) AND 0x80 :: u8) \<noteq> 0"
proof -
  have "unat (of_nat n AND mask 7 :: u8) = take_bit 7 (unat (of_nat n :: u8))"
    by (simp only: unsigned_take_bit_eq flip: take_bit_eq_mask)
  also have "unat (of_nat n :: u8) = n" using assms by (simp add: unat_of_nat take_bit_nat_eq_self_iff)
  also have "take_bit 7 n = n" using assms by (simp add: take_bit_nat_eq_self_iff)
  finally show low: "unat (of_nat n AND 0x7F :: u8) = n" by (simp only: octet_masks)
  have b: "\<not> bit n k" if "7 \<le> k" for k
    using assms power_increasing [OF that, of "2 :: nat"] by (simp add: bit_iff_odd)
  then have "of_nat n AND push_bit 7 1 = (0 :: u8)"
    by (intro bit_word_eqI) (auto simp: bit_and_iff bit_push_bit_iff bit_of_nat_iff simp del: push_bit_of_1)
  then show high: "(of_nat n AND 0x80 :: u8) = 0" by (simp only: octet_masks)
  show "unat ((of_nat n OR 0x80) AND 0x7F :: u8) = n" "((of_nat n OR 0x80) AND 0x80 :: u8) \<noteq> 0"
    using low high by (simp_all add: and_or_distrib)
qed

lemma leb128_loop_write:
  assumes "v < 2 ^ (7 * n)" "0 < n"
  shows "leb128_loop (pre @ write_leb128 v @ post) n i (length pre) acc =
    Some (acc + v * 2 ^ (7 * i), length pre + length (write_leb128 v))"
  using assms
proof (induction v arbitrary: pre n i acc rule: write_leb128.induct)
  case (1 v)
  obtain k where n: "n = Suc k" using "1.prems" by (cases n) auto
  have m: "v mod 128 < 128" by simp
  show ?case
  proof (cases "v div 128 = 0")
    case True
    then have "v mod 128 = v" by simp
    then show ?thesis
      using True m small_octet [OF m] by (simp add: n write_leb128.simps [of v] get_byte_append Let_def)
  next
    case False
    have "v div 128 < 2 ^ (7 * k)"
      using "1.prems"(1) by (simp add: n power_add less_mult_imp_div_less)
    moreover from this have "0 < k" using False by (cases k) auto
    ultimately have "leb128_loop ((pre @ [of_nat (v mod 128) OR 0x80]) @ write_leb128 (v div 128) @ post) k (i + 1)
        (length (pre @ [of_nat (v mod 128) OR 0x80])) (acc + v mod 128 * 2 ^ (7 * i)) =
      Some (acc + v mod 128 * 2 ^ (7 * i) + v div 128 * 2 ^ (7 * (i + 1)), length (pre @ [of_nat (v mod 128) OR 0x80 :: u8]) + length (write_leb128 (v div 128)))"
      using "1.IH" [OF False] by blast
    moreover have "v mod 128 * 2 ^ (7 * i) + v div 128 * 2 ^ (7 * (i + 1)) = v * 2 ^ (7 * i)"
    proof -
      have "v * 2 ^ (7 * i) = (v mod 128 + v div 128 * 128) * 2 ^ (7 * i)" by simp
      also have "\<dots> = v mod 128 * 2 ^ (7 * i) + v div 128 * 2 ^ (7 * (i + 1))"
        by (simp only: distrib_right power_add mult_2 mult.assoc) (simp add: power_add)
      finally show ?thesis by simp
    qed
    ultimately show ?thesis
      using False small_octet [OF m] by (simp add: n write_leb128.simps [of v] get_byte_append Let_def)
  qed
qed

lemma read_leb128_write:
  "v < 2 ^ 56 \<Longrightarrow> read_leb128 (pre @ write_leb128 v @ post) (length pre) = Some (v, length pre + length (write_leb128 v))"
  using leb128_loop_write [of v 8 pre post 0 0] by (simp add: read_leb128_def)

lemma write_leb128_not_Nil [simp]: "write_leb128 v \<noteq> []"
  by (simp add: write_leb128.simps)

lemma write_leb128_length: "v < 2 ^ 14 \<Longrightarrow> length (write_leb128 v) \<le> 2"
  by (subst write_leb128.simps, subst write_leb128.simps) (simp add: less_mult_imp_div_less)

section \<open>Elements\<close>

definition av1_enc :: "bytes \<Rightarrow> bytes" where
  "av1_enc e = write_leb128 (length e) @ e"

definition emitted :: "bytes \<Rightarrow> bytes" where
  "emitted obu = (case emit_obu obu of Inr out \<Rightarrow> out | Inl _ \<Rightarrow> [])"

definition emits :: "bytes \<Rightarrow> bool" where
  "emits obu \<longleftrightarrow> obu \<noteq> [] \<and> obu_header_len (obu ! 0) \<le> length obu"

lemma emit_obu_emits: "emits obu \<Longrightarrow> emit_obu obu = Inr (emitted obu)"
  by (auto simp: emits_def emitted_def emit_obu_def Let_def split: if_splits)

fun merged :: "bytes option \<Rightarrow> bytes list \<Rightarrow> bytes list" where
  "merged None es = es"
| "merged (Some b) [] = []"
| "merged (Some b) (e # es) = (b @ e) # es"

lemma merged_snoc: "es \<noteq> [] \<or> part = None \<Longrightarrow> merged part (es @ [e]) = merged part es @ [e]"
  by (cases part; cases es) auto

lemma av1_enc_not_Nil [simp]: "av1_enc e \<noteq> []"
  by (simp add: av1_enc_def)

lemma av1_elements_end: "\<not> off < length p \<Longrightarrow> av1_elements p y w off idx part = Inr (part, [])"
  by (simp add: av1_elements.simps)

lemma av1_elements_read:
  assumes "off < length p" "read_leb128 p off = Some (len, off1)" "off1 + len \<le> length p"
  shows "av1_elements p y 0 off idx part =
    (let buf = (case part of None \<Rightarrow> [] | Some b \<Rightarrow> b) @ take len (drop off1 p)
     in if y \<and> off1 + len = length p then Inr (Some buf, [])
        else case emit_obu buf of
          Inl er \<Rightarrow> Inl er
        | Inr out \<Rightarrow> map_sum id (\<lambda>(part', out'). (part', out @ out')) (av1_elements p y 0 (off1 + len) (idx + 1) None))"
  using assms by (subst av1_elements.simps) (cases part; simp add: Let_def av1_elements_end)

lemma av1_elements_step:
  assumes "length e < 2 ^ 56"
  shows "av1_elements (pre @ av1_enc e @ post) y 0 (length pre) idx part =
    (let buf = (case part of None \<Rightarrow> [] | Some b \<Rightarrow> b) @ e
     in if y \<and> post = [] then Inr (Some buf, [])
        else case emit_obu buf of
          Inl er \<Rightarrow> Inl er
        | Inr out \<Rightarrow> map_sum id (\<lambda>(part', out'). (part', out @ out'))
            (av1_elements (pre @ av1_enc e @ post) y 0 (length (pre @ av1_enc e)) (idx + 1) None))"
proof -
  let ?p = "pre @ av1_enc e @ post" and ?o = "length pre + length (write_leb128 (length e))"
  have r: "read_leb128 ?p (length pre) = Some (length e, ?o)"
    using read_leb128_write [OF assms, of pre "e @ post"] by (simp add: av1_enc_def)
  have o: "length pre < length ?p" by (simp add: av1_enc_def)
  have e: "?o + length e = length (pre @ av1_enc e)" "take (length e) (drop ?o ?p) = e"
    by (simp_all add: av1_enc_def)
  then have "?o + length e \<le> length ?p" "?o + length e = length ?p \<longleftrightarrow> post = []" by simp_all
  then show ?thesis using av1_elements_read [OF o r] by (simp only: e)
qed

lemma av1_elements_merged:
  assumes "list_all (\<lambda>e. length e < 2 ^ 56) (es @ [e])" "list_all emits (if y then butlast (merged part (es @ [e])) else merged part (es @ [e]))"
  shows "av1_elements (pre @ concat (map av1_enc (es @ [e]))) y 0 (length pre) idx part =
    Inr (if y then (Some (last (merged part (es @ [e]))), concat (map emitted (butlast (merged part (es @ [e])))))
         else (None, concat (map emitted (merged part (es @ [e])))))"
  using assms
proof (induction es arbitrary: pre idx part)
  case Nil
  then show ?case
    using av1_elements_step [of e pre "[]" y idx part]
    by (cases part) (auto simp: Let_def av1_elements_end emit_obu_emits split: if_splits)
next
  case (Cons x es)
  let ?b = "(case part of None \<Rightarrow> [] | Some b \<Rightarrow> b) @ x"
  have m: "merged part ((x # es) @ [e]) = ?b # merged None (es @ [e])" by (cases part) auto
  then have "emits ?b" using Cons.prems(2) by (auto split: if_splits)
  moreover have "concat (map av1_enc (es @ [e])) \<noteq> []" by simp
  ultimately show ?case
    using av1_elements_step [of x pre "concat (map av1_enc (es @ [e]))" y idx part] Cons.prems
      Cons.IH [of None "pre @ av1_enc x" "idx + 1"] m
    by (auto simp: Let_def emit_obu_emits)
qed

section \<open>Packing\<close>

lemma av1_payloads_snoc:
  assumes "av1_payloads ps None = Inr (part, out)" "p \<noteq> []" "p ! 0 AND 0x80 \<noteq> 0 \<longleftrightarrow> part \<noteq> None"
    "av1_elements p (p ! 0 AND 0x40 \<noteq> 0) (unat (drop_bit 4 (p ! 0) AND 0x03)) 1 0 part = Inr (part', out')"
  shows "av1_payloads (ps @ [p]) None = Inr (part', out @ out')"
proof -
  have "av1_payloads ps q = Inr (part, out) \<Longrightarrow> av1_payloads (ps @ [p]) q = Inr (part', out @ out')" for q
    using assms(2-)
  proof (induction ps arbitrary: q out)
    case Nil
    then show ?case by (auto simp: Let_def)
  next
    case (Cons a ps)
    then show ?case
      by (auto simp: Let_def map_sum_def split: if_splits sum.splits prod.splits)
  qed
  with assms(1) show ?thesis by blast
qed

definition flagged :: "bool \<Rightarrow> bool \<Rightarrow> bool \<Rightarrow> u8" where
  "flagged z y k = flag z 0x80 OR flag y 0x40 OR flag k 0x08"

lemma flagged_bits:
  "flagged z y k AND 0x80 \<noteq> 0 \<longleftrightarrow> z" "flagged z y k AND 0x40 \<noteq> 0 \<longleftrightarrow> y" "unat (drop_bit 4 (flagged z y k) AND 0x03) = 0"
  by (cases z; cases y; cases k; simp add: flagged_def flag_def)+

definition av1_sent :: "av1_packer \<Rightarrow> bytes option \<Rightarrow> bytes list \<Rightarrow> bytes list \<Rightarrow> bool" where
  "av1_sent st part es ds \<longleftrightarrow>
     av1_payloads (packets st) None = Inr (part, concat (map emitted ds)) \<and>
     cur st = 0 # concat (map av1_enc es) \<and> (cur_z st \<longleftrightarrow> part \<noteq> None) \<and>
     list_all (\<lambda>e. length e < 2 ^ 56) es"

lemma av1_finish_sent:
  assumes s: "av1_sent st part es ds" and es: "es \<noteq> []"
    and ok: "list_all emits (if y then butlast (merged part es) else merged part es)"
  shows "av1_sent ((av1_finish k y st)\<lparr>cur_z := y\<rparr>) (if y then Some (last (merged part es)) else None) []
    (ds @ (if y then butlast (merged part es) else merged part es))"
proof -
  obtain xs e where x: "es = xs @ [e]" using es by (cases es rule: rev_cases) auto
  let ?h = "flagged (cur_z st) y (first_packet st \<and> k)" 
  let ?p = "?h # tl (cur st)"
  have p: "?p = [?h] @ concat (map av1_enc es)" using s by (simp add: av1_sent_def)
  have l: "list_all (\<lambda>e. length e < 2 ^ 56) (xs @ [e])" using s by (simp add: av1_sent_def x)
  have "av1_elements ?p y 0 1 0 part =
      Inr (if y then (Some (last (merged part es)), concat (map emitted (butlast (merged part es))))
           else (None, concat (map emitted (merged part es))))"
    using av1_elements_merged [OF l ok [unfolded x], of "[?h]" 0] unfolding p x by (simp only: list.size add_0 One_nat_def)
  then have "av1_payloads (packets st @ [?p]) None =
      Inr (if y then Some (last (merged part es)) else None,
           concat (map emitted ds) @ concat (map emitted (if y then butlast (merged part es) else merged part es)))"
    using s by (intro av1_payloads_snoc) (auto simp: av1_sent_def flagged_bits)
  then show ?thesis
    by (auto simp: av1_sent_def av1_finish_def flagged_def)
qed


text \<open>
  The invariant of the loop: \<open>obus\<close> are packed, \<open>pend\<close> of the next one is sent. Between two OBUs nothing is
  pending.
\<close>

definition av1_packed :: "nat \<Rightarrow> av1_packer \<Rightarrow> bytes list \<Rightarrow> bytes option \<Rightarrow> bool" where
  "av1_packed m st obus pend \<longleftrightarrow>
     (\<exists>part es ds. av1_sent st part es ds \<and>
        (case pend of
           None \<Rightarrow> (es \<noteq> [] \<or> part = None) \<and> ds @ merged part es = obus
         | Some c \<Rightarrow> es = [] \<and> part = Some c \<and> ds = obus)) \<and>
     length (cur st) \<le> m \<and> (\<forall>p \<in> set (packets st). length p \<le> m)"

lemma av1_enc_length: "length e < 2 ^ 14 \<Longrightarrow> length (av1_enc e) \<le> length e + 2"
  using write_leb128_length [of "length e"] by (simp add: av1_enc_def)

lemma av1_finish_length:
  "length (cur st) \<le> m \<Longrightarrow> cur st \<noteq> [] \<Longrightarrow> \<forall>p \<in> set (packets st). length p \<le> m \<Longrightarrow>
     \<forall>p \<in> set (packets (av1_finish k y st)). length p \<le> m"
  by (auto simp: av1_finish_def Let_def)

lemma av1_pack_obu_packed:
  assumes "av1_packed m st obus pend" "list_all emits obus" "64 \<le> m" "m \<le> 16386"
  shows "\<exists>st'. av1_pack_obu k m rest st = Some st' \<and> length (cur st') > 1 \<and>
    av1_packed m st' (obus @ [(case pend of None \<Rightarrow> [] | Some c \<Rightarrow> c) @ rest]) None"
  using assms
proof (induction k m rest st arbitrary: pend obus rule: av1_pack_obu.induct)
  case (1 k m rest st)
  obtain part es ds where s: "av1_sent st part es ds" and c: "case pend of
           None \<Rightarrow> (es \<noteq> [] \<or> part = None) \<and> ds @ merged part es = obus
         | Some c \<Rightarrow> es = [] \<and> part = Some c \<and> ds = obus"
    and len: "length (cur st) \<le> m" "\<forall>p \<in> set (packets st). length p \<le> m"
    using "1.prems"(1) by (auto simp: av1_packed_def)
  have cur: "cur st = 0 # concat (map av1_enc es)" using s by (simp add: av1_sent_def)
  then have ne: "length (cur st) > 1 \<longleftrightarrow> es \<noteq> []" by (cases es) auto
  let ?room = "m - (length (cur st) + 2)"
  note step = av1_pack_obu.simps [of k m rest st]
  have room: "8 \<le> ?room" "?room \<le> 16383" "m = ?room + length (cur st) + 2"
    if "\<not> (?room < 8 \<and> length (cur st) > 1)"
    using that "1.prems"(3,4) cur by auto
  consider (full) "?room < 8" "length (cur st) > 1" | (fits) "\<not> (?room < 8 \<and> length (cur st) > 1)" "length rest \<le> ?room"
    | (split) "\<not> (?room < 8 \<and> length (cur st) > 1)" "\<not> length rest \<le> ?room" by blast
  then show ?case
  proof cases
    case full
    then have p: "pend = None" "ds @ merged part es = obus" "es \<noteq> []"
      using c ne by (auto split: option.splits)
    let ?st = "(av1_finish k False st)\<lparr>cur_z := False\<rparr>"
    have "av1_sent ?st None [] obus"
      using av1_finish_sent [OF s p(3), of False k] p(2) "1.prems"(2) by auto
    moreover have "length (cur ?st) \<le> m" using "1.prems"(3) by (simp add: av1_finish_def Let_def)
    moreover have "\<forall>p \<in> set (packets ?st). length p \<le> m"
      using av1_finish_length [OF len(1) _ len(2)] cur by simp
    ultimately have "av1_packed m ?st obus None" by (force simp: av1_packed_def)
    from "1.IH"(1) [OF refl _ this "1.prems"(2-4)] full p(1) show ?thesis
      by (simp add: step Let_def)
  next
    case fits
    let ?st = "st\<lparr>cur := cur st @ av1_enc rest\<rparr>"
    note r = room [OF fits(1)]
    have l: "length (av1_enc rest) \<le> length rest + 2" using fits r by (intro av1_enc_length) simp
    have "av1_sent ?st part (es @ [rest]) ds"
      using s fits r by (simp add: av1_sent_def)
    moreover have "ds @ merged part (es @ [rest]) = obus @ [(case pend of None \<Rightarrow> [] | Some c \<Rightarrow> c) @ rest]"
      using c by (auto simp: merged_snoc split: option.splits)
    ultimately have "av1_packed m ?st (obus @ [(case pend of None \<Rightarrow> [] | Some c \<Rightarrow> c) @ rest]) None"
      using len l fits r by (auto simp: av1_packed_def)
    moreover have "av1_pack_obu k m rest st = Some ?st" 
      using fits by (auto simp: step Let_def av1_enc_def)
    ultimately show ?thesis using cur by simp
  next
    case split
    let ?e = "take ?room rest"
    let ?st = "st\<lparr>cur := cur st @ av1_enc ?e\<rparr>"
    let ?st' = "(av1_finish k True ?st)\<lparr>cur_z := True\<rparr>"
    note r = room [OF split(1)]
    have l: "length ?e = ?room" "length (av1_enc ?e) \<le> ?room + 2"
      using split r av1_enc_length [of ?e] by auto
    have "av1_sent ?st part (es @ [?e]) ds"
      using s l r by (simp add: av1_sent_def)
    then have "av1_sent ?st' (Some ((case pend of None \<Rightarrow> [] | Some c \<Rightarrow> c) @ ?e)) [] obus"
      using av1_finish_sent [of ?st part "es @ [?e]" ds True k] c "1.prems"(2) 
      by (auto simp: merged_snoc split: option.splits)
    moreover have "length (cur ?st') \<le> m" using "1.prems"(3) by (simp add: av1_finish_def Let_def)
    moreover have "\<forall>p \<in> set (packets ?st'). length p \<le> m"
      using av1_finish_length [of ?st m k True] len l r cur by simp
    ultimately have "av1_packed m ?st' obus (Some ((case pend of None \<Rightarrow> [] | Some c \<Rightarrow> c) @ ?e))" by (force simp: av1_packed_def)
    moreover have "av1_pack_obu k m rest st = av1_pack_obu k m (drop ?room rest) ?st'"
      using split r(1) by (subst step) (auto simp: Let_def av1_enc_def)
    ultimately show ?thesis
      using "1.IH"(2) [OF refl split _ _ "1.prems"(2-4), of "Some ((case pend of None \<Rightarrow> [] | Some c \<Rightarrow> c) @ ?e)"] split(2) r(1)
      by (simp add: av1_enc_def)
  qed
qed


lemma av1_pack_packed:
  assumes "av1_packed m st packed None" "list_all emits (packed @ obus)" "64 \<le> m" "m \<le> 16386"
    "obus \<noteq> [] \<or> length (cur st) > 1"
  shows "\<exists>st'. av1_pack k m obus st = Some st' \<and> length (cur st') > 1 \<and> av1_packed m st' (packed @ obus) None"
  using assms
proof (induction obus arbitrary: st packed)
  case (Cons obu obus)
  obtain st' where "av1_pack_obu k m obu st = Some st'" "length (cur st') > 1" "av1_packed m st' (packed @ [obu]) None"
    using av1_pack_obu_packed [OF Cons.prems(1) _ Cons.prems(3,4), of k obu] Cons.prems(2) by auto
  with Cons.IH [of st' "packed @ [obu]"] Cons.prems(2-4) show ?case by auto
qed auto

lemma collect_obus_emits: "collect_obus tu off = Inr obus \<Longrightarrow> list_all emits obus"
proof (induction tu off arbitrary: obus rule: collect_obus.induct)
  case (1 tu off)
  have h: "obu_header_len (b AND NOT 2) = obu_header_len b" for b :: u8
    by (simp add: obu_header_len_def and.assoc)
  have e: "obu_header_len b = 2 \<Longrightarrow> emits ((b AND NOT 2) # x # ys)"
    "obu_header_len b \<noteq> 2 \<Longrightarrow> emits ((b AND NOT 2) # ys)" for b x ys
    unfolding emits_def nth_Cons_0 h by (simp_all add: obu_header_len_def split: if_splits)
  show ?case
    using 1 e by (auto simp: collect_obus.simps [of tu off] Let_def map_sum_def split: if_splits option.splits sum.splits prod.splits)
qed

lemma av1_roundtrip:
  assumes "collect_obus tu 0 = Inr obus" "obus \<noteq> []" "64 \<le> m" "m \<le> 16386"
  shows "\<exists>ps. av1_packetize tu k m = Some (Inr ps) \<and> av1_depacketize ps = Inr (concat (map emitted obus)) \<and> ps \<noteq> [] \<and>
    (\<forall>p \<in> set ps. length p \<le> m)"
proof -
  let ?st = "\<lparr>cur = [0], cur_z = False, first_packet = True, packets = []\<rparr>"
  have ok: "list_all emits obus" using assms(1) by (rule collect_obus_emits)
  have "av1_sent ?st None [] []" by (simp add: av1_sent_def)
  then have "av1_packed m ?st [] None"
    using assms(3) by (auto simp: av1_packed_def intro!: exI [of _ None] exI [of _ "[]"])
  then obtain st where st: "av1_pack k m obus ?st = Some st" "length (cur st) > 1" "av1_packed m st obus None"
    using av1_pack_packed [of m ?st "[]" obus k] assms(2-4) ok by auto
  then obtain part es ds where s: "av1_sent st part es ds" "ds @ merged part es = obus"
    and len: "length (cur st) \<le> m" "\<forall>p \<in> set (packets st). length p \<le> m"
    by (auto simp: av1_packed_def)
  have es: "es \<noteq> []" using st(2) s(1) by (auto simp: av1_sent_def)
  let ?f = "av1_finish k False st"
  have "av1_sent (?f\<lparr>cur_z := False\<rparr>) None [] obus"
    using av1_finish_sent [OF s(1) es, of False k] s(2) ok by auto
  then have "av1_depacketize (packets ?f) = Inr (concat (map emitted obus))"
    by (simp add: av1_sent_def av1_depacketize_def)
  moreover have "av1_packetize tu k m = Some (Inr (packets ?f))"
    using assms(1,2) st(1,2) by (simp add: av1_packetize_def)
  moreover have "packets ?f \<noteq> []" by (simp add: av1_finish_def Let_def)
  moreover have "\<forall>p \<in> set (packets ?f). length p \<le> m"
    using av1_finish_length [OF len(1) _ len(2), of k False] st(2) by (cases "cur st") auto
  ultimately show ?thesis by blast
qed

section \<open>Start codes\<close>

definition start_code_at :: "bytes \<Rightarrow> nat \<Rightarrow> bool" where
  "start_code_at d i \<longleftrightarrow> i + 2 < length d \<and> d ! i = 0 \<and> d ! (i + 1) = 0 \<and> d ! (i + 2) = 1"

text \<open>A NAL unit that a start code can delimit: it does not end in zero and holds no start code.\<close>

definition nal_clean :: "bytes \<Rightarrow> bool" where
  "nal_clean nal \<longleftrightarrow> nal \<noteq> [] \<and> last nal \<noteq> 0 \<and> list_all (\<lambda>i. \<not> start_code_at nal i) [0..<length nal]"

lemma annexb_at_end:
  "\<not> i + 2 < length d \<Longrightarrow> annexb_loop d i start units =
     (case start of None \<Rightarrow> units | Some s \<Rightarrow> if s < length d then units @ [drop s d] else units)"
  by (simp add: annexb_loop.simps)

lemma annexb_step: "\<not> start_code_at d i \<Longrightarrow> annexb_loop d i start units = annexb_loop d (i + 1) start units"
  by (cases "i + 2 < length d") (auto simp: annexb_loop.simps [of d i] annexb_at_end start_code_at_def)

lemma annexb_found:
  "start_code_at d i \<Longrightarrow> s < i - 1 \<Longrightarrow> d ! (i - 1) = 0 \<Longrightarrow>
     annexb_loop d i (Some s) units = annexb_loop d (i + 3) (Some (i + 3)) (units @ [take (i - 1 - s) (drop s d)])"
  by (subst annexb_loop.simps) (auto simp: start_code_at_def Let_def)

lemma annexb_skip:
  assumes "\<And>k. i \<le> k \<Longrightarrow> k < j \<Longrightarrow> \<not> start_code_at d k" "i \<le> j"
  shows "annexb_loop d i start units = annexb_loop d j start units"
  using assms
proof (induction "j - i" arbitrary: i)
  case (Suc n)
  have "annexb_loop d (i + 1) start units = annexb_loop d j start units"
    using Suc by auto
  moreover have "\<not> start_code_at d i"
    using Suc.prems(1) [of i] Suc.hyps(2) by simp
  ultimately show ?case by (simp add: annexb_step)
qed simp

lemma start_code_at_shift: "start_code_at (pre @ d) (length pre + j) \<longleftrightarrow> start_code_at d j"
  by (auto simp: start_code_at_def nth_append add.assoc)

lemma nal_clean_last: "nal_clean nal \<Longrightarrow> Suc j = length nal \<Longrightarrow> nal ! j \<noteq> 0"
  by (auto simp: nal_clean_def last_conv_nth dest!: arg_cong [of "Suc j" _ "\<lambda>n. n - 1"])

lemma nal_clean_inside: "nal_clean nal \<Longrightarrow> \<not> start_code_at nal j"
  by (cases "j < length nal") (auto simp: nal_clean_def list_all_iff start_code_at_def)

lemma nal_clean_before_start_code:
  assumes "nal_clean nal" "j \<le> length nal"
  shows "\<not> start_code_at (nal @ START_CODE @ post) j"
proof -
  consider "j + 2 < length nal" | "Suc (j + 1) = length nal" | "Suc j = length nal" | "j = length nal"
    using assms(2) by linarith
  then show ?thesis
  proof cases
    case 1
    then show ?thesis using nal_clean_inside [OF assms(1), of j] by (auto simp: start_code_at_def nth_append)
  next
    case 2
    then show ?thesis using nal_clean_last [OF assms(1), of "j + 1"] by (auto simp: start_code_at_def nth_append)
  next
    case 3
    then show ?thesis using nal_clean_last [OF assms(1), of j] by (auto simp: start_code_at_def nth_append)
  qed (auto simp: start_code_at_def START_CODE_def nth_append)
qed

lemma annexb_last:
  assumes "nal_clean nal"
  shows "annexb_loop (pre @ nal) (length pre) (Some (length pre)) units = units @ [nal]"
proof -
  let ?d = "pre @ nal"
  have "annexb_loop ?d (length pre) (Some (length pre)) units = annexb_loop ?d (length ?d) (Some (length pre)) units"
    using assms by (intro annexb_skip) (auto simp: le_iff_add start_code_at_shift nal_clean_inside)
  also have "\<dots> = units @ [nal]"
    using assms by (simp add: annexb_loop.simps nal_clean_def)
  finally show ?thesis .
qed

lemma annexb_next:
  assumes "nal_clean nal"
  shows "annexb_loop (pre @ nal @ START_CODE @ post) (length pre) (Some (length pre)) units =
    annexb_loop (pre @ nal @ START_CODE @ post) (length (pre @ nal @ START_CODE)) (Some (length (pre @ nal @ START_CODE))) (units @ [nal])"
proof -
  let ?d = "pre @ nal @ START_CODE @ post"
  let ?i = "length pre + (length nal + 1)"
  have "annexb_loop ?d (length pre) (Some (length pre)) units = annexb_loop ?d ?i (Some (length pre)) units"
    using assms by (intro annexb_skip) (auto simp: le_iff_add start_code_at_shift less_Suc_eq_le nal_clean_before_start_code)
  also have "\<dots> = annexb_loop ?d (?i + 3) (Some (?i + 3)) (units @ [take (?i - 1 - length pre) (drop (length pre) ?d)])"
  proof (rule annexb_found)
    show "start_code_at ?d ?i"
      unfolding start_code_at_shift by (simp add: start_code_at_def START_CODE_def nth_append)
    show "length pre < ?i - 1" using assms by (simp add: nal_clean_def)
    show "?d ! (?i - 1) = 0" by (simp add: START_CODE_def nth_append)
  qed
  also have "take (?i - 1 - length pre) (drop (length pre) ?d) = nal" by simp
  also have "?i + 3 = length (pre @ nal @ START_CODE)" by (simp add: START_CODE_def)
  finally show ?thesis .
qed

lemma annexb_units:
  assumes "nal_clean nal" "list_all nal_clean nals"
  shows "annexb_loop (pre @ nal @ concat (map ((@) START_CODE) nals)) (length pre) (Some (length pre)) units = units @ nal # nals"
  using assms
proof (induction nals arbitrary: pre nal units)
  case (Cons x nals)
  then show ?case
    using annexb_next [of nal pre "x @ concat (map ((@) START_CODE) nals)"] Cons.IH [of x "pre @ nal @ START_CODE" "units @ [nal]"]
    by simp
qed (simp add: annexb_last)

lemma annexb_nal_units_concat:
  assumes "list_all nal_clean nals"
  shows "annexb_nal_units (concat (map ((@) START_CODE) nals)) = nals"
proof (cases nals)
  case Nil
  then show ?thesis by (simp add: annexb_nal_units_def annexb_loop.simps)
next
  case (Cons x xs)
  let ?d = "START_CODE @ x @ concat (map ((@) START_CODE) xs)"
  have "annexb_loop ?d 0 None [] = annexb_loop ?d 1 None []"
    by (simp add: annexb_loop.simps [of _ 0] START_CODE_def)
  also have "\<dots> = annexb_loop ?d 4 (Some 4) []"
    by (simp add: annexb_loop.simps [of _ 1] annexb_loop.simps [of _ "Suc 0"] START_CODE_def)
  also have "\<dots> = nals"
    using annexb_units [of x xs START_CODE "[]"] assms by (simp add: Cons START_CODE_def eval_nat_numeral)
  finally show ?thesis by (simp add: annexb_nal_units_def Cons)
qed

section \<open>Round trips\<close>

text \<open>
  What a codec can carry, and what comes back: the NAL units behind start codes of four octets, the OBUs with
  size fields and without temporal delimiters, VP8 and VP9 frames as they are.
\<close>

fun packable :: "VideoCodec \<Rightarrow> bytes \<Rightarrow> bool" where
  "packable H264 d \<longleftrightarrow> annexb_nal_units d \<noteq> [] \<and> list_all h264_ok (annexb_nal_units d)"
| "packable H265 d \<longleftrightarrow> annexb_nal_units d \<noteq> [] \<and> list_all h265_ok (annexb_nal_units d)"
| "packable VP8 d \<longleftrightarrow> d \<noteq> []"
| "packable VP9 d \<longleftrightarrow> d \<noteq> []"
| "packable AV1 d \<longleftrightarrow> (case collect_obus d 0 of Inl e \<Rightarrow> False | Inr obus \<Rightarrow> obus \<noteq> [])"

fun canonical_frame :: "VideoCodec \<Rightarrow> bytes \<Rightarrow> bytes" where
  "canonical_frame H264 d = concat (map ((@) START_CODE) (annexb_nal_units d))"
| "canonical_frame H265 d = concat (map ((@) START_CODE) (annexb_nal_units d))"
| "canonical_frame VP8 d = d"
| "canonical_frame VP9 d = d"
| "canonical_frame AV1 d = (case collect_obus d 0 of Inl e \<Rightarrow> [] | Inr obus \<Rightarrow> concat (map emitted obus))"

lemma payload_loop_not_Nil: "payload_loop one ps f = Inr (out, g) \<Longrightarrow> out \<noteq> [] \<Longrightarrow> ps \<noteq> []"
  by (cases ps) auto

lemma h264_roundtrip:
  assumes "packable H264 d" "3 \<le> m"
  shows "\<exists>ps. h264_packetize d m = Inr ps \<and> h264_depacketize ps = Inr (canonical_frame H264 d) \<and> ps \<noteq> [] \<and>
    (\<forall>p \<in> set ps. length p \<le> m)"
proof -
  let ?ps = "concat (map (h264_nal_payloads m) (annexb_nal_units d))"
  have out: "payload_loop h264_payload ?ps False = Inr (canonical_frame H264 d, False)"
    using h264.units_roundtrip [of "annexb_nal_units d" m] assms by simp
  moreover have "canonical_frame H264 d \<noteq> []"
    using assms(1) by (cases "annexb_nal_units d") (auto simp: START_CODE_def)
  ultimately have "?ps \<noteq> []" by (rule payload_loop_not_Nil)
  moreover have "\<forall>p \<in> set ?ps. length p \<le> m"
    using h264.unit_payload_length assms(2) by auto
  moreover have "h264_packetize d m = Inr ?ps"
    using assms(1) by (simp add: h264_packetize_def Let_def)
  moreover have "h264_depacketize ?ps = Inr (canonical_frame H264 d)"
    by (simp only: h264_depacketize_def out) simp
  ultimately show ?thesis by blast
qed

lemma h265_roundtrip:
  assumes "packable H265 d" "4 \<le> m"
  shows "\<exists>ps. h265_packetize d m = Inr ps \<and> h265_depacketize ps = Inr (canonical_frame H265 d) \<and> ps \<noteq> [] \<and>
    (\<forall>p \<in> set ps. length p \<le> m)"
proof -
  let ?ps = "concat (map (h265_nal_payloads m) (annexb_nal_units d))"
  have out: "payload_loop h265_payload ?ps False = Inr (canonical_frame H265 d, False)"
    using h265.units_roundtrip [of "annexb_nal_units d" m] assms by simp
  moreover have "canonical_frame H265 d \<noteq> []"
    using assms(1) by (cases "annexb_nal_units d") (auto simp: START_CODE_def)
  ultimately have "?ps \<noteq> []" by (rule payload_loop_not_Nil)
  moreover have "\<forall>p \<in> set ?ps. length p \<le> m"
    using h265.unit_payload_length assms(2) by auto
  moreover have "\<not> list_ex (\<lambda>nal. length nal < 2) (annexb_nal_units d)"
    using assms(1) by (auto simp: list_ex_iff list_all_iff h265_ok_def)
  then have "h265_packetize d m = Inr ?ps"
    using assms(1) by (simp add: h265_packetize_def Let_def)
  moreover have "h265_depacketize ?ps = Inr (canonical_frame H265 d)"
    by (simp only: h265_depacketize_def out) simp
  ultimately show ?thesis by blast
qed

lemma video_payload_frame:
  assumes "packable codec (cf_data frame)" "max_payload \<le> 16386"
  shows "\<exists>ps. packetize codec frame max_payload = Some (Inr ps) \<and>
    depacketize codec ps = Inr (canonical_frame codec (cf_data frame)) \<and>
    ps \<noteq> [] \<and> (\<forall>p \<in> set ps. length p \<le> max max_payload 64)"
proof (cases codec)
  case H264
  then show ?thesis using h264_roundtrip [of "cf_data frame" "max max_payload 64"] assms by (auto simp: packetize_def)
next
  case H265
  then show ?thesis using h265_roundtrip [of "cf_data frame" "max max_payload 64"] assms by (auto simp: packetize_def)
next
  case VP8
  then show ?thesis using vp8_roundtrip [of "cf_data frame" "max max_payload 64"] assms by (auto simp: packetize_def)
next
  case VP9
  then show ?thesis using vp9_roundtrip [of "cf_data frame" "max max_payload 64"] assms by (auto simp: packetize_def)
next
  case AV1
  then obtain obus where "collect_obus (cf_data frame) 0 = Inr obus" "obus \<noteq> []"
    using assms(1) by (auto split: sum.splits)
  with AV1 show ?thesis
    using av1_roundtrip [of "cf_data frame" obus "max max_payload 64"] assms(2) by (auto simp: packetize_def)
qed

text \<open>
  C11. Frames survive RTP in every codec. Packetizing a frame of NAL units that may be sent alone (H.264, H.265),
  a non-empty frame (VP8, VP9) or a temporal unit with an OBU (AV1) ends, gives payloads of at most
  \<^verbatim>\<open>max_payload\<close> octets (raised to 64), and depacketizing them gives the frame back, in the form with
  four-octet start codes, or with size fields and no temporal delimiters. The limit 16386 is where an AV1
  element needs a third octet for its size.
\<close>

theorem video_payload_roundtrip:
  assumes "packable codec (cf_data frame)" "max_payload \<le> 16386"
  shows "\<exists>ps. packetize codec frame max_payload = Some (Inr ps) \<and>
    depacketize codec ps = Inr (canonical_frame codec (cf_data frame)) \<and>
    ps \<noteq> [] \<and> (\<forall>p \<in> set ps. length p \<le> max max_payload 64)"
  by (rule video_payload_frame [OF assms])

theorem video_payload_roundtrip_witness:
  "packable AV1 [0x12, 0x00, 0x0A, 0x02, 0x05, 0x06] \<and>
   (\<exists>ps. packetize AV1 \<lparr>cf_timestamp = 0, cf_keyframe = True, cf_data = [0x12, 0x00, 0x0A, 0x02, 0x05, 0x06]\<rparr> 1200 = Some (Inr ps) \<and>
      depacketize AV1 ps = Inr [0x0A, 0x02, 0x05, 0x06])"
proof -
  let ?f = "\<lparr>cf_timestamp = 0, cf_keyframe = True, cf_data = [0x12, 0x00, 0x0A, 0x02, 0x05, 0x06]\<rparr>"
  have p: "packable AV1 [0x12, 0x00, 0x0A, 0x02, 0x05, 0x06]" by code_simp
  moreover have "canonical_frame AV1 [0x12, 0x00, 0x0A, 0x02, 0x05, 0x06] = [0x0A, 0x02, 0x05, 0x06]" by code_simp
  ultimately show ?thesis
    using video_payload_roundtrip [of AV1 ?f 1200] by auto
qed

text \<open>
  Start codes delimit NAL units: of a stream of non-empty units that do not end in zero and hold no start
  code themselves, each behind a start code of four octets, \<^verbatim>\<open>annexb_nal_units\<close> finds exactly those
  units in order. So the canonical form of such a stream is the stream.
\<close>

theorem annexb_units_exact:
  assumes "list_all nal_clean nals"
  shows "annexb_nal_units (concat (map ((@) START_CODE) nals)) = nals \<and>
    canonical_frame H264 (concat (map ((@) START_CODE) nals)) = concat (map ((@) START_CODE) nals)"
  using annexb_nal_units_concat [OF assms] by simp

theorem annexb_units_exact_witness:
  "list_all nal_clean [[0x67, 0, 0, 2], [0x65, 1]] \<and>
   annexb_nal_units [0, 0, 0, 1, 0x67, 0, 0, 2, 0, 0, 0, 1, 0x65, 1] = [[0x67, 0, 0, 2], [0x65, 1]]"
proof -
  have "list_all nal_clean [[0x67, 0, 0, 2], [0x65, 1]]" by code_simp
  then show ?thesis
    using annexb_units_exact [of "[[0x67, 0, 0, 2], [0x65, 1]]"] by (simp add: START_CODE_def)
qed

section \<open>Key frames\<close>

definition marks :: "VideoCodec \<Rightarrow> bytes list \<Rightarrow> bool list" where
  "marks codec ps = map (\<lambda>p. PayloadInfo_is_keyframe_start (inspect codec p)) ps"

text \<open>Exactly the first packet is marked, when the frame is a key frame.\<close>

definition marked_first :: "bool \<Rightarrow> bool list \<Rightarrow> bool" where
  "marked_first key ms \<longleftrightarrow> ms = (case ms of [] \<Rightarrow> [] | m # rest \<Rightarrow> key # replicate (length rest) False)"

lemma replicate_False: "ms = replicate (length ms) False \<longleftrightarrow> (\<forall>x \<in> set ms. \<not> x)"
  by (induction ms) auto

lemma marked_first_Cons: "marked_first key (m # ms) \<longleftrightarrow> m = key \<and> (\<forall>x \<in> set ms. \<not> x)"
  by (simp add: marked_first_def replicate_False)

lemma marked_first_snoc: "ms \<noteq> [] \<Longrightarrow> marked_first key (ms @ [m]) \<longleftrightarrow> marked_first key ms \<and> \<not> m"
  by (cases ms) (auto simp: marked_first_Cons)

lemma enumerate_later: "(i, part) \<in> set (enumerate (Suc n) parts) \<Longrightarrow> i \<noteq> 0"
  by (auto simp: in_set_enumerate_eq)

lemma marked_first_enumerate:
  assumes "parts \<noteq> []" "PayloadInfo_is_keyframe_start (inspect codec (d 0 # hd parts)) = key"
    "\<And>i part. i \<noteq> 0 \<Longrightarrow> \<not> PayloadInfo_is_keyframe_start (inspect codec (d i # part))"
  shows "marked_first key (marks codec (map (\<lambda>(i, part). d i # part) (enumerate 0 parts)))"
proof (cases parts)
  case (Cons p ps)
  then show ?thesis
    using assms(2,3) by (auto simp: marks_def marked_first_Cons dest!: enumerate_later)
qed (use assms in simp)

lemma vp8_mark: "PayloadInfo_is_keyframe_start (vp8_inspect ((if b then 0x10 else 0x00) # part)) \<longleftrightarrow>
    b \<and> part \<noteq> [] \<and> hd part AND 0x01 = 0"
  by (cases part) (simp_all add: vp8_inspect_def vp8_one_octet PayloadInfo_is_keyframe_start_def PayloadInfo_NONE_def
    get_byte_def Let_def)

lemma vp9_mark: "PayloadInfo_is_keyframe_start (vp9_inspect ((flag a 0x40 OR flag b 0x08 OR flag c 0x04) # part)) \<longleftrightarrow> b \<and> \<not> a"
  by (cases a; cases b; cases c) (simp_all add: vp9_inspect_def PayloadInfo_is_keyframe_start_def get_byte_def flag_def)

lemma av1_mark: "PayloadInfo_is_keyframe_start (av1_inspect (flagged z y k # part)) \<longleftrightarrow> \<not> z \<and> k"
  by (cases z; cases y; cases k) (simp_all add: av1_inspect_def PayloadInfo_is_keyframe_start_def get_byte_def flagged_def flag_def)

definition av1_marked :: "bool \<Rightarrow> av1_packer \<Rightarrow> bool" where
  "av1_marked k st \<longleftrightarrow> (first_packet st \<longleftrightarrow> packets st = []) \<and> (first_packet st \<longrightarrow> \<not> cur_z st) \<and>
     marked_first k (marks AV1 (packets st)) \<and> (packets st \<noteq> [] \<longrightarrow> frame_start (av1_inspect (hd (packets st))))"

lemma av1_start: "frame_start (av1_inspect (flagged z y k # part)) \<longleftrightarrow> \<not> z"
  by (cases z; cases y; cases k) (simp_all add: av1_inspect_def get_byte_def flagged_def flag_def)

lemma av1_finish_marked: "av1_marked k st \<Longrightarrow> av1_marked k ((av1_finish k y st)\<lparr>cur_z := z\<rparr>)"
  using av1_mark [of "cur_z st" y "first_packet st \<and> k" "tl (cur st)"]
    av1_start [of "cur_z st" y "first_packet st \<and> k" "tl (cur st)"]
  by (cases "packets st = []")
    (auto simp: av1_marked_def av1_finish_def Let_def marks_def marked_first_snoc marked_first_Cons flagged_def)

lemma av1_marked_cur: "av1_marked k (st\<lparr>cur := c\<rparr>) = av1_marked k st"
  by (simp add: av1_marked_def)

lemma av1_pack_obu_marked: "av1_pack_obu k m rest st = Some st' \<Longrightarrow> av1_marked k st \<Longrightarrow> av1_marked k st'"
proof (induction k m rest st rule: av1_pack_obu.induct)
  case (1 k m rest st)
  have "av1_marked k ((av1_finish k y (st\<lparr>cur := c\<rparr>))\<lparr>cur_z := z\<rparr>)" for c y z
    using "1.prems"(2) by (simp add: av1_finish_marked av1_marked_cur)
  moreover have "av1_marked k ((av1_finish k y st)\<lparr>cur_z := z\<rparr>)" for y z
    using "1.prems"(2) by (rule av1_finish_marked)
  ultimately show ?case
    using 1 by (auto simp: av1_pack_obu.simps [of k m rest st] Let_def av1_marked_cur split: if_splits)
qed

lemma av1_pack_marked: "av1_pack k m obus st = Some st' \<Longrightarrow> av1_marked k st \<Longrightarrow> av1_marked k st'"
  by (induction obus arbitrary: st) (auto simp: bind_eq_Some_conv dest: av1_pack_obu_marked)

text \<open>
  How the payloads of a NAL unit look: a fragment is a start or a key where it begins such a unit.
\<close>

locale nal_inspection = nal_format +
  fixes look :: "bytes \<Rightarrow> PayloadInfo"
    and starts :: "bytes \<Rightarrow> bool"
    and key :: "bytes \<Rightarrow> bool"
  assumes look_single: "ok nal \<Longrightarrow> look nal = \<lparr>frame_start = starts nal, info_keyframe = key nal\<rparr>"
    and look_hdr: "ok nal \<Longrightarrow> look (hdr nal s e @ part) = \<lparr>frame_start = (s \<and> starts nal), info_keyframe = (s \<and> key nal)\<rparr>"
begin

lemma unit_looks:
  assumes "ok nal" "hl + 2 \<le> m"
  shows "unit_payloads m nal \<noteq> []" "frame_start (look (hd (unit_payloads m nal))) = starts nal"
    "list_ex (\<lambda>p. info_keyframe (look p)) (unit_payloads m nal) = key nal"
proof -
  have "unit_payloads m nal \<noteq> [] \<and> frame_start (look (hd (unit_payloads m nal))) = starts nal \<and>
    list_ex (\<lambda>p. info_keyframe (look p)) (unit_payloads m nal) = key nal"
  proof (cases "length nal \<le> m")
    case True
    then show ?thesis using assms(1) by (simp add: payloads look_single)
  next
    case False
    let ?k = "m - (hl + 1)"
    have "chunks ?k (drop hl nal) \<noteq> []" using False assms(2) by (intro chunks_not_Nil) auto
    then obtain c cs where "chunks ?k (drop hl nal) = c # cs" by (cases "chunks ?k (drop hl nal)") auto
    moreover have "max ?k 1 = ?k" using assms(2) by simp
    ultimately show ?thesis
      using False assms(1)
      by (auto simp: payloads fragment_def Let_def look_hdr list_ex_iff dest!: enumerate_later)
  qed
  then show "unit_payloads m nal \<noteq> []" "frame_start (look (hd (unit_payloads m nal))) = starts nal"
    "list_ex (\<lambda>p. info_keyframe (look p)) (unit_payloads m nal) = key nal"
    by blast+
qed

lemma units_look:
  assumes "list_all ok nals" "hl + 2 \<le> m" "nals \<noteq> []"
  shows "frame_start (look (hd (concat (map (unit_payloads m) nals)))) = starts (hd nals)"
    "list_ex (\<lambda>p. info_keyframe (look p)) (concat (map (unit_payloads m) nals)) = list_ex key nals"
proof -
  show "frame_start (look (hd (concat (map (unit_payloads m) nals)))) = starts (hd nals)"
    using assms unit_looks [of "hd nals" m] by (cases nals) auto
  show "list_ex (\<lambda>p. info_keyframe (look p)) (concat (map (unit_payloads m) nals)) = list_ex key nals"
    using assms(1)
  proof (induction nals)
    case (Cons nal nals)
    then show ?case using unit_looks(3) [of nal m] assms(2) by simp
  qed simp
qed

end

definition h264_starts :: "bytes \<Rightarrow> bool" where
  "h264_starts nal = h264_nal_starts_frame (nal ! 0 AND 0x1F)"

definition h264_key :: "bytes \<Rightarrow> bool" where
  "h264_key nal = h264_nal_is_key (nal ! 0 AND 0x1F)"

lemma h264_octets_type: "(flag s 0x80 OR flag e 0x40 OR (h AND 0x1F)) AND 0x1F = (h AND 0x1F :: u8)"
  by (simp add: octet_algebra)

interpretation h264_look: nal_inspection h264_payload h264_hdr 1 h264_ok h264_nal_payloads h264_inspect h264_starts h264_key
proof
  fix nal part s e
  assume ok: "h264_ok nal"
  then show "h264_inspect nal = \<lparr>frame_start = h264_starts nal, info_keyframe = h264_key nal\<rparr>"
    by (auto simp: h264_inspect_def h264_ok_def h264_starts_def h264_key_def Let_def)
  show "h264_inspect (h264_hdr nal s e @ part) = \<lparr>frame_start = (s \<and> h264_starts nal), info_keyframe = (s \<and> h264_key nal)\<rparr>"
    using h264_octets(1) [of "nal ! 0"] h264_octets(3) [where h = "nal ! 0" and s = s and e = e] h264_octets_type [of s e "nal ! 0"]
    by (simp add: h264_inspect_def h264_hdr_def h264_starts_def h264_key_def Let_def)
qed

definition h265_starts :: "bytes \<Rightarrow> bool" where
  "h265_starts nal = h265_nal_starts_frame (h265_nal_type (nal ! 0))"

definition h265_key :: "bytes \<Rightarrow> bool" where
  "h265_key nal = h265_nal_is_key (h265_nal_type (nal ! 0))"

interpretation h265_look: nal_inspection h265_payload h265_hdr 2 h265_ok h265_nal_payloads h265_inspect h265_starts h265_key
proof
  fix nal part s e
  assume ok: "h265_ok nal"
  then show "h265_inspect nal = \<lparr>frame_start = h265_starts nal, info_keyframe = h265_key nal\<rparr>"
    by (auto simp: h265_inspect_def h265_ok_def h265_starts_def h265_key_def Let_def)
  have "(flag s 0x80 OR flag e 0x40 OR h265_nal_type (nal ! 0)) AND 0x3F = h265_nal_type (nal ! 0)"
    by (simp add: octet_algebra h265_type_and)
  then show "h265_inspect (h265_hdr nal s e @ part) = \<lparr>frame_start = (s \<and> h265_starts nal), info_keyframe = (s \<and> h265_key nal)\<rparr>"
    using h265_octets(1) [of "nal ! 0"] h265_octets(3) [where h = "nal ! 0" and s = s and e = e]
    by (simp add: h265_inspect_def h265_hdr_def h265_starts_def h265_key_def Let_def)
qed

text \<open>
  Whether a frame is a key frame and begins in a way the receiver recognises: by its NAL units, by the frame
  header of VP8, by what the encoder says for VP9 and AV1.
\<close>

fun frame_is_key :: "VideoCodec \<Rightarrow> CodedFrame \<Rightarrow> bool" where
  "frame_is_key H264 frame \<longleftrightarrow> list_ex h264_key (annexb_nal_units (cf_data frame))"
| "frame_is_key H265 frame \<longleftrightarrow> list_ex h265_key (annexb_nal_units (cf_data frame))"
| "frame_is_key VP8 frame \<longleftrightarrow> hd (cf_data frame) AND 0x01 = 0"
| "frame_is_key _ frame \<longleftrightarrow> cf_keyframe frame"

fun frame_begins :: "VideoCodec \<Rightarrow> bytes \<Rightarrow> bool" where
  "frame_begins H264 d \<longleftrightarrow> h264_starts (hd (annexb_nal_units d))"
| "frame_begins H265 d \<longleftrightarrow> h265_starts (hd (annexb_nal_units d))"
| "frame_begins _ d \<longleftrightarrow> True"

lemma av1_packetize_marked:
  assumes "av1_packetize d k m = Some (Inr ps)"
  shows "marked_first k (marks AV1 ps)" "ps \<noteq> [] \<Longrightarrow> frame_start (av1_inspect (hd ps))"
proof -
  let ?st = "\<lparr>cur = [0], cur_z = False, first_packet = True, packets = []\<rparr>"
  obtain obus st where st: "av1_pack k m obus ?st = Some st"
    "ps = packets (if length (cur st) > 1 then av1_finish k False st else st)"
    using assms by (auto simp: av1_packetize_def split: sum.splits if_splits)
  have "av1_marked k ?st" by (simp add: av1_marked_def marks_def marked_first_def)
  then have "av1_marked k st" using av1_pack_marked st(1) by blast
  then show "marked_first k (marks AV1 ps)" "ps \<noteq> [] \<Longrightarrow> frame_start (av1_inspect (hd ps))"
    using av1_finish_marked [of k st False False] by (auto simp: st(2) av1_marked_def split: if_splits)
qed

lemma hd_chunks: "xs \<noteq> [] \<Longrightarrow> 0 < k \<Longrightarrow> hd (chunks k xs) \<noteq> [] \<and> hd (hd (chunks k xs)) = hd xs"
  by (simp add: chunks_step)

lemma vp8_packetize_marked:
  assumes "vp8_packetize d m = Inr ps" "2 \<le> m"
  shows "marked_first (hd d AND 0x01 = 0) (marks VP8 ps)"
proof -
  have d: "d \<noteq> []" "ps = map (\<lambda>(i, part). (if i = 0 then 0x10 else 0x00) # part) (enumerate 0 (chunks (m - 1) d))"
    using assms(1) by (auto simp: vp8_packetize_def split: if_splits)
  show ?thesis
    unfolding d(2) using d(1) assms(2) hd_chunks [of d "m - 1"] vp8_mark [of True] vp8_mark [of False]
    by (intro marked_first_enumerate [where d = "\<lambda>i. if i = 0 then 0x10 else 0x00"] chunks_not_Nil) simp_all
qed

lemma vp9_packetize_marked:
  assumes "vp9_packetize d k m = Inr ps" "2 \<le> m"
  shows "marked_first k (marks VP9 ps)"
proof -
  let ?h = "\<lambda>i. flag (\<not> k) 0x40 OR flag (i = 0) 0x08 OR flag (i = div_ceil (length d) (m - 1) - 1) 0x04"
  have d: "d \<noteq> []" "ps = map (\<lambda>(i, part). ?h i # part) (enumerate 0 (chunks (m - 1) d))"
    using assms(1) by (auto simp: vp9_packetize_def Let_def split: if_splits)
  show ?thesis
    unfolding d(2) using d(1) assms(2)
    by (intro marked_first_enumerate [where d = ?h] chunks_not_Nil) (simp_all only: inspect.simps vp9_mark, simp_all)
qed

lemma marked_first_key:
  assumes "marked_first key (marks codec ps)" "ps \<noteq> []"
    "\<And>p. info_keyframe (inspect codec p) \<Longrightarrow> frame_start (inspect codec p)"
  shows "list_ex (\<lambda>p. info_keyframe (inspect codec p)) ps = key"
proof -
  have "info_keyframe (inspect codec p) = PayloadInfo_is_keyframe_start (inspect codec p)" for p
    using assms(3) [of p] by (auto simp: PayloadInfo_is_keyframe_start_def)
  then have "list_ex (\<lambda>p. info_keyframe (inspect codec p)) ps = list_ex id (marks codec ps)"
    by (simp add: marks_def list_ex_iff)
  also have "\<dots> = key" using assms(1,2) by (cases ps) (auto simp: marks_def marked_first_Cons list_ex_iff)
  finally show ?thesis .
qed

lemma optional_info_key:
  "info_keyframe (case x of None \<Rightarrow> PayloadInfo_NONE | Some z \<Rightarrow> \<lparr>frame_start = f z, info_keyframe = (f z \<and> g z)\<rparr>) \<Longrightarrow>
     frame_start (case x of None \<Rightarrow> PayloadInfo_NONE | Some z \<Rightarrow> \<lparr>frame_start = f z, info_keyframe = (f z \<and> g z)\<rparr>)"
  by (cases x) (simp_all add: PayloadInfo_NONE_def)

lemma vp_key_starts:
  "info_keyframe (vp8_inspect p) \<Longrightarrow> frame_start (vp8_inspect p)"
  "info_keyframe (vp9_inspect p) \<Longrightarrow> frame_start (vp9_inspect p)"
  "info_keyframe (av1_inspect p) \<Longrightarrow> frame_start (av1_inspect p)"
proof -
  show "info_keyframe (vp8_inspect p) \<Longrightarrow> frame_start (vp8_inspect p)"
    "info_keyframe (av1_inspect p) \<Longrightarrow> frame_start (av1_inspect p)"
    unfolding vp8_inspect_def av1_inspect_def Let_def by (erule optional_info_key)+
  show "info_keyframe (vp9_inspect p) \<Longrightarrow> frame_start (vp9_inspect p)"
  proof (cases "get_byte p 0")
    case (Some b)
    show "info_keyframe (vp9_inspect p) \<Longrightarrow> frame_start (vp9_inspect p)"
      unfolding vp9_inspect_def Let_def Some option.case conj_assoc [symmetric] by (erule optional_info_key)
  qed (simp add: vp9_inspect_def PayloadInfo_NONE_def)
qed

lemma hd_enumerate: "parts \<noteq> [] \<Longrightarrow> hd (map (\<lambda>(i, part). d i # part) (enumerate 0 parts)) = d 0 # hd parts"
  by (cases parts) auto

lemma vp_first_starts:
  "vp8_packetize d m = Inr ps \<Longrightarrow> 2 \<le> m \<Longrightarrow> frame_start (vp8_inspect (hd ps))"
  "vp9_packetize d k m = Inr ps \<Longrightarrow> 2 \<le> m \<Longrightarrow> frame_start (vp9_inspect (hd ps))"
proof -
  assume a: "vp8_packetize d m = Inr ps" "2 \<le> m"
  then have "hd ps = 0x10 # hd (chunks (m - 1) d)"
    using hd_enumerate [of "chunks (m - 1) d" "\<lambda>i. if i = 0 then 0x10 else 0x00"] chunks_not_Nil [of d "m - 1"]
    by (auto simp: vp8_packetize_def split: if_splits)
  then show "frame_start (vp8_inspect (hd ps))"
    using vp8_one_octet [of True] by (simp add: vp8_inspect_def Let_def)
next
  let ?h = "\<lambda>i. flag (\<not> k) 0x40 OR flag (i = 0) 0x08 OR flag (i = div_ceil (length d) (m - 1) - 1) 0x04"
  assume a: "vp9_packetize d k m = Inr ps" "2 \<le> m"
  then have "hd ps = ?h 0 # hd (chunks (m - 1) d)"
    using hd_enumerate [of "chunks (m - 1) d" ?h] chunks_not_Nil [of d "m - 1"]
    by (auto simp: vp9_packetize_def Let_def split: if_splits)
  then show "frame_start (vp9_inspect (hd ps))"
    by (cases k; cases "0 = div_ceil (length d) (m - 1) - 1") (simp_all add: vp9_inspect_def get_byte_def flag_def)
qed

lemma packetize_first_starts:
  assumes "packable codec (cf_data frame)" "frame_begins codec (cf_data frame)" "ps \<noteq> []"
    "packetize codec frame max_payload = Some (Inr ps)"
  shows "frame_start (inspect codec (hd ps))"
  using assms h264_look.units_look(1) [of "annexb_nal_units (cf_data frame)" "max max_payload 64"]
    h265_look.units_look(1) [of "annexb_nal_units (cf_data frame)" "max max_payload 64"]
    vp_first_starts av1_packetize_marked(2)
  by (cases codec) (auto simp: packetize_def h264_packetize_def h265_packetize_def Let_def split: if_splits)

lemma packetize_key:
  assumes "packable codec (cf_data frame)" "packetize codec frame max_payload = Some (Inr ps)" "ps \<noteq> []"
  shows "list_ex (\<lambda>p. info_keyframe (inspect codec p)) ps = frame_is_key codec frame"
proof (cases "codec \<in> {VP8, VP9, AV1}")
  case True
  then have "marked_first (frame_is_key codec frame) (marks codec ps)"
    using assms(2) vp8_packetize_marked vp9_packetize_marked av1_packetize_marked(1) by (auto simp: packetize_def)
  moreover have "info_keyframe (inspect codec p) \<Longrightarrow> frame_start (inspect codec p)" for p
    using True vp_key_starts [of p] by auto
  ultimately show ?thesis using assms(3) by (intro marked_first_key)
next
  case False
  then show ?thesis
    using assms h264_look.units_look(2) [of "annexb_nal_units (cf_data frame)" "max max_payload 64"]
      h265_look.units_look(2) [of "annexb_nal_units (cf_data frame)" "max max_payload 64"]
    by (cases codec) (auto simp: packetize_def h264_packetize_def h265_packetize_def Let_def split: if_splits)
qed

text \<open>
  Key frames are recognised where they begin: of the packets a VP8, VP9 or AV1 frame is cut into,
  \<^verbatim>\<open>inspect\<close> takes exactly the first for the start of a key frame, and that only when the frame is one
  (for VP8, by the frame's own header).
\<close>

theorem video_keyframe_marked:
  assumes "codec \<in> {VP8, VP9, AV1}" "packetize codec frame max_payload = Some (Inr ps)"
  shows "marked_first (frame_is_key codec frame) (marks codec ps)"
proof -
  consider "codec = VP8" | "codec = VP9" | "codec = AV1" using assms(1) by blast
  then show ?thesis
    using assms(2) vp8_packetize_marked vp9_packetize_marked av1_packetize_marked
    by cases (auto simp: packetize_def)
qed

theorem video_keyframe_marked_witness:
  "packetize VP9 \<lparr>cf_timestamp = 0, cf_keyframe = True, cf_data = replicate 70 7\<rparr> 64 =
     Some (Inr [0x08 # replicate 63 7, 0x04 # replicate 7 7]) \<and>
   marked_first True (marks VP9 [0x08 # replicate 63 7, 0x04 # replicate 7 7])"
proof -
  let ?f = "\<lparr>cf_timestamp = 0, cf_keyframe = True, cf_data = replicate 70 7\<rparr>"
  have "packetize VP9 ?f 64 = Some (Inr [0x08 # replicate 63 7, 0x04 # replicate 7 7])" by code_simp
  then show ?thesis
    using video_keyframe_marked [of VP9 ?f 64] by simp
qed

end
