(* ===== verification/Video_Assembler.thy ===== *)
theory Video_Assembler
  imports Rtp_Packet Btree_Map Video_Roundtrip
begin

text \<open>
  Frame assembly, \<^verbatim>\<open>crates/forge-rtp/src/video/assembler.rs\<close>: \<^verbatim>\<open>FrameAssembler\<close> puts the packets
  of one source in order, cuts them into frames and reports loss. Events come back as lists, in the order the
  code pushes them. The extended sequence numbers are natural numbers: they start below \<open>2 ^ 17\<close> and grow by
  at most \<open>2 ^ 15\<close> a packet.
\<close>

section \<open>State and operations\<close>

datatype AssemblerEvent = Frame CodedFrame | Lost u16 u16 | Invalid u32 PayloadError

record FrameAssembler =
  fa_codec :: VideoCodec
  max_reorder :: nat
  max_frame_bytes :: nat
  fa_next :: "nat option"
  fa_pending :: "(nat, RtpPacket) btree"
  fa_current :: "RtpPacket list"
  current_bytes :: nat
  current_keyframe :: bool
  skipping :: bool
  needs_keyframe :: bool

definition FrameAssembler_with_limits :: "VideoCodec \<Rightarrow> nat \<Rightarrow> nat \<Rightarrow> FrameAssembler" where
  "FrameAssembler_with_limits codec reorder frame_bytes =
     \<lparr>fa_codec = codec, max_reorder = max reorder 1, max_frame_bytes = frame_bytes, fa_next = None,
      fa_pending = [], fa_current = [], current_bytes = 0, current_keyframe = False, skipping = True,
      needs_keyframe = True\<rparr>"

definition FrameAssembler_new :: "VideoCodec \<Rightarrow> FrameAssembler" where
  "FrameAssembler_new codec = FrameAssembler_with_limits codec 16 (4 * 1024 * 1024)"

definition FrameAssembler_missing :: "FrameAssembler \<Rightarrow> u16 list" where
  "FrameAssembler_missing a =
     (case fa_next a of
        None \<Rightarrow> []
      | Some n \<Rightarrow>
          if fa_pending a = [] then []
          else map of_nat (filter (\<lambda>s. \<not> bt_contains (fa_pending a) s) [n..<fst (last (fa_pending a))]))"

definition drop_current :: "FrameAssembler \<Rightarrow> FrameAssembler" where
  "drop_current a = a\<lparr>fa_current := [], current_bytes := 0, current_keyframe := False\<rparr>"

definition FrameAssembler_reset :: "FrameAssembler \<Rightarrow> FrameAssembler" where
  "FrameAssembler_reset a =
     (drop_current (a\<lparr>fa_next := None, fa_pending := []\<rparr>))\<lparr>skipping := True, needs_keyframe := True\<rparr>"

definition give_up :: "FrameAssembler \<Rightarrow> FrameAssembler" where
  "give_up a = (drop_current a)\<lparr>skipping := True, needs_keyframe := True\<rparr>"

definition codec_needs_frame_start :: "FrameAssembler \<Rightarrow> bool" where
  "codec_needs_frame_start a = True"

definition asm_finish :: "FrameAssembler \<Rightarrow> FrameAssembler \<times> AssemblerEvent list" where
  "asm_finish a =
     (if fa_current a = [] then (a, [])
      else
        let ts = timestamp (header (hd (fa_current a)));
            keyframe = current_keyframe a
        in case depacketize (fa_codec a) (map payload (fa_current a)) of
             Inr d \<Rightarrow>
               (drop_current (if keyframe then a\<lparr>needs_keyframe := False\<rparr> else a),
                [Frame \<lparr>cf_timestamp = ts, cf_keyframe = keyframe, cf_data = d\<rparr>])
           | Inl err \<Rightarrow> (drop_current (a\<lparr>needs_keyframe := True\<rparr>), [Invalid ts err]))"

text \<open>The packet joins the frame in progress, which may end or grow too large.\<close>

definition append_packet :: "PayloadInfo \<Rightarrow> RtpPacket \<Rightarrow> FrameAssembler \<Rightarrow> FrameAssembler \<times> AssemblerEvent list" where
  "append_packet info packet a =
     (let a' = a\<lparr>current_keyframe := (current_keyframe a \<or> info_keyframe info),
                current_bytes := current_bytes a + length (payload packet),
                fa_current := fa_current a @ [packet]\<rparr>
      in if current_bytes a' > max_frame_bytes a'
         then (give_up a', [Invalid (timestamp (header packet)) (Malformed ''frame exceeds size limit'')])
         else if RtpHeader_marker (header packet) then asm_finish a'
         else (a', []))"

text \<open>A new timestamp ends the previous frame even without a marker.\<close>

definition close_previous :: "RtpPacket \<Rightarrow> FrameAssembler \<Rightarrow> FrameAssembler \<times> AssemblerEvent list" where
  "close_previous packet a =
     (if fa_current a \<noteq> [] \<and> timestamp (header (hd (fa_current a))) \<noteq> timestamp (header packet)
      then asm_finish a else (a, []))"

text \<open>Whether the packet is taken: not while skipping to a frame start, nor as the middle of a lost frame.\<close>

definition admit_packet :: "PayloadInfo \<Rightarrow> RtpPacket \<Rightarrow> FrameAssembler \<Rightarrow> FrameAssembler \<times> AssemblerEvent list" where
  "admit_packet info packet a =
     (if skipping a \<and> \<not> frame_start info then (a, [])
      else
        let a' = a\<lparr>skipping := False\<rparr>
        in if fa_current a' = [] \<and> \<not> frame_start info \<and> codec_needs_frame_start a'
           then (a'\<lparr>skipping := True, needs_keyframe := True\<rparr>, [])
           else append_packet info packet a')"

definition consume :: "RtpPacket \<Rightarrow> FrameAssembler \<Rightarrow> FrameAssembler \<times> AssemblerEvent list" where
  "consume packet a =
     (let info = inspect (fa_codec a) (payload packet)
      in case close_previous packet a of
           (a1, ev1) \<Rightarrow> (case admit_packet info packet a1 of (a2, ev2) \<Rightarrow> (a2, ev1 @ ev2)))"

text \<open>\<^verbatim>\<open>extend\<close>: the counter nearest \<^verbatim>\<open>next\<close> with the given low half.\<close>

definition extend_seq :: "u16 \<Rightarrow> nat \<Rightarrow> nat" where
  "extend_seq s n = nat (max 0 (int n + sint (s - of_nat n)))"

text \<open>The frame in progress does not depend on the queue: all of the above commute with a change of it.\<close>

definition queued :: "nat option \<Rightarrow> (nat, RtpPacket) btree \<Rightarrow> FrameAssembler \<Rightarrow> FrameAssembler" where
  "queued n q a = a\<lparr>fa_next := n, fa_pending := q\<rparr>"

lemma queued_fields [simp]:
  "fa_codec (queued n q a) = fa_codec a" "max_reorder (queued n q a) = max_reorder a"
  "max_frame_bytes (queued n q a) = max_frame_bytes a" "fa_next (queued n q a) = n"
  "fa_pending (queued n q a) = q" "fa_current (queued n q a) = fa_current a"
  "current_bytes (queued n q a) = current_bytes a" "current_keyframe (queued n q a) = current_keyframe a"
  "skipping (queued n q a) = skipping a" "needs_keyframe (queued n q a) = needs_keyframe a"
  by (simp_all add: queued_def)

lemma queued_queued [simp]: "queued n q (queued n' q' a) = queued n q a"
  by (simp add: queued_def)

lemma queued_same [simp]: "queued (fa_next a) (fa_pending a) a = a"
  by (simp add: queued_def)

lemma queued_updates:
  "(queued n q a)\<lparr>fa_current := c\<rparr> = queued n q (a\<lparr>fa_current := c\<rparr>)"
  "(queued n q a)\<lparr>current_bytes := b\<rparr> = queued n q (a\<lparr>current_bytes := b\<rparr>)"
  "(queued n q a)\<lparr>current_keyframe := k\<rparr> = queued n q (a\<lparr>current_keyframe := k\<rparr>)"
  "(queued n q a)\<lparr>skipping := k\<rparr> = queued n q (a\<lparr>skipping := k\<rparr>)"
  "(queued n q a)\<lparr>needs_keyframe := k\<rparr> = queued n q (a\<lparr>needs_keyframe := k\<rparr>)"
  "(queued n q a)\<lparr>fa_next := n'\<rparr> = queued n' q a"
  "(queued n q a)\<lparr>fa_pending := q'\<rparr> = queued n q' a"
  by (simp_all add: queued_def)

lemma drop_current_queued: "drop_current (queued n q a) = queued n q (drop_current a)"
  by (simp add: drop_current_def queued_updates)

lemma give_up_queued: "give_up (queued n q a) = queued n q (give_up a)"
  by (simp add: give_up_def drop_current_queued queued_updates)

lemma asm_finish_queued: "asm_finish (queued n q a) = map_prod (queued n q) id (asm_finish a)"
  by (simp add: asm_finish_def Let_def drop_current_queued queued_updates split: sum.split)

lemma append_packet_queued: "append_packet i p (queued n q a) = map_prod (queued n q) id (append_packet i p a)"
  by (simp add: append_packet_def Let_def give_up_queued queued_updates asm_finish_queued)

lemma close_previous_queued: "close_previous p (queued n q a) = map_prod (queued n q) id (close_previous p a)"
  by (simp add: close_previous_def asm_finish_queued)

lemma admit_packet_queued: "admit_packet i p (queued n q a) = map_prod (queued n q) id (admit_packet i p a)"
  by (simp add: admit_packet_def Let_def append_packet_queued queued_updates codec_needs_frame_start_def)

lemma consume_queued: "consume p (queued n q a) = map_prod (queued n q) id (consume p a)"
  by (simp add: consume_def Let_def close_previous_queued admit_packet_queued split: prod.split)

lemma consume_frame:
  assumes "consume p a = (a', ev)"
  shows "fa_pending a' = fa_pending a" "fa_next a' = fa_next a"
proof -
  have "queued (fa_next a) (fa_pending a) a' = a'"
    using consume_queued [of p "fa_next a" "fa_pending a" a] assms by simp
  then show "fa_pending a' = fa_pending a" "fa_next a' = fa_next a"
    by (metis queued_fields(5), metis queued_fields(4))
qed

text \<open>The loop that drains what became contiguous.\<close>

function drain :: "FrameAssembler \<Rightarrow> FrameAssembler \<times> AssemblerEvent list" where
  "drain a =
     (case fa_next a of
        None \<Rightarrow> (a, [])
      | Some n \<Rightarrow>
          (case bt_get (fa_pending a) n of
             None \<Rightarrow> (a, [])
           | Some p \<Rightarrow>
               (case consume p (a\<lparr>fa_pending := bt_remove n (fa_pending a)\<rparr>) of
                  (a1, ev1) \<Rightarrow>
                    (case drain (a1\<lparr>fa_next := Some (n + 1)\<rparr>) of (a2, ev2) \<Rightarrow> (a2, ev1 @ ev2)))))"
  by pat_completeness auto
termination
proof (relation "measure (\<lambda>a. length (fa_pending a))", goal_cases)
  case (2 a n p a1 ev1)
  have "fa_pending a1 = bt_remove n (fa_pending a)"
    using consume_frame(1) [OF 2(3) [symmetric]] by simp
  moreover have "(n, p) \<in> set (fa_pending a)"
    using 2(2) by (simp add: bt_get_def map_of_SomeD)
  then have "length (bt_remove n (fa_pending a)) < length (fa_pending a)"
    unfolding bt_remove_def by (rule length_filter_less) simp
  ultimately show ?case by simp
qed simp

declare drain.simps [simp del]

definition FrameAssembler_push :: "RtpPacket \<Rightarrow> FrameAssembler \<Rightarrow> FrameAssembler \<times> AssemblerEvent list" where
  "FrameAssembler_push packet a =
     (let s = sequence_number (header packet);
          a0 = (case fa_next a of Some n \<Rightarrow> a | None \<Rightarrow> a\<lparr>fa_next := Some (0x10000 + unat s)\<rparr>);
          n = the (fa_next a0);
          ext = extend_seq s n
      in if ext < n then (a0, [])
         else if ext > n then
           let a1 = a0\<lparr>fa_pending := bt_insert ext packet (fa_pending a0)\<rparr>
           in if ext - n > max_reorder a1 \<or> length (fa_pending a1) > max_reorder a1 then
                let first = fst (hd (fa_pending a1));
                    (a2, ev) = drain ((give_up a1)\<lparr>fa_next := Some first\<rparr>)
                in (a2, Lost (of_nat n) (of_nat (first - 1)) # ev)
              else (a1, [])
         else
           case consume packet a0 of
             (a1, ev1) \<Rightarrow> (case drain (a1\<lparr>fa_next := Some (n + 1)\<rparr>) of (a2, ev2) \<Rightarrow> (a2, ev1 @ ev2)))"

text \<open>Packets pushed one after the other, with all the events.\<close>

fun asm_push_all :: "RtpPacket list \<Rightarrow> FrameAssembler \<Rightarrow> FrameAssembler \<times> AssemblerEvent list" where
  "asm_push_all [] a = (a, [])"
| "asm_push_all (p # ps) a =
     (case FrameAssembler_push p a of (a1, ev1) \<Rightarrow> (case asm_push_all ps a1 of (a2, ev2) \<Rightarrow> (a2, ev1 @ ev2)))"

section \<open>The specification: packets in order\<close>

fun consume_all :: "RtpPacket list \<Rightarrow> FrameAssembler \<Rightarrow> FrameAssembler \<times> AssemblerEvent list" where
  "consume_all [] a = (a, [])"
| "consume_all (p # ps) a =
     (case consume p a of (a1, ev1) \<Rightarrow> (case consume_all ps a1 of (a2, ev2) \<Rightarrow> (a2, ev1 @ ev2)))"

lemma consume_all_snoc:
  "consume_all (ps @ [p]) a =
     (case consume_all ps a of (a1, ev1) \<Rightarrow> (case consume p a1 of (a2, ev2) \<Rightarrow> (a2, ev1 @ ev2)))"
  by (induction ps arbitrary: a) (auto split: prod.splits)

lemma extend_near:
  assumes "i < n + 2 ^ 15" "n \<le> i + 2 ^ 15"
  shows "extend_seq (of_nat i) n = i"
proof -
  have "(of_nat i - of_nat n :: u16) = word_of_int (int i - int n)" by simp
  moreover have "signed_take_bit 15 (int i - int n) = int i - int n"
    using assms by (intro signed_take_bit_int_eq_self) auto
  ultimately have "sint (of_nat i - of_nat n :: u16) = int i - int n" by (simp only: signed_of_int) simp
  then show ?thesis by (simp add: extend_seq_def)
qed

lemma consume_all_queued: "consume_all ps (queued n q a) = map_prod (queued n q) id (consume_all ps a)"
  by (induction ps arbitrary: a) (auto simp: consume_queued split: prod.splits)

section \<open>Reordering\<close>

text \<open>
  A run of \<open>k\<close> packets, the \<open>j\<close>th with extended sequence number \<open>n + j\<close>. When the ones in \<open>S\<close> have
  arrived, those before the first gap are consumed and the others wait.
\<close>

definition waiting :: "nat \<Rightarrow> (nat \<Rightarrow> RtpPacket) \<Rightarrow> nat \<Rightarrow> nat set \<Rightarrow> nat \<Rightarrow> (nat, RtpPacket) btree" where
  "waiting n f k S m = map (\<lambda>j. (n + j, f j)) (filter (\<lambda>j. j \<in> S) [m..<k])"

definition gap :: "nat \<Rightarrow> nat set \<Rightarrow> nat \<Rightarrow> nat" where
  "gap k S m = m + length (takeWhile (\<lambda>j. j \<in> S) [m..<k])"

definition arrived ::
  "nat \<Rightarrow> (nat \<Rightarrow> RtpPacket) \<Rightarrow> nat \<Rightarrow> nat set \<Rightarrow> nat \<Rightarrow> FrameAssembler \<Rightarrow> FrameAssembler \<times> AssemblerEvent list" where
  "arrived n f k S m a = map_prod (queued (Some (n + m)) (waiting n f k S m)) id (consume_all (map f [0..<m]) a)"

lemma gap_step: "m < k \<Longrightarrow> gap k S m = (if m \<in> S then gap k S (m + 1) else m)"
  by (simp add: gap_def upt_conv_Cons)

lemma gap_end: "gap k S k = k"
  by (simp add: gap_def)

lemma gap_bounds: "m \<le> k \<Longrightarrow> m \<le> gap k S m \<and> gap k S m \<le> k"
  using length_takeWhile_le [of "\<lambda>j. j \<in> S" "[m..<k]"] by (auto simp: gap_def)

lemma gap_before: "m \<le> i \<Longrightarrow> i < gap k S m \<Longrightarrow> i \<in> S"
proof -
  assume i: "m \<le> i" "i < gap k S m"
  let ?t = "takeWhile (\<lambda>j. j \<in> S) [m..<k]"
  have "i - m < length ?t" using i by (simp add: gap_def)
  moreover from this have "?t ! (i - m) = i"
    using i length_takeWhile_le [of "\<lambda>j. j \<in> S" "[m..<k]"] by (simp add: takeWhile_nth)
  ultimately show "i \<in> S"
    using nth_mem [of "i - m" ?t] set_takeWhileD [of i "\<lambda>j. j \<in> S"] by metis
qed

lemma gap_at: "m \<le> k \<Longrightarrow> gap k S m < k \<Longrightarrow> gap k S m \<notin> S"
proof (induction "k - m" arbitrary: m)
  case (Suc d)
  then have "m < k" "d = k - (m + 1)" by simp_all
  with Suc.hyps(1) [of "m + 1"] Suc.prems show ?case by (auto simp: gap_step)
qed (simp add: gap_def)

lemma waiting_step:
  "m < k \<Longrightarrow> waiting n f k S m = (if m \<in> S then (n + m, f m) # waiting n f k S (m + 1) else waiting n f k S (m + 1))"
  by (simp add: waiting_def upt_conv_Cons)

lemma waiting_end: "waiting n f k S k = []"
  by (simp add: waiting_def)

lemma waiting_get: "bt_get (waiting n f k S m) (n + i) = (if m \<le> i \<and> i < k \<and> i \<in> S then Some (f i) else None)"
proof (cases "m \<le> i \<and> i < k \<and> i \<in> S")
  case True
  have "distinct (map fst (waiting n f k S m))"
    by (auto simp: waiting_def distinct_map comp_def inj_on_def)
  moreover have "(n + i, f i) \<in> set (waiting n f k S m)" using True by (auto simp: waiting_def)
  ultimately show ?thesis using True by (simp add: bt_get_def)
next
  case False
  then show ?thesis by (auto simp: bt_get_def waiting_def map_of_eq_None_iff)
qed

lemma waiting_remove:
  assumes "m < k" "m \<in> S"
  shows "bt_remove (n + m) (waiting n f k S m) = waiting n f k S (m + 1)"
proof -
  have "filter (\<lambda>(k', v). k' \<noteq> n + m) (waiting n f k S (m + 1)) = waiting n f k S (m + 1)"
    by (rule filter_True) (auto simp: waiting_def)
  then show ?thesis using assms by (simp add: waiting_step [of m] bt_remove_def)
qed

lemma bt_insert_front: "(\<And>e. e \<in> set m \<Longrightarrow> k < fst e) \<Longrightarrow> bt_insert k v m = (k, v) # m"
  by (cases m) force+

lemma waiting_insert:
  assumes "m \<le> j" "j < k"
  shows "bt_insert (n + j) (f j) (waiting n f k S m) = waiting n f k (insert j S) m"
proof -
  have "bt_insert (n + j) (f j) (map (\<lambda>j. (n + j, f j)) (filter (\<lambda>i. i \<in> S) js)) =
      map (\<lambda>j. (n + j, f j)) (filter (\<lambda>i. i \<in> insert j S) js)" if "j \<in> set js" "sorted_wrt (<) js" for js
    using that
  proof (induction js)
    case (Cons x js)
    show ?case
    proof (cases "x = j")
      case True
      then have later: "\<forall>i \<in> set js. j < i" using Cons.prems by simp
      then have "filter (\<lambda>i. i \<in> insert j S) js = filter (\<lambda>i. i \<in> S) js" by (intro filter_cong) auto
      moreover have "bt_insert (n + j) (f j) (map (\<lambda>j. (n + j, f j)) (filter (\<lambda>i. i \<in> S) js)) =
          (n + j, f j) # map (\<lambda>j. (n + j, f j)) (filter (\<lambda>i. i \<in> S) js)"
        using later by (intro bt_insert_front) auto
      ultimately show ?thesis using True by auto
    next
      case False
      then show ?thesis using Cons by auto
    qed
  qed simp
  from this [of "[m..<k]"] assms show ?thesis by (simp add: waiting_def)
qed

lemma waiting_length: "length (waiting n f k S m) \<le> k - m"
  using length_filter_le [of "\<lambda>j. j \<in> S" "[m..<k]"] by (simp add: waiting_def)

lemma arrived_next:
  assumes "m < k" "m \<in> S"
  shows "arrived n f k S (m + 1) a =
    (case arrived n f k S m a of (b, ev) \<Rightarrow>
       (case consume (f m) (b\<lparr>fa_pending := bt_remove (n + m) (fa_pending b)\<rparr>) of
          (b', ev') \<Rightarrow> (b'\<lparr>fa_next := Some (n + m + 1)\<rparr>, ev @ ev')))"
  using assms
  by (auto simp: arrived_def consume_all_snoc consume_queued waiting_remove queued_updates split: prod.splits)

lemma arrived_queue:
  "arrived n f k S m a = (b, ev) \<Longrightarrow> fa_next b = Some (n + m) \<and> fa_pending b = waiting n f k S m"
  by (cases "consume_all (map f [0..<m]) a") (auto simp: arrived_def)

text \<open>Draining leads from any \<open>m\<close> whose packets were consumed to the next gap.\<close>

lemma drain_arrived:
  "m \<le> k \<Longrightarrow> arrived n f k S m a = (b, ev) \<Longrightarrow>
     (case drain b of (b', ev') \<Rightarrow> (b', ev @ ev')) = arrived n f k S (gap k S m) a"
proof (induction "k - m" arbitrary: m b ev)
  case 0
  then have "fa_next b = Some (n + k)" "fa_pending b = []" using arrived_queue [of n f k S m a b ev] by (auto simp: waiting_end)
  then show ?case using 0 by (auto simp: drain.simps gap_end)
next
  case (Suc d)
  have b: "fa_next b = Some (n + m)" "fa_pending b = waiting n f k S m"
    using arrived_queue [OF Suc.prems(2)] by simp_all
  have m: "m < k" using Suc.hyps(2) by simp
  show ?case
  proof (cases "m \<in> S")
    case False
    then show ?thesis using b m Suc.prems(2) by (auto simp: drain.simps waiting_get gap_step)
  next
    case True
    obtain b' ev' where c: "consume (f m) (b\<lparr>fa_pending := bt_remove (n + m) (fa_pending b)\<rparr>) = (b', ev')"
      by (cases "consume (f m) (b\<lparr>fa_pending := bt_remove (n + m) (fa_pending b)\<rparr>)") auto
    have "arrived n f k S (m + 1) a = (b'\<lparr>fa_next := Some (n + m + 1)\<rparr>, ev @ ev')"
      using arrived_next [OF m True] Suc.prems(2) c by simp
    then have "(case drain (b'\<lparr>fa_next := Some (n + m + 1)\<rparr>) of (b2, ev2) \<Rightarrow> (b2, (ev @ ev') @ ev2)) =
        arrived n f k S (gap k S (m + 1)) a"
      using Suc.hyps(1) [of "m + 1"] Suc.hyps(2) m by simp
    moreover have "bt_get (fa_pending b) (n + m) = Some (f m)" using b m True by (simp add: waiting_get)
    ultimately show ?thesis
      using b c m True by (simp add: drain.simps [of b] gap_step split: prod.splits)
  qed
qed

lemma gap_skip: "l \<le> m \<Longrightarrow> m \<le> k \<Longrightarrow> (\<And>i. l \<le> i \<Longrightarrow> i < m \<Longrightarrow> i \<in> S) \<Longrightarrow> gap k S l = gap k S m"
proof (induction "m - l" arbitrary: l)
  case (Suc d)
  then have "l < k" "l \<in> S" "gap k S (l + 1) = gap k S m" by auto
  then show ?case by (simp add: gap_step)
qed simp

lemma asm_finish_config: "asm_finish a = (a', ev) \<Longrightarrow> max_reorder a' = max_reorder a \<and> fa_codec a' = fa_codec a \<and> max_frame_bytes a' = max_frame_bytes a"
  by (auto simp: asm_finish_def Let_def drop_current_def split: if_splits sum.splits)

lemma append_packet_config:
  "append_packet i p a = (a', ev) \<Longrightarrow> max_reorder a' = max_reorder a \<and> fa_codec a' = fa_codec a \<and> max_frame_bytes a' = max_frame_bytes a"
  by (auto simp: append_packet_def Let_def give_up_def drop_current_def split: if_splits dest: asm_finish_config)

lemma close_previous_config:
  "close_previous p a = (a', ev) \<Longrightarrow> max_reorder a' = max_reorder a \<and> fa_codec a' = fa_codec a \<and> max_frame_bytes a' = max_frame_bytes a"
  by (auto simp: close_previous_def split: if_splits dest: asm_finish_config)

lemma admit_packet_config:
  "admit_packet i p a = (a', ev) \<Longrightarrow> max_reorder a' = max_reorder a \<and> fa_codec a' = fa_codec a \<and> max_frame_bytes a' = max_frame_bytes a"
  by (auto simp: admit_packet_def Let_def split: if_splits dest: append_packet_config)

lemma consume_config:
  "consume p a = (a', ev) \<Longrightarrow> max_reorder a' = max_reorder a \<and> fa_codec a' = fa_codec a \<and> max_frame_bytes a' = max_frame_bytes a"
  by (fastforce simp: consume_def Let_def split: prod.splits dest: close_previous_config admit_packet_config)

lemma consume_all_config: "consume_all ps a = (a', ev) \<Longrightarrow> max_reorder a' = max_reorder a"
  by (induction ps arbitrary: a ev) (fastforce split: prod.splits dest: consume_config)+

lemma push_arrived:
  assumes j: "j < k" "k \<le> max_reorder a" "k \<le> 2 ^ 15"
    and seq: "\<And>i. i < k \<Longrightarrow> sequence_number (header (f i)) = of_nat (n + i)"
    and b: "arrived n f k S (gap k S 0) a = (b, ev)"
  shows "(case FrameAssembler_push (f j) b of (b', ev') \<Rightarrow> (b', ev @ ev')) =
    arrived n f k (insert j S) (gap k (insert j S) 0) a"
proof -
  define m where "m = gap k S 0"
  have m: "m \<le> k" "\<And>i. i < m \<Longrightarrow> i \<in> S" "m < k \<Longrightarrow> m \<notin> S"
    using gap_bounds [of 0 k S] gap_before [of 0 _ k S] gap_at [of 0 k S] by (auto simp: m_def)
  obtain c where c: "consume_all (map f [0..<m]) a = (c, ev)" "b = queued (Some (n + m)) (waiting n f k S m) c"
    using b by (cases "consume_all (map f [0..<m]) a") (auto simp: arrived_def m_def)
  have ext: "extend_seq (sequence_number (header (f j))) (n + m) = n + j"
    unfolding seq [OF j(1)] using j m(1) by (intro extend_near) auto
  have reorder: "max_reorder b = max_reorder a"
    using consume_all_config [OF c(1)] c(2) by simp
  note push = FrameAssembler_push_def ext Let_def c(2)
  consider "j < m" | "j = m" | "m < j" by linarith
  then show ?thesis
  proof cases
    case 1
    then have "insert j S = S" using m(2) by auto
    then show ?thesis using 1 b by (simp add: push)
  next
    case 2
    have g: "gap k (insert j S) 0 = gap k (insert j S) (m + 1)"
      using j(1) 2 m(2) by (intro gap_skip) (auto simp: less_Suc_eq)
    have w: "waiting n f k (insert j S) (m + 1) = waiting n f k S m"
    proof -
      have "waiting n f k (insert j S) (m + 1) = waiting n f k S (m + 1)"
        unfolding waiting_def 2 by (intro arg_cong [of _ _ "map _"] filter_cong) auto
      then show ?thesis using m(3) j(1) 2 by (simp add: waiting_step)
    qed
    obtain c' ev' where c': "consume (f m) c = (c', ev')" by (cases "consume (f m) c") auto
    have "arrived n f k (insert j S) (m + 1) a = (queued (Some (n + m + 1)) (waiting n f k S m) c', ev @ ev')"
      using c(1) c' w by (simp add: arrived_def consume_all_snoc)
    from drain_arrived [OF _ this] show ?thesis
      using 2 j(1) g c' by (simp add: push ext [unfolded 2] consume_queued queued_updates split: prod.splits)
  next
    case 3
    then have mk: "m \<notin> insert j S" "m < k" using m(3) j(1) by auto
    have "gap k (insert j S) 0 = gap k (insert j S) m"
      using m(1,2) by (intro gap_skip) auto
    also have "\<dots> = m" using mk by (simp add: gap_step)
    finally have g: "gap k (insert j S) 0 = m" .
    have l: "length (waiting n f k (insert j S) m) \<le> max_reorder c"
      using waiting_length [of n f k "insert j S" m] j(2) reorder c(2) by simp
    have "\<not> max_reorder c < j - m" using j(1,2) reorder c(2) by simp
    with 3 l g c(1) j(1) show ?thesis
      by (auto simp: push waiting_insert arrived_def queued_updates)
  qed
qed

lemma asm_push_all_arrived:
  assumes "k \<le> max_reorder a" "k \<le> 2 ^ 15"
    and "\<And>i. i < k \<Longrightarrow> sequence_number (header (f i)) = of_nat (n + i)"
    and "arrived n f k S (gap k S 0) a = (b, ev)" "set js \<subseteq> {..<k}"
  shows "(case asm_push_all (map f js) b of (b', ev') \<Rightarrow> (b', ev @ ev')) = arrived n f k (S \<union> set js) (gap k (S \<union> set js) 0) a"
  using assms(4,5)
proof (induction js arbitrary: S b ev)
  case (Cons j js)
  obtain b1 ev1 where p: "FrameAssembler_push (f j) b = (b1, ev1)" by (cases "FrameAssembler_push (f j) b") auto
  have "arrived n f k (insert j S) (gap k (insert j S) 0) a = (b1, ev @ ev1)"
    using push_arrived [OF _ assms(1-3) Cons.prems(1), of j] Cons.prems(2) p by simp
  from Cons.IH [OF this] Cons.prems(2) p show ?case by (auto split: prod.splits)
qed simp

lemma push_all_reordered:
  assumes "fa_next a = Some n" "fa_pending a = []" "set js = {..<k}" "k \<le> max_reorder a" "k \<le> 2 ^ 15"
    and "\<And>i. i < k \<Longrightarrow> sequence_number (header (f i)) = of_nat (n + i)"
  shows "asm_push_all (map f js) a = map_prod (queued (Some (n + k)) []) id (consume_all (map f [0..<k]) a)"
proof -
  have "gap k {} 0 = 0" by (cases k) (simp_all add: gap_step gap_end)
  moreover have "queued (Some n) [] a = a" using assms(1,2) queued_same [of a] by simp
  ultimately have "arrived n f k {} (gap k {} 0) a = (a, [])"
    by (simp add: arrived_def waiting_def)
  from asm_push_all_arrived [OF assms(4-6) this, of js] assms(3)
  have "asm_push_all (map f js) a = arrived n f k {..<k} (gap k {..<k} 0) a"
    by (auto split: prod.splits)
  moreover have "gap k {..<k} 0 = k"
    using gap_skip [of 0 k k "{..<k}"] by (simp add: gap_end)
  ultimately show ?thesis by (simp add: arrived_def waiting_end)
qed

section \<open>A frame from its packets\<close>

text \<open>The assembler with the packets \<open>qs\<close> of a frame in progress.\<close>

definition opened :: "RtpPacket list \<Rightarrow> FrameAssembler \<Rightarrow> FrameAssembler" where
  "opened qs a =
     a\<lparr>fa_current := qs, current_bytes := sum_list (map (\<lambda>q. length (payload q)) qs),
       current_keyframe := list_ex (\<lambda>q. info_keyframe (inspect (fa_codec a) (payload q))) qs, skipping := False\<rparr>"

lemma opened_fields [simp]:
  "fa_codec (opened qs a) = fa_codec a" "max_frame_bytes (opened qs a) = max_frame_bytes a"
  "fa_current (opened qs a) = qs" "skipping (opened qs a) = False"
  "current_bytes (opened qs a) = sum_list (map (\<lambda>q. length (payload q)) qs)"
  "current_keyframe (opened qs a) = list_ex (\<lambda>q. info_keyframe (inspect (fa_codec a) (payload q))) qs"
  by (simp_all add: opened_def)

lemma opened_skipping: "(opened qs a)\<lparr>skipping := False\<rparr> = opened qs a"
  by (simp add: opened_def)

lemma opened_snoc:
  "(opened qs a)\<lparr>current_keyframe := (current_keyframe (opened qs a) \<or> info_keyframe (inspect (fa_codec a) (payload p))),
     current_bytes := current_bytes (opened qs a) + length (payload p), fa_current := qs @ [p]\<rparr> = opened (qs @ [p]) a"
  by (rule FrameAssembler.equality) (simp_all add: opened_def)

lemma append_opened:
  "sum_list (map (\<lambda>q. length (payload q)) (qs @ [p])) \<le> max_frame_bytes a \<Longrightarrow>
   append_packet (inspect (fa_codec a) (payload p)) p (opened qs a) =
     (if RtpHeader_marker (header p) then asm_finish (opened (qs @ [p]) a) else (opened (qs @ [p]) a, []))"
  using opened_snoc [where qs = qs and a = a and p = p] by (simp add: append_packet_def Let_def)

lemma consume_opened:
  assumes "qs \<noteq> []" "\<forall>q \<in> set qs. timestamp (header q) = timestamp (header p)"
    "sum_list (map (\<lambda>q. length (payload q)) (qs @ [p])) \<le> max_frame_bytes a"
  shows "consume p (opened qs a) =
    (if RtpHeader_marker (header p) then asm_finish (opened (qs @ [p]) a) else (opened (qs @ [p]) a, []))"
  using assms(1,2) append_opened [OF assms(3)] by (simp add: consume_def close_previous_def admit_packet_def Let_def opened_skipping)

lemma consume_first:
  assumes "fa_current a = []" "current_bytes a = 0" "\<not> current_keyframe a" "frame_start (inspect (fa_codec a) (payload p))"
    "length (payload p) \<le> max_frame_bytes a"
  shows "consume p a = (if RtpHeader_marker (header p) then asm_finish (opened [p] a) else (opened [p] a, []))"
proof -
  have "a\<lparr>skipping := False\<rparr> = opened [] a" using assms(1-3) by (simp add: opened_def)
  then show ?thesis
    using assms(1,4,5) append_opened [of "[]" p a] by (simp add: consume_def close_previous_def admit_packet_def Let_def)
qed

lemma consume_rest:
  assumes "qs \<noteq> []" "rs \<noteq> []" "\<forall>q \<in> set (qs @ rs). timestamp (header q) = ts"
    "sum_list (map (\<lambda>q. length (payload q)) (qs @ rs)) \<le> max_frame_bytes a"
    "\<forall>q \<in> set (butlast rs). \<not> RtpHeader_marker (header q)" "RtpHeader_marker (header (last rs))"
  shows "consume_all rs (opened qs a) = asm_finish (opened (qs @ rs) a)"
  using assms
proof (induction rs arbitrary: qs)
  case (Cons r rs)
  then have c: "consume r (opened qs a) =
      (if RtpHeader_marker (header r) then asm_finish (opened (qs @ [r]) a) else (opened (qs @ [r]) a, []))"
    by (intro consume_opened) auto
  show ?case
  proof (cases "rs = []")
    case True
    then show ?thesis using c Cons.prems by (auto split: prod.splits)
  next
    case False
    then show ?thesis using c Cons.prems Cons.IH [of "qs @ [r]"] by (auto split: prod.splits)
  qed
qed simp

lemma consume_whole_frame:
  assumes "fa_current a = []" "current_bytes a = 0" "\<not> current_keyframe a"
    "rs \<noteq> []" "\<forall>q \<in> set rs. timestamp (header q) = ts" "frame_start (inspect (fa_codec a) (payload (hd rs)))"
    "sum_list (map (\<lambda>q. length (payload q)) rs) \<le> max_frame_bytes a"
    "\<forall>q \<in> set (butlast rs). \<not> RtpHeader_marker (header q)" "RtpHeader_marker (header (last rs))"
  shows "consume_all rs a = asm_finish (opened rs a)"
proof (cases rs)
  case (Cons r rest)
  have c: "consume r a = (if RtpHeader_marker (header r) then asm_finish (opened [r] a) else (opened [r] a, []))"
    using assms(1-3,6,7) by (intro consume_first) (auto simp: Cons)
  show ?thesis
  proof (cases "rest = []")
    case True
    then show ?thesis using c assms(9) by (auto simp: Cons split: prod.splits)
  next
    case False
    then show ?thesis
      using c assms consume_rest [of "[r]" rest ts a] by (auto simp: Cons split: prod.splits)
  qed
qed (use assms in simp)

text \<open>The packets of a frame: consecutive sequence numbers, one timestamp, the marker on the last.\<close>

definition frame_packet :: "u8 \<Rightarrow> nat \<Rightarrow> u32 \<Rightarrow> u32 \<Rightarrow> bytes list \<Rightarrow> nat \<Rightarrow> RtpPacket" where
  "frame_packet pt n ts src ps i = RtpPacket_build pt (of_nat (n + i)) ts src (ps ! i) (i = length ps - 1)"

lemma frame_packet_fields:
  "sequence_number (header (frame_packet pt n ts src ps i)) = of_nat (n + i)"
  "timestamp (header (frame_packet pt n ts src ps i)) = ts" "payload (frame_packet pt n ts src ps i) = ps ! i"
  by (simp_all add: frame_packet_def RtpPacket_build_def)

lemma frame_packet_marker:
  "pt AND 0x80 = 0 \<Longrightarrow> RtpHeader_marker (header (frame_packet pt n ts src ps i)) \<longleftrightarrow> i = length ps - 1"
  by (simp add: frame_packet_def RtpPacket_build_def RtpHeader_marker_def and_or_distrib)

lemma frame_packet_payloads: "map payload (map (frame_packet pt n ts src ps) [0..<length ps]) = ps"
  by (rule nth_equalityI) (simp_all add: frame_packet_fields)

lemma consume_frame_packets:
  assumes "fa_current a = []" "current_bytes a = 0" "\<not> current_keyframe a"
    "ps \<noteq> []" "pt AND 0x80 = 0" "frame_start (inspect (fa_codec a) (hd ps))"
    "sum_list (map length ps) \<le> max_frame_bytes a" "depacketize (fa_codec a) ps = Inr d"
  shows "consume_all (map (frame_packet pt n ts src ps) [0..<length ps]) a =
    (let key = list_ex (\<lambda>p. info_keyframe (inspect (fa_codec a) p)) ps
     in (a\<lparr>skipping := False, needs_keyframe := (needs_keyframe a \<and> \<not> key)\<rparr>,
         [Frame \<lparr>cf_timestamp = ts, cf_keyframe = key, cf_data = d\<rparr>]))"
proof -
  let ?f = "frame_packet pt n ts src ps"
  let ?rs = "map ?f [0..<length ps]"
  have bytes: "map (\<lambda>q. length (payload q)) ?rs = map length ps"
    by (rule nth_equalityI) (simp_all add: frame_packet_fields)
  have key: "list_ex (\<lambda>q. info_keyframe (inspect (fa_codec a) (payload q))) ?rs = list_ex (\<lambda>p. info_keyframe (inspect (fa_codec a) p)) ps"
    using arg_cong [OF frame_packet_payloads [of pt n ts src ps], of "list_ex (\<lambda>p. info_keyframe (inspect (fa_codec a) p))"]
    by (simp add: list_ex_iff)
  have butl: "butlast ?rs = map ?f [0..<length ps - 1]"
    using assms(4) by (cases "length ps") (simp_all add: butlast_append)
  have rs: "?rs \<noteq> []" "hd ?rs = ?f 0" "last ?rs = ?f (length ps - 1)"
    using assms(4) by (simp_all add: hd_map last_map)
  have "consume_all ?rs a = asm_finish (opened ?rs a)"
    using assms(1-7) rs butl bytes
    by (intro consume_whole_frame) (auto simp: frame_packet_fields frame_packet_marker hd_conv_nth simp del: map_map)
  also have "\<dots> = (let key = list_ex (\<lambda>p. info_keyframe (inspect (fa_codec a) p)) ps
     in (a\<lparr>skipping := False, needs_keyframe := (needs_keyframe a \<and> \<not> key)\<rparr>,
         [Frame \<lparr>cf_timestamp = ts, cf_keyframe = key, cf_data = d\<rparr>]))"
    using assms(1-3,8) rs unfolding asm_finish_def opened_fields frame_packet_payloads key
    by (auto simp: Let_def drop_current_def opened_def frame_packet_fields)
  finally show ?thesis .
qed

section \<open>The invariant\<close>

definition current_ok :: "FrameAssembler \<Rightarrow> bool" where
  "current_ok a \<longleftrightarrow>
     current_bytes a = sum_list (map (\<lambda>q. length (payload q)) (fa_current a)) \<and> current_bytes a \<le> max_frame_bytes a \<and>
     current_keyframe a = list_ex (\<lambda>q. info_keyframe (inspect (fa_codec a) (payload q))) (fa_current a) \<and>
     list_all (\<lambda>q. timestamp (header q) = timestamp (header (hd (fa_current a)))) (fa_current a) \<and>
     (skipping a \<longrightarrow> fa_current a = []) \<and>
     (fa_current a \<noteq> [] \<longrightarrow> frame_start (inspect (fa_codec a) (payload (hd (fa_current a)))))"

definition queue_ok :: "FrameAssembler \<Rightarrow> bool" where
  "queue_ok a \<longleftrightarrow>
     bt_ok (fa_pending a) \<and> length (fa_pending a) \<le> max_reorder a \<and> 1 \<le> max_reorder a \<and>
     (case fa_next a of None \<Rightarrow> fa_pending a = [] | Some n \<Rightarrow> list_all (\<lambda>e. n < fst e) (fa_pending a))"

definition asm_ok :: "FrameAssembler \<Rightarrow> bool" where
  "asm_ok a \<longleftrightarrow> queue_ok a \<and> current_ok a"

lemma drop_current_ok: "current_ok (drop_current a)"
  by (simp add: current_ok_def drop_current_def)

lemma give_up_ok: "current_ok (give_up a)"
  by (simp add: current_ok_def give_up_def drop_current_def)

lemma asm_finish_ok: "current_ok a \<Longrightarrow> asm_finish a = (a', ev) \<Longrightarrow> current_ok a' \<and> fa_current a' = []"
  by (auto simp: asm_finish_def Let_def current_ok_def drop_current_def split: if_splits sum.splits)

lemma append_packet_ok:
  assumes "current_ok a" "\<not> skipping a" "append_packet (inspect (fa_codec a) (payload p)) p a = (a', ev)"
    "fa_current a = [] \<Longrightarrow> frame_start (inspect (fa_codec a) (payload p))"
    "fa_current a \<noteq> [] \<Longrightarrow> timestamp (header (hd (fa_current a))) = timestamp (header p)"
  shows "current_ok a'"
proof -
  let ?b = "a\<lparr>current_keyframe := (current_keyframe a \<or> info_keyframe (inspect (fa_codec a) (payload p))),
    current_bytes := current_bytes a + length (payload p), fa_current := fa_current a @ [p]\<rparr>"
  have "current_ok ?b" if "current_bytes ?b \<le> max_frame_bytes ?b"
    using assms(1,2,4,5) that by (cases "fa_current a") (auto simp: current_ok_def)
  then show ?thesis
    using assms(3) give_up_ok [of ?b]
    by (auto simp: append_packet_def Let_def split: if_splits dest: asm_finish_ok [rotated])
qed

lemma close_previous_ok:
  assumes "current_ok a" "close_previous p a = (a', ev)"
  shows "current_ok a'" "fa_current a' \<noteq> [] \<Longrightarrow> timestamp (header (hd (fa_current a'))) = timestamp (header p)"
  using assms asm_finish_ok [of a a' ev] by (auto simp: close_previous_def split: if_splits)

lemma admit_packet_ok:
  assumes "current_ok a" "admit_packet (inspect (fa_codec a) (payload p)) p a = (a', ev)"
    "fa_current a \<noteq> [] \<Longrightarrow> timestamp (header (hd (fa_current a))) = timestamp (header p)"
  shows "current_ok a'"
proof -
  let ?b = "a\<lparr>skipping := False\<rparr>" and ?i = "inspect (fa_codec a) (payload p)"
  have b: "current_ok ?b" using assms(1) by (simp add: current_ok_def)
  show ?thesis
  proof (cases "skipping a \<and> \<not> frame_start ?i")
    case True
    then show ?thesis using assms(1,2) by (simp add: admit_packet_def)
  next
    case taken: False
    show ?thesis
    proof (cases "fa_current a = [] \<and> \<not> frame_start ?i")
      case True
      then have "a' = ?b\<lparr>skipping := True, needs_keyframe := True\<rparr>"
        using taken assms(2) unfolding admit_packet_def by (simp add: Let_def codec_needs_frame_start_def)
      then show ?thesis using assms(1) True by (simp add: current_ok_def)
    next
      case False
      then have "append_packet ?i p ?b = (a', ev)"
        using taken assms(2) by (cases "frame_start ?i") (simp_all add: admit_packet_def)
      then show ?thesis using b assms(3) False by (intro append_packet_ok [of ?b p a' ev]) simp_all
    qed
  qed
qed

lemma consume_ok:
  assumes "current_ok a" "consume p a = (a', ev)"
  shows "current_ok a'"
proof -
  obtain a1 ev1 ev2 where 1: "close_previous p a = (a1, ev1)"
    and 2: "admit_packet (inspect (fa_codec a) (payload p)) p a1 = (a', ev2)"
    using assms(2) by (auto simp: consume_def Let_def split: prod.splits)
  have "fa_codec a1 = fa_codec a" using close_previous_config [OF 1] by simp
  then show ?thesis
    using admit_packet_ok [of a1 p a' ev2] close_previous_ok [OF assms(1) 1] 2 by simp
qed

lemma drain_ok:
  assumes "drain a = (a', ev)" "current_ok a" "fa_next a = Some n" "bt_ok (fa_pending a)" "list_all (\<lambda>e. n \<le> fst e) (fa_pending a)"
  shows "current_ok a' \<and> bt_ok (fa_pending a') \<and> max_reorder a' = max_reorder a \<and>
    (\<exists>n'. fa_next a' = Some n' \<and> list_all (\<lambda>e. n' < fst e) (fa_pending a')) \<and>
    length (fa_pending a') \<le> length (fa_pending a) - (if bt_get (fa_pending a) n = None then 0 else 1)"
  using assms
proof (induction a arbitrary: a' ev n rule: drain.induct)
  case (1 a)
  show ?case
  proof (cases "bt_get (fa_pending a) n")
    case None
    then have "n \<notin> fst ` set (fa_pending a)" by (simp add: bt_get_def map_of_eq_None_iff)
    then have "list_all (\<lambda>e. n < fst e) (fa_pending a)"
      using "1.prems"(5) by (force simp: list_all_iff order.order_iff_strict)
    then show ?thesis using 1 None by (simp add: drain.simps [of a])
  next
    case (Some p)
    let ?a = "a\<lparr>fa_pending := bt_remove n (fa_pending a)\<rparr>"
    obtain a1 ev1 a2 ev2 where c: "consume p ?a = (a1, ev1)" and d: "drain (a1\<lparr>fa_next := Some (n + 1)\<rparr>) = (a2, ev2)"
      and a': "a' = a2"
      using "1.prems"(1,3) Some by (auto simp: drain.simps [of a] split: prod.splits)
    have "(n, p) \<in> set (fa_pending a)" using Some by (simp add: bt_get_def map_of_SomeD)
    then have shorter: "length (bt_remove n (fa_pending a)) < length (fa_pending a)"
      unfolding bt_remove_def by (rule length_filter_less) simp
    have pend: "fa_pending a1 = bt_remove n (fa_pending a)" "max_reorder a1 = max_reorder a"
      using consume_frame(1) [OF c] consume_config [OF c] by simp_all
    have "current_ok ?a" using "1.prems"(2) by (simp add: current_ok_def)
    then have "current_ok a1" using consume_ok c by blast
    then have "current_ok (a1\<lparr>fa_next := Some (n + 1)\<rparr>)" by (simp add: current_ok_def)
    moreover have "list_all (\<lambda>e. n + 1 \<le> fst e) (bt_remove n (fa_pending a))"
      using "1.prems"(5) by (force simp: list_all_iff bt_remove_def Suc_le_eq order.order_iff_strict)
    ultimately have "current_ok a2 \<and> bt_ok (fa_pending a2) \<and> max_reorder a2 = max_reorder a \<and>
      (\<exists>n'. fa_next a2 = Some n' \<and> list_all (\<lambda>e. n' < fst e) (fa_pending a2)) \<and>
      length (fa_pending a2) \<le> length (bt_remove n (fa_pending a))"
      using "1.IH" [OF "1.prems"(3) Some c [symmetric] d, of "n + 1"] "1.prems"(4) pend by fastforce
    then show ?thesis using shorter Some a' by auto
  qed
qed

lemma push_ok:
  assumes "asm_ok a" "FrameAssembler_push p a = (a', ev)"
  shows "asm_ok a'"
proof -
  define a0 where "a0 = (case fa_next a of Some n \<Rightarrow> a | None \<Rightarrow> a\<lparr>fa_next := Some (0x10000 + unat (sequence_number (header p)))\<rparr>)"
  obtain n where n: "fa_next a0 = Some n" by (cases "fa_next a") (auto simp: a0_def)
  have ok: "queue_ok a0" "current_ok a0"
    using assms(1) by (auto simp: a0_def asm_ok_def queue_ok_def current_ok_def split: option.splits)
  then have q: "bt_ok (fa_pending a0)" "length (fa_pending a0) \<le> max_reorder a0" "1 \<le> max_reorder a0" "list_all (\<lambda>e. n < fst e) (fa_pending a0)"
    by (auto simp: queue_ok_def n)
  define ext where "ext = extend_seq (sequence_number (header p)) n"
  define a1 where "a1 = a0\<lparr>fa_pending := bt_insert ext p (fa_pending a0)\<rparr>"
  have c1: "current_ok a1" using ok(2) by (simp add: a1_def current_ok_def)
  note push = FrameAssembler_push_def Let_def a0_def [symmetric] n option.sel ext_def [symmetric] a1_def [symmetric]
  have pushed: "(if ext < n then (a0, [])
      else if ext > n then
        if ext - n > max_reorder a1 \<or> length (fa_pending a1) > max_reorder a1 then
          (case drain ((give_up a1)\<lparr>fa_next := Some (fst (hd (fa_pending a1)))\<rparr>) of
             (a2, ev) \<Rightarrow> (a2, Lost (of_nat n) (of_nat (fst (hd (fa_pending a1)) - 1)) # ev))
        else (a1, [])
      else case consume p a0 of
        (a1, ev1) \<Rightarrow> (case drain (a1\<lparr>fa_next := Some (n + 1)\<rparr>) of (a2, ev2) \<Rightarrow> (a2, ev1 @ ev2))) = (a', ev)"
    using assms(2) unfolding push .
  consider "ext < n" | "ext = n" | "ext > n" by linarith
  then show ?thesis
  proof cases
    case 1
    then show ?thesis using pushed ok by (simp add: asm_ok_def)
  next
    case 2
    then obtain b ev1 ev2 where c: "consume p a0 = (b, ev1)" and d: "drain (b\<lparr>fa_next := Some (n + 1)\<rparr>) = (a', ev2)"
      using pushed by (auto split: prod.splits)
    have b: "current_ok b" "fa_pending b = fa_pending a0" "max_reorder b = max_reorder a0"
      using consume_ok [OF ok(2) c] consume_frame(1) [OF c] consume_config [OF c] by auto
    then show ?thesis
      using drain_ok [OF d, of "n + 1"] q by (fastforce simp: asm_ok_def queue_ok_def current_ok_def list_all_iff Suc_le_eq)
  next
    case 3
    have p1: "bt_ok (fa_pending a1)" "list_all (\<lambda>e. n < fst e) (fa_pending a1)" "fa_pending a1 \<noteq> []"
      "length (fa_pending a1) \<le> Suc (max_reorder a1)" "max_reorder a1 = max_reorder a0"
    proof -
      have keys: "fst ` set (fa_pending a1) = insert ext (fst ` set (fa_pending a0))"
        using bt_insert_keys [of ext p "fa_pending a0"] by (simp add: a1_def)
      then show "list_all (\<lambda>e. n < fst e) (fa_pending a1)"
        using q(4) 3 by (force simp: list_all_iff)
      show "fa_pending a1 \<noteq> []" using keys by auto
      show "length (fa_pending a1) \<le> Suc (max_reorder a1)"
        using btm.size_insert [OF q(1), of ext p] q(2) by (simp add: a1_def split: if_splits)
    qed (use q(1) in \<open>simp_all add: a1_def\<close>)
    show ?thesis
    proof (cases "ext - n > max_reorder a1 \<or> length (fa_pending a1) > max_reorder a1")
      case True
      obtain e rest where e: "fa_pending a1 = e # rest" using p1(3) by (cases "fa_pending a1") auto
      let ?b = "(give_up a1)\<lparr>fa_next := Some (fst e)\<rparr>"
      obtain ev2 where d: "drain ?b = (a', ev2)"
        using pushed 3 True e by (auto split: prod.splits)
      have b: "current_ok ?b" using give_up_ok [of a1] by (simp add: current_ok_def)
      have "fa_pending ?b = e # rest" "max_reorder ?b = max_reorder a0"
        using e p1(5) by (simp_all add: give_up_def drop_current_def)
      moreover have "list_all (\<lambda>x. fst e \<le> fst x) (e # rest)"
        using p1(1) e by (auto simp: bt_ok_def list_all_iff)
      moreover have "bt_get (e # rest) (fst e) \<noteq> None" by (cases e) (simp add: bt_get_def)
      ultimately show ?thesis
        using drain_ok [OF d b, of "fst e"] p1 q(3) e by (auto simp: asm_ok_def queue_ok_def)
    next
      case False
      then show ?thesis using pushed 3 p1 c1 q(3) n by (auto simp: asm_ok_def queue_ok_def a1_def)
    qed
  qed
qed

definition asm_step :: "RtpPacket option \<Rightarrow> FrameAssembler \<Rightarrow> FrameAssembler" where
  "asm_step op a = (case op of Some p \<Rightarrow> fst (FrameAssembler_push p a) | None \<Rightarrow> FrameAssembler_reset a)"

interpretation assembler: stepped_system asm_ok asm_step
proof
  fix op a
  assume ok: "asm_ok a"
  show "asm_ok (asm_step op a)"
  proof (cases op)
    case None
    then show ?thesis
      using ok by (simp add: asm_step_def asm_ok_def queue_ok_def current_ok_def FrameAssembler_reset_def drop_current_def)
  next
    case (Some p)
    then show ?thesis
      using push_ok [OF ok, of p] by (cases "FrameAssembler_push p a") (simp add: asm_step_def)
  qed
qed

lemma with_limits_ok: "asm_ok (FrameAssembler_with_limits codec reorder frame_bytes)"
  by (simp add: FrameAssembler_with_limits_def asm_ok_def queue_ok_def current_ok_def)

section \<open>The need for a key frame\<close>

fun key_event :: "AssemblerEvent \<Rightarrow> bool \<Rightarrow> bool" where
  "key_event (Frame f) b = (b \<and> \<not> cf_keyframe f)"
| "key_event (Lost x y) b = True"
| "key_event (Invalid ts e) b = True"

definition tells :: "FrameAssembler \<Rightarrow> FrameAssembler \<times> AssemblerEvent list \<Rightarrow> bool" where
  "tells a r \<longleftrightarrow> (fold key_event (snd r) (needs_keyframe a) \<longrightarrow> needs_keyframe (fst r))"

lemma key_event_mono: "(b \<longrightarrow> c) \<Longrightarrow> fold key_event ev b \<Longrightarrow> fold key_event ev c"
proof (induction ev arbitrary: b c)
  case (Cons e ev)
  have "key_event e b \<longrightarrow> key_event e c" using Cons.prems(1) by (cases e) auto
  with Cons.IH Cons.prems(2) show ?case by simp
qed simp

lemma key_event_cleared:
  "\<not> fold key_event ev True \<Longrightarrow>
     \<exists>before f after. ev = before @ Frame f # after \<and> cf_keyframe f \<and> (\<forall>e \<in> set after. \<exists>g. e = Frame g)"
proof (induction ev rule: rev_induct)
  case (snoc e ev)
  then obtain f where e: "e = Frame f" by (cases e) auto
  show ?case
  proof (cases "cf_keyframe f")
    case True
    then show ?thesis using e by (intro exI [of _ ev] exI [of _ f] exI [of _ "[]"]) simp
  next
    case False
    then obtain x g y where "ev = x @ Frame g # y" "cf_keyframe g" "\<forall>e \<in> set y. \<exists>g. e = Frame g"
      using snoc e by auto
    then show ?thesis using e by (intro exI [of _ x] exI [of _ g] exI [of _ "y @ [e]"]) auto
  qed
qed simp

lemma tells_trans:
  "tells a (b, ev) \<Longrightarrow> tells b' (c, ev') \<Longrightarrow> needs_keyframe b = needs_keyframe b' \<Longrightarrow> tells a (c, ev @ ev')"
  using key_event_mono [of "fold key_event ev (needs_keyframe a)" "needs_keyframe b'" ev'] by (auto simp: tells_def)

lemma tells_needs: "tells a r \<Longrightarrow> needs_keyframe a = needs_keyframe a' \<Longrightarrow> tells a' r"
  by (simp add: tells_def)

lemma asm_finish_tells: "tells a (asm_finish a)"
  by (auto simp: tells_def asm_finish_def Let_def drop_current_def split: sum.split)

lemma append_packet_tells: "tells a (append_packet i p a)"
proof -
  let ?b = "a\<lparr>current_keyframe := (current_keyframe a \<or> info_keyframe i),
    current_bytes := current_bytes a + length (payload p), fa_current := fa_current a @ [p]\<rparr>"
  have "tells a (asm_finish ?b)" using asm_finish_tells [of ?b] by (rule tells_needs) simp
  then show ?thesis
    by (simp add: append_packet_def Let_def) (simp add: tells_def give_up_def drop_current_def)
qed

lemma consume_tells: "tells a (consume p a)"
proof -
  let ?i = "inspect (fa_codec a) (payload p)"
  obtain b ev where b: "close_previous p a = (b, ev)" by (cases "close_previous p a") auto
  obtain c ev' where c: "admit_packet ?i p b = (c, ev')" by (cases "admit_packet ?i p b") auto
  have "tells a (b, ev)"
    using asm_finish_tells [of a] b by (auto simp: close_previous_def tells_def split: if_splits)
  moreover have "tells b (c, ev')"
    using append_packet_tells [of "b\<lparr>skipping := False\<rparr>" ?i p] c
    by (auto simp: admit_packet_def Let_def tells_def split: if_splits)
  ultimately have "tells a (c, ev @ ev')" by (intro tells_trans) simp_all
  then show ?thesis by (simp add: consume_def b c)
qed

lemma drain_tells: "tells a (drain a)"
proof (induction a rule: drain.induct)
  case (1 a)
  show ?case
  proof (cases "fa_next a")
    case (Some n)
    show ?thesis
    proof (cases "bt_get (fa_pending a) n")
      case None
      then show ?thesis using Some by (simp add: drain.simps [of a] tells_def)
    next
      case p: (Some p)
      let ?b = "a\<lparr>fa_pending := bt_remove n (fa_pending a)\<rparr>"
      obtain c ev where c: "consume p ?b = (c, ev)" by (cases "consume p ?b") auto
      obtain d ev' where d: "drain (c\<lparr>fa_next := Some (n + 1)\<rparr>) = (d, ev')"
        by (cases "drain (c\<lparr>fa_next := Some (n + 1)\<rparr>)") auto
      have "tells a (c, ev)" using consume_tells [of ?b p] c by (simp add: tells_def)
      moreover have "tells (c\<lparr>fa_next := Some (n + 1)\<rparr>) (d, ev')"
        using "1.IH" [OF Some p c [symmetric]] d by simp
      ultimately have "tells a (d, ev @ ev')" by (rule tells_trans) simp_all
      then show ?thesis using Some p c d by (simp add: drain.simps [of a])
    qed
  qed (simp add: drain.simps [of a] tells_def)
qed

lemma push_tells: "tells a (FrameAssembler_push p a)"
proof -
  define a0 where "a0 = (case fa_next a of Some n \<Rightarrow> a | None \<Rightarrow> a\<lparr>fa_next := Some (0x10000 + unat (sequence_number (header p)))\<rparr>)"
  have a0: "needs_keyframe a0 = needs_keyframe a" by (simp add: a0_def split: option.split)
  define n where "n = the (fa_next a0)"
  define ext where "ext = extend_seq (sequence_number (header p)) n"
  define a1 where "a1 = a0\<lparr>fa_pending := bt_insert ext p (fa_pending a0)\<rparr>"
  obtain b ev where b: "consume p a0 = (b, ev)" by (cases "consume p a0") auto
  obtain c ev' where c: "drain (b\<lparr>fa_next := Some (n + 1)\<rparr>) = (c, ev')" by (cases "drain (b\<lparr>fa_next := Some (n + 1)\<rparr>)") auto
  let ?g = "(give_up a1)\<lparr>fa_next := Some (fst (hd (fa_pending a1)))\<rparr>"
  obtain d ev2 where d: "drain ?g = (d, ev2)" by (cases "drain ?g") auto
  have "tells a (b, ev)" using consume_tells [of a0 p] b a0 by (simp add: tells_def)
  moreover have "tells (b\<lparr>fa_next := Some (n + 1)\<rparr>) (c, ev')"
    using drain_tells [of "b\<lparr>fa_next := Some (n + 1)\<rparr>"] c by simp
  ultimately have "tells a (c, ev @ ev')" by (rule tells_trans) simp_all
  moreover have "tells ?g (d, ev2)" using drain_tells [of ?g] d by simp
  then have "tells a (d, Lost x y # ev2)" for x y by (simp add: tells_def give_up_def)
  moreover have "tells a (a0, [])" "tells a (a1, [])" using a0 by (simp_all add: tells_def a1_def)
  ultimately show ?thesis
    using b c d unfolding FrameAssembler_push_def Let_def a0_def [symmetric] n_def [symmetric] ext_def [symmetric] a1_def [symmetric]
    by simp
qed

lemma push_all_tells: "tells a (asm_push_all ps a)"
proof (induction ps arbitrary: a)
  case (Cons p ps)
  obtain b ev where b: "FrameAssembler_push p a = (b, ev)" by (cases "FrameAssembler_push p a") auto
  obtain c ev' where c: "asm_push_all ps b = (c, ev')" by (cases "asm_push_all ps b") auto
  have "tells a (b, ev)" "tells b (c, ev')" using push_tells [of a p] Cons.IH [of b] b c by simp_all
  then have "tells a (c, ev @ ev')" by (rule tells_trans) simp_all
  then show ?case by (simp add: b c)
qed (simp add: tells_def)

section \<open>Properties\<close>

text \<open>
  C22. Reordering is undone. When packets with the consecutive sequence numbers the assembler expects next arrive
  in any order and any number of times, with as many of them as fit into the reorder window, the assembler ends
  in the same state and reports the same events as if it had been handed each packet once and in order.
\<close>

theorem assembler_reorders:
  assumes "fa_next a = Some n" "fa_pending a = []" "set js = {..<length ps}"
    "length ps \<le> max_reorder a" "length ps \<le> 2 ^ 15"
    "\<forall>i < length ps. sequence_number (header (ps ! i)) = of_nat (n + i)"
  shows "asm_push_all (map ((!) ps) js) a = map_prod (queued (Some (n + length ps)) []) id (consume_all ps a)"
  using push_all_reordered [OF assms(1-5), of "(!) ps"] assms(6) by (simp add: map_nth)

definition example_assembler :: FrameAssembler where
  "example_assembler = (FrameAssembler_new VP8)\<lparr>fa_next := Some 0x1FFFF\<rparr>"

definition example_packets :: "RtpPacket list" where
  "example_packets = [RtpPacket_build 96 0xFFFF 7 1 [0x10, 0] False, RtpPacket_build 96 0 7 1 [0x00, 9] True]"

lemma example_assembler_fields:
  "fa_next example_assembler = Some 0x1FFFF" "fa_pending example_assembler = []" "max_reorder example_assembler = 16"
  by (simp_all add: example_assembler_def FrameAssembler_new_def FrameAssembler_with_limits_def)

lemma example_packets_seq:
  "\<forall>i < length example_packets. sequence_number (header (example_packets ! i)) = of_nat (0x1FFFF + i)"
  by (simp add: example_packets_def RtpPacket_build_def less_Suc_eq)

lemma example_packets_consumed:
  "snd (consume_all example_packets example_assembler) = [Frame \<lparr>cf_timestamp = 7, cf_keyframe = True, cf_data = [0, 9]\<rparr>]"
  by (simp add: example_packets_def example_assembler_def FrameAssembler_new_def FrameAssembler_with_limits_def
      RtpPacket_build_def RtpHeader_marker_def consume_def close_previous_def admit_packet_def append_packet_def asm_finish_def
      drop_current_def vp8_inspect_def vp8_descriptor_len_def get_byte_def vp8_depacketize_def codec_needs_frame_start_def)

theorem assembler_reorders_witness:
  "snd (asm_push_all (map ((!) example_packets) [1, 0, 1]) example_assembler) =
     [Frame \<lparr>cf_timestamp = 7, cf_keyframe = True, cf_data = [0, 9]\<rparr>]"
proof -
  have l: "length example_packets = 2" by (simp add: example_packets_def)
  have "set [1, 0, 1] = {..<length example_packets}" unfolding l by auto
  with l show ?thesis
    using assembler_reorders [OF example_assembler_fields(1,2), of "[1, 0, 1]" example_packets]
      example_packets_seq example_packets_consumed example_assembler_fields(3)
    by (simp del: map_eq_Cons_conv list.map set_simps)
qed

text \<open>
  C5. A frame survives the network. A frame is packetized, its payloads are put into RTP packets with
  consecutive sequence numbers, one timestamp and the marker on the last, and the packets reach an assembler
  that expects them in any order and with duplicates: it reports exactly one event, the frame with its
  timestamp, its data in canonical form, and whether it is a key frame; a key frame ends the need for one.
  The frame must fit into the reorder window and the size limit.
\<close>

theorem video_frame_transport:
  assumes "packable codec (cf_data frame)" "frame_begins codec (cf_data frame)" "max_payload \<le> 16386"
    "packetize codec frame max_payload = Some (Inr ps)"
    "asm_ok a" "fa_codec a = codec" "fa_next a = Some n" "fa_pending a = []" "fa_current a = []"
    "length ps \<le> max_reorder a" "length ps \<le> 2 ^ 15" "sum_list (map length ps) \<le> max_frame_bytes a"
    "pt AND 0x80 = 0" "set js = {..<length ps}"
  shows "asm_push_all (map (frame_packet pt n (cf_timestamp frame) src ps) js) a =
    (a\<lparr>fa_next := Some (n + length ps), skipping := False,
       needs_keyframe := (needs_keyframe a \<and> \<not> frame_is_key codec frame)\<rparr>,
     [Frame \<lparr>cf_timestamp = cf_timestamp frame, cf_keyframe = frame_is_key codec frame,
             cf_data = canonical_frame codec (cf_data frame)\<rparr>])"
proof -
  let ?f = "frame_packet pt n (cf_timestamp frame) src ps"
  have ps: "depacketize codec ps = Inr (canonical_frame codec (cf_data frame))" "ps \<noteq> []"
    using video_payload_frame [OF assms(1,3)] assms(4) by auto
  have "current_bytes a = 0" "\<not> current_keyframe a"
    using assms(5,9) by (simp_all add: asm_ok_def current_ok_def)
  then have c: "consume_all (map ?f [0..<length ps]) a =
      (a\<lparr>skipping := False, needs_keyframe := (needs_keyframe a \<and> \<not> frame_is_key codec frame)\<rparr>,
       [Frame \<lparr>cf_timestamp = cf_timestamp frame, cf_keyframe = frame_is_key codec frame,
               cf_data = canonical_frame codec (cf_data frame)\<rparr>])"
    using consume_frame_packets [of a ps pt _ n "cf_timestamp frame" src] assms ps
      packetize_first_starts [OF assms(1,2) ps(2) assms(4)] packetize_key [OF assms(1,4) ps(2)]
    by (simp add: Let_def)
  have "asm_push_all (map ?f js) a = map_prod (queued (Some (n + length ps)) []) id (consume_all (map ?f [0..<length ps]) a)"
    using assms(7,8,10,11,14) by (intro push_all_reordered) (simp_all add: frame_packet_fields)
  then show ?thesis unfolding c using assms(8) by (simp add: queued_def)
qed

definition example_frame :: CodedFrame where
  "example_frame = \<lparr>cf_timestamp = 7, cf_keyframe = True, cf_data = [0, 9]\<rparr>"

theorem video_frame_transport_witness:
  "asm_push_all (map (frame_packet 96 0x1FFFF 7 1 [[0x10, 0, 9]]) [0, 0]) example_assembler =
     (example_assembler\<lparr>fa_next := Some 0x20000, skipping := False, needs_keyframe := False\<rparr>, [Frame example_frame])"
proof -
  have "packetize VP8 example_frame 1200 = Some (Inr [[0x10, 0, 9]])"
    by (simp add: packetize_def vp8_packetize_def example_frame_def chunks.simps)
  moreover have "asm_ok example_assembler"
    by (simp add: example_assembler_def FrameAssembler_new_def FrameAssembler_with_limits_def asm_ok_def queue_ok_def current_ok_def)
  ultimately show ?thesis
    using video_frame_transport [of VP8 example_frame 1200 "[[0x10, 0, 9]]" example_assembler "0x1FFFF" 96 "[0, 0]" 1]
    by (simp add: example_frame_def example_assembler_def FrameAssembler_new_def FrameAssembler_with_limits_def lessThan_Suc)
qed

text \<open>
  C32. The assembler's invariant, for any packets and resets: at most \<^verbatim>\<open>max_reorder\<close> packets wait, in
  order and all ahead of the expected number; the frame in progress has one timestamp, begins with a frame
  start, is within the size limit, and its size and key flag are those of its packets; nothing is in progress
  while the assembler skips.
\<close>

theorem assembler_invariant:
  "asm_ok (fold asm_step ops (FrameAssembler_with_limits codec reorder frame_bytes))"
  by (rule assembler.run_inv [OF with_limits_ok])

text \<open>
  The picture is only called valid after a key frame: whatever packets arrive at a new assembler, if it does
  not ask for a key frame, then among the events it has reported there is a key frame with no loss and no
  invalid frame after it.
\<close>

theorem assembler_needs_keyframe:
  assumes "asm_push_all ps (FrameAssembler_with_limits codec reorder frame_bytes) = (a, ev)" "\<not> needs_keyframe a"
  shows "\<exists>before f after. ev = before @ Frame f # after \<and> cf_keyframe f \<and> (\<forall>e \<in> set after. \<exists>g. e = Frame g)"
proof -
  have "\<not> fold key_event ev True"
    using push_all_tells [of "FrameAssembler_with_limits codec reorder frame_bytes" ps] assms
    by (simp add: tells_def FrameAssembler_with_limits_def)
  then show ?thesis by (rule key_event_cleared)
qed

lemmas assembler_steps =
  FrameAssembler_push_def extend_seq_def Let_def FrameAssembler_with_limits_def drain.simps bt_get_def bt_remove_def
  RtpPacket_build_def RtpHeader_marker_def consume_def close_previous_def admit_packet_def append_packet_def
  asm_finish_def drop_current_def give_up_def codec_needs_frame_start_def

theorem assembler_needs_keyframe_witness:
  "\<exists>a ev. asm_push_all [RtpPacket_build 96 5 7 1 [0x10, 0, 9] True] (FrameAssembler_with_limits VP8 16 100) = (a, ev) \<and>
     (\<exists>before f after. ev = before @ Frame f # after \<and> cf_keyframe f)"
proof -
  let ?a = "FrameAssembler_with_limits VP8 16 100" and ?p = "RtpPacket_build 96 5 7 1 [0x10, 0, 9] True"
  obtain a ev where r: "asm_push_all [?p] ?a = (a, ev)" by (cases "asm_push_all [?p] ?a") auto
  have "\<not> needs_keyframe (fst (asm_push_all [?p] ?a))"
    by (simp add: assembler_steps vp8_inspect_def vp8_descriptor_len_def get_byte_def vp8_depacketize_def)
  then have "\<not> needs_keyframe a" unfolding r by simp
  from assembler_needs_keyframe [OF r this] r show ?thesis by blast
qed

text \<open>
  After a loss the rest of the frame is dropped only where its packets do not look like the start of one: every
  slice of an H.264 picture does. Of a key frame of two slices whose first is lost, the second is reported as
  a complete key frame, and the assembler stops asking for one.
\<close>

theorem assembler_partial_keyframe:
  "case asm_push_all
     [RtpPacket_build 96 5 1 1 [0x41, 1] True, RtpPacket_build 96 7 2 1 [0x65, 2] True,
      RtpPacket_build 96 8 3 1 [0x41, 3] True]
     (FrameAssembler_with_limits H264 1 100) of
   (a, ev) \<Rightarrow>
     ev = [Frame \<lparr>cf_timestamp = 1, cf_keyframe = False, cf_data = START_CODE @ [0x41, 1]\<rparr>, Lost 6 6,
           Frame \<lparr>cf_timestamp = 2, cf_keyframe = True, cf_data = START_CODE @ [0x65, 2]\<rparr>,
           Frame \<lparr>cf_timestamp = 3, cf_keyframe = False, cf_data = START_CODE @ [0x41, 3]\<rparr>] \<and>
     \<not> needs_keyframe a"
  by (simp add: assembler_steps h264_inspect_def h264_nal_starts_frame_def h264_nal_is_key_def h264_depacketize_def
      h264_payload_def)

end
