(* ===== verification/Video_Stream.thy ===== *)
theory Video_Stream
  imports Rtp_Packet Video_Payload
begin

text \<open>
  The sending side of video: \<^verbatim>\<open>StreamRewriter\<close> of \<^verbatim>\<open>crates/forge-rtp/src/video/mod.rs\<close>, which makes
  one outgoing stream of several sources, and \<^verbatim>\<open>RtxCache\<close> and \<^verbatim>\<open>KeyframeRequestGate\<close> of
  \<^verbatim>\<open>crates/forge-rtp/src/video/cache.rs\<close>. Each clock reading is an argument. The counters
  \<^verbatim>\<open>switches\<close> and \<^verbatim>\<open>absorbed\<close>, which only count, are natural numbers.
\<close>

section \<open>Stream rewriting\<close>

record Source =
  src_ssrc :: u32
  seq_offset :: u16
  ts_offset :: u32

record StreamRewriter =
  rw_codec :: VideoCodec
  out_ssrc :: u32
  rw_current :: "Source option"
  rw_pending :: "u32 option"
  last_seq :: u16
  last_ts :: u32
  last_sent :: "instant option"
  switches :: nat

definition StreamRewriter_new :: "VideoCodec \<Rightarrow> u32 \<Rightarrow> u16 \<Rightarrow> u32 \<Rightarrow> StreamRewriter" where
  "StreamRewriter_new codec out first_seq first_ts =
     \<lparr>rw_codec = codec, out_ssrc = out, rw_current = None, rw_pending = None, last_seq = first_seq - 1,
      last_ts = first_ts, last_sent = None, switches = 0\<rparr>"

definition StreamRewriter_select :: "u32 \<Rightarrow> StreamRewriter \<Rightarrow> StreamRewriter \<times> bool" where
  "StreamRewriter_select s rw =
     (if map_option src_ssrc (rw_current rw) = Some s then (rw\<lparr>rw_pending := None\<rparr>, False)
      else (rw\<lparr>rw_pending := Some s\<rparr>, True))"

definition StreamRewriter_clear :: "StreamRewriter \<Rightarrow> StreamRewriter" where
  "StreamRewriter_clear rw = rw\<lparr>rw_current := None, rw_pending := None\<rparr>"

text \<open>\<^verbatim>\<open>u32::saturating_mul\<close>.\<close>

definition saturating_mul_u32 :: "u32 \<Rightarrow> u32 \<Rightarrow> u32" where
  "saturating_mul_u32 a b = (if unat a * unat b < 2 ^ 32 then a * b else - 1)"

text \<open>At least one frame period at 30 fps and 90 kHz; \<^verbatim>\<open>as u32\<close> truncates.\<close>

definition gap_ticks :: "instant \<Rightarrow> instant option \<Rightarrow> u32" where
  "gap_ticks now sent =
     max (case sent of None \<Rightarrow> 0 | Some t \<Rightarrow> saturating_mul_u32 (of_nat ((now - t) div 1000000)) 90) 3000"

definition switch_to :: "instant \<Rightarrow> u32 \<Rightarrow> RtpPacket \<Rightarrow> StreamRewriter \<Rightarrow> StreamRewriter" where
  "switch_to now s packet rw =
     (let next_seq = last_seq rw + 1;
          next_ts = (if rw_current rw \<noteq> None then last_ts rw + gap_ticks now (last_sent rw) else last_ts rw)
      in rw\<lparr>rw_current := Some \<lparr>src_ssrc = s, seq_offset = next_seq - sequence_number (header packet),
                               ts_offset = next_ts - timestamp (header packet)\<rparr>,
            rw_pending := None, switches := switches rw + 1\<rparr>)"

text \<open>\<open>now\<close> is the reading the switch takes, \<open>sent\<close> the one that dates the packet.\<close>

definition StreamRewriter_feed ::
  "instant \<Rightarrow> instant \<Rightarrow> RtpPacket \<Rightarrow> StreamRewriter \<Rightarrow> StreamRewriter \<times> RtpPacket option" where
  "StreamRewriter_feed now sent packet rw =
     (let s = ssrc (header packet);
          rw1 = (if rw_pending rw = Some s \<and> PayloadInfo_is_keyframe_start (inspect (rw_codec rw) (payload packet))
                 then switch_to now s packet rw else rw)
      in case rw_current rw1 of
           None \<Rightarrow> (rw1, None)
         | Some src \<Rightarrow>
             if src_ssrc src \<noteq> s then (rw1, None)
             else
               let seq = sequence_number (header packet) + seq_offset src;
                   ts = timestamp (header packet) + ts_offset src
               in (rw1\<lparr>last_seq := seq, last_ts := ts, last_sent := Some sent\<rparr>,
                   Some (packet\<lparr>header := (header packet)\<lparr>ssrc := out_ssrc rw1, sequence_number := seq, timestamp := ts\<rparr>\<rparr>)))"

section \<open>The outgoing stream\<close>

datatype rewriter_op = Select u32 | Clear | Feed instant instant RtpPacket

text \<open>The packets that were forwarded, each with what was sent for it.\<close>

fun rewriter_run :: "rewriter_op list \<Rightarrow> StreamRewriter \<Rightarrow> (RtpPacket \<times> RtpPacket) list" where
  "rewriter_run [] rw = []"
| "rewriter_run (Select s # ops) rw = rewriter_run ops (fst (StreamRewriter_select s rw))"
| "rewriter_run (Clear # ops) rw = rewriter_run ops (StreamRewriter_clear rw)"
| "rewriter_run (Feed now sent p # ops) rw =
     (case StreamRewriter_feed now sent p rw of
        (rw', None) \<Rightarrow> rewriter_run ops rw'
      | (rw', Some q) \<Rightarrow> (p, q) # rewriter_run ops rw')"

text \<open>The packet \<open>(p, q)\<close> is the last that was sent, and its source may still be current.\<close>

definition after_packet :: "RtpPacket \<times> RtpPacket \<Rightarrow> StreamRewriter \<Rightarrow> bool" where
  "after_packet = (\<lambda>(p, q) rw.
     last_seq rw = sequence_number (header q) \<and> last_ts rw = timestamp (header q) \<and>
     (\<forall>src. rw_current rw = Some src \<longrightarrow>
        src_ssrc src = ssrc (header p) \<and> sequence_number (header q) = sequence_number (header p) + seq_offset src \<and>
        timestamp (header q) = timestamp (header p) + ts_offset src))"

text \<open>How one sent packet follows another: a switch at a key frame, or the same source.\<close>

definition follows :: "VideoCodec \<Rightarrow> RtpPacket \<times> RtpPacket \<Rightarrow> RtpPacket \<times> RtpPacket \<Rightarrow> bool" where
  "follows codec = (\<lambda>(p, q) (p', q').
     PayloadInfo_is_keyframe_start (inspect codec (payload p')) \<and>
       sequence_number (header q') = sequence_number (header q) + 1 \<or>
     ssrc (header p') = ssrc (header p) \<and>
       sequence_number (header q') - sequence_number (header q) = sequence_number (header p') - sequence_number (header p) \<and>
       timestamp (header q') - timestamp (header q) = timestamp (header p') - timestamp (header p))"

lemma feed_dropped: "StreamRewriter_feed now sent p rw = (rw', None) \<Longrightarrow> rw' = rw"
  by (auto simp: StreamRewriter_feed_def switch_to_def Let_def split: option.splits if_splits)

lemma feed_sent:
  assumes "StreamRewriter_feed now sent p rw = (rw', Some q)"
  shows "after_packet (p, q) rw'" "rw_codec rw' = rw_codec rw" "out_ssrc rw' = out_ssrc rw"
    "payload q = payload p" "ssrc (header q) = out_ssrc rw"
    "PayloadInfo_is_keyframe_start (inspect (rw_codec rw) (payload p)) \<and> sequence_number (header q) = last_seq rw + 1 \<or>
     (\<exists>src. rw_current rw = Some src \<and> src_ssrc src = ssrc (header p) \<and>
        sequence_number (header q) = sequence_number (header p) + seq_offset src \<and>
        timestamp (header q) = timestamp (header p) + ts_offset src)"
  using assms by (auto simp: StreamRewriter_feed_def switch_to_def after_packet_def Let_def split: option.splits if_splits)

lemma after_packet_follows:
  assumes "after_packet x rw" "StreamRewriter_feed now sent p rw = (rw', Some q)"
  shows "follows (rw_codec rw) x (p, q)"
proof (cases x)
  case (Pair p0 q0)
  from feed_sent(6) [OF assms(2)] show ?thesis
  proof
    assume "\<exists>src. rw_current rw = Some src \<and> src_ssrc src = ssrc (header p) \<and>
        sequence_number (header q) = sequence_number (header p) + seq_offset src \<and>
        timestamp (header q) = timestamp (header p) + ts_offset src"
    then show ?thesis using assms(1) by (auto simp: Pair after_packet_def follows_def)
  qed (use assms(1) in \<open>auto simp: Pair after_packet_def follows_def\<close>)
qed

lemma run_follows:
  "after_packet x rw \<Longrightarrow> successively (follows (rw_codec rw)) (x # rewriter_run ops rw)"
proof (induction ops rw arbitrary: x rule: rewriter_run.induct)
  case (4 now sent p ops rw)
  obtain rw' r where r: "StreamRewriter_feed now sent p rw = (rw', r)" by (cases "StreamRewriter_feed now sent p rw") auto
  show ?case
  proof (cases r)
    case None
    then have "rw' = rw" using r feed_dropped by blast
    then show ?thesis using "4.IH"(1) [OF r [symmetric] None, of x] "4.prems" r None by simp
  next
    case (Some q)
    then have q: "StreamRewriter_feed now sent p rw = (rw', Some q)" using r by simp
    have "successively (follows (rw_codec rw)) ((p, q) # rewriter_run ops rw')"
      using "4.IH"(2) [OF q [symmetric] refl feed_sent(1) [OF q]] feed_sent(2) [OF q] by simp
    then show ?thesis using q after_packet_follows [OF "4.prems" q] by simp
  qed
next
  case (2 s ops rw)
  have "after_packet x (fst (StreamRewriter_select s rw))" "rw_codec (fst (StreamRewriter_select s rw)) = rw_codec rw"
    using "2.prems" by (simp_all add: StreamRewriter_select_def after_packet_def case_prod_beta)
  then show ?case using "2.IH" [of x] by simp
next
  case (3 ops rw)
  have "after_packet x (StreamRewriter_clear rw)" "rw_codec (StreamRewriter_clear rw) = rw_codec rw"
    using "3.prems" by (simp_all add: StreamRewriter_clear_def after_packet_def case_prod_beta)
  then show ?case using "3.IH" [of x] by simp
qed simp

lemma run_first:
  assumes "rw_current rw = None" "last_seq rw = f - 1" "rewriter_run ops rw = (p, q) # rest"
  shows "PayloadInfo_is_keyframe_start (inspect (rw_codec rw) (payload p)) \<and> sequence_number (header q) = f \<and>
    successively (follows (rw_codec rw)) ((p, q) # rest)"
  using assms
proof (induction ops rw rule: rewriter_run.induct)
  case (4 now sent p' ops rw)
  obtain rw' r where r: "StreamRewriter_feed now sent p' rw = (rw', r)" by (cases "StreamRewriter_feed now sent p' rw") auto
  show ?case
  proof (cases r)
    case None
    then show ?thesis using 4 r feed_dropped by fastforce
  next
    case (Some q')
    then have q: "StreamRewriter_feed now sent p rw = (rw', Some q)" "rest = rewriter_run ops rw'" using r "4.prems"(3) by auto
    then show ?thesis
      using feed_sent(6) [OF q(1)] "4.prems"(1,2) run_follows [OF feed_sent(1) [OF q(1)], of ops] feed_sent(2) [OF q(1)] by simp
  qed
qed (auto simp: StreamRewriter_select_def StreamRewriter_clear_def)

lemma run_sent:
  "(p, q) \<in> set (rewriter_run ops rw) \<Longrightarrow> payload q = payload p \<and> ssrc (header q) = out_ssrc rw"
proof (induction ops rw rule: rewriter_run.induct)
  case (4 now sent p' ops rw)
  obtain rw' r where r: "StreamRewriter_feed now sent p' rw = (rw', r)" by (cases "StreamRewriter_feed now sent p' rw") auto
  show ?case
  proof (cases r)
    case None
    then show ?thesis using 4 r feed_dropped by fastforce
  next
    case (Some q')
    then show ?thesis using 4 r feed_sent(3-5) [of now sent p' rw rw' q'] by auto
  qed
qed (auto simp: StreamRewriter_select_def StreamRewriter_clear_def)

lemma rewriter_run_new:
  "successively (follows codec) (rewriter_run ops (StreamRewriter_new codec out first_seq first_ts)) \<and>
   list_all (\<lambda>(p, q). payload q = payload p \<and> ssrc (header q) = out)
     (rewriter_run ops (StreamRewriter_new codec out first_seq first_ts)) \<and>
   (case rewriter_run ops (StreamRewriter_new codec out first_seq first_ts) of
      [] \<Rightarrow> True
    | (p, q) # _ \<Rightarrow>
        PayloadInfo_is_keyframe_start (inspect codec (payload p)) \<and> sequence_number (header q) = first_seq)"
proof -
  let ?rw = "StreamRewriter_new codec out first_seq first_ts"
  have "rw_current ?rw = None" "last_seq ?rw = first_seq - 1" "rw_codec ?rw = codec" "out_ssrc ?rw = out"
    by (simp_all add: StreamRewriter_new_def)
  note new = this
  let ?run = "rewriter_run ops ?rw"
  have "list_all (\<lambda>(p, q). payload q = payload p \<and> ssrc (header q) = out) ?run"
    using run_sent [of _ _ ops ?rw] new(4) by (force simp: list_all_iff)
  moreover have "successively (follows codec) ?run \<and> (case ?run of [] \<Rightarrow> True | (p, q) # _ \<Rightarrow>
      PayloadInfo_is_keyframe_start (inspect codec (payload p)) \<and> sequence_number (header q) = first_seq)"
  proof (cases ?run)
    case (Cons x rest)
    obtain p q where "x = (p, q)" by (cases x)
    then show ?thesis using run_first [OF new(1,2), of ops p q rest] new(3) Cons by simp
  qed simp
  ultimately show ?thesis by blast
qed













text \<open>
  The receiver sees no gap: when packets that are forwarded one after the other from the same source have
  consecutive sequence numbers, the packets sent are numbered consecutively from the first number, across every
  change of source.
\<close>

theorem rewriter_continuous:
  assumes "run = rewriter_run ops (StreamRewriter_new codec out first_seq first_ts)"
    "successively (\<lambda>(p, _) (p', _). ssrc (header p') = ssrc (header p) \<longrightarrow>
       sequence_number (header p') = sequence_number (header p) + 1) run"
    "i < length run"
  shows "sequence_number (header (snd (run ! i))) = first_seq + of_nat i"
  using assms(3)
proof (induction i)
  case 0
  then show ?case
    using rewriter_run_new [of codec ops out first_seq first_ts] unfolding assms(1) [symmetric] by (cases run) (auto split: prod.splits)
next
  case (Suc i)
  obtain p q p' q' where x: "run ! i = (p, q)" "run ! Suc i = (p', q')" by (cases "run ! i"; cases "run ! Suc i")
  have "follows codec (p, q) (p', q')"
    using rewriter_run_new [of codec ops out first_seq first_ts] Suc.prems x
    unfolding assms(1) [symmetric] successively_conv_nth by metis
  moreover have "ssrc (header p') = ssrc (header p) \<longrightarrow> sequence_number (header p') = sequence_number (header p) + 1"
    using assms(2) Suc.prems x unfolding successively_conv_nth by fastforce
  ultimately have "sequence_number (header q') = sequence_number (header q) + 1"
    by (auto simp: follows_def algebra_simps)
  then show ?case using Suc x by (simp add: algebra_simps)
qed

definition switch_ops :: "rewriter_op list" where
  "switch_ops =
     [Select 1, Feed 0 0 (RtpPacket_build 96 100 0 1 [0x10, 0] True), Select 2,
      Feed 0 0 (RtpPacket_build 96 500 0 2 [0x10, 1] True), Feed 0 0 (RtpPacket_build 96 101 9 1 [0x10, 1] True),
      Feed 0 0 (RtpPacket_build 96 501 7 2 [0x10, 0] True)]"

lemma switch_ops_run:
  "rewriter_run switch_ops (StreamRewriter_new VP8 9 1000 0) =
     [(RtpPacket_build 96 100 0 1 [0x10, 0] True, RtpPacket_build 96 1000 0 9 [0x10, 0] True),
      (RtpPacket_build 96 101 9 1 [0x10, 1] True, RtpPacket_build 96 1001 9 9 [0x10, 1] True),
      (RtpPacket_build 96 501 7 2 [0x10, 0] True, RtpPacket_build 96 1002 3009 9 [0x10, 0] True)]"
  by (simp add: switch_ops_def StreamRewriter_new_def StreamRewriter_select_def StreamRewriter_feed_def switch_to_def
      gap_ticks_def saturating_mul_u32_def RtpPacket_build_def vp8_inspect_def vp8_descriptor_len_def get_byte_def PayloadInfo_is_keyframe_start_def Let_def)

theorem rewriter_continuous_witness:
  "length (rewriter_run switch_ops (StreamRewriter_new VP8 9 1000 0)) = 3 \<and>
   sequence_number (header (snd (rewriter_run switch_ops (StreamRewriter_new VP8 9 1000 0) ! 2))) = 1002"
proof -
  let ?run = "rewriter_run switch_ops (StreamRewriter_new VP8 9 1000 0)"
  have "successively (\<lambda>(p, _) (p', _). ssrc (header p') = ssrc (header p) \<longrightarrow>
       sequence_number (header p') = sequence_number (header p) + 1) ?run"
    unfolding switch_ops_run by (simp add: RtpPacket_build_def)
  moreover have "length ?run = 3" unfolding switch_ops_run by simp
  ultimately show ?thesis using rewriter_continuous [OF refl, of switch_ops VP8 9 1000 0 2] by simp
qed

text \<open>
  The number a switch continues from is that of the packet sent last, not the highest: when the last packet of
  the old source arrived out of order, the switch sends a sequence number again.
\<close>

theorem rewriter_reuses_sequence:
  "map (\<lambda>x. sequence_number (header (snd x)))
     (rewriter_run
        [Select 1, Feed 0 0 (RtpPacket_build 96 100 0 1 [0x10, 0] True), Feed 0 0 (RtpPacket_build 96 102 2 1 [0x10, 1] True),
         Feed 0 0 (RtpPacket_build 96 101 1 1 [0x10, 1] True), Select 2, Feed 0 0 (RtpPacket_build 96 501 7 2 [0x10, 0] True)]
        (StreamRewriter_new VP8 9 1000 0)) = [1000, 1002, 1001, 1002]"
  by (simp add: StreamRewriter_new_def StreamRewriter_select_def StreamRewriter_feed_def switch_to_def
      RtpPacket_build_def vp8_inspect_def vp8_descriptor_len_def get_byte_def PayloadInfo_is_keyframe_start_def Let_def)

text \<open>
  After \<^verbatim>\<open>clear\<close> no source is current, and the next one continues with the timestamp of the packet sent
  last: two frames share it.
\<close>

theorem rewriter_clear_repeats_timestamp:
  "map (\<lambda>x. timestamp (header (snd x)))
     (rewriter_run
        [Select 1, Feed 0 0 (RtpPacket_build 96 100 0 1 [0x10, 0] True), Feed 0 0 (RtpPacket_build 96 101 3000 1 [0x10, 1] True),
         Clear, Select 2, Feed 0 0 (RtpPacket_build 96 501 7 2 [0x10, 0] True)]
        (StreamRewriter_new VP8 9 1000 0)) = [0, 3000, 3000]"
  by (simp add: StreamRewriter_new_def StreamRewriter_select_def StreamRewriter_feed_def StreamRewriter_clear_def switch_to_def
      RtpPacket_build_def vp8_inspect_def vp8_descriptor_len_def get_byte_def PayloadInfo_is_keyframe_start_def Let_def)

section \<open>Retransmission\<close>

record RtxCache =
  rc_capacity :: nat
  rc_order :: "u16 list"
  rc_packets :: "u16 \<rightharpoonup> bytes"

definition RtxCache_new :: "nat \<Rightarrow> RtxCache" where
  "RtxCache_new cap = \<lparr>rc_capacity = max cap 1, rc_order = [], rc_packets = Map.empty\<rparr>"

text \<open>The loop that drops the oldest packets.\<close>

fun rtx_evict :: "nat \<Rightarrow> u16 list \<Rightarrow> (u16 \<rightharpoonup> bytes) \<Rightarrow> u16 list \<times> (u16 \<rightharpoonup> bytes)" where
  "rtx_evict cap [] m = ([], m)"
| "rtx_evict cap (old # order) m =
     (if length (old # order) > cap then rtx_evict cap order (m(old := None)) else (old # order, m))"

definition RtxCache_push :: "u16 \<Rightarrow> bytes \<Rightarrow> RtxCache \<Rightarrow> RtxCache" where
  "RtxCache_push s packet c =
     (let order = (if rc_packets c s = None then rc_order c @ [s] else rc_order c)
      in case rtx_evict (rc_capacity c) order ((rc_packets c)(s \<mapsto> packet)) of
           (order', m) \<Rightarrow> c\<lparr>rc_order := order', rc_packets := m\<rparr>)"

definition RtxCache_get :: "u16 \<Rightarrow> RtxCache \<Rightarrow> bytes option" where
  "RtxCache_get s c = rc_packets c s"

definition RtxCache_lookup :: "u16 list \<Rightarrow> RtxCache \<Rightarrow> (u16 \<times> bytes) list" where
  "RtxCache_lookup seqs c = List.map_filter (\<lambda>s. map_option (Pair s) (rc_packets c s)) seqs"

definition RtxCache_len :: "RtxCache \<Rightarrow> nat" where
  "RtxCache_len c = length (rc_order c)"

definition RtxCache_clear :: "RtxCache \<Rightarrow> RtxCache" where
  "RtxCache_clear c = c\<lparr>rc_order := [], rc_packets := Map.empty\<rparr>"

definition cache_ok :: "RtxCache \<Rightarrow> bool" where
  "cache_ok c \<longleftrightarrow> 1 \<le> rc_capacity c \<and> distinct (rc_order c) \<and> length (rc_order c) \<le> rc_capacity c \<and>
     dom (rc_packets c) = set (rc_order c)"

lemma rtx_evict_once:
  "length order \<le> Suc cap \<Longrightarrow>
     rtx_evict cap order m =
       (if length order \<le> cap then (order, m) else (tl order, m(hd order := None)))"
  by (cases order; cases "tl order") auto

lemma RtxCache_push_new:
  assumes "cache_ok c" "rc_packets c s = None"
  shows "RtxCache_push s p c =
    (if length (rc_order c) < rc_capacity c
     then c\<lparr>rc_order := rc_order c @ [s], rc_packets := (rc_packets c)(s \<mapsto> p)\<rparr>
     else c\<lparr>rc_order := tl (rc_order c) @ [s], rc_packets := ((rc_packets c)(s \<mapsto> p))(hd (rc_order c) := None)\<rparr>)"
  using assms by (cases "rc_order c") (auto simp: RtxCache_push_def cache_ok_def rtx_evict_once Suc_le_eq)

lemma RtxCache_push_known:
  assumes "cache_ok c" "rc_packets c s \<noteq> None"
  shows "RtxCache_push s p c = c\<lparr>rc_packets := (rc_packets c)(s \<mapsto> p)\<rparr>"
  using assms by (auto simp: RtxCache_push_def cache_ok_def rtx_evict_once)

lemma RtxCache_push_ok: "cache_ok c \<Longrightarrow> cache_ok (RtxCache_push s p c)"
proof (cases "rc_packets c s")
  case None
  assume ok: "cache_ok c"
  have "s \<notin> set (rc_order c)" using ok None by (auto simp: cache_ok_def)
  then show ?thesis
    using ok None by (cases "rc_order c") (auto simp: RtxCache_push_new cache_ok_def)
next
  case (Some q)
  assume ok: "cache_ok c"
  then show ?thesis using Some by (auto simp: RtxCache_push_known cache_ok_def)
qed

lemma RtxCache_clear_ok: "cache_ok c \<Longrightarrow> cache_ok (RtxCache_clear c)"
  by (simp add: RtxCache_clear_def cache_ok_def)

definition rtx_step :: "(u16 \<times> bytes) option \<Rightarrow> RtxCache \<Rightarrow> RtxCache" where
  "rtx_step op c = (case op of Some (s, p) \<Rightarrow> RtxCache_push s p c | None \<Rightarrow> RtxCache_clear c)"

interpretation rtx: stepped_system cache_ok rtx_step
  by unfold_locales (auto simp: rtx_step_def RtxCache_push_ok RtxCache_clear_ok split: option.split)

lemma RtxCache_new_ok: "cache_ok (RtxCache_new cap)"
  by (simp add: cache_ok_def RtxCache_new_def)

lemma of_nat_window: "i < j \<Longrightarrow> j < i + 65536 \<Longrightarrow> (of_nat i :: u16) \<noteq> of_nat j"
proof
  assume ij: "i < j" "j < i + 65536" and "(of_nat i :: u16) = of_nat j"
  then have "65536 dvd j - i"
    using mod_eq_dvd_iff_nat [of i j 65536] by (simp add: word_of_nat_eq_iff take_bit_eq_mod)
  then show False using ij by (auto dest: dvd_imp_le)
qed

text \<open>A run of consecutive sequence numbers: the cache holds the last of them.\<close>

definition rtx_window :: "nat \<Rightarrow> u16 \<Rightarrow> (nat \<Rightarrow> bytes) \<Rightarrow> nat \<Rightarrow> RtxCache" where
  "rtx_window cap s0 pk n =
     \<lparr>rc_capacity = cap, rc_order = map (\<lambda>i. s0 + of_nat i) [n - cap..<n],
      rc_packets = map_of (map (\<lambda>i. (s0 + of_nat i, pk i)) [n - cap..<n])\<rparr>"

lemma rtx_window_key: "cap < 65536 \<Longrightarrow> i < n \<Longrightarrow> n - cap \<le> i \<Longrightarrow> s0 + of_nat i \<noteq> s0 + (of_nat n :: u16)"
  using of_nat_window [of i n] by simp

lemma rtx_window_ok:
  assumes "1 \<le> cap" "cap < 65536"
  shows "cache_ok (rtx_window cap s0 pk n)"
proof -
  have "inj_on (\<lambda>i. s0 + of_nat i :: u16) {n - cap..<n}"
  proof (rule inj_onI)
    fix i j
    assume ij: "i \<in> {n - cap..<n}" "j \<in> {n - cap..<n}" and e: "s0 + of_nat i = (s0 + of_nat j :: u16)"
    have "i < j + 65536" "j < i + 65536" using ij assms(2) by auto
    then show "i = j"
      using e of_nat_window [of i j] of_nat_window [of j i] by (cases i j rule: linorder_cases) auto
  qed
  then show ?thesis
    using assms(1) by (auto simp: cache_ok_def rtx_window_def distinct_map dom_map_of_conv_image_fst image_image)
qed

lemma rtx_window_push:
  assumes "1 \<le> cap" "cap < 65536"
  shows "RtxCache_push (s0 + of_nat n) (pk n) (rtx_window cap s0 pk n) = rtx_window cap s0 pk (Suc n)"
proof -
  let ?c = "rtx_window cap s0 pk n"
  have new: "rc_packets ?c (s0 + of_nat n) = None"
    using rtx_window_key [OF assms(2)] by (fastforce simp: rtx_window_def map_of_eq_None_iff)
  note push = RtxCache_push_new [OF rtx_window_ok [OF assms] new, of "pk n"]
  show ?thesis
  proof (cases "n < cap")
    case True
    then show ?thesis
      using new by (auto simp: push) (auto simp: rtx_window_def map_add_def fun_eq_iff split: option.splits)
  next
    case False
    obtain b where b: "b = n - cap" by simp
    have keys: "s0 + of_nat b \<noteq> s0 + (of_nat i :: u16)" if "b < i" "i \<le> n" for i
      using of_nat_window [of b i] that assms False by (simp add: b)
    have w: "[n - cap..<n] = b # [Suc n - cap..<n]" "[Suc n - cap..<Suc n] = [Suc n - cap..<n] @ [n]"
      using False assms(1) by (simp_all add: b upt_conv_Cons Suc_diff_le)
    have gone: "map_of (map (\<lambda>i. (s0 + of_nat i, pk i)) [Suc n - cap..<n]) (s0 + of_nat b) = None"
    proof -
      have "b < k" if "Suc n - cap \<le> k" for k using that False by (simp add: b Suc_diff_le)
      then show ?thesis using keys unfolding map_of_eq_None_iff by force
    qed
    show ?thesis
      using new False keys [of n] gone assms(1)
      by (auto simp: push) (auto simp: rtx_window_def w map_add_def fun_eq_iff split: option.splits)
  qed
qed

lemma rtx_window_run:
  assumes "1 \<le> cap" "cap < 65536"
  shows "fold (\<lambda>i. RtxCache_push (s0 + of_nat i) (pk i)) [0..<n] (RtxCache_new cap) = rtx_window cap s0 pk n"
proof (induction n)
  case 0
  then show ?case using assms(1) by (simp add: RtxCache_new_def rtx_window_def)
next
  case (Suc n)
  then show ?case using rtx_window_push [OF assms, of s0 n pk] by simp
qed

lemma rtx_window_get:
  assumes "cap < 65536" "i < n" "n \<le> i + 65536"
  shows "RtxCache_get (s0 + of_nat i) (rtx_window cap s0 pk n) = (if n \<le> i + cap then Some (pk i) else None)"
proof -
  let ?w = "map (\<lambda>i. (s0 + of_nat i, pk i)) [n - cap..<n]"
  have d: "(s0 + of_nat i :: u16) \<noteq> s0 + of_nat j" if "n - cap \<le> j" "j < n" "j \<noteq> i" for j
  proof -
    have "i < j + 65536" "j < i + 65536" using that assms by auto
    then show ?thesis using of_nat_window [of i j] of_nat_window [of j i] that(3) by (cases i j rule: linorder_cases) auto
  qed
  show ?thesis
  proof (cases "n \<le> i + cap")
    case True
    have only: "v = pk i" if m: "map_of ?w (s0 + of_nat i) = Some v" for v
    proof -
      obtain k where "n - cap \<le> k" "k < n" "s0 + of_nat i = (s0 + of_nat k :: u16)" "v = pk k"
        using map_of_SomeD [OF m] by auto
      then show ?thesis using d [of k] by (cases "k = i") auto
    qed
    have "s0 + of_nat i \<in> fst ` set ?w" using True assms(2) by (force simp: image_image)
    then obtain v where "map_of ?w (s0 + of_nat i) = Some v" by (cases "map_of ?w (s0 + of_nat i)") (auto simp: map_of_eq_None_iff)
    then show ?thesis using True only by (simp add: RtxCache_get_def rtx_window_def)
  next
    case False
    have "s0 + of_nat i \<notin> fst ` set ?w"
    proof
      assume "s0 + of_nat i \<in> fst ` set ?w"
      then obtain k where "n - cap \<le> k" "k < n" "s0 + of_nat i = (s0 + of_nat k :: u16)" by auto
      then show False using d [of k] False by (cases "k = i") auto
    qed
    then show ?thesis using False by (simp add: RtxCache_get_def rtx_window_def map_of_eq_None_iff)
  qed
qed

section \<open>Key frame requests\<close>

record KeyframeRequestGate =
  min_interval :: duration
  last_allowed :: "instant option"
  absorbed :: nat

definition KeyframeRequestGate_new :: "duration \<Rightarrow> KeyframeRequestGate" where
  "KeyframeRequestGate_new d = \<lparr>min_interval = d, last_allowed = None, absorbed = 0\<rparr>"

definition KeyframeRequestGate_allow_at :: "instant \<Rightarrow> KeyframeRequestGate \<Rightarrow> KeyframeRequestGate \<times> bool" where
  "KeyframeRequestGate_allow_at now g =
     (case last_allowed g of
        Some t \<Rightarrow>
          if now - t < min_interval g then (g\<lparr>absorbed := absorbed g + 1\<rparr>, False)
          else (g\<lparr>last_allowed := Some now\<rparr>, True)
      | None \<Rightarrow> (g\<lparr>last_allowed := Some now\<rparr>, True))"

definition KeyframeRequestGate_reset :: "KeyframeRequestGate \<Rightarrow> KeyframeRequestGate" where
  "KeyframeRequestGate_reset g = g\<lparr>last_allowed := None\<rparr>"

text \<open>The instants at which a request went through, and the final state.\<close>

fun gate_run :: "instant list \<Rightarrow> KeyframeRequestGate \<Rightarrow> KeyframeRequestGate \<times> instant list" where
  "gate_run [] g = (g, [])"
| "gate_run (t # ts) g =
     (case KeyframeRequestGate_allow_at t g of
        (g', ok) \<Rightarrow> (case gate_run ts g' of (g'', out) \<Rightarrow> (g'', (if ok then [t] else []) @ out)))"

lemma gate_run_spaced:
  "gate_run ts g = (g', out) \<Longrightarrow>
     successively (\<lambda>t u. t + min_interval g \<le> u \<or> min_interval g = 0)
       ((case last_allowed g of None \<Rightarrow> [] | Some t \<Rightarrow> [t]) @ out) \<and>
     absorbed g' + length out = absorbed g + length ts"
proof (induction ts arbitrary: g g' out)
  case (Cons t ts)
  obtain h ok where h: "KeyframeRequestGate_allow_at t g = (h, ok)" by (cases "KeyframeRequestGate_allow_at t g")
  obtain out' where o: "gate_run ts h = (g', out')" "out = (if ok then [t] else []) @ out'"
    using Cons.prems h by (auto split: prod.splits)
  show ?case
    using Cons.IH [OF o(1)] h o(2)
    by (auto simp: KeyframeRequestGate_allow_at_def split: option.splits if_splits)
qed (auto split: option.splits)

section \<open>Properties of the cache and the gate\<close>

text \<open>
  NACKs can be answered for the last packets. Of a stream of packets with consecutive sequence numbers, with
  wrap-around, the cache returns each of the last \<^verbatim>\<open>capacity\<close> packets by its number, and none of the
  older ones; it never holds more than its capacity.
\<close>

theorem rtx_cache_last:
  assumes "1 \<le> cap" "cap < 65536" "i < n" "n \<le> i + 65536"
  shows "let c = fold (\<lambda>i. RtxCache_push (s0 + of_nat i) (pk i)) [0..<n] (RtxCache_new cap)
    in RtxCache_get (s0 + of_nat i) c = (if n \<le> i + cap then Some (pk i) else None) \<and> RtxCache_len c \<le> cap"
  using rtx_window_run [OF assms(1,2), of s0 pk n] rtx_window_get [OF assms(2-4), of s0 pk]
  by (simp add: RtxCache_len_def) (simp add: rtx_window_def)

theorem rtx_cache_last_witness:
  "RtxCache_get 0x10000 (fold (\<lambda>i. RtxCache_push (0xFFFF + of_nat i) [of_nat i]) [0..<3] (RtxCache_new 2)) = Some [1] \<and>
   RtxCache_get 0xFFFF (fold (\<lambda>i. RtxCache_push (0xFFFF + of_nat i) [of_nat i]) [0..<3] (RtxCache_new 2)) = None"
  using rtx_cache_last [of 2 1 3 "0xFFFF" "\<lambda>i. [of_nat i]"] rtx_cache_last [of 2 0 3 "0xFFFF" "\<lambda>i. [of_nat i]"]
  by (simp add: Let_def del: fold_simps upt_rec_numeral)

text \<open>
  Key frame requests do not flood: of any requests, two that go through are at least
  \<^verbatim>\<open>min_interval\<close> apart, in the order in which they are made, and every other request is counted as
  absorbed.
\<close>

theorem keyframe_gate_spacing:
  "case gate_run ts (KeyframeRequestGate_new d) of (g, out) \<Rightarrow>
     successively (\<lambda>t u. t + d \<le> u \<or> d = 0) out \<and> absorbed g + length out = length ts"
  using gate_run_spaced [of ts "KeyframeRequestGate_new d"]
  by (cases "gate_run ts (KeyframeRequestGate_new d)") (simp add: KeyframeRequestGate_new_def)

end
