(* ===== verification/Stun.thy ===== *)
theory Stun
  imports Utf8
begin

unbundle bit_operations_syntax

text \<open>
  The STUN messages of \<^verbatim>\<open>forge-ice/src/stun.rs\<close>: message and attribute types, serialisation and parsing,
  the FINGERPRINT checksum and the MESSAGE-INTEGRITY tag, the authenticated server that answers the
  connectivity checks, and the requests and checks of the client. HMAC-SHA1 belongs to another crate and is the
  parameter \<open>mac\<close>: from a key and an input the error of its constructor or the tag.
  Parsing reads back what was written and what was received stays verifiable byte for byte, the checksum detects every change within four
  consecutive octets, the server answers exactly the requests that prove knowledge of the password, and
  a check between two agents of this code succeeds. Arrays of the source are lists, with their lengths in
  the well-formedness predicates.
\<close>

section \<open>Definitions\<close>

definition MAGIC_COOKIE :: u32 where
  "MAGIC_COOKIE = 0x2112A442"

subsection \<open>Types of messages and attributes\<close>

datatype MessageType =
    BindingRequest | BindingResponse | BindingErrorResponse
  | AllocateRequest | AllocateResponse | AllocateErrorResponse
  | RefreshRequest | RefreshResponse | RefreshErrorResponse
  | CreatePermissionRequest | CreatePermissionResponse | CreatePermissionErrorResponse
  | ChannelBindRequest | ChannelBindResponse | ChannelBindErrorResponse
  | SendIndication | DataIndication

fun MessageType_u16 :: "MessageType \<Rightarrow> u16" where
  "MessageType_u16 BindingRequest = 0x0001"
| "MessageType_u16 BindingResponse = 0x0101"
| "MessageType_u16 BindingErrorResponse = 0x0111"
| "MessageType_u16 AllocateRequest = 0x0003"
| "MessageType_u16 AllocateResponse = 0x0103"
| "MessageType_u16 AllocateErrorResponse = 0x0113"
| "MessageType_u16 RefreshRequest = 0x0004"
| "MessageType_u16 RefreshResponse = 0x0104"
| "MessageType_u16 RefreshErrorResponse = 0x0114"
| "MessageType_u16 CreatePermissionRequest = 0x0008"
| "MessageType_u16 CreatePermissionResponse = 0x0108"
| "MessageType_u16 CreatePermissionErrorResponse = 0x0118"
| "MessageType_u16 ChannelBindRequest = 0x0009"
| "MessageType_u16 ChannelBindResponse = 0x0109"
| "MessageType_u16 ChannelBindErrorResponse = 0x0119"
| "MessageType_u16 SendIndication = 0x0016"
| "MessageType_u16 DataIndication = 0x0017"

definition MessageType_from_u16 :: "u16 \<Rightarrow> MessageType option" where
  "MessageType_from_u16 v =
     (if v = 0x0001 then Some BindingRequest
      else if v = 0x0101 then Some BindingResponse
      else if v = 0x0111 then Some BindingErrorResponse
      else if v = 0x0003 then Some AllocateRequest
      else if v = 0x0103 then Some AllocateResponse
      else if v = 0x0113 then Some AllocateErrorResponse
      else if v = 0x0004 then Some RefreshRequest
      else if v = 0x0104 then Some RefreshResponse
      else if v = 0x0114 then Some RefreshErrorResponse
      else if v = 0x0008 then Some CreatePermissionRequest
      else if v = 0x0108 then Some CreatePermissionResponse
      else if v = 0x0118 then Some CreatePermissionErrorResponse
      else if v = 0x0009 then Some ChannelBindRequest
      else if v = 0x0109 then Some ChannelBindResponse
      else if v = 0x0119 then Some ChannelBindErrorResponse
      else if v = 0x0016 then Some SendIndication
      else if v = 0x0017 then Some DataIndication
      else None)"

definition MessageType_is_error :: "MessageType \<Rightarrow> bool" where
  "MessageType_is_error t \<longleftrightarrow> MessageType_u16 t AND 0x0110 = 0x0110"

datatype AttributeType =
    AT_MappedAddress | AT_Username | AT_XorMappedAddress | AT_MessageIntegrity | AT_Priority
  | AT_IceControlled | AT_IceControlling | AT_Fingerprint | AT_UseCandidate | AT_ErrorCode
  | AT_Realm | AT_Nonce | AT_ChannelNumber | AT_Lifetime | AT_XorPeerAddress | AT_Data
  | AT_XorRelayedAddress | AT_RequestedTransport

fun AttributeType_u16 :: "AttributeType \<Rightarrow> u16" where
  "AttributeType_u16 AT_MappedAddress = 0x0001"
| "AttributeType_u16 AT_Username = 0x0006"
| "AttributeType_u16 AT_XorMappedAddress = 0x0020"
| "AttributeType_u16 AT_MessageIntegrity = 0x0008"
| "AttributeType_u16 AT_Priority = 0x0024"
| "AttributeType_u16 AT_IceControlled = 0x8029"
| "AttributeType_u16 AT_IceControlling = 0x802a"
| "AttributeType_u16 AT_Fingerprint = 0x8028"
| "AttributeType_u16 AT_UseCandidate = 0x0025"
| "AttributeType_u16 AT_ErrorCode = 0x0009"
| "AttributeType_u16 AT_Realm = 0x0014"
| "AttributeType_u16 AT_Nonce = 0x0015"
| "AttributeType_u16 AT_ChannelNumber = 0x000C"
| "AttributeType_u16 AT_Lifetime = 0x000D"
| "AttributeType_u16 AT_XorPeerAddress = 0x0012"
| "AttributeType_u16 AT_Data = 0x0013"
| "AttributeType_u16 AT_XorRelayedAddress = 0x0016"
| "AttributeType_u16 AT_RequestedTransport = 0x0019"

definition AttributeType_from_u16 :: "u16 \<Rightarrow> AttributeType option" where
  "AttributeType_from_u16 v =
     (if v = 0x0001 then Some AT_MappedAddress
      else if v = 0x0006 then Some AT_Username
      else if v = 0x0020 then Some AT_XorMappedAddress
      else if v = 0x0008 then Some AT_MessageIntegrity
      else if v = 0x0024 then Some AT_Priority
      else if v = 0x8029 then Some AT_IceControlled
      else if v = 0x802a then Some AT_IceControlling
      else if v = 0x8028 then Some AT_Fingerprint
      else if v = 0x0025 then Some AT_UseCandidate
      else if v = 0x0009 then Some AT_ErrorCode
      else if v = 0x0014 then Some AT_Realm
      else if v = 0x0015 then Some AT_Nonce
      else if v = 0x000C then Some AT_ChannelNumber
      else if v = 0x000D then Some AT_Lifetime
      else if v = 0x0012 then Some AT_XorPeerAddress
      else if v = 0x0013 then Some AT_Data
      else if v = 0x0016 then Some AT_XorRelayedAddress
      else if v = 0x0019 then Some AT_RequestedTransport
      else None)"

text \<open>
  A \<^verbatim>\<open>SocketAddr\<close> is its address and port: the flow and scope of an IPv6 address are not read here. An IPv4
  address is the integer \<^verbatim>\<open>u32::from\<close> gives, an IPv6 address its sixteen octets.
\<close>

datatype IpAddr = V4 u32 | V6 bytes

record SocketAddr =
  ip :: IpAddr
  port :: u16

datatype StunAttribute =
    SA_XorMappedAddress SocketAddr
  | SA_MappedAddress SocketAddr
  | SA_Username bytes
  | SA_Priority u32
  | SA_IceControlled u64
  | SA_IceControlling u64
  | SA_Fingerprint u32
  | SA_MessageIntegrity bytes
  | SA_UseCandidate
  | SA_ErrorCode u16 bytes
  | SA_Realm bytes
  | SA_Nonce bytes
  | SA_ChannelNumber u16
  | SA_Lifetime u32
  | SA_XorPeerAddress SocketAddr
  | SA_Data bytes
  | SA_XorRelayedAddress SocketAddr
  | SA_RequestedTransport u8
  | SA_Unknown u16 bytes

record StunMessage =
  message_type :: MessageType
  transaction_id :: bytes
  attributes :: "StunAttribute list"
  raw :: bytes

subsection \<open>Addresses\<close>

text \<open>The random transaction id of a new request is an argument.\<close>

definition new_with_transaction :: "MessageType \<Rightarrow> bytes \<Rightarrow> StunMessage" where
  "new_with_transaction t tid =
     \<lparr>message_type = t, transaction_id = tid, attributes = [], raw = []\<rparr>"

definition new_request :: "bytes \<Rightarrow> MessageType \<Rightarrow> StunMessage" where
  "new_request rng t = \<lparr>message_type = t, transaction_id = rng, attributes = [], raw = []\<rparr>"

definition new_binding_request :: "bytes \<Rightarrow> StunMessage" where
  "new_binding_request rng =
     \<lparr>message_type = BindingRequest, transaction_id = rng, attributes = [], raw = []\<rparr>"

definition cookie_port :: u16 where
  "cookie_port = ucast (drop_bit 16 MAGIC_COOKIE)"

definition xor_mask :: "bytes \<Rightarrow> bytes" where
  "xor_mask tid = to_be32 MAGIC_COOKIE @ tid"

fun parse_xor_mapped_address :: "bytes \<Rightarrow> bytes \<Rightarrow> ForgeError + SocketAddr" where
  "parse_xor_mapped_address (f1 # f2 # p1 # p2 # a # b # c # d # rest) tid =
     (let family = be16 f1 f2; prt = be16 p1 p2 XOR cookie_port in
      if family = 0x01 then Inr \<lparr>ip = V4 (be32 a b c d XOR MAGIC_COOKIE), port = prt\<rparr>
      else if family = 0x02 then
        if 8 + length rest < 20 then Inl (Ice ''Invalid XOR-MAPPED-ADDRESS length'')
        else Inr \<lparr>ip = V6 (xor_bytes (take 16 (a # b # c # d # rest)) (xor_mask tid)), port = prt\<rparr>
      else Inl (Ice (''Unknown address family: '' @ show_nat (unat family))))"
| "parse_xor_mapped_address _ tid = Inl (Ice ''XOR-MAPPED-ADDRESS too short'')"

fun parse_mapped_address :: "bytes \<Rightarrow> ForgeError + SocketAddr" where
  "parse_mapped_address (f1 # f2 # p1 # p2 # a # b # c # d # rest) =
     (let family = be16 f1 f2; prt = be16 p1 p2 in
      if family = 0x01 then Inr \<lparr>ip = V4 (be32 a b c d), port = prt\<rparr>
      else if family = 0x02 then
        if 8 + length rest < 20 then Inl (Ice ''Invalid MAPPED-ADDRESS length'')
        else Inr \<lparr>ip = V6 (take 16 (a # b # c # d # rest)), port = prt\<rparr>
      else Inl (Ice (''Unknown address family: '' @ show_nat (unat family))))"
| "parse_mapped_address _ = Inl (Ice ''MAPPED-ADDRESS too short'')"

definition serialize_xor_mapped_address :: "SocketAddr \<Rightarrow> bytes \<Rightarrow> bytes" where
  "serialize_xor_mapped_address addr tid =
     (case ip addr of
        V4 w \<Rightarrow> to_be16 8 @ to_be16 0x01 @ to_be16 (port addr XOR cookie_port) @ to_be32 (w XOR MAGIC_COOKIE)
      | V6 os \<Rightarrow> to_be16 20 @ to_be16 0x02 @ to_be16 (port addr XOR cookie_port) @ xor_bytes os (xor_mask tid))"

definition serialize_mapped_address :: "SocketAddr \<Rightarrow> bytes" where
  "serialize_mapped_address addr =
     (case ip addr of
        V4 w \<Rightarrow> to_be16 8 @ to_be16 0x01 @ to_be16 (port addr) @ to_be32 w
      | V6 os \<Rightarrow> to_be16 20 @ to_be16 0x02 @ to_be16 (port addr) @ os)"

subsection \<open>Attributes\<close>

text \<open>The padding of a value of \<open>n\<close> octets to a multiple of four.\<close>

definition pad_len :: "nat \<Rightarrow> nat" where
  "pad_len n = (4 - n mod 4) mod 4"

definition pad_zeros :: "nat \<Rightarrow> bytes" where
  "pad_zeros n = replicate (pad_len n) 0"

fun addr_len :: "SocketAddr \<Rightarrow> nat" where
  "addr_len addr = (case ip addr of V4 _ \<Rightarrow> 8 | V6 _ \<Rightarrow> 20)"

fun StunAttribute_value_len :: "StunAttribute \<Rightarrow> nat" where
  "StunAttribute_value_len (SA_XorMappedAddress addr) = addr_len addr"
| "StunAttribute_value_len (SA_MappedAddress addr) = addr_len addr"
| "StunAttribute_value_len (SA_Username v) = length v"
| "StunAttribute_value_len (SA_Priority _) = 4"
| "StunAttribute_value_len (SA_IceControlled _) = 8"
| "StunAttribute_value_len (SA_IceControlling _) = 8"
| "StunAttribute_value_len (SA_MessageIntegrity _) = 20"
| "StunAttribute_value_len (SA_Fingerprint _) = 4"
| "StunAttribute_value_len SA_UseCandidate = 0"
| "StunAttribute_value_len (SA_ErrorCode _ reason) = 4 + length reason"
| "StunAttribute_value_len (SA_Realm v) = length v"
| "StunAttribute_value_len (SA_Nonce v) = length v"
| "StunAttribute_value_len (SA_ChannelNumber _) = 4"
| "StunAttribute_value_len (SA_Lifetime _) = 4"
| "StunAttribute_value_len (SA_XorPeerAddress addr) = addr_len addr"
| "StunAttribute_value_len (SA_XorRelayedAddress addr) = addr_len addr"
| "StunAttribute_value_len (SA_Data v) = length v"
| "StunAttribute_value_len (SA_RequestedTransport _) = 4"
| "StunAttribute_value_len (SA_Unknown _ v) = length v"

fun StunAttribute_serialize :: "StunAttribute \<Rightarrow> bytes \<Rightarrow> bytes option \<Rightarrow> bytes" where
  "StunAttribute_serialize (SA_XorMappedAddress addr) tid ov =
     to_be16 (AttributeType_u16 AT_XorMappedAddress) @ serialize_xor_mapped_address addr tid"
| "StunAttribute_serialize (SA_MappedAddress addr) tid ov =
     to_be16 (AttributeType_u16 AT_MappedAddress) @ serialize_mapped_address addr"
| "StunAttribute_serialize (SA_Username v) tid ov =
     to_be16 (AttributeType_u16 AT_Username) @ to_be16 (of_nat (length v)) @ v @ pad_zeros (length v)"
| "StunAttribute_serialize (SA_Priority p) tid ov =
     to_be16 (AttributeType_u16 AT_Priority) @ to_be16 4 @ to_be32 p"
| "StunAttribute_serialize (SA_IceControlled t) tid ov =
     to_be16 (AttributeType_u16 AT_IceControlled) @ to_be16 8 @ to_be64 t"
| "StunAttribute_serialize (SA_IceControlling t) tid ov =
     to_be16 (AttributeType_u16 AT_IceControlling) @ to_be16 8 @ to_be64 t"
| "StunAttribute_serialize (SA_MessageIntegrity v) tid ov =
     to_be16 (AttributeType_u16 AT_MessageIntegrity) @ to_be16 20
       @ (case ov of Some override_val \<Rightarrow> override_val | None \<Rightarrow> v)"
| "StunAttribute_serialize (SA_Fingerprint crc) tid ov =
     to_be16 (AttributeType_u16 AT_Fingerprint) @ to_be16 4 @ to_be32 crc"
| "StunAttribute_serialize SA_UseCandidate tid ov =
     to_be16 (AttributeType_u16 AT_UseCandidate) @ to_be16 0"
| "StunAttribute_serialize (SA_ErrorCode code reason) tid ov =
     to_be16 (AttributeType_u16 AT_ErrorCode) @ to_be16 (of_nat (4 + length reason)) @ to_be16 0
       @ [ucast (code div 100), ucast (code mod 100)] @ reason @ pad_zeros (length reason)"
| "StunAttribute_serialize (SA_Realm v) tid ov =
     to_be16 (AttributeType_u16 AT_Realm) @ to_be16 (of_nat (length v)) @ v @ pad_zeros (length v)"
| "StunAttribute_serialize (SA_Nonce v) tid ov =
     to_be16 (AttributeType_u16 AT_Nonce) @ to_be16 (of_nat (length v)) @ v @ pad_zeros (length v)"
| "StunAttribute_serialize (SA_ChannelNumber n) tid ov =
     to_be16 (AttributeType_u16 AT_ChannelNumber) @ to_be16 4 @ to_be16 n @ to_be16 0"
| "StunAttribute_serialize (SA_Lifetime secs) tid ov =
     to_be16 (AttributeType_u16 AT_Lifetime) @ to_be16 4 @ to_be32 secs"
| "StunAttribute_serialize (SA_XorPeerAddress addr) tid ov =
     to_be16 (AttributeType_u16 AT_XorPeerAddress) @ serialize_xor_mapped_address addr tid"
| "StunAttribute_serialize (SA_Data v) tid ov =
     to_be16 (AttributeType_u16 AT_Data) @ to_be16 (of_nat (length v)) @ v @ pad_zeros (length v)"
| "StunAttribute_serialize (SA_XorRelayedAddress addr) tid ov =
     to_be16 (AttributeType_u16 AT_XorRelayedAddress) @ serialize_xor_mapped_address addr tid"
| "StunAttribute_serialize (SA_RequestedTransport proto) tid ov =
     to_be16 (AttributeType_u16 AT_RequestedTransport) @ to_be16 4 @ [proto] @ [0] @ to_be16 0"
| "StunAttribute_serialize (SA_Unknown t v) tid ov =
     to_be16 t @ to_be16 (of_nat (length v)) @ v @ pad_zeros (length v)"

text \<open>The body of the loop of \<^verbatim>\<open>StunMessage::parse\<close>: the \<^verbatim>\<open>match\<close> on the type of an attribute.\<close>

definition map_addr :: "(SocketAddr \<Rightarrow> StunAttribute) \<Rightarrow> ForgeError + SocketAddr \<Rightarrow> ForgeError + StunAttribute"
where
  "map_addr f r = (case r of Inl e \<Rightarrow> Inl e | Inr a \<Rightarrow> Inr (f a))"

fun parse_attribute :: "AttributeType option \<Rightarrow> u16 \<Rightarrow> bytes \<Rightarrow> bytes \<Rightarrow> ForgeError + StunAttribute" where
  "parse_attribute (Some AT_XorMappedAddress) t v tid =
     map_addr SA_XorMappedAddress (parse_xor_mapped_address v tid)"
| "parse_attribute (Some AT_MappedAddress) t v tid = map_addr SA_MappedAddress (parse_mapped_address v)"
| "parse_attribute (Some AT_Username) t v tid =
     Inr (if valid_utf8 v then SA_Username v else SA_Unknown t v)"
| "parse_attribute (Some AT_Priority) t v tid =
     Inr (case v of [a, b, c, d] \<Rightarrow> SA_Priority (be32 a b c d) | _ \<Rightarrow> SA_Unknown t v)"
| "parse_attribute (Some AT_IceControlled) t v tid =
     Inr (case v of [a, b, c, d, e, f, g, h] \<Rightarrow> SA_IceControlled (be64 a b c d e f g h) | _ \<Rightarrow> SA_Unknown t v)"
| "parse_attribute (Some AT_IceControlling) t v tid =
     Inr (case v of [a, b, c, d, e, f, g, h] \<Rightarrow> SA_IceControlling (be64 a b c d e f g h) | _ \<Rightarrow> SA_Unknown t v)"
| "parse_attribute (Some AT_MessageIntegrity) t v tid =
     Inr (if length v = 20 then SA_MessageIntegrity v else SA_Unknown t v)"
| "parse_attribute (Some AT_UseCandidate) t v tid = Inr SA_UseCandidate"
| "parse_attribute (Some AT_Fingerprint) t v tid =
     Inr (case v of [a, b, c, d] \<Rightarrow> SA_Fingerprint (be32 a b c d) | _ \<Rightarrow> SA_Unknown t v)"
| "parse_attribute (Some AT_ErrorCode) t v tid =
     Inr (case v of
            _ # _ # c # n # reason \<Rightarrow> SA_ErrorCode (ucast c * 100 + ucast n) (from_utf8_lossy reason)
          | _ \<Rightarrow> SA_Unknown t v)"
| "parse_attribute (Some AT_Realm) t v tid = Inr (SA_Realm (from_utf8_lossy v))"
| "parse_attribute (Some AT_Nonce) t v tid = Inr (SA_Nonce v)"
| "parse_attribute (Some AT_ChannelNumber) t v tid =
     Inr (case v of a # b # _ \<Rightarrow> SA_ChannelNumber (be16 a b) | _ \<Rightarrow> SA_Unknown t v)"
| "parse_attribute (Some AT_Lifetime) t v tid =
     Inr (case v of a # b # c # d # _ \<Rightarrow> SA_Lifetime (be32 a b c d) | _ \<Rightarrow> SA_Unknown t v)"
| "parse_attribute (Some AT_XorPeerAddress) t v tid =
     map_addr SA_XorPeerAddress (parse_xor_mapped_address v tid)"
| "parse_attribute (Some AT_Data) t v tid = Inr (SA_Data v)"
| "parse_attribute (Some AT_XorRelayedAddress) t v tid =
     map_addr SA_XorRelayedAddress (parse_xor_mapped_address v tid)"
| "parse_attribute (Some AT_RequestedTransport) t v tid =
     Inr (case v of p # _ \<Rightarrow> SA_RequestedTransport p | _ \<Rightarrow> SA_Unknown t v)"
| "parse_attribute None t v tid = Inr (SA_Unknown t v)"

text \<open>The loop itself, over the octets from the offset to the end of the message.\<close>

function parse_stun_attributes :: "bytes \<Rightarrow> bytes \<Rightarrow> ForgeError + StunAttribute list" where
  "parse_stun_attributes tid bs =
     (case bs of
        t1 # t2 # l1 # l2 # rest \<Rightarrow>
          (let attr_type = be16 t1 t2; attr_len = unat (be16 l1 l2) in
           if length rest < attr_len then Inl (Ice ''Truncated attribute'')
           else
             (case parse_attribute (AttributeType_from_u16 attr_type) attr_type (take attr_len rest) tid of
                Inl e \<Rightarrow> Inl e
              | Inr a \<Rightarrow>
                  (case parse_stun_attributes tid (drop (attr_len + pad_len attr_len) rest) of
                     Inl e \<Rightarrow> Inl e
                   | Inr as \<Rightarrow> Inr (a # as))))
      | _ \<Rightarrow> Inr [])"
  by pat_completeness auto
termination by (relation "measure (\<lambda>(tid, bs). length bs)") auto

declare parse_stun_attributes.simps [simp del]

subsection \<open>Messages\<close>

definition attrs_length :: "StunAttribute list \<Rightarrow> nat" where
  "attrs_length as =
     (\<Sum>a\<leftarrow>as. 4 + StunAttribute_value_len a + pad_len (StunAttribute_value_len a))"

definition serialize_prefix :: "StunMessage \<Rightarrow> nat \<Rightarrow> nat \<Rightarrow> bytes option \<Rightarrow> bytes" where
  "serialize_prefix m attr_count trailer_len ov =
     (let attrs = take attr_count (attributes m) in
      to_be16 (MessageType_u16 (message_type m)) @ to_be16 (of_nat (attrs_length attrs + trailer_len))
        @ to_be32 MAGIC_COOKIE @ transaction_id m
        @ concat (map (\<lambda>a. StunAttribute_serialize a (transaction_id m) ov) attrs))"

text \<open>
  The offset of the attribute with a given index among the received octets; the recursion is the
  \<^verbatim>\<open>for\<close> loop of \<^verbatim>\<open>raw_prefix\<close>.
\<close>

fun raw_offset :: "bytes \<Rightarrow> nat \<Rightarrow> nat \<Rightarrow> nat option" where
  "raw_offset r 0 offset = Some offset"
| "raw_offset r (Suc n) offset =
     (if offset + 4 > length r then None
      else let len = unat (be16 (r ! (offset + 2)) (r ! (offset + 3))) in
        raw_offset r n (offset + 4 + len + pad_len len))"

definition raw_prefix :: "StunMessage \<Rightarrow> nat \<Rightarrow> nat \<Rightarrow> bytes option" where
  "raw_prefix m attr_index trailer_len =
     (if length (raw m) < 20 then None
      else case raw_offset (raw m) attr_index 20 of
        None \<Rightarrow> None
      | Some offset \<Rightarrow>
          if offset > length (raw m) then None
          else Some (take 2 (raw m) @ to_be16 (of_nat (offset - 20 + trailer_len))
                 @ drop 4 (take offset (raw m))))"

definition is_fingerprint :: "StunAttribute \<Rightarrow> bool" where
  "is_fingerprint a = (case a of SA_Fingerprint _ \<Rightarrow> True | _ \<Rightarrow> False)"

definition is_message_integrity :: "StunAttribute \<Rightarrow> bool" where
  "is_message_integrity a = (case a of SA_MessageIntegrity _ \<Rightarrow> True | _ \<Rightarrow> False)"

definition serialize_internal :: "StunMessage \<Rightarrow> bool \<Rightarrow> bytes option \<Rightarrow> bytes" where
  "serialize_internal m include_fingerprint ov =
     (let attrs = filter (\<lambda>a. include_fingerprint \<or> \<not> is_fingerprint a) (attributes m) in
      to_be16 (MessageType_u16 (message_type m)) @ to_be16 (of_nat (attrs_length attrs))
        @ to_be32 MAGIC_COOKIE @ transaction_id m
        @ concat (map (\<lambda>a. StunAttribute_serialize a (transaction_id m) ov) attrs))"

definition StunMessage_serialize :: "StunMessage \<Rightarrow> bytes" where
  "StunMessage_serialize m = serialize_internal m True None"

fun StunMessage_parse :: "bytes \<Rightarrow> ForgeError + StunMessage" where
  "StunMessage_parse data =
     (if length data < 20 then Inl (Ice ''STUN message too short'')
      else
        let msg_type = be16 (data ! 0) (data ! 1);
            msg_length = unat (be16 (data ! 2) (data ! 3));
            magic = be32 (data ! 4) (data ! 5) (data ! 6) (data ! 7);
            tid = take 12 (drop 8 data) in
        if magic \<noteq> MAGIC_COOKIE then Inl (Ice (''Invalid STUN magic cookie: '' @ show_hex (unat magic)))
        else
          (case MessageType_from_u16 msg_type of
             None \<Rightarrow> Inl (Ice (''Unknown STUN message type: '' @ show_hex (unat msg_type)))
           | Some t \<Rightarrow>
               if length (drop 20 data) < msg_length then Inl (Ice ''Truncated STUN message'')
               else
                 (case parse_stun_attributes tid (take msg_length (drop 20 data)) of
                    Inl e \<Rightarrow> Inl e
                  | Inr as \<Rightarrow>
                      Inr \<lparr>message_type = t, transaction_id = tid, attributes = as,
                           raw = take (20 + msg_length) data\<rparr>)))"

declare StunMessage_parse.simps [simp del]

subsection \<open>Building and reading messages\<close>

definition push_attribute :: "StunAttribute \<Rightarrow> StunMessage \<Rightarrow> StunMessage" where
  "push_attribute a m = m\<lparr>attributes := attributes m @ [a]\<rparr>"

definition add_username :: "bytes \<Rightarrow> StunMessage \<Rightarrow> StunMessage" where
  "add_username u m = push_attribute (SA_Username u) m"

definition add_priority :: "u32 \<Rightarrow> StunMessage \<Rightarrow> StunMessage" where
  "add_priority p m = push_attribute (SA_Priority p) m"

definition add_ice_controlled :: "u64 \<Rightarrow> StunMessage \<Rightarrow> StunMessage" where
  "add_ice_controlled t m = push_attribute (SA_IceControlled t) m"

definition add_ice_controlling :: "u64 \<Rightarrow> StunMessage \<Rightarrow> StunMessage" where
  "add_ice_controlling t m = push_attribute (SA_IceControlling t) m"

definition has_use_candidate :: "StunMessage \<Rightarrow> bool" where
  "has_use_candidate m \<longleftrightarrow> list_ex (\<lambda>a. a = SA_UseCandidate) (attributes m)"

definition add_use_candidate :: "StunMessage \<Rightarrow> StunMessage" where
  "add_use_candidate m = (if \<not> has_use_candidate m then push_attribute SA_UseCandidate m else m)"

definition get_priority :: "StunMessage \<Rightarrow> u32 option" where
  "get_priority m = find_map (\<lambda>a. case a of SA_Priority p \<Rightarrow> Some p | _ \<Rightarrow> None) (attributes m)"

definition get_username :: "StunMessage \<Rightarrow> bytes option" where
  "get_username m = find_map (\<lambda>a. case a of SA_Username u \<Rightarrow> Some u | _ \<Rightarrow> None) (attributes m)"

definition get_xor_mapped_address :: "StunMessage \<Rightarrow> SocketAddr option" where
  "get_xor_mapped_address m =
     find_map (\<lambda>a. case a of SA_XorMappedAddress x \<Rightarrow> Some x | _ \<Rightarrow> None) (attributes m)"

definition get_xor_relayed_address :: "StunMessage \<Rightarrow> SocketAddr option" where
  "get_xor_relayed_address m =
     find_map (\<lambda>a. case a of SA_XorRelayedAddress x \<Rightarrow> Some x | _ \<Rightarrow> None) (attributes m)"

definition get_xor_peer_address :: "StunMessage \<Rightarrow> SocketAddr option" where
  "get_xor_peer_address m =
     find_map (\<lambda>a. case a of SA_XorPeerAddress x \<Rightarrow> Some x | _ \<Rightarrow> None) (attributes m)"

definition get_lifetime :: "StunMessage \<Rightarrow> u32 option" where
  "get_lifetime m = find_map (\<lambda>a. case a of SA_Lifetime v \<Rightarrow> Some v | _ \<Rightarrow> None) (attributes m)"

definition get_realm :: "StunMessage \<Rightarrow> bytes option" where
  "get_realm m = find_map (\<lambda>a. case a of SA_Realm v \<Rightarrow> Some v | _ \<Rightarrow> None) (attributes m)"

definition get_nonce :: "StunMessage \<Rightarrow> bytes option" where
  "get_nonce m = find_map (\<lambda>a. case a of SA_Nonce v \<Rightarrow> Some v | _ \<Rightarrow> None) (attributes m)"

definition get_error_code :: "StunMessage \<Rightarrow> (u16 \<times> bytes) option" where
  "get_error_code m =
     find_map (\<lambda>a. case a of SA_ErrorCode code reason \<Rightarrow> Some (code, reason) | _ \<Rightarrow> None) (attributes m)"

definition get_data :: "StunMessage \<Rightarrow> bytes option" where
  "get_data m = find_map (\<lambda>a. case a of SA_Data v \<Rightarrow> Some v | _ \<Rightarrow> None) (attributes m)"

subsection \<open>FINGERPRINT and MESSAGE-INTEGRITY\<close>

definition crc_step :: "u32 \<Rightarrow> u32" where
  "crc_step crc =
     (if crc AND 1 \<noteq> 0 then drop_bit 1 crc XOR 0xEDB88320 else drop_bit 1 crc)"

definition crc_byte :: "u32 \<Rightarrow> u8 \<Rightarrow> u32" where
  "crc_byte crc b = (crc_step ^^ 8) (crc XOR ucast b)"

definition crc32 :: "bytes \<Rightarrow> u32" where
  "crc32 bs = NOT (foldl crc_byte 0xFFFFFFFF bs)"

definition add_fingerprint :: "StunMessage \<Rightarrow> StunMessage" where
  "add_fingerprint m =
     (let m1 = m\<lparr>attributes := filter (\<lambda>a. \<not> is_fingerprint a) (attributes m)\<rparr>;
          input = serialize_prefix m1 (length (attributes m1)) 8 None in
      push_attribute (SA_Fingerprint (crc32 input XOR 0x5354554e)) m1)"

text \<open>\<^verbatim>\<open>Iterator::position\<close>, with what the attribute found holds.\<close>

fun attr_position :: "('a \<Rightarrow> 'b option) \<Rightarrow> 'a list \<Rightarrow> (nat \<times> 'b) option" where
  "attr_position f [] = None"
| "attr_position f (x # xs) =
     (case f x of
        Some y \<Rightarrow> Some (0, y)
      | None \<Rightarrow> (case attr_position f xs of None \<Rightarrow> None | Some (i, y) \<Rightarrow> Some (Suc i, y)))"

definition fingerprint_of :: "StunAttribute \<Rightarrow> u32 option" where
  "fingerprint_of a = (case a of SA_Fingerprint v \<Rightarrow> Some v | _ \<Rightarrow> None)"

definition integrity_of :: "StunAttribute \<Rightarrow> bytes option" where
  "integrity_of a = (case a of SA_MessageIntegrity v \<Rightarrow> Some v | _ \<Rightarrow> None)"

definition covered :: "StunMessage \<Rightarrow> nat \<Rightarrow> nat \<Rightarrow> bytes" where
  "covered m i trailer_len =
     (case raw_prefix m i trailer_len of Some bs \<Rightarrow> bs | None \<Rightarrow> serialize_prefix m i trailer_len None)"

definition verify_fingerprint :: "StunMessage \<Rightarrow> ForgeError + bool" where
  "verify_fingerprint m =
     (case attr_position fingerprint_of (attributes m) of
        None \<Rightarrow> Inr False
      | Some (i, expected) \<Rightarrow>
          if crc32 (covered m i 8) XOR 0x5354554e = expected then Inr True
          else Inl (Ice ''FINGERPRINT mismatch''))"

definition hmac_sha1 :: "hmac \<Rightarrow> bytes \<Rightarrow> bytes \<Rightarrow> ForgeError + bytes" where
  "hmac_sha1 mac key input =
     (case mac key input of
        Inl e \<Rightarrow> Inl (Ice (''Failed to create HMAC for MESSAGE-INTEGRITY: '' @ e))
      | Inr result \<Rightarrow> Inr (take 20 result))"

definition add_message_integrity :: "hmac \<Rightarrow> bytes \<Rightarrow> StunMessage \<Rightarrow> ForgeError + StunMessage" where
  "add_message_integrity mac key m =
     (let m1 = m\<lparr>attributes :=
            filter (\<lambda>a. \<not> (is_message_integrity a \<or> is_fingerprint a)) (attributes m)\<rparr>;
          input = serialize_prefix m1 (length (attributes m1)) 24 None in
      case hmac_sha1 mac key input of
        Inl e \<Rightarrow> Inl e
      | Inr integrity \<Rightarrow> Inr (push_attribute (SA_MessageIntegrity integrity) m1))"

definition verify_message_integrity :: "hmac \<Rightarrow> bytes \<Rightarrow> StunMessage \<Rightarrow> ForgeError + bool" where
  "verify_message_integrity mac key m =
     (case attr_position integrity_of (attributes m) of
        None \<Rightarrow> Inr False
      | Some (i, received) \<Rightarrow>
          (case mac key (covered m i 24) of
             Inl e \<Rightarrow> Inl (Ice (''Failed to create HMAC for MESSAGE-INTEGRITY verification: '' @ e))
           | Inr tag \<Rightarrow>
               if tag = received then Inr True
               else Inl (Ice ''MESSAGE-INTEGRITY verification failed: HMAC mismatch'')))"

subsection \<open>The server\<close>

datatype StunServerResponse = Respond StunMessage | Drop string

record StunServer =
  local_ufrag :: bytes
  local_pwd :: bytes
  remote_ufrag :: bytes

text \<open>\<^verbatim>\<open>username.splitn(2, ':')\<close>: the part before the first colon and the part after it.\<close>

fun split_colon :: "bytes \<Rightarrow> (bytes \<times> bytes) option" where
  "split_colon [] = None"
| "split_colon (b # bs) =
     (if b = 0x3A then Some ([], bs)
      else map_option (\<lambda>(l, r). (b # l, r)) (split_colon bs))"

definition success_response :: "hmac \<Rightarrow> StunServer \<Rightarrow> StunMessage \<Rightarrow> SocketAddr \<Rightarrow> StunServerResponse" where
  "success_response mac s request source =
     (let response = push_attribute (SA_XorMappedAddress source)
            (new_with_transaction BindingResponse (transaction_id request)) in
      case add_message_integrity mac (local_pwd s) response of
        Inl _ \<Rightarrow> Drop ''failed to sign response''
      | Inr sealed \<Rightarrow> Respond (add_fingerprint sealed))"

definition handle_binding_request ::
    "hmac \<Rightarrow> StunServer \<Rightarrow> bytes \<Rightarrow> SocketAddr \<Rightarrow> StunServerResponse" where
  "handle_binding_request mac s data source =
     (case StunMessage_parse data of
        Inl _ \<Rightarrow> Drop ''malformed STUN packet''
      | Inr request \<Rightarrow>
          if message_type request \<noteq> BindingRequest then Drop ''not a Binding Request''
          else
            (case get_username request of
               None \<Rightarrow> Drop ''missing USERNAME''
             | Some username \<Rightarrow>
                 (case split_colon username of
                    None \<Rightarrow> Drop ''malformed USERNAME''
                  | Some (req_local, req_remote) \<Rightarrow>
                      if req_local \<noteq> local_ufrag s \<or> req_remote \<noteq> remote_ufrag s
                      then Drop ''USERNAME does not match ICE credentials''
                      else if verify_message_integrity mac (local_pwd s) request \<noteq> Inr True
                      then Drop ''invalid or missing MESSAGE-INTEGRITY''
                      else success_response mac s request source)))"

subsection \<open>The client\<close>

record BindingRequestConfig =
  cfg_username :: "bytes option"
  cfg_key :: "bytes option"
  cfg_priority :: "u32 option"
  cfg_ice_controlling :: "u64 option"
  cfg_ice_controlled :: "u64 option"

text \<open>
  The request \<^verbatim>\<open>binding_request\<close> sends, with the random transaction id as an argument, and what it makes
  of the datagram that comes back from the server; sending, waiting and the time limit are not modelled.
\<close>

definition opt_add :: "('a \<Rightarrow> StunMessage \<Rightarrow> StunMessage) \<Rightarrow> 'a option \<Rightarrow> StunMessage \<Rightarrow> StunMessage" where
  "opt_add f x m = (case x of None \<Rightarrow> m | Some v \<Rightarrow> f v m)"

definition request_with_config ::
    "hmac \<Rightarrow> BindingRequestConfig \<Rightarrow> StunMessage \<Rightarrow> ForgeError + StunMessage" where
  "request_with_config mac cfg m =
     (let m1 = opt_add add_ice_controlled (cfg_ice_controlled cfg)
            (opt_add add_ice_controlling (cfg_ice_controlling cfg)
              (opt_add add_priority (cfg_priority cfg)
                (opt_add add_username (cfg_username cfg) m))) in
      case cfg_key cfg of None \<Rightarrow> Inr m1 | Some key \<Rightarrow> add_message_integrity mac key m1)"

definition binding_request_message ::
    "hmac \<Rightarrow> bytes \<Rightarrow> BindingRequestConfig option \<Rightarrow> ForgeError + StunMessage" where
  "binding_request_message mac rng config =
     (case (case config of
              None \<Rightarrow> Inr (new_binding_request rng)
            | Some cfg \<Rightarrow> request_with_config mac cfg (new_binding_request rng)) of
        Inl e \<Rightarrow> Inl e
      | Inr request \<Rightarrow> Inr (add_fingerprint request))"

definition binding_response :: "bytes \<Rightarrow> bytes \<Rightarrow> ForgeError + SocketAddr" where
  "binding_response tid response_bytes =
     (case StunMessage_parse response_bytes of
        Inl e \<Rightarrow> Inl e
      | Inr response \<Rightarrow>
          if transaction_id response \<noteq> tid then Inl (Ice ''STUN transaction ID mismatch'')
          else if message_type response \<noteq> BindingResponse then Inl (Ice ''STUN binding failed'')
          else
            (case get_xor_mapped_address response of
               None \<Rightarrow> Inl (Ice ''No XOR-MAPPED-ADDRESS in STUN response'')
             | Some mapped_addr \<Rightarrow> Inr mapped_addr))"

section \<open>Lemmas\<close>

subsection \<open>Types\<close>

lemma MessageType_from_u16_code [simp]: "MessageType_from_u16 (MessageType_u16 t) = Some t"
  by (cases t) (simp_all add: MessageType_from_u16_def)

lemma AttributeType_from_u16_code [simp]: "AttributeType_from_u16 (AttributeType_u16 t) = Some t"
  by (cases t) (simp_all add: AttributeType_from_u16_def)

lemma AttributeType_from_u16_SomeD: "AttributeType_from_u16 v = Some t \<Longrightarrow> AttributeType_u16 t = v"
  by (auto simp: AttributeType_from_u16_def split: if_splits)

subsection \<open>Octets\<close>

lemma pad_len_dvd [simp]: "4 dvd n + pad_len n"
proof -
  have "n mod 4 \<in> {0, 1, 2, 3}"
    by auto
  then have "(n mod 4 + pad_len n) mod 4 = 0"
    by (auto simp: pad_len_def)
  then show ?thesis
    by (simp add: mod_add_left_eq dvd_eq_mod_eq_0)
qed

lemma pad_len_add4 [simp]: "pad_len (4 + n) = pad_len n"
  unfolding pad_len_def by simp

lemma length_pad_zeros [simp]: "length (pad_zeros n) = pad_len n"
  by (simp add: pad_zeros_def)

lemma pad_zeros_add4: "pad_zeros (4 + n) = pad_zeros n"
  by (simp only: pad_zeros_def pad_len_add4)

lemma pad_zeros_none [simp]: "n mod 4 = 0 \<Longrightarrow> pad_zeros n = []"
  by (simp add: pad_zeros_def pad_len_def)

lemma length_xor_mask [simp]: "length (xor_mask tid) = 4 + length tid"
  by (simp add: xor_mask_def)

subsection \<open>Attributes\<close>

text \<open>An attribute of the source's types: arrays have their length, strings are UTF-8.\<close>

fun addr_ok :: "SocketAddr \<Rightarrow> bool" where
  "addr_ok addr = (case ip addr of V4 _ \<Rightarrow> True | V6 os \<Rightarrow> length os = 16)"

text \<open>
  A value that parsing keeps as an unknown attribute: its type is not listed, or the value does not
  have the form its type asks for.
\<close>

fun falls_through :: "AttributeType option \<Rightarrow> bytes \<Rightarrow> bool" where
  "falls_through None v = True"
| "falls_through (Some AT_Username) v = (\<not> valid_utf8 v)"
| "falls_through (Some AT_Priority) v = (length v \<noteq> 4)"
| "falls_through (Some AT_Fingerprint) v = (length v \<noteq> 4)"
| "falls_through (Some AT_IceControlled) v = (length v \<noteq> 8)"
| "falls_through (Some AT_IceControlling) v = (length v \<noteq> 8)"
| "falls_through (Some AT_MessageIntegrity) v = (length v \<noteq> 20)"
| "falls_through (Some AT_ErrorCode) v = (length v < 4)"
| "falls_through (Some AT_Lifetime) v = (length v < 4)"
| "falls_through (Some AT_ChannelNumber) v = (length v < 2)"
| "falls_through (Some AT_RequestedTransport) v = (length v < 1)"
| "falls_through (Some _) v = False"

fun attr_ok :: "StunAttribute \<Rightarrow> bool" where
  "attr_ok (SA_XorMappedAddress a) = addr_ok a"
| "attr_ok (SA_MappedAddress a) = addr_ok a"
| "attr_ok (SA_XorPeerAddress a) = addr_ok a"
| "attr_ok (SA_XorRelayedAddress a) = addr_ok a"
| "attr_ok (SA_Username u) = valid_utf8 u"
| "attr_ok (SA_Realm u) = valid_utf8 u"
| "attr_ok (SA_ErrorCode code reason) = (unat code < 25600 \<and> valid_utf8 reason)"
| "attr_ok (SA_MessageIntegrity v) = (length v = 20)"
| "attr_ok (SA_Unknown t v) = falls_through (AttributeType_from_u16 t) v"
| "attr_ok _ = True"

fun attr_code :: "StunAttribute \<Rightarrow> u16" where
  "attr_code (SA_XorMappedAddress a) = AttributeType_u16 AT_XorMappedAddress"
| "attr_code (SA_MappedAddress a) = AttributeType_u16 AT_MappedAddress"
| "attr_code (SA_Username u) = AttributeType_u16 AT_Username"
| "attr_code (SA_Priority p) = AttributeType_u16 AT_Priority"
| "attr_code (SA_IceControlled t) = AttributeType_u16 AT_IceControlled"
| "attr_code (SA_IceControlling t) = AttributeType_u16 AT_IceControlling"
| "attr_code (SA_Fingerprint c) = AttributeType_u16 AT_Fingerprint"
| "attr_code (SA_MessageIntegrity v) = AttributeType_u16 AT_MessageIntegrity"
| "attr_code SA_UseCandidate = AttributeType_u16 AT_UseCandidate"
| "attr_code (SA_ErrorCode c r) = AttributeType_u16 AT_ErrorCode"
| "attr_code (SA_Realm v) = AttributeType_u16 AT_Realm"
| "attr_code (SA_Nonce v) = AttributeType_u16 AT_Nonce"
| "attr_code (SA_ChannelNumber n) = AttributeType_u16 AT_ChannelNumber"
| "attr_code (SA_Lifetime s) = AttributeType_u16 AT_Lifetime"
| "attr_code (SA_XorPeerAddress a) = AttributeType_u16 AT_XorPeerAddress"
| "attr_code (SA_Data v) = AttributeType_u16 AT_Data"
| "attr_code (SA_XorRelayedAddress a) = AttributeType_u16 AT_XorRelayedAddress"
| "attr_code (SA_RequestedTransport p) = AttributeType_u16 AT_RequestedTransport"
| "attr_code (SA_Unknown t v) = t"

text \<open>The value of an attribute: what stands between its length and its padding.\<close>

fun attr_value :: "StunAttribute \<Rightarrow> bytes \<Rightarrow> bytes" where
  "attr_value (SA_XorMappedAddress a) tid = drop 2 (serialize_xor_mapped_address a tid)"
| "attr_value (SA_MappedAddress a) tid = drop 2 (serialize_mapped_address a)"
| "attr_value (SA_Username u) tid = u"
| "attr_value (SA_Priority p) tid = to_be32 p"
| "attr_value (SA_IceControlled t) tid = to_be64 t"
| "attr_value (SA_IceControlling t) tid = to_be64 t"
| "attr_value (SA_Fingerprint c) tid = to_be32 c"
| "attr_value (SA_MessageIntegrity v) tid = v"
| "attr_value SA_UseCandidate tid = []"
| "attr_value (SA_ErrorCode c r) tid = [0, 0, ucast (c div 100), ucast (c mod 100)] @ r"
| "attr_value (SA_Realm v) tid = v"
| "attr_value (SA_Nonce v) tid = v"
| "attr_value (SA_ChannelNumber n) tid = to_be16 n @ [0, 0]"
| "attr_value (SA_Lifetime s) tid = to_be32 s"
| "attr_value (SA_XorPeerAddress a) tid = drop 2 (serialize_xor_mapped_address a tid)"
| "attr_value (SA_Data v) tid = v"
| "attr_value (SA_XorRelayedAddress a) tid = drop 2 (serialize_xor_mapped_address a tid)"
| "attr_value (SA_RequestedTransport p) tid = [p, 0, 0, 0]"
| "attr_value (SA_Unknown t v) tid = v"

lemma to_be16_0 [simp]: "to_be16 0 = [0, 0]"
  by (simp add: to_be16_def)

lemma xor_address_frame:
  assumes "addr_ok x" "length tid = 12"
  shows "serialize_xor_mapped_address x tid
       = to_be16 (of_nat (addr_len x)) @ drop 2 (serialize_xor_mapped_address x tid)"
    and "length (serialize_xor_mapped_address x tid) = 2 + addr_len x" and "addr_len x mod 4 = 0"
  using assms by (cases "ip x"; simp add: serialize_xor_mapped_address_def)+

lemma address_frame:
  assumes "addr_ok x"
  shows "serialize_mapped_address x = to_be16 (of_nat (addr_len x)) @ drop 2 (serialize_mapped_address x)"
    and "length (serialize_mapped_address x) = 2 + addr_len x"
  using assms by (cases "ip x"; simp add: serialize_mapped_address_def)+

lemma stun_attr_frame:
  assumes "attr_ok a" "length tid = 12"
  shows "StunAttribute_serialize a tid None
       = to_be16 (attr_code a) @ to_be16 (of_nat (StunAttribute_value_len a)) @ attr_value a tid
           @ pad_zeros (StunAttribute_value_len a)"
  using assms xor_address_frame [OF _ assms(2)] address_frame
  by (cases a) (simp_all add: pad_zeros_add4 del: addr_len.simps addr_ok.simps)

lemma length_attr_value:
  assumes "attr_ok a" "length tid = 12"
  shows "length (attr_value a tid) = StunAttribute_value_len a"
  using assms xor_address_frame [OF _ assms(2)] address_frame
  by (cases a) (simp_all del: addr_len.simps addr_ok.simps)

lemma be16_cookie_family [simp]: "be16 0 1 = 1" "be16 0 2 = 2"
  by (simp_all add: be16_def)

lemma length_16_split:
  assumes "length (xs :: 'a list) = 16"
  shows "\<exists>a b c d ys. xs = a # b # c # d # ys \<and> length ys = 12"
  using assms by (cases xs rule: remdups_adj.cases; cases "tl (tl xs)" rule: remdups_adj.cases) auto

lemma parse_xor_written:
  assumes "addr_ok a" "length tid = 12"
  shows "parse_xor_mapped_address (drop 2 (serialize_xor_mapped_address a tid)) tid = Inr a"
proof (cases "ip a")
  case (V4 w)
  then show ?thesis
    by (simp add: serialize_xor_mapped_address_def to_be16_def to_be32_def del: drop_bit_xor)
next
  case (V6 os)
  define x where "x = xor_bytes os (xor_mask tid)"
  have len: "length x = 16" and undo: "xor_bytes x (xor_mask tid) = os"
    using assms V6 by (simp_all add: x_def)
  then obtain b1 b2 b3 b4 rest where x: "x = b1 # b2 # b3 # b4 # rest" "length rest = 12"
    using length_16_split by blast
  then show ?thesis
    using V6 undo by (simp add: serialize_xor_mapped_address_def to_be16_def del: drop_bit_xor flip: x_def)
qed

lemma parse_mapped_written:
  assumes "addr_ok a"
  shows "parse_mapped_address (drop 2 (serialize_mapped_address a)) = Inr a"
proof (cases "ip a")
  case (V4 w)
  then show ?thesis
    by (simp add: serialize_mapped_address_def to_be16_def to_be32_def)
next
  case (V6 os)
  then obtain b1 b2 b3 b4 rest where "os = b1 # b2 # b3 # b4 # rest" "length rest = 12"
    using assms length_16_split [of os] by auto
  then show ?thesis
    using V6 by (simp add: serialize_mapped_address_def to_be16_def)
qed

lemma error_code_split:
  assumes "unat (code :: u16) < 25600"
  shows "ucast (ucast (code div 100) :: u8) * 100 + ucast (ucast (code mod 100) :: u8) = code"
proof -
  have "unat code div 100 < 256" "unat code mod 100 < 100"
    using assms by (simp_all add: less_mult_imp_div_less)
  then have "unat (ucast (code div 100) :: u8) = unat code div 100"
    "unat (ucast (code mod 100) :: u8) = unat code mod 100"
    by (simp_all add: unat_div unat_mod take_bit_nat_def unsigned_ucast_eq)
  moreover have "unat code div 100 * 100 + unat code mod 100 = unat code"
    by simp
  ultimately show ?thesis
    using assms by (simp add: word_unat_eq_iff unat_word_ariths mod_simps)
qed

lemma falls_through_unknown:
  "falls_through c v \<Longrightarrow> parse_attribute c t v tid = Inr (SA_Unknown t v)"
  by (cases "(c, t, v, tid)" rule: parse_attribute.cases) (auto split: list.splits)

lemma parse_attribute_written:
  assumes "attr_ok a" "length tid = 12"
  shows "parse_attribute (AttributeType_from_u16 (attr_code a)) (attr_code a) (attr_value a tid) tid = Inr a"
proof (cases a)
  case (SA_IceControlled t)
  then show ?thesis
    by (cases rule: to_be64_split [of t]) (simp del: AttributeType_u16.simps)
next
  case (SA_IceControlling t)
  then show ?thesis
    by (cases rule: to_be64_split [of t]) (simp del: AttributeType_u16.simps)
next
  case (SA_ErrorCode c r)
  then show ?thesis
    using assms error_code_split [of c] by (simp add: from_utf8_lossy_id del: AttributeType_u16.simps)
qed (use assms in \<open>simp_all add: map_addr_def parse_xor_written parse_mapped_written from_utf8_lossy_id
      falls_through_unknown to_be16_def to_be32_def del: AttributeType_u16.simps addr_ok.simps\<close>)

subsection \<open>Messages\<close>

text \<open>The attributes on the wire.\<close>

definition attrs_wire :: "bytes \<Rightarrow> StunAttribute list \<Rightarrow> bytes" where
  "attrs_wire tid as = concat (map (\<lambda>a. StunAttribute_serialize a tid None) as)"

definition stun_header :: "MessageType \<Rightarrow> nat \<Rightarrow> bytes \<Rightarrow> bytes" where
  "stun_header t n tid = to_be16 (MessageType_u16 t) @ to_be16 (of_nat n) @ to_be32 MAGIC_COOKIE @ tid"

lemma attrs_length_simps [simp]:
  "attrs_length [] = 0"
  "attrs_length (a # as) = 4 + StunAttribute_value_len a + pad_len (StunAttribute_value_len a) + attrs_length as"
  "attrs_length (as @ bs) = attrs_length as + attrs_length bs"
  by (simp_all add: attrs_length_def)

lemma attrs_wire_simps [simp]:
  "attrs_wire tid [] = []"
  "attrs_wire tid (a # as) = StunAttribute_serialize a tid None @ attrs_wire tid as"
  "attrs_wire tid (as @ bs) = attrs_wire tid as @ attrs_wire tid bs"
  by (simp_all add: attrs_wire_def)

lemma length_serialize:
  "attr_ok a \<Longrightarrow> length tid = 12 \<Longrightarrow> length (StunAttribute_serialize a tid None)
     = 4 + StunAttribute_value_len a + pad_len (StunAttribute_value_len a)"
  by (simp add: stun_attr_frame length_attr_value)

lemma length_attrs_wire:
  "list_all attr_ok as \<Longrightarrow> length tid = 12 \<Longrightarrow> length (attrs_wire tid as) = attrs_length as"
  by (induction as) (simp_all add: length_serialize)

lemma parse_stun_attributes_Nil [simp]: "parse_stun_attributes tid [] = Inr []"
  by (simp add: parse_stun_attributes.simps)

lemma parse_stun_attributes_step:
  assumes "attr_ok a" "length tid = 12" "StunAttribute_value_len a < 65536"
  shows "parse_stun_attributes tid (StunAttribute_serialize a tid None @ rest)
       = (case parse_stun_attributes tid rest of Inl e \<Rightarrow> Inl e | Inr as \<Rightarrow> Inr (a # as))"
proof -
  show ?thesis
    using parse_attribute_written [OF assms(1,2)]
    by (subst parse_stun_attributes.simps)
      (simp add: stun_attr_frame [OF assms(1,2)] to_be16_def length_attr_value [OF assms(1,2)]
        unat_of_nat_u16_less [OF assms(3)] Let_def)
qed

lemma parse_stun_attributes_written:
  assumes "list_all attr_ok as" "length tid = 12" "attrs_length as < 65536"
  shows "parse_stun_attributes tid (attrs_wire tid as) = Inr as"
  using assms by (induction as) (simp_all add: parse_stun_attributes_step)

lemma length_stun_header [simp]: "length tid = 12 \<Longrightarrow> length (stun_header t n tid) = 20"
  by (simp add: stun_header_def)

lemma parse_header:
  assumes "length tid = 12" "n < 65536" "n \<le> length body"
  shows "StunMessage_parse (stun_header t n tid @ body)
       = (case parse_stun_attributes tid (take n body) of
            Inl e \<Rightarrow> Inl e
          | Inr as \<Rightarrow> Inr \<lparr>message_type = t, transaction_id = tid, attributes = as,
                           raw = stun_header t n tid @ take n body\<rparr>)"
proof -
  obtain c1 c2 c3 c4 where c: "to_be32 MAGIC_COOKIE = [c1, c2, c3, c4]" "be32 c1 c2 c3 c4 = MAGIC_COOKIE"
    by (rule to_be32_split)
  define d where "d = stun_header t n tid @ body"
  have "d = to_be16 (MessageType_u16 t) @ to_be16 (of_nat n) @ [c1, c2, c3, c4] @ tid @ body"
    by (simp add: d_def stun_header_def c)
  then have "be16 (d ! 0) (d ! 1) = MessageType_u16 t" "unat (be16 (d ! 2) (d ! 3)) = n"
    "be32 (d ! 4) (d ! 5) (d ! 6) (d ! 7) = MAGIC_COOKIE" "take 12 (drop 8 d) = tid" "drop 20 d = body"
    using assms c by (simp_all add: to_be16_def unat_of_nat_u16_less)
  moreover have "take (20 + n) d = stun_header t n tid @ take n body"
    using assms(1) by (simp add: d_def)
  moreover have "length d = 20 + length body"
    using assms(1) by (simp add: d_def)
  ultimately show ?thesis
    using assms(3) by (fold d_def) (simp add: StunMessage_parse.simps split: sum.split)
qed

definition stun_ok :: "StunMessage \<Rightarrow> bool" where
  "stun_ok m \<longleftrightarrow> length (transaction_id m) = 12 \<and> list_all attr_ok (attributes m) \<and>
     attrs_length (attributes m) < 65536"

lemma serialize_wire:
  "StunMessage_serialize m = stun_header (message_type m) (attrs_length (attributes m)) (transaction_id m)
     @ attrs_wire (transaction_id m) (attributes m)"
  by (simp add: StunMessage_serialize_def serialize_internal_def stun_header_def attrs_wire_def Let_def)

lemma serialize_prefix_wire:
  "serialize_prefix m i k None =
     stun_header (message_type m) (attrs_length (take i (attributes m)) + k) (transaction_id m)
       @ attrs_wire (transaction_id m) (take i (attributes m))"
  by (simp add: serialize_prefix_def stun_header_def attrs_wire_def Let_def)

lemma parse_serialize:
  assumes "stun_ok m"
  shows "StunMessage_parse (StunMessage_serialize m @ rest) = Inr (m\<lparr>raw := StunMessage_serialize m\<rparr>)"
proof -
  define n where "n = attrs_length (attributes m)"
  have "length (attrs_wire (transaction_id m) (attributes m)) = n"
    using assms by (simp add: stun_ok_def length_attrs_wire n_def)
  then show ?thesis
    using assms parse_header [of "transaction_id m" n "attrs_wire (transaction_id m) (attributes m) @ rest"]
    by (simp add: stun_ok_def serialize_wire parse_stun_attributes_written flip: n_def)
qed

text \<open>Walking over the attributes of what was written.\<close>

lemma raw_offset_wire:
  assumes "list_all attr_ok as" "length tid = 12" "attrs_length as < 65536"
  shows "raw_offset (p @ attrs_wire tid as @ rest) (length as) (length p) = Some (length p + attrs_length as)"
  using assms
proof (induction as arbitrary: p)
  case (Cons a as)
  define len where "len = StunAttribute_value_len a"
  define q where "q = p @ StunAttribute_serialize a tid None"
  have q: "length q = length p + 4 + len + pad_len len"
    using Cons.prems by (simp add: q_def length_serialize len_def)
  define r where "r = p @ attrs_wire tid (a # as) @ rest"
  have r: "r = q @ attrs_wire tid as @ rest"
    by (simp add: r_def q_def)
  have "raw_offset r (length as) (length q) = Some (length q + attrs_length as)"
    using Cons by (simp add: r)
  moreover have "unat (be16 (r ! (length p + 2)) (r ! (length p + 3))) = len"
    using Cons.prems by (simp add: r q_def stun_attr_frame to_be16_def nth_append unat_of_nat_u16_less len_def)
  moreover have "length p + 4 \<le> length r"
    using q by (simp add: r)
  ultimately have "raw_offset r (length (a # as)) (length p) = Some (length p + attrs_length (a # as))"
    using q by (simp add: Let_def flip: len_def)
  then show ?case
    by (simp only: r_def)
qed simp

lemma stun_header_relength:
  "take 2 (stun_header t n tid @ xs) @ to_be16 (of_nat k) @ drop 4 (stun_header t n tid @ xs)
   = stun_header t k tid @ xs"
  by (simp add: stun_header_def to_be16_def)

text \<open>What is checked on a received message is what was signed before it was sent.\<close>

lemma covered_received:
  assumes "stun_ok m" "i \<le> length (attributes m)"
  shows "covered (m\<lparr>raw := StunMessage_serialize m\<rparr>) i k = serialize_prefix m i k None"
proof -
  define tid t n where "tid = transaction_id m" and "t = message_type m" and "n = attrs_length (attributes m)"
  define as bs where "as = take i (attributes m)" and "bs = drop i (attributes m)"
  have split: "attributes m = as @ bs" and i: "i = length as"
    using assms(2) by (simp_all add: as_def bs_def)
  have ok: "list_all attr_ok as" "list_all attr_ok bs" "length tid = 12" "attrs_length as < 65536"
    using assms(1) by (auto simp: stun_ok_def split tid_def)
  have wire: "StunMessage_serialize m = stun_header t n tid @ attrs_wire tid as @ attrs_wire tid bs"
    by (simp add: serialize_wire split tid_def t_def n_def)
  have "raw_offset (StunMessage_serialize m) i 20 = Some (20 + attrs_length as)"
    using raw_offset_wire [OF ok(1,3,4), of "stun_header t n tid" "attrs_wire tid bs"] ok(3) by (simp add: wire i)
  moreover have "take (20 + attrs_length as) (StunMessage_serialize m) = stun_header t n tid @ attrs_wire tid as"
    using ok by (simp add: wire length_attrs_wire)
  moreover have "take 2 (StunMessage_serialize m) = take 2 (stun_header t n tid @ attrs_wire tid as)"
    using ok by (simp add: wire)
  moreover have "length (StunMessage_serialize m) = 20 + attrs_length as + attrs_length bs"
    using ok by (simp add: wire length_attrs_wire)
  ultimately show ?thesis
    using stun_header_relength [of t n tid "attrs_wire tid as" "attrs_length as + k"]
    by (simp add: covered_def raw_prefix_def serialize_prefix_wire flip: as_def tid_def t_def)
qed

subsection \<open>Cyclic redundancy\<close>

lemma bit_poly_31: "bit (0xEDB88320 :: u32) 31"
  by (simp add: bit_iff_odd)

lemma crc_step_alt: "crc_step x = drop_bit 1 x XOR (if bit x 0 then 0xEDB88320 else 0)"
  by (simp add: crc_step_def and_one_eq bit_0 odd_iff_mod_2_eq_one)

lemma crc_step_bit_31: "bit (crc_step x) 31 \<longleftrightarrow> bit x 0"
proof -
  have "\<not> bit (drop_bit 1 x) 31"
    by (auto simp: bit_drop_bit_eq dest: bit_imp_le_length)
  then show ?thesis
    by (simp only: crc_step_alt bit_xor_iff) (auto simp: bit_poly_31)
qed

lemma crc_step_inj: "crc_step x = crc_step y \<Longrightarrow> x = y"
proof (rule bit_word_eqI)
  fix n
  assume eq: "crc_step x = crc_step y"
  have 0: "bit x 0 \<longleftrightarrow> bit y 0"
    using eq by (simp only: crc_step_bit_31 [symmetric])
  have "drop_bit 1 x = drop_bit 1 y"
    using eq unfolding crc_step_alt 0 by (metis xor_cancel)
  then have "bit x (Suc k) \<longleftrightarrow> bit y (Suc k)" for k
    using bit_drop_bit_eq [of 1 x] bit_drop_bit_eq [of 1 y] by (simp add: fun_eq_iff)
  with 0 show "bit x n \<longleftrightarrow> bit y n"
    by (cases n) auto
qed

lemma crc_steps_inj: "(crc_step ^^ k) x = (crc_step ^^ k) y \<Longrightarrow> x = y"
  by (induction k) (auto dest: crc_step_inj)

lemma crc_step_shift:
  assumes "\<not> bit z 31"
  shows "crc_step (x XOR push_bit 1 z) = crc_step x XOR z"
proof -
  have "drop_bit 1 (push_bit 1 z) = z"
  proof (rule bit_word_eqI)
    fix n
    assume "n < LENGTH(32)"
    with assms show "bit (drop_bit 1 (push_bit 1 z)) n \<longleftrightarrow> bit z n"
      unfolding bit_drop_bit_eq o_apply bit_push_bit_iff by (cases "n = 31") auto
  qed
  moreover have "\<not> bit (push_bit 1 z) 0"
    unfolding bit_push_bit_iff by simp
  then have "bit (x XOR push_bit 1 z) 0 \<longleftrightarrow> bit x 0"
    by (simp only: bit_xor_iff) simp
  ultimately show ?thesis
    by (simp only: crc_step_alt drop_bit_xor xor.assoc xor.left_commute xor.commute)
qed

lemma crc_steps_shift:
  assumes "\<And>n. bit z n \<Longrightarrow> n + k < 32"
  shows "(crc_step ^^ k) (x XOR push_bit k z) = (crc_step ^^ k) x XOR z"
  using assms
proof (induction k arbitrary: x)
  case (Suc k)
  have "\<not> bit (push_bit k z) 31"
    using Suc.prems by (fastforce simp: bit_push_bit_iff)
  then have "crc_step (x XOR push_bit (Suc k) z) = crc_step x XOR push_bit k z"
    using crc_step_shift [of "push_bit k z" x] by (simp add: push_bit_push_bit)
  moreover have "(crc_step ^^ k) (crc_step x XOR push_bit k z) = (crc_step ^^ k) (crc_step x) XOR z"
    using Suc.prems by (intro Suc.IH) fastforce
  ultimately show ?case
    by (simp add: funpow_swap1)
qed simp

text \<open>Up to four octets as a little-endian word.\<close>

fun le_word :: "bytes \<Rightarrow> u32" where
  "le_word [] = 0"
| "le_word (b # bs) = ucast b XOR push_bit 8 (le_word bs)"

lemma le_word_bound: "bit (le_word bs) n \<Longrightarrow> n < 8 * length bs"
proof (induction bs arbitrary: n)
  case (Cons b bs)
  then show ?case
    by (cases "bit b n") (auto simp: bit_simps dest!: bit_imp_le_length Cons.IH)
qed simp

lemma crc_word:
  "length bs \<le> 4 \<Longrightarrow> foldl crc_byte s bs = (crc_step ^^ (8 * length bs)) (s XOR le_word bs)"
proof (induction bs arbitrary: s)
  case (Cons b bs)
  have "n + 8 < 32" if "bit (le_word bs) n" for n
    using le_word_bound [OF that] Cons.prems by simp
  then have "(crc_step ^^ 8) ((s XOR ucast b) XOR push_bit 8 (le_word bs)) = crc_byte s b XOR le_word bs"
    unfolding crc_byte_def by (intro crc_steps_shift)
  then have *: "crc_byte s b XOR le_word bs = (crc_step ^^ 8) (s XOR le_word (b # bs))"
    by (simp add: xor.assoc)
  have "foldl crc_byte s (b # bs) = (crc_step ^^ (8 * length bs)) (crc_byte s b XOR le_word bs)"
    using Cons by simp
  also have "\<dots> = (crc_step ^^ (8 * length bs + 8)) (s XOR le_word (b # bs))"
    unfolding * by (simp only: funpow_add o_apply)
  finally show ?case
    by (simp add: algebra_simps)
qed simp

lemma le_word_inj:
  assumes "length xs = length ys" "length xs \<le> 4" "le_word xs = le_word ys"
  shows "xs = ys"
  using assms
proof (induction xs ys rule: list_induct2)
  case (Cons x xs y ys)
  have bits: "bit (le_word (x # xs)) n \<longleftrightarrow> bit (le_word (y # ys)) n" for n
    using Cons.prems by simp
  have "x = y"
  proof (rule bit_word_eqI)
    fix n
    assume "n < LENGTH(8)"
    then show "bit x n \<longleftrightarrow> bit y n"
      using bits [of n] by (simp add: bit_simps)
  qed
  moreover have "bit (le_word xs) n \<longleftrightarrow> bit (le_word ys) n" for n
  proof (cases "n < 24")
    case True
    then show ?thesis
      using bits [of "8 + n"] by (simp add: bit_simps)
  next
    case False
    then show ?thesis
      using le_word_bound [of xs n] le_word_bound [of ys n] Cons.hyps Cons.prems by auto
  qed
  then have "le_word xs = le_word ys"
    by (rule bit_eqI)
  ultimately show ?case
    using Cons by simp
qed simp

lemma crc_byte_inj: "crc_byte s b = crc_byte s' b \<Longrightarrow> s = s'"
  unfolding crc_byte_def by (metis crc_steps_inj xor_cancel)

lemma crc_fold_inj: "foldl crc_byte s bs = foldl crc_byte s' bs \<Longrightarrow> s = s'"
  by (induction bs arbitrary: s s') (auto dest: crc_byte_inj)

lemma xor_left_cancel: "(s :: 'a::len word) XOR x = s XOR y \<Longrightarrow> x = y"
  by (metis xor.commute xor_cancel)

lemma crc32_burst:
  assumes "length w = length w'" "length w \<le> 4" "crc32 (p @ w @ q) = crc32 (p @ w' @ q)"
  shows "w = w'"
proof -
  let ?s = "foldl crc_byte 0xFFFFFFFF p"
  have "foldl crc_byte (foldl crc_byte ?s w) q = foldl crc_byte (foldl crc_byte ?s w') q"
    using assms(3) by (simp add: crc32_def)
  then have "foldl crc_byte ?s w = foldl crc_byte ?s w'"
    by (rule crc_fold_inj)
  then have "le_word w = le_word w'"
    using assms(1,2) crc_word [of w] crc_word [of w'] by (auto dest: crc_steps_inj xor_left_cancel)
  then show ?thesis
    using assms le_word_inj by blast
qed

subsection \<open>Signing and verifying\<close>

lemma attr_position_append:
  assumes "list_all (\<lambda>a. f a = None) xs" "f y = Some v"
  shows "attr_position f (xs @ y # ys) = Some (length xs, v)"
  using assms by (induction xs) auto

definition unsigned_attrs :: "StunMessage \<Rightarrow> StunAttribute list" where
  "unsigned_attrs m = filter (\<lambda>a. \<not> is_message_integrity a \<and> \<not> is_fingerprint a) (attributes m)"

definition integrity_tag :: "hmac \<Rightarrow> bytes \<Rightarrow> StunMessage \<Rightarrow> bytes" where
  "integrity_tag mac key m =
     projr (mac key (serialize_prefix (m\<lparr>attributes := unsigned_attrs m\<rparr>) (length (unsigned_attrs m)) 24 None))"

lemma unsigned_attrs_none:
  "list_all (\<lambda>a. integrity_of a = None \<and> fingerprint_of a = None) (unsigned_attrs m)"
  by (auto simp: unsigned_attrs_def list_all_iff integrity_of_def fingerprint_of_def
      is_message_integrity_def is_fingerprint_def split: StunAttribute.splits)

lemma add_message_integrity_result:
  assumes "hmac_ok mac"
  shows "add_message_integrity mac key m
       = Inr (m\<lparr>attributes := unsigned_attrs m @ [SA_MessageIntegrity (integrity_tag mac key m)]\<rparr>)"
    and "mac key (serialize_prefix (m\<lparr>attributes := unsigned_attrs m\<rparr>) (length (unsigned_attrs m)) 24 None)
       = Inr (integrity_tag mac key m)"
    and "length (integrity_tag mac key m) = 20"
proof -
  obtain tag where "mac key (serialize_prefix (m\<lparr>attributes := unsigned_attrs m\<rparr>)
      (length (unsigned_attrs m)) 24 None) = Inr tag" "length tag = 20"
    using assms unfolding hmac_ok_def by blast
  then show "add_message_integrity mac key m
       = Inr (m\<lparr>attributes := unsigned_attrs m @ [SA_MessageIntegrity (integrity_tag mac key m)]\<rparr>)"
    and "mac key (serialize_prefix (m\<lparr>attributes := unsigned_attrs m\<rparr>) (length (unsigned_attrs m)) 24 None)
       = Inr (integrity_tag mac key m)"
    and "length (integrity_tag mac key m) = 20"
    by (simp_all add: add_message_integrity_def integrity_tag_def hmac_sha1_def push_attribute_def Let_def
        flip: unsigned_attrs_def)
qed

text \<open>A message signed and fingerprinted, as the sources always build it.\<close>

definition sealed :: "hmac \<Rightarrow> bytes \<Rightarrow> StunMessage \<Rightarrow> StunMessage" where
  "sealed mac key m =
     add_fingerprint (m\<lparr>attributes := unsigned_attrs m @ [SA_MessageIntegrity (integrity_tag mac key m)]\<rparr>)"

lemma filter_not_fingerprint [simp]: "filter (\<lambda>a. \<not> is_fingerprint a) (unsigned_attrs m) = unsigned_attrs m"
  by (auto simp: unsigned_attrs_def filter_id_conv)

lemma integrity_not_fingerprint [simp]: "\<not> is_fingerprint (SA_MessageIntegrity t)"
  by (simp add: is_fingerprint_def)

lemma sealed_attributes:
  obtains f where
    "attributes (sealed mac key m)
       = unsigned_attrs m @ [SA_MessageIntegrity (integrity_tag mac key m), SA_Fingerprint f]"
    "f = crc32 (serialize_prefix (sealed mac key m) (Suc (length (unsigned_attrs m))) 8 None) XOR 0x5354554e"
  by (simp add: sealed_def add_fingerprint_def push_attribute_def Let_def
      serialize_prefix_def)

lemma sealed_simps [simp]:
  "transaction_id (sealed mac key m) = transaction_id m" "message_type (sealed mac key m) = message_type m"
  by (simp_all add: sealed_def add_fingerprint_def push_attribute_def Let_def)

lemma unsigned_attrs_ok:
  "list_all attr_ok (attributes m) \<Longrightarrow> list_all attr_ok (unsigned_attrs m)"
  by (auto simp: unsigned_attrs_def list_all_iff)

lemma attrs_length_filter: "attrs_length (filter P as) \<le> attrs_length as"
  by (induction as) auto

definition signable :: "StunMessage \<Rightarrow> bool" where
  "signable m \<longleftrightarrow> length (transaction_id m) = 12 \<and> list_all attr_ok (attributes m) \<and>
     attrs_length (attributes m) + 32 < 65536"

lemma sealed_ok:
  assumes "hmac_ok mac" "signable m"
  shows "stun_ok (sealed mac key m)"
proof -
  obtain f where "attributes (sealed mac key m)
       = unsigned_attrs m @ [SA_MessageIntegrity (integrity_tag mac key m), SA_Fingerprint f]"
    by (rule sealed_attributes)
  moreover have "attrs_length (unsigned_attrs m) + 32 < 65536"
    using assms(2) attrs_length_filter [of _ "attributes m"]
    by (metis (no_types, lifting) unsigned_attrs_def signable_def add_le_mono1 le_less_trans)
  ultimately show ?thesis
    using assms add_message_integrity_result(3) [OF assms(1)] unsigned_attrs_ok [of m]
    by (simp add: stun_ok_def signable_def pad_len_def)
qed

lemma sealed_integrity:
  assumes "hmac_ok mac" "signable m"
  shows "verify_message_integrity mac key (sealed mac key m\<lparr>raw := StunMessage_serialize (sealed mac key m)\<rparr>)
       = Inr True"
proof -
  obtain f where as: "attributes (sealed mac key m)
       = unsigned_attrs m @ [SA_MessageIntegrity (integrity_tag mac key m), SA_Fingerprint f]"
    by (rule sealed_attributes)
  have "list_all (\<lambda>a. integrity_of a = None) (unsigned_attrs m)"
    using unsigned_attrs_none [of m] by (simp add: list_all_iff)
  then have "attr_position integrity_of (attributes (sealed mac key m))
      = Some (length (unsigned_attrs m), integrity_tag mac key m)"
    unfolding as by (simp add: attr_position_append integrity_of_def)
  moreover have "serialize_prefix (sealed mac key m) (length (unsigned_attrs m)) 24 None
      = serialize_prefix (m\<lparr>attributes := unsigned_attrs m\<rparr>) (length (unsigned_attrs m)) 24 None"
    by (simp add: serialize_prefix_def as)
  ultimately show ?thesis
    using add_message_integrity_result(2) [OF assms(1)]
    by (simp add: verify_message_integrity_def covered_received [OF sealed_ok [OF assms]] as)
qed

lemma sealed_fingerprint:
  assumes "hmac_ok mac" "signable m"
  shows "verify_fingerprint (sealed mac key m\<lparr>raw := StunMessage_serialize (sealed mac key m)\<rparr>) = Inr True"
proof -
  obtain f where as: "attributes (sealed mac key m)
       = unsigned_attrs m @ [SA_MessageIntegrity (integrity_tag mac key m), SA_Fingerprint f]"
    and f: "f = crc32 (serialize_prefix (sealed mac key m) (Suc (length (unsigned_attrs m))) 8 None) XOR 0x5354554e"
    by (rule sealed_attributes)
  have "list_all (\<lambda>a. fingerprint_of a = None)
      (unsigned_attrs m @ [SA_MessageIntegrity (integrity_tag mac key m)])"
    using unsigned_attrs_none [of m] by (simp add: list_all_iff fingerprint_of_def)
  then have "attr_position fingerprint_of (attributes (sealed mac key m)) = Some (Suc (length (unsigned_attrs m)), f)"
    using attr_position_append [of fingerprint_of "unsigned_attrs m @ [SA_MessageIntegrity (integrity_tag mac key m)]"
        "SA_Fingerprint f" f "[]"]
    by (simp add: as fingerprint_of_def)
  then show ?thesis
    using f by (simp add: verify_fingerprint_def covered_received [OF sealed_ok [OF assms]] as)
qed

subsection \<open>The server and the client\<close>

lemma split_colon_append: "0x3A \<notin> set l \<Longrightarrow> split_colon (l @ 0x3A # r) = Some (l, r)"
  by (induction l) auto

lemma split_colonD: "split_colon u = Some (l, r) \<Longrightarrow> u = l @ 0x3A # r \<and> 0x3A \<notin> set l"
  by (induction u arbitrary: l) (auto split: if_splits)

lemma success_response_sealed:
  assumes "hmac_ok mac"
  shows "success_response mac s m source
       = Respond (sealed mac (local_pwd s) (push_attribute (SA_XorMappedAddress source)
           (new_with_transaction BindingResponse (transaction_id m))))"
  by (simp add: success_response_def sealed_def Let_def add_message_integrity_result(1) [OF assms])

lemma verify_integrity_True_iff:
  "verify_message_integrity mac key m = Inr True \<longleftrightarrow>
     (\<exists>i tag. attr_position integrity_of (attributes m) = Some (i, tag) \<and> mac key (covered m i 24) = Inr tag)"
  by (auto simp: verify_message_integrity_def split: option.splits sum.splits)

lemma handle_binding_request_exact:
  assumes "hmac_ok mac" "0x3A \<notin> set (local_ufrag s)"
  shows "handle_binding_request mac s data source = Respond r \<longleftrightarrow>
    (\<exists>m. StunMessage_parse data = Inr m \<and> message_type m = BindingRequest \<and>
       get_username m = Some (local_ufrag s @ 0x3A # remote_ufrag s) \<and>
       verify_message_integrity mac (local_pwd s) m = Inr True \<and>
       r = sealed mac (local_pwd s) (push_attribute (SA_XorMappedAddress source)
             (new_with_transaction BindingResponse (transaction_id m))))"
  by (auto simp: handle_binding_request_def success_response_sealed [OF assms(1)]
      split_colon_append [OF assms(2)] split: sum.splits option.splits if_splits dest: split_colonD)

lemma find_map_append:
  "find_map f (xs @ ys) = (case find_map f xs of None \<Rightarrow> find_map f ys | Some y \<Rightarrow> Some y)"
  by (induction xs) (auto split: option.splits)

lemma find_map_filter: "(\<And>x. \<not> P x \<Longrightarrow> f x = None) \<Longrightarrow> find_map f (filter P xs) = find_map f xs"
  by (induction xs) (auto split: option.splits)

lemma find_map_unsigned:
  assumes "\<And>v. f (SA_MessageIntegrity v) = None" "\<And>v. f (SA_Fingerprint v) = None"
  shows "find_map f (unsigned_attrs m) = find_map f (attributes m)"
    and "find_map f (attributes (sealed mac key m)) = find_map f (attributes m)"
proof -
  show *: "find_map f (unsigned_attrs m) = find_map f (attributes m)"
    unfolding unsigned_attrs_def using assms
    by (intro find_map_filter) (auto simp: is_message_integrity_def is_fingerprint_def split: StunAttribute.splits)
  obtain v where as: "attributes (sealed mac key m)
       = unsigned_attrs m @ [SA_MessageIntegrity (integrity_tag mac key m), SA_Fingerprint v]"
    by (rule sealed_attributes)
  show "find_map f (attributes (sealed mac key m)) = find_map f (attributes m)"
    by (simp add: as find_map_append * assms split: option.split)
qed

lemma get_sealed [simp]:
  "get_username (sealed mac key m) = get_username m"
  "get_xor_mapped_address (sealed mac key m) = get_xor_mapped_address m"
  by (simp_all add: get_username_def get_xor_mapped_address_def find_map_unsigned(2))

text \<open>A request that reaches the server as it was sealed is answered.\<close>

lemma server_answers_sealed:
  assumes "hmac_ok mac" "0x3A \<notin> set (local_ufrag s)" "signable m" "message_type m = BindingRequest"
    and "get_username m = Some (local_ufrag s @ 0x3A # remote_ufrag s)"
  shows "handle_binding_request mac s (StunMessage_serialize (sealed mac (local_pwd s) m)) source
       = Respond (sealed mac (local_pwd s) (push_attribute (SA_XorMappedAddress source)
           (new_with_transaction BindingResponse (transaction_id m))))"
proof -
  let ?q = "sealed mac (local_pwd s) m"
  have "StunMessage_parse (StunMessage_serialize ?q) = Inr (?q\<lparr>raw := StunMessage_serialize ?q\<rparr>)"
    using parse_serialize [OF sealed_ok [OF assms(1,3)], of _ "[]"] by simp
  moreover have "get_username (?q\<lparr>raw := StunMessage_serialize ?q\<rparr>) = get_username ?q"
    by (simp add: get_username_def)
  ultimately show ?thesis
    using sealed_integrity [OF assms(1,3)] assms(4,5)
    by (simp add: handle_binding_request_exact [OF assms(1,2)])
qed

lemma request_with_config_sealed:
  assumes "hmac_ok mac" "cfg_key cfg = Some key"
  shows "binding_request_message mac tid (Some cfg)
       = Inr (sealed mac key (opt_add add_ice_controlled (cfg_ice_controlled cfg)
            (opt_add add_ice_controlling (cfg_ice_controlling cfg)
              (opt_add add_priority (cfg_priority cfg)
                (opt_add add_username (cfg_username cfg) (new_binding_request tid))))))"
  using assms(2)
  by (simp add: binding_request_message_def request_with_config_def add_message_integrity_result(1) [OF assms(1)]
      sealed_def Let_def)

lemma response_accepted:
  assumes "hmac_ok mac" "length tid = 12" "addr_ok source"
  shows "binding_response tid (StunMessage_serialize (sealed mac key
           (push_attribute (SA_XorMappedAddress source) (new_with_transaction BindingResponse tid)))) = Inr source"
proof -
  let ?m = "push_attribute (SA_XorMappedAddress source) (new_with_transaction BindingResponse tid)"
  let ?q = "sealed mac key ?m"
  have "signable ?m"
    using assms by (simp add: signable_def push_attribute_def new_with_transaction_def pad_len_def
        split: IpAddr.splits)
  then have "StunMessage_parse (StunMessage_serialize ?q) = Inr (?q\<lparr>raw := StunMessage_serialize ?q\<rparr>)"
    using parse_serialize [of ?q "[]"] sealed_ok [OF assms(1)] by simp
  moreover have "get_xor_mapped_address (?q\<lparr>raw := StunMessage_serialize ?q\<rparr>) = get_xor_mapped_address ?q"
    by (simp add: get_xor_mapped_address_def)
  moreover have "get_xor_mapped_address ?m = Some source" "transaction_id ?m = tid" "message_type ?m = BindingResponse"
    by (simp_all add: get_xor_mapped_address_def push_attribute_def new_with_transaction_def)
  ultimately show ?thesis
    by (simp add: binding_response_def)
qed

lemma stun_check:
  assumes "hmac_ok mac" "length tid = 12" "addr_ok source" "0x3A \<notin> set (local_ufrag s)"
    and "cfg_username cfg = Some (local_ufrag s @ 0x3A # remote_ufrag s)" "cfg_key cfg = Some (local_pwd s)"
    and "valid_utf8 (local_ufrag s @ 0x3A # remote_ufrag s)"
    and "length (local_ufrag s @ 0x3A # remote_ufrag s) < 65000"
  shows "\<exists>request response.
     binding_request_message mac tid (Some cfg) = Inr request \<and>
     handle_binding_request mac s (StunMessage_serialize request) source = Respond response \<and>
     binding_response tid (StunMessage_serialize response) = Inr source"
proof -
  let ?m = "opt_add add_ice_controlled (cfg_ice_controlled cfg)
            (opt_add add_ice_controlling (cfg_ice_controlling cfg)
              (opt_add add_priority (cfg_priority cfg)
                (opt_add add_username (cfg_username cfg) (new_binding_request tid))))"
  define u where "u = local_ufrag s @ 0x3A # remote_ufrag s"
  have pad: "pad_len (length u) < 4"
    by (simp add: pad_len_def)
  have m: "transaction_id ?m = tid" "message_type ?m = BindingRequest" "get_username ?m = Some u"
    using assms(5)
    by (simp_all add: opt_add_def add_ice_controlled_def add_ice_controlling_def add_priority_def add_username_def
        push_attribute_def new_binding_request_def get_username_def u_def split: option.split)
  have "signable ?m"
    using assms(2,5,7,8) pad unfolding u_def [symmetric]
    by (simp add: signable_def opt_add_def add_ice_controlled_def add_ice_controlling_def add_priority_def
        add_username_def push_attribute_def new_binding_request_def pad_len_def [of 4] pad_len_def [of 8]
        split: option.split)
  then show ?thesis
    using server_answers_sealed [OF assms(1,4), of ?m source] m response_accepted [OF assms(1-3)]
      request_with_config_sealed [OF assms(1,6), of tid]
    by (simp add: u_def)
qed

lemma answer_read:
  assumes "hmac_ok mac" "length tid = 12" "addr_ok source"
  shows "\<exists>a. StunMessage_parse (StunMessage_serialize (sealed mac key
      (push_attribute (SA_XorMappedAddress source) (new_with_transaction BindingResponse tid)))) = Inr a \<and>
    message_type a = BindingResponse \<and> transaction_id a = tid \<and> get_xor_mapped_address a = Some source \<and>
    verify_message_integrity mac key a = Inr True \<and> verify_fingerprint a = Inr True"
proof -
  let ?m = "push_attribute (SA_XorMappedAddress source) (new_with_transaction BindingResponse tid)"
  let ?q = "sealed mac key ?m"
  have ok: "signable ?m"
    using assms by (simp add: signable_def push_attribute_def new_with_transaction_def pad_len_def split: IpAddr.splits)
  have "StunMessage_parse (StunMessage_serialize ?q) = Inr (?q\<lparr>raw := StunMessage_serialize ?q\<rparr>)"
    using parse_serialize [of ?q "[]"] sealed_ok [OF assms(1) ok] by simp
  moreover have "get_xor_mapped_address (?q\<lparr>raw := StunMessage_serialize ?q\<rparr>) = Some source"
    by (simp add: get_xor_mapped_address_def find_map_unsigned(2)) (simp add: push_attribute_def new_with_transaction_def)
  moreover have "transaction_id ?m = tid" "message_type ?m = BindingResponse"
    by (simp_all add: push_attribute_def new_with_transaction_def)
  ultimately show ?thesis
    using sealed_integrity [OF assms(1) ok, of key] sealed_fingerprint [OF assms(1) ok, of key] by simp
qed

lemma parse_transaction: "StunMessage_parse data = Inr m \<Longrightarrow> length (transaction_id m) = 12"
  by (auto simp: StunMessage_parse.simps Let_def split: if_splits option.splits sum.splits)

section \<open>Properties\<close>

definition sample_hmac :: hmac where
  "sample_hmac key input = Inr (take 20 (key @ input @ replicate 20 0))"

lemma sample_hmac_ok: "hmac_ok sample_hmac"
  by (auto simp: hmac_ok_def sample_hmac_def)

definition sample_addr :: SocketAddr where
  "sample_addr = \<lparr>ip = V4 0xC0A80164, port = 50000\<rparr>"

definition sample_stun :: StunMessage where
  "sample_stun = \<lparr>message_type = AllocateErrorResponse, transaction_id = replicate 12 7,
     attributes = [SA_ErrorCode 401 (str ''Unauthorized''), SA_Realm (str ''forge''), SA_Nonce [1, 2, 3],
       SA_XorRelayedAddress sample_addr, SA_MappedAddress \<lparr>ip = V6 (replicate 16 1), port = 9\<rparr>,
       SA_Unknown 0x0024 [1, 2]], raw = []\<rparr>"

lemma valid_utf8_ascii: "list_all (\<lambda>b. b < 0x80) bs \<Longrightarrow> valid_utf8 bs"
  by (induction bs) (simp_all add: valid_utf8_Cons utf8_seq_def)

text \<open>
  C8. A STUN message reads back: parsing what a message serialises to, followed by anything, gives the
  message, with the octets it was read from. The message is one of the source's types and fits the
  16-bit length; an error code has a class below 256.
\<close>

theorem stun_roundtrip:
  assumes "stun_ok m"
  shows "StunMessage_parse (StunMessage_serialize m @ rest) = Inr (m\<lparr>raw := StunMessage_serialize m\<rparr>)"
  by (rule parse_serialize [OF assms])

theorem stun_roundtrip_witness:
  "stun_ok sample_stun \<and>
   StunMessage_parse (StunMessage_serialize sample_stun @ [5])
     = Inr (sample_stun\<lparr>raw := StunMessage_serialize sample_stun\<rparr>)"
proof -
  have "stun_ok sample_stun"
    by (simp add: stun_ok_def sample_stun_def sample_addr_def AttributeType_from_u16_def valid_utf8_ascii str_def
        pad_len_def)
  then show ?thesis
    using stun_roundtrip by blast
qed

text \<open>
  C17. A message that was signed with a key and fingerprinted, serialised and parsed by the receiver
  passes both checks there, whatever attributes it carries; older tags and checksums are replaced.
\<close>

theorem stun_sign_verify:
  assumes "hmac_ok mac" "length (transaction_id m) = 12" "list_all attr_ok (attributes m)"
    and "attrs_length (attributes m) + 32 < 65536"
  shows "\<exists>signed_m received.
     add_message_integrity mac key m = Inr signed_m \<and>
     StunMessage_parse (StunMessage_serialize (add_fingerprint signed_m)) = Inr received \<and>
     verify_message_integrity mac key received = Inr True \<and> verify_fingerprint received = Inr True"
proof -
  have ok: "signable m"
    using assms by (simp add: signable_def)
  show ?thesis
    using add_message_integrity_result(1) [OF assms(1)] sealed_integrity [OF assms(1) ok]
      sealed_fingerprint [OF assms(1) ok] parse_serialize [OF sealed_ok [OF assms(1) ok], of _ "[]"]
    by (auto simp: sealed_def)
qed

theorem stun_sign_verify_witness:
  "\<exists>signed_m received.
     add_message_integrity sample_hmac (str ''secret'') (add_use_candidate sample_stun) = Inr signed_m \<and>
     StunMessage_parse (StunMessage_serialize (add_fingerprint signed_m)) = Inr received \<and>
     verify_message_integrity sample_hmac (str ''secret'') received = Inr True \<and>
     verify_fingerprint received = Inr True"
  by (rule stun_sign_verify [OF sample_hmac_ok])
    (simp_all add: sample_stun_def sample_addr_def AttributeType_from_u16_def valid_utf8_ascii str_def
      pad_len_def add_use_candidate_def has_use_candidate_def push_attribute_def)

text \<open>
  C3. The server answers only those who know the password, and all of them. A datagram it answers is a Binding Request
  whose USERNAME is the local fragment, a colon and the remote fragment, and whose MESSAGE-INTEGRITY is the HMAC, under the
  local password, of the received octets before it. The answer, as its receiver reads it, mirrors the transaction, reports the
  source address and passes both checks there. A datagram it drops lacks one of these, or a correct FINGERPRINT.
\<close>

theorem stun_server_authenticates:
  assumes "hmac_ok mac" "0x3A \<notin> set (local_ufrag s)" "addr_ok source"
  shows "(case handle_binding_request mac s data source of
            Respond r \<Rightarrow> \<exists>m i tag a. StunMessage_parse data = Inr m \<and> message_type m = BindingRequest \<and>
              get_username m = Some (local_ufrag s @ 0x3A # remote_ufrag s) \<and>
              attr_position integrity_of (attributes m) = Some (i, tag) \<and>
              mac (local_pwd s) (covered m i 24) = Inr tag \<and>
              StunMessage_parse (StunMessage_serialize r) = Inr a \<and> message_type a = BindingResponse \<and>
              transaction_id a = transaction_id m \<and> get_xor_mapped_address a = Some source \<and>
              verify_message_integrity mac (local_pwd s) a = Inr True \<and> verify_fingerprint a = Inr True
          | Drop _ \<Rightarrow> \<not> (\<exists>m i tag j. StunMessage_parse data = Inr m \<and> message_type m = BindingRequest \<and>
              get_username m = Some (local_ufrag s @ 0x3A # remote_ufrag s) \<and>
              attr_position integrity_of (attributes m) = Some (i, tag) \<and>
              mac (local_pwd s) (covered m i 24) = Inr tag \<and>
              attr_position fingerprint_of (attributes m) = Some (j, crc32 (covered m j 8) XOR 0x5354554e)))"
proof (cases "handle_binding_request mac s data source")
  case (Respond r)
  then obtain m where m: "StunMessage_parse data = Inr m" "message_type m = BindingRequest"
    "get_username m = Some (local_ufrag s @ 0x3A # remote_ufrag s)"
    "verify_message_integrity mac (local_pwd s) m = Inr True"
    and r: "r = sealed mac (local_pwd s) (push_attribute (SA_XorMappedAddress source)
             (new_with_transaction BindingResponse (transaction_id m)))"
    by (auto simp: handle_binding_request_exact [OF assms(1,2)])
  show ?thesis
    using m answer_read [OF assms(1) parse_transaction [OF m(1)] assms(3), of "local_pwd s"]
    unfolding Respond r verify_integrity_True_iff StunServerResponse.case by blast
next
  case (Drop why)
  then show ?thesis
    using handle_binding_request_exact [OF assms(1,2), of data source] by (auto simp: verify_integrity_True_iff)
qed

definition sample_stun_server :: StunServer where
  "sample_stun_server = \<lparr>local_ufrag = str ''evtj'', local_pwd = str ''VOkJxbRl1RmTxUk'', remote_ufrag = str ''h6vY''\<rparr>"

theorem stun_server_authenticates_witness:
  "\<exists>data r m i tag a. handle_binding_request sample_hmac sample_stun_server data sample_addr = Respond r \<and>
     StunMessage_parse data = Inr m \<and> message_type m = BindingRequest \<and> get_username m = Some (str ''evtj:h6vY'') \<and>
     attr_position integrity_of (attributes m) = Some (i, tag) \<and>
     sample_hmac (local_pwd sample_stun_server) (covered m i 24) = Inr tag \<and>
     StunMessage_parse (StunMessage_serialize r) = Inr a \<and> get_xor_mapped_address a = Some sample_addr"
proof -
  let ?cfg = "\<lparr>cfg_username = Some (str ''evtj:h6vY''), cfg_key = Some (str ''VOkJxbRl1RmTxUk''), cfg_priority = Some 1,
    cfg_ice_controlling = Some 9, cfg_ice_controlled = None\<rparr>"
  have addr: "addr_ok sample_addr" by (simp add: sample_addr_def)
  have colon: "0x3A \<notin> set (local_ufrag sample_stun_server)" by (simp add: sample_stun_server_def str_def)
  have "\<exists>request response. binding_request_message sample_hmac (replicate 12 3) (Some ?cfg) = Inr request \<and>
     handle_binding_request sample_hmac sample_stun_server (StunMessage_serialize request) sample_addr = Respond response \<and>
     binding_response (replicate 12 3) (StunMessage_serialize response) = Inr sample_addr"
    by (rule stun_check [OF sample_hmac_ok]) (simp_all add: sample_stun_server_def sample_addr_def str_def valid_utf8_ascii)
  then obtain data r where r: "handle_binding_request sample_hmac sample_stun_server data sample_addr = Respond r" by blast
  have name: "local_ufrag sample_stun_server @ 0x3A # remote_ufrag sample_stun_server = str ''evtj:h6vY''"
    by (simp add: sample_stun_server_def str_def)
  show ?thesis
    using stun_server_authenticates [OF sample_hmac_ok colon addr, of data]
    unfolding r StunServerResponse.case name using r by blast
qed

text \<open>
  A connectivity check between two agents of this code succeeds: the request a client builds with
  the fragments in the order of the receiver and signs with the receiver's password is answered, and
  from the answer the client learns its address as the server saw it, whatever priority and role it
  sends along.
\<close>

theorem stun_check_succeeds:
  assumes "hmac_ok mac" "length tid = 12" "addr_ok source" "0x3A \<notin> set (local_ufrag s)"
    and "cfg_username cfg = Some (local_ufrag s @ 0x3A # remote_ufrag s)" "cfg_key cfg = Some (local_pwd s)"
    and "valid_utf8 (local_ufrag s @ 0x3A # remote_ufrag s)"
    and "length (local_ufrag s @ 0x3A # remote_ufrag s) < 65000"
  shows "\<exists>request response.
     binding_request_message mac tid (Some cfg) = Inr request \<and>
     handle_binding_request mac s (StunMessage_serialize request) source = Respond response \<and>
     binding_response tid (StunMessage_serialize response) = Inr source"
  by (rule stun_check [OF assms])

theorem stun_check_succeeds_witness:
  "\<exists>request response.
     binding_request_message sample_hmac (replicate 12 3) (Some \<lparr>cfg_username = Some (str ''evtj:h6vY''),
       cfg_key = Some (str ''VOkJxbRl1RmTxUk''), cfg_priority = Some 1, cfg_ice_controlling = Some 9,
       cfg_ice_controlled = None\<rparr>) = Inr request \<and>
     handle_binding_request sample_hmac sample_stun_server (StunMessage_serialize request) sample_addr
       = Respond response \<and>
     binding_response (replicate 12 3) (StunMessage_serialize response) = Inr sample_addr"
  by (rule stun_check_succeeds [OF sample_hmac_ok])
    (simp_all add: sample_stun_server_def sample_addr_def str_def valid_utf8_ascii)

text \<open>
  C36. The FINGERPRINT detects every change confined to four consecutive octets: of two messages with
  the same FINGERPRINT whose covered octets differ only there, if one is accepted the other is refused.
\<close>

theorem fingerprint_detects_burst:
  assumes "attr_position fingerprint_of (attributes m) = Some (i, v)" "verify_fingerprint m = Inr True"
    and "attr_position fingerprint_of (attributes m') = Some (j, v)"
    and "covered m i 8 = p @ w @ q" "covered m' j 8 = p @ w' @ q"
    and "length w = length w'" "length w \<le> 4" "w \<noteq> w'"
  shows "verify_fingerprint m' = Inl (Ice ''FINGERPRINT mismatch'')"
proof -
  have "crc32 (p @ w @ q) \<noteq> crc32 (p @ w' @ q)"
    using crc32_burst [OF assms(6,7)] assms(8) by blast
  moreover have "crc32 (p @ w @ q) XOR 0x5354554e = v"
    using assms(1,2,4) by (simp add: verify_fingerprint_def split: if_splits)
  ultimately have "crc32 (p @ w' @ q) XOR 0x5354554e \<noteq> v"
    by (metis xor_cancel)
  then show ?thesis
    using assms(3,5) by (simp add: verify_fingerprint_def)
qed

theorem fingerprint_detects_burst_witness:
  "verify_fingerprint ((add_fingerprint (new_binding_request (replicate 12 3)))\<lparr>message_type := RefreshRequest\<rparr>)
     = Inl (Ice ''FINGERPRINT mismatch'')"
proof -
  let ?m = "add_fingerprint (new_binding_request (replicate 12 3))"
  let ?m' = "?m\<lparr>message_type := RefreshRequest\<rparr>"
  let ?v = "crc32 (serialize_prefix (new_binding_request (replicate 12 3)) 0 8 None) XOR 0x5354554e"
  have pos: "attr_position fingerprint_of (attributes ?m) = Some (0, ?v)"
    by (simp add: add_fingerprint_def push_attribute_def new_binding_request_def fingerprint_of_def)
  moreover have "attr_position fingerprint_of (attributes ?m') = Some (0, ?v)"
    using pos by simp
  moreover have cov: "covered ?m 0 8 = to_be16 1 @ [] @ drop 2 (covered ?m 0 8)"
    "covered ?m 0 8 = serialize_prefix (new_binding_request (replicate 12 3)) 0 8 None"
    by (simp_all add: add_fingerprint_def push_attribute_def new_binding_request_def covered_def raw_prefix_def
        serialize_prefix_def)
  moreover have "covered ?m' 0 8 = to_be16 4 @ [] @ drop 2 (covered ?m 0 8)"
    by (simp add: add_fingerprint_def push_attribute_def new_binding_request_def covered_def raw_prefix_def
        serialize_prefix_def)
  moreover have "verify_fingerprint ?m = Inr True"
    by (simp only: verify_fingerprint_def pos cov(2) option.case prod.case simp_thms if_True)
  moreover have "to_be16 1 \<noteq> to_be16 4"
    by (simp add: to_be16_def)
  ultimately show ?thesis
    using fingerprint_detects_burst [of ?m 0 ?v ?m' 0 "[]" "to_be16 1" "drop 2 (covered ?m 0 8)" "to_be16 4"]
    by simp
qed

text \<open>
  The server does not look at what follows MESSAGE-INTEGRITY: a signed request to which anyone has
  appended attributes is answered all the same, and the appended attributes are part of the parsed
  message. So an attacker on the path can add USE-CANDIDATE to a check, and a request with a wrong
  FINGERPRINT is answered, although the server's description says that it requires a correct one.
\<close>

theorem stun_tail_unprotected:
  assumes "hmac_ok mac" "0x3A \<notin> set (local_ufrag s)" "message_type m = BindingRequest"
    and "get_username m = Some (local_ufrag s @ 0x3A # remote_ufrag s)"
    and "add_message_integrity mac (local_pwd s) m = Inr m1"
    and "stun_ok (m1\<lparr>attributes := attributes m1 @ extra\<rparr>)"
  shows "\<exists>r. handle_binding_request mac s (StunMessage_serialize (m1\<lparr>attributes := attributes m1 @ extra\<rparr>)) source
       = Respond r"
proof -
  define tag where "tag = integrity_tag mac (local_pwd s) m"
  let ?q = "m1\<lparr>attributes := attributes m1 @ extra\<rparr>"
  let ?r = "?q\<lparr>raw := StunMessage_serialize ?q\<rparr>"
  note add = add_message_integrity_result [OF assms(1), of "local_pwd s" m]
  have m1: "m1 = m\<lparr>attributes := unsigned_attrs m @ [SA_MessageIntegrity tag]\<rparr>"
    using assms(5) add(1) by (simp add: tag_def)
  then have as: "attributes ?q = unsigned_attrs m @ SA_MessageIntegrity tag # extra"
    by simp
  have "list_all (\<lambda>a. integrity_of a = None) (unsigned_attrs m)"
    using unsigned_attrs_none [of m] by (simp add: list_all_iff)
  then have "attr_position integrity_of (attributes ?r) = Some (length (unsigned_attrs m), tag)"
    using as by (simp add: attr_position_append integrity_of_def)
  moreover have "covered ?r (length (unsigned_attrs m)) 24
      = serialize_prefix (m\<lparr>attributes := unsigned_attrs m\<rparr>) (length (unsigned_attrs m)) 24 None"
    by (subst covered_received [OF assms(6)]) (simp_all add: serialize_prefix_def m1)
  ultimately have "verify_message_integrity mac (local_pwd s) ?r = Inr True"
    using add(2) by (simp add: verify_message_integrity_def tag_def)
  moreover have "StunMessage_parse (StunMessage_serialize ?q) = Inr ?r"
    using parse_serialize [OF assms(6), of "[]"] by simp
  moreover have "get_username ?r = get_username m"
    using assms(4) by (simp add: get_username_def m1 find_map_append find_map_unsigned(1))
  moreover have "message_type ?r = BindingRequest"
    using assms(3) by (simp add: m1)
  ultimately show ?thesis
    using assms(4) by (simp add: handle_binding_request_exact [OF assms(1,2)])
qed

end
