(* ===== verification/Turn.thy ===== *)
theory Turn
  imports Stun
begin

unbundle bit_operations_syntax

text \<open>
  The TURN client of \<^verbatim>\<open>forge-ice/src/turn.rs\<close> over the messages of \<open>Stun\<close>: allocation with long-term
  credentials, transactions with retransmission and renewal of the nonce, permissions and channels, and
  the framing of relayed data. The network is the parameter \<open>net\<close>: what each attempt to send a request
  meets, whether the send fails and which datagrams or errors the socket delivers before the time for
  the attempt is over. Random transaction ids are the parameter \<open>rng\<close>, MD5 and HMAC-SHA1 the parameters
  \<open>md5\<close> and \<open>mac\<close>. A response that a transaction returns is authenticated and answers its request, no
  relayed datagram that arrives meanwhile is lost, and channel numbers stay in their range and belong to
  one peer each.
\<close>

section \<open>Definitions\<close>

definition UDP_TRANSPORT :: u8 where
  "UDP_TRANSPORT = 17"

definition DEFAULT_LIFETIME :: u32 where
  "DEFAULT_LIFETIME = 600"

definition CHANNEL_MIN :: u16 where
  "CHANNEL_MIN = 0x4000"

definition CHANNEL_MAX :: u16 where
  "CHANNEL_MAX = 0x7FFF"

definition MAX_ATTEMPTS :: nat where
  "MAX_ATTEMPTS = 5"

definition MAX_STALE_NONCE_RETRIES :: nat where
  "MAX_STALE_NONCE_RETRIES = 3"

record TurnServer =
  ts_uri :: bytes
  ts_username :: bytes
  ts_password :: bytes

definition long_term_key :: "(bytes \<Rightarrow> bytes) \<Rightarrow> bytes \<Rightarrow> bytes \<Rightarrow> bytes \<Rightarrow> bytes" where
  "long_term_key md5 username realm password = md5 (username @ str '':'' @ realm @ str '':'' @ password)"

subsection \<open>ChannelData\<close>

definition is_channel_data :: "bytes \<Rightarrow> bool" where
  "is_channel_data pkt \<longleftrightarrow> pkt \<noteq> [] \<and> hd pkt AND 0xC0 = 0x40"

definition encode_channel_data :: "u16 \<Rightarrow> bytes \<Rightarrow> bytes" where
  "encode_channel_data channel data = to_be16 channel @ to_be16 (of_nat (length data)) @ data"

fun decode_channel_data :: "bytes \<Rightarrow> (u16 \<times> bytes) option" where
  "decode_channel_data (c1 # c2 # l1 # l2 # rest) =
     (let len = unat (be16 l1 l2) in
      if 4 + len > 4 + length rest then None else Some (be16 c1 c2, take len rest))"
| "decode_channel_data _ = None"

subsection \<open>The client\<close>

text \<open>
  The hash map of channels is an association list in the order of its iteration, which only
  \<open>peer_for_channel\<close> sees.
\<close>

record TurnClient =
  tc_server :: SocketAddr
  tc_username :: bytes
  tc_password :: bytes
  tc_realm :: bytes
  tc_nonce :: bytes
  tc_key :: bytes
  tc_relayed_addr :: SocketAddr
  tc_mapped_addr :: "SocketAddr option"
  tc_lifetime :: u32
  tc_channels :: "(SocketAddr \<times> u16) list"
  tc_next_channel :: u16
  tc_pending_media :: "(SocketAddr \<times> bytes) list"

datatype TurnInbound =
    Relayed SocketAddr bytes
  | StaleNonce
  | ControlSuccess
  | ControlError u16
  | Ignored

definition peer_for_channel :: "TurnClient \<Rightarrow> u16 \<Rightarrow> SocketAddr option" where
  "peer_for_channel c channel = find_map (\<lambda>(peer, ch). if ch = channel then Some peer else None) (tc_channels c)"

definition add_auth :: "hmac \<Rightarrow> TurnClient \<Rightarrow> StunMessage \<Rightarrow> ForgeError + StunMessage" where
  "add_auth mac c msg =
     (let m1 = push_attribute (SA_Nonce (tc_nonce c))
            (push_attribute (SA_Realm (tc_realm c)) (push_attribute (SA_Username (tc_username c)) msg)) in
      case add_message_integrity mac (tc_key c) m1 of
        Inl e \<Rightarrow> Inl e
      | Inr m2 \<Rightarrow> Inr (add_fingerprint m2))"

subsection \<open>Transactions\<close>

text \<open>What the socket delivers, and what an attempt to send a request meets.\<close>

datatype Arrival = Datagram bytes SocketAddr | RecvFailed string

record Attempt =
  send_error :: "string option"
  arrivals :: "Arrival list"

type_synonym network = "bytes \<Rightarrow> nat \<Rightarrow> Attempt"

text \<open>A datagram is read into a buffer of 2048 octets.\<close>

definition RBUF :: nat where
  "RBUF = 2048"

definition stash :: "SocketAddr \<Rightarrow> bytes \<Rightarrow> TurnClient \<Rightarrow> TurnClient" where
  "stash peer data c = c\<lparr>tc_pending_media := tc_pending_media c @ [(peer, data)]\<rparr>"

definition stash_channel_data :: "bytes \<Rightarrow> TurnClient \<Rightarrow> TurnClient" where
  "stash_channel_data pkt c =
     (case decode_channel_data pkt of
        None \<Rightarrow> c
      | Some (channel, data) \<Rightarrow>
          (case peer_for_channel c channel of None \<Rightarrow> c | Some peer \<Rightarrow> stash peer data c))"

definition stash_indication :: "StunMessage \<Rightarrow> TurnClient \<Rightarrow> TurnClient" where
  "stash_indication m c =
     (case (get_xor_peer_address m, get_data m) of
        (Some peer, Some data) \<Rightarrow> stash peer data c
      | _ \<Rightarrow> c)"

text \<open>The inner loop of \<^verbatim>\<open>transact\<close>; without a result the time is over and the request is sent again.\<close>

fun await_response ::
    "TurnClient \<Rightarrow> bytes \<Rightarrow> Arrival list \<Rightarrow> TurnClient \<times> (ForgeError + StunMessage) option" where
  "await_response c txid [] = (c, None)"
| "await_response c txid (RecvFailed e # as) = (c, Some (Inl (Ice (''TURN recv: '' @ e))))"
| "await_response c txid (Datagram d from # as) =
     (if from \<noteq> tc_server c then await_response c txid as
      else
        let pkt = take RBUF d in
        if is_channel_data pkt then await_response (stash_channel_data pkt c) txid as
        else
          (case StunMessage_parse pkt of
             Inr m \<Rightarrow>
               if transaction_id m = txid then (c, Some (Inr m))
               else if message_type m = DataIndication then await_response (stash_indication m c) txid as
               else await_response c txid as
           | Inl _ \<Rightarrow> await_response c txid as))"

fun transact_attempts ::
    "network \<Rightarrow> bytes \<Rightarrow> bytes \<Rightarrow> nat \<Rightarrow> nat \<Rightarrow> TurnClient \<Rightarrow> TurnClient \<times> (ForgeError + StunMessage)" where
  "transact_attempts net req txid i 0 c = (c, Inl (Ice ''TURN transaction timed out''))"
| "transact_attempts net req txid i (Suc n) c =
     (case send_error (net req i) of
        Some e \<Rightarrow> (c, Inl (Ice (''TURN send: '' @ e)))
      | None \<Rightarrow>
          (case await_response c txid (arrivals (net req i)) of
             (c', Some r) \<Rightarrow> (c', r)
           | (c', None) \<Rightarrow> transact_attempts net req txid (Suc i) n c'))"

definition transact :: "network \<Rightarrow> TurnClient \<Rightarrow> StunMessage \<Rightarrow> TurnClient \<times> (ForgeError + StunMessage)" where
  "transact net c request =
     transact_attempts net (StunMessage_serialize request) (transaction_id request) 0 MAX_ATTEMPTS c"

text \<open>The \<^verbatim>\<open>Debug\<close> of a message type.\<close>

fun MessageType_debug :: "MessageType \<Rightarrow> string" where
  "MessageType_debug BindingRequest = ''BindingRequest''"
| "MessageType_debug BindingResponse = ''BindingResponse''"
| "MessageType_debug BindingErrorResponse = ''BindingErrorResponse''"
| "MessageType_debug AllocateRequest = ''AllocateRequest''"
| "MessageType_debug AllocateResponse = ''AllocateResponse''"
| "MessageType_debug AllocateErrorResponse = ''AllocateErrorResponse''"
| "MessageType_debug RefreshRequest = ''RefreshRequest''"
| "MessageType_debug RefreshResponse = ''RefreshResponse''"
| "MessageType_debug RefreshErrorResponse = ''RefreshErrorResponse''"
| "MessageType_debug CreatePermissionRequest = ''CreatePermissionRequest''"
| "MessageType_debug CreatePermissionResponse = ''CreatePermissionResponse''"
| "MessageType_debug CreatePermissionErrorResponse = ''CreatePermissionErrorResponse''"
| "MessageType_debug ChannelBindRequest = ''ChannelBindRequest''"
| "MessageType_debug ChannelBindResponse = ''ChannelBindResponse''"
| "MessageType_debug ChannelBindErrorResponse = ''ChannelBindErrorResponse''"
| "MessageType_debug SendIndication = ''SendIndication''"
| "MessageType_debug DataIndication = ''DataIndication''"

text \<open>A message text that quotes UTF-8 octets of a reason keeps them as characters.\<close>

definition quoted :: "bytes \<Rightarrow> string" where
  "quoted bs = map (\<lambda>b. char_of (unat b)) bs"

definition adopt_challenge :: "(bytes \<Rightarrow> bytes) \<Rightarrow> StunMessage \<Rightarrow> TurnClient \<Rightarrow> TurnClient" where
  "adopt_challenge md5 resp c =
     (let c1 = (case get_nonce resp of None \<Rightarrow> c | Some n \<Rightarrow> c\<lparr>tc_nonce := n\<rparr>) in
      case get_realm resp of
        None \<Rightarrow> c1
      | Some r \<Rightarrow>
          if r \<noteq> tc_realm c1
          then c1\<lparr>tc_realm := r, tc_key := long_term_key md5 (tc_username c1) r (tc_password c1)\<rparr>
          else c1)"

definition error_code_or_0 :: "StunMessage \<Rightarrow> u16 \<times> bytes" where
  "error_code_or_0 m = (case get_error_code m of None \<Rightarrow> (0, []) | Some cr \<Rightarrow> cr)"

fun transact_authed_loop ::
    "(bytes \<Rightarrow> bytes) \<Rightarrow> hmac \<Rightarrow> network \<Rightarrow> (nat \<Rightarrow> bytes) \<Rightarrow> MessageType \<Rightarrow> StunAttribute list \<Rightarrow> nat \<Rightarrow> nat
     \<Rightarrow> TurnClient \<Rightarrow> TurnClient \<times> (ForgeError + StunMessage)" where
  "transact_authed_loop md5 mac net rng meth attrs i 0 c =
     (c, Inl (Ice ''TURN stale-nonce retries exhausted''))"
| "transact_authed_loop md5 mac net rng meth attrs i (Suc n) c =
     (case add_auth mac c (fold push_attribute attrs (new_request (rng i) meth)) of
        Inl e \<Rightarrow> (c, Inl e)
      | Inr msg \<Rightarrow>
          (case transact net c msg of
             (c1, Inl e) \<Rightarrow> (c1, Inl e)
           | (c1, Inr resp) \<Rightarrow>
               if MessageType_is_error (message_type resp) then
                 (case error_code_or_0 resp of
                    (code, reason) \<Rightarrow>
                      if code = 438 \<or> code = 401
                      then transact_authed_loop md5 mac net rng meth attrs (Suc i) n (adopt_challenge md5 resp c1)
                      else (c1, Inl (Ice (''TURN '' @ MessageType_debug meth @ '' error: '' @ show_nat (unat code)
                             @ '' '' @ quoted reason))))
               else if verify_message_integrity mac (tc_key c1) resp = Inr True then (c1, Inr resp)
               else (c1, Inl (Ice (''TURN '' @ MessageType_debug meth @ '' response failed MESSAGE-INTEGRITY'')))))"

definition transact_authed ::
    "(bytes \<Rightarrow> bytes) \<Rightarrow> hmac \<Rightarrow> network \<Rightarrow> (nat \<Rightarrow> bytes) \<Rightarrow> TurnClient \<Rightarrow> MessageType \<Rightarrow> StunAttribute list
     \<Rightarrow> TurnClient \<times> (ForgeError + StunMessage)" where
  "transact_authed md5 mac net rng c meth attrs =
     transact_authed_loop md5 mac net rng meth attrs 0 (Suc MAX_STALE_NONCE_RETRIES) c"

subsection \<open>Operations\<close>

text \<open>The client after the socket is bound and the name of the server resolved.\<close>

definition unallocated :: "SocketAddr \<Rightarrow> TurnServer \<Rightarrow> TurnClient" where
  "unallocated server_addr server =
     \<lparr>tc_server = server_addr, tc_username = ts_username server, tc_password = ts_password server,
      tc_realm = [], tc_nonce = [], tc_key = replicate 16 0, tc_relayed_addr = \<lparr>ip = V4 0, port = 0\<rparr>,
      tc_mapped_addr = None, tc_lifetime = 0, tc_channels = [], tc_next_channel = CHANNEL_MIN,
      tc_pending_media = []\<rparr>"

definition allocated :: "TurnClient \<Rightarrow> StunMessage \<Rightarrow> ForgeError + TurnClient" where
  "allocated c success =
     (case get_xor_relayed_address success of
        None \<Rightarrow> Inl (Ice ''Allocate success without XOR-RELAYED-ADDRESS'')
      | Some addr \<Rightarrow>
          Inr (c\<lparr>tc_relayed_addr := addr, tc_mapped_addr := get_xor_mapped_address success,
            tc_lifetime := (case get_lifetime success of None \<Rightarrow> DEFAULT_LIFETIME | Some l \<Rightarrow> l)\<rparr>))"

definition allocate_authed ::
    "(bytes \<Rightarrow> bytes) \<Rightarrow> hmac \<Rightarrow> network \<Rightarrow> (nat \<Rightarrow> bytes) \<Rightarrow> TurnClient \<Rightarrow> StunMessage \<Rightarrow> ForgeError + TurnClient"
where
  "allocate_authed md5 mac net rng c resp =
     (case error_code_or_0 resp of
        (code, reason) \<Rightarrow>
          if code \<noteq> 401
          then Inl (Ice (''TURN Allocate rejected: '' @ show_nat (unat code) @ '' '' @ quoted reason))
          else
            (case (get_realm resp, get_nonce resp) of
               (None, _) \<Rightarrow> Inl (Ice ''401 without REALM'')
             | (Some _, None) \<Rightarrow> Inl (Ice ''401 without NONCE'')
             | (Some r, Some n) \<Rightarrow>
                 let c1 = c\<lparr>tc_realm := r, tc_nonce := n,
                        tc_key := long_term_key md5 (tc_username c) r (tc_password c)\<rparr> in
                 (case transact_authed md5 mac net (\<lambda>i. rng (Suc i)) c1 AllocateRequest
                         [SA_RequestedTransport UDP_TRANSPORT] of
                    (c2, Inl e) \<Rightarrow> Inl e
                  | (c2, Inr success) \<Rightarrow> allocated c2 success)))"

definition allocate ::
    "(bytes \<Rightarrow> bytes) \<Rightarrow> hmac \<Rightarrow> network \<Rightarrow> (nat \<Rightarrow> bytes) \<Rightarrow> SocketAddr \<Rightarrow> TurnServer \<Rightarrow> ForgeError + TurnClient"
where
  "allocate md5 mac net rng server_addr server =
     (let req = add_fingerprint
            (push_attribute (SA_RequestedTransport UDP_TRANSPORT) (new_request (rng 0) AllocateRequest)) in
      case transact net (unallocated server_addr server) req of
        (c, Inl e) \<Rightarrow> Inl e
      | (c, Inr resp) \<Rightarrow>
          if MessageType_is_error (message_type resp) then allocate_authed md5 mac net rng c resp
          else allocated c resp)"

definition create_permission ::
    "(bytes \<Rightarrow> bytes) \<Rightarrow> hmac \<Rightarrow> network \<Rightarrow> (nat \<Rightarrow> bytes) \<Rightarrow> TurnClient \<Rightarrow> SocketAddr
     \<Rightarrow> TurnClient \<times> (ForgeError + unit)" where
  "create_permission md5 mac net rng c peer =
     (case transact_authed md5 mac net rng c CreatePermissionRequest [SA_XorPeerAddress peer] of
        (c1, Inl e) \<Rightarrow> (c1, Inl e)
      | (c1, Inr _) \<Rightarrow> (c1, Inr ()))"

definition bind_channel ::
    "(bytes \<Rightarrow> bytes) \<Rightarrow> hmac \<Rightarrow> network \<Rightarrow> (nat \<Rightarrow> bytes) \<Rightarrow> TurnClient \<Rightarrow> SocketAddr
     \<Rightarrow> TurnClient \<times> (ForgeError + u16)" where
  "bind_channel md5 mac net rng c peer =
     (case (case map_of (tc_channels c) peer of
              Some ch \<Rightarrow> Inr ch
            | None \<Rightarrow>
                if tc_next_channel c > CHANNEL_MAX then Inl (Ice ''TURN channel numbers exhausted'')
                else Inr (tc_next_channel c)) of
        Inl e \<Rightarrow> (c, Inl e)
      | Inr channel \<Rightarrow>
          (case transact_authed md5 mac net rng c ChannelBindRequest
                  [SA_ChannelNumber channel, SA_XorPeerAddress peer] of
             (c1, Inl e) \<Rightarrow> (c1, Inl e)
           | (c1, Inr _) \<Rightarrow>
               (c1\<lparr>tc_channels := hm_insert peer channel (tc_channels c1),
                   tc_next_channel := (if map_of (tc_channels c1) peer = None
                     then tc_next_channel c1 + 1 else tc_next_channel c1)\<rparr>, Inr channel)))"

definition refresh ::
    "(bytes \<Rightarrow> bytes) \<Rightarrow> hmac \<Rightarrow> network \<Rightarrow> (nat \<Rightarrow> bytes) \<Rightarrow> TurnClient \<Rightarrow> u32
     \<Rightarrow> TurnClient \<times> (ForgeError + u32)" where
  "refresh md5 mac net rng c lifetime =
     (case transact_authed md5 mac net rng c RefreshRequest [SA_Lifetime lifetime] of
        (c1, Inl e) \<Rightarrow> (c1, Inl e)
      | (c1, Inr resp) \<Rightarrow>
          let granted = (case get_lifetime resp of None \<Rightarrow> lifetime | Some l \<Rightarrow> l) in
          (c1\<lparr>tc_lifetime := granted\<rparr>, Inr granted))"

definition permission_request :: "hmac \<Rightarrow> bytes \<Rightarrow> TurnClient \<Rightarrow> SocketAddr \<Rightarrow> ForgeError + bytes" where
  "permission_request mac rng c peer =
     (case add_auth mac c (push_attribute (SA_XorPeerAddress peer) (new_request rng CreatePermissionRequest)) of
        Inl e \<Rightarrow> Inl e
      | Inr msg \<Rightarrow> Inr (StunMessage_serialize msg))"

definition refresh_request :: "hmac \<Rightarrow> bytes \<Rightarrow> TurnClient \<Rightarrow> u32 \<Rightarrow> ForgeError + bytes" where
  "refresh_request mac rng c lifetime =
     (case add_auth mac c (push_attribute (SA_Lifetime lifetime) (new_request rng RefreshRequest)) of
        Inl e \<Rightarrow> Inl e
      | Inr msg \<Rightarrow> Inr (StunMessage_serialize msg))"

definition inbound_channel_data :: "TurnClient \<Rightarrow> bytes \<Rightarrow> TurnInbound" where
  "inbound_channel_data c pkt =
     (case decode_channel_data pkt of
        None \<Rightarrow> Ignored
      | Some (channel, data) \<Rightarrow>
          (case peer_for_channel c channel of None \<Rightarrow> Ignored | Some peer \<Rightarrow> Relayed peer data))"

definition inbound_stun :: "(bytes \<Rightarrow> bytes) \<Rightarrow> TurnClient \<Rightarrow> StunMessage \<Rightarrow> TurnClient \<times> TurnInbound" where
  "inbound_stun md5 c msg =
     (if message_type msg = DataIndication then
        (case (get_xor_peer_address msg, get_data msg) of
           (Some peer, Some data) \<Rightarrow> (c, Relayed peer data)
         | _ \<Rightarrow> (c, Ignored))
      else if MessageType_is_error (message_type msg) then
        let code = fst (error_code_or_0 msg) in
        if code = 401 \<or> code = 438 then (adopt_challenge md5 msg c, StaleNonce) else (c, ControlError code)
      else (c, ControlSuccess))"

definition handle_inbound ::
    "(bytes \<Rightarrow> bytes) \<Rightarrow> TurnClient \<Rightarrow> bytes \<Rightarrow> SocketAddr \<Rightarrow> TurnClient \<times> TurnInbound" where
  "handle_inbound md5 c pkt from =
     (if from \<noteq> tc_server c then (c, Ignored)
      else if is_channel_data pkt then (c, inbound_channel_data c pkt)
      else
        (case StunMessage_parse pkt of
           Inl _ \<Rightarrow> (c, Ignored)
         | Inr msg \<Rightarrow> inbound_stun md5 c msg))"

text \<open>The datagram \<^verbatim>\<open>send_to\<close> hands to the socket.\<close>

definition send_to :: "bytes \<Rightarrow> TurnClient \<Rightarrow> SocketAddr \<Rightarrow> bytes \<Rightarrow> bytes" where
  "send_to rng c peer data =
     (case map_of (tc_channels c) peer of
        Some channel \<Rightarrow> encode_channel_data channel data
      | None \<Rightarrow> StunMessage_serialize (push_attribute (SA_Data data)
                  (push_attribute (SA_XorPeerAddress peer) (new_request rng SendIndication))))"

text \<open>
  The loop of \<^verbatim>\<open>recv_from\<close> over the datagrams that arrive, for a buffer of \<open>n\<close> octets; without a result
  it still waits.
\<close>

fun recv_relayed :: "TurnClient \<Rightarrow> nat \<Rightarrow> Arrival list \<Rightarrow> (ForgeError + (bytes \<times> SocketAddr)) option" where
  "recv_relayed c n [] = None"
| "recv_relayed c n (RecvFailed e # as) = Some (Inl (Ice (''TURN recv: '' @ e)))"
| "recv_relayed c n (Datagram d from # as) =
     (if from \<noteq> tc_server c then recv_relayed c n as
      else
        let pkt = take RBUF d in
        if is_channel_data pkt then
          (case decode_channel_data pkt of
             None \<Rightarrow> recv_relayed c n as
           | Some (channel, data) \<Rightarrow>
               (case peer_for_channel c channel of
                  None \<Rightarrow> recv_relayed c n as
                | Some peer \<Rightarrow> Some (Inr (take n data, peer))))
        else
          (case StunMessage_parse pkt of
             Inl _ \<Rightarrow> recv_relayed c n as
           | Inr m \<Rightarrow>
               if message_type m = DataIndication then
                 (case (get_xor_peer_address m, get_data m) of
                    (Some peer, Some data) \<Rightarrow> Some (Inr (take n data, peer))
                  | _ \<Rightarrow> recv_relayed c n as)
               else recv_relayed c n as))"

definition recv_from ::
    "TurnClient \<Rightarrow> nat \<Rightarrow> Arrival list \<Rightarrow> TurnClient \<times> (ForgeError + (bytes \<times> SocketAddr)) option" where
  "recv_from c n as =
     (case tc_pending_media c of
        (peer, data) # rest \<Rightarrow> (c\<lparr>tc_pending_media := rest\<rparr>, Some (Inr (take n data, peer)))
      | [] \<Rightarrow> (c, recv_relayed c n as))"

section \<open>Lemmas\<close>

subsection \<open>Framing\<close>

lemma u8_top_bits: "(b :: u8) AND 0xC0 = push_bit 6 (drop_bit 6 b)"
proof -
  have "(0xC0 :: u8) = NOT (mask 6)"
    by (simp add: mask_eq_exp_minus_1)
  then have "b AND 0xC0 = b AND NOT (mask 6)"
    by simp
  also have "\<dots> = push_bit 6 (drop_bit 6 b)"
    by (rule bit_word_eqI) (auto simp: bit_simps)
  finally show ?thesis .
qed

lemma channel_first_octet:
  assumes "CHANNEL_MIN \<le> ch" "ch \<le> CHANNEL_MAX"
  shows "(ucast (drop_bit 8 ch) :: u8) AND 0xC0 = 0x40"
proof -
  have r: "0x4000 \<le> unat ch" "unat ch \<le> 0x7FFF"
    using assms by (simp_all add: CHANNEL_MIN_def CHANNEL_MAX_def word_le_nat_alt)
  have "unat ch div 256 < 256"
    using r by simp
  then have "unat (ucast (drop_bit 8 ch) :: u8) = unat ch div 256"
    by (simp add: unsigned_ucast_eq take_bit_nat_eq_self_iff drop_bit_eq_div unat_div)
  then have "unat (drop_bit 6 (ucast (drop_bit 8 ch) :: u8)) = unat ch div 256 div 64"
    by (simp add: drop_bit_eq_div unat_div)
  also have "\<dots> = 1"
    using r by simp
  finally have "drop_bit 6 (ucast (drop_bit 8 ch) :: u8) = 1"
    by (metis unat_1 word_unat_eq_iff)
  then show ?thesis
    by (simp add: u8_top_bits)
qed

lemma is_channel_data_encode:
  "CHANNEL_MIN \<le> ch \<Longrightarrow> ch \<le> CHANNEL_MAX \<Longrightarrow> is_channel_data (encode_channel_data ch data)"
  using channel_first_octet by (simp add: is_channel_data_def encode_channel_data_def to_be16_def)

lemma decode_encode_channel_data:
  "length data < 65536 \<Longrightarrow> decode_channel_data (encode_channel_data ch data @ rest) = Some (ch, data)"
  by (simp add: encode_channel_data_def to_be16_def unat_of_nat_u16_less Let_def)

lemma stun_not_channel_data: "\<not> is_channel_data (StunMessage_serialize m)"
  by (cases "message_type m") (simp_all add: is_channel_data_def serialize_wire stun_header_def to_be16_def)

subsection \<open>Channels\<close>

definition channels_ok :: "TurnClient \<Rightarrow> bool" where
  "channels_ok c \<longleftrightarrow> distinct (map fst (tc_channels c)) \<and> distinct (map snd (tc_channels c)) \<and>
     list_all (\<lambda>(peer, ch). CHANNEL_MIN \<le> ch \<and> unat ch < unat (tc_next_channel c)) (tc_channels c) \<and>
     CHANNEL_MIN \<le> tc_next_channel c \<and> unat (tc_next_channel c) \<le> 0x8000"

lemma find_map_pair:
  assumes "distinct (map snd xs)"
  shows "find_map (\<lambda>(peer, ch). if ch = channel then Some peer else None) xs = Some p \<longleftrightarrow> (p, channel) \<in> set xs"
  using assms
proof (induction xs)
  case (Cons x xs)
  then show ?case
    by (cases x) (auto simp: image_iff)
qed simp

lemma peer_for_channel_iff:
  "channels_ok c \<Longrightarrow> peer_for_channel c ch = Some p \<longleftrightarrow> (p, ch) \<in> set (tc_channels c)"
  by (simp add: peer_for_channel_def channels_ok_def find_map_pair)

text \<open>What a transaction may change: the challenge and the media that wait.\<close>

definition same_allocation :: "TurnClient \<Rightarrow> TurnClient \<Rightarrow> bool" where
  "same_allocation c c' \<longleftrightarrow>
     tc_channels c' = tc_channels c \<and> tc_next_channel c' = tc_next_channel c \<and> tc_server c' = tc_server c \<and>
     tc_username c' = tc_username c \<and> tc_password c' = tc_password c \<and> tc_lifetime c' = tc_lifetime c \<and>
     tc_relayed_addr c' = tc_relayed_addr c \<and> tc_mapped_addr c' = tc_mapped_addr c \<and>
     (\<exists>ms. tc_pending_media c' = tc_pending_media c @ ms)"

lemma same_allocation_refl [simp]: "same_allocation c c"
  by (simp add: same_allocation_def)

lemma same_allocation_trans: "same_allocation a b \<Longrightarrow> same_allocation b c \<Longrightarrow> same_allocation a c"
  by (auto simp: same_allocation_def)

lemma same_allocation_fields:
  assumes "same_allocation c c'"
  shows "tc_channels c' = tc_channels c" "tc_next_channel c' = tc_next_channel c" "tc_server c' = tc_server c"
    "tc_username c' = tc_username c" "tc_password c' = tc_password c" "tc_lifetime c' = tc_lifetime c"
    "tc_relayed_addr c' = tc_relayed_addr c" "tc_mapped_addr c' = tc_mapped_addr c"
  using assms by (auto simp: same_allocation_def)

lemma channels_ok_same: "same_allocation c c' \<Longrightarrow> channels_ok c' = channels_ok c"
  by (simp add: channels_ok_def same_allocation_fields)

lemma adopt_challenge_same [simp]: "same_allocation c (adopt_challenge md5 m c)"
  by (simp add: same_allocation_def adopt_challenge_def Let_def split: option.split)

subsection \<open>Waiting for a response\<close>

text \<open>
  The relayed data an arrival carries, as \<^verbatim>\<open>handle_inbound\<close> classifies it, and whether an arrival ends the
  wait for the response to a transaction.
\<close>

definition media :: "TurnClient \<Rightarrow> Arrival \<Rightarrow> (SocketAddr \<times> bytes) list" where
  "media c a =
     (case a of
        Datagram d src \<Rightarrow>
          (case snd (handle_inbound id c (take RBUF d) src) of Relayed peer x \<Rightarrow> [(peer, x)] | _ \<Rightarrow> [])
      | RecvFailed _ \<Rightarrow> [])"

definition add_media :: "(SocketAddr \<times> bytes) list \<Rightarrow> TurnClient \<Rightarrow> TurnClient" where
  "add_media ms c = c\<lparr>tc_pending_media := tc_pending_media c @ ms\<rparr>"

definition ends :: "TurnClient \<Rightarrow> bytes \<Rightarrow> Arrival \<Rightarrow> bool" where
  "ends c txid a =
     (case a of
        RecvFailed _ \<Rightarrow> True
      | Datagram d src \<Rightarrow> src = tc_server c \<and> \<not> is_channel_data (take RBUF d) \<and>
          (case StunMessage_parse (take RBUF d) of Inr m \<Rightarrow> transaction_id m = txid | Inl _ \<Rightarrow> False))"

definition outcome :: "Arrival \<Rightarrow> ForgeError + StunMessage" where
  "outcome a =
     (case a of
        RecvFailed e \<Rightarrow> Inl (Ice (''TURN recv: '' @ e))
      | Datagram d src \<Rightarrow> StunMessage_parse (take RBUF d))"

lemma add_media_simps [simp]:
  "add_media [] c = c" "add_media ms (add_media ms' c) = add_media (ms' @ ms) c"
  "media (add_media ms c) = media c" "ends (add_media ms c) = ends c" "tc_server (add_media ms c) = tc_server c"
  "tc_pending_media (add_media ms c) = tc_pending_media c @ ms"
  by (auto simp: add_media_def fun_eq_iff media_def handle_inbound_def inbound_channel_data_def peer_for_channel_def
      inbound_stun_def ends_def Let_def adopt_challenge_def split: Arrival.split sum.split option.split)

lemma same_allocation_add_media [simp]: "same_allocation c (add_media ms c)"
  by (simp add: same_allocation_def add_media_def)

lemma stash_media:
  "is_channel_data (take RBUF d) \<Longrightarrow> stash_channel_data (take RBUF d) c = add_media (media c (Datagram d (tc_server c))) c"
  by (auto simp: stash_channel_data_def media_def handle_inbound_def inbound_channel_data_def stash_def
      split: option.split) (simp_all add: add_media_def)

lemma indication_media:
  "\<not> is_channel_data (take RBUF d) \<Longrightarrow> StunMessage_parse (take RBUF d) = Inr m \<Longrightarrow>
   message_type m = DataIndication \<Longrightarrow> stash_indication m c = add_media (media c (Datagram d (tc_server c))) c"
  by (auto simp: stash_indication_def media_def handle_inbound_def inbound_stun_def stash_def
      split: option.split) (simp_all add: add_media_def)

lemma no_media:
  assumes "src = tc_server c \<Longrightarrow> \<not> is_channel_data (take RBUF d)"
    and "src = tc_server c \<Longrightarrow>
      (case StunMessage_parse (take RBUF d) of Inr m \<Rightarrow> message_type m \<noteq> DataIndication | Inl _ \<Rightarrow> True)"
  shows "media c (Datagram d src) = []"
  using assms
  by (cases "StunMessage_parse (take RBUF d)")
    (auto simp: media_def handle_inbound_def inbound_stun_def Let_def)

lemma await_step:
  "await_response c txid (a # as) =
     (if ends c txid a then (c, Some (outcome a)) else await_response (add_media (media c a) c) txid as)"
proof (cases a)
  case (Datagram d src)
  show ?thesis
  proof (cases "src = tc_server c \<and> is_channel_data (take RBUF d)")
    case True
    then show ?thesis
      by (simp add: Datagram ends_def stash_media Let_def)
  next
    case no_channel: False
    show ?thesis
    proof (cases "StunMessage_parse (take RBUF d)")
      case (Inl e)
      then show ?thesis
        using no_channel no_media [of src c d] by (simp add: Datagram ends_def Let_def)
    next
      case (Inr m)
      then show ?thesis
        using no_channel no_media [of src c d] indication_media [of d m c]
        by (cases "src = tc_server c"; cases "message_type m = DataIndication")
          (simp_all add: Datagram ends_def outcome_def Let_def)
    qed
  qed
qed (simp add: ends_def outcome_def)

text \<open>The wait ends at the first arrival that ends it, and keeps the media that came before.\<close>

lemma await_response_spec:
  "await_response c txid as =
     (let before = takeWhile (\<lambda>a. \<not> ends c txid a) as in
      (add_media (concat (map (media c) before)) c,
       if length before < length as then Some (outcome (as ! length before)) else None))"
proof (induction as arbitrary: c)
  case (Cons a as)
  then show ?case
    by (simp add: await_step Let_def del: await_response.simps)
qed simp

lemma await_response_same: "await_response c txid as = (c', r) \<Longrightarrow> same_allocation c c'"
  by (auto simp: await_response_spec Let_def)

lemma transact_attempts_same:
  "transact_attempts net req txid i n c = (c', r) \<Longrightarrow> same_allocation c c'"
proof (induction n arbitrary: i c)
  case (Suc n)
  show ?case
  proof (cases "await_response c txid (arrivals (net req i))")
    case (Pair c1 r1)
    then show ?thesis
      using Suc.prems Suc.IH [of "Suc i" c1] await_response_same [OF Pair]
      by (auto split: option.splits intro: same_allocation_trans)
  qed
qed simp

lemma transact_same: "transact net c m = (c', r) \<Longrightarrow> same_allocation c c'"
  unfolding transact_def by (rule transact_attempts_same)

text \<open>
  Without send errors a transaction is one wait over all that arrives during its attempts; the error
  when nothing ends it is the time-out.
\<close>

definition all_arrivals :: "network \<Rightarrow> bytes \<Rightarrow> nat \<Rightarrow> nat \<Rightarrow> Arrival list" where
  "all_arrivals net req i n = concat (map (\<lambda>j. arrivals (net req j)) [i..<i + n])"

lemma all_arrivals_simps [simp]:
  "all_arrivals net req i 0 = []"
  "all_arrivals net req i (Suc n) = arrivals (net req i) @ all_arrivals net req (Suc i) n"
  by (simp_all add: all_arrivals_def upt_conv_Cons del: upt_Suc)

lemma await_append:
  "await_response c txid (as @ bs) =
     (case await_response c txid as of (c', None) \<Rightarrow> await_response c' txid bs | (c', Some r) \<Rightarrow> (c', Some r))"
  by (induction as arbitrary: c) (auto simp: await_step simp del: await_response.simps(2,3) split: option.split prod.split)

lemma transact_attempts_spec:
  assumes "\<And>j. send_error (net req j) = None"
  shows "transact_attempts net req txid i n c =
    (case await_response c txid (all_arrivals net req i n) of
       (c', None) \<Rightarrow> (c', Inl (Ice ''TURN transaction timed out''))
     | (c', Some r) \<Rightarrow> (c', r))"
proof (induction n arbitrary: i c)
  case (Suc n)
  show ?case
    by (simp add: assms await_append Suc split: option.split prod.split)
qed simp

lemma transact_spec:
  assumes "\<And>j. send_error (net (StunMessage_serialize m) j) = None"
  shows "transact net c m =
    (let as = all_arrivals net (StunMessage_serialize m) 0 MAX_ATTEMPTS;
         before = takeWhile (\<lambda>a. \<not> ends c (transaction_id m) a) as in
     (add_media (concat (map (media c) before)) c,
      if length before < length as then outcome (as ! length before)
      else Inl (Ice ''TURN transaction timed out'')))"
  unfolding transact_def transact_attempts_spec [where net = net and req = "StunMessage_serialize m", OF assms]
  by (simp add: await_response_spec Let_def)

text \<open>With or without send errors, a response comes from the server and answers the request.\<close>

lemma await_response_answer:
  assumes "await_response c txid as = (c', Some (Inr m))"
  shows "transaction_id m = txid \<and> (\<exists>d. Datagram d (tc_server c) \<in> set as \<and> StunMessage_parse (take RBUF d) = Inr m)"
  using assms
proof (induction as arbitrary: c)
  case (Cons a as)
  show ?case
  proof (cases "ends c txid a")
    case True
    then show ?thesis
      using Cons.prems by (cases a) (auto simp: await_step ends_def outcome_def simp del: await_response.simps)
  next
    case False
    then show ?thesis
      using Cons.prems Cons.IH [of "add_media (media c a) c"]
      by (auto simp: await_step simp del: await_response.simps)
  qed
qed simp

lemma transact_attempts_answer:
  assumes "transact_attempts net req txid i n c = (c', Inr m)"
  shows "transaction_id m = txid \<and>
    (\<exists>j d. Datagram d (tc_server c) \<in> set (arrivals (net req j)) \<and> StunMessage_parse (take RBUF d) = Inr m)"
  using assms
proof (induction n arbitrary: i c)
  case (Suc n)
  show ?case
  proof (cases "await_response c txid (arrivals (net req i))")
    case (Pair c1 r1)
    have "tc_server c1 = tc_server c"
      using await_response_same [OF Pair] by (rule same_allocation_fields)
    show ?thesis
    proof (cases r1)
      case None
      then show ?thesis
        using Suc.prems Suc.IH [of "Suc i" c1] Pair \<open>tc_server c1 = tc_server c\<close> by (auto split: option.splits)
    next
      case (Some r)
      then have "await_response c txid (arrivals (net req i)) = (c1, Some (Inr m))"
        using Suc.prems Pair by (auto split: option.splits)
      then show ?thesis
        by (blast dest: await_response_answer)
    qed
  qed
qed simp

subsection \<open>Authenticated transactions\<close>

lemma transaction_id_push [simp]: "transaction_id (push_attribute a m) = transaction_id m"
  by (simp add: push_attribute_def)

lemma transaction_id_fold_push [simp]: "transaction_id (fold push_attribute as m) = transaction_id m"
  by (induction as arbitrary: m) simp_all

lemma message_type_fold_push [simp]: "message_type (fold push_attribute as m) = message_type m"
  by (induction as arbitrary: m) (simp_all add: push_attribute_def)

lemma add_auth_transaction_id:
  "add_auth mac c m = Inr m' \<Longrightarrow> transaction_id m' = transaction_id m \<and> message_type m' = message_type m"
  by (auto simp: add_auth_def add_message_integrity_def add_fingerprint_def Let_def push_attribute_def
      split: sum.splits)

lemma transact_authed_same:
  "transact_authed_loop md5 mac net rng meth attrs i n c = (c', r) \<Longrightarrow> same_allocation c c'"
proof (induction n arbitrary: i c)
  case (Suc n)
  show ?case
  proof (cases "add_auth mac c (fold push_attribute attrs (new_request (rng i) meth))")
    case (Inr msg)
    obtain c1 r1 where t: "transact net c msg = (c1, r1)"
      by fastforce
    then have c1: "same_allocation c c1"
      by (rule transact_same)
    have "same_allocation c c'" if "same_allocation (adopt_challenge md5 resp c1) c'" for resp
      using that c1 adopt_challenge_same same_allocation_trans by blast
    then show ?thesis
      using Suc.prems Inr t c1 Suc.IH by (auto split: sum.splits if_splits prod.splits)
  qed (use Suc.prems in auto)
qed auto

definition keyed :: "(bytes \<Rightarrow> bytes) \<Rightarrow> TurnClient \<Rightarrow> bool" where
  "keyed md5 c \<longleftrightarrow> tc_key c = long_term_key md5 (tc_username c) (tc_realm c) (tc_password c)"

lemma keyed_add_media [simp]: "keyed md5 (add_media ms c) = keyed md5 c"
  by (simp add: keyed_def add_media_def)

lemma keyed_adopt: "keyed md5 c \<Longrightarrow> keyed md5 (adopt_challenge md5 m c)"
  by (simp add: keyed_def adopt_challenge_def Let_def split: option.split)

lemma transact_attempts_keyed: "transact_attempts net req txid i n c = (c', r) \<Longrightarrow> keyed md5 c' = keyed md5 c"
proof (induction n arbitrary: i c)
  case (Suc n)
  then show ?case
    by (auto simp: await_response_spec Let_def split: option.splits if_splits)
qed simp

lemma transact_authed_answer:
  assumes "transact_authed_loop md5 mac net rng meth attrs i n c = (c', Inr resp)" "keyed md5 c"
  shows "keyed md5 c' \<and> \<not> MessageType_is_error (message_type resp) \<and>
    verify_message_integrity mac (tc_key c') resp = Inr True \<and>
    (\<exists>j msg k d. i \<le> j \<and> j < i + n \<and> transaction_id resp = rng j \<and>
       transaction_id msg = rng j \<and> message_type msg = meth \<and>
       Datagram d (tc_server c) \<in> set (arrivals (net (StunMessage_serialize msg) k)) \<and> StunMessage_parse (take RBUF d) = Inr resp)"
  using assms
proof (induction n arbitrary: i c)
  case (Suc n)
  then obtain msg where msg: "add_auth mac c (fold push_attribute attrs (new_request (rng i) meth)) = Inr msg"
    by (auto split: sum.splits)
  then have tid: "transaction_id msg = rng i \<and> message_type msg = meth"
    by (auto dest!: add_auth_transaction_id simp: new_request_def)
  obtain c1 r1 where t: "transact net c msg = (c1, r1)"
    by fastforce
  obtain m where m: "r1 = Inr m"
    using Suc.prems(1) msg t by (auto split: sum.splits)
  have answer: "transaction_id m = rng i \<and> (\<exists>k d. Datagram d (tc_server c)
      \<in> set (arrivals (net (StunMessage_serialize msg) k)) \<and> StunMessage_parse (take RBUF d) = Inr m)"
    using transact_attempts_answer [of net "StunMessage_serialize msg" "transaction_id msg" 0 MAX_ATTEMPTS c c1 m] t tid
    by (simp add: transact_def m)
  have c1: "keyed md5 c1" "tc_server (adopt_challenge md5 m c1) = tc_server c"
    using Suc.prems(2) t transact_attempts_keyed same_allocation_fields(3) [OF transact_same [OF t]]
      same_allocation_fields(3) [OF adopt_challenge_same]
    by (auto simp: transact_def)
  show ?case
  proof (cases "MessageType_is_error (message_type m)")
    case True
    then have "transact_authed_loop md5 mac net rng meth attrs (Suc i) n (adopt_challenge md5 m c1) = (c', Inr resp)"
      using Suc.prems(1) msg t m by (auto split: prod.splits if_splits)
    from Suc.IH [OF this keyed_adopt [OF c1(1)]] show ?thesis
      unfolding c1(2) by (metis Suc_leD add_Suc_right add_Suc)
  next
    case False
    then have "c' = c1" "resp = m" "verify_message_integrity mac (tc_key c1) m = Inr True"
      using Suc.prems(1) msg t m by (auto split: if_splits)
    then show ?thesis
      using answer False c1(1) tid by (metis le_refl less_add_Suc1 add_Suc_right)
  qed
qed simp

subsection \<open>Operations and the channels\<close>

lemma transact_authed_keeps: "transact_authed md5 mac net rng c meth attrs = (c', r) \<Longrightarrow> same_allocation c c'"
  unfolding transact_authed_def by (rule transact_authed_same)

lemma channels_ok_bind:
  assumes "channels_ok c"
  shows "channels_ok (fst (bind_channel md5 mac net rng c peer))"
proof -
  obtain ch r c1 where t: "transact_authed md5 mac net rng c ChannelBindRequest
      [SA_ChannelNumber ch, SA_XorPeerAddress peer] = (c1, r)"
    and ch: "ch = (case map_of (tc_channels c) peer of Some ch \<Rightarrow> ch | None \<Rightarrow> tc_next_channel c)"
    by fastforce
  have same: "same_allocation c c1"
    using t by (rule transact_authed_keeps)
  note f = same_allocation_fields(1,2) [OF same]
  have ok1: "channels_ok c1"
    using assms channels_ok_same [OF same] by simp
  show ?thesis
  proof (cases "map_of (tc_channels c) peer")
    case (Some k)
    then show ?thesis
      using t ch assms ok1
      by (auto simp: bind_channel_def f hm_insert_same channels_ok_def split: sum.split)
  next
    case None
    then have new: "peer \<notin> fst ` set (tc_channels c)"
      by (simp add: map_of_eq_None_iff)
    have less: "unat (tc_next_channel c + 1) = Suc (unat (tc_next_channel c))" if "tc_next_channel c \<le> CHANNEL_MAX"
      using that by (simp add: CHANNEL_MAX_def word_le_nat_alt unat_word_ariths)
    have "tc_next_channel c \<notin> snd ` set (tc_channels c)"
      using assms by (auto simp: channels_ok_def list_all_iff)
    then show ?thesis
      using t ch assms ok1 None new less
      by (auto simp: bind_channel_def f hm_insert_new channels_ok_def list_all_iff CHANNEL_MAX_def CHANNEL_MIN_def
          word_le_nat_alt not_less split: sum.split)
  qed
qed

text \<open>The operations a caller runs on an allocation, as steps.\<close>

datatype turn_op =
    CreatePermission network "nat \<Rightarrow> bytes" SocketAddr
  | BindChannel network "nat \<Rightarrow> bytes" SocketAddr
  | Refresh network "nat \<Rightarrow> bytes" u32
  | Inbound bytes SocketAddr
  | Receive nat "Arrival list"

fun turn_step :: "(bytes \<Rightarrow> bytes) \<Rightarrow> hmac \<Rightarrow> turn_op \<Rightarrow> TurnClient \<Rightarrow> TurnClient" where
  "turn_step md5 mac (CreatePermission net rng peer) c = fst (create_permission md5 mac net rng c peer)"
| "turn_step md5 mac (BindChannel net rng peer) c = fst (bind_channel md5 mac net rng c peer)"
| "turn_step md5 mac (Refresh net rng lifetime) c = fst (refresh md5 mac net rng c lifetime)"
| "turn_step md5 mac (Inbound pkt src) c = fst (handle_inbound md5 c pkt src)"
| "turn_step md5 mac (Receive n as) c = fst (recv_from c n as)"

lemma channels_ok_update [simp]:
  "channels_ok (c\<lparr>tc_lifetime := l\<rparr>) = channels_ok c" "channels_ok (c\<lparr>tc_pending_media := p\<rparr>) = channels_ok c"
  "channels_ok (c\<lparr>tc_relayed_addr := a\<rparr>) = channels_ok c" "channels_ok (c\<lparr>tc_mapped_addr := b\<rparr>) = channels_ok c"
  "channels_ok (c\<lparr>tc_realm := r\<rparr>) = channels_ok c" "channels_ok (c\<lparr>tc_nonce := n\<rparr>) = channels_ok c"
  "channels_ok (c\<lparr>tc_key := k\<rparr>) = channels_ok c"
  by (simp_all add: channels_ok_def)

lemma turn_step_channels: "channels_ok c \<Longrightarrow> channels_ok (turn_step md5 mac opn c)"
proof (cases opn)
  case (CreatePermission net rng peer)
  assume "channels_ok c"
  moreover obtain c1 r where "transact_authed md5 mac net rng c CreatePermissionRequest [SA_XorPeerAddress peer] = (c1, r)"
    by fastforce
  ultimately show ?thesis
    using transact_authed_keeps channels_ok_same
    by (simp add: CreatePermission create_permission_def split: sum.split) blast
next
  case (Refresh net rng lifetime)
  assume "channels_ok c"
  moreover obtain c1 r where "transact_authed md5 mac net rng c RefreshRequest [SA_Lifetime lifetime] = (c1, r)"
    by fastforce
  ultimately show ?thesis
    using transact_authed_keeps channels_ok_same
    by (simp add: Refresh refresh_def Let_def split: sum.split) blast
next
  case (Inbound pkt src)
  assume "channels_ok c"
  then show ?thesis
    using channels_ok_same [OF adopt_challenge_same]
    by (simp add: Inbound handle_inbound_def inbound_stun_def Let_def split: sum.split option.split)
next
  case (Receive n as)
  assume "channels_ok c"
  then show ?thesis
    by (simp add: Receive recv_from_def split: list.split)
qed (simp add: channels_ok_bind)

interpretation turn_ops: stepped_system channels_ok "turn_step md5 mac"
  by unfold_locales (rule turn_step_channels)

lemma channels_ok_unallocated: "channels_ok (unallocated addr server)"
  by (simp add: channels_ok_def unallocated_def CHANNEL_MIN_def)

lemma allocated_channels: "allocated c m = Inr c' \<Longrightarrow> channels_ok c \<Longrightarrow> channels_ok c'"
  by (auto simp: allocated_def split: option.splits)

lemma allocate_channels:
  assumes "allocate md5 mac net rng addr server = Inr c"
  shows "channels_ok c"
proof -
  obtain c1 r where t: "transact net (unallocated addr server) (add_fingerprint (push_attribute
      (SA_RequestedTransport UDP_TRANSPORT) (new_request (rng 0) AllocateRequest))) = (c1, r)"
    by fastforce
  have ok: "channels_ok c1"
    using channels_ok_same [OF transact_same [OF t]] channels_ok_unallocated by simp
  obtain m where m: "r = Inr m"
    using assms t by (cases r) (auto simp: allocate_def)
  show ?thesis
  proof (cases "MessageType_is_error (message_type m)")
    case False
    then show ?thesis
      using assms t m ok allocated_channels by (simp add: allocate_def)
  next
    case True
    then have "allocate_authed md5 mac net rng c1 m = Inr c"
      using assms t m by (simp add: allocate_def)
    then obtain rl n c2 r2 where "transact_authed md5 mac net (\<lambda>i. rng (Suc i)) (c1\<lparr>tc_realm := rl, tc_nonce := n,
        tc_key := long_term_key md5 (tc_username c1) rl (tc_password c1)\<rparr>) AllocateRequest
        [SA_RequestedTransport UDP_TRANSPORT] = (c2, Inr r2)" "allocated c2 r2 = Inr c"
      by (auto simp: allocate_authed_def Let_def split: prod.splits if_splits option.splits sum.splits)
    then show ?thesis
      using allocated_channels channels_ok_same [OF transact_authed_keeps] ok by fastforce
  qed
qed

section \<open>Properties\<close>

text \<open>
  An open server that answers the request with the first transaction id, for the witnesses: a success
  without credentials after a datagram of relayed data and one from elsewhere.
\<close>

definition sample_relay :: SocketAddr where
  "sample_relay = \<lparr>ip = V4 0xCB007132, port = 60000\<rparr>"

definition sample_rng :: "nat \<Rightarrow> bytes" where
  "sample_rng i = replicate 12 (of_nat i)"

definition sample_answer :: "MessageType \<Rightarrow> StunMessage" where
  "sample_answer t = push_attribute (SA_XorRelayedAddress sample_relay) (new_with_transaction t (sample_rng 0))"

definition sample_net :: network where
  "sample_net req i = \<lparr>send_error = None,
     arrivals = [Datagram [1, 2] sample_addr, Datagram (StunMessage_serialize (sample_answer AllocateResponse)) sample_relay]\<rparr>"

lemma sample_answer_ok: "stun_ok (sample_answer t)"
  by (simp add: stun_ok_def sample_answer_def push_attribute_def new_with_transaction_def sample_rng_def
      sample_relay_def pad_len_def)

lemma short_wire: "stun_ok m \<Longrightarrow> attrs_length (attributes m) \<le> 2000 \<Longrightarrow> take RBUF (StunMessage_serialize m) = StunMessage_serialize m"
  by (simp add: RBUF_def serialize_wire stun_ok_def length_attrs_wire)

lemma sample_answer_short:
  "take RBUF (StunMessage_serialize (sample_answer t)) = StunMessage_serialize (sample_answer t)"
  by (rule short_wire [OF sample_answer_ok])
    (simp add: sample_answer_def push_attribute_def new_with_transaction_def sample_relay_def pad_len_def)

lemma sample_answer_parse:
  "StunMessage_parse (StunMessage_serialize (sample_answer t))
     = Inr (sample_answer t\<lparr>raw := StunMessage_serialize (sample_answer t)\<rparr>)"
  using parse_serialize [OF sample_answer_ok, of t "[]"] by simp

lemma sample_await:
  assumes "tc_server c = sample_relay"
  shows "await_response c (sample_rng 0) (arrivals (sample_net req i))
       = (c, Some (Inr (sample_answer AllocateResponse\<lparr>raw := StunMessage_serialize (sample_answer AllocateResponse)\<rparr>)))"
proof -
  have "sample_addr \<noteq> sample_relay" "transaction_id (sample_answer AllocateResponse) = sample_rng 0"
    by (simp_all add: sample_addr_def sample_relay_def sample_answer_def push_attribute_def new_with_transaction_def)
  then show ?thesis
    using assms
    by (simp add: sample_net_def sample_answer_short sample_answer_parse stun_not_channel_data Let_def)
qed

text \<open>
  C31. Channel numbers: after an allocation and any sequence of permissions, bindings, refreshes and
  received datagrams, every bound channel lies between 0x4000 and 0x7FFF, no two peers share one and no
  peer has two, so a channel number read from the wire names the peer it was bound to, whatever the
  order of the hash map, and the next number cannot overflow.
\<close>

theorem turn_channels_invariant:
  assumes "allocate md5 mac net rng addr server = Inr c0"
  shows "let c = fold (turn_step md5 mac) ops c0 in
    distinct (map fst (tc_channels c)) \<and>
    list_all (\<lambda>(peer, ch). CHANNEL_MIN \<le> ch \<and> ch \<le> CHANNEL_MAX) (tc_channels c) \<and>
    unat (tc_next_channel c) \<le> 0x8000 \<and>
    (\<forall>ch peer. peer_for_channel c ch = Some peer \<longleftrightarrow> map_of (tc_channels c) peer = Some ch)"
proof -
  define c where "c = fold (turn_step md5 mac) ops c0"
  have ok: "channels_ok c"
    unfolding c_def by (rule turn_ops.run_inv [OF allocate_channels [OF assms]])
  then have "list_all (\<lambda>(peer, ch). CHANNEL_MIN \<le> ch \<and> ch \<le> CHANNEL_MAX) (tc_channels c)"
    by (fastforce simp: channels_ok_def list_all_iff CHANNEL_MAX_def word_le_nat_alt)
  moreover have "distinct (map fst (tc_channels c))" "unat (tc_next_channel c) \<le> 0x8000"
    using ok by (simp_all add: channels_ok_def)
  ultimately show ?thesis
    using peer_for_channel_iff [OF ok] by (simp add: c_def [symmetric] Let_def)
qed

theorem turn_channels_invariant_witness:
  "\<exists>c0. allocate id sample_hmac sample_net sample_rng sample_relay \<lparr>ts_uri = [], ts_username = [], ts_password = []\<rparr>
     = Inr c0 \<and>
   unat (tc_next_channel (turn_step id sample_hmac (BindChannel sample_net sample_rng sample_addr) c0)) \<le> 0x8000"
proof -
  have "await_response (unallocated sample_relay s) (sample_rng 0) (arrivals (sample_net req i))
       = (unallocated sample_relay s, Some (Inr (sample_answer AllocateResponse
           \<lparr>raw := StunMessage_serialize (sample_answer AllocateResponse)\<rparr>)))" for s req i
    by (rule sample_await) (simp add: unallocated_def)
  moreover have "send_error (sample_net req i) = None" for req i
    by (simp add: sample_net_def)
  moreover have "transaction_id (add_fingerprint (push_attribute a (new_request (sample_rng 0) t))) = sample_rng 0" for a t
    by (simp add: add_fingerprint_def push_attribute_def new_request_def Let_def)
  ultimately have "\<exists>c0. allocate id sample_hmac sample_net sample_rng sample_relay
      \<lparr>ts_uri = [], ts_username = [], ts_password = []\<rparr> = Inr c0"
    by (simp add: allocate_def transact_def MAX_ATTEMPTS_def numeral_eq_Suc Let_def)
      (simp add: sample_answer_def push_attribute_def new_with_transaction_def MessageType_is_error_def allocated_def
        get_xor_relayed_address_def)
  then obtain c0 where "allocate id sample_hmac sample_net sample_rng sample_relay
      \<lparr>ts_uri = [], ts_username = [], ts_password = []\<rparr> = Inr c0"
    by blast
  with turn_channels_invariant [OF this, of "[BindChannel sample_net sample_rng sample_addr]"] show ?thesis
    by (auto simp: Let_def simp del: turn_step.simps)
qed

text \<open>
  C25. A response that an authenticated transaction returns came from the server, answers one of the
  requests of this transaction, is no error, and carries a valid MESSAGE-INTEGRITY under the client's
  key, which is the long-term key of its realm even when the server has changed realm or nonce on the way.
\<close>

theorem turn_response_authentic:
  assumes "transact_authed md5 mac net rng c meth attrs = (c', Inr resp)" "keyed md5 c"
  shows "keyed md5 c' \<and> \<not> MessageType_is_error (message_type resp) \<and>
    verify_message_integrity mac (tc_key c') resp = Inr True \<and>
    (\<exists>j msg k d. j < 4 \<and> transaction_id resp = rng j \<and> transaction_id msg = rng j \<and> message_type msg = meth \<and>
       Datagram d (tc_server c) \<in> set (arrivals (net (StunMessage_serialize msg) k)) \<and> StunMessage_parse (take RBUF d) = Inr resp)"
proof -
  have *: "Suc MAX_STALE_NONCE_RETRIES = 4"
    by (simp add: MAX_STALE_NONCE_RETRIES_def)
  show ?thesis
    using transact_authed_answer [OF assms(1) [unfolded transact_authed_def *] assms(2)] by simp
qed

definition sample_client :: TurnClient where
  "sample_client = (unallocated sample_relay \<lparr>ts_uri = [], ts_username = str ''u'', ts_password = str ''p''\<rparr>)
     \<lparr>tc_key := long_term_key id (str ''u'') [] (str ''p'')\<rparr>"

definition sample_signed :: StunMessage where
  "sample_signed = sealed sample_hmac (tc_key sample_client) (sample_answer RefreshResponse)"

definition signed_net :: network where
  "signed_net req i = \<lparr>send_error = None, arrivals = [Datagram (StunMessage_serialize sample_signed) sample_relay]\<rparr>"

theorem turn_response_authentic_witness:
  "\<exists>c' resp. transact_authed id sample_hmac signed_net sample_rng sample_client RefreshRequest [SA_Lifetime 600]
     = (c', Inr resp) \<and> verify_message_integrity sample_hmac (tc_key c') resp = Inr True"
proof -
  let ?r = "sample_signed\<lparr>raw := StunMessage_serialize sample_signed\<rparr>"
  have can: "signable (sample_answer RefreshResponse)"
    using sample_answer_ok [of RefreshResponse]
    by (simp add: stun_ok_def signable_def sample_answer_def push_attribute_def new_with_transaction_def
        sample_relay_def pad_len_def)
  obtain f where as: "attributes sample_signed = unsigned_attrs (sample_answer RefreshResponse)
      @ [SA_MessageIntegrity (integrity_tag sample_hmac (tc_key sample_client) (sample_answer RefreshResponse)),
         SA_Fingerprint f]"
    unfolding sample_signed_def by (rule sealed_attributes)
  have ok: "stun_ok sample_signed"
    unfolding sample_signed_def by (rule sealed_ok [OF sample_hmac_ok can])
  have "attrs_length (attributes sample_signed) \<le> 2000"
    by (simp add: as unsigned_attrs_def sample_answer_def push_attribute_def new_with_transaction_def
        is_message_integrity_def is_fingerprint_def sample_relay_def pad_len_def)
  then have short: "take RBUF (StunMessage_serialize sample_signed) = StunMessage_serialize sample_signed"
    by (rule short_wire [OF ok])
  have parse: "StunMessage_parse (StunMessage_serialize sample_signed) = Inr ?r"
    using parse_serialize [OF ok, of "[]"] by simp
  have head: "transaction_id sample_signed = sample_rng 0" "message_type sample_signed = RefreshResponse"
    by (simp_all add: sample_signed_def sample_answer_def push_attribute_def new_with_transaction_def)
  have verified: "verify_message_integrity sample_hmac (tc_key sample_client) ?r = Inr True"
    using sealed_integrity [OF sample_hmac_ok can] by (simp add: sample_signed_def)
  obtain msg where msg: "add_auth sample_hmac sample_client
      (push_attribute (SA_Lifetime 600) (new_request (sample_rng 0) RefreshRequest)) = Inr msg"
    by (simp add: add_auth_def add_message_integrity_result(1) [OF sample_hmac_ok] Let_def)
  have "transaction_id msg = sample_rng 0"
    using add_auth_transaction_id [OF msg] by (simp add: new_request_def)
  then have "transact signed_net sample_client msg = (sample_client, Inr ?r)"
    using head by (simp add: transact_def MAX_ATTEMPTS_def numeral_eq_Suc signed_net_def short parse
        stun_not_channel_data sample_client_def unallocated_def Let_def)
  then have run: "transact_authed id sample_hmac signed_net sample_rng sample_client RefreshRequest [SA_Lifetime 600]
      = (sample_client, Inr ?r)"
    using msg verified head by (simp add: transact_authed_def MessageType_is_error_def)
  have "keyed id sample_client"
    by (simp add: keyed_def sample_client_def unallocated_def)
  from turn_response_authentic [OF run this] show ?thesis
    using run by blast
qed

text \<open>
  C24. No relayed datagram is lost while a transaction waits: what the transaction leaves for
  \<^verbatim>\<open>recv_from\<close> is what was there before, followed, in the order of arrival, by the data of every datagram
  that \<^verbatim>\<open>handle_inbound\<close> would report as relayed and that arrived before the response, over all
  retransmissions; and the result is that response, or the time-out when none came.
\<close>

theorem turn_media_kept:
  assumes "\<And>j. send_error (net (StunMessage_serialize m) j) = None"
  shows "let as = all_arrivals net (StunMessage_serialize m) 0 5;
             before = takeWhile (\<lambda>a. \<not> ends c (transaction_id m) a) as;
             (c', r) = transact net c m in
         tc_pending_media c' = tc_pending_media c @ concat (map (media c) before) \<and>
         r = (if length before < length as then outcome (as ! length before)
              else Inl (Ice ''TURN transaction timed out''))"
  using transact_spec [where net = net and m = m and c = c, OF assms] by (simp add: Let_def MAX_ATTEMPTS_def)

theorem turn_media_kept_witness:
  "tc_pending_media (fst (transact (\<lambda>_ _. \<lparr>send_error = None,
       arrivals = [Datagram [0x40, 0, 0, 1, 9] sample_relay, Datagram [0x40, 0, 0, 1, 8] sample_relay]\<rparr>)
     (sample_client\<lparr>tc_channels := [(sample_addr, 0x4000)]\<rparr>) (sample_answer BindingRequest)))
   = concat (replicate 5 [(sample_addr, [9]), (sample_addr, [8])])"
proof -
  let ?net = "\<lambda>_ _. \<lparr>send_error = None,
       arrivals = [Datagram [0x40, 0, 0, 1, 9] sample_relay, Datagram [0x40, 0, 0, 1, 8] sample_relay]\<rparr>"
  let ?c = "sample_client\<lparr>tc_channels := [(sample_addr, 0x4000)]\<rparr>"
  have cd: "is_channel_data [0x40, 0, 0, 1, x]" for x
    by (simp add: is_channel_data_def)
  have media: "media ?c (Datagram [0x40, 0, 0, 1, x] sample_relay) = [(sample_addr, [x])]" for x
    by (simp add: media_def handle_inbound_def RBUF_def cd inbound_channel_data_def peer_for_channel_def
        sample_client_def unallocated_def be16_def)
  have "\<not> ends ?c t (Datagram [0x40, 0, 0, 1, x] sample_relay)" for t x
    by (simp add: ends_def RBUF_def cd)
  then show ?thesis
    using turn_media_kept [of ?net "sample_answer BindingRequest" ?c] media
    by (simp add: all_arrivals_def Let_def numeral_eq_Suc split: prod.splits)
      (simp add: sample_client_def unallocated_def)
qed

text \<open>
  Relayed data keeps its peer and its octets: what is sent to a peer with a channel is a ChannelData
  frame that, coming back on that channel, is reported as the same octets from that peer; without a
  channel it is a Send indication with that peer and those octets, which cannot be taken for ChannelData.
\<close>

theorem turn_send_framing:
  assumes "channels_ok c" "length data < 65000" "addr_ok peer" "length tid = 12"
  shows "case map_of (tc_channels c) peer of
      Some ch \<Rightarrow> is_channel_data (send_to tid c peer data) \<and>
        handle_inbound md5 c (send_to tid c peer data) (tc_server c) = (c, Relayed peer data)
    | None \<Rightarrow> \<not> is_channel_data (send_to tid c peer data) \<and>
        (\<exists>m. StunMessage_parse (send_to tid c peer data) = Inr m \<and> message_type m = SendIndication \<and>
           get_xor_peer_address m = Some peer \<and> get_data m = Some data)"
proof (cases "map_of (tc_channels c) peer")
  case (Some ch)
  then have mem: "(peer, ch) \<in> set (tc_channels c)"
    by (rule map_of_SomeD)
  then have range: "CHANNEL_MIN \<le> ch" "ch \<le> CHANNEL_MAX"
    using assms(1) by (fastforce simp: channels_ok_def list_all_iff CHANNEL_MAX_def word_le_nat_alt)+
  have "peer_for_channel c ch = Some peer"
    using mem peer_for_channel_iff [OF assms(1)] by blast
  then show ?thesis
    using Some is_channel_data_encode [OF range] decode_encode_channel_data [of data ch "[]"] assms(2)
    by (simp add: send_to_def handle_inbound_def inbound_channel_data_def)
next
  case None
  let ?m = "push_attribute (SA_Data data) (push_attribute (SA_XorPeerAddress peer) (new_request tid SendIndication))"
  have pad: "pad_len (length data) < 4" "pad_len (addr_len peer) = 0" "addr_len peer \<le> 20"
    by (auto simp: pad_len_def split: IpAddr.split)
  have "stun_ok ?m"
    using assms pad by (simp add: stun_ok_def push_attribute_def new_request_def del: addr_len.simps addr_ok.simps)
  then have "StunMessage_parse (StunMessage_serialize ?m) = Inr (?m\<lparr>raw := StunMessage_serialize ?m\<rparr>)"
    using parse_serialize [of ?m "[]"] by simp
  then show ?thesis
    using None stun_not_channel_data [of ?m]
    by (simp add: send_to_def)
      (simp add: push_attribute_def new_request_def get_xor_peer_address_def get_data_def)
qed

theorem turn_send_framing_witness:
  "handle_inbound id (sample_client\<lparr>tc_channels := [(sample_addr, 0x4000)], tc_next_channel := 0x4001\<rparr>)
     (send_to (sample_rng 0) (sample_client\<lparr>tc_channels := [(sample_addr, 0x4000)], tc_next_channel := 0x4001\<rparr>)
       sample_addr [1, 2, 3]) sample_relay
   = (sample_client\<lparr>tc_channels := [(sample_addr, 0x4000)], tc_next_channel := 0x4001\<rparr>, Relayed sample_addr [1, 2, 3])"
proof -
  let ?c = "sample_client\<lparr>tc_channels := [(sample_addr, 0x4000)], tc_next_channel := 0x4001\<rparr>"
  have "channels_ok ?c"
    by (simp add: channels_ok_def CHANNEL_MIN_def)
  moreover have "addr_ok sample_addr" "length (sample_rng 0) = 12" "tc_server ?c = sample_relay"
    by (simp_all add: sample_addr_def sample_rng_def sample_client_def unallocated_def)
  ultimately show ?thesis
    using turn_send_framing [of ?c "[1, 2, 3]" sample_addr "sample_rng 0" id] by simp
qed

text \<open>
  A datagram from the server's address that parses as any message other than an error or a Data
  indication is reported as the success of a control transaction, without a MESSAGE-INTEGRITY, for any
  transaction id and even if it is a request; \<^verbatim>\<open>transact_authed\<close> would refuse it.
\<close>

theorem turn_inbound_unverified:
  assumes "length tid = 12" "\<not> MessageType_is_error t" "t \<noteq> DataIndication"
  shows "handle_inbound md5 c (StunMessage_serialize (new_with_transaction t tid)) (tc_server c) = (c, ControlSuccess)
    \<and> verify_message_integrity mac key (new_with_transaction t tid) = Inr False"
proof -
  have "stun_ok (new_with_transaction t tid)"
    using assms(1) by (simp add: stun_ok_def new_with_transaction_def)
  from parse_serialize [OF this, of "[]"] show ?thesis
    using assms(2,3) stun_not_channel_data [of "new_with_transaction t tid"]
    by (simp add: handle_inbound_def inbound_stun_def new_with_transaction_def verify_message_integrity_def)
qed

end
