(* ===== verification/Ice_Agent.thy ===== *)
theory Ice_Agent
  imports Turn "HOL-Library.Multiset"
begin

unbundle bit_operations_syntax

text \<open>
  The ICE agent: candidates and pairs of \<^verbatim>\<open>forge-ice/src/candidate.rs\<close>, gathering of \<^verbatim>\<open>gather.rs\<close>, the agent of
  \<^verbatim>\<open>agent.rs\<close> and the connectivity checks of \<^verbatim>\<open>checks.rs\<close>. The network interfaces, the STUN and TURN servers and
  the outcome of a binding request are parameters; so are the random octets of the credentials and the
  crate that writes them in hexadecimal. The agent pairs every compatible local and remote candidate,
  keeps the pairs in the order of their priority through any sequence of operations, and selects the
  best pair that works.
\<close>

section \<open>Definitions\<close>

subsection \<open>Candidates\<close>

datatype CandidateType = Host | ServerReflexive | PeerReflexive | Relay

datatype Protocol = Udp | Tcp

record IceCandidate =
  foundation :: bytes
  component :: u16
  protocol :: Protocol
  ic_priority :: u32
  ic_ip :: IpAddr
  ic_port :: u16
  cand_typ :: CandidateType
  rel_addr :: "IpAddr option"
  rel_port :: "u16 option"

fun type_pref :: "CandidateType \<Rightarrow> u32" where
  "type_pref Host = 126"
| "type_pref PeerReflexive = 110"
| "type_pref ServerReflexive = 100"
| "type_pref Relay = 0"

definition compute_priority :: "CandidateType \<Rightarrow> u16 \<Rightarrow> u16 \<Rightarrow> u32" where
  "compute_priority t local_pref cmp =
     (let component_val = ucast (256 - min cmp 256) in
      (push_bit 24 (type_pref t) OR push_bit 8 (ucast local_pref)) OR component_val)"

definition get_local_preference :: "IceCandidate \<Rightarrow> u16" where
  "get_local_preference c = ucast (drop_bit 8 (ic_priority c) AND 0xFFFF)"

definition new_host :: "bytes \<Rightarrow> u16 \<Rightarrow> Protocol \<Rightarrow> IpAddr \<Rightarrow> u16 \<Rightarrow> u16 \<Rightarrow> IceCandidate" where
  "new_host fnd cmp prot addr prt local_pref =
     \<lparr>foundation = fnd, component = cmp, protocol = prot, ic_priority = compute_priority Host local_pref cmp,
      ic_ip = addr, ic_port = prt, cand_typ = Host, rel_addr = None, rel_port = None\<rparr>"

definition new_server_reflexive ::
    "bytes \<Rightarrow> u16 \<Rightarrow> Protocol \<Rightarrow> IpAddr \<Rightarrow> u16 \<Rightarrow> IpAddr \<Rightarrow> u16 \<Rightarrow> u16 \<Rightarrow> IceCandidate" where
  "new_server_reflexive fnd cmp prot addr prt base_ip base_port local_pref =
     \<lparr>foundation = fnd, component = cmp, protocol = prot,
      ic_priority = compute_priority ServerReflexive local_pref cmp, ic_ip = addr, ic_port = prt,
      cand_typ = ServerReflexive, rel_addr = Some base_ip, rel_port = Some base_port\<rparr>"

definition new_relay ::
    "bytes \<Rightarrow> u16 \<Rightarrow> Protocol \<Rightarrow> IpAddr \<Rightarrow> u16 \<Rightarrow> IpAddr \<Rightarrow> u16 \<Rightarrow> u16 \<Rightarrow> IceCandidate" where
  "new_relay fnd cmp prot addr prt rel_ip rel_prt local_pref =
     \<lparr>foundation = fnd, component = cmp, protocol = prot, ic_priority = compute_priority Relay local_pref cmp,
      ic_ip = addr, ic_port = prt, cand_typ = Relay, rel_addr = Some rel_ip, rel_port = Some rel_prt\<rparr>"

datatype PairState = Waiting | InProgress | Succeeded | Failed | Frozen

record CandidatePair =
  cp_local :: IceCandidate
  cp_remote :: IceCandidate
  cp_priority :: u64
  cp_state :: PairState

definition compute_pair_priority :: "u32 \<Rightarrow> u32 \<Rightarrow> u64" where
  "compute_pair_priority local_priority remote_priority =
     (let g = ucast local_priority; d = ucast remote_priority in
      push_bit 32 1 * min g d + 2 * max g d + (if g > d then 1 else 0))"

definition CandidatePair_new :: "IceCandidate \<Rightarrow> IceCandidate \<Rightarrow> CandidatePair" where
  "CandidatePair_new l r =
     \<lparr>cp_local = l, cp_remote = r, cp_priority = compute_pair_priority (ic_priority l) (ic_priority r),
      cp_state = Frozen\<rparr>"

subsection \<open>Gathering\<close>

text \<open>An interface as the \<^verbatim>\<open>if_addrs\<close> crate lists it: its name, which is ASCII, and its address.\<close>

type_synonym interface = "string \<times> IpAddr"

definition segment :: "bytes \<Rightarrow> nat \<Rightarrow> u16" where
  "segment os i = be16 (os ! (2 * i)) (os ! (2 * i + 1))"

definition is_loopback :: "IpAddr \<Rightarrow> bool" where
  "is_loopback a = (case a of V4 w \<Rightarrow> drop_bit 24 w = 127 | V6 os \<Rightarrow> os = replicate 15 0 @ [1])"

definition is_link_local :: "IpAddr \<Rightarrow> bool" where
  "is_link_local a =
     (case a of
        V4 w \<Rightarrow> to_be32 w ! 0 = 169 \<and> to_be32 w ! 1 = 254
      | V6 os \<Rightarrow> segment os 0 AND 0xffc0 = 0xfe80)"

definition is_usable_interface :: "interface \<Rightarrow> bool" where
  "is_usable_interface iface =
     (let a = snd iface in
      if is_loopback a then False
      else if is_link_local a then False
      else
        (case a of
           V4 _ \<Rightarrow> True
         | V6 os \<Rightarrow>
             if segment os 0 = 0x2001 \<and> segment os 1 = 0x0db8 then False
             else if segment os 0 AND 0xfe00 = 0xfc00 then False
             else True))"

text \<open>\<^verbatim>\<open>str::to_lowercase\<close> and \<^verbatim>\<open>str::contains\<close> on ASCII, and the saturating operations of \<^verbatim>\<open>u16\<close>.\<close>

definition to_lower :: "string \<Rightarrow> string" where
  "to_lower s = map (\<lambda>c. let n = of_char c :: nat in if 65 \<le> n \<and> n \<le> 90 then char_of (n + 32) else c) s"

fun starts_with :: "'a list \<Rightarrow> 'a list \<Rightarrow> bool" where
  "starts_with [] _ = True"
| "starts_with (p # ps) [] = False"
| "starts_with (p # ps) (x # xs) = (p = x \<and> starts_with ps xs)"

fun contains :: "'a list \<Rightarrow> 'a list \<Rightarrow> bool" where
  "contains [] p = starts_with p []"
| "contains (x # xs) p = (starts_with p (x # xs) \<or> contains xs p)"

definition saturating_sub_u16 :: "u16 \<Rightarrow> u16 \<Rightarrow> u16" where
  "saturating_sub_u16 a b = (if b \<le> a then a - b else 0)"

definition saturating_add_u16 :: "u16 \<Rightarrow> u16 \<Rightarrow> u16" where
  "saturating_add_u16 a b = (if unat a + unat b < 65536 then a + b else 0xFFFF)"

definition calculate_local_preference :: "string \<Rightarrow> IpAddr \<Rightarrow> u16" where
  "calculate_local_preference iface_name a =
     (let pref = (case a of V6 _ \<Rightarrow> saturating_sub_u16 32768 1000 | V4 _ \<Rightarrow> 32768);
          name_lower = to_lower iface_name in
      if contains name_lower ''eth'' \<or> contains name_lower ''en'' then saturating_add_u16 pref 1000
      else if contains name_lower ''wlan'' \<or> contains name_lower ''wi-fi'' \<or> contains name_lower ''wifi''
      then saturating_add_u16 pref 500
      else if contains name_lower ''vpn'' \<or> contains name_lower ''tun'' \<or> contains name_lower ''tap''
      then saturating_sub_u16 pref 1000
      else pref)"

text \<open>The loops carry the foundation counter.\<close>

fun host_loop :: "nat \<Rightarrow> u16 \<Rightarrow> u16 \<Rightarrow> interface list \<Rightarrow> IceCandidate list" where
  "host_loop counter cmp prt [] = []"
| "host_loop counter cmp prt (iface # rest) =
     (if \<not> is_usable_interface iface then host_loop counter cmp prt rest
      else new_host (str (show_nat counter)) cmp Udp (snd iface) prt
             (calculate_local_preference (fst iface) (snd iface)) # host_loop (counter + 1) cmp prt rest)"

definition gather_host_candidates :: "string + interface list \<Rightarrow> u16 \<Rightarrow> u16 \<Rightarrow> ForgeError + IceCandidate list" where
  "gather_host_candidates if_addrs cmp prt =
     (case if_addrs of
        Inl e \<Rightarrow> Inl (Ice (''Failed to enumerate interfaces: '' @ e))
      | Inr interfaces \<Rightarrow> Inr (host_loop 1 cmp prt interfaces))"

text \<open>
  What the STUN servers answer: for a local address whether a client can be bound to it, and for a local
  address and the text of a server the result of resolving it and of the binding request.
\<close>

type_synonym stun_query = "SocketAddr \<Rightarrow> bytes \<Rightarrow> ForgeError + SocketAddr"

fun query_servers :: "stun_query \<Rightarrow> nat \<Rightarrow> u16 \<Rightarrow> IceCandidate \<Rightarrow> bytes list \<Rightarrow> IceCandidate option" where
  "query_servers query counter cmp host [] = None"
| "query_servers query counter cmp host (server # servers) =
     (case query \<lparr>ip = ic_ip host, port = ic_port host\<rparr> server of
        Inl _ \<Rightarrow> query_servers query counter cmp host servers
      | Inr mapped \<Rightarrow>
          if ip mapped \<noteq> ic_ip host \<or> port mapped \<noteq> ic_port host
          then Some \<lparr>foundation = str (show_nat counter), component = cmp, protocol = Udp,
            ic_priority = compute_priority ServerReflexive (get_local_preference host) cmp,
            ic_ip = ip mapped, ic_port = port mapped, cand_typ = ServerReflexive,
            rel_addr = Some (ic_ip host), rel_port = Some (ic_port host)\<rparr>
          else query_servers query counter cmp host servers)"

fun srflx_loop ::
    "(SocketAddr \<Rightarrow> bool) \<Rightarrow> stun_query \<Rightarrow> nat \<Rightarrow> u16 \<Rightarrow> bytes list \<Rightarrow> IceCandidate list \<Rightarrow> IceCandidate list" where
  "srflx_loop can_bind query counter cmp servers [] = []"
| "srflx_loop can_bind query counter cmp servers (host # hosts) =
     (if component host \<noteq> cmp then srflx_loop can_bind query counter cmp servers hosts
      else if \<not> can_bind \<lparr>ip = ic_ip host, port = ic_port host\<rparr>
      then srflx_loop can_bind query counter cmp servers hosts
      else
        (case query_servers query counter cmp host servers of
           None \<Rightarrow> srflx_loop can_bind query counter cmp servers hosts
         | Some cand \<Rightarrow> cand # srflx_loop can_bind query (counter + 1) cmp servers hosts))"

definition gather_server_reflexive_candidates ::
    "(SocketAddr \<Rightarrow> bool) \<Rightarrow> stun_query \<Rightarrow> IceCandidate list \<Rightarrow> bytes list \<Rightarrow> u16 \<Rightarrow> IceCandidate list" where
  "gather_server_reflexive_candidates can_bind query host_candidates stun_servers cmp =
     (if stun_servers = [] then [] else srflx_loop can_bind query 1000 cmp stun_servers host_candidates)"

definition RELAY_LOCAL_PREF :: u16 where
  "RELAY_LOCAL_PREF = 32768"

text \<open>The result of an allocation on a server, with the local address of its socket if that can be read.\<close>

type_synonym relay_query = "TurnServer \<Rightarrow> ForgeError + (TurnClient \<times> SocketAddr option)"

definition relay_base :: "TurnClient \<Rightarrow> SocketAddr option \<Rightarrow> SocketAddr" where
  "relay_base client base =
     (case tc_mapped_addr client of
        Some m \<Rightarrow> m
      | None \<Rightarrow> (case base of Some b \<Rightarrow> b | None \<Rightarrow> tc_relayed_addr client))"

fun relay_loop :: "relay_query \<Rightarrow> nat \<Rightarrow> u16 \<Rightarrow> TurnServer list \<Rightarrow> (IceCandidate \<times> TurnClient) list" where
  "relay_loop query counter cmp [] = []"
| "relay_loop query counter cmp (server # servers) =
     (case query server of
        Inl _ \<Rightarrow> relay_loop query counter cmp servers
      | Inr (client, base) \<Rightarrow>
          (let relayed = tc_relayed_addr client; rel = relay_base client base in
           (new_relay (str (show_nat counter)) cmp Udp (ip relayed) (port relayed) (ip rel) (port rel)
              RELAY_LOCAL_PREF, client) # relay_loop query (counter + 1) cmp servers))"

definition gather_relay_candidates :: "relay_query \<Rightarrow> TurnServer list \<Rightarrow> u16 \<Rightarrow> IceCandidate list \<times> TurnClient list"
where
  "gather_relay_candidates query turn_servers cmp =
     (if turn_servers = [] then ([], [])
      else let found = relay_loop query 2000 cmp turn_servers in (map fst found, map snd found))"

subsection \<open>The agent\<close>

text \<open>The socket itself is not part of the state, only its port.\<close>

record IceAgent =
  ag_local_ufrag :: bytes
  ag_local_pwd :: bytes
  ag_remote_ufrag :: "bytes option"
  ag_remote_pwd :: "bytes option"
  local_candidates :: "IceCandidate list"
  remote_candidates :: "IceCandidate list"
  candidate_pairs :: "CandidatePair list"
  stun_servers :: "bytes list"
  controlling :: bool
  tie_breaker :: u64
  ag_component :: u16
  local_port :: u16
  turn_servers :: "TurnServer list"
  turn_clients :: "TurnClient list"

definition generate_credentials :: "(bytes \<Rightarrow> bytes) \<Rightarrow> bytes \<Rightarrow> bytes \<Rightarrow> bytes \<times> bytes" where
  "generate_credentials hex ufrag_bytes pwd_bytes = (hex ufrag_bytes, hex pwd_bytes)"

definition IceAgent_new ::
    "(bytes \<Rightarrow> bytes) \<Rightarrow> bytes \<Rightarrow> bytes \<Rightarrow> u64 \<Rightarrow> u16 \<Rightarrow> u16 \<Rightarrow> bytes list \<Rightarrow> IceAgent" where
  "IceAgent_new hex rng1 rng2 rng3 cmp prt servers =
     (case generate_credentials hex rng1 rng2 of
        (ufrag, pwd) \<Rightarrow>
          \<lparr>ag_local_ufrag = ufrag, ag_local_pwd = pwd, ag_remote_ufrag = None, ag_remote_pwd = None,
           local_candidates = [], remote_candidates = [], candidate_pairs = [], stun_servers = servers,
           controlling = True, tie_breaker = rng3, ag_component = cmp, local_port = prt,
           turn_servers = [], turn_clients = []\<rparr>)"

definition set_turn_servers :: "TurnServer list \<Rightarrow> IceAgent \<Rightarrow> IceAgent" where
  "set_turn_servers ts a = a\<lparr>turn_servers := ts\<rparr>"

definition set_controlling :: "bool \<Rightarrow> IceAgent \<Rightarrow> IceAgent" where
  "set_controlling b a = a\<lparr>controlling := b\<rparr>"

definition set_remote_credentials :: "bytes \<Rightarrow> bytes \<Rightarrow> IceAgent \<Rightarrow> IceAgent \<times> (ForgeError + unit)" where
  "set_remote_credentials ufrag pwd a =
     (if ufrag = [] \<or> pwd = [] then (a, Inl (Ice ''ICE credentials cannot be empty''))
      else if length ufrag < 4
      then (a, Inl (Ice (''ICE ufrag too short: '' @ show_nat (length ufrag) @ '' chars (minimum 4 per RFC 8445)'')))
      else if length pwd < 22
      then (a, Inl (Ice (''ICE password too short: '' @ show_nat (length pwd) @ '' chars (minimum 22 per RFC 8445)'')))
      else (a\<lparr>ag_remote_ufrag := Some ufrag, ag_remote_pwd := Some pwd\<rparr>, Inr ()))"

definition get_remote_credentials :: "IceAgent \<Rightarrow> (bytes \<times> bytes) option" where
  "get_remote_credentials a =
     (case (ag_remote_ufrag a, ag_remote_pwd a) of (Some u, Some p) \<Rightarrow> Some (u, p) | _ \<Rightarrow> None)"

text \<open>
  \<^verbatim>\<open>gather_candidates\<close> after the socket is bound to the port \<open>bound\<close>; the errors of binding are those of the
  socket.
\<close>

definition gather_candidates ::
    "u16 \<Rightarrow> string + interface list \<Rightarrow> (SocketAddr \<Rightarrow> bool) \<Rightarrow> stun_query \<Rightarrow> relay_query \<Rightarrow> IceAgent
     \<Rightarrow> IceAgent \<times> (ForgeError + unit)" where
  "gather_candidates bound if_addrs can_bind query relay_q a =
     (let a1 = a\<lparr>local_port := bound\<rparr> in
      case gather_host_candidates if_addrs (ag_component a1) bound of
        Inl e \<Rightarrow> (a1, Inl e)
      | Inr hosts \<Rightarrow>
          (let srflx = gather_server_reflexive_candidates can_bind query hosts (stun_servers a1) (ag_component a1) in
           case gather_relay_candidates relay_q (turn_servers a1) (ag_component a1) of
             (relays, clients) \<Rightarrow>
               (a1\<lparr>local_candidates := hosts @ srflx @ relays, turn_clients := clients\<rparr>, Inr ())))"

definition take_turn_clients :: "IceAgent \<Rightarrow> IceAgent \<times> TurnClient list" where
  "take_turn_clients a = (a\<lparr>turn_clients := []\<rparr>, turn_clients a)"

definition same_endpoint :: "IceCandidate \<Rightarrow> IceCandidate \<Rightarrow> bool" where
  "same_endpoint c d \<longleftrightarrow>
     ic_ip c = ic_ip d \<and> ic_port c = ic_port d \<and> component c = component d \<and> protocol c = protocol d"

definition add_remote_candidate :: "IceCandidate \<Rightarrow> IceAgent \<Rightarrow> IceAgent" where
  "add_remote_candidate cand a =
     (if list_ex (\<lambda>c. same_endpoint c cand) (remote_candidates a) then a
      else a\<lparr>remote_candidates := remote_candidates a @ [cand]\<rparr>)"

definition pairable :: "IceCandidate \<Rightarrow> IceCandidate \<Rightarrow> bool" where
  "pairable l r \<longleftrightarrow> component l = component r \<and> protocol l = protocol r"

text \<open>\<^verbatim>\<open>sort_by_key\<close> with \<^verbatim>\<open>Reverse\<close>: a stable sort by descending priority.\<close>

definition sort_pairs :: "CandidatePair list \<Rightarrow> CandidatePair list" where
  "sort_pairs ps = sort_key (\<lambda>p. - uint (cp_priority p)) ps"

definition combinations :: "IceAgent \<Rightarrow> (IceCandidate \<times> IceCandidate) list" where
  "combinations a = concat (map (\<lambda>l. map (\<lambda>r. (l, r)) (remote_candidates a)) (local_candidates a))"

definition form_candidate_pairs :: "IceAgent \<Rightarrow> IceAgent" where
  "form_candidate_pairs a =
     a\<lparr>candidate_pairs := sort_pairs
        (map (\<lambda>(l, r). CandidatePair_new l r) (filter (\<lambda>(l, r). pairable l r) (combinations a)))\<rparr>"

definition pair_exists :: "IceCandidate \<Rightarrow> IceCandidate \<Rightarrow> CandidatePair list \<Rightarrow> bool" where
  "pair_exists l r ps \<longleftrightarrow>
     list_ex (\<lambda>p. ic_ip (cp_local p) = ic_ip l \<and> ic_port (cp_local p) = ic_port l \<and>
       ic_ip (cp_remote p) = ic_ip r \<and> ic_port (cp_remote p) = ic_port r) ps"

fun add_pairs :: "(IceCandidate \<times> IceCandidate) list \<Rightarrow> CandidatePair list \<Rightarrow> CandidatePair list" where
  "add_pairs [] ps = ps"
| "add_pairs ((l, r) # rest) ps =
     (if \<not> pairable l r then add_pairs rest ps
      else if pair_exists l r ps then add_pairs rest ps
      else add_pairs rest (ps @ [CandidatePair_new l r]))"

definition form_candidate_pairs_incremental :: "IceAgent \<Rightarrow> IceAgent" where
  "form_candidate_pairs_incremental a =
     (let ps = add_pairs (combinations a) (candidate_pairs a) in
      if length ps > length (candidate_pairs a) then a\<lparr>candidate_pairs := sort_pairs ps\<rparr>
      else a\<lparr>candidate_pairs := ps\<rparr>)"

subsection \<open>Connectivity checks\<close>

record IceAuthContext =
  auth_local_ufrag :: bytes
  auth_local_pwd :: bytes
  auth_remote_ufrag :: bytes
  auth_remote_pwd :: bytes
  auth_controlling :: bool
  auth_tie_breaker :: u64

definition check_config :: "IceAuthContext \<Rightarrow> u32 \<Rightarrow> BindingRequestConfig" where
  "check_config ctx prio =
     \<lparr>cfg_username = Some (auth_remote_ufrag ctx @ str '':'' @ auth_local_ufrag ctx),
      cfg_key = Some (auth_remote_pwd ctx), cfg_priority = Some prio,
      cfg_ice_controlling = (if auth_controlling ctx then Some (auth_tie_breaker ctx) else None),
      cfg_ice_controlled = (if auth_controlling ctx then None else Some (auth_tie_breaker ctx))\<rparr>"

text \<open>
  A binding request from a local to a remote address under a configuration: an error, also when the
  client cannot be bound, or the mapped address.
\<close>

type_synonym binding = "SocketAddr \<Rightarrow> SocketAddr \<Rightarrow> BindingRequestConfig option \<Rightarrow> ForgeError + SocketAddr"

definition pair_result :: "binding \<Rightarrow> IceAuthContext option \<Rightarrow> CandidatePair \<Rightarrow> ForgeError + SocketAddr" where
  "pair_result binding auth p =
     binding \<lparr>ip = ic_ip (cp_local p), port = ic_port (cp_local p)\<rparr>
       \<lparr>ip = ic_ip (cp_remote p), port = ic_port (cp_remote p)\<rparr>
       (map_option (\<lambda>ctx. check_config ctx (ic_priority (cp_local p))) auth)"

definition perform_connectivity_check ::
    "binding \<Rightarrow> IceAuthContext option \<Rightarrow> CandidatePair \<Rightarrow> CandidatePair \<times> bool" where
  "perform_connectivity_check binding auth p =
     (case pair_result binding auth (p\<lparr>cp_state := InProgress\<rparr>) of
        Inr _ \<Rightarrow> (p\<lparr>cp_state := Succeeded\<rparr>, True)
      | Inl _ \<Rightarrow> (p\<lparr>cp_state := Failed\<rparr>, False))"

fun perform_checks ::
    "binding \<Rightarrow> IceAuthContext option \<Rightarrow> CandidatePair list \<Rightarrow> CandidatePair list \<times> nat option" where
  "perform_checks binding auth [] = ([], None)"
| "perform_checks binding auth (p # ps) =
     (case perform_connectivity_check binding auth p of
        (p', True) \<Rightarrow> (p' # ps, Some 0)
      | (p', False) \<Rightarrow>
          (case perform_checks binding auth ps of
             (ps', r) \<Rightarrow> (p' # ps', map_option Suc r)))"

text \<open>
  The parallel checks: the pairs go in chunks, all requests of a chunk run, each for the given time at most, and the
  results are taken in order when all are there. A request has an outcome and the time it takes. Without pairs the
  step of the range is 0, which panics: no value.
\<close>

type_synonym timed_binding = "SocketAddr \<Rightarrow> SocketAddr \<Rightarrow> BindingRequestConfig option \<Rightarrow> (ForgeError + SocketAddr) \<times> duration"

definition in_time :: "duration \<Rightarrow> timed_binding \<Rightarrow> binding" where
  "in_time timeout_duration binding l r cfg =
     (case binding l r cfg of (result, elapsed) \<Rightarrow>
        if elapsed \<le> timeout_duration then result else Inl (Ice ''deadline has elapsed''))"

fun chunk_results ::
    "binding \<Rightarrow> IceAuthContext option \<Rightarrow> CandidatePair list \<Rightarrow> CandidatePair list \<times> nat option" where
  "chunk_results binding auth [] = ([], None)"
| "chunk_results binding auth (p # ps) =
     (case pair_result binding auth p of
        Inr _ \<Rightarrow> (p\<lparr>cp_state := Succeeded\<rparr> # ps, Some 0)
      | Inl _ \<Rightarrow>
          (case chunk_results binding auth ps of
             (ps', r) \<Rightarrow> (p\<lparr>cp_state := Failed\<rparr> # ps', map_option Suc r)))"

function chunks_loop ::
    "binding \<Rightarrow> IceAuthContext option \<Rightarrow> nat \<Rightarrow> CandidatePair list \<Rightarrow> CandidatePair list \<times> nat option" where
  "chunks_loop binding auth n ps =
     (if ps = [] \<or> n = 0 then (ps, None)
      else
        (case chunk_results binding auth (take n ps) of
           (cs, Some i) \<Rightarrow> (cs @ drop n ps, Some i)
         | (cs, None) \<Rightarrow>
             (case chunks_loop binding auth n (drop n ps) of
                (rest, r) \<Rightarrow> (cs @ rest, map_option (\<lambda>i. length cs + i) r))))"
  by pat_completeness auto
termination by (relation "measure (\<lambda>(b, a, n, ps). length ps)") auto

declare chunks_loop.simps [simp del]

definition perform_checks_parallel ::
    "timed_binding \<Rightarrow> IceAuthContext option \<Rightarrow> CandidatePair list \<Rightarrow> nat \<Rightarrow> duration \<Rightarrow> (CandidatePair list \<times> nat option) option" where
  "perform_checks_parallel binding auth ps max_concurrent timeout_duration =
     (let chunk_size = min max_concurrent (length ps) in
      if chunk_size = 0 then None else Some (chunks_loop (in_time timeout_duration binding) auth chunk_size ps))"

definition perform_connectivity_checks :: "binding \<Rightarrow> IceAgent \<Rightarrow> IceAgent \<times> (ForgeError + bool)" where
  "perform_connectivity_checks binding a =
     (if candidate_pairs a = [] then (a, Inr False)
      else
        (case (ag_remote_ufrag a, ag_remote_pwd a) of
           (Some ufrag, Some pwd) \<Rightarrow>
             (let auth = \<lparr>auth_local_ufrag = ag_local_ufrag a, auth_local_pwd = ag_local_pwd a,
                auth_remote_ufrag = ufrag, auth_remote_pwd = pwd, auth_controlling = controlling a,
                auth_tie_breaker = tie_breaker a\<rparr> in
              case perform_checks binding (Some auth) (candidate_pairs a) of
                (ps, r) \<Rightarrow> (a\<lparr>candidate_pairs := ps\<rparr>, Inr (r \<noteq> None)))
         | _ \<Rightarrow> (a, Inl (Ice ''Remote ICE credentials not set''))))"

text \<open>\<^verbatim>\<open>enumerate\<close>, \<^verbatim>\<open>find\<close> and \<^verbatim>\<open>map\<close> to the index.\<close>

fun find_index :: "('a \<Rightarrow> bool) \<Rightarrow> 'a list \<Rightarrow> nat option" where
  "find_index P [] = None"
| "find_index P (x # xs) = (if P x then Some 0 else map_option Suc (find_index P xs))"

definition select_best_pair :: "IceAgent \<Rightarrow> nat option" where
  "select_best_pair a = find_index (\<lambda>p. cp_state p = Succeeded) (candidate_pairs a)"

definition nominate_pair :: "IceAgent \<Rightarrow> nat option" where
  "nominate_pair a = (case select_best_pair a of Some i \<Rightarrow> Some i | None \<Rightarrow> None)"

definition get_selected_pair :: "IceAgent \<Rightarrow> CandidatePair option" where
  "get_selected_pair a = find (\<lambda>p. cp_state p = Succeeded) (candidate_pairs a)"

definition get_local_address :: "IceAgent \<Rightarrow> SocketAddr option" where
  "get_local_address a =
     map_option (\<lambda>p. \<lparr>ip = ic_ip (cp_local p), port = ic_port (cp_local p)\<rparr>) (get_selected_pair a)"

definition get_remote_address :: "IceAgent \<Rightarrow> SocketAddr option" where
  "get_remote_address a =
     map_option (\<lambda>p. \<lparr>ip = ic_ip (cp_remote p), port = ic_port (cp_remote p)\<rparr>) (get_selected_pair a)"

definition is_completed :: "IceAgent \<Rightarrow> bool" where
  "is_completed a \<longleftrightarrow> list_ex (\<lambda>p. cp_state p = Succeeded) (candidate_pairs a)"

section \<open>Lemmas\<close>

subsection \<open>Priorities\<close>

lemma or_disjoint_add: "x AND y = 0 \<Longrightarrow> x OR y = x + (y :: 'a::len word)"
  by (simp add: disjunctive_add_eq_or)

lemma low_high_disjoint:
  assumes "unat (y :: u32) < 2 ^ n"
  shows "push_bit n (x :: u32) AND y = 0"
proof (rule bit_word_eqI)
  fix k
  assume "k < LENGTH(32)"
  have "\<not> bit y k" if "n \<le> k"
  proof -
    have "take_bit n (unat y) = unat y"
      using assms by (simp add: take_bit_nat_eq_self)
    then have "\<not> bit (unat y) k"
      using that by (metis bit_take_bit_iff not_le)
    then show ?thesis
      by (simp add: bit_unsigned_iff)
  qed
  then show "bit (push_bit n x AND y) k \<longleftrightarrow> bit (0 :: u32) k"
    by (auto simp: bit_simps)
qed

lemma unat_u32_of_u16 [simp]: "unat (ucast (w :: u16) :: u32) = unat w"
  by (simp add: unsigned_ucast_eq take_bit_nat_eq_self_iff less_trans [OF unat_u16_less])

lemma component_value:
  assumes "1 \<le> (cmp :: u16)"
  shows "unat (ucast (256 - min cmp 256) :: u32) = 256 - min (unat cmp) 256"
    and "unat (ucast (256 - min cmp 256) :: u32) < 256"
proof -
  have "unat (256 - min cmp 256) = 256 - min (unat cmp) 256"
    by (cases "cmp \<le> 256") (auto simp: min_def word_le_nat_alt unat_sub)
  then show "unat (ucast (256 - min cmp 256) :: u32) = 256 - min (unat cmp) 256"
    by simp
  moreover have "1 \<le> unat cmp"
    using assms by (simp add: word_le_nat_alt)
  ultimately show "unat (ucast (256 - min cmp 256) :: u32) < 256"
    by simp
qed

lemma len32: "LENGTH(32) = 32"
  by simp

lemma unat_add3:
  "unat x + unat y + unat z < 2 ^ LENGTH('a) \<Longrightarrow> unat (x + y + z) = unat x + unat y + unat (z :: 'a::len word)"
  by (simp add: unat_word_ariths mod_add_left_eq)

lemma compute_priority_value:
  assumes "1 \<le> cmp"
  shows "unat (compute_priority t lp cmp)
       = 2 ^ 24 * unat (type_pref t) + 2 ^ 8 * unat lp + (256 - min (unat cmp) 256)"
proof -
  let ?v = "ucast (256 - min cmp 256) :: u32"
  have tp: "unat (type_pref t) \<le> 126"
    by (cases t) simp_all
  have lp: "unat lp < 65536"
    by simp
  then have "unat lp * 256 < 4294967296"
    by linarith
  then have a: "unat (push_bit 8 (ucast lp) :: u32) = 2 ^ 8 * unat lp"
    by (simp add: push_bit_eq_mult unat_word_ariths)
  then have "push_bit 24 (type_pref t) AND push_bit 8 (ucast lp) = 0"
    using lp by (intro low_high_disjoint) simp
  then have b: "push_bit 24 (type_pref t) OR push_bit 8 (ucast lp) = push_bit 24 (type_pref t) + push_bit 8 (ucast lp)"
    by (rule or_disjoint_add)
  have c: "push_bit 24 (type_pref t) OR push_bit 8 (ucast lp) = push_bit 8 (push_bit 16 (type_pref t) OR ucast lp)"
    by (rule bit_word_eqI) (auto simp: bit_simps)
  have "push_bit 8 (push_bit 16 (type_pref t) OR ucast lp) AND ?v = 0"
    using component_value(2) [OF assms] by (intro low_high_disjoint) simp
  then have d: "compute_priority t lp cmp = push_bit 24 (type_pref t) + push_bit 8 (ucast lp) + ?v"
    unfolding compute_priority_def Let_def c by (simp add: or_disjoint_add flip: b c)
  have "unat (push_bit 24 (type_pref t)) = 2 ^ 24 * unat (type_pref t)"
    using tp by (simp add: push_bit_eq_mult unat_word_ariths)
  moreover have "16777216 * unat (type_pref t) + 256 * unat lp + unat ?v < 4294967296"
    using component_value(2) [OF assms] tp unat_u16_less [of lp] by linarith
  then have "2 ^ 24 * unat (type_pref t) + 2 ^ 8 * unat lp + unat ?v < 2 ^ 32"
    by simp
  ultimately show ?thesis
    unfolding d using a component_value(1) [OF assms] by (simp only: unat_add3 len32)
qed

lemma compute_pair_priority_value:
  assumes "min (unat l) (unat r) < 2 ^ 31"
  shows "unat (compute_pair_priority l r)
       = 2 ^ 32 * min (unat l) (unat r) + 2 * max (unat l) (unat r) + (if unat r < unat l then 1 else 0)"
proof -
  have bound: "unat l < 2 ^ 32" "unat r < 2 ^ 32"
    using unsigned_less [of l] unsigned_less [of r] by simp_all
  have mm: "unat (min (ucast l) (ucast r) :: u64) = min (unat l) (unat r)"
    "unat (max (ucast l) (ucast r) :: u64) = max (unat l) (unat r)"
    "(ucast r :: u64) < ucast l \<longleftrightarrow> unat r < unat l"
    by (auto simp: min_def max_def word_le_nat_alt word_less_nat_alt)
  have "2 ^ 32 * min (unat l) (unat r) + 2 * max (unat l) (unat r) + 1 < 2 ^ 64"
    using assms bound by (simp add: max_def min_def del: unat_u32_less split: if_splits)
  then show ?thesis
    unfolding compute_pair_priority_def Let_def
    by (simp add: unat_word_ariths mm push_bit_eq_mult)
qed

subsection \<open>Pairs\<close>

definition pairs_sorted :: "CandidatePair list \<Rightarrow> bool" where
  "pairs_sorted ps = sorted_wrt (\<lambda>p q. cp_priority q \<le> cp_priority p) ps"

lemma pairs_sorted_sort [simp]: "pairs_sorted (sort_pairs ps)"
proof -
  have "sorted (map (\<lambda>p. - uint (cp_priority p)) (sort_pairs ps))"
    by (simp add: sort_pairs_def)
  then show ?thesis
    by (simp add: pairs_sorted_def sorted_map word_le_def)
qed

lemma mset_sort_pairs [simp]: "mset (sort_pairs ps) = mset ps"
  by (simp add: sort_pairs_def)

lemma set_sort_pairs [simp]: "set (sort_pairs ps) = set ps"
  by (simp add: sort_pairs_def)

lemma length_sort_pairs [simp]: "length (sort_pairs ps) = length ps"
  by (simp add: sort_pairs_def)

lemma set_combinations: "set (combinations a) = set (local_candidates a) \<times> set (remote_candidates a)"
  by (auto simp: combinations_def)

text \<open>A pair as the agent builds it: compatible candidates and their priority.\<close>

definition pair_ok :: "CandidatePair \<Rightarrow> bool" where
  "pair_ok p \<longleftrightarrow> pairable (cp_local p) (cp_remote p) \<and>
     cp_priority p = compute_pair_priority (ic_priority (cp_local p)) (ic_priority (cp_remote p))"

lemma pair_ok_new [simp]: "pair_ok (CandidatePair_new l r) = pairable l r"
  by (simp add: pair_ok_def CandidatePair_new_def)

lemma pair_ok_state [simp]: "pair_ok (p\<lparr>cp_state := s\<rparr>) = pair_ok p"
  by (simp add: pair_ok_def)

lemma add_pairs_prefix: "\<exists>new. add_pairs cs ps = ps @ new \<and> list_all (\<lambda>p. cp_state p = Frozen \<and> pair_ok p) new"
proof (induction cs ps rule: add_pairs.induct)
  case (2 l r rest ps)
  then show ?case
    by (auto simp: CandidatePair_new_def pair_ok_def)
qed simp

lemma pair_exists_append [simp]: "pair_exists l r (ps @ qs) \<longleftrightarrow> pair_exists l r ps \<or> pair_exists l r qs"
  by (simp add: pair_exists_def)

lemma pair_exists_add: "pair_exists l r ps \<Longrightarrow> pair_exists l r (add_pairs cs ps)"
  using add_pairs_prefix [of cs ps] by auto

lemma pair_exists_new [simp]: "pair_exists l r [CandidatePair_new l r]"
  by (simp add: pair_exists_def CandidatePair_new_def)

lemma add_pairs_complete:
  "(l, r) \<in> set cs \<Longrightarrow> pairable l r \<Longrightarrow> pair_exists l r (add_pairs cs ps)"
proof (induction cs ps rule: add_pairs.induct)
  case (2 l' r' rest ps)
  then show ?case
    by (auto intro: pair_exists_add)
qed simp

definition pair_key :: "CandidatePair \<Rightarrow> (IpAddr \<times> u16) \<times> (IpAddr \<times> u16)" where
  "pair_key p = ((ic_ip (cp_local p), ic_port (cp_local p)), (ic_ip (cp_remote p), ic_port (cp_remote p)))"

lemma pair_exists_key: "pair_exists l r ps \<longleftrightarrow> ((ic_ip l, ic_port l), (ic_ip r, ic_port r)) \<in> pair_key ` set ps"
  by (auto simp: pair_exists_def pair_key_def list_ex_iff image_iff) metis

lemma pair_key_new [simp]: "pair_key (CandidatePair_new l r) = ((ic_ip l, ic_port l), (ic_ip r, ic_port r))"
  by (simp add: pair_key_def CandidatePair_new_def)

lemma add_pairs_distinct:
  "distinct (map pair_key ps) \<Longrightarrow> distinct (map pair_key (add_pairs cs ps))"
proof (induction cs ps rule: add_pairs.induct)
  case (2 l r rest ps)
  then show ?case
    by (simp add: pair_exists_key)
qed simp

lemma add_pairs_idle:
  "(\<And>l r. (l, r) \<in> set cs \<Longrightarrow> pairable l r \<Longrightarrow> pair_exists l r ps) \<Longrightarrow> add_pairs cs ps = ps"
  by (induction cs ps rule: add_pairs.induct) auto

subsection \<open>Checks\<close>

definition works :: "binding \<Rightarrow> IceAuthContext option \<Rightarrow> CandidatePair \<Rightarrow> bool" where
  "works binding auth p = (\<not> isl (pair_result binding auth p))"

lemma pair_result_state [simp]: "pair_result binding auth (p\<lparr>cp_state := s\<rparr>) = pair_result binding auth p"
  by (simp add: pair_result_def)

lemma perform_checks_spec:
  "perform_checks binding auth ps =
     (let failed = takeWhile (\<lambda>p. \<not> works binding auth p) ps in
      case dropWhile (\<lambda>p. \<not> works binding auth p) ps of
        [] \<Rightarrow> (map (\<lambda>p. p\<lparr>cp_state := Failed\<rparr>) failed, None)
      | p # rest \<Rightarrow> (map (\<lambda>p. p\<lparr>cp_state := Failed\<rparr>) failed @ p\<lparr>cp_state := Succeeded\<rparr> # rest, Some (length failed)))"
proof (induction ps)
  case (Cons p ps)
  then show ?case
    by (cases "pair_result binding auth p"; cases "dropWhile (\<lambda>p. \<not> works binding auth p) ps")
      (simp_all add: perform_connectivity_check_def works_def [of _ _ p] Let_def del: dropWhile_eq_Nil_conv)
qed simp

lemma chunk_results_eq: "chunk_results binding auth ps = perform_checks binding auth ps"
  by (induction ps) (auto simp: perform_connectivity_check_def split: sum.split)

lemma perform_checks_append:
  "perform_checks binding auth (ps @ qs) =
     (case perform_checks binding auth ps of
        (ps', Some i) \<Rightarrow> (ps' @ qs, Some i)
      | (ps', None) \<Rightarrow> (case perform_checks binding auth qs of (qs', r) \<Rightarrow> (ps' @ qs', map_option (\<lambda>i. length ps' + i) r)))"
proof (induction ps)
  case (Cons p ps)
  then show ?case
    by (cases "perform_connectivity_check binding auth p"; cases "snd (perform_connectivity_check binding auth p)")
      (auto split: prod.split option.split simp: map_option_case)
qed (auto simp: map_option_case split: prod.split option.split)

lemma chunks_loop_eq: "0 < n \<Longrightarrow> chunks_loop binding auth n ps = perform_checks binding auth ps"
proof (induction binding auth n ps rule: chunks_loop.induct)
  case (1 binding auth n ps)
  show ?case
  proof (cases "ps = []")
    case True
    then show ?thesis
      by (simp add: chunks_loop.simps)
  next
    case False
    have ih: "chunks_loop binding auth n (drop n ps) = perform_checks binding auth (drop n ps)"
      if "chunk_results binding auth (take n ps) = (cs, None)" for cs
      using 1 False that by (metis not_gr0)
    show ?thesis
      using perform_checks_append [of binding auth "take n ps" "drop n ps"] False "1.prems" ih
      by (subst chunks_loop.simps) (auto simp: chunk_results_eq split: prod.split option.split)
  qed
qed

subsection \<open>The invariant of the agent\<close>

text \<open>
  The pairs are sorted, compatible and have their priority, and no two remote candidates share their
  address, component and protocol.
\<close>

definition endpoint :: "IceCandidate \<Rightarrow> IpAddr \<times> u16 \<times> u16 \<times> Protocol" where
  "endpoint c = (ic_ip c, ic_port c, component c, protocol c)"

definition agent_ok :: "IceAgent \<Rightarrow> bool" where
  "agent_ok a \<longleftrightarrow> pairs_sorted (candidate_pairs a) \<and> list_all pair_ok (candidate_pairs a) \<and>
     distinct (map endpoint (remote_candidates a))"

datatype ice_op =
    SetRemoteCredentials bytes bytes
  | SetControlling bool
  | SetTurnServers "TurnServer list"
  | Gather u16 "string + interface list" "SocketAddr \<Rightarrow> bool" stun_query relay_query
  | AddRemote IceCandidate
  | FormPairs
  | FormPairsIncremental
  | Check binding
  | TakeTurnClients

fun ice_step :: "ice_op \<Rightarrow> IceAgent \<Rightarrow> IceAgent" where
  "ice_step (SetRemoteCredentials u p) a = fst (set_remote_credentials u p a)"
| "ice_step (SetControlling b) a = set_controlling b a"
| "ice_step (SetTurnServers ts) a = set_turn_servers ts a"
| "ice_step (Gather bound ifs can_bind query relay_q) a = fst (gather_candidates bound ifs can_bind query relay_q a)"
| "ice_step (AddRemote c) a = add_remote_candidate c a"
| "ice_step FormPairs a = form_candidate_pairs a"
| "ice_step FormPairsIncremental a = form_candidate_pairs_incremental a"
| "ice_step (Check binding) a = fst (perform_connectivity_checks binding a)"
| "ice_step TakeTurnClients a = fst (take_turn_clients a)"

lemma agent_ok_fields [simp]:
  "agent_ok (a\<lparr>ag_remote_ufrag := u\<rparr>) = agent_ok a" "agent_ok (a\<lparr>ag_remote_pwd := p\<rparr>) = agent_ok a"
  "agent_ok (a\<lparr>controlling := b\<rparr>) = agent_ok a" "agent_ok (a\<lparr>turn_servers := ts\<rparr>) = agent_ok a"
  "agent_ok (a\<lparr>turn_clients := cs\<rparr>) = agent_ok a" "agent_ok (a\<lparr>local_port := n\<rparr>) = agent_ok a"
  "agent_ok (a\<lparr>local_candidates := ls\<rparr>) = agent_ok a"
  by (simp_all add: agent_ok_def)

lemma same_endpoint_iff: "same_endpoint c d \<longleftrightarrow> endpoint c = endpoint d"
  by (simp add: same_endpoint_def endpoint_def)

lemma form_pairs_ok: "agent_ok a \<Longrightarrow> agent_ok (form_candidate_pairs a)"
  by (auto simp: agent_ok_def form_candidate_pairs_def list_all_iff)

lemma incremental_ok: "agent_ok a \<Longrightarrow> agent_ok (form_candidate_pairs_incremental a)"
  using add_pairs_prefix [of "combinations a" "candidate_pairs a"]
  by (auto simp: agent_ok_def form_candidate_pairs_incremental_def Let_def list_all_iff)

lemma checks_keep:
  "map (\<lambda>p. p\<lparr>cp_state := Frozen\<rparr>) (fst (perform_checks binding auth ps)) = map (\<lambda>p. p\<lparr>cp_state := Frozen\<rparr>) ps"
  by (induction ps) (auto simp: perform_connectivity_check_def split: sum.split prod.split)

lemma checks_keep_priority:
  "map cp_priority (fst (perform_checks binding auth ps)) = map cp_priority ps"
  "map pair_ok (fst (perform_checks binding auth ps)) = map pair_ok ps"
  using arg_cong [OF checks_keep [of binding auth ps], of "map cp_priority"]
    arg_cong [OF checks_keep [of binding auth ps], of "map pair_ok"]
  by (simp_all add: o_def)

lemma pairs_sorted_map: "pairs_sorted ps \<longleftrightarrow> sorted_wrt (\<ge>) (map cp_priority ps)"
  by (simp add: pairs_sorted_def sorted_wrt_map)

lemma list_all_map_id: "list_all P xs \<longleftrightarrow> list_all id (map P xs)"
  by (simp add: list_all_iff)

lemma check_ok: "agent_ok a \<Longrightarrow> agent_ok (fst (perform_connectivity_checks binding a))"
proof -
  assume ok: "agent_ok a"
  have "agent_ok (a\<lparr>candidate_pairs := fst (perform_checks binding auth (candidate_pairs a))\<rparr>)" for auth
    using ok checks_keep_priority [of binding auth "candidate_pairs a"]
    by (simp add: agent_ok_def pairs_sorted_map list_all_map_id [of pair_ok])
  then show ?thesis
    using ok by (auto simp: perform_connectivity_checks_def Let_def split: option.split prod.split)
      (metis fst_conv)
qed

lemma ice_step_ok: "agent_ok a \<Longrightarrow> agent_ok (ice_step opn a)"
proof (cases opn)
  case (AddRemote c)
  assume "agent_ok a"
  then show ?thesis
    by (auto simp: AddRemote add_remote_candidate_def agent_ok_def same_endpoint_iff list_ex_iff)
next
  case (Gather bound ifs can_bind query relay_q)
  assume "agent_ok a"
  then show ?thesis
    by (auto simp: Gather gather_candidates_def Let_def split: sum.split prod.split)
qed (auto simp: set_remote_credentials_def set_controlling_def set_turn_servers_def take_turn_clients_def
    form_pairs_ok incremental_ok check_ok)

interpretation ice: stepped_system agent_ok ice_step
  by unfold_locales (rule ice_step_ok)

lemma find_index_append:
  "list_all (\<lambda>x. \<not> P x) xs \<Longrightarrow> P y \<Longrightarrow> find_index P (xs @ y # ys) = Some (length xs)"
  by (induction xs) auto

lemma find_index_None: "list_all (\<lambda>x. \<not> P x) xs \<Longrightarrow> find_index P xs = None"
  by (induction xs) auto

lemma find_index_failed [simp]:
  "find_index (\<lambda>p. cp_state p = Succeeded) (map (cp_state_update (\<lambda>_. Failed)) ps) = None"
  by (rule find_index_None) (simp add: list_all_iff)

lemma find_append_hit: "list_all (\<lambda>x. \<not> P x) xs \<Longrightarrow> P y \<Longrightarrow> find P (xs @ y # ys) = Some y"
  by (induction xs) auto

section \<open>Properties\<close>

definition sample_candidate :: "u32 \<Rightarrow> u16 \<Rightarrow> IceCandidate" where
  "sample_candidate prio prt = \<lparr>foundation = [], component = 1, protocol = Udp, ic_priority = prio,
     ic_ip = V4 0xC0A80101, ic_port = prt, cand_typ = Host, rel_addr = None, rel_port = None\<rparr>"

definition sample_agent :: IceAgent where
  "sample_agent = (IceAgent_new (\<lambda>bs. bs) (str ''abcd'') (str ''0123456789abcdef012345'') 7 1 0 [])
     \<lparr>local_candidates := [sample_candidate 5 1, sample_candidate 9 2],
      remote_candidates := [sample_candidate 4 3, sample_candidate 8 4],
      ag_remote_ufrag := Some (str ''wxyz''), ag_remote_pwd := Some (str ''0123456789abcdef012345'')\<rparr>"

text \<open>
  The priority of a candidate is the one of RFC 8445: for a component from 1 on, the three fields do not overlap, so
  it is the sum of the type preference, the local preference and the component part; it stays below
  \<open>2\<^sup>3\<^sup>1\<close>, and the local preference can be read back from it, as the server-reflexive candidates of a host
  candidate do.
\<close>

theorem ice_candidate_priority:
  assumes "1 \<le> cmp" "ic_priority c = compute_priority t lp cmp"
  shows "unat (ic_priority c) = 2 ^ 24 * unat (type_pref t) + 2 ^ 8 * unat lp + (256 - min (unat cmp) 256) \<and>
    unat (ic_priority c) < 2 ^ 31 \<and> get_local_preference c = lp"
proof -
  define v where "v = 256 - min (unat cmp) 256"
  have v: "v < 256"
    using assms(1) by (simp add: v_def word_le_nat_alt)
  have val: "unat (ic_priority c) = 16777216 * unat (type_pref t) + 256 * unat lp + v"
    using compute_priority_value [OF assms(1), of t lp] by (simp add: assms(2) v_def)
  have tp: "unat (type_pref t) \<le> 126"
    by (cases t) simp_all
  have "unat (ic_priority c) div 256 = 65536 * unat (type_pref t) + unat lp"
    using val v by (simp add: div_add1_eq)
  then have "unat (drop_bit 8 (ic_priority c)) mod 65536 = unat lp"
    by (simp add: drop_bit_eq_div unat_div)
  moreover have "(0xFFFF :: u32) = mask 16"
    by (simp add: mask_eq_exp_minus_1)
  ultimately have "unat (drop_bit 8 (ic_priority c) AND 0xFFFF) = unat lp"
    by (simp only: take_bit_eq_mask [symmetric]) (simp add: unsigned_take_bit_eq take_bit_eq_mod unat_mod)
  then have "unat (get_local_preference c) = unat lp"
    by (simp add: get_local_preference_def unsigned_ucast_eq take_bit_eq_mod)
  moreover have "unat (ic_priority c) < 2147483648"
    using val v tp unat_u16_less [of lp] by linarith
  ultimately show ?thesis
    using val by (simp add: word_unat_eq_iff v_def)
qed

theorem ice_candidate_priority_witness:
  "unat (ic_priority (new_host [] 1 Udp (V4 0) 9 65535)) = 2130706431 \<and>
   get_local_preference (new_host [] 1 Udp (V4 0) 9 65535) = 65535"
  using ice_candidate_priority [of 1 "new_host [] 1 Udp (V4 0) 9 65535" Host 65535] by (simp add: new_host_def)

text \<open>
  The priority of a pair is \<open>2\<^sup>3\<^sup>2\<close> times the smaller priority plus twice the larger one plus one if the
  local candidate has the larger, without overflow in 64 bits, as soon as one of the two is below \<open>2\<^sup>3\<^sup>1\<close>,
  which those the agent computes itself are.
\<close>

theorem ice_pair_priority:
  assumes "ic_priority l = compute_priority t lp cmp" "1 \<le> cmp"
  shows "unat (cp_priority (CandidatePair_new l r))
       = 2 ^ 32 * min (unat (ic_priority l)) (unat (ic_priority r))
         + 2 * max (unat (ic_priority l)) (unat (ic_priority r))
         + (if unat (ic_priority r) < unat (ic_priority l) then 1 else 0)"
proof -
  have tp: "unat (type_pref t) \<le> 126"
    by (cases t) simp_all
  have "16777216 * unat (type_pref t) + 256 * unat lp + (256 - min (unat cmp) 256) < 2147483648"
    using tp unat_u16_less [of lp] by linarith
  then have "unat (ic_priority l) < 2 ^ 31"
    using compute_priority_value [OF assms(2), of t lp] by (simp add: assms(1))
  then show ?thesis
    using compute_pair_priority_value [of "ic_priority l" "ic_priority r"] by (simp add: CandidatePair_new_def)
qed

theorem ice_pair_priority_witness:
  "unat (cp_priority (CandidatePair_new (new_host [] 1 Udp (V4 0) 9 65535) (sample_candidate 0xFFFFFFFF 1)))
     = 9151314447111815166"
  using ice_pair_priority [of "new_host [] 1 Udp (V4 0) 9 65535" Host 65535 1 "sample_candidate 0xFFFFFFFF 1"]
  by (simp add: new_host_def sample_candidate_def compute_priority_value)

text \<open>
  Forming the pairs gives every local with every remote candidate of the same component and protocol,
  each combination as often as it occurs, frozen and with its priority, from the highest priority to the
  lowest.
\<close>

theorem ice_forms_all_pairs:
  "let ps = candidate_pairs (form_candidate_pairs a) in
   pairs_sorted ps \<and>
   mset ps = (\<Sum>l\<in>#mset (local_candidates a). \<Sum>r\<in>#mset (remote_candidates a).
     if component l = component r \<and> protocol l = protocol r then {#CandidatePair_new l r#} else {#})"
proof -
  have row: "mset (map (\<lambda>(l, r). CandidatePair_new l r) (filter (\<lambda>(l, r). pairable l r) (map (\<lambda>r. (l, r)) rs)))
      = (\<Sum>r\<in>#mset rs. if component l = component r \<and> protocol l = protocol r then {#CandidatePair_new l r#} else {#})"
    for l rs
    by (induction rs) (auto simp: pairable_def)
  have "mset (map (\<lambda>(l, r). CandidatePair_new l r)
        (filter (\<lambda>(l, r). pairable l r) (concat (map (\<lambda>l. map (\<lambda>r. (l, r)) rs) ls))))
      = (\<Sum>l\<in>#mset ls. \<Sum>r\<in>#mset rs.
          if component l = component r \<and> protocol l = protocol r then {#CandidatePair_new l r#} else {#})" for ls rs
    using row by (induction ls) simp_all
  then show ?thesis
    by (simp add: form_candidate_pairs_def combinations_def Let_def)
qed

text \<open>
  Trickled candidates: forming the pairs incrementally keeps every pair there is with its state, adds
  only frozen pairs of compatible candidates, leaves no compatible combination without a pair and no
  combination of addresses with two, and does nothing when it is run again.
\<close>

theorem ice_incremental_pairs:
  assumes "distinct (map pair_key (candidate_pairs a))"
  shows "let a' = form_candidate_pairs_incremental a in
    (\<exists>new. mset (candidate_pairs a') = mset (candidate_pairs a) + mset new \<and>
       list_all (\<lambda>p. cp_state p = Frozen \<and> pair_ok p) new) \<and>
    list_all (\<lambda>(l, r). \<not> pairable l r \<or> pair_exists l r (candidate_pairs a')) (combinations a) \<and>
    distinct (map pair_key (candidate_pairs a')) \<and>
    form_candidate_pairs_incremental a' = a'"
proof -
  let ?a' = "form_candidate_pairs_incremental a"
  let ?ps = "add_pairs (combinations a) (candidate_pairs a)"
  have ms: "mset (candidate_pairs ?a') = mset ?ps"
    by (simp add: form_candidate_pairs_incremental_def Let_def)
  then have sets: "set (candidate_pairs ?a') = set ?ps"
    by (metis set_mset_mset)
  obtain new where "?ps = candidate_pairs a @ new" "list_all (\<lambda>p. cp_state p = Frozen \<and> pair_ok p) new"
    using add_pairs_prefix by blast
  then have 1: "\<exists>new. mset (candidate_pairs ?a') = mset (candidate_pairs a) + mset new \<and>
       list_all (\<lambda>p. cp_state p = Frozen \<and> pair_ok p) new"
    using ms by auto
  have ex: "pair_exists l r (candidate_pairs ?a') = pair_exists l r ?ps" for l r
    by (simp add: pair_exists_def list_ex_iff sets)
  have 2: "pair_exists l r (candidate_pairs ?a')" if "(l, r) \<in> set (combinations a)" "pairable l r" for l r
    using add_pairs_complete [OF that] ex by blast
  have "mset (map pair_key (candidate_pairs ?a')) = mset (map pair_key ?ps)"
    using ms by simp
  then have 3: "distinct (map pair_key (candidate_pairs ?a'))"
    using add_pairs_distinct [OF assms] by (metis mset_eq_imp_distinct_iff)
  have "combinations ?a' = combinations a"
    by (simp add: combinations_def form_candidate_pairs_incremental_def Let_def)
  then have "add_pairs (combinations ?a') (candidate_pairs ?a') = candidate_pairs ?a'"
    using 2 by (intro add_pairs_idle) auto
  then have 4: "form_candidate_pairs_incremental ?a' = ?a'"
    by (simp add: form_candidate_pairs_incremental_def [of ?a'] Let_def)
  show ?thesis
    using 1 2 3 4 by (auto simp: Let_def list_all_iff)
qed

theorem ice_incremental_pairs_witness:
  "form_candidate_pairs_incremental (form_candidate_pairs_incremental sample_agent)
     = form_candidate_pairs_incremental sample_agent"
proof -
  have "candidate_pairs sample_agent = []"
    by (simp add: sample_agent_def IceAgent_new_def generate_credentials_def)
  then show ?thesis
    using ice_incremental_pairs [of sample_agent] by (simp add: Let_def)
qed

text \<open>
  The agent after any sequence of operations (credentials, role, gathering, remote candidates, forming
  pairs in both ways, checks): its pairs are sorted from the highest priority, each of compatible
  candidates and with the priority of its candidates, and no remote candidate is there twice.
\<close>

theorem ice_agent_invariant:
  "let a = fold ice_step ops (IceAgent_new hex rng1 rng2 rng3 cmp prt servers) in
   pairs_sorted (candidate_pairs a) \<and> list_all pair_ok (candidate_pairs a) \<and>
   distinct (map endpoint (remote_candidates a))"
proof -
  have "agent_ok (IceAgent_new hex rng1 rng2 rng3 cmp prt servers)"
    by (simp add: agent_ok_def IceAgent_new_def generate_credentials_def pairs_sorted_def)
  from ice.run_inv [OF this, of ops] show ?thesis
    by (simp add: agent_ok_def Let_def)
qed

text \<open>
  C15. The checks select the best pair that works: with remote credentials set, they succeed exactly when
  some pair's binding request does, and then the selected pair is the first such pair, so one of the highest priority among those that
  work when the pairs are sorted; every pair before it has failed.
\<close>

theorem ice_selects_best:
  assumes "ag_remote_ufrag a = Some ufrag" "ag_remote_pwd a = Some pwd" "pairs_sorted (candidate_pairs a)"
    and "auth = \<lparr>auth_local_ufrag = ag_local_ufrag a, auth_local_pwd = ag_local_pwd a, auth_remote_ufrag = ufrag,
      auth_remote_pwd = pwd, auth_controlling = controlling a, auth_tie_breaker = tie_breaker a\<rparr>"
  shows "case perform_connectivity_checks binding a of
      (a', Inr True) \<Rightarrow> \<exists>failed p rest. candidate_pairs a = failed @ p # rest \<and>
        list_all (\<lambda>q. \<not> works binding (Some auth) q) failed \<and> works binding (Some auth) p \<and>
        select_best_pair a' = Some (length failed) \<and> get_selected_pair a' = Some (p\<lparr>cp_state := Succeeded\<rparr>) \<and>
        is_completed a' \<and>
        list_all (\<lambda>q. works binding (Some auth) q \<longrightarrow> cp_priority q \<le> cp_priority p) (candidate_pairs a)
    | (a', Inr False) \<Rightarrow> list_all (\<lambda>q. \<not> works binding (Some auth) q) (candidate_pairs a) \<and>
        (candidate_pairs a \<noteq> [] \<longrightarrow> select_best_pair a' = None)
    | (a', Inl _) \<Rightarrow> False"
proof (cases "dropWhile (\<lambda>p. \<not> works binding (Some auth) p) (candidate_pairs a)")
  case Nil
  then have none: "list_all (\<lambda>q. \<not> works binding (Some auth) q) (candidate_pairs a)"
    by (simp add: list_all_iff)
  show ?thesis
    using none assms(1,2) Nil
    by (simp add: perform_connectivity_checks_def Let_def perform_checks_spec select_best_pair_def
        flip: assms(4) del: dropWhile_eq_Nil_conv)
next
  case (Cons p rest)
  define failed where "failed = takeWhile (\<lambda>p. \<not> works binding (Some auth) p) (candidate_pairs a)"
  have split: "candidate_pairs a = failed @ p # rest"
    using Cons by (metis failed_def takeWhile_dropWhile_id)
  have p: "works binding (Some auth) p"
    using Cons by (simp add: dropWhile_eq_Cons_conv)
  have f: "list_all (\<lambda>q. \<not> works binding (Some auth) q) failed"
    by (auto simp: failed_def list_all_iff dest: set_takeWhileD)
  define a' where "a' = a\<lparr>candidate_pairs := map (\<lambda>p. p\<lparr>cp_state := Failed\<rparr>) failed @ p\<lparr>cp_state := Succeeded\<rparr> # rest\<rparr>"
  have run: "perform_connectivity_checks binding a = (a', Inr True)"
    using assms(1,2) Cons
    by (cases "candidate_pairs a = []")
      (simp_all add: perform_connectivity_checks_def Let_def perform_checks_spec a'_def flip: assms(4) failed_def)
  have "list_all (\<lambda>q. \<not> cp_state q = Succeeded) (map (\<lambda>p. p\<lparr>cp_state := Failed\<rparr>) failed)"
    by (simp add: list_all_iff)
  then have "select_best_pair a' = Some (length failed)" "get_selected_pair a' = Some (p\<lparr>cp_state := Succeeded\<rparr>)"
    "is_completed a'"
    by (simp_all add: a'_def select_best_pair_def get_selected_pair_def is_completed_def find_index_append
        find_append_hit)
  moreover have "list_all (\<lambda>q. works binding (Some auth) q \<longrightarrow> cp_priority q \<le> cp_priority p) (candidate_pairs a)"
    using assms(3) f by (auto simp: split pairs_sorted_def sorted_wrt_append list_all_iff)
  ultimately show ?thesis
    unfolding run using split f p by auto
qed

theorem ice_selects_best_witness:
  "get_remote_address (fst (perform_connectivity_checks (\<lambda>l r cfg. if port r = 3 then Inr l else Inl Timeout)
     (form_candidate_pairs sample_agent))) = Some \<lparr>ip = V4 0xC0A80101, port = 3\<rparr>"
proof -
  let ?b = "\<lambda>l r cfg. if port r = 3 then Inr l else Inl Timeout"
  let ?a = "form_candidate_pairs sample_agent"
  have cr: "ag_remote_ufrag ?a = Some (str ''wxyz'')" "ag_remote_pwd ?a = Some (str ''0123456789abcdef012345'')"
    by (simp_all add: form_candidate_pairs_def sample_agent_def)
  have rem: "cp_remote q \<in> {sample_candidate 4 3, sample_candidate 8 4}" if "q \<in> set (candidate_pairs ?a)" for q
    using that by (auto simp: form_candidate_pairs_def set_combinations CandidatePair_new_def)
      (auto simp: sample_agent_def)
  have ex: "CandidatePair_new (sample_candidate 5 1) (sample_candidate 4 3) \<in> set (candidate_pairs ?a)"
    by (simp add: form_candidate_pairs_def combinations_def sample_agent_def pairable_def sample_candidate_def)
  have w: "works ?b auth q \<longleftrightarrow> ic_port (cp_remote q) = 3" for q auth
    by (simp add: works_def pair_result_def)
  have "pairs_sorted (candidate_pairs ?a)"
    by (simp add: form_candidate_pairs_def)
  note best = ice_selects_best [OF cr this refl, of ?b]
  obtain a' r where run: "perform_connectivity_checks ?b ?a = (a', r)"
    by fastforce
  have "r = Inr True"
    using best ex unfolding run
    by (cases r) (auto simp: w list_all_iff CandidatePair_new_def sample_candidate_def split: bool.splits)
  then obtain p where "get_selected_pair a' = Some (p\<lparr>cp_state := Succeeded\<rparr>)" "p \<in> set (candidate_pairs ?a)"
    "ic_port (cp_remote p) = 3"
    using best unfolding run w by auto
  moreover from this have "cp_remote p = sample_candidate 4 3"
    using rem [of p] by (auto simp: sample_candidate_def)
  ultimately show ?thesis
    unfolding run by (simp add: get_remote_address_def sample_candidate_def)
qed

text \<open>
  The parallel checks leave the pairs in the states, and return the index, of sequential checks in which a request
  that takes longer than the given time fails, for any number of concurrent requests but 0. Only without pairs, or with
  no concurrency allowed, they return nothing: the chunks of size 0 panic.
\<close>

theorem ice_parallel_checks:
  "perform_checks_parallel binding auth ps n limit =
     (if ps = [] \<or> n = 0 then None else Some (perform_checks (in_time limit binding) auth ps))"
  by (auto simp: perform_checks_parallel_def Let_def chunks_loop_eq min_def)

text \<open>
  C35. The check an agent sends passes the peer's authentication: when the peer's server has the
  credentials the two exchanged, the request built for any pair is answered, and the answer gives the
  agent its address as the peer saw it.
\<close>

theorem ice_check_answered:
  assumes "hmac_ok mac" "length tid = 12" "addr_ok source" "0x3A \<notin> set (auth_remote_ufrag ctx)"
    and "s = \<lparr>local_ufrag = auth_remote_ufrag ctx, local_pwd = auth_remote_pwd ctx, remote_ufrag = auth_local_ufrag ctx\<rparr>"
    and "valid_utf8 (auth_remote_ufrag ctx @ 0x3A # auth_local_ufrag ctx)"
    and "length (auth_remote_ufrag ctx @ 0x3A # auth_local_ufrag ctx) < 65000"
  shows "\<exists>request response.
     binding_request_message mac tid (Some (check_config ctx prio)) = Inr request \<and>
     get_priority request = Some prio \<and>
     handle_binding_request mac s (StunMessage_serialize request) source = Respond response \<and>
     binding_response tid (StunMessage_serialize response) = Inr source"
proof -
  obtain request response where 1: "binding_request_message mac tid (Some (check_config ctx prio)) = Inr request"
    "handle_binding_request mac s (StunMessage_serialize request) source = Respond response"
    "binding_response tid (StunMessage_serialize response) = Inr source"
    using stun_check [of mac tid source s "check_config ctx prio"] assms by (auto simp: check_config_def str_def)
  have "get_priority request = Some prio"
    using 1(1) request_with_config_sealed [OF assms(1), of "check_config ctx prio"]
    by (auto simp: check_config_def get_priority_def find_map_unsigned(2) opt_add_def add_ice_controlled_def
        add_ice_controlling_def add_priority_def add_username_def push_attribute_def new_binding_request_def
        split: if_splits)
  with 1 show ?thesis
    by blast
qed

theorem ice_check_answered_witness:
  "\<exists>request response.
     binding_request_message sample_hmac (replicate 12 1) (Some (check_config \<lparr>auth_local_ufrag = str ''h6vY'',
       auth_local_pwd = [], auth_remote_ufrag = str ''evtj'', auth_remote_pwd = str ''VOkJxbRl1RmTxUk'',
       auth_controlling = True, auth_tie_breaker = 5\<rparr> 77)) = Inr request \<and> get_priority request = Some 77 \<and>
     handle_binding_request sample_hmac sample_stun_server (StunMessage_serialize request) sample_addr = Respond response \<and>
     binding_response (replicate 12 1) (StunMessage_serialize response) = Inr sample_addr"
  by (rule ice_check_answered [OF sample_hmac_ok])
    (simp_all add: sample_stun_server_def sample_addr_def str_def valid_utf8_ascii)

text \<open>
  The priority of a pair always takes the local candidate for the controlling agent's. So of two pairs
  whose priorities mirror each other, each agent puts the other one first, whereas the formula of the
  recommendation, which the code's comment quotes, gives both agents the same order.
\<close>

theorem ice_pair_order_differs:
  "compute_pair_priority 5 3 > compute_pair_priority 3 5 \<and>
   (\<exists>l r l' r'. cp_priority (CandidatePair_new l r) > cp_priority (CandidatePair_new l' r') \<and>
      cp_priority (CandidatePair_new r l) < cp_priority (CandidatePair_new r' l'))"
proof -
  have 1: "compute_pair_priority 5 3 > compute_pair_priority 3 5"
    by (simp add: compute_pair_priority_def)
  then have "cp_priority (CandidatePair_new (sample_candidate 5 1) (sample_candidate 3 2))
      > cp_priority (CandidatePair_new (sample_candidate 3 3) (sample_candidate 5 4))"
    "cp_priority (CandidatePair_new (sample_candidate 3 2) (sample_candidate 5 1))
      < cp_priority (CandidatePair_new (sample_candidate 5 4) (sample_candidate 3 3))"
    by (simp_all add: CandidatePair_new_def sample_candidate_def)
  with 1 show ?thesis
    by blast
qed

text \<open>
  The local preference looks for "en" before it looks for the names of tunnels, so an OpenVPN interface is
  preferred like Ethernet, above wireless ones.
\<close>

theorem local_preference_openvpn:
  "calculate_local_preference ''openvpn0'' (V4 a) = 33768 \<and> calculate_local_preference ''wlan0'' (V4 a) = 33268 \<and>
   calculate_local_preference ''vpn0'' (V4 a) = 31768"
  by (simp add: calculate_local_preference_def to_lower_def saturating_add_u16_def saturating_sub_u16_def Let_def)

end
