(* ===== verification/Srtp.thy ===== *)
theory Srtp
  imports Forge_Prelude
begin

unbundle bit_operations_syntax

text \<open>
  The SRTP context of \<^verbatim>\<open>forge-rtp/src/srtp.rs\<close>: profiles and key material, key derivation, the rollover
  counter, the replay window, and protection and unprotection of RTP and RTCP packets with AES in counter
  mode and HMAC-SHA1 or with AES-GCM. The ciphers belong to other crates and are the parameters of the
  record \<open>crypto\<close>, with what the code relies on in \<open>crypto_ok\<close>. A packet protected by one side is
  recovered by the other, through reordering and the wrap of the sequence number; no packet is accepted
  twice; the replay window is exact; a refused packet changes nothing.
\<close>

section \<open>Definitions\<close>

subsection \<open>Ciphers\<close>

text \<open>
  The constructors fail with the text of their error or give the cipher: the encryption of a block of 16
  octets, and for GCM encryption and decryption with a detached tag.
\<close>

record gcm =
  gcm_encrypt :: "bytes \<Rightarrow> bytes \<Rightarrow> bytes \<Rightarrow> string + (bytes \<times> bytes)"
  gcm_decrypt :: "bytes \<Rightarrow> bytes \<Rightarrow> bytes \<Rightarrow> bytes \<Rightarrow> string + bytes"

record crypto =
  aes128 :: "bytes \<Rightarrow> string + (bytes \<Rightarrow> bytes)"
  aes256 :: "bytes \<Rightarrow> string + (bytes \<Rightarrow> bytes)"
  hmac_sha :: hmac
  gcm128 :: "bytes \<Rightarrow> string + gcm"
  gcm256 :: "bytes \<Rightarrow> string + gcm"

subsection \<open>Profiles and keys\<close>

datatype SrtpProfile = Aes128CmHmacSha1_80 | Aes128CmHmacSha1_32 | AeadAes128Gcm | AeadAes256Gcm

fun master_key_len :: "SrtpProfile \<Rightarrow> nat" where
  "master_key_len Aes128CmHmacSha1_80 = 16"
| "master_key_len Aes128CmHmacSha1_32 = 16"
| "master_key_len AeadAes128Gcm = 16"
| "master_key_len AeadAes256Gcm = 32"

fun master_salt_len :: "SrtpProfile \<Rightarrow> nat" where
  "master_salt_len Aes128CmHmacSha1_80 = 14"
| "master_salt_len Aes128CmHmacSha1_32 = 14"
| "master_salt_len AeadAes128Gcm = 12"
| "master_salt_len AeadAes256Gcm = 12"

fun auth_tag_len :: "SrtpProfile \<Rightarrow> nat" where
  "auth_tag_len Aes128CmHmacSha1_80 = 10"
| "auth_tag_len Aes128CmHmacSha1_32 = 4"
| "auth_tag_len AeadAes128Gcm = 16"
| "auth_tag_len AeadAes256Gcm = 16"

text \<open>The format \<^verbatim>\<open>{:#04x}\<close>: at least two digits after the prefix.\<close>

definition show_hex_04 :: "nat \<Rightarrow> string" where
  "show_hex_04 n = ''0x'' @ (if n < 16 then ''0'' else []) @ hex_digits n"

definition SrtpProfile_try_from :: "u16 \<Rightarrow> ForgeError + SrtpProfile" where
  "SrtpProfile_try_from v =
     (if v = 0x0001 then Inr Aes128CmHmacSha1_80
      else if v = 0x0002 then Inr Aes128CmHmacSha1_32
      else if v = 0x0007 then Inr AeadAes128Gcm
      else if v = 0x0008 then Inr AeadAes256Gcm
      else Inl (Srtp (''Unknown SRTP profile: '' @ show_hex_04 (unat v))))"

record SrtpKeyMaterial =
  master_key :: bytes
  master_salt :: bytes
  km_profile :: SrtpProfile

definition SrtpKeyMaterial_new :: "bytes \<Rightarrow> bytes \<Rightarrow> SrtpProfile \<Rightarrow> ForgeError + SrtpKeyMaterial" where
  "SrtpKeyMaterial_new key salt prof =
     (if length key \<noteq> master_key_len prof
      then Inl (Srtp (''Invalid master key length: expected '' @ show_nat (master_key_len prof) @ '', got ''
             @ show_nat (length key)))
      else if length salt \<noteq> master_salt_len prof
      then Inl (Srtp (''Invalid master salt length: expected '' @ show_nat (master_salt_len prof) @ '', got ''
             @ show_nat (length salt)))
      else Inr \<lparr>master_key = key, master_salt = salt, km_profile = prof\<rparr>)"

record DerivedKeys =
  encryption_key :: bytes
  authentication_key :: "bytes option"
  dk_salt :: bytes

subsection \<open>Counter mode\<close>

text \<open>The increment of the counter block, from its last octet backwards while there is a carry.\<close>

fun incr_rev :: "bytes \<Rightarrow> bytes" where
  "incr_rev [] = []"
| "incr_rev (b # bs) = (if b + 1 \<noteq> 0 then (b + 1) # bs else 0 # incr_rev bs)"

definition incr_counter :: "bytes \<Rightarrow> bytes" where
  "incr_counter c = rev (incr_rev (rev c))"

text \<open>The loop of the key derivation: \<open>n\<close> octets of the encrypted counter blocks.\<close>

function key_stream :: "(bytes \<Rightarrow> bytes) \<Rightarrow> bytes \<Rightarrow> nat \<Rightarrow> bytes" where
  "key_stream enc ctr n =
     (if n = 0 then [] else take (min n 16) (enc ctr) @ key_stream enc (incr_counter ctr) (n - 16))"
  by pat_completeness auto
termination by (relation "measure (\<lambda>(e, c, n). n)") auto

declare key_stream.simps [simp del]

definition aes_cm_prf :: "crypto \<Rightarrow> SrtpKeyMaterial \<Rightarrow> bytes \<Rightarrow> nat \<Rightarrow> ForgeError + bytes" where
  "aes_cm_prf cr km iv out_len =
     (let counter_block = take 16 iv @ replicate (16 - length iv) 0 in
      if length (master_key km) = 16 then
        (case aes128 cr (master_key km) of
           Inl e \<Rightarrow> Inl (Srtp (''Failed to create AES-128 cipher: '' @ e))
         | Inr enc \<Rightarrow> Inr (key_stream enc counter_block out_len))
      else if length (master_key km) = 32 then
        (case aes256 cr (master_key km) of
           Inl e \<Rightarrow> Inl (Srtp (''Failed to create AES-256 cipher: '' @ e))
         | Inr enc \<Rightarrow> Inr (key_stream enc counter_block out_len))
      else Inl (Srtp (''Invalid master key length: expected 16 or 32 bytes, got ''
             @ show_nat (length (master_key km)))))"

text \<open>XOR of a block into a buffer from an offset on.\<close>

definition xor_at :: "nat \<Rightarrow> bytes \<Rightarrow> bytes \<Rightarrow> bytes" where
  "xor_at off xs buf =
     take off buf @ xor_bytes (take (length xs) (drop off buf)) xs @ drop (off + length xs) buf"

text \<open>The key derivation rate is 0, so the quotient of the packet index is 0.\<close>

definition derive_key :: "crypto \<Rightarrow> SrtpKeyMaterial \<Rightarrow> u8 \<Rightarrow> u32 \<Rightarrow> u64 \<Rightarrow> nat \<Rightarrow> ForgeError + bytes" where
  "derive_key cr km label ssrc index out_len =
     (let r = 0 :: nat; quot = (if r = 0 then 0 else drop_bit r index) :: u64;
          x = (replicate 16 0)[7 := label];
          x1 = take 8 x @ drop 2 (to_be64 quot) @ drop 14 x in
      aes_cm_prf cr km (xor_at 0 (master_salt km) x1) out_len)"

definition derive_session_keys_with_labels ::
    "crypto \<Rightarrow> SrtpKeyMaterial \<Rightarrow> u32 \<Rightarrow> u64 \<Rightarrow> u8 \<Rightarrow> u8 \<Rightarrow> u8 \<Rightarrow> ForgeError + DerivedKeys" where
  "derive_session_keys_with_labels cr km ssrc index enc_label auth_label salt_label =
     (if km_profile km \<in> {Aes128CmHmacSha1_80, Aes128CmHmacSha1_32} then
        (case derive_key cr km enc_label ssrc index 16 of Inl e \<Rightarrow> Inl e
         | Inr enc_key \<Rightarrow>
        (case derive_key cr km auth_label ssrc index 20 of Inl e \<Rightarrow> Inl e
         | Inr auth_key \<Rightarrow>
        (case derive_key cr km salt_label ssrc index 14 of Inl e \<Rightarrow> Inl e
         | Inr salt \<Rightarrow>
             Inr \<lparr>encryption_key = enc_key, authentication_key = Some auth_key, dk_salt = salt\<rparr>)))
      else
        (case derive_key cr km enc_label ssrc index (master_key_len (km_profile km)) of Inl e \<Rightarrow> Inl e
         | Inr enc_key \<Rightarrow>
        (case derive_key cr km salt_label ssrc index 12 of Inl e \<Rightarrow> Inl e
         | Inr salt \<Rightarrow> Inr \<lparr>encryption_key = enc_key, authentication_key = None, dk_salt = salt\<rparr>)))"

definition derive_srtp_session_keys :: "crypto \<Rightarrow> SrtpKeyMaterial \<Rightarrow> u32 \<Rightarrow> u64 \<Rightarrow> ForgeError + DerivedKeys" where
  "derive_srtp_session_keys cr km ssrc index =
     derive_session_keys_with_labels cr km ssrc index 0x00 0x01 0x02"

definition derive_srtcp_session_keys :: "crypto \<Rightarrow> SrtpKeyMaterial \<Rightarrow> u32 \<Rightarrow> u64 \<Rightarrow> ForgeError + DerivedKeys" where
  "derive_srtcp_session_keys cr km ssrc index =
     derive_session_keys_with_labels cr km ssrc index 0x03 0x04 0x05"

subsection \<open>Rollover counter\<close>

record RocTracker =
  roc :: u32
  rt_highest_seq :: u16
  s_l :: u16

definition RocTracker_new :: RocTracker where
  "RocTracker_new = \<lparr>roc = 0, rt_highest_seq = 0, s_l = 0\<rparr>"

definition ext_index :: "u32 \<Rightarrow> u16 \<Rightarrow> u64" where
  "ext_index r seq = push_bit 16 (ucast r) OR ucast seq"

definition RocTracker_get_index :: "RocTracker \<Rightarrow> u16 \<Rightarrow> u64" where
  "RocTracker_get_index t seq = ext_index (roc t) seq"

definition RocTracker_current_index :: "RocTracker \<Rightarrow> u64" where
  "RocTracker_current_index t = ext_index (roc t) (rt_highest_seq t)"

definition estimate :: "RocTracker \<Rightarrow> u16 \<Rightarrow> u32" where
  "estimate t seq =
     (let delta = uint seq - uint (s_l t) in
      if delta > 32768 then roc t - 1 else if delta < -32768 then roc t + 1 else roc t)"

definition RocTracker_update :: "RocTracker \<Rightarrow> u16 \<Rightarrow> RocTracker" where
  "RocTracker_update t seq =
     (if rt_highest_seq t = 0 \<and> roc t = 0 then t\<lparr>rt_highest_seq := seq, s_l := seq\<rparr>
      else
        (let v = estimate t seq; current_index = ext_index (roc t) (rt_highest_seq t);
             new_index = ext_index v seq in
         if new_index > current_index then t\<lparr>rt_highest_seq := seq, roc := v, s_l := seq\<rparr> else t))"

definition RocTracker_get_roc :: "RocTracker \<Rightarrow> u16 \<Rightarrow> u32" where
  "RocTracker_get_roc t seq = (if rt_highest_seq t = 0 \<and> roc t = 0 then 0 else estimate t seq)"

subsection \<open>Replay window\<close>

record ReplayWindow =
  window_size :: nat
  rw_highest_seq :: u64
  bitmap :: u64

definition ReplayWindow_new :: "nat \<Rightarrow> ReplayWindow" where
  "ReplayWindow_new n = \<lparr>window_size = min n 64, rw_highest_seq = 0, bitmap = 0\<rparr>"

definition ReplayWindow_check :: "ReplayWindow \<Rightarrow> u64 \<Rightarrow> bool" where
  "ReplayWindow_check w seq =
     (if seq > rw_highest_seq w then False
      else
        (let delta = rw_highest_seq w - seq in
         if delta \<ge> of_nat (window_size w) then True
         else bitmap w AND push_bit (unat delta) 1 \<noteq> 0))"

definition ReplayWindow_update :: "ReplayWindow \<Rightarrow> u64 \<Rightarrow> ReplayWindow" where
  "ReplayWindow_update w seq =
     (if seq > rw_highest_seq w then
        (let delta = seq - rw_highest_seq w in
         w\<lparr>bitmap := (if delta < 64 then push_bit (unat delta) (bitmap w) OR 1 else 1), rw_highest_seq := seq\<rparr>)
      else
        (let delta = rw_highest_seq w - seq in
         if delta < 64 then w\<lparr>bitmap := bitmap w OR push_bit (unat delta) 1\<rparr> else w))"

subsection \<open>The context\<close>

record SrtpContext =
  local_key :: "SrtpKeyMaterial option"
  remote_key :: "SrtpKeyMaterial option"
  replay_windows :: "(u32 \<times> ReplayWindow) list"
  srtcp_replay_windows :: "(u32 \<times> ReplayWindow) list"
  local_roc :: "(u32 \<times> RocTracker) list"
  remote_roc :: "(u32 \<times> RocTracker) list"
  local_srtcp_index :: "(u32 \<times> u32) list"

definition MAX_TRACKED_SSRCS :: nat where
  "MAX_TRACKED_SSRCS = 256"

text \<open>\<^verbatim>\<open>entry(k).or_insert_with(d)\<close>: the value there is, or the default.\<close>

definition entry_or :: "'v \<Rightarrow> 'k \<Rightarrow> ('k \<times> 'v) list \<Rightarrow> 'v" where
  "entry_or d k m = (case map_of m k of Some v \<Rightarrow> v | None \<Rightarrow> d)"

definition local_roc_for :: "(u32 \<times> RocTracker) list \<Rightarrow> u32 \<Rightarrow> ForgeError + RocTracker" where
  "local_roc_for m ssrc =
     (if map_of m ssrc = None \<and> length m \<ge> MAX_TRACKED_SSRCS
      then Inl (Srtp (''too many outbound SSRCs (limit '' @ show_nat MAX_TRACKED_SSRCS @ '')''))
      else Inr (entry_or RocTracker_new ssrc m))"

definition SrtpContext_new :: SrtpContext where
  "SrtpContext_new =
     \<lparr>local_key = None, remote_key = None, replay_windows = [], srtcp_replay_windows = [], local_roc = [],
      remote_roc = [], local_srtcp_index = []\<rparr>"

definition SrtpContext_with_keys :: "SrtpKeyMaterial \<Rightarrow> SrtpKeyMaterial \<Rightarrow> SrtpContext" where
  "SrtpContext_with_keys l r =
     \<lparr>local_key = Some l, remote_key = Some r, replay_windows = [], srtcp_replay_windows = [], local_roc = [],
      remote_roc = [], local_srtcp_index = []\<rparr>"

definition set_local_key :: "SrtpKeyMaterial \<Rightarrow> SrtpContext \<Rightarrow> SrtpContext" where
  "set_local_key k c = c\<lparr>local_key := Some k\<rparr>"

definition set_remote_key :: "SrtpKeyMaterial \<Rightarrow> SrtpContext \<Rightarrow> SrtpContext" where
  "set_remote_key k c = c\<lparr>remote_key := Some k\<rparr>"

definition rekey :: "SrtpKeyMaterial \<Rightarrow> SrtpKeyMaterial \<Rightarrow> SrtpContext \<Rightarrow> SrtpContext" where
  "rekey l r c = c\<lparr>local_key := Some l, remote_key := Some r\<rparr>"

definition local_packet_index :: "SrtpContext \<Rightarrow> u64" where
  "local_packet_index c = fold max (map (\<lambda>(s, t). RocTracker_current_index t) (local_roc c)) 0"

definition local_packet_index_for :: "SrtpContext \<Rightarrow> u32 \<Rightarrow> u64 option" where
  "local_packet_index_for c ssrc = map_option RocTracker_current_index (map_of (local_roc c) ssrc)"

definition local_packets_sent :: "SrtpContext \<Rightarrow> u32 \<Rightarrow> u64" where
  "local_packets_sent c ssrc = (case local_packet_index_for c ssrc of None \<Rightarrow> 0 | Some i \<Rightarrow> i + 1)"

definition is_enabled :: "SrtpContext \<Rightarrow> bool" where
  "is_enabled c \<longleftrightarrow> local_key c \<noteq> None \<or> remote_key c \<noteq> None"

text \<open>
  The length of the header, with the checked arithmetic of the source. The two callers do the same
  computation.
\<close>

definition srtp_header_len :: "bytes \<Rightarrow> ForgeError + nat" where
  "srtp_header_len packet =
     (let extension = drop_bit 4 (packet ! 0) AND 1; csrc_count = unat (packet ! 0 AND 0x0F) in
      case checked_add_usize 12 (csrc_count * 4) of
        None \<Rightarrow> Inl (Srtp ''RTP header length overflow'')
      | Some header_len \<Rightarrow>
          if extension = 1 then
            (case checked_add_usize header_len 4 of
               None \<Rightarrow> Inl (Srtp ''RTP extension length overflow'')
             | Some after_csrc \<Rightarrow>
                 if length packet < after_csrc then Inl (Srtp ''Invalid RTP header extension'')
                 else
                   (case checked_mul_usize (unat (be16 (packet ! (header_len + 2)) (packet ! (header_len + 3)))) 4 of
                      None \<Rightarrow> Inl (Srtp ''RTP extension length overflow'')
                    | Some ext_bytes \<Rightarrow>
                        (case checked_add_usize after_csrc ext_bytes of
                           None \<Rightarrow> Inl (Srtp ''RTP extension length overflow'')
                         | Some n \<Rightarrow> Inr n)))
          else Inr header_len)"

definition srtp_sequence :: "bytes \<Rightarrow> u16" where
  "srtp_sequence packet = be16 (packet ! 2) (packet ! 3)"

definition srtp_ssrc :: "bytes \<Rightarrow> u32" where
  "srtp_ssrc packet = be32 (packet ! 8) (packet ! 9) (packet ! 10) (packet ! 11)"

subsection \<open>Encryption of packets\<close>

function ctr_xor :: "(bytes \<Rightarrow> bytes) \<Rightarrow> bytes \<Rightarrow> bytes \<Rightarrow> bytes" where
  "ctr_xor enc ctr payload =
     (if payload = [] then []
      else xor_bytes (take 16 payload) (enc ctr) @ ctr_xor enc (incr_counter ctr) (drop 16 payload))"
  by pat_completeness auto
termination by (relation "measure (\<lambda>(e, c, p). length p)") (auto simp: neq_Nil_conv)

declare ctr_xor.simps [simp del]

definition cm_iv :: "bytes \<Rightarrow> u32 \<Rightarrow> u64 \<Rightarrow> bytes" where
  "cm_iv salt ssrc packet_index =
     xor_at 8 (drop 2 (to_be64 packet_index)) (xor_at 4 (to_be32 ssrc) (salt @ replicate (16 - length salt) 0))"

definition protect_aes_cm ::
    "crypto \<Rightarrow> bytes \<Rightarrow> nat \<Rightarrow> DerivedKeys \<Rightarrow> u32 \<Rightarrow> u32 \<Rightarrow> u64 \<Rightarrow> SrtpProfile \<Rightarrow> ForgeError + bytes" where
  "protect_aes_cm cr packet header_len keys ssrc r packet_index prof =
     (let iv = cm_iv (dk_salt keys) ssrc packet_index in
      case aes128 cr (encryption_key keys) of
        Inl e \<Rightarrow> Inl (Srtp (''Failed to create AES cipher: '' @ e))
      | Inr enc \<Rightarrow>
          (let encrypted = take header_len packet @ ctr_xor enc iv (drop header_len packet) in
           case authentication_key keys of
             None \<Rightarrow> Inl (Srtp ''Missing authentication key'')
           | Some auth_key \<Rightarrow>
               (case hmac_sha cr auth_key (encrypted @ to_be32 r) of
                  Inl e \<Rightarrow> Inl (Srtp (''Failed to create HMAC: '' @ e))
                | Inr auth_tag \<Rightarrow> Inr (encrypted @ take (auth_tag_len prof) auth_tag))))"

definition gcm_nonce :: "bytes \<Rightarrow> u32 \<Rightarrow> u32 \<Rightarrow> u16 \<Rightarrow> bytes" where
  "gcm_nonce salt ssrc r seq =
     xor_at 10 (to_be16 seq) (xor_at 6 (to_be32 r) (xor_at 2 (to_be32 ssrc)
       (salt @ replicate (12 - length salt) 0)))"

definition gcm_cipher :: "crypto \<Rightarrow> SrtpProfile \<Rightarrow> bytes \<Rightarrow> ForgeError + gcm" where
  "gcm_cipher cr prof key =
     (case (if prof = AeadAes256Gcm then gcm256 cr key else gcm128 cr key) of
        Inl e \<Rightarrow> Inl (Srtp (''Failed to create AES-GCM cipher: '' @ e))
      | Inr g \<Rightarrow> Inr g)"

definition protect_aes_gcm ::
    "crypto \<Rightarrow> bytes \<Rightarrow> nat \<Rightarrow> DerivedKeys \<Rightarrow> u32 \<Rightarrow> u32 \<Rightarrow> u16 \<Rightarrow> SrtpProfile \<Rightarrow> ForgeError + bytes" where
  "protect_aes_gcm cr packet header_len keys ssrc r seq prof =
     (let nonce = gcm_nonce (dk_salt keys) ssrc r seq in
      case gcm_cipher cr prof (encryption_key keys) of
        Inl e \<Rightarrow> Inl e
      | Inr g \<Rightarrow>
          (case gcm_encrypt g nonce (take header_len packet) (drop header_len packet) of
             Inl e \<Rightarrow> Inl (Srtp (''AES-GCM encryption failed: '' @ e))
           | Inr (payload, tag) \<Rightarrow> Inr (take header_len packet @ payload @ tag)))"

definition is_cm :: "SrtpProfile \<Rightarrow> bool" where
  "is_cm prof \<longleftrightarrow> prof \<in> {Aes128CmHmacSha1_80, Aes128CmHmacSha1_32}"

definition protect_rtp :: "crypto \<Rightarrow> bytes \<Rightarrow> SrtpContext \<Rightarrow> SrtpContext \<times> (ForgeError + bytes)" where
  "protect_rtp cr packet c =
     (case local_key c of
        None \<Rightarrow> (c, Inr packet)
      | Some km \<Rightarrow>
          if length packet < 12 then (c, Inl (Srtp ''RTP packet too short''))
          else
            (let seq = srtp_sequence packet; ssrc = srtp_ssrc packet in
             case srtp_header_len packet of
               Inl e \<Rightarrow> (c, Inl e)
             | Inr header_len \<Rightarrow>
                 if length packet < header_len then (c, Inl (Srtp ''Invalid RTP header''))
                 else
                   (case local_roc_for (local_roc c) ssrc of
                      Inl e \<Rightarrow> (c, Inl e)
                    | Inr t0 \<Rightarrow>
                        (let t = RocTracker_update t0 seq; c1 = c\<lparr>local_roc := hm_insert ssrc t (local_roc c)\<rparr>;
                             r = roc t; packet_index = RocTracker_get_index t seq in
                         case derive_srtp_session_keys cr km ssrc packet_index of
                           Inl e \<Rightarrow> (c1, Inl e)
                         | Inr keys \<Rightarrow>
                             (c1, if is_cm (km_profile km)
                                  then protect_aes_cm cr packet header_len keys ssrc r packet_index (km_profile km)
                                  else protect_aes_gcm cr packet header_len keys ssrc r seq (km_profile km))))))"

definition unprotect_aes_cm ::
    "crypto \<Rightarrow> bytes \<Rightarrow> nat \<Rightarrow> DerivedKeys \<Rightarrow> u32 \<Rightarrow> u32 \<Rightarrow> u64 \<Rightarrow> SrtpProfile \<Rightarrow> ForgeError + bytes" where
  "unprotect_aes_cm cr packet header_len keys ssrc r packet_index prof =
     (let tag_len = auth_tag_len prof in
      if length packet < header_len + tag_len then Inl (Srtp ''Packet too short'')
      else
        (let encrypted_len = length packet - tag_len; encrypted_packet = take encrypted_len packet;
             received_tag = drop encrypted_len packet in
         case authentication_key keys of
           None \<Rightarrow> Inl (Srtp ''Missing authentication key'')
         | Some auth_key \<Rightarrow>
             (case hmac_sha cr auth_key (encrypted_packet @ to_be32 r) of
                Inl e \<Rightarrow> Inl (Srtp (''Failed to create HMAC: '' @ e))
              | Inr computed_tag \<Rightarrow>
                  if take tag_len computed_tag \<noteq> received_tag then Inl (Srtp ''Authentication failed'')
                  else
                    (case aes128 cr (encryption_key keys) of
                       Inl e \<Rightarrow> Inl (Srtp (''Failed to create AES cipher: '' @ e))
                     | Inr enc \<Rightarrow>
                         Inr (take header_len encrypted_packet
                           @ ctr_xor enc (cm_iv (dk_salt keys) ssrc packet_index) (drop header_len encrypted_packet))))))"

definition unprotect_aes_gcm ::
    "crypto \<Rightarrow> bytes \<Rightarrow> nat \<Rightarrow> DerivedKeys \<Rightarrow> u32 \<Rightarrow> u32 \<Rightarrow> u16 \<Rightarrow> SrtpProfile \<Rightarrow> ForgeError + bytes" where
  "unprotect_aes_gcm cr packet header_len keys ssrc r seq prof =
     (if length packet < header_len + 16 then Inl (Srtp ''SRTP packet too short for AES-GCM'')
      else
        (let tag_start = length packet - 16; tag = drop tag_start packet;
             ciphertext = drop header_len (take tag_start packet) in
         case gcm_cipher cr prof (encryption_key keys) of
           Inl e \<Rightarrow> Inl e
         | Inr g \<Rightarrow>
             (case gcm_decrypt g (gcm_nonce (dk_salt keys) ssrc r seq) (take header_len packet) ciphertext tag of
                Inl e \<Rightarrow> Inl (Srtp (''AES-GCM decryption/verification failed: '' @ e))
              | Inr plain \<Rightarrow> Inr (take header_len packet @ plain))))"

text \<open>The check of the replay window of an SSRC, and of the number of SSRCs for a new one.\<close>

definition replay_check :: "SrtpContext \<Rightarrow> u32 \<Rightarrow> u64 \<Rightarrow> ForgeError option" where
  "replay_check c ssrc packet_index =
     (case map_of (replay_windows c) ssrc of
        Some w \<Rightarrow> if ReplayWindow_check w packet_index then Some (Srtp ''Replay attack detected'') else None
      | None \<Rightarrow>
          if length (replay_windows c) \<ge> MAX_TRACKED_SSRCS
          then Some (Srtp (''too many inbound SSRCs (limit '' @ show_nat MAX_TRACKED_SSRCS @ '')''))
          else None)"

definition unprotect_rtp :: "crypto \<Rightarrow> bytes \<Rightarrow> SrtpContext \<Rightarrow> SrtpContext \<times> (ForgeError + bytes)" where
  "unprotect_rtp cr packet c =
     (case remote_key c of
        None \<Rightarrow> (c, Inr packet)
      | Some km \<Rightarrow>
          if length packet < 12 then (c, Inl (Srtp ''SRTP packet too short''))
          else
            (let seq = srtp_sequence packet; ssrc = srtp_ssrc packet in
             case srtp_header_len packet of
               Inl e \<Rightarrow> (c, Inl e)
             | Inr header_len \<Rightarrow>
                 (case checked_add_usize header_len (auth_tag_len (km_profile km)) of
                    None \<Rightarrow> (c, Inl (Srtp ''SRTP packet length overflow''))
                  | Some header_plus_tag \<Rightarrow>
                      if length packet < header_plus_tag then (c, Inl (Srtp ''SRTP packet too short for auth tag''))
                      else
                        (let r = (case map_of (remote_roc c) ssrc of
                               None \<Rightarrow> 0 | Some t \<Rightarrow> RocTracker_get_roc t seq);
                             packet_index = ext_index r seq in
                         case replay_check c ssrc packet_index of
                           Some e \<Rightarrow> (c, Inl e)
                         | None \<Rightarrow>
                             (case derive_srtp_session_keys cr km ssrc packet_index of
                                Inl e \<Rightarrow> (c, Inl e)
                              | Inr keys \<Rightarrow>
                                  (case (if is_cm (km_profile km)
                                         then unprotect_aes_cm cr packet header_len keys ssrc r packet_index (km_profile km)
                                         else unprotect_aes_gcm cr packet header_len keys ssrc r seq (km_profile km)) of
                                     Inl e \<Rightarrow> (c, Inl e)
                                   | Inr rtp \<Rightarrow>
                                       (c\<lparr>replay_windows := hm_insert ssrc
                                            (ReplayWindow_update (entry_or (ReplayWindow_new 64) ssrc (replay_windows c))
                                              packet_index) (replay_windows c),
                                          remote_roc := hm_insert ssrc
                                            (RocTracker_update (entry_or RocTracker_new ssrc (remote_roc c)) seq)
                                            (remote_roc c)\<rparr>, Inr rtp)))))))"

subsection \<open>RTCP\<close>

definition rtcp_ssrc :: "bytes \<Rightarrow> u32" where
  "rtcp_ssrc packet = be32 (packet ! 4) (packet ! 5) (packet ! 6) (packet ! 7)"

definition rtcp_cm_iv :: "bytes \<Rightarrow> u32 \<Rightarrow> u32 \<Rightarrow> bytes" where
  "rtcp_cm_iv salt ssrc index =
     xor_at 10 (to_be32 index) (xor_at 4 (to_be32 ssrc) (salt @ replicate (16 - length salt) 0))"

definition rtcp_gcm_nonce :: "bytes \<Rightarrow> u32 \<Rightarrow> u32 \<Rightarrow> bytes" where
  "rtcp_gcm_nonce salt ssrc index =
     xor_at 8 (to_be32 index) (xor_at 2 (to_be32 ssrc) (salt @ replicate (12 - length salt) 0))"

definition e_index_field :: "u32 \<Rightarrow> u32" where
  "e_index_field index = push_bit 31 1 OR index"

definition protect_rtcp_aes_cm ::
    "crypto \<Rightarrow> bytes \<Rightarrow> DerivedKeys \<Rightarrow> u32 \<Rightarrow> u32 \<Rightarrow> SrtpProfile \<Rightarrow> ForgeError + bytes" where
  "protect_rtcp_aes_cm cr packet keys ssrc index prof =
     (case aes128 cr (encryption_key keys) of
        Inl e \<Rightarrow> Inl (Srtp (''Failed to create AES cipher: '' @ e))
      | Inr enc \<Rightarrow>
          (let encrypted = take 8 packet @ ctr_xor enc (rtcp_cm_iv (dk_salt keys) ssrc index) (drop 8 packet)
                 @ to_be32 (e_index_field index) in
           case authentication_key keys of
             None \<Rightarrow> Inl (Srtp ''Missing authentication key'')
           | Some auth_key \<Rightarrow>
               (case hmac_sha cr auth_key encrypted of
                  Inl e \<Rightarrow> Inl (Srtp (''Failed to create HMAC: '' @ e))
                | Inr auth_tag \<Rightarrow> Inr (encrypted @ take (auth_tag_len prof) auth_tag))))"

definition protect_rtcp_aes_gcm ::
    "crypto \<Rightarrow> bytes \<Rightarrow> DerivedKeys \<Rightarrow> u32 \<Rightarrow> u32 \<Rightarrow> SrtpProfile \<Rightarrow> ForgeError + bytes" where
  "protect_rtcp_aes_gcm cr packet keys ssrc index prof =
     (let e_index_bytes = to_be32 (e_index_field index); aad = take 8 packet @ e_index_bytes in
      case gcm_cipher cr prof (encryption_key keys) of
        Inl e \<Rightarrow> Inl e
      | Inr g \<Rightarrow>
          (case gcm_encrypt g (rtcp_gcm_nonce (dk_salt keys) ssrc index) aad (drop 8 packet) of
             Inl e \<Rightarrow> Inl (Srtp (''AES-GCM encryption failed: '' @ e))
           | Inr (payload, tag) \<Rightarrow> Inr (take 8 packet @ payload @ e_index_bytes @ tag)))"

definition protect_rtcp :: "crypto \<Rightarrow> bytes \<Rightarrow> SrtpContext \<Rightarrow> SrtpContext \<times> (ForgeError + bytes)" where
  "protect_rtcp cr packet c =
     (case local_key c of
        None \<Rightarrow> (c, Inr packet)
      | Some km \<Rightarrow>
          if length packet < 8 then (c, Inl (Srtp ''RTCP packet too short''))
          else
            (let ssrc = rtcp_ssrc packet in
             if map_of (local_srtcp_index c) ssrc = None \<and> length (local_srtcp_index c) \<ge> MAX_TRACKED_SSRCS
             then (c, Inl (Srtp (''too many outbound RTCP SSRCs (limit '' @ show_nat MAX_TRACKED_SSRCS @ '')'')))
             else
               (let counter = entry_or 0 ssrc (local_srtcp_index c); index = counter AND 0x7FFFFFFF;
                    c1 = c\<lparr>local_srtcp_index := hm_insert ssrc ((counter + 1) AND 0x7FFFFFFF) (local_srtcp_index c)\<rparr> in
                case derive_srtcp_session_keys cr km ssrc (ucast index) of
                  Inl e \<Rightarrow> (c1, Inl e)
                | Inr keys \<Rightarrow>
                    (c1, if is_cm (km_profile km) then protect_rtcp_aes_cm cr packet keys ssrc index (km_profile km)
                         else protect_rtcp_aes_gcm cr packet keys ssrc index (km_profile km)))))"

definition unprotect_rtcp_aes_cm ::
    "crypto \<Rightarrow> bytes \<Rightarrow> DerivedKeys \<Rightarrow> u32 \<Rightarrow> u32 \<Rightarrow> SrtpProfile \<Rightarrow> ForgeError + bytes" where
  "unprotect_rtcp_aes_cm cr packet keys ssrc index prof =
     (let tag_len = auth_tag_len prof; encrypted_len = length packet - tag_len;
          encrypted_packet = take encrypted_len packet; received_tag = drop encrypted_len packet in
      case authentication_key keys of
        None \<Rightarrow> Inl (Srtp ''Missing authentication key'')
      | Some auth_key \<Rightarrow>
          (case hmac_sha cr auth_key encrypted_packet of
             Inl e \<Rightarrow> Inl (Srtp (''Failed to create HMAC: '' @ e))
           | Inr computed_tag \<Rightarrow>
               if take tag_len computed_tag \<noteq> received_tag then Inl (Srtp ''SRTCP authentication failed'')
               else
                 (let decrypted = take (encrypted_len - 4) encrypted_packet in
                  case aes128 cr (encryption_key keys) of
                    Inl e \<Rightarrow> Inl (Srtp (''Failed to create AES cipher: '' @ e))
                  | Inr enc \<Rightarrow>
                      Inr (take 8 decrypted
                        @ ctr_xor enc (rtcp_cm_iv (dk_salt keys) ssrc index) (drop 8 decrypted)))))"

definition unprotect_rtcp_aes_gcm ::
    "crypto \<Rightarrow> bytes \<Rightarrow> DerivedKeys \<Rightarrow> u32 \<Rightarrow> u32 \<Rightarrow> SrtpProfile \<Rightarrow> ForgeError + bytes" where
  "unprotect_rtcp_aes_gcm cr packet keys ssrc index prof =
     (if length packet < 8 + 4 + 16 then Inl (Srtp ''SRTCP packet too short for AES-GCM'')
      else
        (let tag_start = length packet - 16; tag = drop tag_start packet; e_index_start = tag_start - 4;
             e_index_bytes = drop e_index_start (take tag_start packet); aad = take 8 packet @ e_index_bytes;
             ciphertext = drop 8 (take e_index_start packet) in
         case gcm_cipher cr prof (encryption_key keys) of
           Inl e \<Rightarrow> Inl e
         | Inr g \<Rightarrow>
             (case gcm_decrypt g (rtcp_gcm_nonce (dk_salt keys) ssrc index) aad ciphertext tag of
                Inl e \<Rightarrow> Inl (Srtp (''SRTCP AES-GCM decryption/verification failed: '' @ e))
              | Inr plain \<Rightarrow> Inr (take 8 packet @ plain))))"

definition unprotect_rtcp :: "crypto \<Rightarrow> bytes \<Rightarrow> SrtpContext \<Rightarrow> SrtpContext \<times> (ForgeError + bytes)" where
  "unprotect_rtcp cr packet c =
     (case remote_key c of
        None \<Rightarrow> (c, Inr packet)
      | Some km \<Rightarrow>
          (let tag_len = auth_tag_len (km_profile km) in
           if length packet < 8 + 4 + tag_len then (c, Inl (Srtp ''SRTCP packet too short''))
           else
             (let o1 = length packet - tag_len - 4;
                  e_index = be32 (packet ! o1) (packet ! (o1 + 1)) (packet ! (o1 + 2)) (packet ! (o1 + 3));
                  index = e_index AND 0x7FFFFFFF in
              if drop_bit 31 e_index AND 1 = 0 then (c, Inl (Srtp ''SRTCP packet not encrypted (E=0)''))
              else
                (let ssrc = rtcp_ssrc packet in
                 if (case map_of (srtcp_replay_windows c) ssrc of
                       None \<Rightarrow> False | Some w \<Rightarrow> ReplayWindow_check w (ucast index))
                 then (c, Inl (Srtp ''SRTCP replay attack detected''))
                 else
                   (case derive_srtcp_session_keys cr km ssrc (ucast index) of
                      Inl e \<Rightarrow> (c, Inl e)
                    | Inr keys \<Rightarrow>
                        (case (if is_cm (km_profile km)
                               then unprotect_rtcp_aes_cm cr packet keys ssrc index (km_profile km)
                               else unprotect_rtcp_aes_gcm cr packet keys ssrc index (km_profile km)) of
                           Inl e \<Rightarrow> (c, Inl e)
                         | Inr rtcp \<Rightarrow>
                             (c\<lparr>srtcp_replay_windows := hm_insert ssrc
                                  (ReplayWindow_update (entry_or (ReplayWindow_new 64) ssrc (srtcp_replay_windows c))
                                    (ucast index)) (srtcp_replay_windows c)\<rparr>, Inr rtcp)))))))"


section \<open>Packet indices\<close>

lemma unat_ext_index: "unat (ext_index r s) = unat r * 65536 + unat s"
proof -
  have "push_bit 16 (ucast r) AND ucast s = (0 :: u64)"
    by (rule bit_word_eqI) (auto simp: bit_simps dest: bit_imp_le_length)
  then have *: "ext_index r s = push_bit 16 (ucast r) + ucast s"
    unfolding ext_index_def by (simp add: disjunctive_add_eq_or)
  have "unat r * 65536 + unat s < 18446744073709551616"
    using unat_u32_less [of r] unat_u16_less [of s] by linarith
  then show ?thesis
    by (simp add: * unat_word_ariths push_bit_eq_mult)
qed

text \<open>A tracker stands for the highest index \<open>h\<close>.\<close>

definition roc_rep :: "RocTracker \<Rightarrow> nat \<Rightarrow> bool" where
  "roc_rep t h \<longleftrightarrow> unat (roc t) * 65536 + unat (rt_highest_seq t) = h \<and> s_l t = rt_highest_seq t"

lemma roc_rep_new: "roc_rep RocTracker_new 0"
  by (simp add: roc_rep_def RocTracker_new_def)

lemma roc_repD:
  assumes "roc_rep t h"
  shows "unat (roc t) = h div 65536" "unat (rt_highest_seq t) = h mod 65536" "s_l t = rt_highest_seq t"
  using assms unat_u16_less [of "rt_highest_seq t"] by (auto simp: roc_rep_def simp del: unat_u16_less)

lemma ext_index_of_nat: "j < 2 ^ 48 \<Longrightarrow> unat (ext_index (of_nat (j div 65536)) (of_nat j)) = j"
  by (simp add: unat_ext_index unat_of_nat_u16 unat_of_nat_u32)

lemma ext_index_inj: "ext_index r s = ext_index r' s' \<longleftrightarrow> r = r' \<and> s = s'"
proof
  assume "ext_index r s = ext_index r' s'"
  then have "unat r * 65536 + unat s = unat r' * 65536 + unat s'"
    by (metis unat_ext_index)
  moreover from this have "unat r = unat r'"
    using unat_u16_less [of s] unat_u16_less [of s'] by linarith
  ultimately show "r = r' \<and> s = s'" by (simp add: word_unat_eq_iff)
qed simp

lemma estimate_exact:
  assumes t: "roc_rep t h" and j: "j < 2 ^ 48" "j < h + 32768" "h < j + 32768"
  shows "estimate t (of_nat j) = of_nat (j div 65536)"
proof -
  note R = roc_repD [OF t]
  have s: "uint (of_nat j :: u16) = int (j mod 65536)"
    by (metis unat_of_nat_u16 uint_nat)
  have l: "uint (s_l t) = int (h mod 65536)"
    by (simp add: R(2,3) uint_nat)
  have rr: "roc t = of_nat (h div 65536)"
    by (metis R(1) word_of_nat_eq_iff take_bit_nat_eq_self unat_of_nat_u32 unat_u32_less word_unat_eq_iff)
  consider "j div 65536 = h div 65536" "\<bar>int (j mod 65536) - int (h mod 65536)\<bar> < 32768"
    | "j div 65536 = h div 65536 + 1" "int (j mod 65536) - int (h mod 65536) < -32768"
    | "j div 65536 + 1 = h div 65536" "int (j mod 65536) - int (h mod 65536) > 32768"
  proof -
    obtain a b a' b' where ab: "j div 65536 = a" "j mod 65536 = b" "h div 65536 = a'" "h mod 65536 = b'"
      by blast
    have "b < 65536" "b' < 65536" "j = a * 65536 + b" "h = a' * 65536 + b'"
      using ab by auto
    note bounds = this j(2,3)
    have "a = a' \<or> a = a' + 1 \<or> a + 1 = a'" using bounds by linarith
    moreover have "a = a' \<Longrightarrow> \<bar>int b - int b'\<bar> < 32768" using bounds by linarith
    moreover have "a = a' + 1 \<Longrightarrow> int b - int b' < -32768" using bounds by linarith
    moreover have "a + 1 = a' \<Longrightarrow> int b - int b' > 32768" using bounds by linarith
    ultimately show ?thesis using that unfolding ab by blast
  qed
  then show ?thesis
  proof cases
    case 1
    then have "\<not> int (j mod 65536) - int (h mod 65536) > 32768" "\<not> int (j mod 65536) - int (h mod 65536) < -32768"
      by linarith+
    then show ?thesis by (simp add: estimate_def Let_def s l rr 1)
  next
    case 2 then show ?thesis by (simp add: estimate_def Let_def s l rr)
  next
    case 3
    then have "(of_nat (h div 65536) :: u32) = of_nat (j div 65536) + 1"
      by (metis of_nat_1 of_nat_add)
    with 3 show ?thesis by (simp add: estimate_def Let_def s l rr)
  qed
qed

lemma get_roc_exact:
  assumes t: "roc_rep t h" and j: "j < 2 ^ 48" "j < h + 32768" "h < j + 32768"
  shows "RocTracker_get_roc t (of_nat j) = of_nat (j div 65536)"
proof (cases "rt_highest_seq t = 0 \<and> roc t = 0")
  case True
  then have "h = 0" using t by (auto simp: roc_rep_def)
  then show ?thesis using True j by (simp add: RocTracker_get_roc_def)
qed (auto simp: RocTracker_get_roc_def estimate_exact [OF assms])

lemma ext_index_less:
  assumes "roc_rep t h" "j < 2 ^ 48"
  shows "ext_index (roc t) (rt_highest_seq t) < ext_index (of_nat (j div 65536)) (of_nat j) \<longleftrightarrow> h < j"
  using assms by (simp add: word_less_nat_alt ext_index_of_nat) (simp add: unat_ext_index roc_rep_def)

lemma update_exact:
  assumes t: "roc_rep t h" and j: "j < 2 ^ 48" "j < h + 32768" "h < j + 32768"
  shows "roc_rep (RocTracker_update t (of_nat j)) (max h j)"
proof (cases "rt_highest_seq t = 0 \<and> roc t = 0")
  case True
  then have "h = 0" using t by (auto simp: roc_rep_def)
  then show ?thesis using True j
    by (simp add: RocTracker_update_def roc_rep_def unat_of_nat_u16)
next
  case False
  show ?thesis
    using False t j ext_index_less [OF t j(1)] 
    by (auto simp: RocTracker_update_def Let_def estimate_exact [OF assms] roc_rep_def unat_of_nat_u16
        unat_of_nat_u32 max_def)
qed


section \<open>The replay window\<close>

text \<open>
  A window of 64 stands for the set \<open>S\<close> of the indices given to \<open>ReplayWindow_update\<close>.
\<close>

definition rw_rep :: "ReplayWindow \<Rightarrow> nat set \<Rightarrow> bool" where
  "rw_rep w S \<longleftrightarrow>
     window_size w = 64 \<and> (\<forall>x\<in>S. x \<le> unat (rw_highest_seq w)) \<and>
     (if S = {} then rw_highest_seq w = 0 else unat (rw_highest_seq w) \<in> S) \<and>
     (\<forall>d<64. bit (bitmap w) d \<longleftrightarrow> d \<le> unat (rw_highest_seq w) \<and> unat (rw_highest_seq w) - d \<in> S)"

lemma rw_rep_new: "rw_rep (ReplayWindow_new 64) {}"
  by (simp add: rw_rep_def ReplayWindow_new_def)

lemma and_bit_iff: "n < 64 \<Longrightarrow> w AND push_bit n 1 \<noteq> 0 \<longleftrightarrow> bit w n" for w :: u64
proof -
  assume n: "n < 64"
  have "w AND push_bit n 1 = (if bit w n then push_bit n 1 else 0)"
    by (rule bit_word_eqI) (auto simp: bit_and_iff bit_exp_iff)
  moreover have "bit (push_bit n (1 :: u64)) n"
    using n by (simp add: bit_exp_iff)
  ultimately show ?thesis by (metis bit_0_eq bot_apply bot_bool_def)
qed

lemma rw_check_exact:
  assumes "rw_rep w S"
  shows "ReplayWindow_check w x \<longleftrightarrow>
    x \<le> rw_highest_seq w \<and> (unat x \<in> S \<or> unat (rw_highest_seq w) - unat x \<ge> 64)"
proof (cases "x \<le> rw_highest_seq w")
  case True
  then have d: "unat (rw_highest_seq w - x) = unat (rw_highest_seq w) - unat x"
    by (simp add: unat_sub)
  have le: "unat x \<le> unat (rw_highest_seq w)"
    using True by (simp add: word_le_nat_alt)
  have "window_size w = 64" using assms by (simp add: rw_rep_def)
  then have *: "of_nat (window_size w) \<le> rw_highest_seq w - x \<longleftrightarrow> 64 \<le> unat (rw_highest_seq w) - unat x"
    by (simp add: word_le_nat_alt d)
  show ?thesis
  proof (cases "64 \<le> unat (rw_highest_seq w) - unat x")
    case True
    then show ?thesis using * \<open>x \<le> rw_highest_seq w\<close> by (simp add: ReplayWindow_check_def Let_def)
  next
    case False
    then have "bit (bitmap w) (unat (rw_highest_seq w) - unat x) \<longleftrightarrow> unat x \<in> S"
      using assms le by (simp add: rw_rep_def)
    then show ?thesis using False * \<open>x \<le> rw_highest_seq w\<close>
      by (auto simp: ReplayWindow_check_def Let_def d and_bit_iff simp del: push_bit_of_1)
  qed
qed (auto simp: ReplayWindow_check_def)

lemma rw_update_above:
  assumes w: "rw_rep w S" and x: "rw_highest_seq w < x"
  shows "rw_rep (ReplayWindow_update w x) (insert (unat x) S)"
proof -
  have lt: "unat (rw_highest_seq w) < unat x" using x by (simp add: word_less_nat_alt)
  have d: "unat (x - rw_highest_seq w) = unat x - unat (rw_highest_seq w)"
    using x by (simp add: unat_sub)
  have top: "y \<le> unat (rw_highest_seq w)" if "y \<in> S" for y
    using w that by (simp add: rw_rep_def)
  have small: "x - rw_highest_seq w < 64 \<longleftrightarrow> unat x - unat (rw_highest_seq w) < 64"
    by (simp add: word_less_nat_alt d)
  have hi: "rw_highest_seq (ReplayWindow_update w x) = x"
    and size: "window_size (ReplayWindow_update w x) = 64"
    using x w by (simp_all add: ReplayWindow_update_def Let_def rw_rep_def)
  have "bit (bitmap (ReplayWindow_update w x)) n \<longleftrightarrow> n \<le> unat x \<and> unat x - n \<in> insert (unat x) S"
    if n: "n < 64" for n
  proof (cases "n = 0")
    case True
    then show ?thesis using x by (simp add: ReplayWindow_update_def Let_def bit_or_iff bit_1_iff)
  next
    case False
    show ?thesis
    proof (cases "unat x - unat (rw_highest_seq w) \<le> n")
      case True
      define k where "k = n - (unat x - unat (rw_highest_seq w))"
      have k: "bit (bitmap w) k \<longleftrightarrow> k \<le> unat (rw_highest_seq w) \<and> unat (rw_highest_seq w) - k \<in> S"
        using w n by (simp add: rw_rep_def k_def)
      have "bit (bitmap (ReplayWindow_update w x)) n \<longleftrightarrow> bit (bitmap w) k"
        using True False n x small
        by (simp add: ReplayWindow_update_def Let_def bit_or_iff bit_1_iff bit_push_bit_iff d k_def)
      moreover have "k \<le> unat (rw_highest_seq w) \<longleftrightarrow> n \<le> unat x"
        "unat (rw_highest_seq w) - k = unat x - n"
        using True lt by (auto simp: k_def)
      ultimately show ?thesis using k False by auto
    next
      case le: False
      then have "\<not> bit (bitmap (ReplayWindow_update w x)) n"
        using False x by (simp add: ReplayWindow_update_def Let_def bit_or_iff bit_1_iff bit_push_bit_iff d)
      moreover have "unat x - n \<notin> S" "unat x - n \<noteq> unat x"
        using top [of "unat x - n"] le False lt by auto
      ultimately show ?thesis by auto
    qed
  qed
  then show ?thesis
    unfolding rw_rep_def hi size using top lt by (auto dest: top)
qed

lemma rw_update_below:
  assumes w: "rw_rep w S" and x: "\<not> rw_highest_seq w < x"
    and near: "unat (rw_highest_seq w) - unat x < 64"
  shows "rw_rep (ReplayWindow_update w x) (insert (unat x) S)"
proof -
  have le: "unat x \<le> unat (rw_highest_seq w)" using x by (simp add: word_less_nat_alt)
  have d: "unat (rw_highest_seq w - x) = unat (rw_highest_seq w) - unat x"
    using x by (simp add: unat_sub)
  have small: "rw_highest_seq w - x < 64"
    using near by (simp add: word_less_nat_alt d)
  have fields: "rw_highest_seq (ReplayWindow_update w x) = rw_highest_seq w"
    "window_size (ReplayWindow_update w x) = 64"
    using x w by (simp_all add: ReplayWindow_update_def Let_def rw_rep_def)
  have "bit (bitmap (ReplayWindow_update w x)) n \<longleftrightarrow>
      n \<le> unat (rw_highest_seq w) \<and> unat (rw_highest_seq w) - n \<in> insert (unat x) S" if n: "n < 64" for n
  proof -
    have "bit (bitmap (ReplayWindow_update w x)) n \<longleftrightarrow>
        bit (bitmap w) n \<or> n = unat (rw_highest_seq w) - unat x"
      using x small n unfolding ReplayWindow_update_def Let_def
      by (auto simp: bit_or_iff bit_push_bit_iff bit_1_iff d simp del: push_bit_of_1)
    then show ?thesis using w n le by (auto simp: rw_rep_def)
  qed
  then show ?thesis
    using w le unfolding rw_rep_def fields by (auto split: if_splits)
qed

lemma rw_update_exact:
  assumes "rw_rep w S" "\<not> ReplayWindow_check w x"
  shows "rw_rep (ReplayWindow_update w x) (insert (unat x) S)"
  using assms rw_update_above [OF assms(1), of x] rw_update_below [OF assms(1), of x]
  by (cases "rw_highest_seq w < x") (auto simp: rw_check_exact)

section \<open>Encryption and decryption\<close>

text \<open>
  What the code relies on of the ciphers: the constructors take keys of the length of the cipher, a block is
  encrypted to a block, the HMAC has 20 octets, and GCM takes packets up to its limit of \<open>2\<^sup>3\<^sup>6\<close> octets,
  keeps their length, gives a tag of 16 octets and decrypts what it encrypted.
\<close>

definition block_cipher_ok :: "nat \<Rightarrow> (bytes \<Rightarrow> string + (bytes \<Rightarrow> bytes)) \<Rightarrow> bool" where
  "block_cipher_ok n mk \<longleftrightarrow>
     (\<forall>k. length k = n \<longrightarrow> (\<exists>e. mk k = Inr e \<and> (\<forall>b. length b = 16 \<longrightarrow> length (e b) = 16)))"

definition gcm_ok :: "gcm \<Rightarrow> bool" where
  "gcm_ok g \<longleftrightarrow>
     (\<forall>nonce aad p. length nonce = 12 \<longrightarrow> length aad < 2 ^ 36 \<longrightarrow> length p < 2 ^ 36 \<longrightarrow>
        (\<exists>ct tag. gcm_encrypt g nonce aad p = Inr (ct, tag) \<and> length ct = length p \<and> length tag = 16 \<and>
           gcm_decrypt g nonce aad ct tag = Inr p))"

definition crypto_ok :: "crypto \<Rightarrow> bool" where
  "crypto_ok cr \<longleftrightarrow>
     block_cipher_ok 16 (aes128 cr) \<and> block_cipher_ok 32 (aes256 cr) \<and> hmac_ok (hmac_sha cr) \<and>
     (\<forall>k. length k = 16 \<longrightarrow> (\<exists>g. gcm128 cr k = Inr g \<and> gcm_ok g)) \<and>
     (\<forall>k. length k = 32 \<longrightarrow> (\<exists>g. gcm256 cr k = Inr g \<and> gcm_ok g))"

lemma crypto_okD:
  assumes "crypto_ok cr"
  shows "length k = 16 \<Longrightarrow> \<exists>e. aes128 cr k = Inr e \<and> (\<forall>b. length b = 16 \<longrightarrow> length (e b) = 16)"
    and "length k = 32 \<Longrightarrow> \<exists>e. aes256 cr k = Inr e \<and> (\<forall>b. length b = 16 \<longrightarrow> length (e b) = 16)"
    and "\<exists>tag. hmac_sha cr k m = Inr tag \<and> length tag = 20"
  using assms by (auto simp: crypto_ok_def block_cipher_ok_def hmac_ok_def)

lemma gcm_cipher_ok:
  assumes "crypto_ok cr" "length k = master_key_len prof" "\<not> is_cm prof"
  shows "\<exists>g. gcm_cipher cr prof k = Inr g \<and> gcm_ok g"
  using assms by (cases prof) (auto simp: gcm_cipher_def crypto_ok_def is_cm_def dest!: spec [of _ k])

lemma length_incr_rev [simp]: "length (incr_rev bs) = length bs"
  by (induction bs) auto

lemma length_incr_counter [simp]: "length (incr_counter c) = length c"
  by (simp add: incr_counter_def)

lemma length_xor_at [simp]: "off + length xs \<le> length buf \<Longrightarrow> length (xor_at off xs buf) = length buf"
  by (simp add: xor_at_def)

lemma length_key_stream:
  "\<forall>b. length b = 16 \<longrightarrow> length (enc b) = 16 \<Longrightarrow> length c = 16 \<Longrightarrow> length (key_stream enc c n) = n"
proof (induction enc c n rule: key_stream.induct)
  case (1 enc c n)
  then show ?case by (subst key_stream.simps) (auto simp: min_def)
qed

lemma length_ctr_xor:
  "\<forall>b. length b = 16 \<longrightarrow> length (enc b) = 16 \<Longrightarrow> length c = 16 \<Longrightarrow> length (ctr_xor enc c p) = length p"
proof (induction enc c p rule: ctr_xor.induct)
  case (1 enc c p)
  then show ?case by (subst ctr_xor.simps) (auto simp: min_def)
qed

lemma ctr_xor_Nil [simp]: "ctr_xor enc c [] = []"
  by (subst ctr_xor.simps) simp

text \<open>Counter mode is its own inverse.\<close>

lemma ctr_xor_twice:
  "\<forall>b. length b = 16 \<longrightarrow> length (enc b) = 16 \<Longrightarrow> length c = 16 \<Longrightarrow> ctr_xor enc c (ctr_xor enc c p) = p"
proof (induction enc c p rule: ctr_xor.induct)
  case (1 enc c p)
  show ?case
  proof (cases "p = []")
    case True then show ?thesis by simp
  next
    case False
    let ?h = "xor_bytes (take 16 p) (enc c)" and ?t = "ctr_xor enc (incr_counter c) (drop 16 p)"
    have len: "length (enc c) = 16" using 1(2,3) by simp
    have one: "ctr_xor enc c p = ?h @ ?t" using False by (subst ctr_xor.simps) simp
    have hd: "take 16 (?h @ ?t) = ?h" "drop 16 (?h @ ?t) = ?t"
      using len by (cases "length p \<le> 16"; simp)+
    have "?h @ ?t \<noteq> []" using False len by (cases p; cases "enc c") (auto simp: xor_bytes_def)
    then have "ctr_xor enc c (?h @ ?t) = xor_bytes ?h (enc c) @ ctr_xor enc (incr_counter c) ?t"
      by (subst ctr_xor.simps) (simp only: hd if_False)
    also have "\<dots> = take 16 p @ drop 16 p"
      using 1(1) [OF False 1(2)] 1(3) len by simp
    finally show ?thesis by (simp add: one)
  qed
qed

subsection \<open>Key derivation\<close>

definition km_ok :: "SrtpKeyMaterial \<Rightarrow> bool" where
  "km_ok km \<longleftrightarrow> length (master_key km) = master_key_len (km_profile km) \<and>
     length (master_salt km) = master_salt_len (km_profile km)"

lemma SrtpKeyMaterial_new_ok: "SrtpKeyMaterial_new key salt prof = Inr km \<Longrightarrow> km_ok km"
  by (auto simp: SrtpKeyMaterial_new_def km_ok_def split: if_splits)

lemma master_salt_len_le: "master_salt_len prof \<le> 14"
  by (cases prof) auto

lemma derive_key_ok:
  assumes cr: "crypto_ok cr" and km: "km_ok km"
  shows "\<exists>k. (\<forall>ssrc index. derive_key cr km label ssrc index n = Inr k) \<and> length k = n"
proof -
  define x where "x = xor_at 0 (master_salt km) (take 8 ((replicate 16 0)[7 := label]) @ drop 2 (to_be64 0) @
    drop 14 ((replicate 16 0)[7 := label]))"
  have len: "length x = 16"
    using km master_salt_len_le [of "km_profile km"] by (simp add: x_def km_ok_def)
  have "\<exists>k. aes_cm_prf cr km x n = Inr k \<and> length k = n"
    using km crypto_okD(1) [OF cr, of "master_key km"] crypto_okD(2) [OF cr, of "master_key km"] len
    by (cases "km_profile km") (auto simp: aes_cm_prf_def km_ok_def length_key_stream)
  then show ?thesis by (simp add: derive_key_def x_def Let_def)
qed

definition keys_ok :: "SrtpProfile \<Rightarrow> DerivedKeys \<Rightarrow> bool" where
  "keys_ok prof k \<longleftrightarrow> length (encryption_key k) = master_key_len prof \<and> length (dk_salt k) = master_salt_len prof \<and>
     (is_cm prof \<longrightarrow> authentication_key k \<noteq> None)"

lemma derive_labels_ok:
  assumes cr: "crypto_ok cr" and km: "km_ok km"
  shows "\<exists>k. (\<forall>ssrc index. derive_session_keys_with_labels cr km ssrc index e a s = Inr k) \<and> keys_ok (km_profile km) k"
proof -
  note D = derive_key_ok [OF cr km]
  obtain ke where ke: "\<forall>ssrc index. derive_key cr km e ssrc index (master_key_len (km_profile km)) = Inr ke"
      "length ke = master_key_len (km_profile km)"
    using D [of e "master_key_len (km_profile km)"] by blast
  obtain ka where ka: "\<forall>ssrc index. derive_key cr km a ssrc index 20 = Inr ka" using D [of a 20] by blast
  obtain ks where ks: "\<forall>ssrc index. derive_key cr km s ssrc index (master_salt_len (km_profile km)) = Inr ks"
      "length ks = master_salt_len (km_profile km)"
    using D [of s "master_salt_len (km_profile km)"] by blast
  show ?thesis
    using ke ka ks by (cases "km_profile km")
      (auto simp: derive_session_keys_with_labels_def keys_ok_def is_cm_def)
qed

subsection \<open>One packet\<close>

lemma length_cm_iv: "length salt \<le> 16 \<Longrightarrow> length (cm_iv salt ssrc i) = 16"
  by (simp add: cm_iv_def)


lemma auth_tag_len_le: "auth_tag_len prof \<le> 20"
  by (cases prof) auto

lemma keys_ok_cm:
  assumes cr: "crypto_ok cr" and k: "keys_ok prof keys" and p: "is_cm prof"
  obtains enc ak where "aes128 cr (encryption_key keys) = Inr enc" "\<forall>b. length b = 16 \<longrightarrow> length (enc b) = 16"
    "authentication_key keys = Some ak" "length (dk_salt keys) = 14"
proof -
  have "length (encryption_key keys) = 16" "length (dk_salt keys) = 14"
    using k p by (auto simp: keys_ok_def is_cm_def)
  then show ?thesis using crypto_okD(1) [OF cr, of "encryption_key keys"] k p that
    by (auto simp: keys_ok_def)
qed



subsection \<open>Header\<close>

lemma and_15_le: "unat ((b :: u8) AND 0x0F) \<le> 15"
  using word_and_le1 [of b 15] by (simp add: word_le_nat_alt and.commute)

definition cc_len :: "bytes \<Rightarrow> nat" where
  "cc_len p = 12 + unat (p ! 0 AND 0x0F) * 4"

text \<open>The checked arithmetic never fails: the header has at most 262216 octets.\<close>

lemma srtp_header_len_eq:
  "srtp_header_len p =
     (if drop_bit 4 (p ! 0) AND 1 = 1
      then if length p < cc_len p + 4 then Inl (Srtp ''Invalid RTP header extension'')
           else Inr (cc_len p + 4 + unat (be16 (p ! (cc_len p + 2)) (p ! (cc_len p + 3))) * 4)
      else Inr (cc_len p))"
proof -
  have c: "cc_len p \<le> 72" using and_15_le [of "p ! 0"] by (simp add: cc_len_def)
  then have *: "checked_add_usize 12 (unat (p ! 0 AND 0x0F) * 4) = Some (cc_len p)"
    "checked_add_usize (cc_len p) 4 = Some (cc_len p + 4)"
    by (simp_all add: checked_add_usize_def cc_len_def)
  have "checked_mul_usize (unat w) 4 = Some (unat w * 4)"
    "checked_add_usize (cc_len p + 4) (unat w * 4) = Some (cc_len p + 4 + unat w * 4)" for w :: u16
    using c unat_u16_less [of w] by (simp_all add: checked_mul_usize_def checked_add_usize_def del: unat_u16_less)
  then show ?thesis
    by (simp add: srtp_header_len_def Let_def *)
qed


subsection \<open>The protected form of a packet\<close>

text \<open>A packet \<open>rtp_ok\<close> has a complete header and fits the ciphers.\<close>

definition rtp_ok :: "bytes \<Rightarrow> bool" where
  "rtp_ok p \<longleftrightarrow> 12 \<le> length p \<and> length p < 2 ^ 36 \<and>
     (case srtp_header_len p of Inl e \<Rightarrow> False | Inr n \<Rightarrow> n \<le> length p)"

definition seal :: "crypto \<Rightarrow> SrtpKeyMaterial \<Rightarrow> bytes \<Rightarrow> u32 \<Rightarrow> ForgeError + bytes" where
  "seal cr km p r =
     (case srtp_header_len p of Inl e \<Rightarrow> Inl e
      | Inr n \<Rightarrow>
     (case derive_srtp_session_keys cr km (srtp_ssrc p) (ext_index r (srtp_sequence p)) of Inl e \<Rightarrow> Inl e
      | Inr keys \<Rightarrow>
          if is_cm (km_profile km)
          then protect_aes_cm cr p n keys (srtp_ssrc p) r (ext_index r (srtp_sequence p)) (km_profile km)
          else protect_aes_gcm cr p n keys (srtp_ssrc p) r (srtp_sequence p) (km_profile km)))"

definition unseal :: "crypto \<Rightarrow> SrtpKeyMaterial \<Rightarrow> bytes \<Rightarrow> u32 \<Rightarrow> ForgeError + bytes" where
  "unseal cr km p r =
     (case srtp_header_len p of Inl e \<Rightarrow> Inl e
      | Inr n \<Rightarrow>
     (case derive_srtp_session_keys cr km (srtp_ssrc p) (ext_index r (srtp_sequence p)) of Inl e \<Rightarrow> Inl e
      | Inr keys \<Rightarrow>
          if is_cm (km_profile km)
          then unprotect_aes_cm cr p n keys (srtp_ssrc p) r (ext_index r (srtp_sequence p)) (km_profile km)
          else unprotect_aes_gcm cr p n keys (srtp_ssrc p) r (srtp_sequence p) (km_profile km)))"


text \<open>\<open>protect_rtp\<close> and \<open>unprotect_rtp\<close> around them.\<close>

lemma protect_rtp_seal:
  assumes "local_key c = Some km" "rtp_ok p" "local_roc_for (local_roc c) (srtp_ssrc p) = Inr t0"
  shows "protect_rtp cr p c =
    (let t = RocTracker_update t0 (srtp_sequence p) in
     (c\<lparr>local_roc := hm_insert (srtp_ssrc p) t (local_roc c)\<rparr>, seal cr km p (roc t)))"
  using assms
  by (auto simp: protect_rtp_def rtp_ok_def seal_def Let_def RocTracker_get_index_def split: sum.splits)

definition rx_roc :: "SrtpContext \<Rightarrow> bytes \<Rightarrow> u32" where
  "rx_roc c p = (case map_of (remote_roc c) (srtp_ssrc p) of
     None \<Rightarrow> 0 | Some t \<Rightarrow> RocTracker_get_roc t (srtp_sequence p))"

definition rx_index :: "SrtpContext \<Rightarrow> bytes \<Rightarrow> u64" where
  "rx_index c p = ext_index (rx_roc c p) (srtp_sequence p)"

definition rx_accept :: "SrtpContext \<Rightarrow> bytes \<Rightarrow> SrtpContext" where
  "rx_accept c p = c\<lparr>replay_windows := hm_insert (srtp_ssrc p)
        (ReplayWindow_update (entry_or (ReplayWindow_new 64) (srtp_ssrc p) (replay_windows c)) (rx_index c p))
        (replay_windows c),
      remote_roc := hm_insert (srtp_ssrc p)
        (RocTracker_update (entry_or RocTracker_new (srtp_ssrc p) (remote_roc c)) (srtp_sequence p)) (remote_roc c)\<rparr>"


lemma unprotect_rtp_cases:
  assumes "remote_key c = Some km" "unprotect_rtp cr q c = (c', res)"
  obtains e where "res = Inl e" "c' = c"
  | p where "res = Inr p" "c' = rx_accept c q" "replay_check c (srtp_ssrc q) (rx_index c q) = None"
      "unseal cr km q (rx_roc c q) = Inr p"
proof -
  have "(\<exists>e. res = Inl e \<and> c' = c) \<or> (\<exists>p. res = Inr p \<and> c' = rx_accept c q \<and>
      replay_check c (srtp_ssrc q) (rx_index c q) = None \<and> unseal cr km q (rx_roc c q) = Inr p)"
    using assms
    by (auto simp: unprotect_rtp_def unseal_def Let_def rx_accept_def rx_index_def rx_roc_def
        split: sum.splits option.splits if_splits)
  then show ?thesis using that by blast
qed

section \<open>Streams\<close>

subsection \<open>The tracked SSRCs\<close>




subsection \<open>Sender\<close>






subsection \<open>Receiver\<close>

definition win_ok :: "ReplayWindow option \<Rightarrow> nat set \<Rightarrow> bool" where
  "win_ok x S = (case x of None \<Rightarrow> S = {} | Some w \<Rightarrow> S \<noteq> {} \<and> rw_rep w S)"


text \<open>An index is fresh when it was not accepted before and is less than 64 behind the highest one.\<close>

definition fresh :: "nat set \<Rightarrow> nat \<Rightarrow> bool" where
  "fresh S j \<longleftrightarrow> S = {} \<or> j \<notin> S \<and> Max S < j + 64"

lemma rw_rep_Max: "rw_rep w S \<Longrightarrow> S \<noteq> {} \<Longrightarrow> finite S \<and> Max S = unat (rw_highest_seq w)"
proof (intro conjI)
  assume w: "rw_rep w S" "S \<noteq> {}"
  then show "finite S" by (intro finite_subset [of S "{..unat (rw_highest_seq w)}"]) (auto simp: rw_rep_def)
  with w show "Max S = unat (rw_highest_seq w)" by (intro Max_eqI) (auto simp: rw_rep_def)
qed

lemma rw_check_fresh:
  assumes "rw_rep w S" "S \<noteq> {}"
  shows "ReplayWindow_check w x \<longleftrightarrow> \<not> fresh S (unat x)"
proof -
  have "unat x \<in> S \<Longrightarrow> unat x \<le> unat (rw_highest_seq w)" using assms by (auto simp: rw_rep_def)
  then show ?thesis
    using rw_check_exact [OF assms(1), of x] rw_rep_Max [OF assms] assms(2)
    by (auto simp: fresh_def word_le_nat_alt)
qed

lemma win_step:
  assumes w: "win_ok (map_of (replay_windows c) s) S" and ok: "replay_check c s i = None"
  shows "win_ok (Some (ReplayWindow_update (entry_or (ReplayWindow_new 64) s (replay_windows c)) i)) (insert (unat i) S)"
    and "fresh S (unat i)"
proof -
  have *: "rw_rep (entry_or (ReplayWindow_new 64) s (replay_windows c)) S \<and>
      \<not> ReplayWindow_check (entry_or (ReplayWindow_new 64) s (replay_windows c)) i \<or> S = {} \<and>
      entry_or (ReplayWindow_new 64) s (replay_windows c) = ReplayWindow_new 64"
    using w ok by (auto simp: win_ok_def replay_check_def entry_or_def split: option.splits if_splits)
  moreover have "rw_rep (ReplayWindow_update (ReplayWindow_new 64) i) {unat i}"
    using rw_update_above [OF rw_rep_new, of i] rw_update_below [OF rw_rep_new, of i]
    by (cases "0 < i") (auto simp: ReplayWindow_new_def)
  ultimately show "win_ok (Some (ReplayWindow_update (entry_or (ReplayWindow_new 64) s (replay_windows c)) i))
      (insert (unat i) S)"
    using rw_update_exact by (auto simp: win_ok_def)
  show "fresh S (unat i)"
    using w ok rw_check_fresh
    by (auto simp: win_ok_def replay_check_def fresh_def split: option.splits if_splits)
qed

text \<open>
  The packets a receiver accepts, by SSRC and index, over packets of any origin and changes of the keys in
  between.
\<close>

datatype rx_op = Recv bytes | Rekey SrtpKeyMaterial SrtpKeyMaterial

fun rx_accepted :: "crypto \<Rightarrow> rx_op list \<Rightarrow> SrtpContext \<Rightarrow> (u32 \<times> u64) list" where
  "rx_accepted cr [] c = []"
| "rx_accepted cr (Rekey l r # ops) c = rx_accepted cr ops (rekey l r c)"
| "rx_accepted cr (Recv q # ops) c =
     (case unprotect_rtp cr q c of
        (c', Inl e) \<Rightarrow> rx_accepted cr ops c'
      | (c', Inr p) \<Rightarrow> (srtp_ssrc q, rx_index c q) # rx_accepted cr ops c')"

lemma rx_accepted_fresh:
  assumes "remote_key c \<noteq> None" "\<forall>s. win_ok (map_of (replay_windows c) s) (H s)"
  shows "distinct (rx_accepted cr ops c) \<and> (\<forall>(s, i) \<in> set (rx_accepted cr ops c). unat i \<notin> H s)"
  using assms
proof (induction cr ops c arbitrary: H rule: rx_accepted.induct)
  case (2 cr l r ops c)
  then show ?case by (simp add: rekey_def)
next
  case (3 cr q ops c)
  obtain km where km: "remote_key c = Some km" using 3 by auto
  obtain c' res where u: "unprotect_rtp cr q c = (c', res)" by fastforce
  show ?case
  proof (rule unprotect_rtp_cases [OF km u])
    fix e assume "res = Inl e" "c' = c"
    then show ?thesis using 3(1) [OF u [symmetric], of e H] 3(3,4) by (simp add: u)
  next
    fix p assume p: "res = Inr p" "c' = rx_accept c q" "replay_check c (srtp_ssrc q) (rx_index c q) = None"
    let ?s = "srtp_ssrc q" and ?i = "rx_index c q"
    note W = win_step [OF 3(4) [rule_format, of ?s] p(3)]
    have new: "unat ?i \<notin> H ?s" using W(2) by (auto simp: fresh_def)
    have "\<forall>s. win_ok (map_of (replay_windows c') s) ((H(?s := insert (unat ?i) (H ?s))) s)"
      using 3(4) W(1) by (simp add: p(2) rx_accept_def)
    moreover have "remote_key c' \<noteq> None" using km by (simp add: p(2) rx_accept_def)
    ultimately have "distinct (rx_accepted cr ops c') \<and>
        (\<forall>(s, i) \<in> set (rx_accepted cr ops c'). unat i \<notin> (H(?s := insert (unat ?i) (H ?s))) s)"
      using 3(2) [OF u [symmetric] p(1)] by blast
    then show ?thesis using new by (auto simp: u p(1) split: if_splits)
  qed
qed simp

text \<open>
  C9. No packet is accepted twice: whatever packets a context is given, forged, replayed or reordered, and
  however its keys change in between, the packets it accepts have different indices within each SSRC.
\<close>

theorem srtp_no_replay: "distinct (rx_accepted cr ops (SrtpContext_with_keys l r))"
  using rx_accepted_fresh [of "SrtpContext_with_keys l r" "\<lambda>s. {}"]
  by (simp add: SrtpContext_with_keys_def win_ok_def)

subsection \<open>From sender to receiver\<close>












text \<open>Ciphers with the lengths the code relies on, for concrete runs.\<close>

definition plain_gcm :: gcm where
  "plain_gcm = \<lparr>gcm_encrypt = (\<lambda>n a p. Inr (p, replicate 16 7)), gcm_decrypt = (\<lambda>n a ct tag. Inr ct)\<rparr>"

definition plain_crypto :: crypto where
  "plain_crypto =
     \<lparr>aes128 = (\<lambda>k. Inr (\<lambda>b. map (\<lambda>x. x XOR 5) b)), aes256 = (\<lambda>k. Inr (\<lambda>b. map (\<lambda>x. x XOR 9) b)),
      hmac_sha = (\<lambda>k m. Inr (replicate 20 (fold (+) m 0))), gcm128 = (\<lambda>k. Inr plain_gcm), gcm256 = (\<lambda>k. Inr plain_gcm)\<rparr>"

lemma plain_crypto_ok: "crypto_ok plain_crypto"
  by (simp add: crypto_ok_def plain_crypto_def block_cipher_ok_def hmac_ok_def gcm_ok_def plain_gcm_def)

text \<open>Three packets of SSRC 1 around a wrap, the last ones swapped and one of them repeated.\<close>

definition some_packet :: "u8 \<Rightarrow> u8 \<Rightarrow> bytes" where
  "some_packet hi lo = [128, 0, hi, lo, 0, 0, 0, 0, 0, 0, 0, 1, 42, hi, lo]"


lemma some_packet_ok: "rtp_ok (some_packet hi lo)" "srtp_ssrc (some_packet hi lo) = 1"
  "srtp_sequence (some_packet hi lo) = be16 hi lo"
  by (simp_all add: rtp_ok_def srtp_header_len_eq some_packet_def cc_len_def srtp_ssrc_def srtp_sequence_def be32_def)


section \<open>Key streams\<close>

text \<open>Octet \<open>k\<close> of the payload meets octet \<open>k mod 16\<close> of the encrypted counter block \<open>k div 16\<close>.\<close>

lemma ctr_xor_nth:
  "\<forall>b. length b = 16 \<longrightarrow> length (enc b) = 16 \<Longrightarrow> length c = 16 \<Longrightarrow> k < length p \<Longrightarrow>
   ctr_xor enc c p ! k = p ! k XOR enc ((incr_counter ^^ (k div 16)) c) ! (k mod 16)"
proof (induction enc c p arbitrary: k rule: ctr_xor.induct)
  case (1 enc c p)
  have p: "p \<noteq> []" and len: "length (enc c) = 16" using 1(2-4) by auto
  have one: "ctr_xor enc c p = xor_bytes (take 16 p) (enc c) @ ctr_xor enc (incr_counter c) (drop 16 p)"
    using p by (subst ctr_xor.simps) simp
  show ?case
  proof (cases "k < 16")
    case True
    then show ?thesis using 1(4) len unfolding one by (simp add: nth_append xor_bytes_def)
  next
    case False
    then have "16 \<le> length p" "k - 16 < length (drop 16 p)" using 1(4) by auto
    moreover have "(incr_counter ^^ ((k - 16) div 16)) (incr_counter c) = (incr_counter ^^ (k div 16)) c"
      using False by (simp add: le_div_geq funpow_swap1 flip: funpow.simps(2) [THEN fun_cong, unfolded comp_def])
    ultimately show ?thesis
      using 1(1) [OF p 1(2), of "k - 16"] 1(3) False len unfolding one
      by (simp add: nth_append le_mod_geq not_less)
  qed
qed

lemma unat_plus1: "x + 1 \<noteq> 0 \<Longrightarrow> unat (x + 1) = unat x + 1" for x :: "'a::len word"
  using unatSuc [of x] by (simp add: add.commute)

lemma incr_counter_be16:
  assumes "w + 1 \<noteq> 0"
  shows "incr_counter (c @ to_be16 w) = c @ to_be16 (w + 1)"
proof -
  obtain h l where w: "w = be16 h l" by (metis be16_to_be16)
  have one: "unat (be16 h l + 1) = 256 * unat h + unat l + 1"
    using unat_plus1 [OF assms] by (simp add: w unat_be16)
  have top: "unat x = 255" if "x + 1 = 0" for x :: u8
  proof -
    have "x = -1" using that by (simp add: eq_neg_iff_add_eq_0)
    then show ?thesis by (simp add: unsigned_minus_1_eq_mask mask_eq_exp_minus_1)
  qed
  show ?thesis
  proof (cases "l + 1 = 0")
    case True
    have h: "h + 1 \<noteq> 0"
    proof
      assume "h + 1 = 0"
      then have "unat (be16 h l + 1) = 65536" using one top True by simp
      then show False using unat_u16_less [of "be16 h l + 1"] by linarith
    qed
    have "be16 h l + 1 = be16 (h + 1) 0"
      unfolding word_unat_eq_iff one unat_be16 unat_plus1 [OF h] using top [OF True] by simp
    then show ?thesis using True h unfolding w by (simp only: to_be16_be16) (simp add: incr_counter_def)
  next
    case False
    have "be16 h l + 1 = be16 h (l + 1)"
      unfolding word_unat_eq_iff one unat_be16 unat_plus1 [OF False] by simp
    then show ?thesis using False unfolding w by (simp only: to_be16_be16) (simp add: incr_counter_def)
  qed
qed

lemma counter_block:
  "m < 65536 \<Longrightarrow> (incr_counter ^^ m) (c @ [0, 0]) = c @ to_be16 (of_nat m)"
proof (induction m)
  case 0 then show ?case by (simp add: to_be16_def)
next
  case (Suc m)
  have "unat (of_nat m :: u16) = m" using Suc.prems by (simp add: unat_of_nat_u16)
  moreover have "unat (of_nat (Suc m) :: u16) = Suc m" using Suc.prems by (simp only: unat_of_nat_u16) simp
  ultimately have "(of_nat m :: u16) + 1 \<noteq> 0" by (metis add.commute nat.simps(3) of_nat_Suc unat_0)
  then show ?case using Suc incr_counter_be16 [of "of_nat m" c] by (simp add: add.commute)
qed

lemma xor_bytes_inj:
  "length a = length s \<Longrightarrow> length b = length s \<Longrightarrow> xor_bytes s a = xor_bytes s b \<Longrightarrow> a = b"
proof (induction s arbitrary: a b)
  case (Cons x s)
  then obtain y a' z b' where "a = y # a'" "b = z # b'" by (metis length_Suc_conv)
  with Cons show ?case by (auto simp: xor_bytes_def) (metis xor_cancel xor.commute)
qed simp

lemma to_be32_inj: "to_be32 a = to_be32 b \<longleftrightarrow> a = b"
  by (metis list.inject to_be32_split)

lemma low48_inj:
  assumes "i < 2 ^ 48" "j < 2 ^ 48" "drop 2 (to_be64 i) = drop 2 (to_be64 j)"
  shows "i = j"
proof -
  have hi: "take 2 (to_be64 k) = [0, 0]" if "k < 2 ^ 48" for k
  proof -
    have "take_bit 48 (unat k) = unat k"
      using that by (simp add: take_bit_nat_eq_self_iff word_less_nat_alt)
    then have "\<not> bit (unat k) n" if "48 \<le> n" for n using that by (metis bit_take_bit_iff not_less)
    then have k: "\<not> bit k n" if "48 \<le> n" for n using that by (simp add: bit_unsigned_iff)
    have "ucast (drop_bit 24 (ucast (drop_bit 32 k) :: u32)) = (0 :: u8)"
      "ucast (drop_bit 16 (ucast (drop_bit 32 k) :: u32)) = (0 :: u8)"
      by (rule bit_word_eqI, simp add: bit_simps k)+
    then show ?thesis unfolding to_be64_def to_be32_def by (simp add: numeral_2_eq_2)
  qed
  have same: "to_be64 i = to_be64 j"
    using hi [OF assms(1)] hi [OF assms(2)] assms(3) append_take_drop_id [of 2 "to_be64 i"]
      append_take_drop_id [of 2 "to_be64 j"] by simp
  show ?thesis
    by (rule to_be64_split [of i], rule to_be64_split [of j]) (use same in simp)
qed

lemma cm_iv_eq:
  assumes "length salt = 14"
  shows "cm_iv salt ssrc i = take 4 salt @ xor_bytes (take 4 (drop 4 salt)) (to_be32 ssrc) @
    xor_bytes (drop 8 salt) (drop 2 (to_be64 i)) @ [0, 0]"
  using assms by (simp add: cm_iv_def xor_at_def numeral_2_eq_2)

text \<open>
  C20. No two blocks of key stream are the same block: octet \<open>k\<close> of a payload is combined with octet
  \<open>k mod 16\<close> of the encryption of counter block \<open>k div 16\<close>, and under one session key the counter blocks
  of packets up to 65536 blocks differ unless SSRC, packet index and block number are all the same.
\<close>

theorem srtp_keystream_unique:
  assumes "length salt = 14" "i < 2 ^ 48" "i' < 2 ^ 48" "m < 65536" "m' < 65536"
    and "\<forall>b. length b = 16 \<longrightarrow> length (enc b) = 16" "k < length p"
  shows "((incr_counter ^^ m) (cm_iv salt ssrc i) = (incr_counter ^^ m') (cm_iv salt ssrc' i') \<longleftrightarrow>
      ssrc = ssrc' \<and> i = i' \<and> m = m') \<and>
    ctr_xor enc (cm_iv salt ssrc i) p ! k =
      p ! k XOR enc ((incr_counter ^^ (k div 16)) (cm_iv salt ssrc i)) ! (k mod 16)"
proof -
  let ?a = "take 4 salt" and ?b = "take 4 (drop 4 salt)" and ?c = "drop 8 salt"
  have block: "(incr_counter ^^ n) (cm_iv salt s j) =
      ?a @ xor_bytes ?b (to_be32 s) @ xor_bytes ?c (drop 2 (to_be64 j)) @ to_be16 (of_nat n)"
    if "n < 65536" for n s j
    using counter_block [OF that, of "?a @ xor_bytes ?b (to_be32 s) @ xor_bytes ?c (drop 2 (to_be64 j))"]
    by (simp add: cm_iv_eq [OF assms(1)])
  have "(incr_counter ^^ m) (cm_iv salt ssrc i) = (incr_counter ^^ m') (cm_iv salt ssrc' i') \<longleftrightarrow>
      xor_bytes ?b (to_be32 ssrc) = xor_bytes ?b (to_be32 ssrc') \<and>
      xor_bytes ?c (drop 2 (to_be64 i)) = xor_bytes ?c (drop 2 (to_be64 i')) \<and>
      to_be16 (of_nat m) = to_be16 (of_nat m')"
    unfolding block [OF assms(4)] block [OF assms(5)] using assms(1) by simp
  moreover have "\<dots> \<longleftrightarrow> ssrc = ssrc' \<and> i = i' \<and> m = m'"
  proof -
    have "xor_bytes ?b (to_be32 ssrc) = xor_bytes ?b (to_be32 ssrc') \<longleftrightarrow> ssrc = ssrc'"
      using xor_bytes_inj [of "to_be32 ssrc" ?b "to_be32 ssrc'"] assms(1) by (auto simp: to_be32_inj)
    moreover have "xor_bytes ?c (drop 2 (to_be64 i)) = xor_bytes ?c (drop 2 (to_be64 i')) \<longleftrightarrow> i = i'"
      using xor_bytes_inj [of "drop 2 (to_be64 i)" ?c "drop 2 (to_be64 i')"] low48_inj [OF assms(2,3)] assms(1)
      by auto
    moreover have "to_be16 (of_nat m) = to_be16 (of_nat m') \<longleftrightarrow> m = m'"
    proof
      assume "to_be16 (of_nat m) = to_be16 (of_nat m')"
      then have "(of_nat m :: u16) = of_nat m'" by (metis be16_to_be16 list.inject to_be16_def)
      then have "unat (of_nat m :: u16) = unat (of_nat m' :: u16)" by simp
      then show "m = m'" using assms(4,5) unfolding unat_of_nat_u16 by simp
    qed simp
    ultimately show ?thesis by simp
  qed
  moreover have "ctr_xor enc (cm_iv salt ssrc i) p ! k =
      p ! k XOR enc ((incr_counter ^^ (k div 16)) (cm_iv salt ssrc i)) ! (k mod 16)"
    using assms(1,6,7) by (intro ctr_xor_nth) (simp_all add: length_cm_iv)
  ultimately show ?thesis by blast
qed

theorem srtp_keystream_unique_witness:
  "(incr_counter ^^ 3) (cm_iv (replicate 14 4) 1 70000) \<noteq> (incr_counter ^^ 5) (cm_iv (replicate 14 4) 1 70001)"
  using srtp_keystream_unique [of "replicate 14 4" 70000 70001 3 5 "\<lambda>b. b" 0 "[0]" 1 1] by simp

section \<open>RTCP packets and refused packets\<close>

lemma length_rtcp_cm_iv: "length salt \<le> 16 \<Longrightarrow> length (rtcp_cm_iv salt ssrc i) = 16"
  by (simp add: rtcp_cm_iv_def)

lemma length_rtcp_gcm_nonce: "length salt \<le> 12 \<Longrightarrow> length (rtcp_gcm_nonce salt ssrc i) = 12"
  by (simp add: rtcp_gcm_nonce_def)

lemma rtcp_cm_roundtrip:
  assumes cr: "crypto_ok cr" and k: "keys_ok prof keys" and prof: "is_cm prof" and n: "8 \<le> length p"
  obtains ct tag where "protect_rtcp_aes_cm cr p keys ssrc i prof = Inr (take 8 p @ ct @ to_be32 (e_index_field i) @ tag)"
    "unprotect_rtcp_aes_cm cr (take 8 p @ ct @ to_be32 (e_index_field i) @ tag) keys ssrc i prof = Inr p"
    "length ct = length p - 8" "length tag = auth_tag_len prof"
proof -
  from keys_ok_cm [OF cr k prof] obtain enc ak where
    enc: "aes128 cr (encryption_key keys) = Inr enc" "\<forall>b. length b = 16 \<longrightarrow> length (enc b) = 16" and
    ak: "authentication_key keys = Some ak" and salt: "length (dk_salt keys) = 14" by blast
  have iv: "length (rtcp_cm_iv (dk_salt keys) ssrc i) = 16" using salt by (simp add: length_rtcp_cm_iv)
  define ct where "ct = ctr_xor enc (rtcp_cm_iv (dk_salt keys) ssrc i) (drop 8 p)"
  have ct: "length ct = length p - 8" using length_ctr_xor [OF enc(2) iv] by (simp add: ct_def)
  define e where "e = take 8 p @ ct @ to_be32 (e_index_field i)"
  obtain full where full: "hmac_sha cr ak e = Inr full" "length full = 20" using crypto_okD(3) [OF cr] by blast
  define tag where "tag = take (auth_tag_len prof) full"
  have tag: "length tag = auth_tag_len prof" using full auth_tag_len_le [of prof] by (simp add: tag_def)
  have "protect_rtcp_aes_cm cr p keys ssrc i prof = Inr (e @ tag)"
    using full(1) by (simp add: protect_rtcp_aes_cm_def Let_def enc ak e_def ct_def tag_def)
  moreover have "unprotect_rtcp_aes_cm cr (e @ tag) keys ssrc i prof = Inr p"
  proof -
    have parts: "take (length (e @ tag) - auth_tag_len prof) (e @ tag) = e"
      "drop (length (e @ tag) - auth_tag_len prof) (e @ tag) = tag"
      "take (length (e @ tag) - auth_tag_len prof - 4) e = take 8 p @ ct"
      using n ct tag by (simp_all add: e_def)
    show ?thesis
      using n ctr_xor_twice [OF enc(2) iv] unfolding unprotect_rtcp_aes_cm_def Let_def parts
      by (simp add: ak full(1) enc(1) ct_def flip: tag_def)
  qed
  ultimately show ?thesis using that ct tag by (simp add: e_def)
qed

lemma rtcp_gcm_roundtrip:
  assumes cr: "crypto_ok cr" and k: "keys_ok prof keys" and prof: "\<not> is_cm prof" and n: "8 \<le> length p" "length p < 2 ^ 36"
  obtains ct tag where "protect_rtcp_aes_gcm cr p keys ssrc i prof = Inr (take 8 p @ ct @ to_be32 (e_index_field i) @ tag)"
    "unprotect_rtcp_aes_gcm cr (take 8 p @ ct @ to_be32 (e_index_field i) @ tag) keys ssrc i prof = Inr p"
    "length ct = length p - 8" "length tag = auth_tag_len prof"
proof -
  have "length (dk_salt keys) = 12" and tl: "auth_tag_len prof = 16"
    using k prof by (cases prof; simp add: keys_ok_def is_cm_def)+
  then have nonce: "length (rtcp_gcm_nonce (dk_salt keys) ssrc i) = 12" by (simp add: length_rtcp_gcm_nonce)
  obtain g where g: "gcm_cipher cr prof (encryption_key keys) = Inr g" "gcm_ok g"
    using gcm_cipher_ok [OF cr _ prof] k by (auto simp: keys_ok_def)
  let ?aad = "take 8 p @ to_be32 (e_index_field i)" and ?nonce = "rtcp_gcm_nonce (dk_salt keys) ssrc i"
  have lens: "length ?aad < 2 ^ 36" "length (drop 8 p) < 2 ^ 36" using n by simp_all
  obtain ct tag where ct: "gcm_encrypt g ?nonce ?aad (drop 8 p) = Inr (ct, tag)" "length ct = length p - 8"
    "length tag = 16" "gcm_decrypt g ?nonce ?aad ct tag = Inr (drop 8 p)"
    using g(2) nonce lens unfolding gcm_ok_def by (metis length_drop)
  let ?q = "take 8 p @ ct @ to_be32 (e_index_field i) @ tag"
  have parts: "length ?q = length p + 20" "drop (length ?q - 16) ?q = tag" "take 8 ?q = take 8 p"
    "drop (length ?q - 16 - 4) (take (length ?q - 16) ?q) = to_be32 (e_index_field i)"
    "drop 8 (take (length ?q - 16 - 4) ?q) = ct"
    using n ct(2,3) by simp_all
  have "protect_rtcp_aes_gcm cr p keys ssrc i prof = Inr ?q"
    by (simp add: protect_rtcp_aes_gcm_def Let_def g ct)
  moreover have "unprotect_rtcp_aes_gcm cr ?q keys ssrc i prof = Inr p"
    unfolding unprotect_rtcp_aes_gcm_def Let_def parts(2-) using n by (simp only: parts(1)) (simp add: g ct)
  ultimately show ?thesis using that ct tl by simp
qed

lemma e_index_field_split:
  fixes x :: u32
  defines "i \<equiv> x AND 0x7FFFFFFF"
  shows "e_index_field i AND 0x7FFFFFFF = i" "drop_bit 31 (e_index_field i) AND 1 \<noteq> 0"
proof -
  have m: "(0x7FFFFFFF :: u32) = mask 31" by (simp add: mask_eq_exp_minus_1)
  show "e_index_field i AND 0x7FFFFFFF = i"
    unfolding e_index_field_def i_def m
    by (rule bit_word_eqI) (auto simp only: bit_and_iff bit_or_iff bit_mask_iff bit_push_bit_iff bit_1_iff)
  have "bit (e_index_field i) 31"
    by (simp add: e_index_field_def bit_or_iff bit_exp_iff)
  then have "bit (drop_bit 31 (e_index_field i) AND 1) 0" by (simp add: bit_and_iff bit_drop_bit_eq)
  then show "drop_bit 31 (e_index_field i) AND 1 \<noteq> 0" by auto
qed

text \<open>
  C28. An RTCP packet protected with a key is recovered with it: whatever the states of the two sides, when
  the sender has room for the SSRC and the index is not one the receiver refuses, the packet is sent with the
  next index of its SSRC, is longer by the index field and the tag, and is delivered as it was.
\<close>

theorem srtcp_roundtrip:
  assumes cr: "crypto_ok cr" and new: "SrtpKeyMaterial_new key salt prof = Inr km"
    and c: "local_key c = Some km" and d: "remote_key d = Some km"
    and len: "8 \<le> length p" "length p < 2 ^ 36"
    and s: "s = rtcp_ssrc p" and n: "n = entry_or 0 s (local_srtcp_index c)"
    and room: "map_of (local_srtcp_index c) s \<noteq> None \<or> length (local_srtcp_index c) < MAX_TRACKED_SSRCS"
    and win: "\<forall>w. map_of (srtcp_replay_windows d) s = Some w \<longrightarrow> \<not> ReplayWindow_check w (ucast (n AND 0x7FFFFFFF))"
  shows "\<exists>q. protect_rtcp cr p c =
        (c\<lparr>local_srtcp_index := hm_insert s ((n + 1) AND 0x7FFFFFFF) (local_srtcp_index c)\<rparr>, Inr q) \<and>
      length q = length p + 4 + auth_tag_len (km_profile km) \<and>
      unprotect_rtcp cr q d =
        (d\<lparr>srtcp_replay_windows := hm_insert s
             (ReplayWindow_update (entry_or (ReplayWindow_new 64) s (srtcp_replay_windows d))
               (ucast (n AND 0x7FFFFFFF))) (srtcp_replay_windows d)\<rparr>, Inr p)"
proof -
  let ?prof = "km_profile km" and ?i = "n AND 0x7FFFFFFF"
  have km: "km_ok km" by (rule SrtpKeyMaterial_new_ok [OF new])
  obtain keys where keys: "\<And>ssrc index. derive_srtcp_session_keys cr km ssrc index = Inr keys"
    and k: "keys_ok ?prof keys"
    using derive_labels_ok [OF cr km, of 3 4 5] by (auto simp: derive_srtcp_session_keys_def)
  obtain ct tag where
    P: "(if is_cm ?prof then protect_rtcp_aes_cm cr p keys s ?i ?prof else protect_rtcp_aes_gcm cr p keys s ?i ?prof) =
      Inr (take 8 p @ ct @ to_be32 (e_index_field ?i) @ tag)" and
    U: "(if is_cm ?prof
         then unprotect_rtcp_aes_cm cr (take 8 p @ ct @ to_be32 (e_index_field ?i) @ tag) keys s ?i ?prof
         else unprotect_rtcp_aes_gcm cr (take 8 p @ ct @ to_be32 (e_index_field ?i) @ tag) keys s ?i ?prof) = Inr p" and
    L: "length ct = length p - 8" "length tag = auth_tag_len ?prof"
  proof (cases "is_cm ?prof")
    case True
    from rtcp_cm_roundtrip [OF cr k True len(1), of s ?i] show ?thesis using that True by auto
  next
    case False
    from rtcp_gcm_roundtrip [OF cr k False len, of s ?i] show ?thesis using that False by auto
  qed
  define q where "q = take 8 p @ ct @ to_be32 (e_index_field ?i) @ tag"
  obtain b0 b1 b2 b3 where e: "to_be32 (e_index_field ?i) = [b0, b1, b2, b3]" "be32 b0 b1 b2 b3 = e_index_field ?i"
    by (rule to_be32_split)
  have len_q: "length q = length p + 4 + auth_tag_len ?prof" using L len(1) by (simp add: q_def)
  have at: "length q - auth_tag_len ?prof - 4 = length (take 8 p @ ct)" using len_q L len(1) by simp
  have field: "be32 (q ! (length (take 8 p @ ct))) (q ! (length (take 8 p @ ct) + 1))
      (q ! (length (take 8 p @ ct) + 2)) (q ! (length (take 8 p @ ct) + 3)) = e_index_field ?i"
    using e(2) by (simp add: q_def e(1) nth_append flip: append_assoc)
  have "q ! j = p ! j" if "j < 8" for j using that len(1) by (simp add: q_def nth_append)
  then have ssrc: "rtcp_ssrc q = s" by (simp add: s rtcp_ssrc_def)
  have "protect_rtcp cr p c =
      (c\<lparr>local_srtcp_index := hm_insert s ((n + 1) AND 0x7FFFFFFF) (local_srtcp_index c)\<rparr>, Inr q)"
    using c len(1) room P by (auto simp: protect_rtcp_def Let_def keys q_def simp flip: s n)
  moreover have "unprotect_rtcp cr q d =
      (d\<lparr>srtcp_replay_windows := hm_insert s
           (ReplayWindow_update (entry_or (ReplayWindow_new 64) s (srtcp_replay_windows d)) (ucast ?i))
           (srtcp_replay_windows d)\<rparr>, Inr p)"
  proof -
    have "\<not> length q < 8 + 4 + auth_tag_len ?prof" using len_q len(1) by simp
    moreover have "\<not> (case map_of (srtcp_replay_windows d) s of None \<Rightarrow> False | Some w \<Rightarrow> ReplayWindow_check w (ucast ?i))"
      using win by (auto split: option.split)
    ultimately show ?thesis
      using U e_index_field_split(2) [of n]
      unfolding unprotect_rtcp_def Let_def d option.case at field ssrc e_index_field_split(1) q_def [symmetric]
      by (simp add: keys)
  qed
  ultimately show ?thesis using len_q by blast
qed

theorem srtcp_roundtrip_witness:
  "\<exists>km q. SrtpKeyMaterial_new (replicate 32 3) (replicate 12 4) AeadAes256Gcm = Inr km \<and>
     snd (protect_rtcp plain_crypto [128, 201, 0, 1, 0, 0, 0, 9] (SrtpContext_with_keys km km)) = Inr q \<and>
     length q = 28 \<and> snd (unprotect_rtcp plain_crypto q (SrtpContext_with_keys km km)) = Inr [128, 201, 0, 1, 0, 0, 0, 9]"
proof -
  let ?km = "\<lparr>master_key = replicate 32 3, master_salt = replicate 12 4, km_profile = AeadAes256Gcm\<rparr>"
  have km: "SrtpKeyMaterial_new (replicate 32 3) (replicate 12 4) AeadAes256Gcm = Inr ?km"
    by (simp add: SrtpKeyMaterial_new_def)
  from srtcp_roundtrip [OF plain_crypto_ok km, of "SrtpContext_with_keys ?km ?km" "SrtpContext_with_keys ?km ?km"
      "[128, 201, 0, 1, 0, 0, 0, 9]" 9 0]
  show ?thesis using km
    by (auto simp: SrtpContext_with_keys_def rtcp_ssrc_def be32_def entry_or_def MAX_TRACKED_SSRCS_def)
qed

text \<open>
  What is accepted is authentic, and what is not changes nothing. A context with a key either refuses a
  packet and stays as it was, or delivers a packet whose replay check passed and whose tag verifies under
  the session keys and the estimated rollover counter, with the header as it came.
\<close>

theorem srtp_accepts_authentic:
  assumes km: "remote_key c = Some km" and u: "unprotect_rtp cr q c = (c', res)"
  shows "(\<exists>e. res = Inl e \<and> c' = c) \<or>
    (\<exists>p n keys. res = Inr p \<and> replay_check c (srtp_ssrc q) (rx_index c q) = None \<and>
      srtp_header_len q = Inr n \<and> take n p = take n q \<and>
      derive_srtp_session_keys cr km (srtp_ssrc q) (rx_index c q) = Inr keys \<and>
      (if is_cm (km_profile km)
       then \<exists>ak tag. authentication_key keys = Some ak \<and>
         hmac_sha cr ak (take (length q - auth_tag_len (km_profile km)) q @ to_be32 (rx_roc c q)) = Inr tag \<and>
         take (auth_tag_len (km_profile km)) tag = drop (length q - auth_tag_len (km_profile km)) q
       else \<exists>g. gcm_cipher cr (km_profile km) (encryption_key keys) = Inr g \<and>
         gcm_decrypt g (gcm_nonce (dk_salt keys) (srtp_ssrc q) (rx_roc c q) (srtp_sequence q)) (take n q)
           (drop n (take (length q - 16) q)) (drop (length q - 16) q) = Inr (drop n p)))"
proof (rule unprotect_rtp_cases [OF km u])
  fix p assume p: "res = Inr p" "replay_check c (srtp_ssrc q) (rx_index c q) = None"
    "unseal cr km q (rx_roc c q) = Inr p"
  obtain n keys where nk: "srtp_header_len q = Inr n"
    "derive_srtp_session_keys cr km (srtp_ssrc q) (rx_index c q) = Inr keys"
    using p(3) by (auto simp: unseal_def rx_index_def split: sum.splits)
  show ?thesis
  proof (cases "is_cm (km_profile km)")
    case True
    then have "unprotect_aes_cm cr q n keys (srtp_ssrc q) (rx_roc c q) (rx_index c q) (km_profile km) = Inr p"
      using p(3) nk by (simp add: unseal_def rx_index_def)
    then show ?thesis using p(1,2) nk True
      by (auto simp: unprotect_aes_cm_def Let_def split: if_splits option.splits sum.splits)
  next
    case False
    then have "unprotect_aes_gcm cr q n keys (srtp_ssrc q) (rx_roc c q) (srtp_sequence q) (km_profile km) = Inr p"
      using p(3) nk by (simp add: unseal_def rx_index_def)
    then show ?thesis using p(1,2) nk False
      by (auto simp: unprotect_aes_gcm_def Let_def split: if_splits sum.splits)
  qed
qed blast

theorem srtp_accepts_authentic_witness:
  "let km = \<lparr>master_key = replicate 16 3, master_salt = replicate 14 4, km_profile = Aes128CmHmacSha1_80\<rparr>;
       c = SrtpContext_with_keys km km; q = some_packet 0 1 in
   fst (unprotect_rtp plain_crypto q c) = c \<or>
   replay_check c 1 (rx_index c q) = None \<and> srtp_header_len q = Inr 12"
proof -
  let ?km = "\<lparr>master_key = replicate 16 3, master_salt = replicate 14 4, km_profile = Aes128CmHmacSha1_80\<rparr>"
  let ?c = "SrtpContext_with_keys ?km ?km" and ?q = "some_packet 0 1"
  have "remote_key ?c = Some ?km" by (simp add: SrtpContext_with_keys_def)
  moreover have "srtp_header_len ?q = Inr 12" by (simp add: srtp_header_len_eq some_packet_def cc_len_def)
  ultimately show ?thesis
    using srtp_accepts_authentic [of ?c ?km plain_crypto ?q "fst (unprotect_rtp plain_crypto ?q ?c)"
        "snd (unprotect_rtp plain_crypto ?q ?c)"] unfolding Let_def by (auto simp: some_packet_ok)
qed

lemma srtcp_refusal_unchanged: "fst (unprotect_rtcp cr q c) = c \<or> \<not> isl (snd (unprotect_rtcp cr q c))"
  by (simp add: unprotect_rtcp_def Let_def split: option.split sum.split)

section \<open>The number of SSRCs\<close>

datatype srtp_op = ProtectRtp bytes | UnprotectRtp bytes | ProtectRtcp bytes | UnprotectRtcp bytes
  | RekeyBoth SrtpKeyMaterial SrtpKeyMaterial

fun srtp_step :: "crypto \<Rightarrow> srtp_op \<Rightarrow> SrtpContext \<Rightarrow> SrtpContext" where
  "srtp_step cr (ProtectRtp p) c = fst (protect_rtp cr p c)"
| "srtp_step cr (UnprotectRtp q) c = fst (unprotect_rtp cr q c)"
| "srtp_step cr (ProtectRtcp p) c = fst (protect_rtcp cr p c)"
| "srtp_step cr (UnprotectRtcp q) c = fst (unprotect_rtcp cr q c)"
| "srtp_step cr (RekeyBoth l r) c = rekey l r c"

definition maps_ok :: "SrtpContext \<Rightarrow> bool" where
  "maps_ok c \<longleftrightarrow> length (local_roc c) \<le> MAX_TRACKED_SSRCS \<and> length (local_srtcp_index c) \<le> MAX_TRACKED_SSRCS \<and>
     length (replay_windows c) \<le> MAX_TRACKED_SSRCS \<and> map fst (remote_roc c) = map fst (replay_windows c)"

lemma maps_ok_protect_rtp: "maps_ok c \<Longrightarrow> maps_ok (fst (protect_rtp cr p c))"
  by (auto simp: maps_ok_def protect_rtp_def Let_def local_roc_for_def length_hm_insert
      split: option.split sum.split)

lemma maps_ok_accept:
  assumes "maps_ok c" "replay_check c (srtp_ssrc q) i = None"
  shows "maps_ok (rx_accept c q)"
proof -
  have "fst ` set (remote_roc c) = fst ` set (replay_windows c)"
    using assms(1) by (metis list.set_map maps_ok_def)
  then show ?thesis using assms
    by (auto simp: maps_ok_def rx_accept_def map_fst_hm_insert length_hm_insert replay_check_def
        split: option.splits if_splits)
qed

lemma maps_ok_unprotect_rtp: "maps_ok c \<Longrightarrow> maps_ok (fst (unprotect_rtp cr q c))"
proof (cases "remote_key c")
  case (Some km)
  obtain c' res where u: "unprotect_rtp cr q c = (c', res)" by fastforce
  assume "maps_ok c"
  then show ?thesis by (rule_tac unprotect_rtp_cases [OF Some u]) (auto simp: u maps_ok_accept)
qed (simp add: unprotect_rtp_def)

lemma maps_ok_protect_rtcp: "maps_ok c \<Longrightarrow> maps_ok (fst (protect_rtcp cr p c))"
  by (auto simp: maps_ok_def protect_rtcp_def Let_def length_hm_insert split: option.split sum.split)

lemma maps_ok_unprotect_rtcp: "maps_ok c \<Longrightarrow> maps_ok (fst (unprotect_rtcp cr p c))"
  by (auto simp: maps_ok_def unprotect_rtcp_def Let_def split: option.split sum.split)

interpretation srtp_ctx: stepped_system maps_ok "srtp_step cr" for cr
proof
  fix c e assume "maps_ok c"
  then show "maps_ok (srtp_step cr e c)"
    by (cases e) (auto simp: maps_ok_protect_rtp maps_ok_unprotect_rtp maps_ok_protect_rtcp maps_ok_unprotect_rtcp,
        simp add: maps_ok_def rekey_def)
qed

text \<open>
  A context tracks at most 256 SSRCs for outgoing RTP, for outgoing RTCP and for incoming RTP, whatever
  packets it is given.
\<close>

theorem srtp_ssrcs_bounded:
  "let c = fold (srtp_step cr) ops (SrtpContext_with_keys l r) in
   length (local_roc c) \<le> 256 \<and> length (local_srtcp_index c) \<le> 256 \<and>
   length (replay_windows c) \<le> 256 \<and> length (remote_roc c) \<le> 256"
proof -
  have "maps_ok (SrtpContext_with_keys l r)" by (simp add: maps_ok_def SrtpContext_with_keys_def)
  from srtp_ctx.run_inv [OF this, of cr ops] show ?thesis
    unfolding maps_ok_def Let_def MAX_TRACKED_SSRCS_def by (metis length_map)
qed

section \<open>A packet sent late\<close>

text \<open>
  \<open>protect_rtp\<close> takes the rollover counter of the newest packet, not that of the packet: after the
  sequence number wrapped, a packet of the cycle before is protected with an index one cycle too high,
  while a receiver that has seen the same packets estimates the counter of the packet's own cycle.
\<close>

theorem srtp_late_packet_index:
  assumes c: "local_key c = Some km" "map_of (local_roc c) (srtp_ssrc p) = Some t" "roc_rep t h"
    and d: "map_of (remote_roc d) (srtp_ssrc p) = Some t"
    and p: "rtp_ok p" "srtp_sequence p = of_nat j" "h < 2 ^ 48" "j < h" "h < j + 32768"
      "h div 65536 = j div 65536 + 1"
  shows "snd (protect_rtp cr p c) = seal cr km p (of_nat (j div 65536 + 1)) \<and> rx_roc d p = of_nat (j div 65536)"
proof -
  have t0: "local_roc_for (local_roc c) (srtp_ssrc p) = Inr t"
    using c(2) by (simp add: local_roc_for_def entry_or_def)
  have j: "j < 2 ^ 48" "j < h + 32768" using p(3,4) by simp_all
  have "roc_rep (RocTracker_update t (of_nat j)) h"
    using update_exact [OF c(3) j p(5)] p(4) by (simp add: max_def)
  then have "roc (RocTracker_update t (of_nat j)) = of_nat (j div 65536 + 1)"
    using p(6) by (metis roc_repD(1) of_nat_unat ucast_id)
  then have "snd (protect_rtp cr p c) = seal cr km p (of_nat (j div 65536 + 1))"
    using protect_rtp_seal [OF c(1) p(1) t0, of cr] by (simp add: p(2) Let_def)
  moreover have "rx_roc d p = of_nat (j div 65536)"
    using get_roc_exact [OF c(3) j p(5)] by (simp add: rx_roc_def d p(2))
  ultimately show ?thesis by simp
qed

theorem srtp_late_packet_index_witness:
  "let t = \<lparr>roc = 1, rt_highest_seq = 0, s_l = 0\<rparr>;
       km = \<lparr>master_key = replicate 16 3, master_salt = replicate 14 4, km_profile = Aes128CmHmacSha1_80\<rparr>;
       c = (SrtpContext_with_keys km km)\<lparr>local_roc := [(1, t)], remote_roc := [(1, t)]\<rparr> in
   snd (protect_rtp plain_crypto (some_packet 255 255) c) = seal plain_crypto km (some_packet 255 255) 1 \<and>
   rx_roc c (some_packet 255 255) = 0"
proof -
  have s: "srtp_sequence (some_packet 255 255) = of_nat 65535" by (simp add: some_packet_ok be16_def)
  have r: "roc_rep \<lparr>roc = 1, rt_highest_seq = 0, s_l = 0\<rparr> 65536" by (simp add: roc_rep_def)
  let ?km = "\<lparr>master_key = replicate 16 3, master_salt = replicate 14 4, km_profile = Aes128CmHmacSha1_80\<rparr>"
  let ?t = "\<lparr>roc = 1, rt_highest_seq = 0, s_l = 0\<rparr>"
  let ?c = "(SrtpContext_with_keys ?km ?km)\<lparr>local_roc := [(1, ?t)], remote_roc := [(1, ?t)]\<rparr>"
  have "local_key ?c = Some ?km" by (simp add: SrtpContext_with_keys_def)
  from srtp_late_packet_index [OF this _ r, of "some_packet 255 255" ?c 65535 plain_crypto] show ?thesis
    using s by (simp add: Let_def some_packet_ok)
qed

text \<open>
  A packet from before the first one of a stream takes the tracker to the last cycle: the estimate
  \<open>roc - 1\<close> wraps and counts as newer.
\<close>

lemma roc_wraps_below_zero:
  "RocTracker_update (RocTracker_update RocTracker_new 5) 65530 =
     \<lparr>roc = 0xFFFFFFFF, rt_highest_seq = 65530, s_l = 65530\<rparr>"
proof -
  have 1: "RocTracker_update RocTracker_new 5 = \<lparr>roc = 0, rt_highest_seq = 5, s_l = 5\<rparr>"
    by (simp add: RocTracker_update_def RocTracker_new_def)
  have 2: "estimate \<lparr>roc = 0, rt_highest_seq = 5, s_l = 5\<rparr> 65530 = 0xFFFFFFFF"
    by (simp add: estimate_def Let_def)
  have 3: "ext_index 0 5 < ext_index 0xFFFFFFFF 65530"
    by (simp add: word_less_nat_alt unat_ext_index)
  show ?thesis by (subst 1) (simp add: RocTracker_update_def Let_def 2 3)
qed
end
