(* ===== verification/Ebml.thy ===== *)
theory Ebml
  imports Utf8
begin

unbundle bit_operations_syntax

text \<open>
  EBML, the element format of Matroska: the writing primitives of \<^verbatim>\<open>forge-webm/src/ebml.rs\<close> and the cursor of
  \<^verbatim>\<open>forge-webm/src/read.rs\<close> that walks elements in a buffer. An element that was written is read back with
  its identifier, its place and its payload, and a walk over written elements is a fold over what was
  written.
\<close>

section \<open>Definitions\<close>

subsection \<open>Identifiers\<close>

definition ID_EBML :: u32 where
  "ID_EBML = 0x1A45DFA3"

definition ID_EBML_VERSION :: u32 where
  "ID_EBML_VERSION = 0x4286"

definition ID_EBML_READ_VERSION :: u32 where
  "ID_EBML_READ_VERSION = 0x42F7"

definition ID_EBML_MAX_ID_LENGTH :: u32 where
  "ID_EBML_MAX_ID_LENGTH = 0x42F2"

definition ID_EBML_MAX_SIZE_LENGTH :: u32 where
  "ID_EBML_MAX_SIZE_LENGTH = 0x42F3"

definition ID_DOC_TYPE :: u32 where
  "ID_DOC_TYPE = 0x4282"

definition ID_DOC_TYPE_VERSION :: u32 where
  "ID_DOC_TYPE_VERSION = 0x4287"

definition ID_DOC_TYPE_READ_VERSION :: u32 where
  "ID_DOC_TYPE_READ_VERSION = 0x4285"

definition ID_SEGMENT :: u32 where
  "ID_SEGMENT = 0x18538067"

definition ID_SEEK_HEAD :: u32 where
  "ID_SEEK_HEAD = 0x114D9B74"

definition ID_SEEK :: u32 where
  "ID_SEEK = 0x4DBB"

definition ID_SEEK_ID :: u32 where
  "ID_SEEK_ID = 0x53AB"

definition ID_SEEK_POSITION :: u32 where
  "ID_SEEK_POSITION = 0x53AC"

definition ID_VOID :: u32 where
  "ID_VOID = 0xEC"

definition ID_INFO :: u32 where
  "ID_INFO = 0x1549A966"

definition ID_TIMECODE_SCALE :: u32 where
  "ID_TIMECODE_SCALE = 0x002AD7B1"

definition ID_MUXING_APP :: u32 where
  "ID_MUXING_APP = 0x4D80"

definition ID_WRITING_APP :: u32 where
  "ID_WRITING_APP = 0x5741"

definition ID_DURATION :: u32 where
  "ID_DURATION = 0x4489"

definition ID_TRACKS :: u32 where
  "ID_TRACKS = 0x1654AE6B"

definition ID_TRACK_ENTRY :: u32 where
  "ID_TRACK_ENTRY = 0xAE"

definition ID_TRACK_NUMBER :: u32 where
  "ID_TRACK_NUMBER = 0xD7"

definition ID_TRACK_UID :: u32 where
  "ID_TRACK_UID = 0x73C5"

definition ID_TRACK_TYPE :: u32 where
  "ID_TRACK_TYPE = 0x83"

definition ID_FLAG_LACING :: u32 where
  "ID_FLAG_LACING = 0x9C"

definition ID_CODEC_ID :: u32 where
  "ID_CODEC_ID = 0x86"

definition ID_CODEC_PRIVATE :: u32 where
  "ID_CODEC_PRIVATE = 0x63A2"

definition ID_CODEC_DELAY :: u32 where
  "ID_CODEC_DELAY = 0x56AA"

definition ID_SEEK_PRE_ROLL :: u32 where
  "ID_SEEK_PRE_ROLL = 0x56BB"

definition ID_DEFAULT_DURATION :: u32 where
  "ID_DEFAULT_DURATION = 0x0023E383"

definition ID_VIDEO :: u32 where
  "ID_VIDEO = 0xE0"

definition ID_PIXEL_WIDTH :: u32 where
  "ID_PIXEL_WIDTH = 0xB0"

definition ID_PIXEL_HEIGHT :: u32 where
  "ID_PIXEL_HEIGHT = 0xBA"

definition ID_AUDIO :: u32 where
  "ID_AUDIO = 0xE1"

definition ID_SAMPLING_FREQUENCY :: u32 where
  "ID_SAMPLING_FREQUENCY = 0xB5"

definition ID_CHANNELS :: u32 where
  "ID_CHANNELS = 0x9F"

definition ID_CLUSTER :: u32 where
  "ID_CLUSTER = 0x1F43B675"

definition ID_TIMECODE :: u32 where
  "ID_TIMECODE = 0xE7"

definition ID_SIMPLE_BLOCK :: u32 where
  "ID_SIMPLE_BLOCK = 0xA3"

definition ID_CUES :: u32 where
  "ID_CUES = 0x1C53BB6B"

definition ID_CUE_POINT :: u32 where
  "ID_CUE_POINT = 0xBB"

definition ID_CUE_TIME :: u32 where
  "ID_CUE_TIME = 0xB3"

definition ID_CUE_TRACK_POSITIONS :: u32 where
  "ID_CUE_TRACK_POSITIONS = 0xB7"

definition ID_CUE_TRACK :: u32 where
  "ID_CUE_TRACK = 0xF7"

definition ID_CUE_CLUSTER_POSITION :: u32 where
  "ID_CUE_CLUSTER_POSITION = 0xF1"

lemmas id_defs =
  ID_EBML_def ID_EBML_VERSION_def ID_EBML_READ_VERSION_def ID_EBML_MAX_ID_LENGTH_def
  ID_EBML_MAX_SIZE_LENGTH_def ID_DOC_TYPE_def ID_DOC_TYPE_VERSION_def ID_DOC_TYPE_READ_VERSION_def
  ID_SEGMENT_def ID_SEEK_HEAD_def ID_SEEK_def ID_SEEK_ID_def ID_SEEK_POSITION_def ID_VOID_def
  ID_INFO_def ID_TIMECODE_SCALE_def ID_MUXING_APP_def ID_WRITING_APP_def ID_DURATION_def
  ID_TRACKS_def ID_TRACK_ENTRY_def ID_TRACK_NUMBER_def ID_TRACK_UID_def ID_TRACK_TYPE_def
  ID_FLAG_LACING_def ID_CODEC_ID_def ID_CODEC_PRIVATE_def ID_CODEC_DELAY_def ID_SEEK_PRE_ROLL_def
  ID_DEFAULT_DURATION_def ID_VIDEO_def ID_PIXEL_WIDTH_def ID_PIXEL_HEIGHT_def ID_AUDIO_def
  ID_SAMPLING_FREQUENCY_def ID_CHANNELS_def ID_CLUSTER_def ID_TIMECODE_def ID_SIMPLE_BLOCK_def
  ID_CUES_def ID_CUE_POINT_def ID_CUE_TIME_def ID_CUE_TRACK_POSITIONS_def ID_CUE_TRACK_def
  ID_CUE_CLUSTER_POSITION_def

subsection \<open>Writing\<close>

text \<open>The index of the first octet that is not 0, or a default.\<close>

definition first_nonzero :: "nat \<Rightarrow> bytes \<Rightarrow> nat" where
  "first_nonzero d bs = (if list_all (\<lambda>b. b = 0) bs then d else length (takeWhile (\<lambda>b. b = 0) bs))"

definition id_bytes :: "u32 \<Rightarrow> bytes" where
  "id_bytes i = drop (first_nonzero 3 (to_be32 i)) (to_be32 i)"

definition vint_len :: "u64 \<Rightarrow> nat" where
  "vint_len v = (case find (\<lambda>n. v < push_bit (7 * n) 1 - 1) [1..<9] of Some n \<Rightarrow> n | None \<Rightarrow> 8)"

definition write_vint_len :: "u64 \<Rightarrow> nat \<Rightarrow> bytes" where
  "write_vint_len v n =
     (let buf = map (\<lambda>i. ucast (drop_bit (8 * (n - 1 - i)) v)) [0..<n] in
      buf[0 := buf ! 0 OR push_bit (8 - n) 1])"

definition write_vint :: "u64 \<Rightarrow> bytes" where
  "write_vint v = write_vint_len v (vint_len v)"

definition uint_bytes :: "u64 \<Rightarrow> bytes" where
  "uint_bytes v = drop (first_nonzero 7 (to_be64 v)) (to_be64 v)"

definition write_header :: "u32 \<Rightarrow> u64 \<Rightarrow> bytes" where
  "write_header i n = id_bytes i @ write_vint n"

definition write_binary :: "u32 \<Rightarrow> bytes \<Rightarrow> bytes" where
  "write_binary i data = write_header i (of_nat (length data)) @ data"

definition write_uint :: "u32 \<Rightarrow> u64 \<Rightarrow> bytes" where
  "write_uint i v = write_binary i (uint_bytes v)"

definition write_uint_padded :: "u32 \<Rightarrow> u64 \<Rightarrow> nat \<Rightarrow> bytes" where
  "write_uint_padded i v n = write_binary i (drop (8 - n) (to_be64 v))"

text \<open>A float is its 64 bits.\<close>

type_synonym f64 = u64

definition write_f64 :: "u32 \<Rightarrow> f64 \<Rightarrow> bytes" where
  "write_f64 i v = write_binary i (to_be64 v)"

definition write_str :: "u32 \<Rightarrow> bytes \<Rightarrow> bytes" where
  "write_str i v = write_binary i v"

text \<open>The loop of \<^verbatim>\<open>write_void\<close>; \<open>None\<close> is the failed assertion on fewer than two octets.\<close>

function write_void_from :: "nat \<Rightarrow> nat \<Rightarrow> string + bytes" where
  "write_void_from size_len room =
     (if room < 1 + size_len then Inl ''Void too small''
      else
        (let payload = room - 1 - size_len in
         if vint_len (of_nat payload) \<le> size_len
         then Inr (id_bytes ID_VOID @ write_vint_len (of_nat payload) size_len @ replicate payload 0)
         else write_void_from (size_len + 1) room))"
  by pat_completeness auto
termination by (relation "measure (\<lambda>(n, room). room - n)") auto

declare write_void_from.simps [simp del]

definition write_void :: "nat \<Rightarrow> (string + bytes) option" where
  "write_void room = (if room < 2 then None else Some (write_void_from 1 room))"

subsection \<open>Reading\<close>

text \<open>An element's place; offsets into a buffer are natural numbers.\<close>

record Element =
  el_id :: u32
  el_start :: nat
  el_data_start :: nat
  el_size :: "u64 option"

definition Element_end :: "Element \<Rightarrow> nat \<Rightarrow> nat" where
  "Element_end e len = (case el_size e of Some n \<Rightarrow> min (el_data_start e + unat n) len | None \<Rightarrow> len)"

definition Element_body :: "Element \<Rightarrow> bytes \<Rightarrow> bytes" where
  "Element_body e data =
     (let start = el_data_start e; stop = Element_end e (length data) in
      drop (min start (length data)) (take (min stop (length data)) data))"

record Cursor =
  cu_data :: bytes
  cu_pos :: nat
  cu_end :: nat

definition Cursor_new :: "bytes \<Rightarrow> Cursor" where
  "Cursor_new data = \<lparr>cu_data = data, cu_pos = 0, cu_end = length data\<rparr>"

definition Cursor_at :: "bytes \<Rightarrow> nat \<Rightarrow> nat \<Rightarrow> Cursor" where
  "Cursor_at data start stop = \<lparr>cu_data = data, cu_pos = start, cu_end = min stop (length data)\<rparr>"

text \<open>\<^verbatim>\<open>u8::leading_zeros\<close>.\<close>

definition leading_zeros :: "u8 \<Rightarrow> nat" where
  "leading_zeros b = length (takeWhile (\<lambda>i. \<not> bit b i) [7, 6, 5, 4, 3, 2, 1, 0])"

definition marker_len :: "u8 \<Rightarrow> nat option" where
  "marker_len b = (if b = 0 then None else Some (leading_zeros b + 1))"

definition read_id :: "Cursor \<Rightarrow> (u32 \<times> Cursor) option" where
  "read_id c =
     (if length (cu_data c) \<le> cu_pos c then None
      else
        (case marker_len (cu_data c ! cu_pos c) of
           None \<Rightarrow> None
         | Some n \<Rightarrow>
             if cu_end c < cu_pos c + n then None
             else Some (fold (\<lambda>b i. push_bit 8 i OR ucast b) (take n (drop (cu_pos c) (cu_data c))) 0,
                    c\<lparr>cu_pos := cu_pos c + n\<rparr>)))"

definition read_size :: "Cursor \<Rightarrow> (u64 option \<times> Cursor) option" where
  "read_size c =
     (if length (cu_data c) \<le> cu_pos c then None
      else
        (let first = cu_data c ! cu_pos c in
         case marker_len first of
           None \<Rightarrow> None
         | Some n \<Rightarrow>
             if cu_end c < cu_pos c + n then None
             else
               (let v = fold (\<lambda>b v. push_bit 8 v OR ucast b) (take (n - 1) (drop (cu_pos c + 1) (cu_data c)))
                      (ucast (first AND NOT (push_bit (8 - n) 1)));
                    all_ones = push_bit (7 * n) 1 - 1 in
                Some (if v \<noteq> all_ones then Some v else None, c\<lparr>cu_pos := cu_pos c + n\<rparr>))))"

definition vint_value :: "Cursor \<Rightarrow> (u64 \<times> Cursor) option" where
  "vint_value c = (case read_size c of Some (Some v, c') \<Rightarrow> Some (v, c') | _ \<Rightarrow> None)"

definition Cursor_element :: "Cursor \<Rightarrow> string + (Element option \<times> Cursor)" where
  "Cursor_element c =
     (if cu_end c \<le> cu_pos c then Inr (None, c)
      else
        (case read_id c of
           None \<Rightarrow> Inr (None, c)
         | Some (i, c1) \<Rightarrow>
             (case read_size c1 of
                None \<Rightarrow> Inl (''truncated size for element '' @ show_hex (unat i))
              | Some (n, c2) \<Rightarrow>
                  (let e = \<lparr>el_id = i, el_start = cu_pos c, el_data_start = cu_pos c2, el_size = n\<rparr>;
                       step = (case n of None \<Rightarrow> 0 | Some v \<Rightarrow> unat v) in
                   Inr (Some e, c2\<lparr>cu_pos := min (cu_pos c2 + step) (cu_end c2)\<rparr>)))))"

text \<open>The loop \<^verbatim>\<open>while let Some(e) = c.element()?\<close> of every reader, with the state its body changes.\<close>

lemma marker_len_pos: "marker_len b = Some n \<Longrightarrow> 0 < n"
  by (auto simp: marker_len_def split: if_splits)

lemma Cursor_element_advances:
  assumes "Cursor_element c = Inr (Some e, c')"
  shows "cu_end c' = cu_end c" "cu_pos c < cu_pos c'" "cu_pos c < cu_end c"
proof -
  show lt: "cu_pos c < cu_end c" using assms by (auto simp: Cursor_element_def split: if_splits)
  with assms show "cu_end c' = cu_end c" "cu_pos c < cu_pos c'"
    by (auto simp: Cursor_element_def read_id_def read_size_def Let_def split: if_splits option.splits
        dest!: marker_len_pos)
qed

function walk :: "(Element \<Rightarrow> 's \<Rightarrow> string + 's) \<Rightarrow> Cursor \<Rightarrow> 's \<Rightarrow> string + 's" where
  "walk f c s =
     (case Cursor_element c of
        Inl e \<Rightarrow> Inl e
      | Inr (None, c') \<Rightarrow> Inr s
      | Inr (Some e, c') \<Rightarrow> (case f e s of Inl x \<Rightarrow> Inl x | Inr s' \<Rightarrow> walk f c' s'))"
  by pat_completeness auto
termination
proof (relation "measure (\<lambda>(f, c, s). cu_end c - cu_pos c)", simp, clarsimp)
  fix c c' :: Cursor and e :: Element
  assume "Cursor_element c = Inr (Some e, c')"
  from Cursor_element_advances [OF this] show "cu_end c' - cu_pos c' < cu_end c - cu_pos c" by simp
qed

declare walk.simps [simp del]

definition uint_of :: "bytes \<Rightarrow> u64" where
  "uint_of body = fold (\<lambda>b acc. push_bit 8 acc OR ucast b) body 0"

section \<open>Integers\<close>

text \<open>The last \<open>n\<close> octets of a word, most significant first.\<close>

fun be_bytes :: "nat \<Rightarrow> u64 \<Rightarrow> bytes" where
  "be_bytes 0 v = []"
| "be_bytes (Suc n) v = ucast (drop_bit (8 * n) v) # be_bytes n v"

lemma length_be_bytes [simp]: "length (be_bytes n v) = n"
  by (induction n) auto

lemma be_bytes_map: "map (\<lambda>i. ucast (drop_bit (8 * (n - 1 - i)) v)) [0..<n] = be_bytes n v"
proof (induction n)
  case (Suc n)
  have "map (\<lambda>i. ucast (drop_bit (8 * (Suc n - 1 - i)) v) :: u8) [0..<Suc n] =
      ucast (drop_bit (8 * n) v) # map (\<lambda>i. ucast (drop_bit (8 * (n - 1 - i)) v)) [0..<n]"
    unfolding upt_conv_Cons [OF zero_less_Suc] map_Suc_upt [symmetric] by simp
  then show ?case using Suc by simp
qed simp

lemma to_be64_bytes: "to_be64 v = be_bytes 8 v"
  by (simp add: to_be64_def to_be32_def numeral_eq_Suc drop_bit_drop_bit)
    (auto intro!: bit_word_eqI simp: bit_simps)

lemma push_octet:
  "push_bit k (push_bit 8 acc OR ucast (ucast (drop_bit k v) :: u8)) OR take_bit k v =
   push_bit (k + 8) acc OR take_bit (k + 8) (v :: 'a::len word)"
  by (rule bit_word_eqI) (auto simp: bit_simps)

lemma fold_be_bytes:
  "fold (\<lambda>b acc. push_bit 8 acc OR ucast b) (be_bytes n v) acc = push_bit (8 * n) acc OR take_bit (8 * n) (v :: u64)"
  by (induction n arbitrary: acc) (simp_all add: push_octet add.commute del: push_bit_or)

lemma fold_zeros:
  "list_all (\<lambda>b. b = 0) zs \<Longrightarrow> fold (\<lambda>b acc. push_bit 8 acc OR ucast b) (zs @ bs) 0 =
     fold (\<lambda>b acc. push_bit 8 acc OR ucast b) bs (0 :: 'a::len word)"
  by (induction zs) auto

lemma fold_first_nonzero:
  assumes "length bs = Suc d"
  shows "fold (\<lambda>b acc. push_bit 8 acc OR ucast b) (drop (first_nonzero d bs) bs) 0 =
    fold (\<lambda>b acc. push_bit 8 acc OR ucast b) bs (0 :: 'a::len word)"
proof -
  let ?k = "first_nonzero d bs"
  have "list_all (\<lambda>b. b = 0) (take ?k bs)"
  proof (cases "list_all (\<lambda>b. b = 0) bs")
    case True then show ?thesis by (auto simp: list_all_iff dest: in_set_takeD)
  next
    case False
    then show ?thesis by (auto simp: first_nonzero_def takeWhile_eq_take [symmetric] list_all_iff dest: set_takeWhileD)
  qed
  from fold_zeros [where 'a = 'a, OF this, of "drop ?k bs"] show ?thesis by simp
qed

lemma uint_of_uint_bytes [simp]: "uint_of (uint_bytes v) = v"
  unfolding uint_of_def uint_bytes_def by (simp add: fold_first_nonzero to_be64_bytes fold_be_bytes take_bit_word_eq_self)

lemma uint_of_be64 [simp]: "uint_of (to_be64 v) = v"
  by (simp add: uint_of_def to_be64_bytes fold_be_bytes take_bit_word_eq_self)

lemma first_nonzero_le: "length bs = Suc d \<Longrightarrow> first_nonzero d bs \<le> d"
proof (cases "list_all (\<lambda>b. b = 0) bs")
  case False
  assume len: "length bs = Suc d"
  have "takeWhile (\<lambda>b. b = 0) bs \<noteq> bs" using False by (auto simp: takeWhile_eq_all_conv list_all_iff)
  then have "length (takeWhile (\<lambda>b. b = 0) bs) \<noteq> length bs"
    by (metis takeWhile_eq_take take_all order_refl)
  then show ?thesis using False len length_takeWhile_le [of "\<lambda>b. b = 0" bs] by (simp add: first_nonzero_def)
qed (simp add: first_nonzero_def)

lemma length_uint_bytes: "0 < length (uint_bytes v)" "length (uint_bytes v) \<le> 8"
  using first_nonzero_le [of "to_be64 v" 7] by (auto simp: uint_bytes_def)

section \<open>Sizes\<close>

text \<open>A value fits \<open>n\<close> octets when it is below the all-ones value of that length.\<close>

definition fits :: "u64 \<Rightarrow> nat \<Rightarrow> bool" where
  "fits v n \<longleftrightarrow> 1 \<le> n \<and> n \<le> 8 \<and> v < push_bit (7 * n) 1 - 1"

lemma unat_ones:
  assumes "n \<le> 8"
  shows "unat (push_bit (7 * n) 1 - 1 :: u64) = 2 ^ (7 * n) - 1"
proof -
  have "unat (push_bit (7 * n) 1 :: u64) = 2 ^ (7 * n)"
    using assms by (simp add: unsigned_push_bit_eq take_bit_push_bit del: push_bit_of_1)
  moreover have "(1 :: u64) \<le> push_bit (7 * n) 1"
    unfolding word_le_nat_alt calculation by simp
  ultimately show ?thesis by (simp add: unat_sub)
qed

lemma fits_unat: "fits v n \<longleftrightarrow> 1 \<le> n \<and> n \<le> 8 \<and> unat v < 2 ^ (7 * n) - 1"
  using unat_ones [of n] by (auto simp: fits_def word_less_nat_alt)

lemma fits_bit: "fits v n \<Longrightarrow> 7 * n \<le> i \<Longrightarrow> \<not> bit v i"
proof -
  assume f: "fits v n" "7 * n \<le> i"
  then have "take_bit (7 * n) (unat v) = unat v" by (auto simp: fits_unat take_bit_nat_eq_self)
  then have "\<not> bit (unat v) i" using f(2) by (metis bit_take_bit_iff not_less)
  then show ?thesis by (simp add: bit_unsigned_iff)
qed

lemma vint_len_fits:
  assumes "unat v < 2 ^ 56 - 1"
  shows "fits v (vint_len v)"
proof -
  have 8: "v < push_bit (7 * 8) 1 - 1"
    using assms unat_ones [of 8] by (simp add: word_less_nat_alt)
  obtain n where n: "find (\<lambda>n. v < push_bit (7 * n) 1 - 1) [1..<9] = Some n"
  proof (cases "find (\<lambda>n. v < push_bit (7 * n) 1 - 1) [1..<9]")
    case None
    have "(8 :: nat) \<in> set [1..<9]" by simp
    then show ?thesis using None 8 unfolding find_None_iff by blast
  qed blast
  from n have "v < push_bit (7 * n) 1 - 1" "n \<in> set [1..<9]" unfolding find_Some_iff by auto
  moreover have "vint_len v = n" unfolding vint_len_def n by simp
  ultimately show ?thesis by (auto simp: fits_def)
qed

lemma vint_len_small: "unat v < 127 \<Longrightarrow> vint_len v = 1"
  by (simp add: vint_len_def upt_conv_Cons word_less_nat_alt)

lemma write_vint_len_eq:
  "1 \<le> n \<Longrightarrow> write_vint_len v n =
     (ucast (drop_bit (8 * (n - 1)) v) OR push_bit (8 - n) 1) # be_bytes (n - 1) v"
  unfolding write_vint_len_def be_bytes_map by (cases n) (auto simp: Let_def)

lemma marker_octet:
  fixes b :: u8
  assumes n: "1 \<le> n" "n \<le> 8" and b: "\<forall>i \<ge> 8 - n. \<not> bit b i"
  shows "marker_len (b OR push_bit (8 - n) 1) = Some n" (is ?A)
    and "(b OR push_bit (8 - n) 1) AND NOT (push_bit (8 - n) 1) = b" (is ?B)
proof -
  have bit: "bit (b OR push_bit (8 - n) 1) i \<longleftrightarrow> bit b i \<or> i = 8 - n" for i
    using n by (auto simp: bit_or_iff bit_exp_iff)
  then have "b OR push_bit (8 - n) 1 \<noteq> 0" by (metis bit_0_eq bot_apply bot_bool_def)
  moreover have "leading_zeros (b OR push_bit (8 - n) 1) = n - 1"
  proof -
    have "n \<in> {1, 2, 3, 4, 5, 6, 7, 8}" using n by auto
    then show ?thesis unfolding leading_zeros_def bit using b by (elim insertE) simp_all
  qed
  ultimately show ?A using n by (simp add: marker_len_def)
  show ?B using b by (intro bit_word_eqI) (auto simp: bit_and_iff bit_not_iff bit_or_iff bit_exp_iff)
qed

section \<open>Elements\<close>

text \<open>A cursor stands before \<open>bs\<close> when its buffer goes on with \<open>bs\<close> up to its end at least.\<close>

definition before :: "Cursor \<Rightarrow> bytes \<Rightarrow> bool" where
  "before c bs \<longleftrightarrow> cu_end c \<le> length (cu_data c) \<and> cu_pos c + length bs \<le> cu_end c \<and>
     take (length bs) (drop (cu_pos c) (cu_data c)) = bs"

definition skip :: "nat \<Rightarrow> Cursor \<Rightarrow> Cursor" where
  "skip n c = c\<lparr>cu_pos := cu_pos c + n\<rparr>"

lemma skip_simps [simp]: "cu_pos (skip n c) = cu_pos c + n" "cu_data (skip n c) = cu_data c" "cu_end (skip n c) = cu_end c"
  "skip m (skip n c) = skip (n + m) c" "skip 0 c = c"
  by (simp_all add: skip_def add.assoc)

lemma before_append: "before c (xs @ ys) \<longleftrightarrow> before c xs \<and> before (skip (length xs) c) ys"
  by (auto simp: before_def add.assoc take_add add.commute)

lemma before_Cons:
  assumes "before c (b # bs)"
  shows "cu_pos c < length (cu_data c)" "cu_data c ! cu_pos c = b" "cu_pos c < cu_end c"
    "take (length bs) (drop (cu_pos c + 1) (cu_data c)) = bs"
proof -
  show 1: "cu_pos c < length (cu_data c)" "cu_pos c < cu_end c" using assms by (auto simp: before_def)
  have "drop (cu_pos c) (cu_data c) = cu_data c ! cu_pos c # drop (Suc (cu_pos c)) (cu_data c)"
    using 1 by (simp add: Cons_nth_drop_Suc)
  then show "cu_data c ! cu_pos c = b" "take (length bs) (drop (cu_pos c + 1) (cu_data c)) = bs"
    using assms by (auto simp: before_def)
qed

lemma length_write_vint_len [simp]: "length (write_vint_len v n) = n"
  by (simp add: write_vint_len_def Let_def)

lemma read_size_written:
  assumes f: "fits v n" and c: "before c (write_vint_len v n)"
  shows "read_size c = Some (Some v, skip n c)"
proof -
  have n: "1 \<le> n" "n \<le> 8" using f by (auto simp: fits_def)
  let ?b = "ucast (drop_bit (8 * (n - 1)) v) :: u8"
  have b: "\<forall>i \<ge> 8 - n. \<not> bit ?b i"
  proof (intro allI impI)
    fix i assume "8 - n \<le> i"
    then have "7 * n \<le> 8 * (n - 1) + i" using n by linarith
    then show "\<not> bit ?b i" using fits_bit [OF f] by (auto simp: bit_ucast_iff bit_drop_bit_eq)
  qed
  note M = marker_octet [OF n b]
  note B = before_Cons [OF c [unfolded write_vint_len_eq [OF n(1)]]]
  have ones: "v \<noteq> push_bit (7 * n) 1 - 1" using f by (auto simp: fits_def)
  have "push_bit (8 * (n - 1)) (ucast ?b) OR take_bit (8 * (n - 1)) v = v"
  proof (rule bit_word_eqI)
    fix i assume i: "i < LENGTH(64)"
    obtain m where m: "n = Suc m" using n by (cases n) auto
    have "8 * m + 8 \<le> i \<Longrightarrow> \<not> bit v i" using fits_bit [OF f, of i] m by simp
    then show "bit (push_bit (8 * (n - 1)) (ucast ?b) OR take_bit (8 * (n - 1)) v) i = bit v i"
      using i by (cases "i < 8 * m"; cases "i < 8 * m + 8") (auto simp: bit_simps m)
  qed
  moreover have "cu_pos c + n \<le> cu_end c" using c by (simp add: before_def)
  ultimately show ?thesis
    using B n M ones by (simp add: read_size_def Let_def fold_be_bytes skip_def)
qed

definition id_ok :: "u32 \<Rightarrow> bool" where
  "id_ok i \<longleftrightarrow> marker_len (hd (id_bytes i)) = Some (length (id_bytes i))"

lemma length_id_bytes: "0 < length (id_bytes i)" "length (id_bytes i) \<le> 4"
  using first_nonzero_le [of "to_be32 i" 3] by (auto simp: id_bytes_def)

lemma fold_be32: "fold (\<lambda>b acc. push_bit 8 acc OR ucast b) (to_be32 i) 0 = i"
proof (rule to_be32_split [of i])
  fix a b c d assume "to_be32 i = [a, b, c, d]" "be32 a b c d = i"
  moreover have "fold (\<lambda>b acc. push_bit 8 acc OR ucast b) [a, b, c, d] 0 = be32 a b c d"
    by (simp add: be32_def or.assoc)
  ultimately show ?thesis by simp
qed

lemma read_id_written:
  assumes i: "id_ok i" and c: "before c (id_bytes i)"
  shows "read_id c = Some (i, skip (length (id_bytes i)) c)"
proof -
  obtain b bs where b: "id_bytes i = b # bs" using length_id_bytes(1) [of i] by (cases "id_bytes i") auto
  note B = before_Cons [OF c [unfolded b]]
  have "fold (\<lambda>b acc. push_bit 8 acc OR ucast b) (id_bytes i) 0 = i"
    by (simp add: id_bytes_def fold_first_nonzero fold_be32)
  then show ?thesis
    using i B c by (simp add: read_id_def id_ok_def b before_def skip_def)
qed

subsection \<open>One element\<close>

text \<open>An element whose size takes \<open>n\<close> octets.\<close>

definition raw_elem :: "u32 \<times> nat \<times> bytes \<Rightarrow> bytes" where
  "raw_elem = (\<lambda>(i, n, b). id_bytes i @ write_vint_len (of_nat (length b)) n @ b)"

definition raw_ok :: "u32 \<times> nat \<times> bytes \<Rightarrow> bool" where
  "raw_ok = (\<lambda>(i, n, b). id_ok i \<and> length b < 2 ^ 56 - 1 \<and> fits (of_nat (length b)) n)"

definition elem :: "u32 \<Rightarrow> bytes \<Rightarrow> u32 \<times> nat \<times> bytes" where
  "elem i b = (i, vint_len (of_nat (length b)), b)"

lemma write_binary_raw: "write_binary i b = raw_elem (elem i b)"
  by (simp add: write_binary_def write_header_def write_vint_def raw_elem_def elem_def)

lemma unat_length: "length b < 2 ^ 56 - 1 \<Longrightarrow> unat (of_nat (length b) :: u64) = length b"
  by (simp add: unsigned_of_nat take_bit_nat_eq_self)

lemma raw_ok_elem: "id_ok i \<Longrightarrow> length b < 2 ^ 56 - 1 \<Longrightarrow> raw_ok (elem i b)"
  using vint_len_fits [of "of_nat (length b)"] by (simp add: raw_ok_def elem_def unat_length)

lemma raw_elem_nonempty [simp]: "raw_elem x \<noteq> []"
  using length_id_bytes(1) [of "fst x"] by (auto simp: raw_elem_def split: prod.splits)

text \<open>The element at \<open>p\<close>.\<close>

definition placed_at :: "nat \<Rightarrow> u32 \<times> nat \<times> bytes \<Rightarrow> Element" where
  "placed_at p = (\<lambda>(i, n, b). \<lparr>el_id = i, el_start = p, el_data_start = p + length (id_bytes i) + n,
     el_size = Some (of_nat (length b))\<rparr>)"

lemma placed_at_simps [simp]: "el_id (placed_at p (elem i b)) = i" "el_start (placed_at p x) = p"
  "el_id (placed_at p (i, n, b)) = i"
  by (simp_all add: placed_at_def elem_def split: prod.split)

lemma element_written:
  assumes x: "raw_ok x" and c: "before c (raw_elem x)"
  shows "Cursor_element c = Inr (Some (placed_at (cu_pos c) x), skip (length (raw_elem x)) c)"
    and "Element_body (placed_at (cu_pos c) x) (cu_data c) = snd (snd x)"
proof -
  obtain i n b where xe: "x = (i, n, b)" by (cases x)
  let ?k = "length (id_bytes i)"
  have ok: "id_ok i" "length b < 2 ^ 56 - 1" "fits (of_nat (length b)) n" using x by (auto simp: raw_ok_def xe)
  have parts: "before c (id_bytes i)" "before (skip ?k c) (write_vint_len (of_nat (length b)) n)"
    "before (skip (?k + n) c) b"
    using c by (simp_all add: raw_elem_def xe before_append)
  note I = read_id_written [OF ok(1) parts(1)] and S = read_size_written [OF ok(3) parts(2)]
  have pos: "cu_pos c < cu_end c" using parts(1) length_id_bytes(1) [of i] unfolding before_def by linarith
  have e: "cu_pos c + ?k + n + length b \<le> cu_end c" "cu_end c \<le> length (cu_data c)"
    "take (length b) (drop (cu_pos c + ?k + n) (cu_data c)) = b"
    using parts(3) by (simp_all add: before_def add.assoc)
  show "Cursor_element c = Inr (Some (placed_at (cu_pos c) x), skip (length (raw_elem x)) c)"
    using pos e(1) unat_length [OF ok(2)]
    by (simp add: Cursor_element_def I S placed_at_def xe raw_elem_def Let_def add.assoc)
  show "Element_body (placed_at (cu_pos c) x) (cu_data c) = snd (snd x)"
    using e unat_length [OF ok(2)]
    by (simp add: Element_body_def Element_end_def placed_at_def xe Let_def min_def take_drop add.commute add.left_commute)
qed

subsection \<open>Walks\<close>

fun fold_io :: "('a \<Rightarrow> 's \<Rightarrow> string + 's) \<Rightarrow> 'a list \<Rightarrow> 's \<Rightarrow> string + 's" where
  "fold_io f [] s = Inr s"
| "fold_io f (x # xs) s = (case f x s of Inl e \<Rightarrow> Inl e | Inr s' \<Rightarrow> fold_io f xs s')"

lemma fold_io_append: "fold_io f (xs @ ys) s = (case fold_io f xs s of Inl e \<Rightarrow> Inl e | Inr s' \<Rightarrow> fold_io f ys s')"
  by (induction xs arbitrary: s) (auto split: sum.split)

lemma fold_io_cong: "(\<And>x s. x \<in> set xs \<Longrightarrow> f x s = g x s) \<Longrightarrow> fold_io f xs s = fold_io g xs s"
  by (induction xs arbitrary: s) (auto split: sum.split)

fun placed :: "nat \<Rightarrow> (u32 \<times> nat \<times> bytes) list \<Rightarrow> (Element \<times> bytes) list" where
  "placed p [] = []"
| "placed p (x # xs) = (placed_at p x, snd (snd x)) # placed (p + length (raw_elem x)) xs"

text \<open>A walk over elements that were written is a fold over them, each with its payload.\<close>

lemma walk_end: "cu_pos c = cu_end c \<Longrightarrow> walk f c s = Inr s"
  by (simp add: walk.simps Cursor_element_def)

lemma walk_written:
  assumes "\<forall>x\<in>set xs. raw_ok x" "before c (concat (map raw_elem xs))"
    "cu_pos c + length (concat (map raw_elem xs)) = cu_end c"
    "cu_data c = data" "\<And>e b s. Element_body e data = b \<Longrightarrow> f e s = g e b s"
  shows "walk f c s = fold_io (\<lambda>(e, b). g e b) (placed (cu_pos c) xs) s"
  using assms
proof (induction xs arbitrary: c s)
  case Nil
  then show ?case by (simp add: walk_end)
next
  case (Cons x xs)
  have p: "before c (raw_elem x)" "before (skip (length (raw_elem x)) c) (concat (map raw_elem xs))"
    using Cons.prems(2) by (simp_all add: before_append)
  note E = element_written [OF _ p(1)]
  have x: "raw_ok x" using Cons.prems(1) by simp
  have rest: "\<forall>x\<in>set xs. raw_ok x" "cu_data (skip (length (raw_elem x)) c) = data"
    "cu_pos (skip (length (raw_elem x)) c) + length (concat (map raw_elem xs)) = cu_end (skip (length (raw_elem x)) c)"
    using Cons.prems(1,3,4) by (simp_all add: add.assoc)
  have "walk f (skip (length (raw_elem x)) c) s' =
      fold_io (\<lambda>(e, b). g e b) (placed (cu_pos c + length (raw_elem x)) xs) s'" for s'
    using Cons.IH [OF rest(1) p(2) rest(3,2) Cons.prems(5), of s'] by simp
  then show ?case
    using E(1) [OF x] Cons.prems(5) [OF E(2) [OF x, unfolded Cons.prems(4)]]
    by (subst walk.simps) (simp split: sum.split)
qed

lemma walk_new:
  assumes "\<forall>x\<in>set xs. raw_ok x" "data = concat (map raw_elem xs)"
  shows "walk (\<lambda>e s. g (el_id e) (Element_body e data) s) (Cursor_new data) s = fold_io (\<lambda>(i, n, b). g i b) xs s"
proof -
  have "walk (\<lambda>e s. g (el_id e) (Element_body e data) s) (Cursor_new data) s =
      fold_io (\<lambda>(e, b). g (el_id e) b) (placed 0 xs) s"
    using walk_written [OF assms(1), of "Cursor_new data" data "\<lambda>e s. g (el_id e) (Element_body e data) s"
        "\<lambda>e b s. g (el_id e) b s" s]
    by (simp add: assms(2) Cursor_new_def before_def)
  also have "fold_io (\<lambda>(e, b). g (el_id e) b) (placed p xs) s = fold_io (\<lambda>(i, n, b). g i b) xs s" for p
    by (induction xs arbitrary: p s) (auto simp: placed_at_def split: sum.split prod.split)
  finally show ?thesis .
qed

lemma fold_io_pure: "(\<And>x s. x \<in> set xs \<Longrightarrow> f x s = Inr (g x s)) \<Longrightarrow> fold_io f xs s = Inr (fold g xs s)"
  by (induction xs arbitrary: s) auto
end
