(* ===== verification/Webm.thy ===== *)
theory Webm
  imports Ebml
begin

unbundle bit_operations_syntax

text \<open>
  The Matroska writer of \<^verbatim>\<open>forge-webm/src/lib.rs\<close> and the reader of \<^verbatim>\<open>forge-webm/src/read.rs\<close>. The output is a
  seekable file whose operations do not fail, as its octets. What is recorded is read back: the tracks,
  every frame with its time, its flag and its length, the cues and the index, from a finished file and from
  one that was abandoned.
\<close>

section \<open>Definitions\<close>

subsection \<open>Floats\<close>

text \<open>
  The conversion of an unsigned integer to the nearest 64-bit float, ties to even: a significand of 53 bits
  with the leading one left out, and a biased exponent.
\<close>

definition bit_length :: "int \<Rightarrow> nat" where
  "bit_length n = length (dropWhile (\<lambda>i. \<not> bit n i) (rev [0..<64]))"

definition f64_of_u64 :: "u64 \<Rightarrow> f64" where
  "f64_of_u64 v =
     (let n = uint v; k = bit_length n; e = (int k + 1022) * 2 ^ 52 in
      if n = 0 then 0
      else if k \<le> 53 then of_int (e + (n * 2 ^ (53 - k) - 2 ^ 52))
      else
        (let sh = k - 53; q = n div 2 ^ sh; r = n mod 2 ^ sh; half = 2 ^ (sh - 1);
             q' = (if r > half \<or> r = half \<and> odd q then q + 1 else q) in
         of_int (e + (q' - 2 ^ 52))))"

text \<open>
  The widening of a 32-bit float: zero, subnormal, normal and special values; a subnormal value becomes
  normal.
\<close>

definition f64_of_f32 :: "u32 \<Rightarrow> f64" where
  "f64_of_f32 w =
     (let s = uint (drop_bit 31 w) * 2 ^ 63; e = uint (drop_bit 23 w AND 0xFF); m = uint (w AND 0x7FFFFF) in
      if e = 255 then of_int (s + 2047 * 2 ^ 52 + (if m = 0 then 0 else 2 ^ 51) + (m mod 2 ^ 22) * 2 ^ 29)
      else if e \<noteq> 0 then of_int (s + (e + 896) * 2 ^ 52 + m * 2 ^ 29)
      else if m = 0 then of_int s
      else
        (let k = bit_length m in
         of_int (s + (int k + 873) * 2 ^ 52 + (m * 2 ^ (53 - k) - 2 ^ 52))))"

definition float_of :: "bytes \<Rightarrow> f64" where
  "float_of body =
     (if length body = 4 then f64_of_f32 (be32 (body ! 0) (body ! 1) (body ! 2) (body ! 3))
      else if length body = 8
      then be64 (body ! 0) (body ! 1) (body ! 2) (body ! 3) (body ! 4) (body ! 5) (body ! 6) (body ! 7)
      else 0)"

subsection \<open>Configuration\<close>

definition VIDEO_TRACK :: u64 where
  "VIDEO_TRACK = 1"

definition AUDIO_TRACK :: u64 where
  "AUDIO_TRACK = 2"

definition TIMECODE_SCALE_NS :: u64 where
  "TIMECODE_SCALE_NS = 1000000"

definition SEEK_HEAD_RESERVE :: nat where
  "SEEK_HEAD_RESERVE = 96"

datatype WebmError = WebmIo string | Backwards u64 u64 | NoTrack string

datatype WebmVideoCodec = WebmVp8 | WebmVp9

fun webm_codec_id :: "WebmVideoCodec \<Rightarrow> bytes" where
  "webm_codec_id WebmVp8 = str ''V_VP8''"
| "webm_codec_id WebmVp9 = str ''V_VP9''"

record VideoTrack =
  vt_codec :: WebmVideoCodec
  vt_width :: u32
  vt_height :: u32
  vt_fps :: "u32 option"

definition VideoTrack_new :: "WebmVideoCodec \<Rightarrow> u32 \<Rightarrow> u32 \<Rightarrow> VideoTrack" where
  "VideoTrack_new codec w h = \<lparr>vt_codec = codec, vt_width = w, vt_height = h, vt_fps = None\<rparr>"

definition VideoTrack_fps :: "u32 \<Rightarrow> VideoTrack \<Rightarrow> VideoTrack" where
  "VideoTrack_fps fps t = t\<lparr>vt_fps := (if fps > 0 then Some fps else None)\<rparr>"

record AudioTrack =
  at_sample_rate :: u32
  at_channels :: u8
  at_pre_skip :: u16

definition AudioTrack_opus :: "u32 \<Rightarrow> u8 \<Rightarrow> AudioTrack" where
  "AudioTrack_opus rate channels = \<lparr>at_sample_rate = rate, at_channels = max channels 1, at_pre_skip = 3840\<rparr>"

definition AudioTrack_pre_skip :: "u16 \<Rightarrow> AudioTrack \<Rightarrow> AudioTrack" where
  "AudioTrack_pre_skip n t = t\<lparr>at_pre_skip := n\<rparr>"

definition opus_head :: "AudioTrack \<Rightarrow> bytes" where
  "opus_head a = str ''OpusHead'' @ [1, at_channels a] @ rev (to_be16 (at_pre_skip a))
     @ rev (to_be32 (at_sample_rate a)) @ [0, 0] @ [0]"

definition webm_codec_delay_ns :: "AudioTrack \<Rightarrow> u64" where
  "webm_codec_delay_ns a = ucast (at_pre_skip a) * 1000000000 div 48000"

record ClusterLimits =
  cl_min_ms :: u64
  cl_max_ms :: u64
  cl_max_bytes :: nat

definition ClusterLimits_default :: ClusterLimits where
  "ClusterLimits_default = \<lparr>cl_min_ms = 1000, cl_max_ms = 5000, cl_max_bytes = 4 * 1024 * 1024\<rparr>"

record WebmConfig =
  wc_video :: "VideoTrack option"
  wc_audio :: "AudioTrack option"
  wc_max_cluster :: ClusterLimits
  wc_writing_app :: "bytes option"

definition WebmConfig_new :: WebmConfig where
  "WebmConfig_new = \<lparr>wc_video = None, wc_audio = None, wc_max_cluster = ClusterLimits_default, wc_writing_app = None\<rparr>"

definition WebmConfig_video :: "VideoTrack \<Rightarrow> WebmConfig \<Rightarrow> WebmConfig" where
  "WebmConfig_video t c = c\<lparr>wc_video := Some t\<rparr>"

definition WebmConfig_audio :: "AudioTrack \<Rightarrow> WebmConfig \<Rightarrow> WebmConfig" where
  "WebmConfig_audio t c = c\<lparr>wc_audio := Some t\<rparr>"

definition WebmConfig_max_cluster :: "ClusterLimits \<Rightarrow> WebmConfig \<Rightarrow> WebmConfig" where
  "WebmConfig_max_cluster l c = c\<lparr>wc_max_cluster := l\<rparr>"

definition WebmConfig_writing_app :: "bytes \<Rightarrow> WebmConfig \<Rightarrow> WebmConfig" where
  "WebmConfig_writing_app app c = c\<lparr>wc_writing_app := Some app\<rparr>"

record WebmStats =
  ws_duration_ms :: u64
  ws_bytes :: u64
  ws_video_frames :: u64
  ws_video_keyframes :: u64
  ws_audio_frames :: u64
  ws_clusters :: u64

definition WebmStats_default :: WebmStats where
  "WebmStats_default = \<lparr>ws_duration_ms = 0, ws_bytes = 0, ws_video_frames = 0, ws_video_keyframes = 0,
     ws_audio_frames = 0, ws_clusters = 0\<rparr>"

record CuePoint =
  cp_time_ms :: u64
  cp_track :: u64
  cp_cluster_position :: u64

record ClusterBuf =
  cb_timecode_ms :: u64
  cb_body :: bytes
  cb_last_ms :: u64
  cb_cue :: "(u64 \<times> u64) option"

subsection \<open>The fixed part of a file\<close>

definition unknown_size_8 :: u64 where
  "unknown_size_8 = push_bit 56 1 - 1"

definition write_ebml_header :: bytes where
  "write_ebml_header = write_binary ID_EBML
     (write_uint ID_EBML_VERSION 1 @ write_uint ID_EBML_READ_VERSION 1 @ write_uint ID_EBML_MAX_ID_LENGTH 4
       @ write_uint ID_EBML_MAX_SIZE_LENGTH 8 @ write_str ID_DOC_TYPE (str ''webm'')
       @ write_uint ID_DOC_TYPE_VERSION 2 @ write_uint ID_DOC_TYPE_READ_VERSION 2)"

definition MUXER :: bytes where
  "MUXER = str ''forge-webm 0.1.0''"

text \<open>The elements of Info before the duration; the duration is the last one.\<close>

definition info_head :: "WebmConfig \<Rightarrow> bytes" where
  "info_head config = write_uint ID_TIMECODE_SCALE TIMECODE_SCALE_NS @ write_str ID_MUXING_APP MUXER
     @ write_str ID_WRITING_APP (case wc_writing_app config of Some app \<Rightarrow> app | None \<Rightarrow> MUXER)"

text \<open>The octets of Info, and the offset of the float in the file.\<close>

definition write_info :: "nat \<Rightarrow> WebmConfig \<Rightarrow> bytes \<times> nat" where
  "write_info info_start config =
     (let head = info_head config;
          duration_offset_in_info = length head + length (id_bytes ID_DURATION) + 1;
          info = head @ write_f64 ID_DURATION 0;
          info_header = length (id_bytes ID_INFO) + vint_len (of_nat (length info)) in
      (write_binary ID_INFO info, info_start + info_header + duration_offset_in_info))"

definition video_entry :: "VideoTrack \<Rightarrow> bytes" where
  "video_entry v = write_binary ID_TRACK_ENTRY
     (write_uint ID_TRACK_NUMBER VIDEO_TRACK @ write_uint ID_TRACK_UID VIDEO_TRACK @ write_uint ID_TRACK_TYPE 1
       @ write_uint ID_FLAG_LACING 0 @ write_str ID_CODEC_ID (webm_codec_id (vt_codec v))
       @ (case vt_fps v of Some fps \<Rightarrow> write_uint ID_DEFAULT_DURATION (1000000000 div ucast fps) | None \<Rightarrow> [])
       @ write_binary ID_VIDEO
           (write_uint ID_PIXEL_WIDTH (ucast (vt_width v)) @ write_uint ID_PIXEL_HEIGHT (ucast (vt_height v))))"

definition audio_entry :: "AudioTrack \<Rightarrow> bytes" where
  "audio_entry a = write_binary ID_TRACK_ENTRY
     (write_uint ID_TRACK_NUMBER AUDIO_TRACK @ write_uint ID_TRACK_UID AUDIO_TRACK @ write_uint ID_TRACK_TYPE 2
       @ write_uint ID_FLAG_LACING 0 @ write_str ID_CODEC_ID (str ''A_OPUS'')
       @ write_binary ID_CODEC_PRIVATE (opus_head a) @ write_uint ID_CODEC_DELAY (webm_codec_delay_ns a)
       @ write_uint ID_SEEK_PRE_ROLL 80000000
       @ write_binary ID_AUDIO
           (write_f64 ID_SAMPLING_FREQUENCY (f64_of_u64 48000) @ write_uint ID_CHANNELS (ucast (at_channels a))))"

text \<open>\<open>None\<close> is the panic of the division by a frame rate of 0; the builder leaves such a rate out.\<close>

definition fps_ok :: "WebmConfig \<Rightarrow> bool" where
  "fps_ok config = (case wc_video config of Some v \<Rightarrow> vt_fps v \<noteq> Some 0 | None \<Rightarrow> True)"

definition write_tracks :: "WebmConfig \<Rightarrow> bytes option" where
  "write_tracks config =
     (if \<not> fps_ok config then None
      else Some (write_binary ID_TRACKS
        ((case wc_video config of Some v \<Rightarrow> video_entry v | None \<Rightarrow> [])
          @ (case wc_audio config of Some a \<Rightarrow> audio_entry a | None \<Rightarrow> []))))"

definition seek_entry :: "u32 \<times> u64 \<Rightarrow> bytes" where
  "seek_entry = (\<lambda>(element, position). write_binary ID_SEEK
     (write_binary ID_SEEK_ID (id_bytes element) @ write_uint_padded ID_SEEK_POSITION position 8))"

text \<open>The choice of the length of the size of the SeekHead, with the octets left over.\<close>

definition choose_size_len :: "nat \<Rightarrow> nat \<Rightarrow> (nat \<times> nat) option" where
  "choose_size_len room used =
     find_map (\<lambda>size_len.
       (let want = room - (length (id_bytes ID_SEEK_HEAD) + size_len) in
        if vint_len (of_nat want) > size_len \<or> want < used then None
        else if want - used = 0 \<or> want - used \<ge> 2 then Some (size_len, want - used) else None))
     (takeWhile (\<lambda>size_len. length (id_bytes ID_SEEK_HEAD) + size_len \<le> room) [1..<9])"

definition write_seek_head :: "(u32 \<times> u64) list \<Rightarrow> nat \<Rightarrow> (WebmError + bytes) option" where
  "write_seek_head entries room =
     (let payload = concat (map seek_entry entries) in
      case choose_size_len room (length payload) of
        None \<Rightarrow> Some (Inl (WebmIo (''a SeekHead of '' @ show_nat (length payload) @ '' bytes does not fit the ''
          @ show_nat room @ '' reserved for it'')))
      | Some (size_len, slack) \<Rightarrow>
          (case (if slack \<ge> 2 then write_void slack else Some (Inr [])) of
             None \<Rightarrow> None
           | Some (Inl e) \<Rightarrow> Some (Inl (WebmIo e))
           | Some (Inr void) \<Rightarrow>
               Some (Inr (id_bytes ID_SEEK_HEAD @ write_vint_len (of_nat (length (payload @ void))) size_len
                 @ payload @ void))))"

subsection \<open>The writer\<close>

text \<open>The position of the output is its end, except while \<open>finish\<close> writes over what is there.\<close>

record WebmWriter =
  ww_out :: bytes
  ww_config :: WebmConfig
  ww_segment_start :: nat
  ww_segment_size_pos :: nat
  ww_duration_pos :: nat
  ww_seek_positions :: "(u32 \<times> nat) list"
  ww_info_pos :: nat
  ww_tracks_pos :: nat
  ww_cluster :: "ClusterBuf option"
  ww_cues :: "CuePoint list"
  ww_stats :: WebmStats

definition WebmWriter_new :: "bytes \<Rightarrow> WebmConfig \<Rightarrow> (WebmError + WebmWriter) option" where
  "WebmWriter_new out config =
     (let out1 = out @ write_ebml_header @ id_bytes ID_SEGMENT; segment_size_pos = length out1;
          out2 = out1 @ write_vint_len unknown_size_8 8; segment_start = length out2 in
      case write_void SEEK_HEAD_RESERVE of
        None \<Rightarrow> None
      | Some (Inl e) \<Rightarrow> Some (Inl (WebmIo e))
      | Some (Inr void) \<Rightarrow>
          (let out3 = out2 @ void; info_pos = length out3; (info, duration_pos) = write_info info_pos config;
               out4 = out3 @ info; tracks_pos = length out4 in
           case write_tracks config of
             None \<Rightarrow> None
           | Some tracks \<Rightarrow> Some (Inr \<lparr>ww_out = out4 @ tracks, ww_config = config, ww_segment_start = segment_start,
             ww_segment_size_pos = segment_size_pos, ww_duration_pos = duration_pos,
             ww_seek_positions = [(ID_SEEK_HEAD, segment_start)], ww_info_pos = info_pos, ww_tracks_pos = tracks_pos,
             ww_cluster = None, ww_cues = [], ww_stats = WebmStats_default\<rparr>)))"

definition flush_cluster :: "WebmWriter \<Rightarrow> WebmWriter" where
  "flush_cluster w =
     (case ww_cluster w of
        None \<Rightarrow> w
      | Some cluster \<Rightarrow>
          if cb_body cluster = [] then w\<lparr>ww_cluster := None\<rparr>
          else
            (let position = length (ww_out w); payload = write_uint ID_TIMECODE (cb_timecode_ms cluster) @ cb_body cluster in
             w\<lparr>ww_cluster := None, ww_out := ww_out w @ write_binary ID_CLUSTER payload,
               ww_stats := (ww_stats w)\<lparr>ws_clusters := ws_clusters (ww_stats w) + 1\<rparr>,
               ww_cues := (case cb_cue cluster of
                   None \<Rightarrow> ww_cues w
                 | Some (time_ms, track) \<Rightarrow> ww_cues w @ [\<lparr>cp_time_ms = time_ms, cp_track = track,
                     cp_cluster_position = of_nat (position - ww_segment_start w)\<rparr>])\<rparr>))"

text \<open>Whether a block at \<open>ms\<close> opens a Cluster; differences are those of \<^verbatim>\<open>i64\<close>.\<close>

definition start_new :: "WebmWriter \<Rightarrow> u64 \<Rightarrow> bool \<Rightarrow> bool" where
  "start_new w ms keyframe =
     (case ww_cluster w of
        None \<Rightarrow> True
      | Some c \<Rightarrow>
          (let limits = wc_max_cluster (ww_config w); relative = sint (ms - cb_timecode_ms c) in
           relative > 32767 \<or> relative \<ge> sint (cl_max_ms limits) \<or> length (cb_body c) \<ge> cl_max_bytes limits \<or>
           (keyframe \<and> relative \<ge> sint (cl_min_ms limits))))"

definition ensure_cluster :: "u64 \<Rightarrow> bool \<Rightarrow> WebmWriter \<Rightarrow> WebmWriter" where
  "ensure_cluster ms keyframe w =
     (if start_new w ms keyframe
      then (flush_cluster w)\<lparr>ww_cluster := Some \<lparr>cb_timecode_ms = ms, cb_body = [], cb_last_ms = ms,
             cb_cue = (if keyframe then Some (ms, VIDEO_TRACK) else None)\<rparr>\<rparr>
      else if keyframe
      then (case ww_cluster w of
              None \<Rightarrow> w
            | Some c \<Rightarrow> w\<lparr>ww_cluster := Some (c\<lparr>cb_cue := (case cb_cue c of None \<Rightarrow> Some (ms, VIDEO_TRACK) | x \<Rightarrow> x)\<rparr>)\<rparr>)
      else w)"

definition simple_block :: "u64 \<Rightarrow> int \<Rightarrow> bool \<Rightarrow> bytes \<Rightarrow> bytes" where
  "simple_block track relative keyframe data =
     write_vint track @ to_be16 (of_int relative) @ [if keyframe then 0x80 else 0x00] @ data"

text \<open>\<open>None\<close> is the panic of \<^verbatim>\<open>expect\<close> without a Cluster.\<close>

definition write_block :: "u64 \<Rightarrow> u64 \<Rightarrow> bool \<Rightarrow> bytes \<Rightarrow> WebmWriter \<Rightarrow> (WebmWriter \<times> (WebmError + unit)) option" where
  "write_block track ms keyframe data w =
     (case ww_cluster w of
        None \<Rightarrow> None
      | Some cluster \<Rightarrow>
          (let relative = sint (ms - cb_timecode_ms cluster) in
           if relative < -32768 \<or> relative > 32767
           then Some (w, Inl (Backwards ms (cb_timecode_ms cluster)))
           else
             Some (w\<lparr>ww_cluster := Some (cluster\<lparr>
                 cb_body := cb_body cluster @ write_binary ID_SIMPLE_BLOCK (simple_block track relative keyframe data),
                 cb_last_ms := max (cb_last_ms cluster) ms\<rparr>),
               ww_stats := (ww_stats w)\<lparr>ws_duration_ms := max (ws_duration_ms (ww_stats w)) ms\<rparr>\<rparr>, Inr ())))"

definition write_video :: "u64 \<Rightarrow> bool \<Rightarrow> bytes \<Rightarrow> WebmWriter \<Rightarrow> (WebmWriter \<times> (WebmError + unit)) option" where
  "write_video ms keyframe data w =
     (if wc_video (ww_config w) = None then Some (w, Inl (NoTrack ''video''))
      else
        (case write_block VIDEO_TRACK ms keyframe data (ensure_cluster ms keyframe w) of
           None \<Rightarrow> None
         | Some (w1, Inl e) \<Rightarrow> Some (w1, Inl e)
         | Some (w1, Inr _) \<Rightarrow>
             (let st = ww_stats w1; st1 = st\<lparr>ws_video_frames := ws_video_frames st + 1\<rparr> in
              Some (w1\<lparr>ww_stats := (if keyframe then st1\<lparr>ws_video_keyframes := ws_video_keyframes st1 + 1\<rparr> else st1)\<rparr>,
                Inr ()))))"

definition write_audio :: "u64 \<Rightarrow> bytes \<Rightarrow> WebmWriter \<Rightarrow> (WebmWriter \<times> (WebmError + unit)) option" where
  "write_audio ms data w =
     (if wc_audio (ww_config w) = None then Some (w, Inl (NoTrack ''audio''))
      else
        (case write_block AUDIO_TRACK ms True data (ensure_cluster ms False w) of
           None \<Rightarrow> None
         | Some (w1, Inl e) \<Rightarrow> Some (w1, Inl e)
         | Some (w1, Inr _) \<Rightarrow>
             Some (w1\<lparr>ww_stats := (ww_stats w1)\<lparr>ws_audio_frames := ws_audio_frames (ww_stats w1) + 1\<rparr>\<rparr>, Inr ())))"

definition cue_point :: "CuePoint \<Rightarrow> bytes" where
  "cue_point cue = write_binary ID_CUE_POINT
     (write_uint ID_CUE_TIME (cp_time_ms cue)
       @ write_binary ID_CUE_TRACK_POSITIONS
           (write_uint ID_CUE_TRACK (cp_track cue) @ write_uint ID_CUE_CLUSTER_POSITION (cp_cluster_position cue)))"

definition write_cues :: "CuePoint list \<Rightarrow> bytes" where
  "write_cues cues = write_binary ID_CUES (concat (map cue_point cues))"

text \<open>Writing at a position over what is there.\<close>

definition write_at :: "nat \<Rightarrow> bytes \<Rightarrow> bytes \<Rightarrow> bytes" where
  "write_at pos data out = take pos out @ data @ drop (pos + length data) out"

text \<open>The statistics with the octets of the finished file.\<close>

definition WebmWriter_finish :: "WebmWriter \<Rightarrow> (WebmError + (WebmStats \<times> bytes)) option" where
  "WebmWriter_finish w0 =
     (let w = flush_cluster w0; cues_pos = length (ww_out w);
          out1 = (if ww_cues w \<noteq> [] then ww_out w @ write_cues (ww_cues w) else ww_out w);
          seeks = (if ww_cues w \<noteq> [] then ww_seek_positions w @ [(ID_CUES, cues_pos)] else ww_seek_positions w);
          stop = length out1; stats = (ww_stats w)\<lparr>ws_bytes := of_nat stop\<rparr>;
          out2 = write_at (ww_segment_size_pos w) (write_vint_len (of_nat (stop - ww_segment_start w)) 8) out1;
          out3 = write_at (ww_duration_pos w) (to_be64 (f64_of_u64 (ws_duration_ms stats))) out2;
          seek_head_pos = snd (seeks ! 0);
          entries = [(ID_INFO, of_nat (ww_info_pos w - ww_segment_start w)),
              (ID_TRACKS, of_nat (ww_tracks_pos w - ww_segment_start w))]
            @ (case find (\<lambda>(i, _). i = ID_CUES) seeks of
                 Some (_, pos) \<Rightarrow> [(ID_CUES, of_nat (pos - ww_segment_start w))] | None \<Rightarrow> []) in
      case write_seek_head entries SEEK_HEAD_RESERVE of
        None \<Rightarrow> None
      | Some (Inl e) \<Rightarrow> Some (Inl e)
      | Some (Inr head) \<Rightarrow> Some (Inr (stats, write_at seek_head_pos head out3)))"

text \<open>What is left in the file when the writer is dropped without \<open>finish\<close>.\<close>

definition WebmWriter_drop :: "WebmWriter \<Rightarrow> bytes" where
  "WebmWriter_drop w = ww_out (if ww_cluster w \<noteq> None then flush_cluster w else w)"

subsection \<open>The reader\<close>

datatype TrackKind = TK_Video | TK_Audio | TK_Other u64

definition TrackKind_from_type :: "u64 \<Rightarrow> TrackKind" where
  "TrackKind_from_type t = (if t = 1 then TK_Video else if t = 2 then TK_Audio else TK_Other t)"

record TrackInfo =
  ti_number :: u64
  ti_kind :: TrackKind
  ti_codec_id :: bytes
  ti_codec_private :: bytes
  ti_width :: u32
  ti_height :: u32
  ti_sample_rate :: f64
  ti_channels :: u64
  ti_codec_delay_ns :: u64
  ti_seek_pre_roll_ns :: u64
  ti_default_duration_ns :: u64

record BlockInfo =
  bi_track :: u64
  bi_ms :: int
  bi_keyframe :: bool
  bi_bytes :: nat

record CueInfo =
  ci_time_ms :: u64
  ci_track :: u64
  ci_cluster_position :: u64
  ci_points_at_cluster :: bool

record WebmSummary =
  su_doc_type :: bytes
  su_timecode_scale_ns :: u64
  su_duration_ms :: f64
  su_tracks :: "TrackInfo list"
  su_clusters :: nat
  su_blocks :: "BlockInfo list"
  su_cues :: "CueInfo list"
  su_segment_size :: "u64 option"
  su_seek_head :: "(u32 \<times> u64) list"

definition WebmSummary_track :: "WebmSummary \<Rightarrow> TrackKind \<Rightarrow> TrackInfo option" where
  "WebmSummary_track s kind = find (\<lambda>t. ti_kind t = kind) (su_tracks s)"

definition WebmSummary_blocks_of :: "WebmSummary \<Rightarrow> u64 \<Rightarrow> BlockInfo list" where
  "WebmSummary_blocks_of s track = filter (\<lambda>b. bi_track b = track) (su_blocks s)"

text \<open>The body of the loop over one Seek entry.\<close>

definition seek_field :: "u32 \<Rightarrow> bytes \<Rightarrow> u32 \<times> u64 \<Rightarrow> string + (u32 \<times> u64)" where
  "seek_field i body = (\<lambda>(seek_id, position).
     Inr (if i = ID_SEEK_ID then (fold (\<lambda>b acc. push_bit 8 acc OR ucast b) body seek_id, position)
          else if i = ID_SEEK_POSITION then (seek_id, uint_of body) else (seek_id, position)))"

definition read_seek_head :: "bytes \<Rightarrow> Element \<Rightarrow> WebmSummary \<Rightarrow> string + WebmSummary" where
  "read_seek_head data element s =
     (let head = Element_body element data in
      walk (\<lambda>e s.
        if el_id e \<noteq> ID_SEEK then Inr s
        else
          (let entry = Element_body e head in
           case walk (\<lambda>f. seek_field (el_id f) (Element_body f entry)) (Cursor_new entry) (0, 0) of
             Inl x \<Rightarrow> Inl x
           | Inr r \<Rightarrow> Inr (s\<lparr>su_seek_head := su_seek_head s @ [r]\<rparr>)))
        (Cursor_new head) s)"

definition read_info :: "bytes \<Rightarrow> Element \<Rightarrow> WebmSummary \<Rightarrow> string + WebmSummary" where
  "read_info data element s =
     (let body = Element_body element data in
      walk (\<lambda>e s.
        Inr (if el_id e = ID_TIMECODE_SCALE then s\<lparr>su_timecode_scale_ns := uint_of (Element_body e body)\<rparr>
             else if el_id e = ID_DURATION then s\<lparr>su_duration_ms := float_of (Element_body e body)\<rparr> else s))
        (Cursor_new body) s)"

definition TrackInfo_blank :: TrackInfo where
  "TrackInfo_blank = \<lparr>ti_number = 0, ti_kind = TK_Other 0, ti_codec_id = [], ti_codec_private = [], ti_width = 0,
     ti_height = 0, ti_sample_rate = 0, ti_channels = 0, ti_codec_delay_ns = 0, ti_seek_pre_roll_ns = 0,
     ti_default_duration_ns = 0\<rparr>"

definition video_field :: "u32 \<Rightarrow> bytes \<Rightarrow> TrackInfo \<Rightarrow> string + TrackInfo" where
  "video_field i body t =
     Inr (if i = ID_PIXEL_WIDTH then t\<lparr>ti_width := ucast (uint_of body)\<rparr>
          else if i = ID_PIXEL_HEIGHT then t\<lparr>ti_height := ucast (uint_of body)\<rparr> else t)"

definition audio_field :: "u32 \<Rightarrow> bytes \<Rightarrow> TrackInfo \<Rightarrow> string + TrackInfo" where
  "audio_field i body t =
     Inr (if i = ID_SAMPLING_FREQUENCY then t\<lparr>ti_sample_rate := float_of body\<rparr>
          else if i = ID_CHANNELS then t\<lparr>ti_channels := uint_of body\<rparr> else t)"

definition track_field :: "u32 \<Rightarrow> bytes \<Rightarrow> TrackInfo \<Rightarrow> string + TrackInfo" where
  "track_field i gb t =
     (if i = ID_TRACK_NUMBER then Inr (t\<lparr>ti_number := uint_of gb\<rparr>)
      else if i = ID_TRACK_TYPE then Inr (t\<lparr>ti_kind := TrackKind_from_type (uint_of gb)\<rparr>)
      else if i = ID_CODEC_ID then Inr (t\<lparr>ti_codec_id := from_utf8_lossy gb\<rparr>)
      else if i = ID_CODEC_PRIVATE then Inr (t\<lparr>ti_codec_private := gb\<rparr>)
      else if i = ID_CODEC_DELAY then Inr (t\<lparr>ti_codec_delay_ns := uint_of gb\<rparr>)
      else if i = ID_SEEK_PRE_ROLL then Inr (t\<lparr>ti_seek_pre_roll_ns := uint_of gb\<rparr>)
      else if i = ID_DEFAULT_DURATION then Inr (t\<lparr>ti_default_duration_ns := uint_of gb\<rparr>)
      else if i = ID_VIDEO then walk (\<lambda>h. video_field (el_id h) (Element_body h gb)) (Cursor_new gb) t
      else if i = ID_AUDIO then walk (\<lambda>h. audio_field (el_id h) (Element_body h gb)) (Cursor_new gb) t
      else Inr t)"

definition read_tracks :: "bytes \<Rightarrow> Element \<Rightarrow> WebmSummary \<Rightarrow> string + WebmSummary" where
  "read_tracks data element s =
     (let body = Element_body element data in
      walk (\<lambda>e s.
        if el_id e \<noteq> ID_TRACK_ENTRY then Inr s
        else
          (let entry_body = Element_body e body in
           case walk (\<lambda>g. track_field (el_id g) (Element_body g entry_body)) (Cursor_new entry_body) TrackInfo_blank of
             Inl x \<Rightarrow> Inl x
           | Inr t \<Rightarrow> Inr (s\<lparr>su_tracks := su_tracks s @ [t]\<rparr>)))
        (Cursor_new body) s)"

definition parse_simple_block :: "bytes \<Rightarrow> u64 \<Rightarrow> BlockInfo option" where
  "parse_simple_block body cluster_ms =
     (case vint_value (Cursor_new body) of
        None \<Rightarrow> None
      | Some (track, c) \<Rightarrow>
          (let rest = drop (cu_pos c) body in
           if length rest < 3 then None
           else
             (let relative = scast (be16 (rest ! 0) (rest ! 1)) :: u64; flags = rest ! 2 in
              Some \<lparr>bi_track = track, bi_ms = sint (cluster_ms + relative), bi_keyframe = (flags AND 0x80 \<noteq> 0),
                bi_bytes = length rest - 3\<rparr>)))"

definition cluster_field :: "u32 \<Rightarrow> bytes \<Rightarrow> u64 \<times> WebmSummary \<Rightarrow> string + (u64 \<times> WebmSummary)" where
  "cluster_field i eb = (\<lambda>(timecode, s).
     Inr (if i = ID_TIMECODE then (uint_of eb, s)
          else if i = ID_SIMPLE_BLOCK
          then (case parse_simple_block eb timecode of
                  Some block \<Rightarrow> (timecode, s\<lparr>su_blocks := su_blocks s @ [block]\<rparr>) | None \<Rightarrow> (timecode, s))
          else (timecode, s)))"

definition read_cluster :: "bytes \<Rightarrow> Element \<Rightarrow> WebmSummary \<Rightarrow> string + WebmSummary" where
  "read_cluster data element s =
     (let body = Element_body element data in
      case walk (\<lambda>e. cluster_field (el_id e) (Element_body e body)) (Cursor_new body) (0, s) of
        Inl x \<Rightarrow> Inl x | Inr (_, s') \<Rightarrow> Inr s')"

definition position_field :: "u32 \<Rightarrow> bytes \<Rightarrow> u64 \<times> u64 \<Rightarrow> string + (u64 \<times> u64)" where
  "position_field i body = (\<lambda>(track, position).
     Inr (if i = ID_CUE_TRACK then (uint_of body, position)
          else if i = ID_CUE_CLUSTER_POSITION then (track, uint_of body) else (track, position)))"

definition cue_field :: "u32 \<Rightarrow> bytes \<Rightarrow> u64 \<times> u64 \<times> u64 \<Rightarrow> string + (u64 \<times> u64 \<times> u64)" where
  "cue_field i fb = (\<lambda>(time_ms, track, position).
     if i = ID_CUE_TIME then Inr (uint_of fb, track, position)
     else if i = ID_CUE_TRACK_POSITIONS
     then (case walk (\<lambda>g. position_field (el_id g) (Element_body g fb)) (Cursor_new fb) (track, position) of
             Inl x \<Rightarrow> Inl x | Inr r \<Rightarrow> Inr (time_ms, r))
     else Inr (time_ms, track, position))"

definition read_cues :: "bytes \<Rightarrow> Element \<Rightarrow> WebmSummary \<Rightarrow> string + WebmSummary" where
  "read_cues data element s =
     (let body = Element_body element data in
      walk (\<lambda>e s.
        if el_id e \<noteq> ID_CUE_POINT then Inr s
        else
          (let point = Element_body e body in
           case walk (\<lambda>f. cue_field (el_id f) (Element_body f point)) (Cursor_new point) (0, 0, 0) of
             Inl x \<Rightarrow> Inl x
           | Inr (time_ms, track, position) \<Rightarrow>
               Inr (s\<lparr>su_cues := su_cues s @ [\<lparr>ci_time_ms = time_ms, ci_track = track, ci_cluster_position = position,
                 ci_points_at_cluster = False\<rparr>]\<rparr>)))
        (Cursor_new body) s)"

text \<open>The elements of a Segment; the state carries the positions of the Clusters.\<close>

definition segment_child :: "bytes \<Rightarrow> nat \<Rightarrow> Element \<Rightarrow> WebmSummary \<times> u64 list \<Rightarrow> string + (WebmSummary \<times> u64 list)" where
  "segment_child data start e = (\<lambda>(s, clusters).
     if el_id e = ID_CLUSTER
     then (case read_cluster data e (s\<lparr>su_clusters := su_clusters s + 1\<rparr>) of
             Inl x \<Rightarrow> Inl x | Inr s' \<Rightarrow> Inr (s', clusters @ [of_nat (el_start e - start)]))
     else
       (case (if el_id e = ID_SEEK_HEAD then read_seek_head data e s
              else if el_id e = ID_INFO then read_info data e s
              else if el_id e = ID_TRACKS then read_tracks data e s
              else if el_id e = ID_CUES then read_cues data e s
              else Inr s) of
          Inl x \<Rightarrow> Inl x | Inr s' \<Rightarrow> Inr (s', clusters)))"

definition header_field :: "u32 \<Rightarrow> bytes \<Rightarrow> WebmSummary \<Rightarrow> string + WebmSummary" where
  "header_field i body s = Inr (if i = ID_DOC_TYPE then s\<lparr>su_doc_type := from_utf8_lossy body\<rparr> else s)"

definition top_child :: "bytes \<Rightarrow> Element \<Rightarrow> WebmSummary \<times> u64 list \<Rightarrow> string + (WebmSummary \<times> u64 list)" where
  "top_child data element = (\<lambda>(s, clusters).
     if el_id element = ID_EBML
     then (let body = Element_body element data in
           case walk (\<lambda>e. header_field (el_id e) (Element_body e body)) (Cursor_new body) s of
             Inl x \<Rightarrow> Inl x | Inr s' \<Rightarrow> Inr (s', clusters))
     else if el_id element = ID_SEGMENT
     then (let start = el_data_start element in
           walk (segment_child data start) (Cursor_at data start (Element_end element (length data)))
             (s\<lparr>su_segment_size := el_size element\<rparr>, clusters))
     else Inr (s, clusters))"

definition WebmSummary_blank :: WebmSummary where
  "WebmSummary_blank = \<lparr>su_doc_type = [], su_timecode_scale_ns = 1000000, su_duration_ms = 0, su_tracks = [],
     su_clusters = 0, su_blocks = [], su_cues = [], su_segment_size = None, su_seek_head = []\<rparr>"

definition read_summary :: "bytes \<Rightarrow> string + WebmSummary" where
  "read_summary data =
     (case walk (top_child data) (Cursor_new data) (WebmSummary_blank, []) of
        Inl x \<Rightarrow> Inl x
      | Inr (s, clusters) \<Rightarrow>
          Inr (s\<lparr>su_cues := map (\<lambda>cue. cue\<lparr>ci_points_at_cluster := (ci_cluster_position cue \<in> set clusters)\<rparr>)
            (su_cues s)\<rparr>))"

section \<open>Identifiers\<close>

lemma ids_ok [simp]:
  "id_ok ID_EBML" "id_ok ID_EBML_VERSION" "id_ok ID_EBML_READ_VERSION" "id_ok ID_EBML_MAX_ID_LENGTH"
  "id_ok ID_EBML_MAX_SIZE_LENGTH" "id_ok ID_DOC_TYPE" "id_ok ID_DOC_TYPE_VERSION" "id_ok
  ID_DOC_TYPE_READ_VERSION" "id_ok ID_SEGMENT" "id_ok ID_SEEK_HEAD" "id_ok ID_SEEK" "id_ok
  ID_SEEK_ID" "id_ok ID_SEEK_POSITION" "id_ok ID_VOID" "id_ok ID_INFO" "id_ok ID_TIMECODE_SCALE"
  "id_ok ID_MUXING_APP" "id_ok ID_WRITING_APP" "id_ok ID_DURATION" "id_ok ID_TRACKS" "id_ok
  ID_TRACK_ENTRY" "id_ok ID_TRACK_NUMBER" "id_ok ID_TRACK_UID" "id_ok ID_TRACK_TYPE" "id_ok
  ID_FLAG_LACING" "id_ok ID_CODEC_ID" "id_ok ID_CODEC_PRIVATE" "id_ok ID_CODEC_DELAY" "id_ok
  ID_SEEK_PRE_ROLL" "id_ok ID_DEFAULT_DURATION" "id_ok ID_VIDEO" "id_ok ID_PIXEL_WIDTH" "id_ok
  ID_PIXEL_HEIGHT" "id_ok ID_AUDIO" "id_ok ID_SAMPLING_FREQUENCY" "id_ok ID_CHANNELS" "id_ok
  ID_CLUSTER" "id_ok ID_TIMECODE" "id_ok ID_SIMPLE_BLOCK" "id_ok ID_CUES" "id_ok ID_CUE_POINT"
  "id_ok ID_CUE_TIME" "id_ok ID_CUE_TRACK_POSITIONS" "id_ok ID_CUE_TRACK" "id_ok
  ID_CUE_CLUSTER_POSITION"
  by (simp_all add: id_defs id_ok_def id_bytes_def first_nonzero_def to_be32_def marker_len_def leading_zeros_def)

lemma id_lengths: "length (id_bytes ID_SEGMENT) = 4" "length (id_bytes ID_SEEK_HEAD) = 4" "length (id_bytes ID_DURATION) = 2"
  "length (id_bytes ID_SEEK) = 2" "length (id_bytes ID_SEEK_ID) = 2" "length (id_bytes ID_SEEK_POSITION) = 2"
  "length (id_bytes ID_INFO) = 4" "length (id_bytes ID_TRACKS) = 4" "length (id_bytes ID_CUES) = 4"
  "length (id_bytes ID_VOID) = 1"
  by (simp_all add: id_defs id_bytes_def first_nonzero_def to_be32_def)

section \<open>Reading what was written\<close>

lemma length_str [simp]: "length (str s) = length s"
  by (simp add: str_def)

lemma write_elems: "write_uint i v = raw_elem (elem i (uint_bytes v))" "write_str i b = raw_elem (elem i b)"
  "write_f64 i x = raw_elem (elem i (to_be64 x))"
  "write_uint_padded i v n = raw_elem (elem i (drop (8 - n) (to_be64 v)))"
  by (simp_all add: write_uint_def write_str_def write_f64_def write_uint_padded_def write_binary_raw)

lemma raw_ok_uint: "id_ok i \<Longrightarrow> raw_ok (elem i (uint_bytes v))"
  using length_uint_bytes(2) [of v] by (intro raw_ok_elem) auto

lemma float_of_be64 [simp]: "float_of (to_be64 x) = x"
  by (rule to_be64_split [of x]) (simp add: float_of_def)

lemma snd_elem [simp]: "snd (snd (elem i b)) = b"
  by (simp add: elem_def)

text \<open>A walk over a list of elements given by identifier and payload.\<close>

lemma walk_elems:
  assumes "data = concat (map raw_elem (map (\<lambda>(i, b). elem i b) xs))"
    "\<forall>(i, b)\<in>set xs. id_ok i \<and> length b < 2 ^ 56 - 1"
  shows "walk (\<lambda>e s. g (el_id e) (Element_body e data) s) (Cursor_new data) s = fold_io (\<lambda>(i, b). g i b) xs s"
proof -
  have "\<forall>x\<in>set (map (\<lambda>(i, b). elem i b) xs). raw_ok x" using assms(2) by (fastforce intro!: raw_ok_elem)
  from walk_new [OF this assms(1), of g s]
  have "walk (\<lambda>e s. g (el_id e) (Element_body e data) s) (Cursor_new data) s =
      fold_io (\<lambda>(i, n, b). g i b) (map (\<lambda>(i, b). elem i b) xs) s" .
  also have "\<dots> = fold_io (\<lambda>(i, b). g i b) xs s"
    by (induction xs arbitrary: s) (auto simp: elem_def split: sum.split)
  finally show ?thesis .
qed

definition video_info :: "VideoTrack \<Rightarrow> TrackInfo" where
  "video_info v = TrackInfo_blank\<lparr>ti_number := 1, ti_kind := TK_Video, ti_codec_id := webm_codec_id (vt_codec v),
     ti_width := vt_width v, ti_height := vt_height v,
     ti_default_duration_ns := (case vt_fps v of Some fps \<Rightarrow> 1000000000 div ucast fps | None \<Rightarrow> 0)\<rparr>"

definition audio_info :: "AudioTrack \<Rightarrow> TrackInfo" where
  "audio_info a = TrackInfo_blank\<lparr>ti_number := 2, ti_kind := TK_Audio, ti_codec_id := str ''A_OPUS'',
     ti_codec_private := opus_head a, ti_sample_rate := f64_of_u64 48000, ti_channels := ucast (at_channels a),
     ti_codec_delay_ns := webm_codec_delay_ns a, ti_seek_pre_roll_ns := 80000000\<rparr>"

lemma ascii_texts: "from_utf8_lossy (str ''webm'') = str ''webm''" "from_utf8_lossy (str ''A_OPUS'') = str ''A_OPUS''"
  "from_utf8_lossy (webm_codec_id c) = webm_codec_id c"
  by (simp_all add: str_def from_utf8_lossy_Cons utf8_seq_def, cases c)
    (simp_all add: str_def from_utf8_lossy_Cons utf8_seq_def)

lemma length_webm_codec_id [simp]: "length (webm_codec_id c) = 5"
  by (cases c) simp_all

lemma length_opus_head [simp]: "length (opus_head a) = 19"
  by (simp add: opus_head_def)

lemma small_uint: "length (uint_bytes v) < 72057594037927935"
  using length_uint_bytes(2) [of v] by simp

definition video_payload :: "VideoTrack \<Rightarrow> bytes" where
  "video_payload v = write_uint ID_PIXEL_WIDTH (ucast (vt_width v)) @ write_uint ID_PIXEL_HEIGHT (ucast (vt_height v))"

definition audio_payload :: "AudioTrack \<Rightarrow> bytes" where
  "audio_payload a = write_f64 ID_SAMPLING_FREQUENCY (f64_of_u64 48000) @ write_uint ID_CHANNELS (ucast (at_channels a))"

lemma length_raw_elem_small: "length b < 127 \<Longrightarrow> length (raw_elem (elem i b)) \<le> 5 + length b"
proof -
  assume b: "length b < 127"
  then have "vint_len (of_nat (length b)) = 1" by (intro vint_len_small) (simp add: unsigned_of_nat take_bit_nat_eq_self)
  then show ?thesis using length_id_bytes(2) [of i] by (simp add: raw_elem_def elem_def)
qed

lemma length_write_uint: "length (write_uint i v) \<le> 13"
  using length_raw_elem_small [of "uint_bytes v" i] length_uint_bytes(2) [of v] by (simp add: write_elems)

lemma ucast_u32_u64_u32 [simp]: "ucast (ucast (w :: u32) :: u64) = w"
  by (rule bit_word_eqI) (auto simp: bit_simps)

lemma video_payload_read:
  "walk (\<lambda>h. video_field (el_id h) (Element_body h (video_payload v))) (Cursor_new (video_payload v)) t =
     Inr (t\<lparr>ti_width := vt_width v, ti_height := vt_height v\<rparr>)"
  by (rule trans [OF walk_elems [where xs = "[(ID_PIXEL_WIDTH, uint_bytes (ucast (vt_width v))),
      (ID_PIXEL_HEIGHT, uint_bytes (ucast (vt_height v)))]"]])
    (simp add: video_payload_def write_elems, simp add: small_uint, simp add: video_field_def id_defs)

lemma audio_payload_read:
  "walk (\<lambda>h. audio_field (el_id h) (Element_body h (audio_payload a))) (Cursor_new (audio_payload a)) t =
     Inr (t\<lparr>ti_sample_rate := f64_of_u64 48000, ti_channels := ucast (at_channels a)\<rparr>)"
  by (rule trans [OF walk_elems [where xs = "[(ID_SAMPLING_FREQUENCY, to_be64 (f64_of_u64 48000)),
      (ID_CHANNELS, uint_bytes (ucast (at_channels a)))]"]])
    (simp add: audio_payload_def write_elems, simp add: small_uint, simp add: audio_field_def id_defs)

lemma length_payloads: "length (video_payload v) \<le> 26" "length (audio_payload a) \<le> 26"
  using length_write_uint [of ID_PIXEL_WIDTH "ucast (vt_width v)"] length_write_uint [of ID_PIXEL_HEIGHT "ucast (vt_height v)"]
    length_write_uint [of ID_CHANNELS "ucast (at_channels a)"]
    length_raw_elem_small [of "to_be64 (f64_of_u64 48000)" ID_SAMPLING_FREQUENCY]
  by (simp_all add: video_payload_def audio_payload_def write_elems)

definition video_fields :: "VideoTrack \<Rightarrow> (u32 \<times> bytes) list" where
  "video_fields v =
     [(ID_TRACK_NUMBER, uint_bytes VIDEO_TRACK), (ID_TRACK_UID, uint_bytes VIDEO_TRACK), (ID_TRACK_TYPE, uint_bytes 1),
      (ID_FLAG_LACING, uint_bytes 0), (ID_CODEC_ID, webm_codec_id (vt_codec v))]
     @ (case vt_fps v of Some fps \<Rightarrow> [(ID_DEFAULT_DURATION, uint_bytes (1000000000 div ucast fps))] | None \<Rightarrow> [])
     @ [(ID_VIDEO, video_payload v)]"

definition audio_fields :: "AudioTrack \<Rightarrow> (u32 \<times> bytes) list" where
  "audio_fields a =
     [(ID_TRACK_NUMBER, uint_bytes AUDIO_TRACK), (ID_TRACK_UID, uint_bytes AUDIO_TRACK), (ID_TRACK_TYPE, uint_bytes 2),
      (ID_FLAG_LACING, uint_bytes 0), (ID_CODEC_ID, str ''A_OPUS''), (ID_CODEC_PRIVATE, opus_head a),
      (ID_CODEC_DELAY, uint_bytes (webm_codec_delay_ns a)), (ID_SEEK_PRE_ROLL, uint_bytes 80000000),
      (ID_AUDIO, audio_payload a)]"

definition elems :: "(u32 \<times> bytes) list \<Rightarrow> bytes" where
  "elems xs = concat (map (\<lambda>(i, b). raw_elem (elem i b)) xs)"

lemma elems_simps [simp]: "elems [] = []" "elems ((i, b) # xs) = raw_elem (elem i b) @ elems xs"
  "elems (xs @ ys) = elems xs @ elems ys"
  by (simp_all add: elems_def)

definition fields_ok :: "(u32 \<times> bytes) list \<Rightarrow> bool" where
  "fields_ok xs \<longleftrightarrow> (\<forall>(i, b)\<in>set xs. id_ok i \<and> length b < 2 ^ 56 - 1)"

lemma walk_fields:
  assumes "fields_ok xs"
  shows "walk (\<lambda>e s. g (el_id e) (Element_body e (elems xs)) s) (Cursor_new (elems xs)) s = fold_io (\<lambda>(i, b). g i b) xs s"
proof (rule walk_elems)
  show "elems xs = concat (map raw_elem (map (\<lambda>(i, b). elem i b) xs))"
    by (induction xs) (auto simp: elems_def)
qed (use assms in \<open>simp add: fields_ok_def\<close>)

lemma entries_elems: "video_entry v = raw_elem (elem ID_TRACK_ENTRY (elems (video_fields v)))"
  "audio_entry a = raw_elem (elem ID_TRACK_ENTRY (elems (audio_fields a)))"
  by (simp_all add: video_entry_def audio_entry_def video_fields_def audio_fields_def write_elems write_binary_raw
      video_payload_def audio_payload_def split: option.split)

lemma entries_ok: "fields_ok (video_fields v)" "fields_ok (audio_fields a)"
  using length_payloads(1) [of v] length_payloads(2) [of a]
  by (auto simp: fields_ok_def video_fields_def audio_fields_def small_uint split: option.split)

lemma video_fields_read: "fold_io (\<lambda>(i, b). track_field i b) (video_fields v) TrackInfo_blank = Inr (video_info v)"
proof -
  have video: "track_field ID_VIDEO (video_payload v) t = Inr (t\<lparr>ti_width := vt_width v, ti_height := vt_height v\<rparr>)" for t
    using video_payload_read [of v t] by (simp add: track_field_def id_defs)
  have small: "track_field ID_TRACK_NUMBER b t = Inr (t\<lparr>ti_number := uint_of b\<rparr>)" "track_field ID_TRACK_UID b t = Inr t"
    "track_field ID_TRACK_TYPE b t = Inr (t\<lparr>ti_kind := TrackKind_from_type (uint_of b)\<rparr>)"
    "track_field ID_FLAG_LACING b t = Inr t" "track_field ID_CODEC_ID b t = Inr (t\<lparr>ti_codec_id := from_utf8_lossy b\<rparr>)"
    "track_field ID_DEFAULT_DURATION b t = Inr (t\<lparr>ti_default_duration_ns := uint_of b\<rparr>)" for b t
    by (simp_all add: track_field_def id_defs)
  show ?thesis
    by (simp add: video_fields_def small video video_info_def ascii_texts VIDEO_TRACK_def TrackKind_from_type_def
        TrackInfo_blank_def split: option.split)
qed

lemma audio_fields_read: "fold_io (\<lambda>(i, b). track_field i b) (audio_fields a) TrackInfo_blank = Inr (audio_info a)"
proof -
  have audio: "track_field ID_AUDIO (audio_payload a) t =
      Inr (t\<lparr>ti_sample_rate := f64_of_u64 48000, ti_channels := ucast (at_channels a)\<rparr>)" for t
    using audio_payload_read [of a t] by (simp add: track_field_def id_defs)
  have small: "track_field ID_TRACK_NUMBER b t = Inr (t\<lparr>ti_number := uint_of b\<rparr>)" "track_field ID_TRACK_UID b t = Inr t"
    "track_field ID_TRACK_TYPE b t = Inr (t\<lparr>ti_kind := TrackKind_from_type (uint_of b)\<rparr>)"
    "track_field ID_FLAG_LACING b t = Inr t" "track_field ID_CODEC_ID b t = Inr (t\<lparr>ti_codec_id := from_utf8_lossy b\<rparr>)"
    "track_field ID_CODEC_PRIVATE b t = Inr (t\<lparr>ti_codec_private := b\<rparr>)"
    "track_field ID_CODEC_DELAY b t = Inr (t\<lparr>ti_codec_delay_ns := uint_of b\<rparr>)"
    "track_field ID_SEEK_PRE_ROLL b t = Inr (t\<lparr>ti_seek_pre_roll_ns := uint_of b\<rparr>)" for b t
    by (simp_all add: track_field_def id_defs)
  show ?thesis
    by (simp add: audio_fields_def small audio audio_info_def ascii_texts AUDIO_TRACK_def TrackKind_from_type_def
        TrackInfo_blank_def)
qed

definition track_entries :: "WebmConfig \<Rightarrow> (u32 \<times> bytes) list" where
  "track_entries cfg = (case wc_video cfg of Some v \<Rightarrow> [(ID_TRACK_ENTRY, elems (video_fields v))] | None \<Rightarrow> [])
     @ (case wc_audio cfg of Some a \<Rightarrow> [(ID_TRACK_ENTRY, elems (audio_fields a))] | None \<Rightarrow> [])"

definition tracks_of :: "WebmConfig \<Rightarrow> TrackInfo list" where
  "tracks_of cfg = (case wc_video cfg of Some v \<Rightarrow> [video_info v] | None \<Rightarrow> [])
     @ (case wc_audio cfg of Some a \<Rightarrow> [audio_info a] | None \<Rightarrow> [])"

lemma write_tracks_elems: "fps_ok cfg \<Longrightarrow> write_tracks cfg = Some (raw_elem (elem ID_TRACKS (elems (track_entries cfg))))"
  by (simp add: write_tracks_def track_entries_def write_binary_raw entries_elems split: option.split)

lemma length_elems_le: "(\<And>i b. (i, b) \<in> set xs \<Longrightarrow> length b < 127) \<Longrightarrow> length (elems xs) \<le> 131 * length xs"
proof (induction xs)
  case (Cons x xs)
  obtain i b where x: "x = (i, b)" by (cases x)
  have "length b < 127" using Cons.prems [of i b] by (simp add: x)
  moreover have "length (elems xs) \<le> 131 * length xs" using Cons.prems by (intro Cons.IH) auto
  ultimately show ?case using length_raw_elem_small [of b i] by (simp add: x)
qed simp

lemma length_uint_127: "length (uint_bytes v) < 127"
  using length_uint_bytes(2) [of v] by simp

lemma length_track_fields: "length (elems (video_fields v)) \<le> 1000" "length (elems (audio_fields a)) \<le> 1300"
proof -
  have "length (elems (video_fields v)) \<le> 131 * length (video_fields v)"
    using length_payloads(1) [of v]
    by (intro length_elems_le) (auto simp: video_fields_def length_uint_127 split: option.splits)
  also have "\<dots> \<le> 1000" by (simp add: video_fields_def split: option.split)
  finally show "length (elems (video_fields v)) \<le> 1000" .
  have "length (elems (audio_fields a)) \<le> 131 * length (audio_fields a)"
    using length_payloads(2) [of a]
    by (intro length_elems_le) (auto simp: audio_fields_def length_uint_127)
  also have "\<dots> \<le> 1300" by (simp add: audio_fields_def)
  finally show "length (elems (audio_fields a)) \<le> 1300" .
qed

lemma read_tracks_written:
  assumes "Element_body e data = elems (track_entries cfg)"
  shows "read_tracks data e s = Inr (s\<lparr>su_tracks := su_tracks s @ tracks_of cfg\<rparr>)"
proof -
  define g where "g = (\<lambda>i b (s :: WebmSummary). if i \<noteq> ID_TRACK_ENTRY then Inr s
    else (case walk (\<lambda>g. track_field (el_id g) (Element_body g b)) (Cursor_new b) TrackInfo_blank of
        Inl x \<Rightarrow> Inl x | Inr t \<Rightarrow> Inr (s\<lparr>su_tracks := su_tracks s @ [t]\<rparr>)))"
  have "length (elems (video_fields v)) < 72057594037927935" "length (elems (audio_fields a)) < 72057594037927935" for v a
    using length_track_fields(1) [of v] length_track_fields(2) [of a] by simp_all
  then have ok: "fields_ok (track_entries cfg)"
    by (auto simp: fields_ok_def track_entries_def split: option.split)
  have "g ID_TRACK_ENTRY (elems (video_fields v)) s = Inr (s\<lparr>su_tracks := su_tracks s @ [video_info v]\<rparr>)" for v s
    by (simp add: g_def walk_fields [OF entries_ok(1), of track_field] video_fields_read)
  moreover have "g ID_TRACK_ENTRY (elems (audio_fields a)) s = Inr (s\<lparr>su_tracks := su_tracks s @ [audio_info a]\<rparr>)" for a s
    by (simp add: g_def walk_fields [OF entries_ok(2), of track_field] audio_fields_read)
  ultimately have "fold_io (\<lambda>(i, b). g i b) (track_entries cfg) s = Inr (s\<lparr>su_tracks := su_tracks s @ tracks_of cfg\<rparr>)"
    by (simp add: track_entries_def tracks_of_def split: option.split)
  then show ?thesis
    using walk_fields [OF ok, of g s] unfolding read_tracks_def assms Let_def g_def by simp
qed

definition info_fields :: "WebmConfig \<Rightarrow> f64 \<Rightarrow> (u32 \<times> bytes) list" where
  "info_fields cfg d = [(ID_TIMECODE_SCALE, uint_bytes TIMECODE_SCALE_NS), (ID_MUXING_APP, MUXER),
     (ID_WRITING_APP, case wc_writing_app cfg of Some app \<Rightarrow> app | None \<Rightarrow> MUXER), (ID_DURATION, to_be64 d)]"

definition app_ok :: "WebmConfig \<Rightarrow> bool" where
  "app_ok cfg \<longleftrightarrow> (case wc_writing_app cfg of None \<Rightarrow> True | Some app \<Rightarrow> length app < 2 ^ 56 - 1)"

lemma info_elems: "info_head cfg @ write_f64 ID_DURATION d = elems (info_fields cfg d)"
  by (simp add: info_head_def info_fields_def write_elems)

lemma info_ok: "app_ok cfg \<Longrightarrow> fields_ok (info_fields cfg d)"
  by (auto simp: fields_ok_def info_fields_def app_ok_def MUXER_def small_uint split: option.splits)

lemma read_info_written:
  assumes "Element_body e data = elems (info_fields cfg d)" "app_ok cfg"
  shows "read_info data e s = Inr (s\<lparr>su_timecode_scale_ns := 1000000, su_duration_ms := d\<rparr>)"
proof -
  define g where "g = (\<lambda>i b s. Inr (if i = ID_TIMECODE_SCALE then s\<lparr>su_timecode_scale_ns := uint_of b\<rparr>
    else if i = ID_DURATION then s\<lparr>su_duration_ms := float_of b\<rparr> else s) :: string + WebmSummary)"
  have "fold_io (\<lambda>(i, b). g i b) (info_fields cfg d) s = Inr (s\<lparr>su_timecode_scale_ns := 1000000, su_duration_ms := d\<rparr>)"
    by (simp add: info_fields_def g_def id_defs TIMECODE_SCALE_NS_def)
  then show ?thesis
    using walk_fields [OF info_ok [OF assms(2)], of g d s] unfolding read_info_def assms(1) Let_def g_def by simp
qed

definition header_fields :: "(u32 \<times> bytes) list" where
  "header_fields = [(ID_EBML_VERSION, uint_bytes 1), (ID_EBML_READ_VERSION, uint_bytes 1),
     (ID_EBML_MAX_ID_LENGTH, uint_bytes 4), (ID_EBML_MAX_SIZE_LENGTH, uint_bytes 8), (ID_DOC_TYPE, str ''webm''),
     (ID_DOC_TYPE_VERSION, uint_bytes 2), (ID_DOC_TYPE_READ_VERSION, uint_bytes 2)]"

lemma header_elems: "write_ebml_header = raw_elem (elem ID_EBML (elems header_fields))"
  by (simp add: write_ebml_header_def header_fields_def write_elems write_binary_raw)

lemma header_read:
  "walk (\<lambda>e. header_field (el_id e) (Element_body e (elems header_fields))) (Cursor_new (elems header_fields)) s =
     Inr (s\<lparr>su_doc_type := str ''webm''\<rparr>)"
proof -
  have "fields_ok header_fields" by (simp add: fields_ok_def header_fields_def small_uint)
  note walk_fields [OF this, of header_field s]
  also have "fold_io (\<lambda>(i, b). header_field i b) header_fields s = Inr (s\<lparr>su_doc_type := str ''webm''\<rparr>)"
    by (simp add: header_fields_def header_field_def ascii_texts id_defs)
  finally show ?thesis .
qed

subsection \<open>Cues and seek head\<close>

definition cue_positions :: "CuePoint \<Rightarrow> (u32 \<times> bytes) list" where
  "cue_positions cue = [(ID_CUE_TRACK, uint_bytes (cp_track cue)), (ID_CUE_CLUSTER_POSITION, uint_bytes (cp_cluster_position cue))]"

definition cue_fields :: "CuePoint \<Rightarrow> (u32 \<times> bytes) list" where
  "cue_fields cue = [(ID_CUE_TIME, uint_bytes (cp_time_ms cue)), (ID_CUE_TRACK_POSITIONS, elems (cue_positions cue))]"

definition cue_entries :: "CuePoint list \<Rightarrow> (u32 \<times> bytes) list" where
  "cue_entries cues = map (\<lambda>c. (ID_CUE_POINT, elems (cue_fields c))) cues"

definition cue_read :: "CuePoint \<Rightarrow> CueInfo" where
  "cue_read c = \<lparr>ci_time_ms = cp_time_ms c, ci_track = cp_track c, ci_cluster_position = cp_cluster_position c,
     ci_points_at_cluster = False\<rparr>"

lemma write_cues_elems: "write_cues cues = raw_elem (elem ID_CUES (elems (cue_entries cues)))"
proof -
  have "concat (map cue_point cues) = elems (cue_entries cues)"
    by (induction cues) (auto simp: cue_entries_def cue_point_def write_binary_raw write_elems cue_fields_def cue_positions_def)
  then show ?thesis by (simp add: write_cues_def write_binary_raw)
qed

lemma length_cue_positions: "length (elems (cue_positions c)) < 127"
  using length_write_uint [of ID_CUE_TRACK "cp_track c"] length_write_uint [of ID_CUE_CLUSTER_POSITION "cp_cluster_position c"]
  by (simp add: cue_positions_def write_elems)

lemma cue_entries_ok: "fields_ok (cue_positions c)" "fields_ok (cue_fields c)" "fields_ok (cue_entries cues)"
proof -
  show "fields_ok (cue_positions c)" "fields_ok (cue_fields c)"
    using length_cue_positions [of c] by (auto simp: fields_ok_def cue_positions_def cue_fields_def small_uint)
  have "length (elems (cue_fields c)) < 2 ^ 56 - 1" for c
    using length_write_uint [of ID_CUE_TIME "cp_time_ms c"] length_raw_elem_small [OF length_cue_positions, of ID_CUE_TRACK_POSITIONS c]
      length_cue_positions [of c]
    by (simp add: cue_fields_def write_elems)
  then show "fields_ok (cue_entries cues)" by (auto simp: fields_ok_def cue_entries_def)
qed

lemma cue_fields_read:
  "walk (\<lambda>f. cue_field (el_id f) (Element_body f (elems (cue_fields c)))) (Cursor_new (elems (cue_fields c))) (0, 0, 0) =
     Inr (cp_time_ms c, cp_track c, cp_cluster_position c)"
proof -
  have "walk (\<lambda>g. position_field (el_id g) (Element_body g (elems (cue_positions c)))) (Cursor_new (elems (cue_positions c))) (0, 0) =
      fold_io (\<lambda>(i, b). position_field i b) (cue_positions c) (0, 0)"
    by (rule walk_fields [OF cue_entries_ok(1), of position_field])
  also have "\<dots> = Inr (cp_track c, cp_cluster_position c)"
    by (simp add: cue_positions_def position_field_def id_defs)
  finally have P: "walk (\<lambda>g. position_field (el_id g) (Element_body g (elems (cue_positions c))))
      (Cursor_new (elems (cue_positions c))) (0, 0) = Inr (cp_track c, cp_cluster_position c)" .
  note walk_fields [OF cue_entries_ok(2), of cue_field c "(0, 0, 0)"]
  also have "fold_io (\<lambda>(i, b). cue_field i b) (cue_fields c) (0, 0, 0) = Inr (cp_time_ms c, cp_track c, cp_cluster_position c)"
  proof -
    have "ID_CUE_TRACK_POSITIONS \<noteq> ID_CUE_TIME" by (simp add: id_defs)
    then show ?thesis by (simp add: cue_fields_def cue_field_def P)
  qed
  finally show ?thesis .
qed

lemma read_cues_written:
  assumes "Element_body e data = elems (cue_entries cues)"
  shows "read_cues data e s = Inr (s\<lparr>su_cues := su_cues s @ map cue_read cues\<rparr>)"
proof -
  define g where "g = (\<lambda>i b (s :: WebmSummary). if i \<noteq> ID_CUE_POINT then Inr s
    else (case walk (\<lambda>f. cue_field (el_id f) (Element_body f b)) (Cursor_new b) (0, 0, 0) of
        Inl x \<Rightarrow> Inl x
      | Inr (time_ms, track, position) \<Rightarrow>
          Inr (s\<lparr>su_cues := su_cues s @ [\<lparr>ci_time_ms = time_ms, ci_track = track, ci_cluster_position = position,
            ci_points_at_cluster = False\<rparr>]\<rparr>)))"
  have step: "g ID_CUE_POINT (elems (cue_fields c)) s = Inr (s\<lparr>su_cues := su_cues s @ [cue_read c]\<rparr>)" for c s
    by (simp add: g_def cue_fields_read cue_read_def)
  have "fold_io (\<lambda>(i, b). g i b) (cue_entries cues) s = Inr (s\<lparr>su_cues := su_cues s @ map cue_read cues\<rparr>)"
    by (induction cues arbitrary: s) (auto simp: cue_entries_def step)
  then show ?thesis
    using walk_fields [OF cue_entries_ok(3), of g cues s] unfolding read_cues_def assms Let_def g_def by simp
qed

definition seek_fields :: "u32 \<times> u64 \<Rightarrow> (u32 \<times> bytes) list" where
  "seek_fields x = [(ID_SEEK_ID, id_bytes (fst x)), (ID_SEEK_POSITION, to_be64 (snd x))]"

definition seek_entries :: "(u32 \<times> u64) list \<Rightarrow> (u32 \<times> bytes) list" where
  "seek_entries xs = map (\<lambda>x. (ID_SEEK, elems (seek_fields x))) xs"

lemma seek_entry_elems: "concat (map seek_entry xs) = elems (seek_entries xs)"
  by (induction xs) (auto simp: seek_entries_def seek_entry_def seek_fields_def write_binary_raw write_elems)

lemma length_elem_127: "length b < 127 \<Longrightarrow> length (raw_elem (elem i b)) = length (id_bytes i) + 1 + length b"
proof -
  assume "length b < 127"
  then have "vint_len (of_nat (length b)) = 1" by (intro vint_len_small) (simp add: unsigned_of_nat take_bit_nat_eq_self)
  then show ?thesis by (simp add: raw_elem_def elem_def)
qed

lemma length_seek_fields: "length (id_bytes (fst x)) = 4 \<Longrightarrow> length (elems (seek_fields x)) = 18"
  by (simp add: seek_fields_def length_elem_127 id_lengths)

lemma length_seek_entries:
  "\<forall>x\<in>set xs. length (id_bytes (fst x)) = 4 \<Longrightarrow> length (elems (seek_entries xs)) = 21 * length xs"
  by (induction xs) (auto simp: seek_entries_def length_elem_127 length_seek_fields id_lengths)

lemma seek_fields_read:
  assumes "length (id_bytes (fst x)) = 4"
  shows "walk (\<lambda>f. seek_field (el_id f) (Element_body f (elems (seek_fields x)))) (Cursor_new (elems (seek_fields x))) (0, 0) = Inr x"
proof -
  have ok: "fields_ok (seek_fields x)" using assms by (simp add: fields_ok_def seek_fields_def)
  have id: "fold (\<lambda>b acc. push_bit 8 acc OR ucast b) (id_bytes (fst x)) 0 = fst x"
    by (simp add: id_bytes_def fold_first_nonzero fold_be32)
  note walk_fields [OF ok, of seek_field "(0, 0)"]
  also have "fold_io (\<lambda>(i, b). seek_field i b) (seek_fields x) (0, 0) = Inr x"
    by (simp add: seek_fields_def seek_field_def id id_defs)
  finally show ?thesis .
qed

text \<open>The seek head with the octets left over as a Void element.\<close>

lemma read_seek_head_written:
  assumes body: "Element_body e data = elems (seek_entries xs @ [(ID_VOID, zs)])" and zs: "length zs < 127"
    and xs: "\<forall>x\<in>set xs. length (id_bytes (fst x)) = 4"
  shows "read_seek_head data e s = Inr (s\<lparr>su_seek_head := su_seek_head s @ xs\<rparr>)"
proof -
  define g where "g = (\<lambda>i b (s :: WebmSummary). if i \<noteq> ID_SEEK then Inr s
    else (case walk (\<lambda>f. seek_field (el_id f) (Element_body f b)) (Cursor_new b) (0, 0) of
        Inl x \<Rightarrow> Inl x | Inr r \<Rightarrow> Inr (s\<lparr>su_seek_head := su_seek_head s @ [r]\<rparr>)))"
  have ok: "fields_ok (seek_entries xs @ [(ID_VOID, zs)])"
    using zs xs by (auto simp: fields_ok_def seek_entries_def length_seek_fields)
  have "g ID_VOID zs s = Inr s" for s by (simp add: g_def id_defs)
  moreover have "fold_io (\<lambda>(i, b). g i b) (seek_entries xs) s = Inr (s\<lparr>su_seek_head := su_seek_head s @ xs\<rparr>)"
    using xs
    by (induction xs arbitrary: s) (auto simp: seek_entries_def g_def seek_fields_read)
  ultimately have "fold_io (\<lambda>(i, b). g i b) (seek_entries xs @ [(ID_VOID, zs)]) s =
      Inr (s\<lparr>su_seek_head := su_seek_head s @ xs\<rparr>)"
    by (simp add: fold_io_append)
  then show ?thesis
    using walk_fields [OF ok, of g s] unfolding read_seek_head_def body Let_def g_def by simp
qed

subsection \<open>Clusters\<close>

text \<open>A frame as it is written: track, time, flag and octets; a Cluster as its time and its frames.\<close>

type_synonym frame = "u64 \<times> u64 \<times> bool \<times> bytes"
type_synonym cluster = "u64 \<times> frame list"

definition block_of :: "u64 \<Rightarrow> frame \<Rightarrow> bytes" where
  "block_of tc = (\<lambda>(track, ms, key, data). simple_block track (sint (ms - tc)) key data)"

definition block_read :: "frame \<Rightarrow> BlockInfo" where
  "block_read = (\<lambda>(track, ms, key, data). \<lparr>bi_track = track, bi_ms = sint ms, bi_keyframe = key, bi_bytes = length data\<rparr>)"

definition frame_ok :: "u64 \<Rightarrow> frame \<Rightarrow> bool" where
  "frame_ok tc = (\<lambda>(track, ms, key, data). track \<in> {1, 2} \<and> sint (ms - tc) \<in> {-32768..32767})"

definition cluster_fields :: "cluster \<Rightarrow> (u32 \<times> bytes) list" where
  "cluster_fields = (\<lambda>(tc, fs). (ID_TIMECODE, uint_bytes tc) # map (\<lambda>f. (ID_SIMPLE_BLOCK, block_of tc f)) fs)"

lemma scast_relative:
  assumes "r \<in> {-32768..32767}"
  shows "scast (of_int r :: u16) = (of_int r :: u64)"
proof -
  have "sint (of_int r :: u16) = r"
    using assms by (simp add: signed_of_int signed_take_bit_int_eq_self)
  then show ?thesis unfolding scast_eq by simp
qed

lemma parse_simple_block_written:
  assumes "frame_ok tc f"
  shows "parse_simple_block (block_of tc f) tc = Some (block_read f)"
proof -
  obtain track ms key data where f: "f = (track, ms, key, data)" by (cases f)
  have track: "track \<in> {1, 2}" and r: "sint (ms - tc) \<in> {-32768..32767}" using assms by (auto simp: frame_ok_def f)
  let ?rest = "to_be16 (of_int (sint (ms - tc))) @ [if key then 0x80 else 0x00] @ data"
  have b: "block_of tc f = write_vint track @ ?rest" by (simp add: block_of_def f simple_block_def)
  have len: "vint_len track = 1" and fit: "fits track 1" using track by (auto simp: vint_len_small fits_unat)
  have "before (Cursor_new (block_of tc f)) (write_vint_len track 1)"
    by (simp add: b write_vint_def len before_def Cursor_new_def)
  from read_size_written [OF fit this]
  have v: "vint_value (Cursor_new (block_of tc f)) = Some (track, skip 1 (Cursor_new (block_of tc f)))"
    by (simp add: vint_value_def)
  have rest: "drop (cu_pos (skip 1 (Cursor_new (block_of tc f)))) (block_of tc f) = ?rest"
    by (simp add: Cursor_new_def b write_vint_def len)
  have "to_be16 (of_int (sint (ms - tc))) =
      [ucast (drop_bit 8 (of_int (sint (ms - tc)) :: u16)), ucast (of_int (sint (ms - tc)) :: u16)]"
    by (simp add: to_be16_def)
  then have rd: "be16 (?rest ! 0) (?rest ! 1) = of_int (sint (ms - tc))" "?rest ! 2 = (if key then 0x80 else 0x00)"
    "length ?rest = length data + 3"
    by simp_all
  have "tc + scast (of_int (sint (ms - tc)) :: u16) = ms"
    using scast_relative [OF r] by simp
  then show ?thesis
    unfolding parse_simple_block_def v option.case prod.case rest Let_def rd
    by (simp add: block_read_def f)
qed

lemma read_cluster_written:
  assumes body: "Element_body e data = elems (cluster_fields (tc, fs))"
    and fs: "\<forall>f\<in>set fs. frame_ok tc f" and len: "length (elems (cluster_fields (tc, fs))) < 2 ^ 56 - 1"
  shows "read_cluster data e s = Inr (s\<lparr>su_blocks := su_blocks s @ map block_read fs\<rparr>)"
proof -
  have part: "length b \<le> length (elems xs)" if "(i, b) \<in> set xs" for i b and xs :: "(u32 \<times> bytes) list"
    using that by (induction xs) (auto simp: raw_elem_def elem_def)
  have ok: "fields_ok (cluster_fields (tc, fs))"
    unfolding fields_ok_def
  proof clarify
    fix i b assume m: "(i, b) \<in> set (cluster_fields (tc, fs))"
    then have "id_ok i" by (auto simp: cluster_fields_def)
    then show "id_ok i \<and> length b < 2 ^ 56 - 1" using part [OF m] len by simp
  qed
  have "fold_io (\<lambda>(i, b). cluster_field i b) (map (\<lambda>f. (ID_SIMPLE_BLOCK, block_of tc f)) fs) (tc, s) =
      Inr (tc, s\<lparr>su_blocks := su_blocks s @ map block_read fs\<rparr>)"
    using fs
  proof (induction fs arbitrary: s)
    case (Cons f fs)
    have "cluster_field ID_SIMPLE_BLOCK (block_of tc f) (tc, s) = Inr (tc, s\<lparr>su_blocks := su_blocks s @ [block_read f]\<rparr>)"
      using Cons.prems by (simp add: cluster_field_def parse_simple_block_written id_defs)
    then show ?case using Cons by simp
  qed simp
  moreover have "cluster_field ID_TIMECODE (uint_bytes tc) (0, s) = Inr (tc, s)"
    by (simp add: cluster_field_def)
  ultimately have "fold_io (\<lambda>(i, b). cluster_field i b) (cluster_fields (tc, fs)) (0, s) =
      Inr (tc, s\<lparr>su_blocks := su_blocks s @ map block_read fs\<rparr>)"
    by (simp add: cluster_fields_def)
  then show ?thesis
    using walk_fields [OF ok, of cluster_field "(0, s)"] unfolding read_cluster_def body Let_def by simp
qed
end
