(* ===== verification/Webm_Roundtrip.thy ===== *)
theory Webm_Roundtrip
  imports Webm
begin

text \<open>
  What the WebM writer leaves in the file, as Clusters of frames, and that the reader gives it back: from a
  finished recording and from one that was abandoned.
\<close>


section \<open>The writer\<close>

definition cluster_elem :: "cluster \<Rightarrow> u32 \<times> nat \<times> bytes" where
  "cluster_elem c = elem ID_CLUSTER (elems (cluster_fields c))"

text \<open>The file up to the first Cluster, for the octets of the size, the seek head and the duration.\<close>

definition prefix_bytes :: "WebmConfig \<Rightarrow> bytes \<Rightarrow> bytes \<Rightarrow> f64 \<Rightarrow> bytes" where
  "prefix_bytes cfg n head d = raw_elem (elem ID_EBML (elems header_fields)) @ id_bytes ID_SEGMENT @ n @ head
     @ raw_elem (elem ID_INFO (elems (info_fields cfg d))) @ raw_elem (elem ID_TRACKS (elems (track_entries cfg)))"

definition head_len :: nat where
  "head_len = length (raw_elem (elem ID_EBML (elems header_fields))) + 12"

definition void_head :: bytes where
  "void_head = raw_elem (elem ID_VOID (replicate 94 0))"

lemma write_void_reserve: "write_void SEEK_HEAD_RESERVE = Some (Inr void_head)"
proof -
  have "vint_len (of_nat 94) = 1" by (rule vint_len_small) simp
  then show ?thesis
    unfolding write_void_def SEEK_HEAD_RESERVE_def void_head_def raw_elem_def elem_def
    by (subst write_void_from.simps) (simp add: Let_def)
qed

lemma length_void_head [simp]: "length void_head = 96"
  by (simp add: void_head_def length_elem_127 id_lengths)

text \<open>
  A writer stands for the Clusters closed so far and the one being filled. The fields that do not change
  are those of a new writer.
\<close>

definition where_cluster :: "cluster list \<Rightarrow> nat \<Rightarrow> WebmConfig \<Rightarrow> nat" where
  "where_cluster cs k cfg = length (prefix_bytes cfg (replicate 8 0) (replicate 96 0) 0)
     + length (concat (map (raw_elem \<circ> cluster_elem) (take k cs))) - head_len"

definition cue_ok :: "WebmConfig \<Rightarrow> cluster list \<Rightarrow> CuePoint \<Rightarrow> bool" where
  "cue_ok cfg cs cue \<longleftrightarrow> (\<exists>k < length cs. cp_cluster_position cue = of_nat (where_cluster cs k cfg))"

definition buf_rep :: "ClusterBuf option \<Rightarrow> cluster option \<Rightarrow> bool" where
  "buf_rep b cur = (case (b, cur) of
     (None, None) \<Rightarrow> True
   | (Some c, Some (tc, fs)) \<Rightarrow> cb_timecode_ms c = tc \<and> cb_body c = elems (map (\<lambda>f. (ID_SIMPLE_BLOCK, block_of tc f)) fs) \<and>
       (\<forall>f\<in>set fs. frame_ok tc f)
   | _ \<Rightarrow> False)"

definition writer_rep :: "WebmWriter \<Rightarrow> WebmConfig \<Rightarrow> cluster list \<Rightarrow> cluster option \<Rightarrow> bool" where
  "writer_rep w cfg cs cur \<longleftrightarrow>
     ww_out w = prefix_bytes cfg (write_vint_len unknown_size_8 8) void_head 0 @ concat (map (raw_elem \<circ> cluster_elem) cs) \<and>
     ww_config w = cfg \<and> ww_segment_start w = head_len \<and> ww_segment_size_pos w = head_len - 8 \<and>
     ww_seek_positions w = [(ID_SEEK_HEAD, head_len)] \<and> ww_info_pos w = head_len + 96 \<and>
     ww_tracks_pos w = head_len + 96 + length (raw_elem (elem ID_INFO (elems (info_fields cfg 0)))) \<and>
     ww_duration_pos w = ww_tracks_pos w - 8 \<and>
     buf_rep (ww_cluster w) cur \<and>
     (\<forall>(tc, fs)\<in>set cs. \<forall>f\<in>set fs. frame_ok tc f) \<and>
     (\<forall>cue\<in>set (ww_cues w). cue_ok cfg cs cue) \<and>
     ws_clusters (ww_stats w) = of_nat (length cs)"

definition all_frames :: "cluster list \<Rightarrow> cluster option \<Rightarrow> frame list" where
  "all_frames cs cur = concat (map snd cs) @ (case cur of None \<Rightarrow> [] | Some (tc, fs) \<Rightarrow> fs)"

lemma length_info: "length (raw_elem (elem ID_INFO (elems (info_fields cfg d)))) =
  length (raw_elem (elem ID_INFO (elems (info_fields cfg 0))))"
proof -
  have "length (elems (info_fields cfg d)) = length (elems (info_fields cfg 0))"
    by (simp add: info_fields_def length_elem_127)
  then show ?thesis by (simp add: raw_elem_def elem_def)
qed

lemma length_prefix:
  assumes "length n = 8" "length head = 96"
  shows "length (prefix_bytes cfg n head d) = length (prefix_bytes cfg (replicate 8 0) (replicate 96 0) 0)"
  using length_info [of cfg d] assms by (simp add: prefix_bytes_def)

lemma write_info_eq:
  "write_info p cfg = (raw_elem (elem ID_INFO (elems (info_fields cfg 0))),
     p + length (raw_elem (elem ID_INFO (elems (info_fields cfg 0)))) - 8)"
proof -
  have d: "elems (info_fields cfg 0) = info_head cfg @ raw_elem (elem ID_DURATION (to_be64 0))"
    using info_elems [of cfg 0] by (simp add: write_elems)
  have "length (raw_elem (elem ID_DURATION (to_be64 0))) = 11" by (simp add: length_elem_127 id_lengths)
  then show ?thesis
    unfolding write_info_def Let_def info_elems write_binary_raw
    by (simp add: d id_lengths) (simp add: raw_elem_def elem_def id_lengths)
qed

lemma new_writer:
  assumes "fps_ok cfg"
  obtains w where "WebmWriter_new [] cfg = Some (Inr w)" "writer_rep w cfg [] None" "ww_stats w = WebmStats_default" "ww_cues w = []"
proof (rule that)
  let ?i = "raw_elem (elem ID_INFO (elems (info_fields cfg 0)))"
  let ?w = "\<lparr>ww_out = prefix_bytes cfg (write_vint_len unknown_size_8 8) void_head 0, ww_config = cfg,
    ww_segment_start = head_len, ww_segment_size_pos = head_len - 8,
    ww_duration_pos = head_len + 96 + length ?i - 8, ww_seek_positions = [(ID_SEEK_HEAD, head_len)],
    ww_info_pos = head_len + 96, ww_tracks_pos = head_len + 96 + length ?i,
    ww_cluster = None, ww_cues = [], ww_stats = WebmStats_default\<rparr>"
  show "WebmWriter_new [] cfg = Some (Inr ?w)"
    by (simp add: WebmWriter_new_def write_void_reserve Let_def write_info_eq write_tracks_elems [OF assms] header_elems
        prefix_bytes_def head_len_def id_lengths)
  show "writer_rep ?w cfg [] None"
    by (simp add: writer_rep_def buf_rep_def WebmStats_default_def)
qed simp_all

subsection \<open>Frames\<close>

definition closed :: "cluster option \<Rightarrow> cluster list" where
  "closed cur = (case cur of Some (tc, fs) \<Rightarrow> if fs = [] then [] else [(tc, fs)] | None \<Rightarrow> [])"

lemma all_frames_closed: "all_frames (cs @ closed cur) None = all_frames cs cur"
  by (auto simp: all_frames_def closed_def split: option.split)

lemma elems_Nil_iff: "elems xs = [] \<longleftrightarrow> xs = []"
  by (cases xs) (auto simp: elems_def)

lemma where_cluster_append: "k \<le> length cs \<Longrightarrow> where_cluster (cs @ xs) k cfg = where_cluster cs k cfg"
  by (simp add: where_cluster_def)

lemma cue_ok_append: "cue_ok cfg cs cue \<Longrightarrow> cue_ok cfg (cs @ xs) cue"
  unfolding cue_ok_def by (metis where_cluster_append less_imp_le length_append trans_less_add1)

lemma writer_repD:
  assumes "writer_rep w cfg cs cur"
  shows "ww_out w = prefix_bytes cfg (write_vint_len unknown_size_8 8) void_head 0 @ concat (map (raw_elem \<circ> cluster_elem) cs)"
    "ww_config w = cfg" "ww_segment_start w = head_len" "buf_rep (ww_cluster w) cur"
    "\<forall>(tc, fs)\<in>set cs. \<forall>f\<in>set fs. frame_ok tc f" "\<forall>cue\<in>set (ww_cues w). cue_ok cfg cs cue"
    "ws_clusters (ww_stats w) = of_nat (length cs)"
  using assms by (auto simp: writer_rep_def)

lemma flush_rep:
  assumes w: "writer_rep w cfg cs cur"
  shows "writer_rep (flush_cluster w) cfg (cs @ closed cur) None"
    and "ws_duration_ms (ww_stats (flush_cluster w)) = ws_duration_ms (ww_stats w)"
proof -
  show "ws_duration_ms (ww_stats (flush_cluster w)) = ws_duration_ms (ww_stats w)"
    by (simp add: flush_cluster_def Let_def split: option.split)
  show "writer_rep (flush_cluster w) cfg (cs @ closed cur) None"
  proof (cases cur)
    case None
    then have "ww_cluster w = None" using writer_repD(4) [OF w] by (auto simp: buf_rep_def split: option.splits)
    then show ?thesis using w None by (simp add: flush_cluster_def closed_def)
  next
    case (Some x)
    obtain tc fs where x: "cur = Some (tc, fs)" using Some by (cases x) auto
    then obtain c where c: "ww_cluster w = Some c" "cb_timecode_ms c = tc"
        "cb_body c = elems (map (\<lambda>f. (ID_SIMPLE_BLOCK, block_of tc f)) fs)" "\<forall>f\<in>set fs. frame_ok tc f"
      using writer_repD(4) [OF w] by (auto simp: buf_rep_def split: option.splits)
    show ?thesis
    proof (cases "fs = []")
      case True
      then show ?thesis using w c x by (simp add: flush_cluster_def closed_def writer_rep_def buf_rep_def)
    next
      case False
      have pos: "length (ww_out w) - ww_segment_start w = where_cluster (cs @ [(tc, fs)]) (length cs) cfg"
        using length_prefix [of "write_vint_len unknown_size_8 8" void_head cfg 0] writer_repD(1,3) [OF w]
        by (simp add: where_cluster_def)
      have cues: "\<forall>cue\<in>set (ww_cues w). cue_ok cfg (cs @ [(tc, fs)]) cue"
        using writer_repD(6) [OF w] cue_ok_append by blast
      have new: "cue_ok cfg (cs @ [(tc, fs)]) \<lparr>cp_time_ms = t, cp_track = n,
          cp_cluster_position = of_nat (length (ww_out w) - ww_segment_start w)\<rparr>" for t n
        unfolding pos cue_ok_def by (intro exI [of _ "length cs"]) simp
      have body: "cb_body c \<noteq> []" using False by (simp add: c elems_Nil_iff)
      have bytes: "write_binary ID_CLUSTER (write_uint ID_TIMECODE (cb_timecode_ms c) @ cb_body c) = raw_elem (cluster_elem (tc, fs))"
        by (simp add: c cluster_elem_def cluster_fields_def write_elems write_binary_raw)
      show ?thesis
        using w c(1,4) x False body cues new unfolding flush_cluster_def c(1) option.case if_not_P [OF body] Let_def bytes
        by (auto simp: closed_def writer_rep_def buf_rep_def comp_def split: option.split)
    qed
  qed
qed

lemma ensure_rep:
  assumes w: "writer_rep w cfg cs cur"
  obtains cs' tc fs where "writer_rep (ensure_cluster ms key w) cfg cs' (Some (tc, fs))"
    "all_frames cs' (Some (tc, fs)) = all_frames cs cur"
    "ws_duration_ms (ww_stats (ensure_cluster ms key w)) = ws_duration_ms (ww_stats w)"
proof (cases "start_new w ms key")
  case True
  have "writer_rep (ensure_cluster ms key w) cfg (cs @ closed cur) (Some (ms, []))"
    using flush_rep(1) [OF w] True by (simp add: ensure_cluster_def writer_rep_def buf_rep_def)
  then show ?thesis
    using that flush_rep(2) [OF w] True all_frames_closed [of cs cur]
    by (simp add: ensure_cluster_def all_frames_def)
next
  case False
  then obtain c where c: "ww_cluster w = Some c" by (auto simp: start_new_def split: option.splits)
  then obtain tc fs where x: "cur = Some (tc, fs)"
    using writer_repD(4) [OF w] by (auto simp: buf_rep_def split: option.splits)
  have "writer_rep (ensure_cluster ms key w) cfg cs (Some (tc, fs))"
    using False w c x by (auto simp: ensure_cluster_def writer_rep_def buf_rep_def split: option.splits)
  then show ?thesis using that x False by (simp add: ensure_cluster_def split: option.split)
qed

lemma write_block_rep:
  assumes w: "writer_rep w cfg cs (Some (tc, fs))" and t: "track \<in> {1, 2}"
  obtains w' where "write_block track ms key data w = Some (w', Inr ())"
      "writer_rep w' cfg cs (Some (tc, fs @ [(track, ms, key, data)]))"
      "ws_duration_ms (ww_stats w') = max (ws_duration_ms (ww_stats w)) ms"
  | "write_block track ms key data w = Some (w, Inl (Backwards ms tc))"
proof -
  obtain c where c: "ww_cluster w = Some c" "cb_timecode_ms c = tc"
    using writer_repD(4) [OF w] by (auto simp: buf_rep_def split: option.splits)
  show ?thesis
  proof (cases "sint (ms - tc) < -32768 \<or> sint (ms - tc) > 32767")
    case True
    then show ?thesis using that(2) c by (simp add: write_block_def Let_def)
  next
    case False
    then have f: "frame_ok tc (track, ms, key, data)" using t by (simp add: frame_ok_def)
    let ?w = "w\<lparr>ww_cluster := Some (c\<lparr>
        cb_body := cb_body c @ write_binary ID_SIMPLE_BLOCK (simple_block track (sint (ms - tc)) key data),
        cb_last_ms := max (cb_last_ms c) ms\<rparr>),
      ww_stats := (ww_stats w)\<lparr>ws_duration_ms := max (ws_duration_ms (ww_stats w)) ms\<rparr>\<rparr>"
    have "write_block track ms key data w = Some (?w, Inr ())" using False c by (simp add: write_block_def Let_def)
    moreover have "writer_rep ?w cfg cs (Some (tc, fs @ [(track, ms, key, data)]))"
      using w c f by (simp add: writer_rep_def buf_rep_def write_binary_raw block_of_def)
    ultimately show ?thesis using that(1) by simp
  qed
qed

text \<open>A run of the writer, with the frames it accepted.\<close>

datatype webm_op = VideoFrame u64 bool bytes | AudioFrame u64 bytes

fun webm_write :: "webm_op \<Rightarrow> WebmWriter \<Rightarrow> (WebmWriter \<times> (WebmError + unit)) option" where
  "webm_write (VideoFrame ms key data) w = write_video ms key data w"
| "webm_write (AudioFrame ms data) w = write_audio ms data w"

fun frame_of :: "webm_op \<Rightarrow> frame" where
  "frame_of (VideoFrame ms key data) = (VIDEO_TRACK, ms, key, data)"
| "frame_of (AudioFrame ms data) = (AUDIO_TRACK, ms, True, data)"

fun webm_run :: "webm_op list \<Rightarrow> WebmWriter \<Rightarrow> (WebmWriter \<times> frame list) option" where
  "webm_run [] w = Some (w, [])"
| "webm_run (x # xs) w =
     (case webm_write x w of
        None \<Rightarrow> None
      | Some (w', r) \<Rightarrow>
          (case webm_run xs w' of
             None \<Rightarrow> None | Some (w'', fs) \<Rightarrow> Some (w'', (case r of Inl e \<Rightarrow> fs | Inr _ \<Rightarrow> frame_of x # fs))))"

lemma webm_write_rep:
  assumes w: "writer_rep w cfg cs cur"
  obtains w' r cs' cur' where "webm_write x w = Some (w', r)" "writer_rep w' cfg cs' cur'"
    "all_frames cs' cur' = all_frames cs cur @ (case r of Inl e \<Rightarrow> [] | Inr _ \<Rightarrow> [frame_of x])"
    "ws_duration_ms (ww_stats w') =
       (case r of Inl e \<Rightarrow> ws_duration_ms (ww_stats w) | Inr _ \<Rightarrow> max (ws_duration_ms (ww_stats w)) (fst (snd (frame_of x))))"
proof -
  have stats: "writer_rep (w1\<lparr>ww_stats := st\<rparr>) cfg cs1 cur1"
    if "writer_rep w1 cfg cs1 cur1" "ws_clusters st = ws_clusters (ww_stats w1)" for w1 st cs1 cur1
    using that by (simp add: writer_rep_def)
  show ?thesis
  proof (cases x)
    case (VideoFrame ms key data)
    show ?thesis
    proof (cases "wc_video (ww_config w) = None")
      case True
      then show ?thesis using that [of w "Inl (NoTrack ''video'')" cs cur] w VideoFrame by (simp add: write_video_def)
    next
      case False
      from ensure_rep [OF w, of ms key] obtain cs1 tc fs where e: "writer_rep (ensure_cluster ms key w) cfg cs1 (Some (tc, fs))"
        "all_frames cs1 (Some (tc, fs)) = all_frames cs cur"
        "ws_duration_ms (ww_stats (ensure_cluster ms key w)) = ws_duration_ms (ww_stats w)" by blast
      have t: "VIDEO_TRACK \<in> {1, 2}" by (simp add: VIDEO_TRACK_def)
      show ?thesis
      proof (rule write_block_rep [OF e(1) t, of ms key data])
        fix w1 assume b: "write_block VIDEO_TRACK ms key data (ensure_cluster ms key w) = Some (w1, Inr ())"
          "writer_rep w1 cfg cs1 (Some (tc, fs @ [(VIDEO_TRACK, ms, key, data)]))"
          "ws_duration_ms (ww_stats w1) = max (ws_duration_ms (ww_stats (ensure_cluster ms key w))) ms"
        let ?st = "(ww_stats w1)\<lparr>ws_video_frames := ws_video_frames (ww_stats w1) + 1\<rparr>"
        let ?st2 = "if key then ?st\<lparr>ws_video_keyframes := ws_video_keyframes ?st + 1\<rparr> else ?st"
        have "webm_write x w = Some (w1\<lparr>ww_stats := ?st2\<rparr>, Inr ())"
          using False b(1) VideoFrame by (simp add: write_video_def Let_def)
        moreover have "writer_rep (w1\<lparr>ww_stats := ?st2\<rparr>) cfg cs1 (Some (tc, fs @ [(VIDEO_TRACK, ms, key, data)]))"
          by (rule stats [OF b(2)]) simp
        ultimately show ?thesis using that e(2,3) b(3) VideoFrame by (simp add: all_frames_def)
      next
        assume "write_block VIDEO_TRACK ms key data (ensure_cluster ms key w) =
          Some (ensure_cluster ms key w, Inl (Backwards ms tc))"
        then show ?thesis
          using that [of "ensure_cluster ms key w" "Inl (Backwards ms tc)" cs1 "Some (tc, fs)"] e False VideoFrame
          by (simp add: write_video_def)
      qed
    qed
  next
    case (AudioFrame ms data)
    show ?thesis
    proof (cases "wc_audio (ww_config w) = None")
      case True
      then show ?thesis using that [of w "Inl (NoTrack ''audio'')" cs cur] w AudioFrame by (simp add: write_audio_def)
    next
      case False
      from ensure_rep [OF w, of ms False] obtain cs1 tc fs where e: "writer_rep (ensure_cluster ms False w) cfg cs1 (Some (tc, fs))"
        "all_frames cs1 (Some (tc, fs)) = all_frames cs cur"
        "ws_duration_ms (ww_stats (ensure_cluster ms False w)) = ws_duration_ms (ww_stats w)" by blast
      have t: "AUDIO_TRACK \<in> {1, 2}" by (simp add: AUDIO_TRACK_def)
      show ?thesis
      proof (rule write_block_rep [OF e(1) t, of ms True data])
        fix w1 assume b: "write_block AUDIO_TRACK ms True data (ensure_cluster ms False w) = Some (w1, Inr ())"
          "writer_rep w1 cfg cs1 (Some (tc, fs @ [(AUDIO_TRACK, ms, True, data)]))"
          "ws_duration_ms (ww_stats w1) = max (ws_duration_ms (ww_stats (ensure_cluster ms False w))) ms"
        let ?st = "(ww_stats w1)\<lparr>ws_audio_frames := ws_audio_frames (ww_stats w1) + 1\<rparr>"
        have "webm_write x w = Some (w1\<lparr>ww_stats := ?st\<rparr>, Inr ())"
          using False b(1) AudioFrame by (simp add: write_audio_def)
        moreover have "writer_rep (w1\<lparr>ww_stats := ?st\<rparr>) cfg cs1 (Some (tc, fs @ [(AUDIO_TRACK, ms, True, data)]))"
          by (rule stats [OF b(2)]) simp
        ultimately show ?thesis using that e(2,3) b(3) AudioFrame by (simp add: all_frames_def)
      next
        assume "write_block AUDIO_TRACK ms True data (ensure_cluster ms False w) =
          Some (ensure_cluster ms False w, Inl (Backwards ms tc))"
        then show ?thesis
          using that [of "ensure_cluster ms False w" "Inl (Backwards ms tc)" cs1 "Some (tc, fs)"] e False AudioFrame
          by (simp add: write_audio_def)
      qed
    qed
  qed
qed

lemma webm_run_rep:
  assumes "writer_rep w cfg cs cur"
  obtains w' fs cs' cur' where "webm_run xs w = Some (w', fs)" "writer_rep w' cfg cs' cur'"
    "all_frames cs' cur' = all_frames cs cur @ fs"
    "ws_duration_ms (ww_stats w') = fold max (map (\<lambda>f. fst (snd f)) fs) (ws_duration_ms (ww_stats w))"
  using assms
proof (induction xs arbitrary: w cs cur thesis)
  case (Cons x xs)
  from webm_write_rep [OF Cons.prems(2), of x] obtain w1 r cs1 cur1 where a: "webm_write x w = Some (w1, r)"
    "writer_rep w1 cfg cs1 cur1"
    "all_frames cs1 cur1 = all_frames cs cur @ (case r of Inl e \<Rightarrow> [] | Inr _ \<Rightarrow> [frame_of x])"
    "ws_duration_ms (ww_stats w1) =
       (case r of Inl e \<Rightarrow> ws_duration_ms (ww_stats w) | Inr _ \<Rightarrow> max (ws_duration_ms (ww_stats w)) (fst (snd (frame_of x))))"
    by blast
  from Cons.IH [OF _ a(2)] obtain w2 fs cs2 cur2 where b: "webm_run xs w1 = Some (w2, fs)" "writer_rep w2 cfg cs2 cur2"
    "all_frames cs2 cur2 = all_frames cs1 cur1 @ fs"
    "ws_duration_ms (ww_stats w2) = fold max (map (\<lambda>f. fst (snd f)) fs) (ws_duration_ms (ww_stats w1))" by blast
  show ?case
    using Cons.prems(1) [of w2 "case r of Inl e \<Rightarrow> fs | Inr _ \<Rightarrow> frame_of x # fs" cs2 cur2] a b
    by (cases r) (simp_all add: max.commute)
qed (use that in simp)

subsection \<open>The end of a recording\<close>

lemma write_at_mid: "length d = length b \<Longrightarrow> p = length a \<Longrightarrow> write_at p d (a @ b @ c) = a @ d @ c"
  by (simp add: write_at_def)

lemma vint_len_127: "n < 127 \<Longrightarrow> vint_len (of_nat n) = 1"
  by (intro vint_len_small) (simp add: unsigned_of_nat take_bit_nat_eq_self)

lemma choose_size_len_seek: "used \<in> {42, 63} \<Longrightarrow> choose_size_len 96 used = Some (1, 91 - used)"
  by (auto simp: choose_size_len_def id_lengths upt_conv_Cons vint_len_127 Let_def)

lemma write_void_small:
  assumes "2 \<le> n" "n < 127"
  shows "write_void n = Some (Inr (raw_elem (elem ID_VOID (replicate (n - 2) 0))))"
proof -
  obtain m where m: "n = Suc (Suc m)" using assms(1) by (auto simp: le_Suc_ex numeral_2_eq_2 dest: le_Suc_ex)
  then have "vint_len (of_nat m) = 1" using assms(2) by (simp add: vint_len_127)
  then show ?thesis unfolding write_void_def raw_elem_def elem_def m
    by (subst write_void_from.simps) (simp add: Let_def)
qed

text \<open>The seek head of two or three entries fills the place reserved for it.\<close>

definition seek_head_elem :: "(u32 \<times> u64) list \<Rightarrow> u32 \<times> nat \<times> bytes" where
  "seek_head_elem xs = elem ID_SEEK_HEAD (elems (seek_entries xs @ [(ID_VOID, replicate (89 - 21 * length xs) 0)]))"

lemma write_seek_head_eq:
  assumes xs: "\<forall>x\<in>set xs. length (id_bytes (fst x)) = 4" and n: "length xs \<in> {2, 3}"
  shows "write_seek_head xs SEEK_HEAD_RESERVE = Some (Inr (raw_elem (seek_head_elem xs)))" (is ?A)
    and "length (raw_elem (seek_head_elem xs)) = 96" (is ?B)
proof -
  let ?p = "elems (seek_entries xs)" and ?v = "raw_elem (elem ID_VOID (replicate (89 - 21 * length xs) 0)) :: bytes"
  have p: "length ?p = 21 * length xs" by (rule length_seek_entries [OF xs])
  have v: "length ?v = 91 - 21 * length xs" using n by (auto simp: length_elem_127 id_lengths)
  have slack: "write_void (91 - 21 * length xs) = Some (Inr ?v)"
    using write_void_small [of "91 - 21 * length xs"] n by auto
  have "length (elems (seek_entries xs @ [(ID_VOID, replicate (89 - 21 * length xs) 0)])) = 91" using p v n by auto
  then have e: "seek_head_elem xs = (ID_SEEK_HEAD, 1, ?p @ ?v)" "length (?p @ ?v) = 91"
    using vint_len_127 [of 91] by (simp_all add: seek_head_elem_def elem_def)
  have c: "choose_size_len 96 (length ?p) = Some (1, 91 - 21 * length xs)"
    unfolding p by (rule choose_size_len_seek) (use n in auto)
  have raw: "raw_elem (ID_SEEK_HEAD, 1, q) = id_bytes ID_SEEK_HEAD @ write_vint_len (of_nat (length q)) 1 @ q" for q
    by (simp add: raw_elem_def)
  show ?A
    unfolding write_seek_head_def seek_entry_elems SEEK_HEAD_RESERVE_def Let_def c e(1) raw
    using slack n by auto
  show ?B using e by (simp add: raw_elem_def id_lengths)
qed

definition cues_bytes :: "CuePoint list \<Rightarrow> bytes" where
  "cues_bytes cues = (if cues = [] then [] else write_cues cues)"

definition finished_seeks :: "WebmConfig \<Rightarrow> cluster list \<Rightarrow> CuePoint list \<Rightarrow> (u32 \<times> u64) list" where
  "finished_seeks cfg cs cues = [(ID_INFO, 96),
     (ID_TRACKS, of_nat (96 + length (raw_elem (elem ID_INFO (elems (info_fields cfg 0))))))]
     @ (if cues = [] then [] else [(ID_CUES, of_nat (where_cluster cs (length cs) cfg))])"

definition finished_bytes :: "WebmConfig \<Rightarrow> cluster list \<Rightarrow> CuePoint list \<Rightarrow> f64 \<Rightarrow> u64 \<Rightarrow> bytes" where
  "finished_bytes cfg cs cues d n = prefix_bytes cfg (write_vint_len n 8) (raw_elem (seek_head_elem (finished_seeks cfg cs cues))) d
     @ concat (map (raw_elem \<circ> cluster_elem) cs) @ cues_bytes cues"

lemma finished_seeks_ok: "\<forall>x\<in>set (finished_seeks cfg cs cues). length (id_bytes (fst x)) = 4"
  "length (finished_seeks cfg cs cues) \<in> {2, 3}"
  by (auto simp: finished_seeks_def id_lengths)

text \<open>The duration is the last eight octets of Info.\<close>

lemma info_split:
  obtains x where "\<And>d. raw_elem (elem ID_INFO (elems (info_fields cfg d))) = x @ to_be64 d"
proof -
  let ?h = "\<lambda>d. elems (info_fields cfg d)"
  have d: "?h d = info_head cfg @ id_bytes ID_DURATION @ write_vint_len 8 1 @ to_be64 d" for d
    using info_elems [of cfg d] vint_len_127 [of 8] by (simp add: write_elems raw_elem_def elem_def)
  then have L: "length (?h d) = length (?h 0)" for d by simp
  let ?x = "id_bytes ID_INFO @ write_vint_len (of_nat (length (?h 0))) (vint_len (of_nat (length (?h 0))))"
  have R: "raw_elem (elem ID_INFO (?h d)) = ?x @ ?h d" for d using L [of d] by (simp add: raw_elem_def elem_def)
  have "raw_elem (elem ID_INFO (?h d)) = (?x @ info_head cfg @ id_bytes ID_DURATION @ write_vint_len 8 1) @ to_be64 d" for d
    unfolding R [of d] unfolding d [of d] by simp
  then show ?thesis using that by blast
qed

text \<open>Writing over the size, the duration and the seek head.\<close>

lemma patch_size: "length m = 8 \<Longrightarrow> length n = 8 \<Longrightarrow>
  write_at (head_len - 8) m (prefix_bytes cfg n h d @ ys) = prefix_bytes cfg m h d @ ys"
  using write_at_mid [of m n "head_len - 8" "raw_elem (elem ID_EBML (elems header_fields)) @ id_bytes ID_SEGMENT"]
  by (simp add: prefix_bytes_def head_len_def id_lengths)

lemma patch_head: "length g = 96 \<Longrightarrow> length h = 96 \<Longrightarrow> length n = 8 \<Longrightarrow>
  write_at head_len g (prefix_bytes cfg n h d @ ys) = prefix_bytes cfg n g d @ ys"
  using write_at_mid [of g h head_len "raw_elem (elem ID_EBML (elems header_fields)) @ id_bytes ID_SEGMENT @ n"]
  by (simp add: prefix_bytes_def head_len_def id_lengths)

lemma patch_duration:
  assumes "length h = 96" "length n = 8"
  shows "write_at (head_len + 96 + length (raw_elem (elem ID_INFO (elems (info_fields cfg 0)))) - 8) (to_be64 e)
    (prefix_bytes cfg n h d @ ys) = prefix_bytes cfg n h e @ ys"
proof -
  obtain x where x: "\<And>d. raw_elem (elem ID_INFO (elems (info_fields cfg d))) = x @ to_be64 d" by (rule info_split) blast
  show ?thesis
    using assms write_at_mid [of "to_be64 e" "to_be64 d" "head_len + 96 + length x"
      "raw_elem (elem ID_EBML (elems header_fields)) @ id_bytes ID_SEGMENT @ n @ h @ x"
      "raw_elem (elem ID_TRACKS (elems (track_entries cfg))) @ ys"]
    by (simp add: prefix_bytes_def head_len_def id_lengths x ac_simps)
qed

lemma length_finished:
  "length (finished_bytes cfg cs cues d n) = length (prefix_bytes cfg (write_vint_len unknown_size_8 8) void_head 0)
     + length (concat (map (raw_elem \<circ> cluster_elem) cs)) + length (cues_bytes cues)"
proof -
  have "length (raw_elem (seek_head_elem (finished_seeks cfg cs cues))) = 96"
    by (rule write_seek_head_eq(2) [OF finished_seeks_ok])
  then show ?thesis
    using length_prefix [of "write_vint_len n 8" "raw_elem (seek_head_elem (finished_seeks cfg cs cues))" cfg d]
      length_prefix [of "write_vint_len unknown_size_8 8" void_head cfg 0]
    by (simp add: finished_bytes_def)
qed

lemma finish_flushed:
  assumes w: "writer_rep w cfg cs None"
  shows "WebmWriter_finish w = (let f = finished_bytes cfg cs (ww_cues w) (f64_of_u64 (ws_duration_ms (ww_stats w)))
      (of_nat (length (finished_bytes cfg cs (ww_cues w) 0 0) - head_len)) in
    Some (Inr ((ww_stats w)\<lparr>ws_bytes := of_nat (length f)\<rparr>, f)))"
proof -
  let ?cues = "ww_cues w" and ?u = "write_vint_len unknown_size_8 8" and ?d = "f64_of_u64 (ws_duration_ms (ww_stats w))"
  let ?cl = "concat (map (raw_elem \<circ> cluster_elem) cs)"
  let ?p = "prefix_bytes cfg ?u void_head 0" and ?seeks = "finished_seeks cfg cs ?cues"
  let ?n = "length (finished_bytes cfg cs ?cues 0 0) - head_len"
  let ?h = "raw_elem (seek_head_elem ?seeks)"
  have c: "ww_cluster w = None" using w by (auto simp: writer_rep_def buf_rep_def split: option.splits)
  have f: "ww_out w = ?p @ ?cl" "ww_segment_start w = head_len" "ww_segment_size_pos w = head_len - 8"
    "ww_seek_positions w = [(ID_SEEK_HEAD, head_len)]" "ww_info_pos w = head_len + 96"
    "ww_tracks_pos w = head_len + 96 + length (raw_elem (elem ID_INFO (elems (info_fields cfg 0))))"
    "ww_duration_pos w = head_len + 96 + length (raw_elem (elem ID_INFO (elems (info_fields cfg 0)))) - 8"
    using w by (simp_all add: writer_rep_def)
  have h: "length ?h = 96" "write_seek_head ?seeks SEEK_HEAD_RESERVE = Some (Inr ?h)"
    by (simp_all add: write_seek_head_eq [OF finished_seeks_ok])
  have pos: "length (?p @ ?cl) - head_len = where_cluster cs (length cs) cfg"
    using length_prefix [of ?u void_head cfg 0] by (simp add: where_cluster_def)
  have len: "length (?p @ ?cl @ cues_bytes ?cues) = length (finished_bytes cfg cs ?cues d n)" for d n
    by (simp add: length_finished)
  have seeks: "[(ID_INFO, of_nat (ww_info_pos w - ww_segment_start w)), (ID_TRACKS, of_nat (ww_tracks_pos w - ww_segment_start w))]
      @ (case find (\<lambda>(i, _). i = ID_CUES)
           (if ?cues \<noteq> [] then ww_seek_positions w @ [(ID_CUES, length (ww_out w))] else ww_seek_positions w) of
          Some (_, pos) \<Rightarrow> [(ID_CUES, of_nat (pos - ww_segment_start w))] | None \<Rightarrow> []) = ?seeks"
    using pos by (simp add: f finished_seeks_def id_defs)
  have out: "(if ?cues \<noteq> [] then ww_out w @ write_cues ?cues else ww_out w) = ?p @ ?cl @ cues_bytes ?cues"
    by (simp add: f cues_bytes_def)
  have first: "snd ((if ?cues \<noteq> [] then ww_seek_positions w @ [(ID_CUES, length (ww_out w))] else ww_seek_positions w) ! 0) = head_len"
    by (simp add: f)
  have flush: "flush_cluster w = w" by (simp add: flush_cluster_def c)
  have o1: "write_at (ww_segment_size_pos w) (write_vint_len (of_nat (length (?p @ ?cl @ cues_bytes ?cues) - ww_segment_start w)) 8)
      (?p @ ?cl @ cues_bytes ?cues) = prefix_bytes cfg (write_vint_len (of_nat ?n) 8) void_head 0 @ ?cl @ cues_bytes ?cues"
    unfolding f len [of 0 0] by (rule patch_size) simp_all
  have o2: "write_at (ww_duration_pos w) (to_be64 ?d) (prefix_bytes cfg (write_vint_len (of_nat ?n) 8) void_head 0 @ ?cl @ cues_bytes ?cues)
      = prefix_bytes cfg (write_vint_len (of_nat ?n) 8) void_head ?d @ ?cl @ cues_bytes ?cues"
    unfolding f by (rule patch_duration) simp_all
  have o3: "write_at head_len ?h (prefix_bytes cfg (write_vint_len (of_nat ?n) 8) void_head ?d @ ?cl @ cues_bytes ?cues)
      = finished_bytes cfg cs ?cues ?d (of_nat ?n)"
    unfolding finished_bytes_def by (rule patch_head) (simp_all add: h)
  show ?thesis
    using o2 o3 unfolding WebmWriter_finish_def Let_def flush seeks out first h(2) o1 unfolding len [of ?d "of_nat ?n"] by simp
qed

section \<open>Reading a recording\<close>

lemma placed_append: "placed p (xs @ ys) = placed p xs @ placed (p + length (concat (map raw_elem xs))) ys"
  by (induction xs arbitrary: p) (simp_all add: add.assoc)

lemma placed_body:
  assumes "\<forall>x\<in>set xs. raw_ok x" "before c (concat (map raw_elem xs))" "(e, b) \<in> set (placed (cu_pos c) xs)"
  shows "Element_body e (cu_data c) = b"
  using assms
proof (induction xs arbitrary: c)
  case (Cons x xs)
  have p: "before c (raw_elem x)" "before (skip (length (raw_elem x)) c) (concat (map raw_elem xs))" "raw_ok x"
    using Cons.prems(1,2) by (simp_all add: before_append)
  show ?case
    using Cons.prems(1,3) element_written(2) [OF p(3,1)] Cons.IH [OF _ p(2)] by auto
qed simp

text \<open>The elements of a Segment, for the first one and the duration.\<close>

definition cues_elems :: "CuePoint list \<Rightarrow> (u32 \<times> nat \<times> bytes) list" where
  "cues_elems cues = (if cues = [] then [] else [elem ID_CUES (elems (cue_entries cues))])"

definition segment_elems :: "WebmConfig \<Rightarrow> u32 \<times> nat \<times> bytes \<Rightarrow> f64 \<Rightarrow> cluster list \<Rightarrow> CuePoint list \<Rightarrow> (u32 \<times> nat \<times> bytes) list" where
  "segment_elems cfg head d cs cues = [head, elem ID_INFO (elems (info_fields cfg d)), elem ID_TRACKS (elems (track_entries cfg))]
     @ map cluster_elem cs @ cues_elems cues"

definition segment_bytes :: "WebmConfig \<Rightarrow> u32 \<times> nat \<times> bytes \<Rightarrow> f64 \<Rightarrow> cluster list \<Rightarrow> CuePoint list \<Rightarrow> bytes" where
  "segment_bytes cfg head d cs cues = concat (map raw_elem (segment_elems cfg head d cs cues))"

text \<open>The positions of Clusters from \<open>p\<close> on, counted from \<open>start\<close>.\<close>

fun places :: "nat \<Rightarrow> nat \<Rightarrow> cluster list \<Rightarrow> u64 list" where
  "places start p [] = []"
| "places start p (c # cs) = of_nat (p - start) # places start (p + length (raw_elem (cluster_elem c))) cs"

lemma places_mem: "k < length cs \<Longrightarrow>
  of_nat (p + length (concat (map (raw_elem \<circ> cluster_elem) (take k cs))) - start) \<in> set (places start p cs)"
proof (induction cs arbitrary: k p)
  case (Cons c cs)
  then show ?case using Cons.IH [of "k - 1" "p + length (raw_elem (cluster_elem c))"]
    by (cases k) (simp_all add: add.assoc)
qed simp

lemma raw_elem_part: "x \<in> set xs \<Longrightarrow> length (snd (snd x)) \<le> length (concat (map raw_elem xs))"
  by (induction xs) (auto simp: raw_elem_def split: prod.splits)

lemma elems_part: "(i, b) \<in> set xs \<Longrightarrow> length b \<le> length (elems xs)"
  by (induction xs) (auto simp: raw_elem_def elem_def)

lemma segment_elems_ok:
  assumes "raw_ok head" "length (segment_bytes cfg head d cs cues) < 2 ^ 56 - 1"
  shows "\<forall>x\<in>set (segment_elems cfg head d cs cues). raw_ok x" "app_ok cfg"
proof -
  have part: "length (snd (snd x)) < 2 ^ 56 - 1" if "x \<in> set (segment_elems cfg head d cs cues)" for x
    using raw_elem_part [OF that] assms(2) unfolding segment_bytes_def by linarith
  have e: "\<exists>i b. x = elem i b \<and> id_ok i" if "x \<in> set (segment_elems cfg head d cs cues)" "x \<noteq> head" for x
  proof -
    from that consider "x = elem ID_INFO (elems (info_fields cfg d))" | "x = elem ID_TRACKS (elems (track_entries cfg))"
      | c where "x = elem ID_CLUSTER (elems (cluster_fields c))" | "x = elem ID_CUES (elems (cue_entries cues))"
      by (auto simp: segment_elems_def cluster_elem_def cues_elems_def split: if_splits)
    then show ?thesis using ids_ok by cases blast+
  qed
  show "\<forall>x\<in>set (segment_elems cfg head d cs cues). raw_ok x"
  proof
    fix x assume x: "x \<in> set (segment_elems cfg head d cs cues)"
    show "raw_ok x"
    proof (cases "x = head")
      case False
      then obtain i b where "x = elem i b" "id_ok i" using e [OF x] by blast
      then show ?thesis using part [OF x] by (simp add: raw_ok_elem)
    qed (simp add: assms(1))
  qed
  have "elem ID_INFO (elems (info_fields cfg d)) \<in> set (segment_elems cfg head d cs cues)" by (simp add: segment_elems_def)
  from part [OF this] have len: "length (elems (info_fields cfg d)) < 2 ^ 56 - 1" by simp
  show "app_ok cfg"
  proof (cases "wc_writing_app cfg")
    case (Some app)
    then have "(ID_WRITING_APP, app) \<in> set (info_fields cfg d)" by (simp add: info_fields_def)
    from le_less_trans [OF elems_part [OF this] len] show ?thesis by (simp add: app_ok_def Some)
  qed (simp add: app_ok_def)
qed

text \<open>What a Segment's children add to the summary.\<close>

definition with_children :: "WebmConfig \<Rightarrow> f64 \<Rightarrow> cluster list \<Rightarrow> CuePoint list \<Rightarrow> WebmSummary \<Rightarrow> WebmSummary" where
  "with_children cfg d cs cues s = s\<lparr>su_timecode_scale_ns := 1000000, su_duration_ms := d,
     su_tracks := su_tracks s @ tracks_of cfg, su_clusters := su_clusters s + length cs,
     su_blocks := su_blocks s @ map block_read (concat (map snd cs)), su_cues := su_cues s @ map cue_read cues\<rparr>"

lemma clusters_read:
  assumes "\<forall>(e, b)\<in>set (placed p (map cluster_elem cs)). Element_body e data = b"
    "\<forall>(tc, fs)\<in>set cs. \<forall>f\<in>set fs. frame_ok tc f" "\<forall>c\<in>set cs. length (elems (cluster_fields c)) < 2 ^ 56 - 1"
  shows "fold_io (\<lambda>(e, b). segment_child data start e) (placed p (map cluster_elem cs)) (s, cl) =
    Inr (s\<lparr>su_clusters := su_clusters s + length cs, su_blocks := su_blocks s @ map block_read (concat (map snd cs))\<rparr>,
      cl @ places start p cs)"
  using assms
proof (induction cs arbitrary: p s cl)
  case (Cons c cs)
  obtain tc fs where c: "c = (tc, fs)" by (cases c)
  have body: "Element_body (placed_at p (cluster_elem (tc, fs))) data = elems (cluster_fields (tc, fs))"
    using Cons.prems(1) by (simp add: c cluster_elem_def)
  have "read_cluster data (placed_at p (cluster_elem (tc, fs))) s' = Inr (s'\<lparr>su_blocks := su_blocks s' @ map block_read fs\<rparr>)" for s'
    by (rule read_cluster_written [OF body]) (use Cons.prems(2,3) in \<open>auto simp: c\<close>)
  moreover have "el_id (placed_at p (cluster_elem (tc, fs))) = ID_CLUSTER" by (simp add: cluster_elem_def)
  ultimately have step: "segment_child data start (placed_at p (cluster_elem (tc, fs))) (s, cl) =
      Inr (s\<lparr>su_clusters := su_clusters s + 1, su_blocks := su_blocks s @ map block_read fs\<rparr>, cl @ [of_nat (p - start)])"
    by (simp add: segment_child_def)
  have "\<forall>(e, b)\<in>set (placed (p + length (raw_elem (cluster_elem c))) (map cluster_elem cs)). Element_body e data = b"
    "\<forall>(tc, fs)\<in>set cs. \<forall>f\<in>set fs. frame_ok tc f" "\<forall>c\<in>set cs. length (elems (cluster_fields c)) < 2 ^ 56 - 1"
    using Cons.prems by auto
  from Cons.IH [OF this] show ?case by (simp add: c step)
qed simp

lemma cues_read:
  assumes "\<forall>(e, b)\<in>set (placed p (cues_elems cues)). Element_body e data = b"
  shows "fold_io (\<lambda>(e, b). segment_child data start e) (placed p (cues_elems cues)) (s, cl) =
    Inr (s\<lparr>su_cues := su_cues s @ map cue_read cues\<rparr>, cl)"
proof (cases "cues = []")
  case False
  have "Element_body (placed_at p (elem ID_CUES (elems (cue_entries cues)))) data = elems (cue_entries cues)"
    using assms False by (simp add: cues_elems_def)
  from read_cues_written [OF this, of s] False show ?thesis
    by (simp add: cues_elems_def segment_child_def id_defs)
qed (simp add: cues_elems_def)

lemma segment_read:
  assumes ok: "raw_ok head" "length (segment_bytes cfg head d cs cues) < 2 ^ 56 - 1"
    and data: "data = pre @ segment_bytes cfg head d cs cues" "start = length pre"
    and fs: "\<forall>(tc, fs)\<in>set cs. \<forall>f\<in>set fs. frame_ok tc f"
    and head: "\<And>s cl. Element_body (placed_at start head) data = snd (snd head) \<Longrightarrow>
      segment_child data start (placed_at start head) (s, cl) = Inr (h s, cl)"
  shows "walk (segment_child data start) (Cursor_at data start (length data)) (s, cl) =
    Inr (with_children cfg d cs cues (h s), cl @ places start (start + length (raw_elem head @
      raw_elem (elem ID_INFO (elems (info_fields cfg d))) @ raw_elem (elem ID_TRACKS (elems (track_entries cfg))))) cs)"
proof -
  let ?xs = "segment_elems cfg head d cs cues" and ?c = "Cursor_at data start (length data)"
  let ?i = "elem ID_INFO (elems (info_fields cfg d))" and ?t = "elem ID_TRACKS (elems (track_entries cfg))"
  note raw = segment_elems_ok [OF ok]
  have c: "cu_pos ?c = start" "cu_data ?c = data" "cu_end ?c = length data" by (simp_all add: Cursor_at_def)
  have b: "before ?c (concat (map raw_elem ?xs))"
    using data by (simp add: before_def Cursor_at_def segment_bytes_def)
  have e: "cu_pos ?c + length (concat (map raw_elem ?xs)) = cu_end ?c" using data by (simp add: Cursor_at_def segment_bytes_def)
  have body: "Element_body e data = x" if "(e, x) \<in> set (placed start ?xs)" for e x
    using placed_body [OF raw(1) b] that by (simp add: c)
  let ?p = "start + length (raw_elem head @ raw_elem ?i @ raw_elem ?t)"
  have pl: "placed start ?xs = [(placed_at start head, snd (snd head)), (placed_at (start + length (raw_elem head)) ?i, snd (snd ?i)),
      (placed_at (start + length (raw_elem head @ raw_elem ?i)) ?t, snd (snd ?t))]
      @ placed ?p (map cluster_elem cs) @ placed (?p + length (concat (map raw_elem (map cluster_elem cs)))) (cues_elems cues)"
    by (simp add: segment_elems_def placed_append add.assoc del: map_map)
  have 1: "segment_child data start (placed_at start head) (s, cl) = Inr (h s, cl)"
    by (rule head) (rule body, simp add: pl)
  have 2: "segment_child data start (placed_at (start + length (raw_elem head)) ?i) (s', cl) =
      Inr (s'\<lparr>su_timecode_scale_ns := 1000000, su_duration_ms := d\<rparr>, cl)" for s'
  proof -
    have "Element_body (placed_at (start + length (raw_elem head)) ?i) data = elems (info_fields cfg d)"
      by (rule body) (simp add: pl)
    from read_info_written [OF this raw(2), of s'] show ?thesis by (simp add: segment_child_def id_defs)
  qed
  have 3: "segment_child data start (placed_at (start + length (raw_elem head @ raw_elem ?i)) ?t) (s', cl) =
      Inr (s'\<lparr>su_tracks := su_tracks s' @ tracks_of cfg\<rparr>, cl)" for s'
  proof -
    have "Element_body (placed_at (start + length (raw_elem head @ raw_elem ?i)) ?t) data = elems (track_entries cfg)"
      by (rule body) (simp add: pl)
    from read_tracks_written [OF this, of s'] show ?thesis by (simp add: segment_child_def id_defs)
  qed
  have len: "\<forall>c\<in>set cs. length (elems (cluster_fields c)) < 2 ^ 56 - 1"
  proof
    fix c assume "c \<in> set cs"
    then have "raw_ok (cluster_elem c)" using raw(1) by (simp add: segment_elems_def)
    then show "length (elems (cluster_fields c)) < 2 ^ 56 - 1" by (simp add: raw_ok_def cluster_elem_def elem_def)
  qed
  have 4: "fold_io (\<lambda>(e, b). segment_child data start e) (placed ?p (map cluster_elem cs)) (s', cl) =
      Inr (s'\<lparr>su_clusters := su_clusters s' + length cs, su_blocks := su_blocks s' @ map block_read (concat (map snd cs))\<rparr>,
        cl @ places start ?p cs)" for s'
    by (rule clusters_read [OF _ fs len]) (use body in \<open>auto simp: pl\<close>)
  have 5: "fold_io (\<lambda>(e, b). segment_child data start e)
      (placed (?p + length (concat (map raw_elem (map cluster_elem cs)))) (cues_elems cues)) (s', cl') =
      Inr (s'\<lparr>su_cues := su_cues s' @ map cue_read cues\<rparr>, cl')" for s' cl'
    by (rule cues_read) (use body in \<open>auto simp: pl\<close>)
  have "walk (segment_child data start) ?c (s, cl) = fold_io (\<lambda>(e, b). segment_child data start e) (placed start ?xs) (s, cl)"
    using walk_written [OF raw(1) b e c(2), of "segment_child data start" "\<lambda>e b. segment_child data start e"] by (simp add: c)
  also have "\<dots> = Inr (with_children cfg d cs cues (h s), cl @ places start ?p cs)"
    unfolding pl by (simp only: fold_io_append fold_io.simps append_Cons append_Nil prod.case 1 2 3 4 5 sum.case)
      (simp add: with_children_def)
  finally show ?thesis .
qed

subsection \<open>A finished recording\<close>

lemma raw_header: "raw_ok (elem ID_EBML (elems header_fields))" "length (elems header_fields) < 127"
proof -
  show l: "length (elems header_fields) < 127"
    using length_write_uint [of ID_EBML_VERSION 1] length_write_uint [of ID_EBML_READ_VERSION 1]
      length_write_uint [of ID_EBML_MAX_ID_LENGTH 4] length_write_uint [of ID_EBML_MAX_SIZE_LENGTH 8]
      length_write_uint [of ID_DOC_TYPE_VERSION 2] length_write_uint [of ID_DOC_TYPE_READ_VERSION 2]
      length_raw_elem_small [of "str ''webm''" ID_DOC_TYPE]
    by (simp add: header_fields_def write_elems)
  show "raw_ok (elem ID_EBML (elems header_fields))" by (rule raw_ok_elem) (use l in simp_all)
qed

abbreviation header_elem :: "u32 \<times> nat \<times> bytes" where
  "header_elem \<equiv> elem ID_EBML (elems header_fields)"

lemma top_header:
  assumes "Element_body (placed_at p header_elem) data = elems header_fields"
  shows "top_child data (placed_at p header_elem) (s, cl) = Inr (s\<lparr>su_doc_type := str ''webm''\<rparr>, cl)"
  using header_read [of s] by (simp add: top_child_def assms)

lemma seek_head_child:
  assumes "Element_body (placed_at p (seek_head_elem xs)) data = snd (snd (seek_head_elem xs))"
    "\<forall>x\<in>set xs. length (id_bytes (fst x)) = 4"
  shows "segment_child data start (placed_at p (seek_head_elem xs)) (s, cl) = Inr (s\<lparr>su_seek_head := su_seek_head s @ xs\<rparr>, cl)"
proof -
  have i: "el_id (placed_at p (seek_head_elem xs)) = ID_SEEK_HEAD" by (simp add: seek_head_elem_def)
  have "read_seek_head data (placed_at p (seek_head_elem xs)) s = Inr (s\<lparr>su_seek_head := su_seek_head s @ xs\<rparr>)"
    by (rule read_seek_head_written [OF assms(1) [unfolded seek_head_elem_def snd_elem, folded seek_head_elem_def] _ assms(2)]) simp
  then show ?thesis by (simp add: segment_child_def i) (simp add: id_defs)
qed

lemma finished_split:
  "finished_bytes cfg cs cues d n = raw_elem header_elem @ id_bytes ID_SEGMENT @ write_vint_len n 8 @
     segment_bytes cfg (seek_head_elem (finished_seeks cfg cs cues)) d cs cues"
  by (simp add: finished_bytes_def prefix_bytes_def segment_bytes_def segment_elems_def cues_bytes_def cues_elems_def
      write_cues_elems)

lemma finished_read:
  assumes n: "n = of_nat (length (finished_bytes cfg cs cues d 0) - head_len)"
    and len: "length (finished_bytes cfg cs cues d n) < 2 ^ 56 - 1"
    and fs: "\<forall>(tc, fs)\<in>set cs. \<forall>f\<in>set fs. frame_ok tc f" and cues: "\<forall>cue\<in>set cues. cue_ok cfg cs cue"
  shows "read_summary (finished_bytes cfg cs cues d n) = Inr \<lparr>su_doc_type = str ''webm'', su_timecode_scale_ns = 1000000,
    su_duration_ms = d, su_tracks = tracks_of cfg, su_clusters = length cs,
    su_blocks = map block_read (concat (map snd cs)),
    su_cues = map (\<lambda>c. (cue_read c)\<lparr>ci_points_at_cluster := True\<rparr>) cues,
    su_segment_size = Some n, su_seek_head = finished_seeks cfg cs cues\<rparr>"
proof -
  let ?seeks = "finished_seeks cfg cs cues"
  let ?head = "seek_head_elem ?seeks"
  let ?P = "segment_bytes cfg ?head d cs cues"
  let ?data = "finished_bytes cfg cs cues d n"
  let ?pre = "raw_elem header_elem @ id_bytes ID_SEGMENT @ write_vint_len n 8"
  have pre: "length ?pre = head_len" by (simp add: head_len_def id_lengths)
  have data: "?data = ?pre @ ?P" by (simp add: finished_split)
  have P: "length ?P < 2 ^ 56 - 1" using len unfolding data by simp
  have "length (finished_bytes cfg cs cues d 0) = head_len + length ?P" using pre unfolding finished_split by simp
  then have nP: "n = of_nat (length ?P)" unfolding n by simp
  have "fits n 8" using P unfolding nP by (simp add: fits_unat unat_length)
  then have ok: "\<forall>x\<in>set [header_elem, (ID_SEGMENT, 8, ?P)]. raw_ok x"
    using raw_header(1) P by (simp add: raw_ok_def nP)
  have "raw_elem (ID_SEGMENT, 8, ?P) = id_bytes ID_SEGMENT @ write_vint_len n 8 @ ?P" by (simp add: raw_elem_def nP)
  then have raw: "?data = concat (map raw_elem [header_elem, (ID_SEGMENT, 8, ?P)])" unfolding data by simp
  have bef: "before (Cursor_new ?data) (concat (map raw_elem [header_elem, (ID_SEGMENT, 8, ?P)]))"
    unfolding raw by (simp add: before_def Cursor_new_def)
  let ?es = "placed 0 [header_elem, (ID_SEGMENT, 8, ?P)]"
  have body: "Element_body e ?data = b" if "(e, b) \<in> set ?es" for e b
    using placed_body [OF ok bef] that by (simp add: Cursor_new_def)
  have h: "raw_ok ?head"
    by (simp add: seek_head_elem_def, rule raw_ok_elem)
      (use write_seek_head_eq(2) [OF finished_seeks_ok, of cfg cs cues] in \<open>simp_all add: seek_head_elem_def raw_elem_def elem_def\<close>)
  have inner: "walk (segment_child ?data head_len) (Cursor_at ?data head_len (length ?data)) (s, cl) =
    Inr (with_children cfg d cs cues (s\<lparr>su_seek_head := su_seek_head s @ ?seeks\<rparr>), cl @ places head_len (head_len + length (raw_elem ?head @
      raw_elem (elem ID_INFO (elems (info_fields cfg d))) @ raw_elem (elem ID_TRACKS (elems (track_entries cfg))))) cs)" for s cl
    by (rule segment_read [OF h P data pre [symmetric] fs])
      (rule seek_head_child [OF _ finished_seeks_ok(1)])
  have "el_data_start (placed_at (length (raw_elem header_elem)) (ID_SEGMENT, 8, ?P)) = head_len"
    by (simp add: placed_at_def head_len_def id_lengths)
  moreover have "Element_end (placed_at (length (raw_elem header_elem)) (ID_SEGMENT, 8, ?P)) (length ?data) = length ?data"
    using pre unat_length [OF P] unfolding data
    by (simp add: Element_end_def placed_at_def head_len_def id_lengths)
  ultimately have seg: "top_child ?data (placed_at (length (raw_elem header_elem)) (ID_SEGMENT, 8, ?P)) (s, cl) =
      walk (segment_child ?data head_len) (Cursor_at ?data head_len (length ?data)) (s\<lparr>su_segment_size := Some n\<rparr>, cl)" for s cl
    by (simp add: top_child_def placed_at_def nP) (simp add: id_defs)
  have top: "walk (top_child ?data) (Cursor_new ?data) (WebmSummary_blank, []) =
      fold_io (\<lambda>(e, b). top_child ?data e) ?es (WebmSummary_blank, [])"
    using walk_written [OF ok bef _ _, of ?data "top_child ?data" "\<lambda>e b. top_child ?data e"] raw
    by (simp add: Cursor_new_def)
  have 1: "top_child ?data (placed_at 0 header_elem) (s, cl) = Inr (s\<lparr>su_doc_type := str ''webm''\<rparr>, cl)" for s cl
    by (rule top_header) (rule body, simp)
  let ?p = "head_len + length (raw_elem ?head @ raw_elem (elem ID_INFO (elems (info_fields cfg d)))
    @ raw_elem (elem ID_TRACKS (elems (track_entries cfg))))"
  have at: "cp_cluster_position cue \<in> set (places head_len ?p cs)" if "cue \<in> set cues" for cue
  proof -
    obtain k where k: "k < length cs" "cp_cluster_position cue = of_nat (where_cluster cs k cfg)"
      using cues \<open>cue \<in> set cues\<close> by (auto simp: cue_ok_def)
    have "?p = length (prefix_bytes cfg (write_vint_len n 8) (raw_elem ?head) d)"
      by (simp add: prefix_bytes_def head_len_def id_lengths)
    also have "\<dots> = length (prefix_bytes cfg (replicate 8 0) (replicate 96 0) 0)"
      by (rule length_prefix) (simp_all add: write_seek_head_eq(2) [OF finished_seeks_ok])
    finally show ?thesis using places_mem [OF k(1), of ?p head_len] by (simp only: k(2) where_cluster_def)
  qed
  show ?thesis
    using at unfolding read_summary_def top
    by (simp add: 1 seg inner) (simp add: with_children_def WebmSummary_blank_def cue_read_def)
qed

subsection \<open>An abandoned recording\<close>

lemma unknown_size_bytes: "write_vint_len unknown_size_8 8 = [1, 255, 255, 255, 255, 255, 255, 255]"
  by code_simp

lemma read_unknown_size:
  assumes "before c (write_vint_len unknown_size_8 8)"
  shows "read_size c = Some (None, skip 8 c)"
proof -
  note B = before_Cons [OF assms [unfolded unknown_size_bytes]]
  have "cu_pos c + 8 \<le> cu_end c" using assms by (simp add: before_def)
  then show ?thesis
    using B by (simp add: read_size_def marker_len_def leading_zeros_def skip_def Let_def)
qed

lemma top_ignores: "el_id e \<noteq> ID_EBML \<Longrightarrow> el_id e \<noteq> ID_SEGMENT \<Longrightarrow> top_child data e x = Inr x"
  by (cases x) (simp add: top_child_def)

lemma fold_io_unit: "(\<And>x s. x \<in> set xs \<Longrightarrow> f x s = Inr s) \<Longrightarrow> fold_io f xs s = Inr s"
  by (induction xs) auto

lemma placed_ids: "(e, b) \<in> set (placed p xs) \<Longrightarrow> el_id e \<in> fst ` set xs"
  by (induction xs arbitrary: p) (auto simp: placed_at_def split: prod.splits)

definition void_elem :: "u32 \<times> nat \<times> bytes" where
  "void_elem = elem ID_VOID (replicate 94 0)"

definition abandoned_bytes :: "WebmConfig \<Rightarrow> cluster list \<Rightarrow> bytes" where
  "abandoned_bytes cfg cs = raw_elem header_elem @ id_bytes ID_SEGMENT @ write_vint_len unknown_size_8 8
     @ segment_bytes cfg void_elem 0 cs []"

lemma abandoned_split:
  "prefix_bytes cfg (write_vint_len unknown_size_8 8) void_head 0 @ concat (map (raw_elem \<circ> cluster_elem) cs) = abandoned_bytes cfg cs"
  by (simp add: abandoned_bytes_def prefix_bytes_def segment_bytes_def segment_elems_def cues_elems_def void_head_def void_elem_def)

lemma void_child:
  "segment_child data start (placed_at p void_elem) (s, cl) = Inr (s, cl)"
  by (simp add: segment_child_def void_elem_def) (simp add: id_defs)

lemma abandoned_read:
  assumes len: "length (abandoned_bytes cfg cs) < 2 ^ 56 - 1" and fs: "\<forall>(tc, fs)\<in>set cs. \<forall>f\<in>set fs. frame_ok tc f"
  shows "read_summary (abandoned_bytes cfg cs) = Inr \<lparr>su_doc_type = str ''webm'', su_timecode_scale_ns = 1000000,
    su_duration_ms = 0, su_tracks = tracks_of cfg, su_clusters = length cs,
    su_blocks = map block_read (concat (map snd cs)), su_cues = [], su_segment_size = None, su_seek_head = []\<rparr>"
proof -
  let ?data = "abandoned_bytes cfg cs" and ?P = "segment_bytes cfg void_elem 0 cs []"
  let ?pre = "raw_elem header_elem @ id_bytes ID_SEGMENT @ write_vint_len unknown_size_8 8"
  let ?k = "length (raw_elem header_elem)" and ?xs = "segment_elems cfg void_elem 0 cs []"
  let ?e = "\<lparr>el_id = ID_SEGMENT, el_start = ?k, el_data_start = head_len, el_size = None\<rparr>"
  have pre: "length ?pre = head_len" by (simp add: head_len_def id_lengths)
  have data: "?data = ?pre @ ?P" by (simp add: abandoned_bytes_def)
  have P: "length ?P < 2 ^ 56 - 1" using len unfolding data by simp
  have v: "raw_ok void_elem" unfolding void_elem_def by (rule raw_ok_elem) simp_all
  define c0 where "c0 = Cursor_new ?data"
  have c: "cu_pos c0 = 0" "cu_data c0 = ?data" "cu_end c0 = length ?data" by (simp_all add: c0_def Cursor_new_def)
  have "before c0 ?data" by (simp add: before_def c)
  then have parts: "before c0 (raw_elem header_elem)" "before (skip ?k c0) (id_bytes ID_SEGMENT)"
    "before (skip (?k + 4) c0) (write_vint_len unknown_size_8 8)" "before (skip head_len c0) ?P"
    unfolding data by (simp_all add: before_append head_len_def id_lengths ac_simps)
  note H = element_written [OF raw_header(1) parts(1), unfolded c]
  have S: "Cursor_element (skip ?k c0) = Inr (Some ?e, skip head_len c0)"
  proof -
    have "read_id (skip ?k c0) = Some (ID_SEGMENT, skip (?k + 4) c0)"
      using read_id_written [OF _ parts(2)] by (simp add: id_lengths)
    moreover have "head_len \<le> length ?data" "?k < length ?data" using pre unfolding data by (simp_all add: id_lengths)
    ultimately show ?thesis
      using read_unknown_size [OF parts(3)] by (simp add: Cursor_element_def c Let_def head_len_def skip_def)
  qed
  have inner: "top_child ?data ?e (s, cl) = Inr (with_children cfg 0 cs [] (s\<lparr>su_segment_size := None\<rparr>),
      cl @ places head_len (head_len + length (raw_elem void_elem @ raw_elem (elem ID_INFO (elems (info_fields cfg 0)))
        @ raw_elem (elem ID_TRACKS (elems (track_entries cfg))))) cs)" for s cl
    using segment_read [OF v P data pre [symmetric] fs, of "\<lambda>s. s" "s\<lparr>su_segment_size := None\<rparr>" cl] void_child
    by (simp add: top_child_def Element_end_def) (simp add: id_defs)
  have rest: "walk (top_child ?data) (skip head_len c0) x = Inr x" for x
  proof -
    note raw = segment_elems_ok(1) [OF v P]
    have "walk (top_child ?data) (skip head_len c0) x = fold_io (\<lambda>(e, b). top_child ?data e) (placed head_len ?xs) x"
      using walk_written [OF raw parts(4) [unfolded segment_bytes_def], of ?data "top_child ?data" "\<lambda>e b. top_child ?data e"] pre
      by (simp add: c) (simp add: data segment_bytes_def)
    also have "\<dots> = Inr x"
    proof (rule fold_io_unit)
      fix y s assume m: "y \<in> set (placed head_len ?xs)"
      obtain e b where y1: "y = (e, b)" by (cases y)
      have y: "y = (e, b)" "el_id e \<in> fst ` set ?xs" using y1 placed_ids [OF m [unfolded y1]] by simp_all
      have "fst ` set ?xs \<subseteq> {ID_VOID, ID_INFO, ID_TRACKS, ID_CLUSTER}"
        by (auto simp: segment_elems_def void_elem_def cluster_elem_def cues_elems_def elem_def)
      then have "el_id e \<noteq> ID_EBML" "el_id e \<noteq> ID_SEGMENT" using y(2) by (auto simp: id_defs)
      then show "(case y of (e, b) \<Rightarrow> top_child ?data e) s = Inr s" by (simp add: y top_ignores)
    qed
    finally show ?thesis .
  qed
  have 1: "top_child ?data (placed_at 0 header_elem) (s, cl) = Inr (s\<lparr>su_doc_type := str ''webm''\<rparr>, cl)" for s cl
    by (rule top_header) (use H(2) in simp)
  have "walk (top_child ?data) c0 (s, cl) = top_child ?data ?e (s\<lparr>su_doc_type := str ''webm''\<rparr>, cl)" for s cl
    by (subst walk.simps, simp add: H(1) 1, subst walk.simps) (simp add: S rest inner)
  then show ?thesis
    unfolding read_summary_def c0_def by (simp add: inner) (simp add: with_children_def WebmSummary_blank_def)
qed

section \<open>Recordings\<close>

text \<open>
  A recording from its creation to \<open>finish\<close>, with the frames it accepted, the statistics and the file; and
  one that is dropped instead.
\<close>

definition webm_record :: "WebmConfig \<Rightarrow> webm_op list \<Rightarrow> (frame list \<times> WebmStats \<times> bytes) option" where
  "webm_record cfg ops =
     (case WebmWriter_new [] cfg of
        Some (Inr w0) \<Rightarrow>
          (case webm_run ops w0 of
             Some (w, fs) \<Rightarrow> (case WebmWriter_finish w of Some (Inr (stats, file)) \<Rightarrow> Some (fs, stats, file) | _ \<Rightarrow> None)
           | None \<Rightarrow> None)
      | _ \<Rightarrow> None)"

definition webm_abandon :: "WebmConfig \<Rightarrow> webm_op list \<Rightarrow> (frame list \<times> bytes) option" where
  "webm_abandon cfg ops =
     (case WebmWriter_new [] cfg of
        Some (Inr w0) \<Rightarrow> (case webm_run ops w0 of Some (w, fs) \<Rightarrow> Some (fs, WebmWriter_drop w) | None \<Rightarrow> None)
      | _ \<Rightarrow> None)"

definition last_ms :: "frame list \<Rightarrow> u64" where
  "last_ms fs = fold max (map (\<lambda>f. fst (snd f)) fs) 0"

lemma finish_flush: "WebmWriter_finish w = WebmWriter_finish (flush_cluster w)"
proof -
  have "ww_cluster (flush_cluster w) = None" by (simp add: flush_cluster_def Let_def split: option.split)
  then have "flush_cluster (flush_cluster w) = flush_cluster w" by (subst flush_cluster_def) simp
  then show ?thesis by (simp add: WebmWriter_finish_def)
qed

text \<open>Every recording ends, as Clusters of the accepted frames.\<close>

lemma webm_record_fps: "\<not> fps_ok cfg \<Longrightarrow> webm_record cfg ops = None" "\<not> fps_ok cfg \<Longrightarrow> webm_abandon cfg ops = None"
  by (simp_all add: webm_record_def webm_abandon_def WebmWriter_new_def write_void_reserve write_tracks_def Let_def split: prod.split)

lemma webm_record_rep:
  assumes fps: "fps_ok cfg"
  obtains w :: WebmWriter and fs cs cues where
    "webm_record cfg ops = Some (fs, (ww_stats w)\<lparr>ws_bytes := of_nat (length (finished_bytes cfg cs cues (f64_of_u64 (last_ms fs))
        (of_nat (length (finished_bytes cfg cs cues 0 0) - head_len))))\<rparr>,
      finished_bytes cfg cs cues (f64_of_u64 (last_ms fs)) (of_nat (length (finished_bytes cfg cs cues 0 0) - head_len)))"
    "webm_abandon cfg ops = Some (fs, abandoned_bytes cfg cs)"
    "concat (map snd cs) = fs" "\<forall>(tc, fs)\<in>set cs. \<forall>f\<in>set fs. frame_ok tc f" "\<forall>cue\<in>set cues. cue_ok cfg cs cue"
    "ws_clusters (ww_stats w) = of_nat (length cs)" "ws_duration_ms (ww_stats w) = last_ms fs"
proof -
  obtain w0 where n: "WebmWriter_new [] cfg = Some (Inr w0)" "writer_rep w0 cfg [] None" "ww_stats w0 = WebmStats_default"
    by (rule new_writer [OF fps])
  from webm_run_rep [OF n(2), of ops] obtain w fs cs cur where r: "webm_run ops w0 = Some (w, fs)" "writer_rep w cfg cs cur"
    "all_frames cs cur = all_frames [] None @ fs"
    "ws_duration_ms (ww_stats w) = fold max (map (\<lambda>f. fst (snd f)) fs) (ws_duration_ms (ww_stats w0))" by blast
  let ?w = "flush_cluster w" and ?cs = "cs @ closed cur"
  note f = flush_rep [OF r(2)]
  have d: "ws_duration_ms (ww_stats ?w) = last_ms fs" using r(4) f(2) by (simp add: last_ms_def n(3) WebmStats_default_def)
  have frames: "concat (map snd ?cs) = fs"
    using all_frames_closed [of cs cur] r(3) by (simp add: all_frames_def)
  have none: "flush_cluster w = w" if "ww_cluster w = None" using that by (simp add: flush_cluster_def)
  have "WebmWriter_drop w = ww_out ?w" using none by (simp add: WebmWriter_drop_def)
  also have "\<dots> = abandoned_bytes cfg ?cs" using writer_repD(1) [OF f(1)] by (simp only: abandoned_split)
  finally have drop: "WebmWriter_drop w = abandoned_bytes cfg ?cs" .
  show ?thesis
    using that [of fs ?cs "ww_cues ?w" ?w] finish_flush [of w] finish_flushed [OF f(1)] n(1) r(1) d drop frames writer_repD(5-7) [OF f(1)]
    unfolding webm_record_def webm_abandon_def Let_def by simp
qed

lemma length_finished_cong: "length (finished_bytes cfg cs cues d n) = length (finished_bytes cfg cs cues d' n')"
  by (simp add: length_finished)

text \<open>
  C6. A recording is read back: for every sequence of frames, unless the file is too long for its size field,
  the reader finds the format, the tracks of the configuration, every frame that was accepted in the order
  it was written with its track, its time, its flag and its length, the number of Clusters the statistics
  count, the greatest time as the duration, cues that all point at a Cluster, and the size of the file.
\<close>

theorem webm_recording_roundtrip:
  assumes "webm_record cfg ops = Some (fs, stats, file)" "length file < 2 ^ 56 - 1"
  shows "\<exists>s. read_summary file = Inr s \<and> su_doc_type s = str ''webm'' \<and> su_timecode_scale_ns s = 1000000
    \<and> su_tracks s = tracks_of cfg \<and> su_blocks s = map block_read fs \<and> su_duration_ms s = f64_of_u64 (last_ms fs)
    \<and> (\<forall>cue\<in>set (su_cues s). ci_points_at_cluster cue) \<and> su_segment_size s = Some (of_nat (length file - head_len))
    \<and> ws_clusters stats = of_nat (su_clusters s) \<and> ws_duration_ms stats = last_ms fs \<and> ws_bytes stats = of_nat (length file)"
proof (rule webm_record_rep [of cfg ops])
  show "fps_ok cfg" using assms(1) webm_record_fps [of cfg ops] by auto
next
  fix w fs' cs cues
  let ?d = "f64_of_u64 (last_ms fs')" and ?n = "of_nat (length (finished_bytes cfg cs cues 0 0) - head_len) :: u64"
  assume r: "webm_record cfg ops = Some (fs', (ww_stats w)\<lparr>ws_bytes := of_nat (length (finished_bytes cfg cs cues ?d ?n))\<rparr>,
      finished_bytes cfg cs cues ?d ?n)" and c: "concat (map snd cs) = fs'"
    and ok: "\<forall>(tc, fs)\<in>set cs. \<forall>f\<in>set fs. frame_ok tc f" "\<forall>cue\<in>set cues. cue_ok cfg cs cue"
    and st: "ws_clusters (ww_stats w) = of_nat (length cs)" "ws_duration_ms (ww_stats w) = last_ms fs'"
  have e: "fs = fs'" "file = finished_bytes cfg cs cues ?d ?n" "stats = (ww_stats w)\<lparr>ws_bytes := of_nat (length file)\<rparr>"
    using assms(1) r by auto
  have n: "?n = of_nat (length (finished_bytes cfg cs cues ?d 0) - head_len)" "?n = of_nat (length file - head_len)"
    unfolding e(2) by (simp_all only: length_finished)
  have "length (finished_bytes cfg cs cues ?d ?n) < 2 ^ 56 - 1" using assms(2) unfolding e(2) .
  note read = finished_read [OF n(1) this ok, folded e(2)]
  show ?thesis
    by (rule exI, intro conjI, rule read) (simp_all add: c e(1,3) n(2) st cue_read_def)
qed

text \<open>
  C38. Every recording comes to an end: creation, the frames and \<open>finish\<close> give a file, with no panic and no
  error, for every sequence of frames and exactly the configurations without a frame rate of 0.
\<close>

theorem webm_recording_total: "webm_record cfg ops \<noteq> None \<longleftrightarrow> fps_ok cfg"
proof (cases "fps_ok cfg")
  case True
  then show ?thesis by (rule webm_record_rep [of cfg ops]) (simp add: True)
qed (simp add: webm_record_fps)

text \<open>
  C29. A recording that was abandoned is still readable: the file left by a dropped writer has the tracks and
  every accepted frame, with no size, no duration and no cues.
\<close>

theorem webm_abandoned_readable:
  assumes "webm_abandon cfg ops = Some (fs, file)" "length file < 2 ^ 56 - 1"
  shows "\<exists>s. read_summary file = Inr s \<and> su_doc_type s = str ''webm'' \<and> su_tracks s = tracks_of cfg
    \<and> su_blocks s = map block_read fs \<and> su_cues s = [] \<and> su_segment_size s = None"
proof (rule webm_record_rep [of cfg ops])
  show "fps_ok cfg" using assms(1) webm_record_fps [of cfg ops] by auto
next
  fix w fs' cs cues
  assume "webm_abandon cfg ops = Some (fs', abandoned_bytes cfg cs)" and c: "concat (map snd cs) = fs'"
    and ok: "\<forall>(tc, fs)\<in>set cs. \<forall>f\<in>set fs. frame_ok tc f"
  then have "fs = fs'" "file = abandoned_bytes cfg cs" using assms(1) by auto
  then show ?thesis using abandoned_read [OF _ ok, of cfg] assms(2) c by simp
qed

subsection \<open>Frames in order\<close>

definition op_ms :: "webm_op \<Rightarrow> u64" where
  "op_ms x = fst (snd (frame_of x))"

fun op_track :: "WebmConfig \<Rightarrow> webm_op \<Rightarrow> bool" where
  "op_track cfg (VideoFrame ms key data) = (wc_video cfg \<noteq> None)"
| "op_track cfg (AudioFrame ms data) = (wc_audio cfg \<noteq> None)"

text \<open>The Cluster being filled began at \<open>t\<close> or before.\<close>

definition began_by :: "WebmWriter \<Rightarrow> u64 \<Rightarrow> bool" where
  "began_by w t \<longleftrightarrow> (case ww_cluster w of None \<Rightarrow> True | Some c \<Rightarrow> cb_timecode_ms c \<le> t)"

lemma sint_in_order:
  assumes "tc \<le> ms" "unat ms < 2 ^ 63"
  shows "0 \<le> sint (ms - tc :: u64)"
proof -
  have "unat (ms - tc) < 2 ^ 63" using assms by (simp add: unat_sub_if' word_le_nat_alt)
  then have "\<not> bit (unat (ms - tc)) 63" by (metis bit_take_bit_iff less_irrefl take_bit_nat_eq_self)
  then have "\<not> bit (ms - tc) 63" by (simp add: bit_unsigned_iff)
  then show ?thesis unfolding sint_uint signed_take_bit_nonnegative_iff by (simp add: bit_uint_iff)
qed

lemma write_block_in_order:
  assumes "unat ms < 2 ^ 63" "began_by w ms"
  obtains w' where "write_block track ms key data (ensure_cluster ms k w) = Some (w', Inr ())"
    "ww_config w' = ww_config w" "began_by w' ms"
proof -
  let ?w = "ensure_cluster ms k w"
  obtain c where c: "ww_cluster ?w = Some c" "cb_timecode_ms c \<le> ms" "sint (ms - cb_timecode_ms c) \<le> 32767"
  proof (cases "start_new w ms k")
    case False
    then obtain c where c: "ww_cluster w = Some c" "sint (ms - cb_timecode_ms c) \<le> 32767" "cb_timecode_ms c \<le> ms"
      using assms(2) by (auto simp: start_new_def began_by_def Let_def split: option.splits)
    show ?thesis
    proof (cases k)
      case True
      then show ?thesis using that [of "c\<lparr>cb_cue := (case cb_cue c of None \<Rightarrow> Some (ms, VIDEO_TRACK) | x \<Rightarrow> x)\<rparr>"] c False
        by (simp add: ensure_cluster_def)
    qed (use that c False in \<open>simp add: ensure_cluster_def\<close>)
  qed (use that in \<open>simp add: ensure_cluster_def\<close>)
  have conf: "ww_config ?w = ww_config w"
    by (simp add: ensure_cluster_def flush_cluster_def Let_def split: option.split)
  let ?w' = "?w\<lparr>ww_cluster := Some (c\<lparr>
      cb_body := cb_body c @ write_binary ID_SIMPLE_BLOCK (simple_block track (sint (ms - cb_timecode_ms c)) key data),
      cb_last_ms := max (cb_last_ms c) ms\<rparr>),
    ww_stats := (ww_stats ?w)\<lparr>ws_duration_ms := max (ws_duration_ms (ww_stats ?w)) ms\<rparr>\<rparr>"
  have "write_block track ms key data ?w = Some (?w', Inr ())"
    using c sint_in_order [OF c(2) assms(1)] by (simp add: write_block_def Let_def)
  moreover have "began_by ?w' ms" using c(2) by (simp add: began_by_def)
  ultimately show ?thesis using that conf by simp
qed

lemma webm_write_in_order:
  assumes "unat (op_ms x) < 2 ^ 63" "began_by w (op_ms x)" "op_track (ww_config w) x"
  obtains w' where "webm_write x w = Some (w', Inr ())" "ww_config w' = ww_config w" "began_by w' (op_ms x)"
proof (cases x)
  case (VideoFrame ms key data)
  then have a: "unat ms < 2 ^ 63" "began_by w ms" using assms by (simp_all add: op_ms_def)
  obtain w1 where "write_block VIDEO_TRACK ms key data (ensure_cluster ms key w) = Some (w1, Inr ())"
    "ww_config w1 = ww_config w" "began_by w1 ms" by (rule write_block_in_order [OF a])
  then show ?thesis using that VideoFrame assms(3) by (simp add: write_video_def Let_def op_ms_def began_by_def)
next
  case (AudioFrame ms data)
  then have a: "unat ms < 2 ^ 63" "began_by w ms" using assms by (simp_all add: op_ms_def)
  obtain w1 where "write_block AUDIO_TRACK ms True data (ensure_cluster ms False w) = Some (w1, Inr ())"
    "ww_config w1 = ww_config w" "began_by w1 ms" by (rule write_block_in_order [OF a])
  then show ?thesis using that AudioFrame assms(3) by (simp add: write_audio_def op_ms_def began_by_def)
qed

lemma began_by_mono: "began_by w t \<Longrightarrow> t \<le> t' \<Longrightarrow> began_by w t'"
  by (auto simp: began_by_def split: option.splits)

lemma webm_run_in_order:
  assumes "sorted (map op_ms xs)" "\<forall>x\<in>set xs. unat (op_ms x) < 2 ^ 63 \<and> op_track (ww_config w) x" "\<forall>x\<in>set xs. began_by w (op_ms x)"
  shows "\<exists>w'. webm_run xs w = Some (w', map frame_of xs)"
  using assms
proof (induction xs arbitrary: w)
  case (Cons x xs)
  have x: "unat (op_ms x) < 2 ^ 63" "began_by w (op_ms x)" "op_track (ww_config w) x" using Cons.prems by simp_all
  obtain w' where w': "webm_write x w = Some (w', Inr ())" "ww_config w' = ww_config w" "began_by w' (op_ms x)"
    by (rule webm_write_in_order [OF x])
  have "\<forall>y\<in>set xs. began_by w' (op_ms y)" using Cons.prems(1) began_by_mono [OF w'(3)] by simp
  then obtain w2 where "webm_run xs w' = Some (w2, map frame_of xs)" using Cons.IH [of w'] Cons.prems w'(2) by auto
  then show ?case by (simp add: w')
qed simp

text \<open>
  C21. Frames in order of time are all accepted: with the tracks of the frames configured, a recording whose
  times do not go back and fit a signed 64-bit number keeps every frame.
\<close>

theorem webm_in_order_accepted:
  assumes "webm_record cfg ops = Some (fs, stats, file)" "sorted (map op_ms ops)"
    "\<forall>x\<in>set ops. unat (op_ms x) < 2 ^ 63 \<and> op_track cfg x"
  shows "fs = map frame_of ops"
proof -
  have "fps_ok cfg" using assms(1) webm_record_fps [of cfg ops] by auto
  then obtain w0 where n: "WebmWriter_new [] cfg = Some (Inr w0)" "writer_rep w0 cfg [] None" by (rule new_writer)
  have "ww_config w0 = cfg" "ww_cluster w0 = None" using n(2) by (auto simp: writer_rep_def buf_rep_def split: option.splits)
  then obtain w where "webm_run ops w0 = Some (w, map frame_of ops)"
    using webm_run_in_order [OF assms(2), of w0] assms(3) by (auto simp: began_by_def)
  then show ?thesis using assms(1) n(1) by (auto simp: webm_record_def split: option.splits sum.splits)
qed

text \<open>A recording of two video frames and one audio frame, the last video frame in a Cluster of its own.\<close>

definition webm_sample_config :: WebmConfig where
  "webm_sample_config = \<lparr>wc_video = Some (VideoTrack_new WebmVp8 640 480), wc_audio = Some (AudioTrack_opus 48000 2),
     wc_max_cluster = \<lparr>cl_min_ms = 1000, cl_max_ms = 5000, cl_max_bytes = 100\<rparr>, wc_writing_app = None\<rparr>"

definition webm_sample_ops :: "webm_op list" where
  "webm_sample_ops = [VideoFrame 0 True [1, 2, 3], AudioFrame 20 [4], VideoFrame 1000 True [5, 6]]"

text \<open>The accepted frames and the lengths of the two files, without the files.\<close>

definition webm_sizes :: "WebmConfig \<Rightarrow> webm_op list \<Rightarrow> (frame list \<times> nat \<times> nat) option" where
  "webm_sizes cfg ops =
     (case WebmWriter_new [] cfg of
        Some (Inr w0) \<Rightarrow>
          (case webm_run ops w0 of
             Some (w, fs) \<Rightarrow>
               (let w' = flush_cluster w; n = length (ww_out w') in Some (fs, n + length (cues_bytes (ww_cues w')), n))
           | None \<Rightarrow> None)
      | _ \<Rightarrow> None)"

lemma webm_sizes_eq:
  assumes "webm_sizes cfg ops = Some (fs, m, n)"
  obtains stats x y where "webm_record cfg ops = Some (fs, stats, x)" "length x = m" "webm_abandon cfg ops = Some (fs, y)" "length y = n"
proof -
  have "fps_ok cfg"
    using assms
    by (cases "fps_ok cfg") (auto simp: webm_sizes_def WebmWriter_new_def write_void_reserve write_tracks_def Let_def split: prod.splits)
  then obtain w0 where new: "WebmWriter_new [] cfg = Some (Inr w0)" "writer_rep w0 cfg [] None" by (rule new_writer)
  from webm_run_rep [OF new(2), of ops] obtain w gs cs cur where r: "webm_run ops w0 = Some (w, gs)" "writer_rep w cfg cs cur"
    "all_frames cs cur = all_frames [] None @ gs"
    "ws_duration_ms (ww_stats w) = fold max (map (\<lambda>f. fst (snd f)) gs) (ws_duration_ms (ww_stats w0))" by blast
  note f = flush_rep(1) [OF r(2)]
  have e: "fs = gs" "n = length (ww_out (flush_cluster w))" "m = n + length (cues_bytes (ww_cues (flush_cluster w)))"
    using assms by (auto simp: webm_sizes_def new(1) r(1) Let_def)
  have drop: "WebmWriter_drop w = ww_out (flush_cluster w)" by (simp add: WebmWriter_drop_def flush_cluster_def)
  let ?w = "flush_cluster w" and ?cs = "cs @ closed cur"
  obtain stats x where fin: "WebmWriter_finish w = Some (Inr (stats, x))" "length x = m"
    using finish_flush [of w] finish_flushed [OF f] writer_repD(1) [OF f] e(2,3) by (simp add: Let_def length_finished)
  show ?thesis
  proof (rule that)
    show "webm_record cfg ops = Some (fs, stats, x)" by (simp add: webm_record_def new(1) r(1) fin(1) e(1))
    show "webm_abandon cfg ops = Some (fs, ww_out ?w)" by (simp add: webm_abandon_def new(1) r(1) drop e(1))
  qed (use fin e in simp_all)
qed

lemma webm_sample_sizes:
  "webm_sizes webm_sample_config webm_sample_ops =
     Some ([(1, 0, True, [1, 2, 3]), (2, 20, True, [4]), (1, 1000, True, [5, 6])], 391, 357)"
  by code_simp

theorem webm_recording_roundtrip_witness:
  "\<exists>fs stats x s. webm_record webm_sample_config webm_sample_ops = Some (fs, stats, x) \<and> length x = 391 \<and>
     read_summary x = Inr s \<and> length (su_tracks s) = 2 \<and>
     map (\<lambda>b. (bi_track b, bi_ms b, bi_keyframe b, bi_bytes b)) (su_blocks s) = [(1, 0, True, 3), (2, 20, True, 1), (1, 1000, True, 2)]"
proof (rule webm_sizes_eq [OF webm_sample_sizes])
  fix stats x
  let ?fs = "[(1, 0, True, [1, 2, 3]), (2, 20, True, [4]), (1, 1000, True, [5, 6])] :: frame list"
  assume r: "webm_record webm_sample_config webm_sample_ops = Some (?fs, stats, x)" "length x = 391"
  then have "length x < 2 ^ 56 - 1" by simp
  from webm_recording_roundtrip [OF r(1) this] obtain s where "read_summary x = Inr s"
    "su_tracks s = tracks_of webm_sample_config" "su_blocks s = map block_read ?fs" by blast
  then show ?thesis
    using r by (intro exI [of _ ?fs] exI [of _ stats] exI [of _ x] exI [of _ s])
      (simp add: tracks_of_def webm_sample_config_def block_read_def)
qed

theorem webm_abandoned_readable_witness:
  "\<exists>fs x s. webm_abandon webm_sample_config webm_sample_ops = Some (fs, x) \<and> length x = 357 \<and>
     read_summary x = Inr s \<and> su_segment_size s = None \<and> length (su_blocks s) = 3"
proof (rule webm_sizes_eq [OF webm_sample_sizes])
  fix y
  let ?fs = "[(1, 0, True, [1, 2, 3]), (2, 20, True, [4]), (1, 1000, True, [5, 6])] :: frame list"
  assume r: "webm_abandon webm_sample_config webm_sample_ops = Some (?fs, y)" "length y = 357"
  then have "length y < 2 ^ 56 - 1" by simp
  from webm_abandoned_readable [OF r(1) this] r show ?thesis by auto
qed

theorem webm_in_order_accepted_witness:
  "\<exists>fs stats x. webm_record webm_sample_config webm_sample_ops = Some (fs, stats, x) \<and> fs = map frame_of webm_sample_ops"
proof (rule webm_sizes_eq [OF webm_sample_sizes])
  fix stats x fs assume r: "webm_record webm_sample_config webm_sample_ops = Some (fs, stats, x)"
  have "sorted (map op_ms webm_sample_ops)" "\<forall>x\<in>set webm_sample_ops. unat (op_ms x) < 2 ^ 63 \<and> op_track webm_sample_config x"
    by (simp_all add: webm_sample_ops_def op_ms_def webm_sample_config_def)
  from webm_in_order_accepted [OF r this] r show ?thesis by blast
qed

text \<open>
  A keyframe that is refused still leaves its cue: after an audio frame at 100 seconds, a keyframe at 0 is an
  error, yet the Cluster gets a cue for time 0.
\<close>

theorem webm_refused_keyframe_cue:
  "(case WebmWriter_new [] webm_sample_config of
      Some (Inr w0) \<Rightarrow>
        (case webm_run [AudioFrame 100000 [1], VideoFrame 0 True [2]] w0 of
           Some (w, fs) \<Rightarrow> fs = [(AUDIO_TRACK, 100000, True, [1])] \<and> map cp_time_ms (ww_cues (flush_cluster w)) = [0]
         | None \<Rightarrow> False)
    | _ \<Rightarrow> False)"
  by code_simp
end
