(* ===== verification/Kernel_Forward.thy ===== *)
theory Kernel_Forward
  imports Forge_Prelude
begin

unbundle bit_operations_syntax

text \<open>
  The XDP program of \<^verbatim>\<open>forge-kernel-ebpf/src/lib.rs\<close>, which forwards RTP packets in the kernel: it parses
  the headers, looks the flow up in a map, rewrites addresses and ports and updates the checksums. The order
  of octets of the machine is a parameter. What is forwarded and what stays untouched is stated for both
  orders; two theorems on the checksums, which the program updates wrongly on the little-endian machines it is built for,
  support findings.
\<close>

section \<open>Definitions\<close>

subsection \<open>Loads and stores\<close>

datatype endian = Little | Big

definition load16 :: "endian \<Rightarrow> bytes \<Rightarrow> nat \<Rightarrow> u16" where
  "load16 en p i = (case en of Big \<Rightarrow> be16 (p ! i) (p ! (i + 1)) | Little \<Rightarrow> be16 (p ! (i + 1)) (p ! i))"

definition load32 :: "endian \<Rightarrow> bytes \<Rightarrow> nat \<Rightarrow> u32" where
  "load32 en p i =
     (case en of
        Big \<Rightarrow> be32 (p ! i) (p ! (i + 1)) (p ! (i + 2)) (p ! (i + 3))
      | Little \<Rightarrow> be32 (p ! (i + 3)) (p ! (i + 2)) (p ! (i + 1)) (p ! i))"

definition stored16 :: "endian \<Rightarrow> u16 \<Rightarrow> bytes" where
  "stored16 en w = (case en of Big \<Rightarrow> to_be16 w | Little \<Rightarrow> rev (to_be16 w))"

definition stored32 :: "endian \<Rightarrow> u32 \<Rightarrow> bytes" where
  "stored32 en w = (case en of Big \<Rightarrow> to_be32 w | Little \<Rightarrow> rev (to_be32 w))"

definition store :: "nat \<Rightarrow> bytes \<Rightarrow> bytes \<Rightarrow> bytes" where
  "store i bs p = take i p @ bs @ drop (i + length bs) p"

text \<open>\<^verbatim>\<open>u16::from_be\<close> and \<^verbatim>\<open>u16::to_be\<close>.\<close>

definition swap16 :: "u16 \<Rightarrow> u16" where
  "swap16 w = be16 (ucast w) (ucast (drop_bit 8 w))"

definition be_of16 :: "endian \<Rightarrow> u16 \<Rightarrow> u16" where
  "be_of16 en w = (case en of Big \<Rightarrow> w | Little \<Rightarrow> swap16 w)"

subsection \<open>Headers\<close>

record EthHdr =
  eh_dst_mac :: bytes
  eh_src_mac :: bytes
  eh_eth_type :: u16

record Ipv4Hdr =
  ip_version_ihl :: u8
  ip_tos :: u8
  ip_tot_len :: u16
  ip_id :: u16
  ip_frag_off :: u16
  ip_ttl :: u8
  ip_protocol :: u8
  ip_check :: u16
  ip_saddr :: u32
  ip_daddr :: u32

record UdpHdr =
  uh_source :: u16
  uh_dest :: u16
  uh_len :: u16
  uh_check :: u16

record ForwardKey =
  fk_src_ip :: u32
  fk_src_port :: u16
  fk_dst_port :: u16
  fk_dst_ip :: u32
  fk_protocol :: u8

record ForwardValue =
  fv_dest_ip :: u32
  fv_dest_port :: u16
  fv_src_ip :: u32
  fv_src_port :: u16
  fv_last_seen :: u64

datatype EventType = UnknownSource | ForwardSuccess | ParseError

record KernelEvent =
  ev_type :: EventType
  ev_src_ip :: u32
  ev_src_port :: u16
  ev_dst_port :: u16
  ev_timestamp :: u64

datatype xdp_action = XDP_PASS | XDP_DROP | XDP_TX

definition ETH_P_IP :: u16 where
  "ETH_P_IP = 0x0800"

definition RTP_PORT_MIN :: u16 where
  "RTP_PORT_MIN = 30000"

definition RTP_PORT_MAX :: u16 where
  "RTP_PORT_MAX = 40000"

definition IPPROTO_UDP :: u8 where
  "IPPROTO_UDP = 17"

text \<open>A header at an offset, where it lies within the packet.\<close>

definition ptr_at :: "nat \<Rightarrow> nat \<Rightarrow> bytes \<Rightarrow> bool" where
  "ptr_at off len p \<longleftrightarrow> \<not> off + len > length p"

definition eth_at :: "endian \<Rightarrow> bytes \<Rightarrow> EthHdr" where
  "eth_at en p = \<lparr>eh_dst_mac = take 6 p, eh_src_mac = take 6 (drop 6 p), eh_eth_type = load16 en p 12\<rparr>"

definition ipv4_at :: "endian \<Rightarrow> bytes \<Rightarrow> nat \<Rightarrow> Ipv4Hdr" where
  "ipv4_at en p i = \<lparr>ip_version_ihl = p ! i, ip_tos = p ! (i + 1), ip_tot_len = load16 en p (i + 2), ip_id = load16 en p (i + 4),
     ip_frag_off = load16 en p (i + 6), ip_ttl = p ! (i + 8), ip_protocol = p ! (i + 9), ip_check = load16 en p (i + 10),
     ip_saddr = load32 en p (i + 12), ip_daddr = load32 en p (i + 16)\<rparr>"

definition udp_at :: "endian \<Rightarrow> bytes \<Rightarrow> nat \<Rightarrow> UdpHdr" where
  "udp_at en p i = \<lparr>uh_source = load16 en p i, uh_dest = load16 en p (i + 2), uh_len = load16 en p (i + 4),
     uh_check = load16 en p (i + 6)\<rparr>"

subsection \<open>Checksums\<close>

text \<open>The loop that folds a sum to 16 bits.\<close>

lemma unat_and_low: "unat (w AND 0xFFFF :: u32) = unat w mod 65536"
proof -
  have "unat (w AND 0xFFFF) = unat w AND 65535" by (simp add: unsigned_and_eq)
  also have "\<dots> = take_bit 16 (unat w)" by (simp add: take_bit_eq_mask mask_eq_exp_minus_1)
  finally show ?thesis by (simp add: take_bit_eq_mod)
qed

lemma unat_shift_16: "unat (drop_bit 16 w :: u32) = unat w div 65536"
  by (simp add: drop_bit_eq_div unat_div_distrib)

lemma unat_fold_step: "unat ((w AND 0xFFFF) + drop_bit 16 w :: u32) = unat w mod 65536 + unat w div 65536"
proof -
  have "unat w div 65536 < 65536" using unat_u32_less [of w] by (simp add: less_mult_imp_div_less)
  then show ?thesis by (simp add: unat_word_ariths unat_and_low unat_shift_16)
qed

lemma fold_sum_less: "drop_bit 16 (w :: u32) \<noteq> 0 \<Longrightarrow> unat ((w AND 0xFFFF) + drop_bit 16 w) < unat w"
proof -
  assume "drop_bit 16 w \<noteq> 0"
  then have "unat w div 65536 \<noteq> 0" by (metis unat_shift_16 unat_eq_zero)
  then show ?thesis unfolding unat_fold_step using mult_div_mod_eq [of 65536 "unat w"] by linarith
qed

function fold_sum :: "u32 \<Rightarrow> u32" where
  "fold_sum acc = (if drop_bit 16 acc \<noteq> 0 then fold_sum ((acc AND 0xFFFF) + drop_bit 16 acc) else acc)"
  by pat_completeness auto
termination by (relation "measure unat") (auto intro: fold_sum_less)

declare fold_sum.simps [simp del]

definition hi16 :: "u32 \<Rightarrow> u32" where
  "hi16 w = drop_bit 16 w AND 0xFFFF"

definition lo16 :: "u32 \<Rightarrow> u32" where
  "lo16 w = w AND 0xFFFF"

definition update_ip_checksum :: "u16 \<Rightarrow> u8 \<Rightarrow> u8 \<Rightarrow> u32 \<Rightarrow> u32 \<Rightarrow> u32 \<Rightarrow> u32 \<Rightarrow> u16" where
  "update_ip_checksum old_check old_ttl new_ttl old_saddr new_saddr old_daddr new_daddr =
     (let acc = ucast (NOT old_check);
          acc = acc - push_bit 8 (ucast old_ttl) + push_bit 8 (ucast new_ttl);
          acc = acc - hi16 old_saddr - lo16 old_saddr - hi16 old_daddr - lo16 old_daddr;
          acc = acc + hi16 new_saddr + lo16 new_saddr + hi16 new_daddr + lo16 new_daddr in
      NOT (ucast (fold_sum acc)))"

definition update_udp_checksum :: "endian \<Rightarrow> u16 \<Rightarrow> u32 \<Rightarrow> u32 \<Rightarrow> u32 \<Rightarrow> u32 \<Rightarrow> u16 \<Rightarrow> u16 \<Rightarrow> u16 \<Rightarrow> u16 \<Rightarrow> u16" where
  "update_udp_checksum en old_check old_saddr new_saddr old_daddr new_daddr old_src_port new_src_port old_dst_port new_dst_port =
     (let acc = ucast (NOT old_check);
          acc = acc - hi16 old_saddr - lo16 old_saddr - hi16 old_daddr - lo16 old_daddr;
          acc = acc + hi16 new_saddr + lo16 new_saddr + hi16 new_daddr + lo16 new_daddr;
          acc = acc - ucast (be_of16 en old_src_port) - ucast (be_of16 en old_dst_port);
          acc = acc + ucast (be_of16 en new_src_port) + ucast (be_of16 en new_dst_port);
          result = NOT (ucast (fold_sum acc)) in
      if result = 0 then 0xFFFF else result)"

subsection \<open>The program\<close>

text \<open>
  An event is sent when the ring buffer has room. A result \<open>Inl ()\<close> is an error, for which the packet
  passes.
\<close>

definition send_event :: "bool \<Rightarrow> u64 \<Rightarrow> EventType \<Rightarrow> u32 \<Rightarrow> u16 \<Rightarrow> u16 \<Rightarrow> KernelEvent list" where
  "send_event room now t src_ip src_port dst_port =
     (if room then [\<lparr>ev_type = t, ev_src_ip = src_ip, ev_src_port = src_port, ev_dst_port = dst_port, ev_timestamp = now\<rparr>]
      else [])"

text \<open>The rewriting of the headers of a flow that has a rule.\<close>

definition rewrite :: "endian \<Rightarrow> nat \<Rightarrow> nat \<Rightarrow> ForwardValue \<Rightarrow> bytes \<Rightarrow> xdp_action \<times> bytes" where
  "rewrite en ip_offset udp_offset fwd p =
     (let ip = ipv4_at en p ip_offset; udp = udp_at en p udp_offset; old_ttl = ip_ttl ip in
      if old_ttl \<le> 1 then (XDP_DROP, p)
      else
        (let new_ttl = old_ttl - 1;
             p = store (ip_offset + 8) [new_ttl] p;
             p = store (ip_offset + 12) (stored32 en (fv_src_ip fwd)) p;
             p = store (ip_offset + 16) (stored32 en (fv_dest_ip fwd)) p;
             p = store udp_offset (stored16 en (fv_src_port fwd)) p;
             p = store (udp_offset + 2) (stored16 en (fv_dest_port fwd)) p;
             p = store (ip_offset + 10) (stored16 en (update_ip_checksum (ip_check ip) old_ttl new_ttl
                   (ip_saddr ip) (fv_src_ip fwd) (ip_daddr ip) (fv_dest_ip fwd))) p;
             p = (if uh_check udp \<noteq> 0
                  then store (udp_offset + 6) (stored16 en (update_udp_checksum en (uh_check udp)
                         (ip_saddr ip) (fv_src_ip fwd) (ip_daddr ip) (fv_dest_ip fwd)
                         (uh_source udp) (fv_src_port fwd) (uh_dest udp) (fv_dest_port fwd))) p
                  else p) in
         (XDP_TX, p)))"

definition try_forward :: "endian \<Rightarrow> (ForwardKey \<Rightarrow> ForwardValue option) \<Rightarrow> bool \<Rightarrow> u64 \<Rightarrow> bytes \<Rightarrow>
    (unit + xdp_action) \<times> bytes \<times> KernelEvent list" where
  "try_forward en rules room now p =
     (let parse_error = send_event room now ParseError 0 0 0 in
      if \<not> ptr_at 0 14 p then (Inl (), p, parse_error)
      else if eh_eth_type (eth_at en p) \<noteq> be_of16 en ETH_P_IP then (Inr XDP_PASS, p, [])
      else if \<not> ptr_at 14 20 p then (Inl (), p, parse_error)
      else
        (let ip = ipv4_at en p 14 in
         if drop_bit 4 (ip_version_ihl ip) AND 0x0f \<noteq> 4 then (Inr XDP_PASS, p, parse_error)
         else
           (let ihl = unat (ip_version_ihl ip AND 0x0f) in
            if ihl < 5 then (Inr XDP_PASS, p, parse_error)
            else
              (let ip_hdr_len = ihl * 4; tot_len = unat (be_of16 en (ip_tot_len ip)) in
               if 14 + tot_len > length p then (Inr XDP_PASS, p, parse_error)
               else
                 (let frag_off = be_of16 en (ip_frag_off ip) in
                  if frag_off AND 0x1FFF \<noteq> 0 \<or> frag_off AND 0x2000 \<noteq> 0 then (Inr XDP_DROP, p, [])
                  else if ip_protocol ip \<noteq> IPPROTO_UDP then (Inr XDP_PASS, p, [])
                  else
                    (let udp_offset = 14 + ip_hdr_len in
                     if udp_offset + 8 > 14 + tot_len then (Inr XDP_PASS, p, parse_error)
                     else if \<not> ptr_at udp_offset 8 p then (Inl (), p, parse_error)
                     else
                       (let udp = udp_at en p udp_offset; dst_port = be_of16 en (uh_dest udp);
                            src_port = be_of16 en (uh_source udp) in
                        if dst_port < RTP_PORT_MIN \<or> dst_port > RTP_PORT_MAX then (Inr XDP_PASS, p, [])
                        else if dst_port mod 2 = 1 then (Inr XDP_PASS, p, [])
                        else
                          (let key = \<lparr>fk_src_ip = ip_saddr ip, fk_src_port = uh_source udp, fk_dst_port = uh_dest udp,
                                 fk_dst_ip = ip_daddr ip, fk_protocol = IPPROTO_UDP\<rparr> in
                           case rules key of
                             Some fwd \<Rightarrow>
                               if \<not> ptr_at 14 20 p then (Inl (), p, [])
                               else if \<not> ptr_at udp_offset 8 p then (Inl (), p, [])
                               else (let (action, p') = rewrite en 14 udp_offset fwd p in (Inr action, p', []))
                           | None \<Rightarrow>
                               (Inr XDP_PASS, p, send_event room now UnknownSource (ip_saddr ip) src_port dst_port)))))))))"

definition rtp_forward :: "endian \<Rightarrow> (ForwardKey \<Rightarrow> ForwardValue option) \<Rightarrow> bool \<Rightarrow> u64 \<Rightarrow> bytes \<Rightarrow>
    xdp_action \<times> bytes \<times> KernelEvent list" where
  "rtp_forward en rules room now p =
     (case try_forward en rules room now p of
        (Inr action, p', es) \<Rightarrow> (action, p', es) | (Inl _, p', es) \<Rightarrow> (XDP_PASS, p', es))"

section \<open>Checksums\<close>

text \<open>Folding keeps the value modulo 65535, and 0 comes from 0 only.\<close>

lemma fold_sum_props: "unat (fold_sum w) < 65536 \<and> unat (fold_sum w) mod 65535 = unat w mod 65535 \<and> (fold_sum w = 0 \<longleftrightarrow> w = 0)"
proof (induction w rule: fold_sum.induct)
  case (1 w)
  show ?case
  proof (cases "drop_bit 16 w = 0")
    case True
    then have "unat w div 65536 = 0" by (metis unat_shift_16 unat_0)
    then show ?thesis using True by (simp add: fold_sum.simps [of w])
  next
    case False
    let ?v = "(w AND 0xFFFF) + drop_bit 16 w"
    have "unat ?v mod 65535 = unat w mod 65535"
    proof -
      have "unat w = 65535 * (unat w div 65536) + (unat w mod 65536 + unat w div 65536)"
        using mult_div_mod_eq [of 65536 "unat w"] by linarith
      then have "unat w mod 65535 = (65535 * (unat w div 65536) + (unat w mod 65536 + unat w div 65536)) mod 65535" by (rule arg_cong)
      also have "\<dots> = (unat w mod 65536 + unat w div 65536) mod 65535" by (rule mod_mult_self4)
      finally show ?thesis unfolding unat_fold_step by (rule sym)
    qed
    moreover have "?v = 0 \<longleftrightarrow> w = 0"
    proof -
      have "unat ?v = 0 \<longleftrightarrow> unat w = 0" unfolding unat_fold_step by auto
      then show ?thesis by (simp add: unat_eq_zero)
    qed
    ultimately show ?thesis using 1 [OF False] False by (simp add: fold_sum.simps [of w])
  qed
qed

lemma unat_not16: "unat (NOT w :: u16) = 65535 - unat w"
proof -
  have "NOT w = -1 - w" by (simp add: not_eq_complement)
  also have "(-1 :: u16) = 0xFFFF" by simp
  finally have "NOT w = 0xFFFF - w" .
  moreover have "unat w \<le> 65535" using unat_u16_less [of w] by linarith
  ultimately show ?thesis by (simp add: unat_sub_if' word_le_nat_alt)
qed

lemma unat_halves: "unat (hi16 w) = unat w div 65536" "unat (lo16 w) = unat w mod 65536"
proof -
  show "unat (lo16 w) = unat w mod 65536" by (simp add: lo16_def unat_and_low)
  have "unat w div 65536 < 65536" using unat_u32_less [of w] by (simp add: less_mult_imp_div_less)
  then show "unat (hi16 w) = unat w div 65536" by (simp add: hi16_def unat_and_low unat_shift_16)
qed

text \<open>
  The sum of the 16-bit words of octets in network order; a header verifies when the sum, folded, is all
  ones.
\<close>

fun word_sum :: "bytes \<Rightarrow> nat" where
  "word_sum [] = 0"
| "word_sum [a] = unat a * 256"
| "word_sum (a # b # bs) = unat a * 256 + unat b + word_sum bs"

definition verifies :: "bytes \<Rightarrow> bool" where
  "verifies bs \<longleftrightarrow> word_sum bs mod 65535 = 0 \<and> word_sum bs \<noteq> 0"

lemma word_sum_append: "even (length xs) \<Longrightarrow> word_sum (xs @ ys) = word_sum xs + word_sum ys"
  by (induction xs rule: word_sum.induct) auto

lemma unat_ucast_u16_u32: "unat (ucast (w :: u16) :: u32) = unat w"
  using unat_u16_less [of w] by (simp add: unsigned_ucast_eq take_bit_nat_eq_self del: unat_u16_less)

lemma unat_ucast_u8_u32: "unat (ucast (b :: u8) :: u32) = unat b"
  using unat_u8_less [of b] by (simp add: unsigned_ucast_eq take_bit_nat_eq_self del: unat_u8_less)

lemma word_sum_be16: "word_sum [a, b] = unat (be16 a b)"
  by (simp add: unat_be16)

lemma halves_be32: "hi16 (be32 a b c d) = ucast (be16 a b)" "lo16 (be32 a b c d) = ucast (be16 c d)"
proof -
  have m: "w AND 0xFFFF = take_bit 16 w" for w :: u32 by (simp only: take_bit_eq_mask) (simp add: mask_eq_exp_minus_1)
  show "hi16 (be32 a b c d) = ucast (be16 a b)" "lo16 (be32 a b c d) = ucast (be16 c d)"
    unfolding hi16_def lo16_def m be32_def be16_def by (auto intro!: bit_word_eqI simp: bit_simps)
qed

lemma word_sum_be32: "word_sum [a, b, c, d] = unat (hi16 (be32 a b c d)) + unat (lo16 (be32 a b c d))"
  by (simp add: halves_be32 unat_ucast_u16_u32 unat_be16)

lemma unat_fold_low: "unat (ucast (fold_sum w) :: u16) = unat (fold_sum w)"
proof -
  have "unat (ucast (fold_sum w) :: u16) = unat (fold_sum w) mod 2 ^ 16" by (simp add: unsigned_ucast_eq take_bit_eq_mod)
  then show ?thesis using fold_sum_props [of w] by simp
qed

text \<open>
  The update in one: from the checksum \<open>c\<close> and a difference \<open>d\<close> of the words, as a 32-bit word. The result
  makes up for the difference exactly when the word did not borrow.
\<close>

lemma checksum_update:
  fixes d :: int
  assumes w: "w = word_of_int (65535 - c + d)" and c: "0 \<le> c" "c \<le> 65535" and d: "\<bar>d\<bar> < 2147483648"
  shows "65535 dvd int (unat (NOT (ucast (fold_sum w) :: u16))) - c + d \<longleftrightarrow> 0 \<le> 65535 - c + d"
proof -
  let ?z = "65535 - c + d" and ?f = "int (unat (fold_sum w))" and ?r = "int (unat (NOT (ucast (fold_sum w) :: u16)))"
  have "unat (fold_sum w) mod 65535 = unat w mod 65535" "unat (fold_sum w) < 65536" using fold_sum_props [of w] by simp_all
  then have "int (unat (fold_sum w) mod 65535) = int (unat w mod 65535)" by simp
  then have "?f mod 65535 = int (unat w) mod 65535" by (simp only: of_nat_mod of_nat_numeral)
  then have "65535 dvd ?f - int (unat w)" by (simp only: mod_eq_dvd_iff)
  then obtain j where "?f - int (unat w) = 65535 * j" by (elim dvdE)
  then have j: "?f = uint w + 65535 * j" by simp
  have r: "?r = 65535 - ?f" using fold_sum_props [of w] by (simp add: unat_not16 unat_fold_low)
  have u: "uint w = ?z mod 2 ^ 32" unfolding w uint_word_of_int by simp
  show ?thesis
  proof (cases "0 \<le> ?z")
    case True
    then have "uint w = ?z" using u c d by (simp add: mod_pos_pos_trivial)
    then have "?r - c + d = 65535 * - j" using r j by (simp add: algebra_simps)
    then show ?thesis using True by (metis dvd_triv_left)
  next
    case False
    have "?z mod 2 ^ 32 = (?z + 2 ^ 32) mod 2 ^ 32" by (rule mod_add_self2 [symmetric])
    also have "\<dots> = ?z + 2 ^ 32" using False c d by (intro mod_pos_pos_trivial) auto
    finally have "?r - c + d = 65535 * (- j - 65538) + 65534" using r j u by (simp add: algebra_simps)
    moreover have "\<not> 65535 dvd (65535 * (- j - 65538) + 65534 :: int)"
      unfolding dvd_add_right_iff [OF dvd_triv_left] by simp
    ultimately show ?thesis using False by simp
  qed
qed

section \<open>Packets\<close>

text \<open>A packet that reaches the lookup, cut into the fields that matter; \<open>n\<close> octets of options.\<close>

record frame =
  fr_eth :: bytes
  fr_head :: bytes
  fr_ttl :: u8
  fr_proto :: u8
  fr_check :: bytes
  fr_src :: bytes
  fr_dst :: bytes
  fr_opts :: bytes
  fr_sport :: bytes
  fr_dport :: bytes
  fr_ulen :: bytes
  fr_ucheck :: bytes
  fr_rest :: bytes

definition ip_header :: "frame \<Rightarrow> bytes" where
  "ip_header f = fr_head f @ [fr_ttl f, fr_proto f] @ fr_check f @ fr_src f @ fr_dst f @ fr_opts f"

definition udp_segment :: "frame \<Rightarrow> bytes" where
  "udp_segment f = fr_sport f @ fr_dport f @ fr_ulen f @ fr_ucheck f @ fr_rest f"

definition frame_bytes :: "frame \<Rightarrow> bytes" where
  "frame_bytes f = fr_eth f @ ip_header f @ udp_segment f"

definition frame_wf :: "nat \<Rightarrow> frame \<Rightarrow> bool" where
  "frame_wf n f \<longleftrightarrow> length (fr_eth f) = 14 \<and> length (fr_head f) = 8 \<and> length (fr_check f) = 2 \<and> length (fr_src f) = 4 \<and>
     length (fr_dst f) = 4 \<and> length (fr_opts f) = n \<and> length (fr_sport f) = 2 \<and> length (fr_dport f) = 2 \<and>
     length (fr_ulen f) = 2 \<and> length (fr_ucheck f) = 2"

definition val16 :: "endian \<Rightarrow> bytes \<Rightarrow> u16" where
  "val16 en bs = load16 en bs 0"

definition val32 :: "endian \<Rightarrow> bytes \<Rightarrow> u32" where
  "val32 en bs = load32 en bs 0"

text \<open>The cut of a packet, with the length of the options from its header.\<close>

definition opts_len :: "bytes \<Rightarrow> nat" where
  "opts_len p = unat (p ! 14 AND 0x0f) * 4 - 20"

definition cut_at :: "nat \<Rightarrow> bytes \<Rightarrow> frame" where
  "cut_at n p = \<lparr>fr_eth = take 14 p, fr_head = take 8 (drop 14 p), fr_ttl = p ! 22, fr_proto = p ! 23,
    fr_check = take 2 (drop 24 p), fr_src = take 4 (drop 26 p), fr_dst = take 4 (drop 30 p), fr_opts = take n (drop 34 p),
    fr_sport = take 2 (drop (34 + n) p), fr_dport = take 2 (drop (36 + n) p), fr_ulen = take 2 (drop (38 + n) p),
    fr_ucheck = take 2 (drop (40 + n) p), fr_rest = drop (42 + n) p\<rparr>"

definition cut :: "bytes \<Rightarrow> frame" where
  "cut p = cut_at (opts_len p) p"

lemma frame_bytes_cut:
  assumes "42 + n \<le> length p"
  shows "frame_bytes (cut_at n p) = p" "frame_wf n (cut_at n p)"
proof -
  have j: "take a (drop i p) @ drop (i + a) p = drop i p" for a i
    by (metis append_take_drop_id drop_drop add.commute)
  have two: "[p ! 22, p ! 23] @ drop 24 p = drop 22 p"
    using assms by (simp add: Cons_nth_drop_Suc [symmetric])
  show "frame_bytes (cut_at n p) = p"
    using j [of 14 0] j [of 8 14] j [of 2 24] j [of 4 26] j [of 4 30] j [of n 34] j [of 2 "34 + n"] j [of 2 "36 + n"] j [of 2 "38 + n"]
      j [of 2 "40 + n"] two
    by (simp add: frame_bytes_def ip_header_def udp_segment_def cut_at_def)
  show "frame_wf n (cut_at n p)" using assms by (simp add: frame_wf_def cut_at_def)
qed

lemma frame_bytes_inject:
  assumes "frame_bytes f = frame_bytes g" "frame_wf n f" "frame_wf n g"
  shows "f = g"
  using assms by (simp add: frame_bytes_def ip_header_def udp_segment_def frame_wf_def)

lemma length_frame: "frame_wf n f \<Longrightarrow> length (frame_bytes f) = 42 + n + length (fr_rest f)"
  by (simp add: frame_bytes_def ip_header_def udp_segment_def frame_wf_def)

lemma cut_frame:
  assumes "frame_wf n f" "opts_len (frame_bytes f) = n"
  shows "cut (frame_bytes f) = f"
  using frame_bytes_cut [of n "frame_bytes f"] length_frame [OF assms(1)] frame_bytes_inject [OF _ _ assms(1)] assms(2)
  by (simp add: cut_def)

lemma load_take: "i + 2 \<le> length p \<Longrightarrow> load16 en p i = val16 en (take 2 (drop i p))"
  "i + 4 \<le> length p \<Longrightarrow> load32 en p i = val32 en (take 4 (drop i p))"
  by (simp_all add: load16_def load32_def val16_def val32_def split: endian.split)

lemma frame_loads:
  assumes "frame_wf n f"
  shows "ip_ttl (ipv4_at en (frame_bytes f) 14) = fr_ttl f" "ip_protocol (ipv4_at en (frame_bytes f) 14) = fr_proto f"
    "ip_check (ipv4_at en (frame_bytes f) 14) = val16 en (fr_check f)"
    "ip_saddr (ipv4_at en (frame_bytes f) 14) = val32 en (fr_src f)" "ip_daddr (ipv4_at en (frame_bytes f) 14) = val32 en (fr_dst f)"
    "uh_source (udp_at en (frame_bytes f) (34 + n)) = val16 en (fr_sport f)"
    "uh_dest (udp_at en (frame_bytes f) (34 + n)) = val16 en (fr_dport f)"
    "uh_check (udp_at en (frame_bytes f) (34 + n)) = val16 en (fr_ucheck f)"
proof -
  note len = length_frame [OF assms]
  show "ip_ttl (ipv4_at en (frame_bytes f) 14) = fr_ttl f" "ip_protocol (ipv4_at en (frame_bytes f) 14) = fr_proto f"
    using assms by (simp_all add: ipv4_at_def frame_bytes_def ip_header_def frame_wf_def nth_append)
  show "ip_check (ipv4_at en (frame_bytes f) 14) = val16 en (fr_check f)"
    "ip_saddr (ipv4_at en (frame_bytes f) 14) = val32 en (fr_src f)" "ip_daddr (ipv4_at en (frame_bytes f) 14) = val32 en (fr_dst f)"
    using assms len
    by (simp_all add: ipv4_at_def load_take) (simp_all add: frame_bytes_def ip_header_def udp_segment_def frame_wf_def)
  have "length (fr_eth f @ ip_header f) = 34 + n" using assms by (simp add: ip_header_def frame_wf_def)
  then have drop: "drop (34 + n + k) (frame_bytes f) = drop k (udp_segment f)" for k
    unfolding frame_bytes_def append_assoc [symmetric] by (simp del: append_assoc)
  have u: "uh_source (udp_at en (frame_bytes f) (34 + n)) = val16 en (take 2 (drop (34 + n + 0) (frame_bytes f)))"
    "uh_dest (udp_at en (frame_bytes f) (34 + n)) = val16 en (take 2 (drop (34 + n + 2) (frame_bytes f)))"
    "uh_check (udp_at en (frame_bytes f) (34 + n)) = val16 en (take 2 (drop (34 + n + 6) (frame_bytes f)))"
    using len by (simp_all add: udp_at_def load_take)
  show "uh_source (udp_at en (frame_bytes f) (34 + n)) = val16 en (fr_sport f)"
    "uh_dest (udp_at en (frame_bytes f) (34 + n)) = val16 en (fr_dport f)"
    "uh_check (udp_at en (frame_bytes f) (34 + n)) = val16 en (fr_ucheck f)"
    using assms unfolding u drop by (simp_all add: udp_segment_def frame_wf_def)
qed

text \<open>What the program makes of a packet with a rule.\<close>

definition forwarded :: "endian \<Rightarrow> ForwardValue \<Rightarrow> frame \<Rightarrow> frame" where
  "forwarded en fwd f = f\<lparr>fr_ttl := fr_ttl f - 1, fr_src := stored32 en (fv_src_ip fwd), fr_dst := stored32 en (fv_dest_ip fwd),
     fr_sport := stored16 en (fv_src_port fwd), fr_dport := stored16 en (fv_dest_port fwd),
     fr_check := stored16 en (update_ip_checksum (val16 en (fr_check f)) (fr_ttl f) (fr_ttl f - 1)
       (val32 en (fr_src f)) (fv_src_ip fwd) (val32 en (fr_dst f)) (fv_dest_ip fwd)),
     fr_ucheck := (if val16 en (fr_ucheck f) \<noteq> 0
       then stored16 en (update_udp_checksum en (val16 en (fr_ucheck f)) (val32 en (fr_src f)) (fv_src_ip fwd)
         (val32 en (fr_dst f)) (fv_dest_ip fwd) (val16 en (fr_sport f)) (fv_src_port fwd) (val16 en (fr_dport f)) (fv_dest_port fwd))
       else fr_ucheck f)\<rparr>"

lemma length_stored [simp]: "length (stored16 en w) = 2" "length (stored32 en v) = 4"
  by (simp_all add: stored16_def stored32_def split: endian.split)

lemma store_mid: "length b = length x \<Longrightarrow> i = length a \<Longrightarrow> store i b (a @ x @ c) = a @ b @ c"
  by (simp add: store_def)

lemma frame_stores:
  assumes "frame_wf n f"
  shows "store 22 [t] (frame_bytes f) = frame_bytes (f\<lparr>fr_ttl := t\<rparr>)"
    "length b = 2 \<Longrightarrow> store 24 b (frame_bytes f) = frame_bytes (f\<lparr>fr_check := b\<rparr>)"
    "length c = 4 \<Longrightarrow> store 26 c (frame_bytes f) = frame_bytes (f\<lparr>fr_src := c\<rparr>)"
    "length c = 4 \<Longrightarrow> store 30 c (frame_bytes f) = frame_bytes (f\<lparr>fr_dst := c\<rparr>)"
    "length b = 2 \<Longrightarrow> store (34 + n) b (frame_bytes f) = frame_bytes (f\<lparr>fr_sport := b\<rparr>)"
    "length b = 2 \<Longrightarrow> store (36 + n) b (frame_bytes f) = frame_bytes (f\<lparr>fr_dport := b\<rparr>)"
    "length b = 2 \<Longrightarrow> store (40 + n) b (frame_bytes f) = frame_bytes (f\<lparr>fr_ucheck := b\<rparr>)"
proof -
  let ?p = "fr_eth f @ ip_header f"
  have p: "length ?p = 34 + n" using assms by (simp add: ip_header_def frame_wf_def)
  show "store 22 [t] (frame_bytes f) = frame_bytes (f\<lparr>fr_ttl := t\<rparr>)"
    "length b = 2 \<Longrightarrow> store 24 b (frame_bytes f) = frame_bytes (f\<lparr>fr_check := b\<rparr>)"
    "length c = 4 \<Longrightarrow> store 26 c (frame_bytes f) = frame_bytes (f\<lparr>fr_src := c\<rparr>)"
    "length c = 4 \<Longrightarrow> store 30 c (frame_bytes f) = frame_bytes (f\<lparr>fr_dst := c\<rparr>)"
    using assms by (simp_all add: store_def frame_bytes_def ip_header_def udp_segment_def frame_wf_def)
  show "length b = 2 \<Longrightarrow> store (34 + n) b (frame_bytes f) = frame_bytes (f\<lparr>fr_sport := b\<rparr>)"
    "length b = 2 \<Longrightarrow> store (36 + n) b (frame_bytes f) = frame_bytes (f\<lparr>fr_dport := b\<rparr>)"
    "length b = 2 \<Longrightarrow> store (40 + n) b (frame_bytes f) = frame_bytes (f\<lparr>fr_ucheck := b\<rparr>)"
    using assms p store_mid [of b "fr_sport f" "34 + n" ?p] store_mid [of b "fr_dport f" "36 + n" "?p @ fr_sport f"]
      store_mid [of b "fr_ucheck f" "40 + n" "?p @ fr_sport f @ fr_dport f @ fr_ulen f"]
    by (simp_all add: frame_bytes_def ip_header_def udp_segment_def frame_wf_def)
qed

lemma rewrite_frame:
  assumes wf: "frame_wf n f"
  shows "rewrite en 14 (34 + n) fwd (frame_bytes f) =
    (if fr_ttl f \<le> 1 then (XDP_DROP, frame_bytes f) else (XDP_TX, frame_bytes (forwarded en fwd f)))"
proof -
  have wfs: "frame_wf n (f\<lparr>fr_ttl := t\<rparr>)" "frame_wf n (f\<lparr>fr_ttl := t, fr_src := stored32 en a\<rparr>)"
    "frame_wf n (f\<lparr>fr_ttl := t, fr_src := stored32 en a, fr_dst := stored32 en b\<rparr>)"
    "frame_wf n (f\<lparr>fr_ttl := t, fr_src := stored32 en a, fr_dst := stored32 en b, fr_sport := stored16 en x\<rparr>)"
    "frame_wf n (f\<lparr>fr_ttl := t, fr_src := stored32 en a, fr_dst := stored32 en b, fr_sport := stored16 en x, fr_dport := stored16 en y\<rparr>)"
    "frame_wf n (f\<lparr>fr_ttl := t, fr_src := stored32 en a, fr_dst := stored32 en b, fr_sport := stored16 en x,
      fr_dport := stored16 en y, fr_check := stored16 en z\<rparr>)"
    for t a b x y z using wf by (simp_all add: frame_wf_def)
  have off: "14 + 8 = (22 :: nat)" "14 + 10 = (24 :: nat)" "14 + 12 = (26 :: nat)" "14 + 16 = (30 :: nat)"
    "34 + n + 2 = 36 + n" "34 + n + 6 = 40 + n" by simp_all
  show ?thesis
    unfolding rewrite_def Let_def frame_loads [OF wf] off
    by (simp add: frame_stores [OF wf] frame_stores [OF wfs(1)] frame_stores [OF wfs(2)] frame_stores [OF wfs(3)]
        frame_stores [OF wfs(4)] frame_stores [OF wfs(5)] frame_stores [OF wfs(6)] forwarded_def)
qed

text \<open>The key of a packet.\<close>

definition key_of :: "endian \<Rightarrow> frame \<Rightarrow> ForwardKey" where
  "key_of en f = \<lparr>fk_src_ip = val32 en (fr_src f), fk_src_port = val16 en (fr_sport f), fk_dst_port = val16 en (fr_dport f),
     fk_dst_ip = val32 en (fr_dst f), fk_protocol = IPPROTO_UDP\<rparr>"

lemma try_forward_cases:
  "(\<exists>r es. try_forward en rules room now p = (r, p, es) \<and> r \<noteq> Inr XDP_TX) \<or>
   (\<exists>fwd. frame_bytes (cut p) = p \<and> frame_wf (opts_len p) (cut p) \<and> rules (key_of en (cut p)) = Some fwd \<and>
      fr_proto (cut p) = IPPROTO_UDP \<and> be_of16 en (val16 en (fr_dport (cut p))) \<in> {RTP_PORT_MIN..RTP_PORT_MAX} \<and>
      be_of16 en (val16 en (fr_dport (cut p))) mod 2 = 0 \<and> 1 < fr_ttl (cut p) \<and>
      try_forward en rules room now p = (Inr XDP_TX, frame_bytes (forwarded en fwd (cut p)), []))"
  (is "?A \<or> ?B")
proof (cases ?A)
  case False
  then have A: "fst (try_forward en rules room now p) = Inr XDP_TX \<or> fst (snd (try_forward en rules room now p)) \<noteq> p"
    by (metis prod.collapse)
  note D = try_forward_def Let_def
  let ?ip = "ipv4_at en p 14"
  have 1: "ptr_at 0 14 p" by (rule ccontr) (use A in \<open>simp add: D\<close>)
  have 2: "eh_eth_type (eth_at en p) = be_of16 en ETH_P_IP" by (rule ccontr) (use A 1 in \<open>simp add: D\<close>)
  have 3: "ptr_at 14 20 p" by (rule ccontr) (use A 1 2 in \<open>simp add: D\<close>)
  have 4: "drop_bit 4 (ip_version_ihl ?ip) AND 0x0f = 4" by (rule ccontr) (use A 1 2 3 in \<open>simp add: D\<close>)
  let ?ihl = "unat (ip_version_ihl ?ip AND 0x0f)" and ?tot = "unat (be_of16 en (ip_tot_len ?ip))"
  have 5: "\<not> ?ihl < 5" by (rule ccontr) (use A 1 2 3 4 in \<open>simp add: D\<close>)
  have 6: "\<not> 14 + ?tot > length p" by (rule ccontr) (use A 1 2 3 4 5 in \<open>simp add: D\<close>)
  let ?fr = "be_of16 en (ip_frag_off ?ip)"
  have 7: "\<not> (?fr AND 0x1FFF \<noteq> 0 \<or> ?fr AND 0x2000 \<noteq> 0)" by (rule ccontr) (use A 1 2 3 4 5 6 in \<open>simp add: D\<close>)
  have 8: "ip_protocol ?ip = IPPROTO_UDP" by (rule ccontr) (use A 1 2 3 4 5 6 7 in \<open>simp add: D\<close>)
  let ?n = "opts_len p"
  let ?u = "14 + ?ihl * 4"
  have n: "?u = 34 + ?n" using 5 by (simp add: opts_len_def ipv4_at_def)
  have 9: "\<not> ?u + 8 > 14 + ?tot" by (rule ccontr) (use A 1 2 3 4 5 6 7 8 in \<open>simp add: D\<close>)
  have 10: "ptr_at ?u 8 p" using 6 9 by (simp add: ptr_at_def)
  let ?f = "cut p"
  have "42 + ?n \<le> length p" using 6 9 n by linarith
  then have f: "p = frame_bytes ?f" "frame_wf ?n ?f" by (simp_all add: cut_def frame_bytes_cut)
  note L = frame_loads [OF f(2), folded f(1) n]
  let ?dst = "be_of16 en (val16 en (fr_dport ?f))"
  have 11: "\<not> (?dst < RTP_PORT_MIN \<or> ?dst > RTP_PORT_MAX)"
    by (rule ccontr) (use A 1 2 3 4 5 6 7 8 9 10 L in \<open>simp add: D\<close>)
  have 12: "?dst mod 2 \<noteq> 1" by (rule notI) (use A 1 2 3 4 5 6 7 8 9 10 11 L in \<open>simp add: D\<close>)
  have "rules (key_of en ?f) \<noteq> None"
    by (rule notI) (use A 1 2 3 4 5 6 7 8 9 10 11 12 L in \<open>simp add: D key_of_def\<close>)
  then obtain fwd where fwd: "rules (key_of en ?f) = Some fwd" by blast
  have run: "try_forward en rules room now p = (let (a, p') = rewrite en 14 ?u fwd p in (Inr a, p', []))"
    using 1 2 3 4 5 6 7 8 9 10 11 12 L fwd by (simp add: D key_of_def)
  have ttl: "1 < fr_ttl ?f" by (rule ccontr) (use A run rewrite_frame [OF f(2), of en fwd, folded n] f(1) in \<open>simp add: not_less\<close>)
  have "fr_proto ?f = IPPROTO_UDP" using 8 L(2) by simp
  moreover have "?dst mod 2 = 0" using 12 by (metis parity_cases)
  ultimately have ?B
    using f fwd 11 ttl run rewrite_frame [OF f(2), of en fwd, folded n]
    by (intro exI [of _ fwd]) (simp add: not_less not_le [symmetric])
  then show ?thesis by (rule disjI2)
qed (rule disjI1)

section \<open>Checksums of forwarded packets\<close>

definition halves :: "u32 \<Rightarrow> int" where
  "halves a = int (unat (hi16 a)) + int (unat (lo16 a))"

lemma halves_bound: "0 \<le> halves a" "halves a \<le> 131070"
proof -
  have "unat (hi16 a) < 65536" "unat (lo16 a) < 65536"
    using unat_u32_less [of a] by (simp_all add: unat_halves less_mult_imp_div_less)
  then show "0 \<le> halves a" "halves a \<le> 131070" unfolding halves_def by linarith+
qed

lemma word_of_parts:
  "(ucast (NOT c) :: u32) = word_of_int (65535 - int (unat (c :: u16)))"
  "hi16 a + lo16 a = word_of_int (halves a)"
  "(push_bit 8 (ucast (t :: u8)) :: u32) = word_of_int (256 * int (unat t))"
  "(ucast (q :: u16) :: u32) = word_of_int (int (unat q))"
proof -
  have u: "x = word_of_int (int (unat x))" for x :: u32 by simp
  have "unat (ucast (NOT c) :: u32) = 65535 - unat c" by (simp add: unat_ucast_u16_u32 unat_not16)
  moreover have "unat c \<le> 65535" using unat_u16_less [of c] by linarith
  ultimately show "(ucast (NOT c) :: u32) = word_of_int (65535 - int (unat c))" by (subst u) (simp only: of_nat_diff of_nat_numeral)
  show "hi16 a + lo16 a = word_of_int (halves a)" by (simp add: halves_def)
  show q: "(ucast q :: u32) = word_of_int (int (unat q))" by (subst u) (simp add: unat_ucast_u16_u32)
  have "(ucast t :: u32) = word_of_int (int (unat t))" by (subst u) (simp add: unat_ucast_u8_u32)
  then show "(push_bit 8 (ucast t) :: u32) = word_of_int (256 * int (unat t))" by (simp add: push_bit_eq_mult)
qed

lemma update_ip_word:
  "ucast (NOT c) - push_bit 8 (ucast ot) + push_bit 8 (ucast nt) - hi16 os - lo16 os - hi16 od - lo16 od
     + hi16 ns + lo16 ns + hi16 nd + lo16 nd =
   (word_of_int (65535 - int (unat (c :: u16)) + (256 * int (unat (nt :: u8)) + halves ns + halves nd
     - (256 * int (unat (ot :: u8)) + halves os + halves od))) :: u32)" (is "?l = ?r")
proof -
  have "?l = ucast (NOT c) + (push_bit 8 (ucast nt) + (hi16 ns + lo16 ns) + (hi16 nd + lo16 nd)
      - (push_bit 8 (ucast ot) + (hi16 os + lo16 os) + (hi16 od + lo16 od)))" by (simp add: algebra_simps)
  also have "\<dots> = ?r" unfolding word_of_parts(1) unfolding word_of_parts(2-4) by (simp only: of_int_add of_int_diff)
  finally show ?thesis .
qed

lemma update_udp_word:
  "ucast (NOT c) - hi16 os - lo16 os - hi16 od - lo16 od + hi16 ns + lo16 ns + hi16 nd + lo16 nd
     - ucast op - ucast oq + ucast np + ucast nq =
   (word_of_int (65535 - int (unat (c :: u16)) + (halves ns + halves nd + int (unat (np :: u16)) + int (unat (nq :: u16))
     - (halves os + halves od + int (unat (op :: u16)) + int (unat (oq :: u16))))) :: u32)" (is "?l = ?r")
proof -
  have "?l = ucast (NOT c) + ((hi16 ns + lo16 ns) + (hi16 nd + lo16 nd) + ucast np + ucast nq
      - ((hi16 os + lo16 os) + (hi16 od + lo16 od) + ucast op + ucast oq))" by (simp add: algebra_simps)
  also have "\<dots> = ?r" unfolding word_of_parts(1) unfolding word_of_parts(2-4) by (simp only: of_int_add of_int_diff)
  finally show ?thesis .
qed

text \<open>The words of fields in network order.\<close>

lemma word_sum_val16: "length b = 2 \<Longrightarrow> word_sum b = unat (val16 Big b)"
  by (auto simp: length_Suc_conv numeral_2_eq_2 val16_def load16_def unat_be16)

lemma word_sum_val32: "length b = 4 \<Longrightarrow> int (word_sum b) = halves (val32 Big b)"
  by (auto simp: length_Suc_conv eval_nat_numeral val32_def load32_def halves_def halves_be32 unat_ucast_u16_u32 unat_be16)

lemma val_stored: "val16 Big (stored16 Big w) = w" "val32 Big (stored32 Big v) = v"
  by (simp_all add: val16_def val32_def load16_def load32_def stored16_def stored32_def to_be16_def to_be32_def)

lemma word_sum_ip_header:
  assumes "frame_wf n f"
  shows "int (word_sum (ip_header f)) = int (word_sum (fr_head f)) + (256 * int (unat (fr_ttl f)) + int (unat (fr_proto f)))
    + int (unat (val16 Big (fr_check f))) + halves (val32 Big (fr_src f)) + halves (val32 Big (fr_dst f)) + int (word_sum (fr_opts f))"
proof -
  have e: "even (length (fr_head f))" "even (length [fr_ttl f, fr_proto f])" "even (length (fr_check f))" "even (length (fr_src f))"
    "even (length (fr_dst f))" using assms by (simp_all add: frame_wf_def)
  have "word_sum (ip_header f) = word_sum (fr_head f) + (word_sum [fr_ttl f, fr_proto f] + (word_sum (fr_check f) +
      (word_sum (fr_src f) + (word_sum (fr_dst f) + word_sum (fr_opts f)))))"
    unfolding ip_header_def using e by (simp only: word_sum_append)
  moreover have "int (word_sum (fr_src f)) = halves (val32 Big (fr_src f))" "int (word_sum (fr_dst f)) = halves (val32 Big (fr_dst f))"
    "word_sum (fr_check f) = unat (val16 Big (fr_check f))"
    using assms by (simp_all add: word_sum_val32 word_sum_val16 frame_wf_def)
  ultimately show ?thesis by simp
qed

text \<open>The octets the UDP checksum covers: pseudo-header, header and \<open>m\<close> octets of data.\<close>

definition udp_covered :: "nat \<Rightarrow> frame \<Rightarrow> bytes" where
  "udp_covered m f = fr_src f @ fr_dst f @ [0, fr_proto f] @ fr_ulen f @ fr_sport f @ fr_dport f @ fr_ulen f @ fr_ucheck f @ take m (fr_rest f)"

lemma word_sum_udp:
  assumes "frame_wf n f"
  shows "int (word_sum (udp_covered m f)) = halves (val32 Big (fr_src f)) + halves (val32 Big (fr_dst f)) + int (unat (fr_proto f))
    + 2 * int (word_sum (fr_ulen f)) + int (unat (val16 Big (fr_sport f))) + int (unat (val16 Big (fr_dport f)))
    + int (unat (val16 Big (fr_ucheck f))) + int (word_sum (take m (fr_rest f)))"
proof -
  have e: "even (length (fr_src f))" "even (length (fr_dst f))" "even (length [0, fr_proto f])" "even (length (fr_ulen f))"
    "even (length (fr_sport f))" "even (length (fr_dport f))" "even (length (fr_ucheck f))" using assms by (simp_all add: frame_wf_def)
  have "word_sum (udp_covered m f) = word_sum (fr_src f) + (word_sum (fr_dst f) + (word_sum [0, fr_proto f] + (word_sum (fr_ulen f) +
      (word_sum (fr_sport f) + (word_sum (fr_dport f) + (word_sum (fr_ulen f) + (word_sum (fr_ucheck f) + word_sum (take m (fr_rest f)))))))))"
    unfolding udp_covered_def using e by (simp only: word_sum_append)
  moreover have "int (word_sum (fr_src f)) = halves (val32 Big (fr_src f))" "int (word_sum (fr_dst f)) = halves (val32 Big (fr_dst f))"
    "word_sum (fr_sport f) = unat (val16 Big (fr_sport f))" "word_sum (fr_dport f) = unat (val16 Big (fr_dport f))"
    "word_sum (fr_ucheck f) = unat (val16 Big (fr_ucheck f))"
    using assms by (simp_all add: word_sum_val32 word_sum_val16 frame_wf_def)
  ultimately show ?thesis by simp
qed

text \<open>The differences of the words that the program rewrites.\<close>

definition ip_change :: "ForwardValue \<Rightarrow> frame \<Rightarrow> int" where
  "ip_change fwd f = 256 * int (unat (fr_ttl f - 1)) + halves (fv_src_ip fwd) + halves (fv_dest_ip fwd)
     - (256 * int (unat (fr_ttl f)) + halves (val32 Big (fr_src f)) + halves (val32 Big (fr_dst f)))"

definition udp_change :: "ForwardValue \<Rightarrow> frame \<Rightarrow> int" where
  "udp_change fwd f = halves (fv_src_ip fwd) + halves (fv_dest_ip fwd) + int (unat (fv_src_port fwd)) + int (unat (fv_dest_port fwd))
     - (halves (val32 Big (fr_src f)) + halves (val32 Big (fr_dst f)) + int (unat (val16 Big (fr_sport f))) + int (unat (val16 Big (fr_dport f))))"

lemma verifies_int: "verifies bs \<longleftrightarrow> 65535 dvd int (word_sum bs) \<and> word_sum bs \<noteq> 0"
  unfolding verifies_def mod_eq_0_iff_dvd using of_nat_dvd_iff [of 65535 "word_sum bs", where 'a = int] by simp

lemma frame_wf_forwarded: "frame_wf n f \<Longrightarrow> frame_wf n (forwarded en fwd f)"
  by (simp add: frame_wf_def forwarded_def)

lemma forwarded_ip_checksum:
  assumes wf: "frame_wf n f" and v: "verifies (ip_header f)" and t: "1 < fr_ttl f"
  shows "verifies (ip_header (forwarded Big fwd f)) \<longleftrightarrow> 0 \<le> 65535 - int (unat (val16 Big (fr_check f))) + ip_change fwd f"
proof -
  let ?c = "int (unat (val16 Big (fr_check f)))" and ?d = "ip_change fwd f" and ?g = "forwarded Big fwd f"
  let ?r = "update_ip_checksum (val16 Big (fr_check f)) (fr_ttl f) (fr_ttl f - 1)
       (val32 Big (fr_src f)) (fv_src_ip fwd) (val32 Big (fr_dst f)) (fv_dest_ip fwd)"
  have c: "0 \<le> ?c" "?c \<le> 65535" using unat_u16_less [of "val16 Big (fr_check f)"] by linarith+
  have tt: "unat (fr_ttl f) < 256" "unat (fr_ttl f - 1) < 256" by simp_all
  have d: "\<bar>?d\<bar> < 2147483648"
    using halves_bound [of "fv_src_ip fwd"] halves_bound [of "fv_dest_ip fwd"] halves_bound [of "val32 Big (fr_src f)"]
      halves_bound [of "val32 Big (fr_dst f)"] tt
    unfolding ip_change_def by linarith
  have r: "?r = NOT (ucast (fold_sum (word_of_int (65535 - ?c + ?d))))"
    unfolding update_ip_checksum_def Let_def update_ip_word ip_change_def ..
  note upd = checksum_update [OF refl c d, folded r]
  have "int (word_sum (ip_header ?g)) = int (word_sum (ip_header f)) + (int (unat ?r) - ?c + ?d)"
    unfolding word_sum_ip_header [OF wf] word_sum_ip_header [OF frame_wf_forwarded [OF wf]]
    by (simp add: forwarded_def val_stored ip_change_def)
  moreover have "65535 dvd int (word_sum (ip_header f))" using v by (simp add: verifies_int)
  ultimately have "65535 dvd int (word_sum (ip_header ?g)) \<longleftrightarrow> 0 \<le> 65535 - ?c + ?d"
    using upd by (simp only: dvd_add_right_iff)
  moreover have "word_sum (ip_header ?g) \<noteq> 0"
  proof
    assume "word_sum (ip_header ?g) = 0"
    then have "unat (fr_ttl ?g) = 0"
      using word_sum_ip_header [OF frame_wf_forwarded [OF wf], of Big fwd] halves_bound(1) [of "val32 Big (fr_src ?g)"]
        halves_bound(1) [of "val32 Big (fr_dst ?g)"]
      by linarith
    moreover have "unat (fr_ttl f - 1) \<noteq> 0" using t by (auto simp: unat_sub_if' word_less_nat_alt)
    ultimately show False by (simp add: forwarded_def)
  qed
  ultimately show ?thesis by (simp add: verifies_int)
qed

lemma forwarded_udp_checksum:
  assumes wf: "frame_wf n f" and v: "verifies (udp_covered m f)" and z: "val16 Big (fr_ucheck f) \<noteq> 0" and u: "fr_proto f = IPPROTO_UDP"
  shows "verifies (udp_covered m (forwarded Big fwd f)) \<longleftrightarrow> 0 \<le> 65535 - int (unat (val16 Big (fr_ucheck f))) + udp_change fwd f"
proof -
  let ?c = "int (unat (val16 Big (fr_ucheck f)))" and ?d = "udp_change fwd f" and ?g = "forwarded Big fwd f"
  let ?w = "word_of_int (65535 - ?c + ?d) :: u32"
  let ?r = "NOT (ucast (fold_sum ?w)) :: u16"
  let ?u = "update_udp_checksum Big (val16 Big (fr_ucheck f)) (val32 Big (fr_src f)) (fv_src_ip fwd)
    (val32 Big (fr_dst f)) (fv_dest_ip fwd) (val16 Big (fr_sport f)) (fv_src_port fwd) (val16 Big (fr_dport f)) (fv_dest_port fwd)"
  have c: "0 \<le> ?c" "?c \<le> 65535" using unat_u16_less [of "val16 Big (fr_ucheck f)"] by linarith+
  have q: "unat (x :: u16) < 65536" for x by simp
  have d: "\<bar>?d\<bar> < 2147483648"
    using halves_bound [of "fv_src_ip fwd"] halves_bound [of "fv_dest_ip fwd"] halves_bound [of "val32 Big (fr_src f)"]
      halves_bound [of "val32 Big (fr_dst f)"] q [of "fv_src_port fwd"] q [of "fv_dest_port fwd"] q [of "val16 Big (fr_sport f)"]
      q [of "val16 Big (fr_dport f)"]
    unfolding udp_change_def by linarith
  note upd = checksum_update [OF refl c d]
  have r: "?u = (if ?r = 0 then 0xFFFF else ?r)"
    unfolding update_udp_checksum_def Let_def be_of16_def endian.case update_udp_word udp_change_def ..
  then have "int (unat ?u) = int (unat ?r) + 65535 * (if ?r = 0 then 1 else 0)" by simp
  then have "int (word_sum (udp_covered m ?g)) = int (word_sum (udp_covered m f)) + (int (unat ?r) - ?c + ?d) + 65535 * (if ?r = 0 then 1 else 0)"
    unfolding word_sum_udp [OF wf] word_sum_udp [OF frame_wf_forwarded [OF wf]]
    using z by (simp add: forwarded_def val_stored udp_change_def)
  moreover have "65535 dvd int (word_sum (udp_covered m f))" using v by (simp add: verifies_int)
  ultimately have "65535 dvd int (word_sum (udp_covered m ?g)) \<longleftrightarrow> 0 \<le> 65535 - ?c + ?d"
    using upd by (simp only: dvd_add_right_iff dvd_add_left_iff [OF dvd_triv_left])
  moreover have "word_sum (udp_covered m ?g) \<noteq> 0"
  proof
    assume "word_sum (udp_covered m ?g) = 0"
    then have "unat (fr_proto ?g) = 0"
      using word_sum_udp [OF frame_wf_forwarded [OF wf], of m Big fwd] halves_bound(1) [of "val32 Big (fr_src ?g)"]
        halves_bound(1) [of "val32 Big (fr_dst ?g)"]
      by linarith
    then show False by (simp add: forwarded_def u IPPROTO_UDP_def)
  qed
  ultimately show ?thesis by (simp add: verifies_int)
qed

section \<open>Properties\<close>

lemma cut_forwarded:
  assumes "frame_bytes (cut p) = p" "frame_wf (opts_len p) (cut p)"
  shows "cut (frame_bytes (forwarded en fwd (cut p))) = forwarded en fwd (cut p)"
proof (rule cut_frame [OF frame_wf_forwarded [OF assms(2)]])
  have "frame_bytes g ! 14 = fr_head g ! 0" if "frame_wf n g" for g n
    using that by (simp add: frame_bytes_def ip_header_def frame_wf_def nth_append)
  then have "frame_bytes (forwarded en fwd (cut p)) ! 14 = frame_bytes (cut p) ! 14"
    using assms(2) frame_wf_forwarded [OF assms(2), of en fwd] by (simp add: forwarded_def)
  then show "opts_len (frame_bytes (forwarded en fwd (cut p))) = opts_len p"
    using assms(1) by (simp add: opts_len_def)
qed


definition ihl_of :: "bytes \<Rightarrow> nat" where
  "ihl_of p = unat (p ! 14 AND 0x0f)"












lemma udp_offset: "5 \<le> ihl_of p \<Longrightarrow> 14 + ihl_of p * 4 = 34 + opts_len p"
  by (simp add: opts_len_def ihl_of_def)







text \<open>
  On a big-endian machine the incremental checksums of a forwarded packet verify exactly when the 32-bit
  sum they are computed in does not borrow: for a packet whose checksums verify, the IP header verifies
  afterwards exactly when the complement of the old checksum plus the change of the rewritten words is not
  negative, and so does the UDP checksum.
\<close>

theorem kernel_checksums:
  assumes run: "rtp_forward Big rules room now p = (XDP_TX, p', es)" and ip: "verifies (ip_header (cut p))"
    and udp: "verifies (udp_covered m (cut p))" "val16 Big (fr_ucheck (cut p)) \<noteq> 0"
  shows "\<exists>fwd. rules (key_of Big (cut p)) = Some fwd \<and>
    (verifies (ip_header (cut p')) \<longleftrightarrow> 0 \<le> 65535 - int (unat (val16 Big (fr_check (cut p)))) + ip_change fwd (cut p)) \<and>
    (verifies (udp_covered m (cut p')) \<longleftrightarrow> 0 \<le> 65535 - int (unat (val16 Big (fr_ucheck (cut p)))) + udp_change fwd (cut p))"
proof -
  from try_forward_cases [of Big rules room now p] run obtain fwd where f: "frame_bytes (cut p) = p" "frame_wf (opts_len p) (cut p)"
    "rules (key_of Big (cut p)) = Some fwd" "fr_proto (cut p) = IPPROTO_UDP" "1 < fr_ttl (cut p)"
    "p' = frame_bytes (forwarded Big fwd (cut p))"
    by (auto simp: rtp_forward_def split: sum.splits)
  then show ?thesis
    using forwarded_ip_checksum [OF f(2) ip f(5)] forwarded_udp_checksum [OF f(2) udp f(4)] cut_forwarded [OF f(1,2), of Big fwd] by simp
qed

text \<open>A packet from 10.0.0.1 port 20000 to 10.0.0.2 port 30000 with right checksums, and a rule to 10.0.0.3.\<close>

definition sample_rtp :: bytes where
  "sample_rtp = [2, 0, 0, 0, 0, 1, 2, 0, 0, 0, 0, 2, 8, 0, 69, 0, 0, 32, 0, 0, 64, 0, 64, 17, 38, 203, 10, 0, 0, 1, 10, 0, 0, 2,
     78, 32, 117, 48, 0, 12, 36, 125, 1, 2, 3, 4]"

definition sample_rule :: "endian \<Rightarrow> ForwardValue" where
  "sample_rule en = \<lparr>fv_dest_ip = val32 en [10, 0, 0, 3], fv_dest_port = val16 en [156, 64], fv_src_ip = val32 en [10, 0, 0, 2],
     fv_src_port = val16 en [117, 50], fv_last_seen = 0\<rparr>"

definition sample_sent :: "endian \<Rightarrow> bytes" where
  "sample_sent en = fst (snd (rtp_forward en (\<lambda>_. Some (sample_rule en)) True 0 sample_rtp))"

lemma sample_runs:
  "rtp_forward Big (\<lambda>_. Some (sample_rule Big)) True 0 sample_rtp = (XDP_TX, sample_sent Big, [])"
  "rtp_forward Little (\<lambda>_. Some (sample_rule Little)) True 0 sample_rtp = (XDP_TX, sample_sent Little, [])"
  unfolding sample_sent_def by code_simp+



lemma sample_octets:
  "ip_header (cut sample_rtp) = [69, 0, 0, 32, 0, 0, 64, 0, 64, 17, 38, 203, 10, 0, 0, 1, 10, 0, 0, 2]"
  "udp_covered 4 (cut sample_rtp) =
     [10, 0, 0, 1, 10, 0, 0, 2, 0, 17, 0, 12, 78, 32, 117, 48, 0, 12, 36, 125, 1, 2, 3, 4]"
  "ip_header (cut (sample_sent Little)) = [69, 0, 0, 32, 0, 0, 64, 0, 63, 17, 38, 202, 10, 0, 0, 2, 10, 0, 0, 3]"
  "udp_covered 4 (cut (sample_sent Little)) =
     [10, 0, 0, 2, 10, 0, 0, 3, 0, 17, 0, 12, 117, 50, 156, 64, 0, 12, 2, 45, 1, 2, 3, 4]"
  by code_simp+

lemma sample_fields: "val16 Big (fr_check (cut sample_rtp)) = 9931" "val16 Big (fr_ucheck (cut sample_rtp)) = 9341"
  "fr_ttl (cut sample_rtp) = 64" "val32 Big (fr_src (cut sample_rtp)) = 0x0A000001" "val32 Big (fr_dst (cut sample_rtp)) = 0x0A000002"
  "val16 Big (fr_sport (cut sample_rtp)) = 20000" "val16 Big (fr_dport (cut sample_rtp)) = 30000"
  "fv_src_ip (sample_rule Big) = 0x0A000002" "fv_dest_ip (sample_rule Big) = 0x0A000003" "fv_src_port (sample_rule Big) = 30002"
  "fv_dest_port (sample_rule Big) = 40000"
  by code_simp+

lemma sample_values: "ip_change (sample_rule Big) (cut sample_rtp) = -254" "udp_change (sample_rule Big) (cut sample_rtp) = 20004"
  by (simp_all add: ip_change_def udp_change_def sample_fields halves_def hi16_def lo16_def)

theorem kernel_checksums_witness:
  "rtp_forward Big (\<lambda>_. Some (sample_rule Big)) True 0 sample_rtp = (XDP_TX, sample_sent Big, []) \<and>
   verifies (ip_header (cut (sample_sent Big))) \<and> verifies (udp_covered 4 (cut (sample_sent Big)))"
proof -
  have v: "verifies (ip_header (cut sample_rtp))" "verifies (udp_covered 4 (cut sample_rtp))" "val16 Big (fr_ucheck (cut sample_rtp)) \<noteq> 0"
    by (simp_all add: sample_octets sample_fields verifies_def)
  from kernel_checksums [OF sample_runs(1) v] show ?thesis using sample_runs(1) by (auto simp: sample_values sample_fields)
qed

text \<open>
  On a little-endian machine, which the program is built for, the same packet loses its checksums: the time
  to live and the ports are added in network order to words read in the order of the machine.
\<close>

theorem kernel_little_endian_checksums:
  "verifies (ip_header (cut sample_rtp)) \<and> verifies (udp_covered 4 (cut sample_rtp)) \<and>
   rtp_forward Little (\<lambda>_. Some (sample_rule Little)) True 0 sample_rtp = (XDP_TX, sample_sent Little, []) \<and>
   \<not> verifies (ip_header (cut (sample_sent Little))) \<and> \<not> verifies (udp_covered 4 (cut (sample_sent Little)))"
  by (simp add: sample_octets sample_runs(2) verifies_def)

end
