(* ===== verification/Conference_Control.thy ===== *)
theory Conference_Control
  imports Utf8 "HOL-Library.Sublist"
begin

text \<open>
  Access control of a conference: \<^verbatim>\<open>forge-conference/src/pin_auth.rs\<close>, the PINs of
  \<^verbatim>\<open>config.rs\<close> and the DTMF commands of \<^verbatim>\<open>dtmf_commands.rs\<close>. A string is its UTF-8 octets and a
  character its scalar value. Host commands need the host PIN, wrong PINs lock a participant out, and some
  commands of the default configuration can never be given.
\<close>

section \<open>Definitions\<close>

subsection \<open>PIN authentication\<close>

record PinRequirements =
  pr_min_length :: nat
  pr_max_length :: nat
  pr_require_digit :: bool
  pr_require_letter :: bool
  pr_require_special :: bool
  pr_digits_only :: bool

record SecurityConfig =
  sc_require_guest_pin :: bool
  sc_guest_pin :: "bytes option"
  sc_host_pin :: "bytes option"
  sc_pin_requirements :: PinRequirements
  sc_max_pin_attempts :: u32
  sc_lockout_duration_secs :: u64
  sc_default_locked :: bool

definition PinRequirements_default :: PinRequirements where
  "PinRequirements_default = \<lparr>pr_min_length = 4, pr_max_length = 12, pr_require_digit = True, pr_require_letter = False,
     pr_require_special = False, pr_digits_only = True\<rparr>"

definition SecurityConfig_default :: SecurityConfig where
  "SecurityConfig_default = \<lparr>sc_require_guest_pin = False, sc_guest_pin = None, sc_host_pin = None,
     sc_pin_requirements = PinRequirements_default, sc_max_pin_attempts = 3, sc_lockout_duration_secs = 300,
     sc_default_locked = False\<rparr>"

text \<open>The characters of interest are single octets; other octets belong to other characters.\<close>

definition is_ascii_digit :: "u8 \<Rightarrow> bool" where
  "is_ascii_digit c \<longleftrightarrow> 0x30 \<le> c \<and> c \<le> 0x39"

definition is_ascii_alphabetic :: "u8 \<Rightarrow> bool" where
  "is_ascii_alphabetic c \<longleftrightarrow> 0x41 \<le> c \<and> c \<le> 0x5A \<or> 0x61 \<le> c \<and> c \<le> 0x7A"

definition is_special :: "u8 \<Rightarrow> bool" where
  "is_special c \<longleftrightarrow> c = 0x2A \<or> c = 0x23"

definition validate_pin :: "PinRequirements \<Rightarrow> bytes \<Rightarrow> string \<Rightarrow> string + unit" where
  "validate_pin r pin pin_type =
     (if length pin < pr_min_length r
      then Inl (pin_type @ '' PIN must be at least '' @ show_nat (pr_min_length r) @ '' characters'')
      else if length pin > pr_max_length r
      then Inl (pin_type @ '' PIN must be at most '' @ show_nat (pr_max_length r) @ '' characters'')
      else if pr_digits_only r
      then (if \<not> list_all (\<lambda>c. is_ascii_digit c \<or> is_special c) pin
            then Inl (pin_type @ '' PIN must contain only digits (0-9), *, or #'') else Inr ())
      else if pr_require_digit r \<and> \<not> list_ex is_ascii_digit pin
      then Inl (pin_type @ '' PIN must contain at least one digit'')
      else if pr_require_letter r \<and> \<not> list_ex is_ascii_alphabetic pin
      then Inl (pin_type @ '' PIN must contain at least one letter'')
      else if pr_require_special r \<and> \<not> list_ex is_special pin
      then Inl (pin_type @ '' PIN must contain at least one special character (* or #)'')
      else Inr ())"

definition SecurityConfig_validate :: "SecurityConfig \<Rightarrow> string + unit" where
  "SecurityConfig_validate c =
     (case (case sc_guest_pin c of Some pin \<Rightarrow> validate_pin (sc_pin_requirements c) pin ''guest'' | None \<Rightarrow> Inr ()) of
        Inl e \<Rightarrow> Inl e
      | Inr _ \<Rightarrow>
          (case (case sc_host_pin c of Some pin \<Rightarrow> validate_pin (sc_pin_requirements c) pin ''host'' | None \<Rightarrow> Inr ()) of
             Inl e \<Rightarrow> Inl e
           | Inr _ \<Rightarrow>
               (case (sc_guest_pin c, sc_host_pin c) of
                  (Some guest, Some host) \<Rightarrow>
                    if guest = host then Inl ''Guest PIN and Host PIN must be different'' else Inr ()
                | _ \<Rightarrow> Inr ())))"

text \<open>The comparison looks at every octet.\<close>

definition constant_time_eq :: "bytes \<Rightarrow> bytes \<Rightarrow> bool" where
  "constant_time_eq a b =
     (if length a \<noteq> length b then False
      else fold (\<lambda>(x, y) diff. diff OR (x XOR y)) (zip a b) 0 = 0)"

datatype PinAuthResult = GuestAuthenticated | HostAuthenticated | IncorrectPin u32 | LockedOut u64 | NoPinRequired

record AttemptTracker =
  failed_attempts :: u32
  lockout_until :: "instant option"

definition AttemptTracker_new :: AttemptTracker where
  "AttemptTracker_new = \<lparr>failed_attempts = 0, lockout_until = None\<rparr>"

definition is_locked_out :: "instant \<Rightarrow> AttemptTracker \<Rightarrow> bool" where
  "is_locked_out now t = (case lockout_until t of Some l \<Rightarrow> now < l | None \<Rightarrow> False)"

definition seconds_until_unlock :: "instant \<Rightarrow> AttemptTracker \<Rightarrow> u64 option" where
  "seconds_until_unlock now t =
     (case lockout_until t of Some l \<Rightarrow> if now < l then Some (of_nat ((l - now) div 1000000000)) else None | None \<Rightarrow> None)"

definition record_failure :: "instant \<Rightarrow> u32 \<Rightarrow> nat \<Rightarrow> AttemptTracker \<Rightarrow> AttemptTracker" where
  "record_failure now max_attempts lockout_duration t =
     (let t1 = t\<lparr>failed_attempts := failed_attempts t + 1\<rparr> in
      if failed_attempts t1 \<ge> max_attempts then t1\<lparr>lockout_until := Some (now + lockout_duration)\<rparr> else t1)"

definition AttemptTracker_reset :: "AttemptTracker \<Rightarrow> AttemptTracker" where
  "AttemptTracker_reset t = t\<lparr>failed_attempts := 0, lockout_until := None\<rparr>"

record PinAuthenticator =
  pa_config :: SecurityConfig
  pa_attempts :: "bytes \<Rightarrow> AttemptTracker option"

definition PinAuthenticator_new :: "SecurityConfig \<Rightarrow> PinAuthenticator" where
  "PinAuthenticator_new c = \<lparr>pa_config = c, pa_attempts = (\<lambda>_. None)\<rparr>"

definition pin_matches :: "bytes \<Rightarrow> bytes option \<Rightarrow> bool" where
  "pin_matches pin p = (case p of Some q \<Rightarrow> constant_time_eq pin q | None \<Rightarrow> False)"

definition pins_are_same :: "SecurityConfig \<Rightarrow> bool" where
  "pins_are_same c = (case (sc_host_pin c, sc_guest_pin c) of (Some h, Some g) \<Rightarrow> constant_time_eq h g | _ \<Rightarrow> False)"

definition authenticate :: "instant \<Rightarrow> bytes \<Rightarrow> bytes \<Rightarrow> PinAuthenticator \<Rightarrow> PinAuthenticator \<times> PinAuthResult" where
  "authenticate now participant_id pin a =
     (let c = pa_config a in
      if \<not> sc_require_guest_pin c \<and> sc_host_pin c = None then (a, NoPinRequired)
      else
        (let tracker = (case pa_attempts a participant_id of Some t \<Rightarrow> t | None \<Rightarrow> AttemptTracker_new);
             put = (\<lambda>t. a\<lparr>pa_attempts := (pa_attempts a)(participant_id \<mapsto> t)\<rparr>) in
         if is_locked_out now tracker
         then (put tracker, LockedOut (case seconds_until_unlock now tracker of Some s \<Rightarrow> s | None \<Rightarrow> 0))
         else
           (let host_match = pin_matches pin (sc_host_pin c); guest_match = pin_matches pin (sc_guest_pin c) in
            if host_match \<and> \<not> guest_match \<and> \<not> pins_are_same c then (put (AttemptTracker_reset tracker), HostAuthenticated)
            else if \<not> sc_require_guest_pin c then (put tracker, NoPinRequired)
            else if guest_match then (put (AttemptTracker_reset tracker), GuestAuthenticated)
            else
              (let tracker1 = record_failure now (sc_max_pin_attempts c) (unat (sc_lockout_duration_secs c) * 1000000000) tracker;
                   attempts_remaining = sc_max_pin_attempts c - min (failed_attempts tracker1) (sc_max_pin_attempts c) in
               (put tracker1,
                if attempts_remaining = 0 then LockedOut (sc_lockout_duration_secs c) else IncorrectPin attempts_remaining)))))"

definition pin_is_locked_out :: "instant \<Rightarrow> bytes \<Rightarrow> PinAuthenticator \<Rightarrow> bool" where
  "pin_is_locked_out now participant_id a =
     (case pa_attempts a participant_id of Some t \<Rightarrow> is_locked_out now t | None \<Rightarrow> False)"

definition clear_lockout :: "bytes \<Rightarrow> PinAuthenticator \<Rightarrow> PinAuthenticator" where
  "clear_lockout participant_id a =
     (case pa_attempts a participant_id of
        Some t \<Rightarrow> a\<lparr>pa_attempts := (pa_attempts a)(participant_id \<mapsto> AttemptTracker_reset t)\<rparr> | None \<Rightarrow> a)"

definition pin_failed_attempts :: "bytes \<Rightarrow> PinAuthenticator \<Rightarrow> u32" where
  "pin_failed_attempts participant_id a = (case pa_attempts a participant_id of Some t \<Rightarrow> failed_attempts t | None \<Rightarrow> 0)"

definition update_config :: "SecurityConfig \<Rightarrow> PinAuthenticator \<Rightarrow> PinAuthenticator" where
  "update_config c a = a\<lparr>pa_config := c\<rparr>"

subsection \<open>DTMF commands\<close>

record ParticipantCommands =
  mute_toggle :: bytes
  volume_up :: bytes
  volume_down :: bytes
  info :: bytes
  leave :: bytes

record HostCommands =
  kick_prefix :: bytes
  mute_all :: bytes
  unmute_all :: bytes
  lock :: bytes
  unlock :: bytes
  end_conference :: bytes
  dial_out :: bytes

record ConferenceDtmfConfig =
  dc_enabled :: bool
  participant_commands :: ParticipantCommands
  host_commands :: HostCommands
  dc_host_pin :: "bytes option"
  forward_to_ai :: bool
  sequence_timeout_ms :: u64
  audio_feedback :: bool

definition ParticipantCommands_default :: ParticipantCommands where
  "ParticipantCommands_default = \<lparr>mute_toggle = str ''*6'', volume_up = str ''*7'', volume_down = str ''*8'', info = str ''*0'',
     leave = str ''*9''\<rparr>"

definition HostCommands_default :: HostCommands where
  "HostCommands_default = \<lparr>kick_prefix = str ''##'', mute_all = str ''*91'', unmute_all = str ''*92'', lock = str ''*93'',
     unlock = str ''*94'', end_conference = str ''*00'', dial_out = str ''*5''\<rparr>"

definition ConferenceDtmfConfig_default :: ConferenceDtmfConfig where
  "ConferenceDtmfConfig_default = \<lparr>dc_enabled = True, participant_commands = ParticipantCommands_default,
     host_commands = HostCommands_default, dc_host_pin = None, forward_to_ai = True, sequence_timeout_ms = 3000,
     audio_feedback = True\<rparr>"

datatype DtmfCommand = MuteToggle | VolumeUp | VolumeDown | Info | Leave
  | KickParticipant nat | MuteAll | UnmuteAll | LockConference | UnlockConference | EndConference
  | DialOut bytes | EnterHostPin | EnterDialOut | InvalidCommand | Incomplete

datatype ParticipantRole = Participant | Host

record SequenceState =
  sq_digits :: bytes
  sq_started_at :: instant
  sq_is_host :: bool
  sq_entering_pin :: bool
  sq_entering_dialout :: bool
  sq_last_digit :: "nat option"
  sq_last_digit_time :: instant

definition SequenceState_new :: "instant \<Rightarrow> SequenceState" where
  "SequenceState_new now = \<lparr>sq_digits = [], sq_started_at = now, sq_is_host = False, sq_entering_pin = False,
     sq_entering_dialout = False, sq_last_digit = None, sq_last_digit_time = now\<rparr>"

definition add_digit :: "instant \<Rightarrow> nat \<Rightarrow> SequenceState \<Rightarrow> SequenceState \<times> bool" where
  "add_digit now digit s =
     (if sq_last_digit s = Some digit \<and> now - sq_last_digit_time s < 80000000 then (s, False)
      else (s\<lparr>sq_last_digit := Some digit, sq_last_digit_time := now, sq_digits := sq_digits s @ encode_utf8 digit,
              sq_started_at := now\<rparr>, True))"

definition clear_sequence :: "instant \<Rightarrow> SequenceState \<Rightarrow> SequenceState" where
  "clear_sequence now s = s\<lparr>sq_digits := [], sq_started_at := now, sq_entering_pin := False, sq_entering_dialout := False\<rparr>"

definition is_expired :: "instant \<Rightarrow> nat \<Rightarrow> SequenceState \<Rightarrow> bool" where
  "is_expired now timeout s \<longleftrightarrow> now - sq_started_at s > timeout"

definition begins_with :: "bytes \<Rightarrow> bytes \<Rightarrow> bool" where
  "begins_with s p \<longleftrightarrow> take (length p) s = p"

definition is_host_command_prefix :: "HostCommands \<Rightarrow> bytes \<Rightarrow> bool" where
  "is_host_command_prefix c d \<longleftrightarrow> begins_with (mute_all c) d \<or> begins_with (unmute_all c) d \<or> begins_with (lock c) d \<or>
     begins_with (unlock c) d \<or> begins_with (end_conference c) d \<or> begins_with (kick_prefix c) d \<or> begins_with (dial_out c) d"

definition longest_host_command_length :: "HostCommands \<Rightarrow> nat" where
  "longest_host_command_length c = foldr max [length (mute_all c), length (unmute_all c), length (lock c), length (unlock c),
     length (end_conference c), length (kick_prefix c) + 2, length (dial_out c)] 0"

definition is_partial_match :: "ConferenceDtmfConfig \<Rightarrow> bytes \<Rightarrow> bool" where
  "is_partial_match c d \<longleftrightarrow>
     (let p = participant_commands c in
      begins_with (mute_toggle p) d \<or> begins_with (volume_up p) d \<or> begins_with (volume_down p) d \<or> begins_with (info p) d \<or>
      begins_with (leave p) d) \<or> is_host_command_prefix (host_commands c) d"

text \<open>\<^verbatim>\<open>str::parse::<usize>\<close>: an optional plus sign and digits, below \<open>2\<^sup>6\<^sup>4\<close>.\<close>

definition parse_usize :: "bytes \<Rightarrow> nat option" where
  "parse_usize s =
     (let ds = (case s of c # cs \<Rightarrow> if c = 0x2B then cs else s | [] \<Rightarrow> []); n = fold (\<lambda>c n. n * 10 + unat (c - 0x30)) ds 0 in
      if ds = [] \<or> \<not> list_all is_ascii_digit ds \<or> n \<ge> 2 ^ 64 then None else Some n)"

definition participant_command :: "ParticipantCommands \<Rightarrow> bytes \<Rightarrow> DtmfCommand option" where
  "participant_command p d =
     (if d = mute_toggle p then Some MuteToggle
      else if d = volume_up p then Some VolumeUp
      else if d = volume_down p then Some VolumeDown
      else if d = info p then Some Info
      else if d = leave p then Some Leave
      else None)"

text \<open>The commands of an authenticated host; \<open>None\<close> goes on to the partial matches.\<close>

definition host_command :: "HostCommands \<Rightarrow> bytes \<Rightarrow> DtmfCommand option" where
  "host_command h d =
     (if d = mute_all h then Some MuteAll
      else if d = unmute_all h then Some UnmuteAll
      else if d = lock h then Some LockConference
      else if d = unlock h then Some UnlockConference
      else if d = end_conference h then Some EndConference
      else
        (case (if begins_with d (kick_prefix h) \<and> length d > length (kick_prefix h)
               then parse_usize (drop (length (kick_prefix h)) d) else None) of
           Some n \<Rightarrow> Some (KickParticipant n)
         | None \<Rightarrow> if d = dial_out h then Some EnterDialOut else None))"

definition is_host_command :: "HostCommands \<Rightarrow> bytes \<Rightarrow> bool" where
  "is_host_command h d \<longleftrightarrow> d = mute_all h \<or> d = unmute_all h \<or> d = lock h \<or> d = unlock h \<or> d = end_conference h \<or>
     (begins_with d (kick_prefix h) \<and> length d > length (kick_prefix h)) \<or> d = dial_out h"

definition match_command :: "ConferenceDtmfConfig \<Rightarrow> bytes \<Rightarrow> ParticipantRole \<Rightarrow> DtmfCommand option" where
  "match_command c d role =
     (case participant_command (participant_commands c) d of
        Some cmd \<Rightarrow>
          if is_host_command_prefix (host_commands c) d \<and> length d < longest_host_command_length (host_commands c)
          then Some Incomplete else Some cmd
      | None \<Rightarrow>
          (case (if is_host_command (host_commands c) d
                 then (if role = Host then host_command (host_commands c) d
                       else if dc_host_pin c \<noteq> None then Some EnterHostPin else None)
                 else None) of
             Some cmd \<Rightarrow> Some cmd
           | None \<Rightarrow> if is_partial_match c d then Some Incomplete else None))"

record DtmfCommandHandler =
  dh_config :: ConferenceDtmfConfig
  dh_sequences :: "bytes \<Rightarrow> SequenceState option"

definition DtmfCommandHandler_new :: "ConferenceDtmfConfig \<Rightarrow> DtmfCommandHandler" where
  "DtmfCommandHandler_new c = \<lparr>dh_config = c, dh_sequences = (\<lambda>_. None)\<rparr>"

text \<open>The digit that was added, for a participant entering the PIN, a number to call or a command.\<close>

definition pin_digit :: "instant \<Rightarrow> ConferenceDtmfConfig \<Rightarrow> SequenceState \<Rightarrow> SequenceState \<times> (DtmfCommand \<times> ParticipantRole) option" where
  "pin_digit now c s =
     (case dc_host_pin c of
        None \<Rightarrow> (clear_sequence now s, Some (InvalidCommand, Participant))
      | Some expected_pin \<Rightarrow>
          if sq_digits s = expected_pin then (clear_sequence now (s\<lparr>sq_is_host := True\<rparr>), Some (EnterHostPin, Host))
          else if begins_with expected_pin (sq_digits s) then (s, None)
          else (clear_sequence now s, Some (InvalidCommand, Participant)))"

definition dialout_digit :: "instant \<Rightarrow> nat \<Rightarrow> SequenceState \<Rightarrow> SequenceState \<times> (DtmfCommand \<times> ParticipantRole) option" where
  "dialout_digit now digit s =
     (if digit = 0x23
      then (let destination = rev (dropWhile (\<lambda>c. c = 0x23) (rev (sq_digits s))) in
            (clear_sequence now s, Some (if destination = [] then InvalidCommand else DialOut destination, Host)))
      else (s, None))"

definition command_digit :: "instant \<Rightarrow> ConferenceDtmfConfig \<Rightarrow> SequenceState \<Rightarrow> SequenceState \<times> (DtmfCommand \<times> ParticipantRole) option" where
  "command_digit now c s =
     (let role = (if sq_is_host s then Host else Participant) in
      case match_command c (sq_digits s) role of
        None \<Rightarrow> (clear_sequence now s, Some (InvalidCommand, role))
      | Some cmd \<Rightarrow>
          if cmd = Incomplete then (s, None)
          else if cmd = EnterHostPin then (s\<lparr>sq_entering_pin := True, sq_digits := []\<rparr>, None)
          else if cmd = EnterDialOut then (s\<lparr>sq_entering_dialout := True, sq_digits := []\<rparr>, None)
          else (clear_sequence now s, Some (cmd, role)))"

definition sequence_digit :: "instant \<Rightarrow> ConferenceDtmfConfig \<Rightarrow> nat \<Rightarrow> SequenceState \<Rightarrow>
    SequenceState \<times> (DtmfCommand \<times> ParticipantRole) option" where
  "sequence_digit now c digit s0 =
     (let s1 = (if is_expired now (unat (sequence_timeout_ms c) * 1000000) s0 then clear_sequence now s0 else s0) in
      case add_digit now digit s1 of
        (s, False) \<Rightarrow> (s, None)
      | (s, True) \<Rightarrow>
          if sq_entering_pin s then pin_digit now c s
          else if sq_entering_dialout s then dialout_digit now digit s
          else command_digit now c s)"

definition process_digit :: "instant \<Rightarrow> bytes \<Rightarrow> nat \<Rightarrow> DtmfCommandHandler \<Rightarrow>
    DtmfCommandHandler \<times> (DtmfCommand \<times> ParticipantRole) option" where
  "process_digit now participant_id digit h =
     (if \<not> dc_enabled (dh_config h) then (h, None)
      else
        (let s0 = (case dh_sequences h participant_id of Some s \<Rightarrow> s | None \<Rightarrow> SequenceState_new now);
             (s, r) = sequence_digit now (dh_config h) digit s0 in
         (h\<lparr>dh_sequences := (dh_sequences h)(participant_id \<mapsto> s)\<rparr>, r)))"

definition set_host :: "instant \<Rightarrow> bytes \<Rightarrow> bool \<Rightarrow> DtmfCommandHandler \<Rightarrow> DtmfCommandHandler" where
  "set_host now participant_id is_host h =
     (let s = (case dh_sequences h participant_id of Some s \<Rightarrow> s | None \<Rightarrow> SequenceState_new now) in
      h\<lparr>dh_sequences := (dh_sequences h)(participant_id \<mapsto> s\<lparr>sq_is_host := is_host\<rparr>)\<rparr>)"

definition clear_participant :: "bytes \<Rightarrow> DtmfCommandHandler \<Rightarrow> DtmfCommandHandler" where
  "clear_participant participant_id h = h\<lparr>dh_sequences := (dh_sequences h)(participant_id := None)\<rparr>"

definition get_role :: "bytes \<Rightarrow> DtmfCommandHandler \<Rightarrow> ParticipantRole" where
  "get_role participant_id h =
     (case dh_sequences h participant_id of Some s \<Rightarrow> if sq_is_host s then Host else Participant | None \<Rightarrow> Participant)"

section \<open>PINs\<close>

lemma or_eq_0: "a OR b = 0 \<longleftrightarrow> a = 0 \<and> b = (0 :: u8)"
  by (auto simp: bit_eq_iff bit_simps)

lemma xor_eq_0: "a XOR b = 0 \<longleftrightarrow> a = (b :: u8)"
  by (auto simp: bit_eq_iff bit_simps)

lemma fold_diff: "fold (\<lambda>(x, y) diff. diff OR (x XOR y)) xs d = 0 \<longleftrightarrow> d = 0 \<and> (\<forall>(x, y)\<in>set xs. x = (y :: u8))"
  by (induction xs arbitrary: d) (auto simp: or_eq_0 xor_eq_0)

lemma constant_time_eq_iff [simp]: "constant_time_eq a b \<longleftrightarrow> a = b"
proof (cases "length a = length b")
  case True
  have "a = b \<longleftrightarrow> (\<forall>(x, y)\<in>set (zip a b). x = y)"
    using True by (auto simp: list_eq_iff_nth_eq set_zip)
  then show ?thesis using True by (simp add: constant_time_eq_def fold_diff)
qed (auto simp: constant_time_eq_def)

lemma pin_matches_iff [simp]: "pin_matches pin p \<longleftrightarrow> p = Some pin"
  by (auto simp: pin_matches_def split: option.split)

lemma pins_are_same_iff: "pins_are_same c \<longleftrightarrow> (\<exists>p. sc_host_pin c = Some p \<and> sc_guest_pin c = Some p)"
  by (auto simp: pins_are_same_def split: option.split)

definition tracker_of :: "bytes \<Rightarrow> PinAuthenticator \<Rightarrow> AttemptTracker" where
  "tracker_of q a = (case pa_attempts a q of Some t \<Rightarrow> t | None \<Rightarrow> AttemptTracker_new)"

lemma locked_tracker: "pin_is_locked_out now q a \<longleftrightarrow> is_locked_out now (tracker_of q a)"
  by (auto simp: pin_is_locked_out_def tracker_of_def is_locked_out_def AttemptTracker_new_def split: option.split)

lemma authenticate_config [simp]: "pa_config (fst (authenticate now q pin a)) = pa_config a"
  by (simp add: authenticate_def Let_def)

lemma authenticate_other: "q \<noteq> r \<Longrightarrow> tracker_of r (fst (authenticate now q pin a)) = tracker_of r a"
  by (simp add: authenticate_def Let_def tracker_of_def)

text \<open>A wrong PIN: a locked participant is refused, another one is counted.\<close>

definition wrong_pin :: "SecurityConfig \<Rightarrow> bytes \<Rightarrow> bool" where
  "wrong_pin c pin \<longleftrightarrow> sc_guest_pin c \<noteq> Some pin \<and> sc_host_pin c \<noteq> Some pin"

lemma authenticate_wrong:
  assumes "sc_require_guest_pin (pa_config a)" "wrong_pin (pa_config a) pin"
  shows "tracker_of q (fst (authenticate now q pin a)) =
    (if is_locked_out now (tracker_of q a) then tracker_of q a
     else record_failure now (sc_max_pin_attempts (pa_config a)) (unat (sc_lockout_duration_secs (pa_config a)) * 1000000000) (tracker_of q a))"
  using assms by (simp add: authenticate_def Let_def tracker_of_def wrong_pin_def)

text \<open>The attempts of a participant while it was not locked out, in a sequence of attempts of many.\<close>

fun compared :: "bytes \<Rightarrow> (instant \<times> bytes \<times> bytes) list \<Rightarrow> PinAuthenticator \<Rightarrow> nat" where
  "compared p [] a = 0"
| "compared p ((t, q, pin) # xs) a =
     (if q = p \<and> \<not> pin_is_locked_out t p a then 1 else 0) + compared p xs (fst (authenticate t q pin a))"

text \<open>
  The chances of a participant: its attempts at which a right PIN would have let it in.
\<close>

definition right_pins :: "SecurityConfig \<Rightarrow> bytes list" where
  "right_pins c = (case sc_guest_pin c of Some g \<Rightarrow> [g] | None \<Rightarrow> []) @ (case sc_host_pin c of Some h \<Rightarrow> [h] | None \<Rightarrow> [])"

definition open_to :: "instant \<Rightarrow> bytes \<Rightarrow> PinAuthenticator \<Rightarrow> bool" where
  "open_to t p a \<longleftrightarrow> list_ex (\<lambda>pin. snd (authenticate t p pin a) \<in> {GuestAuthenticated, HostAuthenticated}) (right_pins (pa_config a))"

fun chances :: "bytes \<Rightarrow> (instant \<times> bytes \<times> bytes) list \<Rightarrow> PinAuthenticator \<Rightarrow> nat" where
  "chances p [] a = 0"
| "chances p ((t, q, pin) # xs) a = (if q = p \<and> open_to t p a then 1 else 0) + chances p xs (fst (authenticate t q pin a))"

lemma locked_answer:
  "is_locked_out t (tracker_of p a) \<Longrightarrow> snd (authenticate t p pin a) \<notin> {GuestAuthenticated, HostAuthenticated}"
  by (auto simp: authenticate_def Let_def tracker_of_def)

lemma open_unlocked: "open_to t p a \<Longrightarrow> \<not> pin_is_locked_out t p a"
  unfolding locked_tracker using locked_answer by (auto simp: open_to_def list_ex_iff)

lemma chances_compared: "chances p xs a \<le> compared p xs a"
  by (induction p xs a rule: chances.induct) (auto dest: open_unlocked)

definition free_tries :: "nat \<Rightarrow> nat \<Rightarrow> nat" where
  "free_tries m k = (if k < m then m - k else 1)"

definition locked_from :: "AttemptTracker \<Rightarrow> instant" where
  "locked_from t = (case lockout_until t of Some l \<Rightarrow> l | None \<Rightarrow> 0)"

lemma locked_out_iff: "is_locked_out now t \<longleftrightarrow> now < locked_from t"
  by (auto simp: is_locked_out_def locked_from_def split: option.split)

lemma record_failure_simps:
  assumes "unat (failed_attempts t) + 1 < 2 ^ 32"
  shows "unat (failed_attempts (record_failure now m d t)) = unat (failed_attempts t) + 1"
    "locked_from (record_failure now m d t) = (if unat m \<le> unat (failed_attempts t) + 1 then now + d else locked_from t)"
proof -
  have u: "unat (failed_attempts t + 1) = unat (failed_attempts t) + 1" using assms by (simp add: unat_word_ariths)
  show "unat (failed_attempts (record_failure now m d t)) = unat (failed_attempts t) + 1" by (simp add: record_failure_def Let_def u)
  show "locked_from (record_failure now m d t) = (if unat m \<le> unat (failed_attempts t) + 1 then now + d else locked_from t)"
    by (simp add: record_failure_def Let_def locked_from_def word_le_nat_alt u)
qed

text \<open>The step of the bound: one more attempt compared, and the participant locked until \<open>t + D\<close> when the tries are used up.\<close>

lemma free_tries_step:
  fixes D :: nat
  assumes "0 < D" "L \<le> t" "t \<le> z" "L' = (if m \<le> k + 1 then t + D else t)" "n = 0 \<or> L' \<le> z \<and> n \<le> free_tries m (k + 1) + (z - L') div D"
  shows "Suc n \<le> free_tries m k + (z - L) div D"
proof (cases "n = 0")
  case True
  have "0 < free_tries m k" by (simp add: free_tries_def)
  then show ?thesis using True by linarith
next
  case False
  then have n: "L' \<le> z" "n \<le> free_tries m (k + 1) + (z - L') div D" using assms(5) by auto
  have le: "(z - t) div D \<le> (z - L) div D" using assms(2) by (intro div_le_mono) simp
  show ?thesis
  proof (cases "m \<le> k + 1")
    case True
    then have "(z - t) div D = Suc ((z - L') div D)"
      using assms(1,4) n(1) le_div_geq [of D "z - t"] by simp
    moreover have "free_tries m (k + 1) = 1" "free_tries m k = 1" using True by (auto simp: free_tries_def)
    ultimately show ?thesis using n(2) le by linarith
  next
    case False
    then have "free_tries m k = Suc (free_tries m (k + 1))" "L' = t" using assms(4) by (simp_all add: free_tries_def)
    then show ?thesis using n(2) le by simp
  qed
qed

lemma compared_bound:
  fixes D :: nat
  assumes D: "D = unat (sc_lockout_duration_secs c) * 1000000000" "0 < D" and c: "sc_require_guest_pin c" "m = unat (sc_max_pin_attempts c)"
    and s: "sorted (map fst xs)" and w: "\<forall>(t, q, pin)\<in>set xs. q = p \<longrightarrow> wrong_pin c pin" and a: "pa_config a = c"
    and n: "unat (failed_attempts (tracker_of p a)) + length xs < 2 ^ 32"
    and x: "xs \<noteq> []" "t0 \<le> fst (hd xs)" and L: "L = max t0 (locked_from (tracker_of p a))"
  shows "compared p xs a = 0 \<or>
    L \<le> fst (last xs) \<and> compared p xs a \<le> free_tries m (unat (failed_attempts (tracker_of p a))) + (fst (last xs) - L) div D"
  using s w a n x L
proof (induction xs arbitrary: a t0 L)
  case (Cons y xs)
  obtain t q pin where y: "y = (t, q, pin)" by (cases y)
  let ?a = "fst (authenticate t q pin a)" and ?tr = "tracker_of p a"
  let ?k = "unat (failed_attempts ?tr)" and ?z = "fst (last (y # xs))"
  have t: "t0 \<le> t" "t \<le> ?z" using Cons.prems(1,6) by (auto simp: y)
  have cfg: "pa_config ?a = c" using Cons.prems(3) by simp
  have IH: "compared p xs ?a = 0 \<or> max t (locked_from (tracker_of p ?a)) \<le> ?z \<and>
      compared p xs ?a \<le> free_tries m (unat (failed_attempts (tracker_of p ?a))) + (?z - max t (locked_from (tracker_of p ?a))) div D"
    if "unat (failed_attempts (tracker_of p ?a)) + length xs < 2 ^ 32"
  proof (cases "xs = []")
    case False
    then have "t \<le> fst (hd xs)" using Cons.prems(1) by (cases xs) (auto simp: y)
    then show ?thesis using Cons.IH [of ?a t, OF _ _ cfg that False _ refl] Cons.prems(1,2) False by (auto simp: y)
  qed simp
  show ?case
  proof (cases "q = p \<and> \<not> is_locked_out t ?tr")
    case True
    then have q: "q = p" and free: "locked_from ?tr \<le> t" by (auto simp: locked_out_iff)
    have "wrong_pin c pin" using Cons.prems(2) q by (simp add: y)
    then have tr: "tracker_of p ?a = record_failure t (sc_max_pin_attempts c) D ?tr"
      using authenticate_wrong [of a pin p t] Cons.prems(3) c(1) True by (simp add: D(1))
    have k: "unat (failed_attempts ?tr) + 1 < 2 ^ 32" using Cons.prems(4) by simp
    note R = record_failure_simps [OF k, of t "sc_max_pin_attempts c" D]
    have L': "max t (locked_from (tracker_of p ?a)) = (if m \<le> ?k + 1 then t + D else t)"
      using free unfolding tr R c(2) by simp
    have "compared p xs ?a = 0 \<or> (if m \<le> ?k + 1 then t + D else t) \<le> ?z \<and>
        compared p xs ?a \<le> free_tries m (?k + 1) + (?z - (if m \<le> ?k + 1 then t + D else t)) div D"
      using IH Cons.prems(4) unfolding L' unfolding tr R(1) by simp
    from free_tries_step [OF D(2) _ t(2) refl this, of L] have "Suc (compared p xs ?a) \<le> free_tries m ?k + (?z - L) div D"
      using Cons.prems(7) t(1) free by simp
    then show ?thesis using True t free Cons.prems(7) by (simp add: y locked_tracker)
  next
    case False
    then have same: "tracker_of p ?a = ?tr"
      using authenticate_other [of q p t pin a] authenticate_wrong [of a pin p t] Cons.prems(2,3) c(1)
      by (cases "q = p") (auto simp: y)
    have "compared p (y # xs) a = compared p xs ?a" using False by (auto simp: y locked_tracker)
    moreover have "(?z - max t (locked_from ?tr)) div D \<le> (?z - L) div D"
      using Cons.prems(7) t(1) by (intro div_le_mono) simp
    moreover have "L \<le> max t (locked_from ?tr)" using Cons.prems(7) t(1) by simp
    ultimately show ?thesis using IH Cons.prems(4) unfolding same by auto
  qed
qed simp

text \<open>
  A PIN opens exactly what it is for: a participant is let in as host exactly when it is not locked out and
  its PIN is the host PIN and not the guest PIN too, and as guest exactly when it is not locked out, a guest
  PIN is required and its PIN is that one.
\<close>

theorem pin_access_exact:
  "(snd (authenticate now q pin a) = HostAuthenticated \<longleftrightarrow>
      \<not> pin_is_locked_out now q a \<and> sc_host_pin (pa_config a) = Some pin \<and> sc_guest_pin (pa_config a) \<noteq> Some pin) \<and>
   (snd (authenticate now q pin a) = GuestAuthenticated \<longleftrightarrow>
      \<not> pin_is_locked_out now q a \<and> sc_require_guest_pin (pa_config a) \<and> sc_guest_pin (pa_config a) = Some pin)"
  unfolding locked_tracker
  by (auto simp: authenticate_def Let_def tracker_of_def pins_are_same_iff)

text \<open>
  C19. Guessing is slow: with a guest PIN required, whatever other participants do, a participant that enters wrong PINs only
  has at most as many attempts at which a right PIN would have let it in as are allowed, and one more for every lockout period
  that went by.
\<close>

theorem pin_guesses_bounded:
  assumes "sc_require_guest_pin c" "0 < sc_lockout_duration_secs c" "0 < sc_max_pin_attempts c" "xs \<noteq> []" "length xs < 2 ^ 32"
    "sorted (map fst xs)" "\<forall>(t, q, pin)\<in>set xs. q = p \<longrightarrow> wrong_pin c pin"
  shows "chances p xs (PinAuthenticator_new c) \<le> unat (sc_max_pin_attempts c)
    + (fst (last xs) - fst (hd xs)) div (unat (sc_lockout_duration_secs c) * 1000000000)"
proof -
  let ?a = "PinAuthenticator_new c"
  have new: "tracker_of p ?a = AttemptTracker_new" "pa_config ?a = c" by (simp_all add: tracker_of_def PinAuthenticator_new_def)
  have "0 < unat (sc_lockout_duration_secs c) * 1000000000" "0 < unat (sc_max_pin_attempts c)"
    using assms(2,3) by (simp_all add: word_less_nat_alt)
  moreover have "unat (failed_attempts (tracker_of p ?a)) + length xs < 2 ^ 32" using assms(5) by (simp add: new AttemptTracker_new_def)
  ultimately show ?thesis
    using compared_bound [OF refl _ assms(1) refl assms(6,7) new(2) _ assms(4) order_refl refl] chances_compared [of p xs ?a]
    by (auto simp: new AttemptTracker_new_def free_tries_def locked_from_def)
qed

definition pin_sample :: SecurityConfig where
  "pin_sample = SecurityConfig_default\<lparr>sc_require_guest_pin := True, sc_guest_pin := Some (str ''1234''), sc_host_pin := Some (str ''9876''),
     sc_lockout_duration_secs := 1\<rparr>"

theorem pin_guesses_bounded_witness:
  "chances [1] (map (\<lambda>t. (t, [1], str ''0000'')) [0, 1, 2, 3, 4]) (PinAuthenticator_new pin_sample) \<le> 3 \<and>
   0 < chances [1] (map (\<lambda>t. (t, [1], str ''0000'')) [0, 1, 2, 3, 4]) (PinAuthenticator_new pin_sample)"
proof -
  have "open_to 0 [1] (PinAuthenticator_new pin_sample)"
    by (simp add: open_to_def right_pins_def pin_sample_def SecurityConfig_default_def PinAuthenticator_new_def authenticate_def
        is_locked_out_def AttemptTracker_new_def pins_are_same_def str_def Let_def)
  then show ?thesis
    using pin_guesses_bounded [of pin_sample "map (\<lambda>t. (t, [1], str ''0000'')) [0, 1, 2, 3, 4]" "[1]"]
    by (simp add: pin_sample_def SecurityConfig_default_def wrong_pin_def str_def)
qed

text \<open>
  Without a required guest PIN the host PIN can be guessed without limit: no attempt is counted.
\<close>

theorem pin_optional_unlimited:
  assumes "\<not> sc_require_guest_pin (pa_config a)" "\<not> pin_is_locked_out now q a" "sc_host_pin (pa_config a) \<noteq> Some pin"
  shows "snd (authenticate now q pin a) = NoPinRequired \<and> pin_failed_attempts q (fst (authenticate now q pin a)) = pin_failed_attempts q a \<and>
    (\<forall>later. pin_is_locked_out later q (fst (authenticate now q pin a)) = pin_is_locked_out later q a)"
  using assms unfolding locked_tracker
  by (auto simp: authenticate_def Let_def tracker_of_def pin_failed_attempts_def AttemptTracker_new_def split: option.split)

section \<open>DTMF commands\<close>

text \<open>The commands that are for hosts.\<close>

fun for_hosts :: "DtmfCommand \<Rightarrow> bool" where
  "for_hosts (KickParticipant n) = True"
| "for_hosts MuteAll = True"
| "for_hosts UnmuteAll = True"
| "for_hosts LockConference = True"
| "for_hosts UnlockConference = True"
| "for_hosts EndConference = True"
| "for_hosts (DialOut d) = True"
| "for_hosts _ = False"

lemma participant_command_public: "participant_command p d = Some cmd \<Longrightarrow> \<not> for_hosts cmd \<and> cmd \<noteq> EnterDialOut \<and> cmd \<noteq> EnterHostPin"
  by (auto simp: participant_command_def split: if_splits)

lemma match_command_host:
  "match_command c d role = Some cmd \<Longrightarrow> for_hosts cmd \<or> cmd = EnterDialOut \<Longrightarrow> role = Host"
  by (auto simp: match_command_def dest: participant_command_public split: option.splits if_splits)

lemma clear_simps [simp]: "sq_is_host (clear_sequence now s) = sq_is_host s" "sq_entering_dialout (clear_sequence now s) = False"
  "sq_entering_pin (clear_sequence now s) = False" "sq_digits (clear_sequence now s) = []"
  by (simp_all add: clear_sequence_def)

definition dials :: "DtmfCommand \<Rightarrow> bool" where
  "dials cmd = (case cmd of DialOut d \<Rightarrow> True | _ \<Rightarrow> False)"

text \<open>A digit is taken unless it repeats the last one within 80 ms.\<close>

definition taken :: "instant \<Rightarrow> nat \<Rightarrow> SequenceState \<Rightarrow> bool" where
  "taken now digit s \<longleftrightarrow> \<not> (sq_last_digit s = Some digit \<and> now - sq_last_digit_time s < 80000000)"

lemma clear_last [simp]: "sq_last_digit (clear_sequence now s) = sq_last_digit s"
  "sq_last_digit_time (clear_sequence now s) = sq_last_digit_time s" "taken now d (clear_sequence now' s) = taken now d s"
  by (simp_all add: clear_sequence_def taken_def)

lemma encode_utf8_nonempty [simp]: "encode_utf8 c \<noteq> []"
  by (simp add: encode_utf8_def)

text \<open>The three branches of a digit that is taken: what they keep, and which rights they give and need.\<close>

lemma branch_frames [simp]:
  "sq_last_digit (fst (pin_digit now c y)) = sq_last_digit y" "sq_last_digit_time (fst (pin_digit now c y)) = sq_last_digit_time y"
  "sq_last_digit (fst (dialout_digit now d y)) = sq_last_digit y" "sq_last_digit_time (fst (dialout_digit now d y)) = sq_last_digit_time y"
  "sq_last_digit (fst (command_digit now c y)) = sq_last_digit y" "sq_last_digit_time (fst (command_digit now c y)) = sq_last_digit_time y"
  by (auto simp: pin_digit_def dialout_digit_def command_digit_def Let_def split: option.split)

lemma branch_digits:
  "sq_digits (fst (pin_digit now c y)) \<in> {[], sq_digits y}" "sq_digits (fst (dialout_digit now d y)) \<in> {[], sq_digits y}"
  "sq_digits (fst (command_digit now c y)) \<in> {[], sq_digits y}"
  by (auto simp: pin_digit_def dialout_digit_def command_digit_def Let_def split: option.split)

lemma pin_digit_rights:
  "sq_is_host (fst (pin_digit now c y)) \<Longrightarrow> sq_is_host y \<or> dc_host_pin c = Some (sq_digits y)"
  "sq_entering_dialout (fst (pin_digit now c y)) \<Longrightarrow> sq_entering_dialout y"
  "snd (pin_digit now c y) = Some (cmd, role) \<Longrightarrow> \<not> for_hosts cmd"
  by (auto simp: pin_digit_def split: option.splits if_splits)

lemma dialout_digit_rights:
  "sq_is_host (fst (dialout_digit now d y)) = sq_is_host y"
  "sq_entering_dialout (fst (dialout_digit now d y)) \<Longrightarrow> sq_entering_dialout y"
  "snd (dialout_digit now d y) = Some (cmd, role) \<Longrightarrow> for_hosts cmd \<Longrightarrow> dials cmd"
  by (auto simp: dialout_digit_def dials_def Let_def split: if_splits)

lemma command_digit_rights:
  "sq_is_host (fst (command_digit now c y)) = sq_is_host y"
  "sq_entering_dialout (fst (command_digit now c y)) \<Longrightarrow> sq_entering_dialout y \<or> sq_is_host y"
  "snd (command_digit now c y) = Some (cmd, role) \<Longrightarrow> for_hosts cmd \<Longrightarrow> sq_is_host y \<and> \<not> dials cmd"
proof -
  let ?role = "if sq_is_host y then Host else Participant"
  have host: "sq_is_host y" if "match_command c (sq_digits y) ?role = Some x" "for_hosts x \<or> x = EnterDialOut" for x
    using match_command_host [OF that] by (auto split: if_splits)
  have nodial: "match_command c (sq_digits y) ?role \<noteq> Some (DialOut x)" for x
    by (auto simp: match_command_def participant_command_def host_command_def split: option.splits if_splits)
  show "sq_is_host (fst (command_digit now c y)) = sq_is_host y" by (auto simp: command_digit_def Let_def split: option.split)
  show "sq_entering_dialout (fst (command_digit now c y)) \<Longrightarrow> sq_entering_dialout y \<or> sq_is_host y"
    using host by (auto simp: command_digit_def Let_def split: option.splits if_splits)
  assume r: "snd (command_digit now c y) = Some (cmd, role)" "for_hosts cmd"
  then have m: "match_command c (sq_digits y) ?role = Some cmd"
    by (auto simp: command_digit_def Let_def split: option.splits if_splits)
  then show "sq_is_host y \<and> \<not> dials cmd" using host r(2) nodial by (auto simp: dials_def split: DtmfCommand.splits)
qed

text \<open>A digit, taken or not.\<close>

lemma sequence_digit_cases:
  assumes "sequence_digit now c digit s = (s', r)"
  obtains (ignored) "\<not> taken now digit s" "r = None"
      "s' = (if is_expired now (unat (sequence_timeout_ms c) * 1000000) s then clear_sequence now s else s)"
    | (pin) y where "taken now digit s" "sq_entering_pin s" "s' = fst (pin_digit now c y)" "r = snd (pin_digit now c y)" "sq_digits y = sq_digits s @ encode_utf8 digit"
        "sq_is_host y = sq_is_host s" "sq_entering_dialout y = sq_entering_dialout s" "sq_last_digit y = Some digit" "sq_last_digit_time y = now"
    | (dial) y where "taken now digit s" "sq_entering_dialout s" "s' = fst (dialout_digit now digit y)" "r = snd (dialout_digit now digit y)" "sq_digits y = sq_digits s @ encode_utf8 digit"
        "sq_is_host y = sq_is_host s" "sq_last_digit y = Some digit" "sq_last_digit_time y = now"
    | (com) y where "taken now digit s" "\<not> sq_entering_dialout y" "s' = fst (command_digit now c y)" "r = snd (command_digit now c y)" "suffix (sq_digits y) (sq_digits s @ encode_utf8 digit)"
        "sq_is_host y = sq_is_host s" "sq_last_digit y = Some digit" "sq_last_digit_time y = now"
proof -
  let ?s1 = "if is_expired now (unat (sequence_timeout_ms c) * 1000000) s then clear_sequence now s else s"
  let ?y = "?s1\<lparr>sq_last_digit := Some digit, sq_last_digit_time := now, sq_digits := sq_digits ?s1 @ encode_utf8 digit, sq_started_at := now\<rparr>"
  have add: "add_digit now digit ?s1 = (if taken now digit s then (?y, True) else (?s1, False))"
    by (auto simp: add_digit_def taken_def)
  have run: "(s', r) = (if \<not> taken now digit s then (?s1, None) else if sq_entering_pin ?s1 then pin_digit now c ?y
      else if sq_entering_dialout ?s1 then dialout_digit now digit ?y else command_digit now c ?y)"
    using assms unfolding sequence_digit_def Let_def add by (simp split: if_splits)
  have parts: "s' = fst z" "r = snd z" if "(s', r) = z" for z using that by auto
  have same: "?s1 = s" if "sq_entering_pin ?s1 \<or> sq_entering_dialout ?s1" using that by (auto split: if_splits)
  show thesis
  proof (cases "taken now digit s")
    case False
    then show thesis using run ignored by simp
  next
    case t: True
    show thesis
    proof (cases "sq_entering_pin ?s1")
      case True
      then show thesis using parts [OF run] t same by (intro pin [of ?y]) simp_all
    next
      case np: False
      show thesis
      proof (cases "sq_entering_dialout ?s1")
        case True
        then show thesis using parts [OF run] t np same by (intro dial [of ?y]) simp_all
      next
        case False
        then show thesis using parts [OF run] t np by (intro com [of ?y]) simp_all
      qed
    qed
  qed
qed

lemma sequence_digit_rights:
  assumes "sequence_digit now c digit s = (s', r)"
  shows "sq_is_host s' \<Longrightarrow> sq_is_host s \<or> taken now digit s \<and> dc_host_pin c = Some (sq_digits s @ encode_utf8 digit)"
    "sq_entering_dialout s' \<Longrightarrow> sq_entering_dialout s \<or> sq_is_host s"
    "r = Some (cmd, role) \<Longrightarrow> for_hosts cmd \<Longrightarrow> if dials cmd then sq_entering_dialout s else sq_is_host s"
    "suffix (sq_digits s') (if taken now digit s then sq_digits s @ encode_utf8 digit else sq_digits s)"
    "sq_last_digit s' = (if taken now digit s then Some digit else sq_last_digit s)"
    "sq_last_digit_time s' = (if taken now digit s then now else sq_last_digit_time s)"
proof -
  from assms show "sq_is_host s' \<Longrightarrow> sq_is_host s \<or> taken now digit s \<and> dc_host_pin c = Some (sq_digits s @ encode_utf8 digit)"
    by (cases rule: sequence_digit_cases)
      (auto simp: dialout_digit_rights command_digit_rights dest: pin_digit_rights(1) split: if_splits)
  from assms show "sq_entering_dialout s' \<Longrightarrow> sq_entering_dialout s \<or> sq_is_host s"
    by (cases rule: sequence_digit_cases)
      (auto dest: pin_digit_rights(2) dialout_digit_rights(2) command_digit_rights(2) split: if_splits)
  from assms show "r = Some (cmd, role) \<Longrightarrow> for_hosts cmd \<Longrightarrow> if dials cmd then sq_entering_dialout s else sq_is_host s"
    by (cases rule: sequence_digit_cases) (auto dest: pin_digit_rights(3) dialout_digit_rights(3) command_digit_rights(3))
  from assms show "suffix (sq_digits s') (if taken now digit s then sq_digits s @ encode_utf8 digit else sq_digits s)"
  proof (cases rule: sequence_digit_cases)
    case (pin y)
    then show ?thesis using branch_digits(1) [of now c y] by auto
  next
    case (dial y)
    then show ?thesis using branch_digits(2) [of now digit y] by auto
  next
    case (com y)
    then show ?thesis using branch_digits(3) [of now c y] by auto
  qed simp
  from assms show "sq_last_digit s' = (if taken now digit s then Some digit else sq_last_digit s)"
    "sq_last_digit_time s' = (if taken now digit s then now else sq_last_digit_time s)"
    by (cases rule: sequence_digit_cases; auto)+
qed

text \<open>
  Who has authority, from what the participants pressed and what the owner decided, without the handler: a participant that was
  made host and not unmade or removed since, or whose last digits pressed were at some time since then the host PIN. \<open>au_since\<close>
  forgets only those who were removed.
\<close>

datatype dtmf_op = Digit instant bytes nat | SetHost instant bytes bool | ClearParticipant bytes

record authority =
  au_typed :: "bytes \<Rightarrow> bytes"
  au_last :: "bytes \<Rightarrow> (nat \<times> instant) option"
  au_hosts :: "bytes set"
  au_since :: "bytes set"

definition no_authority :: authority where
  "no_authority = \<lparr>au_typed = (\<lambda>_. []), au_last = (\<lambda>_. None), au_hosts = {}, au_since = {}\<rparr>"

definition repeated :: "instant \<Rightarrow> nat \<Rightarrow> (nat \<times> instant) option \<Rightarrow> bool" where
  "repeated now d l = (case l of Some (d', t) \<Rightarrow> d' = d \<and> now - t < 80000000 | None \<Rightarrow> False)"

fun authority_step :: "bytes option \<Rightarrow> dtmf_op \<Rightarrow> authority \<Rightarrow> authority" where
  "authority_step pin (Digit now p d) au =
     (if repeated now d (au_last au p) then au
      else let typed = au_typed au p @ encode_utf8 d;
               known = (case pin of Some x \<Rightarrow> x \<noteq> [] \<and> suffix x typed | None \<Rightarrow> False) in
        au\<lparr>au_typed := (au_typed au)(p := typed), au_last := (au_last au)(p := Some (d, now)),
          au_hosts := (if known then insert p (au_hosts au) else au_hosts au),
          au_since := (if known then insert p (au_since au) else au_since au)\<rparr>)"
| "authority_step pin (SetHost now p b) au =
     (if b then au\<lparr>au_hosts := insert p (au_hosts au), au_since := insert p (au_since au)\<rparr>
      else au\<lparr>au_hosts := au_hosts au - {p}\<rparr>)"
| "authority_step pin (ClearParticipant p) au =
     au\<lparr>au_typed := (au_typed au)(p := []), au_last := (au_last au)(p := None), au_hosts := au_hosts au - {p}, au_since := au_since au - {p}\<rparr>"

fun dtmf_step :: "dtmf_op \<Rightarrow> DtmfCommandHandler \<Rightarrow> DtmfCommandHandler" where
  "dtmf_step (Digit now p d) h = fst (process_digit now p d h)"
| "dtmf_step (SetHost now p b) h = set_host now p b h"
| "dtmf_step (ClearParticipant p) h = clear_participant p h"

definition sequence_of :: "instant \<Rightarrow> bytes \<Rightarrow> DtmfCommandHandler \<Rightarrow> SequenceState" where
  "sequence_of now p h = (case dh_sequences h p of Some s \<Rightarrow> s | None \<Rightarrow> SequenceState_new now)"

lemma process_digit_eq:
  "process_digit now p d h =
     (if \<not> dc_enabled (dh_config h) then (h, None)
      else (case sequence_digit now (dh_config h) d (sequence_of now p h) of
              (s, r) \<Rightarrow> (h\<lparr>dh_sequences := (dh_sequences h)(p \<mapsto> s)\<rparr>, r)))"
  by (simp add: process_digit_def sequence_of_def Let_def)

lemma set_host_eq:
  "set_host now p b h = h\<lparr>dh_sequences := (dh_sequences h)(p \<mapsto> (sequence_of now p h)\<lparr>sq_is_host := b\<rparr>)\<rparr>"
  by (simp add: set_host_def sequence_of_def Let_def)

lemma step_config: "dh_config (dtmf_step e h) = dh_config h"
  by (cases e) (auto simp: process_digit_eq set_host_eq clear_participant_def split: prod.split)

lemma run_config: "dh_config (fold dtmf_step es h) = dh_config h"
  by (induction es arbitrary: h) (auto simp: step_config)

text \<open>The sequence of a participant has no more rights than the participant has authority, and its digits were pressed last.\<close>

definition seq_rep :: "authority \<Rightarrow> bytes \<Rightarrow> SequenceState \<Rightarrow> bool" where
  "seq_rep au p s \<longleftrightarrow> (sq_is_host s \<longrightarrow> p \<in> au_hosts au) \<and> (sq_entering_dialout s \<longrightarrow> p \<in> au_since au) \<and>
     suffix (sq_digits s) (au_typed au p) \<and> sq_last_digit s = map_option fst (au_last au p) \<and>
     (\<forall>d t. au_last au p = Some (d, t) \<longrightarrow> sq_last_digit_time s = t)"

definition authority_rep :: "ConferenceDtmfConfig \<Rightarrow> DtmfCommandHandler \<times> authority \<Rightarrow> bool" where
  "authority_rep c = (\<lambda>(h, au). dh_config h = c \<and> au_hosts au \<subseteq> au_since au \<and> (dc_enabled c \<longrightarrow>
     (\<forall>p. case dh_sequences h p of Some s \<Rightarrow> seq_rep au p s | None \<Rightarrow> au_last au p = None)))"

definition authority_run :: "ConferenceDtmfConfig \<Rightarrow> dtmf_op \<Rightarrow> DtmfCommandHandler \<times> authority \<Rightarrow> DtmfCommandHandler \<times> authority" where
  "authority_run c e = (\<lambda>(h, au). (dtmf_step e h, authority_step (dc_host_pin c) e au))"

lemma authority_run_fold:
  "fold (authority_run c) es (h, au) = (fold dtmf_step es h, fold (authority_step (dc_host_pin c)) es au)"
  by (induction es arbitrary: h au) (simp_all add: authority_run_def)

lemma rep_sequence:
  "authority_rep c (h, au) \<Longrightarrow> dc_enabled c \<Longrightarrow> seq_rep au p (sequence_of now p h)"
proof -
  assume "authority_rep c (h, au)" "dc_enabled c"
  then have "case dh_sequences h p of Some s \<Rightarrow> seq_rep au p s | None \<Rightarrow> au_last au p = None" by (simp add: authority_rep_def)
  then show ?thesis by (cases "dh_sequences h p") (simp_all add: sequence_of_def seq_rep_def SequenceState_new_def)
qed

lemma rep_taken: "seq_rep au p s \<Longrightarrow> taken now d s \<longleftrightarrow> \<not> repeated now d (au_last au p)"
  by (auto simp: seq_rep_def taken_def repeated_def split: option.splits)

lemma rep_other:
  assumes "q \<noteq> p"
  shows "seq_rep (authority_step pin (Digit now p d) au) q s = seq_rep au q s" "seq_rep (authority_step pin (SetHost now p b) au) q s = seq_rep au q s"
    "seq_rep (authority_step pin (ClearParticipant p) au) q s = seq_rep au q s"
    "au_last (authority_step pin (Digit now p d) au) q = au_last au q" "au_last (authority_step pin (ClearParticipant p) au) q = au_last au q"
  using assms by (auto simp: seq_rep_def Let_def split: option.splits)

lemma rep_digit:
  assumes "seq_rep au p s" "sequence_digit now c d s = (s', r)" "au_hosts au \<subseteq> au_since au"
  shows "seq_rep (authority_step (dc_host_pin c) (Digit now p d) au) p s'"
proof (cases "taken now d s")
  case False
  then have "repeated now d (au_last au p)" using rep_taken [OF assms(1)] by simp
  then show ?thesis using sequence_digit_rights [OF assms(2)] False assms(1,3) unfolding seq_rep_def
    by (auto intro: suffix_order.trans)
next
  case True
  then have "\<not> repeated now d (au_last au p)" using rep_taken [OF assms(1)] by simp
  moreover have "suffix (sq_digits s @ encode_utf8 d) (au_typed au p @ encode_utf8 d)" using assms(1) by (simp add: seq_rep_def suffix_def)
  ultimately show ?thesis using sequence_digit_rights [OF assms(2)] True assms(1,3) unfolding seq_rep_def
    by (auto simp: Let_def intro: suffix_order.trans split: option.splits)
qed

lemma step_hosts_since: "au_hosts au \<subseteq> au_since au \<Longrightarrow> au_hosts (authority_step pin e au) \<subseteq> au_since (authority_step pin e au)"
  by (cases e) (auto simp: Let_def)

interpretation dtmf: stepped_system "authority_rep c" "authority_run c" for c
proof
  fix x e assume ok: "authority_rep c x"
  obtain h au where x: "x = (h, au)" by (cases x)
  have cfg: "dh_config h = c" and sub: "au_hosts au \<subseteq> au_since au" using ok by (simp_all add: x authority_rep_def)
  let ?au = "authority_step (dc_host_pin c) e au"
  have "dh_config (dtmf_step e h) = c" by (simp add: step_config cfg)
  moreover have "case dh_sequences (dtmf_step e h) q of Some s \<Rightarrow> seq_rep ?au q s | None \<Rightarrow> au_last ?au q = None" if on: "dc_enabled c" for q
  proof -
    have old: "case dh_sequences h q of Some s \<Rightarrow> seq_rep au q s | None \<Rightarrow> au_last au q = None" using ok on by (simp add: x authority_rep_def)
    show ?thesis
    proof (cases e)
      case (Digit now p d)
      obtain s r where s: "sequence_digit now c d (sequence_of now p h) = (s, r)" by (cases "sequence_digit now c d (sequence_of now p h)")
      have "seq_rep ?au p s" unfolding Digit by (rule rep_digit [OF rep_sequence [OF ok [unfolded x] on] s sub])
      then show ?thesis using old on by (auto simp: Digit process_digit_eq cfg s rep_other Let_def simp del: authority_step.simps(1) split: option.splits)
    next
      case (SetHost now p b)
      have "seq_rep au p (sequence_of now p h)" by (rule rep_sequence [OF ok [unfolded x] on])
      then have new: "seq_rep ?au p ((sequence_of now p h)\<lparr>sq_is_host := b\<rparr>)" by (auto simp: SetHost seq_rep_def)
      have "au_last ?au = au_last au" by (simp add: SetHost)
      then show ?thesis using old new by (auto simp: SetHost set_host_eq rep_other simp del: authority_step.simps(2) split: option.splits)
    next
      case (ClearParticipant p)
      have "au_last ?au p = None" by (simp add: ClearParticipant)
      then show ?thesis
        using old by (cases "q = p") (auto simp: ClearParticipant clear_participant_def rep_other simp del: authority_step.simps(3) split: option.splits)
    qed
  qed
  ultimately show "authority_rep c (authority_run c e x)"
    using step_hosts_since [OF sub, of "dc_host_pin c" e] by (simp add: x authority_run_def authority_rep_def)
qed

lemma authority_reached: "authority_rep c (fold dtmf_step es (DtmfCommandHandler_new c), fold (authority_step (dc_host_pin c)) es no_authority)"
proof -
  have "authority_rep c (DtmfCommandHandler_new c, no_authority)"
    by (simp add: authority_rep_def DtmfCommandHandler_new_def no_authority_def)
  from dtmf.run_inv [OF this, of es] show ?thesis by (simp add: authority_run_fold)
qed

text \<open>
  C13. Host commands need authority. Whatever digits participants press, whoever is made host or unmade and whoever leaves, a
  participant for whom a host command is recognised has authority at that time: it was made host, or the digits it pressed last
  were at some time the host PIN, and neither a withdrawal nor its removal came since. Only a number to call may be
  completed after a withdrawal, if the participant had authority since it last joined.
\<close>

theorem dtmf_host_commands_need_authority:
  assumes "au = fold (authority_step (dc_host_pin c)) es no_authority"
    "snd (process_digit now p d (fold dtmf_step es (DtmfCommandHandler_new c))) = Some (cmd, role)" "for_hosts cmd"
  shows "if dials cmd then p \<in> au_since au else p \<in> au_hosts au"
proof -
  let ?h = "fold dtmf_step es (DtmfCommandHandler_new c)"
  have rep: "authority_rep c (?h, au)" unfolding assms(1) by (rule authority_reached)
  then have cfg: "dh_config ?h = c" by (simp add: authority_rep_def)
  have on: "dc_enabled c" using assms(2) by (auto simp: process_digit_eq cfg split: if_splits)
  obtain s r where s: "sequence_digit now c d (sequence_of now p ?h) = (s, r)" by (cases "sequence_digit now c d (sequence_of now p ?h)")
  have "r = Some (cmd, role)" using assms(2) s on by (simp add: process_digit_eq cfg)
  from sequence_digit_rights(3) [OF s this assms(3)] rep_sequence [OF rep on, of p now]
  show ?thesis by (auto simp: seq_rep_def split: if_splits)
qed

text \<open>
  Only the PIN makes a host by digits: when a digit authenticates a participant, the participant was entering the
  PIN, and the digits since the prompt with this one are the host PIN.
\<close>

theorem dtmf_pin_accepted:
  assumes "snd (process_digit now p d h) = Some (EnterHostPin, Host)"
  shows "\<exists>s. dh_sequences h p = Some s \<and> sq_entering_pin s \<and> dc_host_pin (dh_config h) = Some (sq_digits s @ encode_utf8 d)"
proof -
  let ?s = "sequence_of now p h"
  obtain s' where s: "sequence_digit now (dh_config h) d ?s = (s', Some (EnterHostPin, Host))"
    using assms by (cases "sequence_digit now (dh_config h) d ?s") (auto simp: process_digit_eq split: if_splits)
  have com: "command_digit now c s2 \<noteq> (x, Some (EnterHostPin, Host))" for c s2 x
    by (auto simp: command_digit_def Let_def split: option.splits if_splits)
  have dial: "dialout_digit now d s2 \<noteq> (x, Some (EnterHostPin, Host))" for s2 x
    by (auto simp: dialout_digit_def Let_def split: if_splits)
  have ex: "sq_entering_pin ?s \<and> dc_host_pin (dh_config h) = Some (sq_digits ?s @ encode_utf8 d)"
    using s com dial
    by (auto simp: sequence_digit_def add_digit_def pin_digit_def Let_def split: if_splits option.splits bool.splits prod.splits)
  then show ?thesis by (cases "dh_sequences h p") (auto simp: sequence_of_def SequenceState_new_def)
qed

definition dtmf_sample :: ConferenceDtmfConfig where
  "dtmf_sample = ConferenceDtmfConfig_default\<lparr>dc_host_pin := Some (str ''12'')\<rparr>"

definition dtmf_sample_ops :: "dtmf_op list" where
  "dtmf_sample_ops = [Digit 1 [7] 0x2A, Digit 2 [7] 0x39, Digit 3 [7] 0x33, Digit 4 [7] 0x31, Digit 5 [7] 0x32, Digit 6 [7] 0x2A, Digit 7 [7] 0x39]"

lemmas dtmf_defs = process_digit_def sequence_digit_def add_digit_def is_expired_def command_digit_def pin_digit_def match_command_def
  participant_command_def is_host_command_prefix_def longest_host_command_length_def is_partial_match_def host_command_def is_host_command_def
  begins_with_def clear_sequence_def SequenceState_new_def set_host_def DtmfCommandHandler_new_def ConferenceDtmfConfig_default_def
  ParticipantCommands_default_def HostCommands_default_def str_def encode_utf8_def

theorem dtmf_host_commands_need_authority_witness:
  "snd (process_digit 8 [7] 0x31 (fold dtmf_step dtmf_sample_ops (DtmfCommandHandler_new dtmf_sample))) = Some (MuteAll, Host) \<and>
   [7] \<in> au_hosts (fold (authority_step (Some (str ''12''))) dtmf_sample_ops no_authority)"
proof -
  have r: "snd (process_digit 8 [7] 0x31 (fold dtmf_step dtmf_sample_ops (DtmfCommandHandler_new dtmf_sample))) = Some (MuteAll, Host)"
    by (simp add: dtmf_sample_ops_def dtmf_sample_def dtmf_defs Let_def)
  from dtmf_host_commands_need_authority [OF refl r] r show ?thesis by (simp add: dials_def dtmf_sample_def)
qed

text \<open>
  A host whose rights are withdrawn while it dials out completes the call all the same.
\<close>

theorem dtmf_withdrawn_host_dials:
  "snd (process_digit 6 [7] 0x23 (fold dtmf_step
     [SetHost 0 [7] True, Digit 1 [7] 0x2A, Digit 2 [7] 0x35, SetHost 3 [7] False, Digit 4 [7] 0x34, Digit 5 [7] 0x32]
     (DtmfCommandHandler_new dtmf_sample))) = Some (DialOut (str ''42''), Host)"
  by (simp add: dtmf_sample_def dtmf_defs dialout_digit_def Let_def)

theorem dtmf_pin_accepted_witness:
  "\<exists>h s. snd (process_digit 5 [7] 0x32 h) = Some (EnterHostPin, Host) \<and> dh_sequences h [7] = Some s \<and> sq_digits s = [0x31]"
proof -
  let ?h = "fold dtmf_step [Digit 1 [7] 0x2A, Digit 2 [7] 0x39, Digit 3 [7] 0x33, Digit 4 [7] 0x31] (DtmfCommandHandler_new dtmf_sample)"
  have r: "snd (process_digit 5 [7] 0x32 ?h) = Some (EnterHostPin, Host)"
    by (simp add: dtmf_sample_def dtmf_defs Let_def)
  have pin: "dc_host_pin (dh_config ?h) = Some [0x31, 0x32]" by (simp add: dtmf_sample_def dtmf_defs Let_def)
  from dtmf_pin_accepted [OF r] pin show ?thesis using r by (intro exI [of _ ?h]) (auto simp: encode_utf8_def)
qed

subsection \<open>Commands that cannot be given\<close>

definition default_commands :: "ConferenceDtmfConfig \<Rightarrow> bool" where
  "default_commands c \<longleftrightarrow> participant_commands c = ParticipantCommands_default \<and> host_commands c = HostCommands_default"

text \<open>
  With the default commands nobody can ask for the information or leave: \<open>*0\<close> and \<open>*9\<close> also begin host
  commands, so that they stay incomplete, for participants and hosts alike.
\<close>

theorem dtmf_info_leave_unreachable:
  assumes "default_commands (dh_config h)"
  shows "snd (process_digit now p d h) \<noteq> Some (Info, role) \<and> snd (process_digit now p d h) \<noteq> Some (Leave, role)"
proof -
  let ?c = "dh_config h"
  have m: "match_command ?c ds r \<noteq> Some Info \<and> match_command ?c ds r \<noteq> Some Leave" for ds r
    using assms
    by (auto simp: default_commands_def match_command_def participant_command_def host_command_def is_host_command_prefix_def
        longest_host_command_length_def begins_with_def ParticipantCommands_default_def HostCommands_default_def str_def
        split: option.splits if_splits)
  have com: "snd (command_digit now ?c s) \<noteq> Some (Info, role) \<and> snd (command_digit now ?c s) \<noteq> Some (Leave, role)" for s
    using m by (auto simp: command_digit_def Let_def split: option.splits if_splits)
  have pin: "snd (pin_digit now ?c s) \<noteq> Some (Info, role) \<and> snd (pin_digit now ?c s) \<noteq> Some (Leave, role)" for s
    by (auto simp: pin_digit_def split: option.splits)
  have dial: "snd (dialout_digit now d s) \<noteq> Some (Info, role) \<and> snd (dialout_digit now d s) \<noteq> Some (Leave, role)" for s
    by (auto simp: dialout_digit_def Let_def)
  have seq: "snd (sequence_digit now ?c d s) \<noteq> Some (Info, role) \<and> snd (sequence_digit now ?c d s) \<noteq> Some (Leave, role)" for s
    using com pin dial unfolding sequence_digit_def Let_def by (simp split: prod.split bool.split)
  show ?thesis using seq [of "sequence_of now p h"] by (cases "sequence_digit now ?c d (sequence_of now p h)") (simp add: process_digit_eq)
qed

text \<open>Digits that wait for more are a partial match.\<close>

definition waiting_ok :: "ConferenceDtmfConfig \<Rightarrow> SequenceState \<Rightarrow> bool" where
  "waiting_ok c s \<longleftrightarrow> sq_entering_pin s \<or> sq_entering_dialout s \<or> sq_digits s = [] \<or> is_partial_match c (sq_digits s)"

definition all_waiting :: "DtmfCommandHandler \<Rightarrow> bool" where
  "all_waiting h \<longleftrightarrow> (\<forall>p s. dh_sequences h p = Some s \<longrightarrow> waiting_ok (dh_config h) s)"

lemma host_command_complete: "host_command h d \<noteq> Some Incomplete" "participant_command p d \<noteq> Some Incomplete"
  by (auto simp: host_command_def participant_command_def split: option.split)

lemma match_incomplete: "match_command c d role = Some Incomplete \<Longrightarrow> is_partial_match c d"
  using host_command_complete
  by (auto simp: match_command_def is_partial_match_def split: option.splits if_splits)

lemma sequence_digit_waiting:
  assumes "waiting_ok c s" "sequence_digit now c digit s = (s', r)"
  shows "waiting_ok c s'"
proof -
  let ?s1 = "if is_expired now (unat (sequence_timeout_ms c) * 1000000) s then clear_sequence now s else s"
  obtain s2 b where a: "add_digit now digit ?s1 = (s2, b)" by (cases "add_digit now digit ?s1")
  have w1: "waiting_ok c ?s1" using assms(1) by (simp add: waiting_ok_def)
  have com: "waiting_ok c (fst (command_digit now c s2))"
    using match_incomplete by (auto simp: command_digit_def Let_def waiting_ok_def split: option.split)
  have pin: "sq_entering_pin s2 \<Longrightarrow> waiting_ok c (fst (pin_digit now c s2))"
    by (auto simp: pin_digit_def waiting_ok_def split: option.split)
  have dial: "sq_entering_dialout s2 \<Longrightarrow> waiting_ok c (fst (dialout_digit now digit s2))"
    by (auto simp: dialout_digit_def waiting_ok_def Let_def)
  show ?thesis
  proof (cases b)
    case False
    then have "s2 = ?s1" using a by (simp add: add_digit_def split: if_splits)
    then show ?thesis using assms(2) w1 False by (simp add: sequence_digit_def a)
  next
    case True
    then have "s' = fst (if sq_entering_pin s2 then pin_digit now c s2 else if sq_entering_dialout s2 then dialout_digit now digit s2
        else command_digit now c s2)" using assms(2) by (simp add: sequence_digit_def a split: if_splits)
    then show ?thesis using pin dial com by simp
  qed
qed

lemma new_waiting [simp]: "waiting_ok c (SequenceState_new now)"
  by (simp add: waiting_ok_def SequenceState_new_def)

lemma waiting_sequence: "all_waiting h \<Longrightarrow> waiting_ok (dh_config h) (sequence_of now p h)"
  by (auto simp: all_waiting_def sequence_of_def split: option.split)

interpretation dtmf_waiting: stepped_system all_waiting dtmf_step
proof
  fix h e assume ok: "all_waiting h"
  show "all_waiting (dtmf_step e h)"
  proof (cases e)
    case (Digit now p d)
    obtain s r where s: "sequence_digit now (dh_config h) d (sequence_of now p h) = (s, r)" by (cases "sequence_digit now (dh_config h) d (sequence_of now p h)")
    have "waiting_ok (dh_config h) s" by (rule sequence_digit_waiting [OF waiting_sequence [OF ok] s])
    then show ?thesis using ok by (auto simp: Digit process_digit_eq s all_waiting_def)
  next
    case (SetHost now p b)
    have "waiting_ok (dh_config h) (sequence_of now p h)" by (rule waiting_sequence [OF ok])
    then show ?thesis using ok by (auto simp: SetHost set_host_eq all_waiting_def waiting_ok_def)
  next
    case (ClearParticipant p)
    then show ?thesis using ok by (auto simp: clear_participant_def all_waiting_def)
  qed
qed

lemma begins_with_head: "begins_with s d \<Longrightarrow> d = [] \<or> (s \<noteq> [] \<and> hd d = hd s)"
  by (cases d; cases s) (auto simp: begins_with_def)

lemma partial_hash:
  assumes "default_commands c" "is_partial_match c d"
  shows "d = [] \<or> hd d = 0x2A \<or> d = [0x23] \<or> d = [0x23, 0x23]"
proof -
  have "begins_with [0x23, 0x23] d \<Longrightarrow> d = [] \<or> d = [0x23] \<or> d = [0x23, 0x23]"
    by (cases d; cases "tl d") (auto simp: begins_with_def take_Cons' split: if_splits)
  moreover have "begins_with [0x23, 0x23] d \<or> (\<exists>xs. begins_with (0x2A # xs) d)"
    using assms
    by (auto simp: default_commands_def is_partial_match_def is_host_command_prefix_def ParticipantCommands_default_def
        HostCommands_default_def str_def)
  ultimately show ?thesis by (auto dest: begins_with_head)
qed

lemma encode_utf8_hd:
  assumes "c < 0x110000"
  shows "encode_utf8 c = [of_nat c] \<and> c < 0x80 \<or> 0x80 \<le> hd (encode_utf8 c)"
proof -
  have le: "0x80 \<le> (of_nat n :: u8)" if "128 \<le> n" "n < 256" for n
    using that by (simp add: word_le_nat_alt unsigned_of_nat take_bit_nat_eq_self)
  have two: "0x80 \<le> (of_nat (0xC0 + c div 0x40) :: u8)" if "c < 0x800"
  proof (rule le)
    have "c div 0x40 < 0x20" using that by (simp add: less_mult_imp_div_less)
    then show "0xC0 + c div 0x40 < 256" by simp
  qed simp
  have three: "0x80 \<le> (of_nat (0xE0 + c div 0x1000) :: u8)" if "c < 0x10000"
  proof (rule le)
    have "c div 0x1000 < 0x10" using that by (simp add: less_mult_imp_div_less)
    then show "0xE0 + c div 0x1000 < 256" by simp
  qed simp
  have four: "0x80 \<le> (of_nat (0xF0 + c div 0x40000) :: u8)"
  proof (rule le)
    have "c div 0x40000 < 0x8" using assms by (simp add: less_mult_imp_div_less)
    then show "0xF0 + c div 0x40000 < 256" by simp
  qed simp
  show ?thesis unfolding encode_utf8_def using two three four by (simp del: of_nat_add)
qed

lemma parse_usize_single: "parse_usize [b] = Some n \<Longrightarrow> n \<le> 9"
  by (auto simp: parse_usize_def is_ascii_digit_def Let_def word_le_nat_alt unat_sub_if' split: if_splits)

lemma parse_usize_high: "0x80 \<le> hd xs \<Longrightarrow> parse_usize xs = None"
  by (cases xs) (auto simp: parse_usize_def is_ascii_digit_def Let_def word_le_nat_alt split: if_splits)

lemma kick_digits:
  assumes "ds = [] \<or> hd ds = 0x2A \<or> ds = [0x23] \<or> ds = [0x23, 0x23]" "d < 0x110000"
    "begins_with (ds @ encode_utf8 d) [0x23, 0x23]" "parse_usize (drop 2 (ds @ encode_utf8 d)) = Some n"
  shows "n \<le> 9"
proof -
  have none: "parse_usize [] = None" by (simp add: parse_usize_def)
  have pre: "take 2 (ds @ encode_utf8 d) = [0x23, 0x23]" using assms(3) by (simp add: begins_with_def numeral_2_eq_2)
  have head: "hd (ds @ encode_utf8 d) = 0x23" using pre by (cases "ds @ encode_utf8 d") auto
  show ?thesis using encode_utf8_hd [OF assms(2)]
  proof (elim disjE conjE)
    assume e: "encode_utf8 d = [of_nat d]"
    from assms(1) show ?thesis
    proof (elim disjE)
      assume "ds = []" then show ?thesis using pre e by simp
    next
      assume "hd ds = 0x2A" then show ?thesis using head pre e by (cases ds) auto
    next
      assume "ds = [0x23]" then show ?thesis using assms(4) e none by simp
    next
      assume "ds = [0x23, 0x23]" then show ?thesis using assms(4) e parse_usize_single by simp
    qed
  next
    assume e: "0x80 \<le> hd (encode_utf8 d)"
    then have ne: "hd (encode_utf8 d) \<noteq> 0x23" by auto
    from assms(1) show ?thesis
    proof (elim disjE)
      assume "ds = []" then show ?thesis using head ne by simp
    next
      assume "hd ds = 0x2A" then show ?thesis using head ne by (cases ds) auto
    next
      assume "ds = [0x23]" then show ?thesis using pre ne by (cases "encode_utf8 d") auto
    next
      assume "ds = [0x23, 0x23]" then show ?thesis using assms(4) parse_usize_high [OF e] by simp
    qed
  qed
qed

text \<open>
  With the default commands only the participants 0 to 9 can be removed: the first digit after \<open>##\<close> completes the
  command.
\<close>

theorem dtmf_kick_one_digit:
  assumes "default_commands c" "h = fold dtmf_step es (DtmfCommandHandler_new c)" "d < 0x110000"
    "snd (process_digit now p d h) = Some (KickParticipant n, role)"
  shows "n \<le> 9"
proof -
  have "all_waiting (DtmfCommandHandler_new c)" by (simp add: all_waiting_def DtmfCommandHandler_new_def)
  from dtmf_waiting.run_inv [OF this, of es] have ok: "all_waiting h" by (simp add: assms(2))
  have cfg: "dh_config h = c" using run_config [of es "DtmfCommandHandler_new c"] assms(2) by (simp add: DtmfCommandHandler_new_def)
  let ?s = "sequence_of now p h"
  let ?s1 = "if is_expired now (unat (sequence_timeout_ms c) * 1000000) ?s then clear_sequence now ?s else ?s"
  have w: "waiting_ok c ?s1" using waiting_sequence [OF ok, of now p] by (simp add: cfg waiting_ok_def)
  let ?s2 = "?s1\<lparr>sq_last_digit := Some d, sq_last_digit_time := now, sq_digits := sq_digits ?s1 @ encode_utf8 d, sq_started_at := now\<rparr>"
  have r: "snd (sequence_digit now c d ?s) = Some (KickParticipant n, role)"
    using assms(4) by (cases "sequence_digit now c d ?s") (simp add: process_digit_eq cfg split: if_splits)
  have pin: "snd (pin_digit now c s) \<noteq> Some (KickParticipant n, role)" for s by (auto simp: pin_digit_def split: option.splits)
  have dial: "snd (dialout_digit now d s) \<noteq> Some (KickParticipant n, role)" for s by (auto simp: dialout_digit_def Let_def)
  have com: "snd (command_digit now c ?s2) = Some (KickParticipant n, role)" "\<not> sq_entering_pin ?s1" "\<not> sq_entering_dialout ?s1"
    using r pin dial unfolding sequence_digit_def Let_def add_digit_def by (auto split: if_splits)
  have "match_command c (sq_digits ?s2) (if sq_is_host ?s2 then Host else Participant) = Some (KickParticipant n)"
    using com(1) by (auto simp: command_digit_def Let_def split: option.splits if_splits)
  then have k: "begins_with (sq_digits ?s2) [0x23, 0x23]" "parse_usize (drop 2 (sq_digits ?s2)) = Some n"
    using assms(1)
    by (auto simp: match_command_def participant_command_def host_command_def default_commands_def HostCommands_default_def str_def
        numeral_2_eq_2 split: option.splits if_splits)
  let ?d = "sq_digits ?s1"
  have d: "?d = [] \<or> hd ?d = 0x2A \<or> ?d = [0x23] \<or> ?d = [0x23, 0x23]"
    using w com(2,3) partial_hash [OF assms(1), of ?d] unfolding waiting_ok_def by blast
  have k': "begins_with (?d @ encode_utf8 d) [0x23, 0x23]" "parse_usize (drop 2 (?d @ encode_utf8 d)) = Some n"
    using k by simp_all
  from kick_digits [OF d assms(3) k'] show ?thesis .
qed

end
