(* ===== verification/Spec2Isabelle.thy ===== *)
theory Spec2Isabelle
  imports Rtp_Packet Jitter_Buffer Port_Pool Bfcp_Server Bfcp_Transport Dtmf_Collection G711 Rtcp Video_Assembler
    Video_Stream Ice_Agent Srtp Webm_Roundtrip Kernel_Forward Conference_Control
begin

text \<open>
  Verification of the Forge media engine, a media server for voice and video over IP written in Rust.
  A session receives RTP over UDP ports taken from a port pool, reorders it in a jitter buffer, decodes
  it, watches it for DTMF, mixes or forwards it and reports on it in RTCP; a conference grants its floor
  over BFCP. This development models the parts that carry protocol logic and shows what makes them
  correct. File names below are relative to \<^verbatim>\<open>src/crates\<close>.

  \<^bold>\<open>Theories and sources.\<close>

  \<^item> \<^verbatim>\<open>Forge_Prelude\<close>: machine integers, big-endian bytes, \<^verbatim>\<open>forge-core/src/error.rs\<close>, shared lemmas and
    the interfaces: \<open>prefix_codec\<close> (a decoder reads back what its encoder wrote in front of anything;
    interpreted by 16- and 32-bit integers, RTCP report blocks and SDES chunks), \<open>stepped_system\<close>
    (operations that keep an invariant; jitter buffer, port pool, UDP peer, frame assembler, video cache,
    TURN client, ICE agent, SRTP context, conference commands) and \<open>transition_system\<close> (a step relation with an invariant; the floor server).
  \<^item> \<^verbatim>\<open>Utf8\<close>: \<^verbatim>\<open>String::from_utf8_lossy\<close> and character boundaries. \<^verbatim>\<open>Btree_Map\<close>: \<^verbatim>\<open>BTreeMap\<close> as a sorted
    association list.
  \<^item> \<^verbatim>\<open>Rtp_Packet\<close>: \<^verbatim>\<open>forge-rtp/src/rtp.rs\<close>, header, packet and RFC 8285 extension elements. Writing and
    parsing are inverse in both directions.
  \<^item> \<^verbatim>\<open>Jitter_Buffer\<close>: \<^verbatim>\<open>forge-rtp/src/jitter.rs\<close>. The buffer stays bounded and sorted, \<^verbatim>\<open>pop\<close> returns
    packets in order after the target delay, and its loop terminates because every skipped number brings
    the oldest packet nearer.
  \<^item> \<^verbatim>\<open>Port_Pool\<close>: \<^verbatim>\<open>forge-rtp/src/port_pool.rs\<close>. Free and allocated ports partition the range. The random
    choice of each allocation is an argument with its documented range as hypothesis.
  \<^item> \<^verbatim>\<open>Rtcp\<close>: \<^verbatim>\<open>forge-rtp/src/rtcp.rs\<close>. Compound packets are read frame by frame and read back what was
    written; NACKs report exactly the lost packets, in the least number of
    entries unless they span nearly the whole number space; REMB rates are bounded.
  \<^item> \<^verbatim>\<open>G711\<close>: \<^verbatim>\<open>forge-codecs/src/g711.rs\<close>. The tables are those of the recommendation and encoding is
    nearest, by one locale (\<open>companding\<close>) interpreted for both laws.
  \<^item> \<^verbatim>\<open>Bfcp_Message\<close>, \<^verbatim>\<open>Bfcp_Server\<close>, \<^verbatim>\<open>Bfcp_Transport\<close>: \<^verbatim>\<open>forge-bfcp/src/message.rs\<close>, \<^verbatim>\<open>server.rs\<close>,
    \<^verbatim>\<open>transport.rs\<close>. The codec round-trips; the floor server keeps its invariant over every sequence of
    client and owner steps, has one holder, answers every message and changes nothing when it refuses;
    TCP framing does not depend on how the stream is cut; UDP requests are handled once and
    notifications retransmitted on schedule.
  \<^item> \<^verbatim>\<open>Dtmf_Events\<close>, \<^verbatim>\<open>Dtmf_Collection\<close>: \<^verbatim>\<open>forge-dtmf/src/detector.rs\<close>, \<^verbatim>\<open>rfc2833.rs\<close>, \<^verbatim>\<open>relay.rs\<close>, and
    \<^verbatim>\<open>buffer.rs\<close>, \<^verbatim>\<open>dedup.rs\<close>, \<^verbatim>\<open>processor.rs\<close>. Telephone events round-trip and are relayed; the
    deduplicator refines a map of the last published events; the processor's buffer collects the digits
    its calls returned, for any inband detector.

  \<^item> \<^verbatim>\<open>Video_Payload\<close>, \<^verbatim>\<open>Video_Roundtrip\<close>: \<^verbatim>\<open>forge-rtp/src/video/payload.rs\<close> and the inspection in \<^verbatim>\<open>mod.rs\<close>, for
    H.264, H.265, VP8, VP9 and AV1. A frame cut into payloads comes back from them, and the payloads that
    begin a key frame are recognised. One locale (\<open>nal_format\<close>, extended by \<open>nal_inspection\<close>) covers both
    formats of NAL units.
  \<^item> \<^verbatim>\<open>Video_Assembler\<close>: \<^verbatim>\<open>forge-rtp/src/video/assembler.rs\<close>. Packets in any order within the window give
    what they would give in order; with the payload formats, a frame survives the network as one event; the
    assembler is bounded and calls its picture valid only after a key frame.
  \<^item> \<^verbatim>\<open>Video_Stream\<close>: \<^verbatim>\<open>StreamRewriter\<close> of \<^verbatim>\<open>forge-rtp/src/video/mod.rs\<close> and \<^verbatim>\<open>cache.rs\<close>. One outgoing stream out
    of many sources, with every packet, number and timestamp of it determined; the cache that answers NACKs, and the gate for key frame requests.
  \<^item> \<^verbatim>\<open>Stun\<close>: \<^verbatim>\<open>forge-ice/src/stun.rs\<close>. Messages read back and stay verifiable over the octets received, the
    checksum detects short bursts of errors, and the server answers only requests that prove knowledge of
    the password, and all of those that carry a correct FINGERPRINT. HMAC-SHA1 is the parameter \<open>mac\<close>, with \<open>hmac_ok\<close> (any key, tags of 20 octets) as hypothesis.
  \<^item> \<^verbatim>\<open>Turn\<close>: \<^verbatim>\<open>forge-ice/src/turn.rs\<close>. Transactions over a network that is a parameter: responses are authentic,
    relayed data that arrives meanwhile is kept, channels stay unique.
  \<^item> \<^verbatim>\<open>Ice_Agent\<close>: \<^verbatim>\<open>forge-ice/src/candidate.rs\<close>, \<^verbatim>\<open>gather.rs\<close>, \<^verbatim>\<open>agent.rs\<close>, \<^verbatim>\<open>checks.rs\<close>. The agent keeps its pairs sorted and
    selects the best one that works; parallel checks are sequential ones whose requests are cut off at a time limit;
    its checks pass the server of \<^verbatim>\<open>Stun\<close> at the peer.
  \<^item> \<^verbatim>\<open>Srtp\<close>: \<^verbatim>\<open>forge-rtp/src/srtp.rs\<close>. A stream protected by one side is delivered by the other, each packet once,
    through wraps of the sequence number, reordering, repetition and loss; no packet is accepted twice and no
    block of key stream is used twice. AES, AES-GCM and HMAC-SHA1 are the record \<open>crypto\<close>, with \<open>crypto_ok\<close>
    (the lengths they take and give, and that GCM decrypts what it encrypted) as hypothesis.
  \<^item> \<^verbatim>\<open>Ebml\<close>, \<^verbatim>\<open>Webm\<close>, \<^verbatim>\<open>Webm_Roundtrip\<close>: \<^verbatim>\<open>forge-webm/src/ebml.rs\<close>, \<^verbatim>\<open>lib.rs\<close>, \<^verbatim>\<open>read.rs\<close>. What the writer records the
    reader gives back, frame by frame with tracks, cues and sizes, from a finished file and from one that was
    abandoned; frames in order are all accepted.
  \<^item> \<^verbatim>\<open>Kernel_Forward\<close>: \<^verbatim>\<open>forge-kernel-ebpf/src/lib.rs\<close>, the XDP program, for both orders of octets of a machine. Which
    packets are sent on, dropped and passed is stated exactly, and what is sent is the packet rewritten by the rule of
    its flow, up to the checksums, which are among the findings.
  \<^item> \<^verbatim>\<open>Conference_Control\<close>: \<^verbatim>\<open>forge-conference/src/pin_auth.rs\<close>, \<^verbatim>\<open>dtmf_commands.rs\<close> and the PINs of \<^verbatim>\<open>config.rs\<close>. A guesser
    has a bounded number of chances, and host commands need the host PIN or the owner's consent, not withdrawn since.

  \<^bold>\<open>Conventions.\<close> A struct is a record, an enum a datatype; integers keep their width as words and
  arithmetic wraps where a release build wraps; \<^verbatim>\<open>usize\<close> is \<^typ>\<open>nat\<close>, with the 64-bit bound written out
  where the code checks it. \<^verbatim>\<open>Result\<close> is a sum with \<open>Inl\<close> the error. A method on \<^verbatim>\<open>&mut self\<close> returns
  the new record. A clock reading is an argument in nanoseconds. Where a panic is possible (a division by
  a sample rate of 0, exhausted request ids) the model returns no value and the theorems say when it has
  one. Loops are recursive functions with termination proofs; no fuel is used. Log messages, locks and
  capacity hints are left out.

  \<^bold>\<open>Findings.\<close> Some theorems state behaviour that the code's own comments contradict: the jitter buffer
  evicts the newest packet across the wrap-around, a press whose first telephone-event packet is lost is
  never reported, the 16-bit duration of a press wraps round, RTCP counts overflow into the padding flag
  and padding is read as feedback, a NACK whose windows could reach round the number space has an entry too many, BFCP replies may lack the responder flag or not fit the wire, the TCP
  framer mishandles fragments, queued notifications may be overtaken, \<open>\<mu>\<close>-law silence is encoded as the
  negative zero, the capacity of an odd port range is one short, the rest of a key frame whose first slice
  was lost is taken for a whole one, the rewriter may repeat a sequence number or a timestamp, the STUN
  server ignores the FINGERPRINT it is said to require, attributes after MESSAGE-INTEGRITY are used
  unprotected, the TURN client reports unauthenticated messages as success, parallel checks panic without
  pairs, two ICE agents order mirrored pairs differently, OpenVPN interfaces count as Ethernet, SRTP
  protects a packet that is sent late, from before a wrap of the sequence number, with a wrong index, a
  WebM keyframe that is refused leaves its cue, the checksums of packets forwarded in the kernel are wrong on
  little-endian machines and off by one after a borrow, guesses of the host PIN are not counted where no guest
  PIN is required, a host whose rights are withdrawn while it dials out completes the call, and some default commands of a conference can never be given.

  \<^bold>\<open>Not modelled.\<close> The text form of ICE candidates, the ICE state machine of
  \<^verbatim>\<open>forge-webrtc/src/transport.rs\<close> and the container of \<^verbatim>\<open>forge-mp4\<close>, which could be modelled in the same way. Out of reach:
  floating-point signal processing (inband DTMF, mixer gains, resampling, voice activity), cryptography and
  codecs of other libraries, asynchronous socket and Redis code, and the HTTP interface.
\<close>

end
